(* ===== verification/Prelude.thy ===== *)
theory Prelude
  imports Main "HOL-Library.Word"
begin

text \<open>
  Shared vocabulary of the development: the widths of the machine integers the engine uses, the
  three ways a Rust function can end (a value, an \<open>Err\<close>, a panic), the checked and saturating
  integer operations of the Rust standard library, and generic lemmas on lists and words.

  Conventions. A \<open>u8\<close>, \<open>u16\<close>, \<open>u32\<close> or \<open>u64\<close> of the source is a word of that width, so that
  \<open>+\<close>, \<open>-\<close> and \<open>*\<close> wrap around exactly as they do in the engine's build profiles (every profile of
  the workspace sets \<open>overflow-checks = false\<close>). A \<open>usize\<close> that counts or indexes the elements of
  a \<open>Vec\<close> or slice is a \<open>nat\<close>. A slice index that the source does not guard, an \<open>expect\<close> or an
  \<open>unreachable\<close> is the outcome \<open>Panic\<close>.
\<close>

unbundle bit_operations_syntax

section \<open>Machine integers\<close>

type_synonym u8 = "8 word"
type_synonym u16 = "16 word"
type_synonym u32 = "32 word"
type_synonym u64 = "64 word"

definition checked_add :: "'a::len word \<Rightarrow> 'a word \<Rightarrow> 'a word option" where
  "checked_add x y = (if unat x + unat y < 2 ^ LENGTH('a) then Some (x + y) else None)"

definition checked_sub :: "'a::len word \<Rightarrow> 'a word \<Rightarrow> 'a word option" where
  "checked_sub x y = (if y \<le> x then Some (x - y) else None)"

definition checked_mul :: "'a::len word \<Rightarrow> 'a word \<Rightarrow> 'a word option" where
  "checked_mul x y = (if unat x * unat y < 2 ^ LENGTH('a) then Some (x * y) else None)"

definition saturating_add :: "'a::len word \<Rightarrow> 'a word \<Rightarrow> 'a word" where
  "saturating_add x y = (case checked_add x y of Some z \<Rightarrow> z | None \<Rightarrow> - 1)"

definition saturating_sub :: "'a::len word \<Rightarrow> 'a word \<Rightarrow> 'a word" where
  "saturating_sub x y = (if y \<le> x then x - y else 0)"

definition saturating_mul :: "'a::len word \<Rightarrow> 'a word \<Rightarrow> 'a word" where
  "saturating_mul x y = (case checked_mul x y of Some z \<Rightarrow> z | None \<Rightarrow> - 1)"

definition div_ceil :: "nat \<Rightarrow> nat \<Rightarrow> nat" where
  "div_ceil a b = (if a mod b = 0 then a div b else a div b + 1)"

text \<open>\<open>u32::try_from\<close> on a collection length.\<close>

definition u32_try_from :: "nat \<Rightarrow> u32 option" where
  "u32_try_from n = (if n < 2 ^ 32 then Some (word_of_nat n) else None)"

text \<open>A \<open>usize\<close> has 64 bits.\<close>

definition usize_saturating_mul :: "nat \<Rightarrow> nat \<Rightarrow> nat" where
  "usize_saturating_mul a b = min (a * b) (2 ^ 64 - 1)"

definition usize_checked :: "nat \<Rightarrow> nat option" where
  "usize_checked n = (if n < 2 ^ 64 then Some n else None)"

section \<open>Orderings\<close>

text \<open>The type \<open>Ordering\<close> of the standard library and the order of slices.\<close>

datatype ordering = Ord_Less | Ord_Equal | Ord_Greater

definition ordering_of :: "'a::linorder \<Rightarrow> 'a \<Rightarrow> ordering" where
  "ordering_of x y = (if x < y then Ord_Less else if x = y then Ord_Equal else Ord_Greater)"

fun reverse_ordering :: "ordering \<Rightarrow> ordering" where
  "reverse_ordering Ord_Less = Ord_Greater"
| "reverse_ordering Ord_Equal = Ord_Equal"
| "reverse_ordering Ord_Greater = Ord_Less"

fun list_cmp :: "'a::linorder list \<Rightarrow> 'a list \<Rightarrow> ordering" where
  "list_cmp [] [] = Ord_Equal"
| "list_cmp [] (y # ys) = Ord_Less"
| "list_cmp (x # xs) [] = Ord_Greater"
| "list_cmp (x # xs) (y # ys) = (if ordering_of x y \<noteq> Ord_Equal then ordering_of x y else list_cmp xs ys)"

section \<open>Outcomes\<close>

datatype ('e, 'a) outcome = Ok 'a | Err 'e | Panic

primrec and_then :: "('e, 'a) outcome \<Rightarrow> ('a \<Rightarrow> ('e, 'b) outcome) \<Rightarrow> ('e, 'b) outcome" where
  "and_then (Ok x) f = f x"
| "and_then (Err e) f = Err e"
| "and_then Panic f = Panic"

primrec map_err :: "('e \<Rightarrow> 'd) \<Rightarrow> ('e, 'a) outcome \<Rightarrow> ('d, 'a) outcome" where
  "map_err f (Ok x) = Ok x"
| "map_err f (Err e) = Err (f e)"
| "map_err f Panic = Panic"

primrec ok_or :: "'e \<Rightarrow> 'a option \<Rightarrow> ('e, 'a) outcome" where
  "ok_or e None = Err e"
| "ok_or e (Some x) = Ok x"

primrec expect :: "'a option \<Rightarrow> ('e, 'a) outcome" where
  "expect None = Panic"
| "expect (Some x) = Ok x"

definition reject_if :: "bool \<Rightarrow> 'e \<Rightarrow> ('e, unit) outcome" where
  "reject_if b e = (if b then Err e else Ok ())"

text \<open>An index expression \<open>xs[i]\<close> and the method \<open>get\<close>.\<close>

definition get :: "'a list \<Rightarrow> nat \<Rightarrow> 'a option" where
  "get xs i = (if i < length xs then Some (xs ! i) else None)"

definition index_or_panic :: "'a list \<Rightarrow> nat \<Rightarrow> ('e, 'a) outcome" where
  "index_or_panic xs i = expect (get xs i)"

text \<open>A \<open>for\<close> loop whose body can only fail or continue.\<close>

fun for_each :: "('a \<Rightarrow> ('e, unit) outcome) \<Rightarrow> 'a list \<Rightarrow> ('e, unit) outcome" where
  "for_each f [] = Ok ()"
| "for_each f (x # xs) = and_then (f x) (\<lambda>_. for_each f xs)"

text \<open>A fallible computation with a loop: the value is absent when the loop does not end.\<close>

definition chain :: "('e, 'a) outcome option \<Rightarrow> ('a \<Rightarrow> ('e, 'b) outcome option) \<Rightarrow> ('e, 'b) outcome option" where
  "chain m f = (case m of None \<Rightarrow> None | Some (Ok x) \<Rightarrow> f x | Some (Err e) \<Rightarrow> Some (Err e) | Some Panic \<Rightarrow> Some Panic)"

named_theorems outcome_simps \<open>evaluation and inversion of outcomes\<close>
named_theorems u32_simps \<open>conversion between words and naturals\<close>

section \<open>Lemmas\<close>

lemma chain_simps [simp]:
  "chain (Some (Ok x)) f = f x" "chain (Some (Err e)) f = Some (Err e)" "chain (Some Panic) f = Some Panic" "chain None f = None"
  by (simp_all add: chain_def)

lemma list_cmp_Equal: "list_cmp xs ys = Ord_Equal \<longleftrightarrow> xs = (ys :: 'a::linorder list)"
  by (induction xs ys rule: list_cmp.induct) (auto simp: ordering_of_def)

lemma list_cmp_Less: "list_cmp xs ys = Ord_Less \<longleftrightarrow> (xs, ys) \<in> lexord {(x, y :: 'a::linorder). x < y}"
  by (induction xs ys rule: list_cmp.induct) (auto simp: ordering_of_def)

lemma and_then_eq_Ok [outcome_simps]:
  "and_then m f = Ok y \<longleftrightarrow> (\<exists>x. m = Ok x \<and> f x = Ok y)"
  by (cases m) auto

lemma and_then_eq_Panic [outcome_simps]:
  "and_then m f = Panic \<longleftrightarrow> m = Panic \<or> (\<exists>x. m = Ok x \<and> f x = Panic)"
  by (cases m) auto

lemma and_then_eq_Err [outcome_simps]:
  "and_then m f = Err e \<longleftrightarrow> m = Err e \<or> (\<exists>x. m = Ok x \<and> f x = Err e)"
  by (cases m) auto

lemma map_err_eq_Ok [outcome_simps]: "map_err f m = Ok y \<longleftrightarrow> m = Ok y"
  by (cases m) auto

lemma map_err_eq_Panic [outcome_simps]: "map_err f m = Panic \<longleftrightarrow> m = Panic"
  by (cases m) auto

lemma map_err_eq_Err [outcome_simps]: "map_err f m = Err e \<longleftrightarrow> (\<exists>d. m = Err d \<and> e = f d)"
  by (cases m) auto

lemma ok_or_eq_Ok [outcome_simps]: "ok_or e m = Ok y \<longleftrightarrow> m = Some y"
  by (cases m) auto

lemma ok_or_neq_Panic [outcome_simps]: "ok_or e m \<noteq> Panic"
  by (cases m) auto

lemma expect_eq_Ok [outcome_simps]: "expect m = Ok y \<longleftrightarrow> m = Some y"
  by (cases m) auto

lemma expect_eq_Panic [outcome_simps]: "expect m = Panic \<longleftrightarrow> m = None"
  by (cases m) auto

lemma expect_neq_Err [outcome_simps]: "expect m \<noteq> Err e"
  by (cases m) auto

lemma reject_if_eq_Ok [outcome_simps]: "reject_if b e = Ok u \<longleftrightarrow> \<not> b"
  by (simp add: reject_if_def)

lemma reject_if_neq_Panic [outcome_simps]: "reject_if b e \<noteq> Panic"
  by (simp add: reject_if_def)

lemma reject_if_eq_Err [outcome_simps]: "reject_if b e = Err d \<longleftrightarrow> b \<and> d = e"
  by (auto simp: reject_if_def)

lemma get_eq_Some [outcome_simps]: "get xs i = Some x \<longleftrightarrow> i < length xs \<and> xs ! i = x"
  by (auto simp: get_def)

lemma get_eq_None [outcome_simps]: "get xs i = None \<longleftrightarrow> length xs \<le> i"
  by (auto simp: get_def)

lemma for_each_eq_Ok [outcome_simps]: "for_each f xs = Ok u \<longleftrightarrow> (\<forall>x\<in>set xs. f x = Ok ())"
  by (induction xs) (auto simp: and_then_eq_Ok)

lemma for_each_not_Panic: "(\<And>x. x \<in> set xs \<Longrightarrow> f x \<noteq> Panic) \<Longrightarrow> for_each f xs \<noteq> Panic"
  by (induction xs) (auto simp: and_then_eq_Panic)

lemma u32_try_from_eq_Some [u32_simps]: "u32_try_from n = Some w \<longleftrightarrow> n < 2 ^ 32 \<and> w = word_of_nat n"
  by (auto simp: u32_try_from_def)

lemma unat_u32_of_nat [u32_simps]: "n < 2 ^ 32 \<Longrightarrow> unat (word_of_nat n :: u32) = n"
  by (simp add: unat_of_nat)

lemma unat_u32_less: "unat (x :: u32) < 2 ^ 32"
  using unsigned_less [of x] by simp

lemma checked_add_eq_Some:
  "checked_add x y = Some z \<longleftrightarrow> z = x + y \<and> unat z = unat x + unat (y :: 'a::len word)"
  by (auto simp: checked_add_def unat_word_ariths) (metis mod_less_divisor zero_less_numeral zero_less_power)

lemma checked_mul_eq_Some:
  "checked_mul x y = Some z \<longleftrightarrow> z = x * y \<and> unat z = unat x * unat (y :: 'a::len word)"
  by (auto simp: checked_mul_def unat_word_ariths) (metis mod_less_divisor zero_less_numeral zero_less_power)

lemma checked_sub_eq_Some:
  "checked_sub x y = Some z \<longleftrightarrow> z = x - y \<and> y \<le> (x :: 'a::len word)"
  by (auto simp: checked_sub_def)

lemma small_word_bit:
  assumes "unat (x :: 'a::len word) < 2 ^ k" and "bit x n"
  shows "n < k"
proof -
  have "take_bit k (unat x) = unat x"
    using assms(1) by (rule take_bit_nat_eq_self)
  moreover have "bit (unat x) n"
    using assms(2) by (simp add: bit_unsigned_iff)
  ultimately show ?thesis by (metis bit_take_bit_iff)
qed

lemma nth_append_mid: "k < length ws \<Longrightarrow> (pre @ ws @ suf) ! (length pre + k) = ws ! k"
  by (simp add: nth_append)

lemma div_ceil_2_le: "div_ceil n 2 \<le> n"
  by (auto simp: div_ceil_def)

end
