(* ===== verification/Bytecode_Opcode.thy ===== *)
theory Bytecode_Opcode
  imports Prelude
begin

text \<open>
  The opcode enumeration of \<open>crates/tachyon-bytecode/src/encoding.rs\<close> and its tables.

  \<open>Opcode\<close> is a \<open>#[repr(u8)]\<close> enumeration with the dense discriminants 0 to 145, and the source
  uses the discriminants as numbers throughout (\<open>as u8\<close>, \<open>as usize\<close>, a table indexed by the
  opcode, and a \<open>transmute\<close> from \<open>u8\<close>). The model is therefore the type of its discriminants, with
  one constant per variant, named with the prefix \<open>Op_\<close> for the qualifier \<open>Opcode::\<close>. The type is
  inhabited by exactly the 146 variants (\<open>opcode_exhaust\<close>).

  The two inverse tables \<open>from_base\<close> and \<open>from_extended\<close> are written arm by arm; the lemmas show
  that they invert the discriminant, which is what the encoder and the decoder rely on.
\<close>

section \<open>The variants\<close>

typedef opcode = "{..<146 :: nat}" morphisms opcode_index Opcode
  by (rule exI [of _ 0]) simp

definition Op_Nop :: opcode where "Op_Nop = Opcode 0"
definition Op_LoadImmediate :: opcode where "Op_LoadImmediate = Opcode 1"
definition Op_LoadConstant :: opcode where "Op_LoadConstant = Opcode 2"
definition Op_Move :: opcode where "Op_Move = Opcode 3"
definition Op_Add :: opcode where "Op_Add = Opcode 4"
definition Op_Sub :: opcode where "Op_Sub = Opcode 5"
definition Op_Mul :: opcode where "Op_Mul = Opcode 6"
definition Op_Div :: opcode where "Op_Div = Opcode 7"
definition Op_StrictEqual :: opcode where "Op_StrictEqual = Opcode 8"
definition Op_Jump :: opcode where "Op_Jump = Opcode 9"
definition Op_JumpIfFalse :: opcode where "Op_JumpIfFalse = Opcode 10"
definition Op_Return :: opcode where "Op_Return = Opcode 11"
definition Op_Throw :: opcode where "Op_Throw = Opcode 12"
definition Op_Call :: opcode where "Op_Call = Opcode 13"
definition Op_CreateClosure :: opcode where "Op_CreateClosure = Opcode 14"
definition Op_LoadScope :: opcode where "Op_LoadScope = Opcode 15"
definition Op_StoreScope :: opcode where "Op_StoreScope = Opcode 16"
definition Op_Await :: opcode where "Op_Await = Opcode 17"
definition Op_Yield :: opcode where "Op_Yield = Opcode 18"
definition Op_LoadUndefined :: opcode where "Op_LoadUndefined = Opcode 19"
definition Op_LoadNull :: opcode where "Op_LoadNull = Opcode 20"
definition Op_LoadFalse :: opcode where "Op_LoadFalse = Opcode 21"
definition Op_LoadTrue :: opcode where "Op_LoadTrue = Opcode 22"
definition Op_Not :: opcode where "Op_Not = Opcode 23"
definition Op_JumpIfTrue :: opcode where "Op_JumpIfTrue = Opcode 24"
definition Op_JumpIfNotNullish :: opcode where "Op_JumpIfNotNullish = Opcode 25"
definition Op_Negate :: opcode where "Op_Negate = Opcode 26"
definition Op_CreateObject :: opcode where "Op_CreateObject = Opcode 27"
definition Op_GetById :: opcode where "Op_GetById = Opcode 28"
definition Op_SetById :: opcode where "Op_SetById = Opcode 29"
definition Op_CallWithReceiver :: opcode where "Op_CallWithReceiver = Opcode 30"
definition Op_LoadException :: opcode where "Op_LoadException = Opcode 31"
definition Op_Construct :: opcode where "Op_Construct = Opcode 32"
definition Op_LoadThis :: opcode where "Op_LoadThis = Opcode 33"
definition Op_LoadNewTarget :: opcode where "Op_LoadNewTarget = Opcode 34"
definition Op_LessThan :: opcode where "Op_LessThan = Opcode 35"
definition Op_GetByValue :: opcode where "Op_GetByValue = Opcode 36"
definition Op_SetByValue :: opcode where "Op_SetByValue = Opcode 37"
definition Op_Typeof :: opcode where "Op_Typeof = Opcode 38"
definition Op_DeclareScope :: opcode where "Op_DeclareScope = Opcode 39"
definition Op_InstanceOf :: opcode where "Op_InstanceOf = Opcode 40"
definition Op_StoreResolvedScope :: opcode where "Op_StoreResolvedScope = Opcode 41"
definition Op_LoadEnvironment :: opcode where "Op_LoadEnvironment = Opcode 42"
definition Op_StoreEnvironment :: opcode where "Op_StoreEnvironment = Opcode 43"
definition Op_DeclareGlobalLexical :: opcode where "Op_DeclareGlobalLexical = Opcode 44"
definition Op_InitializeGlobalLexical :: opcode where "Op_InitializeGlobalLexical = Opcode 45"
definition Op_ReturnUndefined :: opcode where "Op_ReturnUndefined = Opcode 46"
definition Op_ToNumber :: opcode where "Op_ToNumber = Opcode 47"
definition Op_BitwiseNot :: opcode where "Op_BitwiseNot = Opcode 48"
definition Op_BitwiseAnd :: opcode where "Op_BitwiseAnd = Opcode 49"
definition Op_BitwiseOr :: opcode where "Op_BitwiseOr = Opcode 50"
definition Op_BitwiseXor :: opcode where "Op_BitwiseXor = Opcode 51"
definition Op_ShiftLeft :: opcode where "Op_ShiftLeft = Opcode 52"
definition Op_ShiftRight :: opcode where "Op_ShiftRight = Opcode 53"
definition Op_ShiftRightUnsigned :: opcode where "Op_ShiftRightUnsigned = Opcode 54"
definition Op_Remainder :: opcode where "Op_Remainder = Opcode 55"
definition Op_Exponentiate :: opcode where "Op_Exponentiate = Opcode 56"
definition Op_GreaterThan :: opcode where "Op_GreaterThan = Opcode 57"
definition Op_LessEqual :: opcode where "Op_LessEqual = Opcode 58"
definition Op_GreaterEqual :: opcode where "Op_GreaterEqual = Opcode 59"
definition Op_LooseEqual :: opcode where "Op_LooseEqual = Opcode 60"
definition Op_LooseNotEqual :: opcode where "Op_LooseNotEqual = Opcode 61"
definition Op_HasProperty :: opcode where "Op_HasProperty = Opcode 62"
definition Op_TypeofScope :: opcode where "Op_TypeofScope = Opcode 63"
definition Op_DeleteById :: opcode where "Op_DeleteById = Opcode 64"
definition Op_DeleteByValue :: opcode where "Op_DeleteByValue = Opcode 65"
definition Op_CreateArray :: opcode where "Op_CreateArray = Opcode 66"
definition Op_CreateForInIterator :: opcode where "Op_CreateForInIterator = Opcode 67"
definition Op_ForInNext :: opcode where "Op_ForInNext = Opcode 68"
definition Op_LoadArgumentsLength :: opcode where "Op_LoadArgumentsLength = Opcode 69"
definition Op_EnterFinally :: opcode where "Op_EnterFinally = Opcode 70"
definition Op_ResumeCompletion :: opcode where "Op_ResumeCompletion = Opcode 71"
definition Op_BreakThroughFinally :: opcode where "Op_BreakThroughFinally = Opcode 72"
definition Op_ContinueThroughFinally :: opcode where "Op_ContinueThroughFinally = Opcode 73"
definition Op_ToPropertyKey :: opcode where "Op_ToPropertyKey = Opcode 74"
definition Op_ToPropertyKeyForIn :: opcode where "Op_ToPropertyKeyForIn = Opcode 75"
definition Op_SetFunctionName :: opcode where "Op_SetFunctionName = Opcode 76"
definition Op_DefineGetterById :: opcode where "Op_DefineGetterById = Opcode 77"
definition Op_DefineSetterById :: opcode where "Op_DefineSetterById = Opcode 78"
definition Op_DefineGetterByValue :: opcode where "Op_DefineGetterByValue = Opcode 79"
definition Op_DefineSetterByValue :: opcode where "Op_DefineSetterByValue = Opcode 80"
definition Op_SetAccessorFunctionName :: opcode where "Op_SetAccessorFunctionName = Opcode 81"
definition Op_CreateExclusionList :: opcode where "Op_CreateExclusionList = Opcode 82"
definition Op_ExcludePropertyKey :: opcode where "Op_ExcludePropertyKey = Opcode 83"
definition Op_CopyDataProperties :: opcode where "Op_CopyDataProperties = Opcode 84"
definition Op_CollectRestArguments :: opcode where "Op_CollectRestArguments = Opcode 85"
definition Op_LoadArgumentsObject :: opcode where "Op_LoadArgumentsObject = Opcode 86"
definition Op_CreateClass :: opcode where "Op_CreateClass = Opcode 87"
definition Op_SuperConstruct :: opcode where "Op_SuperConstruct = Opcode 88"
definition Op_InitializeThis :: opcode where "Op_InitializeThis = Opcode 89"
definition Op_CheckConstructor :: opcode where "Op_CheckConstructor = Opcode 90"
definition Op_DefineClassMethodById :: opcode where "Op_DefineClassMethodById = Opcode 91"
definition Op_SuperConstructForwardAll :: opcode where "Op_SuperConstructForwardAll = Opcode 92"
definition Op_CreateBaseClass :: opcode where "Op_CreateBaseClass = Opcode 93"
definition Op_DefineClassGetterById :: opcode where "Op_DefineClassGetterById = Opcode 94"
definition Op_DefineClassSetterById :: opcode where "Op_DefineClassSetterById = Opcode 95"
definition Op_SetFunctionNameByValue :: opcode where "Op_SetFunctionNameByValue = Opcode 96"
definition Op_DefineClassMethodByValue :: opcode where "Op_DefineClassMethodByValue = Opcode 97"
definition Op_DefineClassGetterByValue :: opcode where "Op_DefineClassGetterByValue = Opcode 98"
definition Op_DefineClassSetterByValue :: opcode where "Op_DefineClassSetterByValue = Opcode 99"
definition Op_LoadSuperBase :: opcode where "Op_LoadSuperBase = Opcode 100"
definition Op_GetSuperById :: opcode where "Op_GetSuperById = Opcode 101"
definition Op_GetSuperByValue :: opcode where "Op_GetSuperByValue = Opcode 102"
definition Op_EnterClassEnvironment :: opcode where "Op_EnterClassEnvironment = Opcode 103"
definition Op_InitializeClassEnvironment :: opcode where "Op_InitializeClassEnvironment = Opcode 104"
definition Op_LeaveClassEnvironment :: opcode where "Op_LeaveClassEnvironment = Opcode 105"
definition Op_SetFunctionHomeObject :: opcode where "Op_SetFunctionHomeObject = Opcode 106"
definition Op_DefineFieldById :: opcode where "Op_DefineFieldById = Opcode 107"
definition Op_DefineFieldByValue :: opcode where "Op_DefineFieldByValue = Opcode 108"
definition Op_AttachInstanceFields :: opcode where "Op_AttachInstanceFields = Opcode 109"
definition Op_InitializeInstanceElements :: opcode where "Op_InitializeInstanceElements = Opcode 110"
definition Op_CreatePrivateName :: opcode where "Op_CreatePrivateName = Opcode 111"
definition Op_GetPrivate :: opcode where "Op_GetPrivate = Opcode 112"
definition Op_SetPrivate :: opcode where "Op_SetPrivate = Opcode 113"
definition Op_CreateAccessorPair :: opcode where "Op_CreateAccessorPair = Opcode 114"
definition Op_DefinePrivateField :: opcode where "Op_DefinePrivateField = Opcode 115"
definition Op_DefinePrivateMethod :: opcode where "Op_DefinePrivateMethod = Opcode 116"
definition Op_DefinePrivateAccessor :: opcode where "Op_DefinePrivateAccessor = Opcode 117"
definition Op_HasPrivate :: opcode where "Op_HasPrivate = Opcode 118"
definition Op_TailCall :: opcode where "Op_TailCall = Opcode 119"
definition Op_TailCallWithReceiver :: opcode where "Op_TailCallWithReceiver = Opcode 120"
definition Op_DirectEval :: opcode where "Op_DirectEval = Opcode 121"
definition Op_InitializeEnvironment :: opcode where "Op_InitializeEnvironment = Opcode 122"
definition Op_CreateDataPropertyById :: opcode where "Op_CreateDataPropertyById = Opcode 123"
definition Op_CreateDataPropertyByValue :: opcode where "Op_CreateDataPropertyByValue = Opcode 124"
definition Op_LoadIteratorSymbol :: opcode where "Op_LoadIteratorSymbol = Opcode 125"
definition Op_CheckObject :: opcode where "Op_CheckObject = Opcode 126"
definition Op_YieldWithKind :: opcode where "Op_YieldWithKind = Opcode 127"
definition Op_CallSpread :: opcode where "Op_CallSpread = Opcode 128"
definition Op_TailCallSpread :: opcode where "Op_TailCallSpread = Opcode 129"
definition Op_CallSpreadWithReceiver :: opcode where "Op_CallSpreadWithReceiver = Opcode 130"
definition Op_TailCallSpreadWithReceiver :: opcode where "Op_TailCallSpreadWithReceiver = Opcode 131"
definition Op_DirectEvalSpread :: opcode where "Op_DirectEvalSpread = Opcode 132"
definition Op_LoadAsyncIteratorSymbol :: opcode where "Op_LoadAsyncIteratorSymbol = Opcode 133"
definition Op_CreateAsyncFromSyncIterator :: opcode where "Op_CreateAsyncFromSyncIterator = Opcode 134"
definition Op_InitialYield :: opcode where "Op_InitialYield = Opcode 135"
definition Op_DynamicImport :: opcode where "Op_DynamicImport = Opcode 136"
definition Op_LoadTemplateObject :: opcode where "Op_LoadTemplateObject = Opcode 137"
definition Op_SetObjectLiteralPrototype :: opcode where "Op_SetObjectLiteralPrototype = Opcode 138"
definition Op_ToString :: opcode where "Op_ToString = Opcode 139"
definition Op_Update :: opcode where "Op_Update = Opcode 140"
definition Op_EnterLexicalEnvironment :: opcode where "Op_EnterLexicalEnvironment = Opcode 141"
definition Op_InitializeLexicalEnvironment :: opcode where "Op_InitializeLexicalEnvironment = Opcode 142"
definition Op_LeaveLexicalEnvironment :: opcode where "Op_LeaveLexicalEnvironment = Opcode 143"
definition Op_ConstructSpread :: opcode where "Op_ConstructSpread = Opcode 144"
definition Op_SuperConstructSpread :: opcode where "Op_SuperConstructSpread = Opcode 145"

lemmas opcode_defs =
  Op_Nop_def Op_LoadImmediate_def Op_LoadConstant_def Op_Move_def Op_Add_def Op_Sub_def
  Op_Mul_def Op_Div_def Op_StrictEqual_def Op_Jump_def Op_JumpIfFalse_def Op_Return_def
  Op_Throw_def Op_Call_def Op_CreateClosure_def Op_LoadScope_def Op_StoreScope_def Op_Await_def
  Op_Yield_def Op_LoadUndefined_def Op_LoadNull_def Op_LoadFalse_def Op_LoadTrue_def Op_Not_def
  Op_JumpIfTrue_def Op_JumpIfNotNullish_def Op_Negate_def Op_CreateObject_def Op_GetById_def
  Op_SetById_def Op_CallWithReceiver_def Op_LoadException_def Op_Construct_def Op_LoadThis_def
  Op_LoadNewTarget_def Op_LessThan_def Op_GetByValue_def Op_SetByValue_def Op_Typeof_def
  Op_DeclareScope_def Op_InstanceOf_def Op_StoreResolvedScope_def Op_LoadEnvironment_def
  Op_StoreEnvironment_def Op_DeclareGlobalLexical_def Op_InitializeGlobalLexical_def
  Op_ReturnUndefined_def Op_ToNumber_def Op_BitwiseNot_def Op_BitwiseAnd_def Op_BitwiseOr_def
  Op_BitwiseXor_def Op_ShiftLeft_def Op_ShiftRight_def Op_ShiftRightUnsigned_def Op_Remainder_def
  Op_Exponentiate_def Op_GreaterThan_def Op_LessEqual_def Op_GreaterEqual_def Op_LooseEqual_def
  Op_LooseNotEqual_def Op_HasProperty_def Op_TypeofScope_def Op_DeleteById_def
  Op_DeleteByValue_def Op_CreateArray_def Op_CreateForInIterator_def Op_ForInNext_def
  Op_LoadArgumentsLength_def Op_EnterFinally_def Op_ResumeCompletion_def
  Op_BreakThroughFinally_def Op_ContinueThroughFinally_def Op_ToPropertyKey_def
  Op_ToPropertyKeyForIn_def Op_SetFunctionName_def Op_DefineGetterById_def
  Op_DefineSetterById_def Op_DefineGetterByValue_def Op_DefineSetterByValue_def
  Op_SetAccessorFunctionName_def Op_CreateExclusionList_def Op_ExcludePropertyKey_def
  Op_CopyDataProperties_def Op_CollectRestArguments_def Op_LoadArgumentsObject_def
  Op_CreateClass_def Op_SuperConstruct_def Op_InitializeThis_def Op_CheckConstructor_def
  Op_DefineClassMethodById_def Op_SuperConstructForwardAll_def Op_CreateBaseClass_def
  Op_DefineClassGetterById_def Op_DefineClassSetterById_def Op_SetFunctionNameByValue_def
  Op_DefineClassMethodByValue_def Op_DefineClassGetterByValue_def Op_DefineClassSetterByValue_def
  Op_LoadSuperBase_def Op_GetSuperById_def Op_GetSuperByValue_def Op_EnterClassEnvironment_def
  Op_InitializeClassEnvironment_def Op_LeaveClassEnvironment_def Op_SetFunctionHomeObject_def
  Op_DefineFieldById_def Op_DefineFieldByValue_def Op_AttachInstanceFields_def
  Op_InitializeInstanceElements_def Op_CreatePrivateName_def Op_GetPrivate_def Op_SetPrivate_def
  Op_CreateAccessorPair_def Op_DefinePrivateField_def Op_DefinePrivateMethod_def
  Op_DefinePrivateAccessor_def Op_HasPrivate_def Op_TailCall_def Op_TailCallWithReceiver_def
  Op_DirectEval_def Op_InitializeEnvironment_def Op_CreateDataPropertyById_def
  Op_CreateDataPropertyByValue_def Op_LoadIteratorSymbol_def Op_CheckObject_def
  Op_YieldWithKind_def Op_CallSpread_def Op_TailCallSpread_def Op_CallSpreadWithReceiver_def
  Op_TailCallSpreadWithReceiver_def Op_DirectEvalSpread_def Op_LoadAsyncIteratorSymbol_def
  Op_CreateAsyncFromSyncIterator_def Op_InitialYield_def Op_DynamicImport_def
  Op_LoadTemplateObject_def Op_SetObjectLiteralPrototype_def Op_ToString_def Op_Update_def
  Op_EnterLexicalEnvironment_def Op_InitializeLexicalEnvironment_def
  Op_LeaveLexicalEnvironment_def Op_ConstructSpread_def Op_SuperConstructSpread_def

section \<open>The tables\<close>

definition OPCODE_COUNT :: nat where "OPCODE_COUNT = 146"

definition BASE_OPCODE_COUNT :: nat where "BASE_OPCODE_COUNT = 64"

definition OPCODE_OPERAND_COUNTS :: "nat list" where
  "OPCODE_OPERAND_COUNTS = [
     0, 2, 2, 2, 3, 3, 3, 3, 3, 1, 2, 1, 1, 3, 2, 2, 2, 3, 3, 1,
     1, 1, 1, 2, 2, 2, 2, 1, 3, 3, 3, 1, 3, 1, 1, 3, 3, 3, 2, 1,
     3, 2, 3, 3, 2, 2, 0, 2, 2, 3, 3, 3, 3, 3, 3, 3, 3, 3, 3, 3,
     3, 3, 3, 2, 3, 3, 1, 2, 2, 1, 0, 0, 2, 2, 3, 3, 2, 3, 3, 3,
     3, 3, 2, 2, 3, 2, 1, 3, 3, 1, 1, 3, 1, 2, 3, 3, 2, 3, 3, 3,
     1, 2, 3, 1, 2, 0, 2, 3, 3, 3, 1, 2, 3, 3, 3, 3, 3, 3, 3, 3,
     3, 3, 3, 3, 3, 1, 1, 3, 3, 3, 3, 3, 3, 1, 3, 0, 3, 2, 2, 2,
     3, 2, 2, 0, 3, 2]"

definition operand_count :: "opcode \<Rightarrow> nat" where
  "operand_count op = OPCODE_OPERAND_COUNTS ! opcode_index op"

definition is_terminal :: "opcode \<Rightarrow> bool" where
  "is_terminal op \<longleftrightarrow> op \<in> {Op_Jump, Op_Return, Op_ReturnUndefined, Op_Throw, Op_EnterFinally,
     Op_BreakThroughFinally, Op_ContinueThroughFinally}"

text \<open>\<open>opcode as u8\<close>.\<close>

definition opcode_u8 :: "opcode \<Rightarrow> u8" where
  "opcode_u8 op = word_of_nat (opcode_index op)"

definition from_base :: "u8 \<Rightarrow> opcode option" where
  "from_base base = map_of [
     (0, Op_Nop),
     (1, Op_LoadImmediate),
     (2, Op_LoadConstant),
     (3, Op_Move),
     (4, Op_Add),
     (5, Op_Sub),
     (6, Op_Mul),
     (7, Op_Div),
     (8, Op_StrictEqual),
     (9, Op_Jump),
     (10, Op_JumpIfFalse),
     (11, Op_Return),
     (12, Op_Throw),
     (13, Op_Call),
     (14, Op_CreateClosure),
     (15, Op_LoadScope),
     (16, Op_StoreScope),
     (17, Op_Await),
     (18, Op_Yield),
     (19, Op_LoadUndefined),
     (20, Op_LoadNull),
     (21, Op_LoadFalse),
     (22, Op_LoadTrue),
     (23, Op_Not),
     (24, Op_JumpIfTrue),
     (25, Op_JumpIfNotNullish),
     (26, Op_Negate),
     (27, Op_CreateObject),
     (28, Op_GetById),
     (29, Op_SetById),
     (30, Op_CallWithReceiver),
     (31, Op_LoadException),
     (32, Op_Construct),
     (33, Op_LoadThis),
     (34, Op_LoadNewTarget),
     (35, Op_LessThan),
     (36, Op_GetByValue),
     (37, Op_SetByValue),
     (38, Op_Typeof),
     (39, Op_DeclareScope),
     (40, Op_InstanceOf),
     (41, Op_StoreResolvedScope),
     (42, Op_LoadEnvironment),
     (43, Op_StoreEnvironment),
     (44, Op_DeclareGlobalLexical),
     (45, Op_InitializeGlobalLexical),
     (46, Op_ReturnUndefined),
     (47, Op_ToNumber),
     (48, Op_BitwiseNot),
     (49, Op_BitwiseAnd),
     (50, Op_BitwiseOr),
     (51, Op_BitwiseXor),
     (52, Op_ShiftLeft),
     (53, Op_ShiftRight),
     (54, Op_ShiftRightUnsigned),
     (55, Op_Remainder),
     (56, Op_Exponentiate),
     (57, Op_GreaterThan),
     (58, Op_LessEqual),
     (59, Op_GreaterEqual),
     (60, Op_LooseEqual),
     (61, Op_LooseNotEqual),
     (62, Op_HasProperty),
     (63, Op_TypeofScope)] base"

definition from_extended :: "nat \<Rightarrow> opcode option" where
  "from_extended index = map_of [
     (0, Op_DeleteById),
     (1, Op_DeleteByValue),
     (2, Op_CreateArray),
     (3, Op_CreateForInIterator),
     (4, Op_ForInNext),
     (5, Op_LoadArgumentsLength),
     (6, Op_EnterFinally),
     (7, Op_ResumeCompletion),
     (8, Op_BreakThroughFinally),
     (9, Op_ContinueThroughFinally),
     (10, Op_ToPropertyKey),
     (11, Op_ToPropertyKeyForIn),
     (12, Op_SetFunctionName),
     (13, Op_DefineGetterById),
     (14, Op_DefineSetterById),
     (15, Op_DefineGetterByValue),
     (16, Op_DefineSetterByValue),
     (17, Op_SetAccessorFunctionName),
     (18, Op_CreateExclusionList),
     (19, Op_ExcludePropertyKey),
     (20, Op_CopyDataProperties),
     (21, Op_CollectRestArguments),
     (22, Op_LoadArgumentsObject),
     (23, Op_CreateClass),
     (24, Op_SuperConstruct),
     (25, Op_InitializeThis),
     (26, Op_CheckConstructor),
     (27, Op_DefineClassMethodById),
     (28, Op_SuperConstructForwardAll),
     (29, Op_CreateBaseClass),
     (30, Op_DefineClassGetterById),
     (31, Op_DefineClassSetterById),
     (32, Op_SetFunctionNameByValue),
     (33, Op_DefineClassMethodByValue),
     (34, Op_DefineClassGetterByValue),
     (35, Op_DefineClassSetterByValue),
     (36, Op_LoadSuperBase),
     (37, Op_GetSuperById),
     (38, Op_GetSuperByValue),
     (39, Op_EnterClassEnvironment),
     (40, Op_InitializeClassEnvironment),
     (41, Op_LeaveClassEnvironment),
     (42, Op_SetFunctionHomeObject),
     (43, Op_DefineFieldById),
     (44, Op_DefineFieldByValue),
     (45, Op_AttachInstanceFields),
     (46, Op_InitializeInstanceElements),
     (47, Op_CreatePrivateName),
     (48, Op_GetPrivate),
     (49, Op_SetPrivate),
     (50, Op_CreateAccessorPair),
     (51, Op_DefinePrivateField),
     (52, Op_DefinePrivateMethod),
     (53, Op_DefinePrivateAccessor),
     (54, Op_HasPrivate),
     (55, Op_TailCall),
     (56, Op_TailCallWithReceiver),
     (57, Op_DirectEval),
     (58, Op_InitializeEnvironment),
     (59, Op_CreateDataPropertyById),
     (60, Op_CreateDataPropertyByValue),
     (61, Op_LoadIteratorSymbol),
     (62, Op_CheckObject),
     (63, Op_YieldWithKind),
     (64, Op_CallSpread),
     (65, Op_TailCallSpread),
     (66, Op_CallSpreadWithReceiver),
     (67, Op_TailCallSpreadWithReceiver),
     (68, Op_DirectEvalSpread),
     (69, Op_LoadAsyncIteratorSymbol),
     (70, Op_CreateAsyncFromSyncIterator),
     (71, Op_InitialYield),
     (72, Op_DynamicImport),
     (73, Op_LoadTemplateObject),
     (74, Op_SetObjectLiteralPrototype),
     (75, Op_ToString),
     (76, Op_Update),
     (77, Op_EnterLexicalEnvironment),
     (78, Op_InitializeLexicalEnvironment),
     (79, Op_LeaveLexicalEnvironment),
     (80, Op_ConstructSpread),
     (81, Op_SuperConstructSpread)] index"

definition from_index :: "nat \<Rightarrow> opcode option" where
  "from_index index =
     (if index \<ge> OPCODE_COUNT then None
      else if index < BASE_OPCODE_COUNT then from_base (word_of_nat index)
      else from_extended (index - BASE_OPCODE_COUNT))"

section \<open>Evaluation\<close>

lemma opcode_index_simps [simp]:
  "opcode_index Op_Nop = 0"
  "opcode_index Op_LoadImmediate = 1"
  "opcode_index Op_LoadConstant = 2"
  "opcode_index Op_Move = 3"
  "opcode_index Op_Add = 4"
  "opcode_index Op_Sub = 5"
  "opcode_index Op_Mul = 6"
  "opcode_index Op_Div = 7"
  "opcode_index Op_StrictEqual = 8"
  "opcode_index Op_Jump = 9"
  "opcode_index Op_JumpIfFalse = 10"
  "opcode_index Op_Return = 11"
  "opcode_index Op_Throw = 12"
  "opcode_index Op_Call = 13"
  "opcode_index Op_CreateClosure = 14"
  "opcode_index Op_LoadScope = 15"
  "opcode_index Op_StoreScope = 16"
  "opcode_index Op_Await = 17"
  "opcode_index Op_Yield = 18"
  "opcode_index Op_LoadUndefined = 19"
  "opcode_index Op_LoadNull = 20"
  "opcode_index Op_LoadFalse = 21"
  "opcode_index Op_LoadTrue = 22"
  "opcode_index Op_Not = 23"
  "opcode_index Op_JumpIfTrue = 24"
  "opcode_index Op_JumpIfNotNullish = 25"
  "opcode_index Op_Negate = 26"
  "opcode_index Op_CreateObject = 27"
  "opcode_index Op_GetById = 28"
  "opcode_index Op_SetById = 29"
  "opcode_index Op_CallWithReceiver = 30"
  "opcode_index Op_LoadException = 31"
  "opcode_index Op_Construct = 32"
  "opcode_index Op_LoadThis = 33"
  "opcode_index Op_LoadNewTarget = 34"
  "opcode_index Op_LessThan = 35"
  "opcode_index Op_GetByValue = 36"
  "opcode_index Op_SetByValue = 37"
  "opcode_index Op_Typeof = 38"
  "opcode_index Op_DeclareScope = 39"
  "opcode_index Op_InstanceOf = 40"
  "opcode_index Op_StoreResolvedScope = 41"
  "opcode_index Op_LoadEnvironment = 42"
  "opcode_index Op_StoreEnvironment = 43"
  "opcode_index Op_DeclareGlobalLexical = 44"
  "opcode_index Op_InitializeGlobalLexical = 45"
  "opcode_index Op_ReturnUndefined = 46"
  "opcode_index Op_ToNumber = 47"
  "opcode_index Op_BitwiseNot = 48"
  "opcode_index Op_BitwiseAnd = 49"
  "opcode_index Op_BitwiseOr = 50"
  "opcode_index Op_BitwiseXor = 51"
  "opcode_index Op_ShiftLeft = 52"
  "opcode_index Op_ShiftRight = 53"
  "opcode_index Op_ShiftRightUnsigned = 54"
  "opcode_index Op_Remainder = 55"
  "opcode_index Op_Exponentiate = 56"
  "opcode_index Op_GreaterThan = 57"
  "opcode_index Op_LessEqual = 58"
  "opcode_index Op_GreaterEqual = 59"
  "opcode_index Op_LooseEqual = 60"
  "opcode_index Op_LooseNotEqual = 61"
  "opcode_index Op_HasProperty = 62"
  "opcode_index Op_TypeofScope = 63"
  "opcode_index Op_DeleteById = 64"
  "opcode_index Op_DeleteByValue = 65"
  "opcode_index Op_CreateArray = 66"
  "opcode_index Op_CreateForInIterator = 67"
  "opcode_index Op_ForInNext = 68"
  "opcode_index Op_LoadArgumentsLength = 69"
  "opcode_index Op_EnterFinally = 70"
  "opcode_index Op_ResumeCompletion = 71"
  "opcode_index Op_BreakThroughFinally = 72"
  "opcode_index Op_ContinueThroughFinally = 73"
  "opcode_index Op_ToPropertyKey = 74"
  "opcode_index Op_ToPropertyKeyForIn = 75"
  "opcode_index Op_SetFunctionName = 76"
  "opcode_index Op_DefineGetterById = 77"
  "opcode_index Op_DefineSetterById = 78"
  "opcode_index Op_DefineGetterByValue = 79"
  "opcode_index Op_DefineSetterByValue = 80"
  "opcode_index Op_SetAccessorFunctionName = 81"
  "opcode_index Op_CreateExclusionList = 82"
  "opcode_index Op_ExcludePropertyKey = 83"
  "opcode_index Op_CopyDataProperties = 84"
  "opcode_index Op_CollectRestArguments = 85"
  "opcode_index Op_LoadArgumentsObject = 86"
  "opcode_index Op_CreateClass = 87"
  "opcode_index Op_SuperConstruct = 88"
  "opcode_index Op_InitializeThis = 89"
  "opcode_index Op_CheckConstructor = 90"
  "opcode_index Op_DefineClassMethodById = 91"
  "opcode_index Op_SuperConstructForwardAll = 92"
  "opcode_index Op_CreateBaseClass = 93"
  "opcode_index Op_DefineClassGetterById = 94"
  "opcode_index Op_DefineClassSetterById = 95"
  "opcode_index Op_SetFunctionNameByValue = 96"
  "opcode_index Op_DefineClassMethodByValue = 97"
  "opcode_index Op_DefineClassGetterByValue = 98"
  "opcode_index Op_DefineClassSetterByValue = 99"
  "opcode_index Op_LoadSuperBase = 100"
  "opcode_index Op_GetSuperById = 101"
  "opcode_index Op_GetSuperByValue = 102"
  "opcode_index Op_EnterClassEnvironment = 103"
  "opcode_index Op_InitializeClassEnvironment = 104"
  "opcode_index Op_LeaveClassEnvironment = 105"
  "opcode_index Op_SetFunctionHomeObject = 106"
  "opcode_index Op_DefineFieldById = 107"
  "opcode_index Op_DefineFieldByValue = 108"
  "opcode_index Op_AttachInstanceFields = 109"
  "opcode_index Op_InitializeInstanceElements = 110"
  "opcode_index Op_CreatePrivateName = 111"
  "opcode_index Op_GetPrivate = 112"
  "opcode_index Op_SetPrivate = 113"
  "opcode_index Op_CreateAccessorPair = 114"
  "opcode_index Op_DefinePrivateField = 115"
  "opcode_index Op_DefinePrivateMethod = 116"
  "opcode_index Op_DefinePrivateAccessor = 117"
  "opcode_index Op_HasPrivate = 118"
  "opcode_index Op_TailCall = 119"
  "opcode_index Op_TailCallWithReceiver = 120"
  "opcode_index Op_DirectEval = 121"
  "opcode_index Op_InitializeEnvironment = 122"
  "opcode_index Op_CreateDataPropertyById = 123"
  "opcode_index Op_CreateDataPropertyByValue = 124"
  "opcode_index Op_LoadIteratorSymbol = 125"
  "opcode_index Op_CheckObject = 126"
  "opcode_index Op_YieldWithKind = 127"
  "opcode_index Op_CallSpread = 128"
  "opcode_index Op_TailCallSpread = 129"
  "opcode_index Op_CallSpreadWithReceiver = 130"
  "opcode_index Op_TailCallSpreadWithReceiver = 131"
  "opcode_index Op_DirectEvalSpread = 132"
  "opcode_index Op_LoadAsyncIteratorSymbol = 133"
  "opcode_index Op_CreateAsyncFromSyncIterator = 134"
  "opcode_index Op_InitialYield = 135"
  "opcode_index Op_DynamicImport = 136"
  "opcode_index Op_LoadTemplateObject = 137"
  "opcode_index Op_SetObjectLiteralPrototype = 138"
  "opcode_index Op_ToString = 139"
  "opcode_index Op_Update = 140"
  "opcode_index Op_EnterLexicalEnvironment = 141"
  "opcode_index Op_InitializeLexicalEnvironment = 142"
  "opcode_index Op_LeaveLexicalEnvironment = 143"
  "opcode_index Op_ConstructSpread = 144"
  "opcode_index Op_SuperConstructSpread = 145"
  by (simp_all add: opcode_defs Opcode_inverse)

lemma opcode_eq_iff: "x = y \<longleftrightarrow> opcode_index x = opcode_index y"
  by (simp add: opcode_index_inject)

instantiation opcode :: equal
begin

definition equal_opcode :: "opcode \<Rightarrow> opcode \<Rightarrow> bool" where
  "equal_opcode x y \<longleftrightarrow> opcode_index x = opcode_index y"

instance
  by standard (simp add: equal_opcode_def opcode_eq_iff)

end

instantiation opcode :: linorder
begin

definition less_eq_opcode :: "opcode \<Rightarrow> opcode \<Rightarrow> bool" where
  "less_eq_opcode x y \<longleftrightarrow> opcode_index x \<le> opcode_index y"

definition less_opcode :: "opcode \<Rightarrow> opcode \<Rightarrow> bool" where
  "less_opcode x y \<longleftrightarrow> opcode_index x < opcode_index y"

instance
  by standard (auto simp: less_eq_opcode_def less_opcode_def opcode_eq_iff)

end

lemma operand_count_simps [simp]:
  "operand_count Op_Nop = 0"
  "operand_count Op_LoadImmediate = 2"
  "operand_count Op_LoadConstant = 2"
  "operand_count Op_Move = 2"
  "operand_count Op_Add = 3"
  "operand_count Op_Sub = 3"
  "operand_count Op_Mul = 3"
  "operand_count Op_Div = 3"
  "operand_count Op_StrictEqual = 3"
  "operand_count Op_Jump = 1"
  "operand_count Op_JumpIfFalse = 2"
  "operand_count Op_Return = 1"
  "operand_count Op_Throw = 1"
  "operand_count Op_Call = 3"
  "operand_count Op_CreateClosure = 2"
  "operand_count Op_LoadScope = 2"
  "operand_count Op_StoreScope = 2"
  "operand_count Op_Await = 3"
  "operand_count Op_Yield = 3"
  "operand_count Op_LoadUndefined = 1"
  "operand_count Op_LoadNull = 1"
  "operand_count Op_LoadFalse = 1"
  "operand_count Op_LoadTrue = 1"
  "operand_count Op_Not = 2"
  "operand_count Op_JumpIfTrue = 2"
  "operand_count Op_JumpIfNotNullish = 2"
  "operand_count Op_Negate = 2"
  "operand_count Op_CreateObject = 1"
  "operand_count Op_GetById = 3"
  "operand_count Op_SetById = 3"
  "operand_count Op_CallWithReceiver = 3"
  "operand_count Op_LoadException = 1"
  "operand_count Op_Construct = 3"
  "operand_count Op_LoadThis = 1"
  "operand_count Op_LoadNewTarget = 1"
  "operand_count Op_LessThan = 3"
  "operand_count Op_GetByValue = 3"
  "operand_count Op_SetByValue = 3"
  "operand_count Op_Typeof = 2"
  "operand_count Op_DeclareScope = 1"
  "operand_count Op_InstanceOf = 3"
  "operand_count Op_StoreResolvedScope = 2"
  "operand_count Op_LoadEnvironment = 3"
  "operand_count Op_StoreEnvironment = 3"
  "operand_count Op_DeclareGlobalLexical = 2"
  "operand_count Op_InitializeGlobalLexical = 2"
  "operand_count Op_ReturnUndefined = 0"
  "operand_count Op_ToNumber = 2"
  "operand_count Op_BitwiseNot = 2"
  "operand_count Op_BitwiseAnd = 3"
  "operand_count Op_BitwiseOr = 3"
  "operand_count Op_BitwiseXor = 3"
  "operand_count Op_ShiftLeft = 3"
  "operand_count Op_ShiftRight = 3"
  "operand_count Op_ShiftRightUnsigned = 3"
  "operand_count Op_Remainder = 3"
  "operand_count Op_Exponentiate = 3"
  "operand_count Op_GreaterThan = 3"
  "operand_count Op_LessEqual = 3"
  "operand_count Op_GreaterEqual = 3"
  "operand_count Op_LooseEqual = 3"
  "operand_count Op_LooseNotEqual = 3"
  "operand_count Op_HasProperty = 3"
  "operand_count Op_TypeofScope = 2"
  "operand_count Op_DeleteById = 3"
  "operand_count Op_DeleteByValue = 3"
  "operand_count Op_CreateArray = 1"
  "operand_count Op_CreateForInIterator = 2"
  "operand_count Op_ForInNext = 2"
  "operand_count Op_LoadArgumentsLength = 1"
  "operand_count Op_EnterFinally = 0"
  "operand_count Op_ResumeCompletion = 0"
  "operand_count Op_BreakThroughFinally = 2"
  "operand_count Op_ContinueThroughFinally = 2"
  "operand_count Op_ToPropertyKey = 3"
  "operand_count Op_ToPropertyKeyForIn = 3"
  "operand_count Op_SetFunctionName = 2"
  "operand_count Op_DefineGetterById = 3"
  "operand_count Op_DefineSetterById = 3"
  "operand_count Op_DefineGetterByValue = 3"
  "operand_count Op_DefineSetterByValue = 3"
  "operand_count Op_SetAccessorFunctionName = 3"
  "operand_count Op_CreateExclusionList = 2"
  "operand_count Op_ExcludePropertyKey = 2"
  "operand_count Op_CopyDataProperties = 3"
  "operand_count Op_CollectRestArguments = 2"
  "operand_count Op_LoadArgumentsObject = 1"
  "operand_count Op_CreateClass = 3"
  "operand_count Op_SuperConstruct = 3"
  "operand_count Op_InitializeThis = 1"
  "operand_count Op_CheckConstructor = 1"
  "operand_count Op_DefineClassMethodById = 3"
  "operand_count Op_SuperConstructForwardAll = 1"
  "operand_count Op_CreateBaseClass = 2"
  "operand_count Op_DefineClassGetterById = 3"
  "operand_count Op_DefineClassSetterById = 3"
  "operand_count Op_SetFunctionNameByValue = 2"
  "operand_count Op_DefineClassMethodByValue = 3"
  "operand_count Op_DefineClassGetterByValue = 3"
  "operand_count Op_DefineClassSetterByValue = 3"
  "operand_count Op_LoadSuperBase = 1"
  "operand_count Op_GetSuperById = 2"
  "operand_count Op_GetSuperByValue = 3"
  "operand_count Op_EnterClassEnvironment = 1"
  "operand_count Op_InitializeClassEnvironment = 2"
  "operand_count Op_LeaveClassEnvironment = 0"
  "operand_count Op_SetFunctionHomeObject = 2"
  "operand_count Op_DefineFieldById = 3"
  "operand_count Op_DefineFieldByValue = 3"
  "operand_count Op_AttachInstanceFields = 3"
  "operand_count Op_InitializeInstanceElements = 1"
  "operand_count Op_CreatePrivateName = 2"
  "operand_count Op_GetPrivate = 3"
  "operand_count Op_SetPrivate = 3"
  "operand_count Op_CreateAccessorPair = 3"
  "operand_count Op_DefinePrivateField = 3"
  "operand_count Op_DefinePrivateMethod = 3"
  "operand_count Op_DefinePrivateAccessor = 3"
  "operand_count Op_HasPrivate = 3"
  "operand_count Op_TailCall = 3"
  "operand_count Op_TailCallWithReceiver = 3"
  "operand_count Op_DirectEval = 3"
  "operand_count Op_InitializeEnvironment = 3"
  "operand_count Op_CreateDataPropertyById = 3"
  "operand_count Op_CreateDataPropertyByValue = 3"
  "operand_count Op_LoadIteratorSymbol = 1"
  "operand_count Op_CheckObject = 1"
  "operand_count Op_YieldWithKind = 3"
  "operand_count Op_CallSpread = 3"
  "operand_count Op_TailCallSpread = 3"
  "operand_count Op_CallSpreadWithReceiver = 3"
  "operand_count Op_TailCallSpreadWithReceiver = 3"
  "operand_count Op_DirectEvalSpread = 3"
  "operand_count Op_LoadAsyncIteratorSymbol = 1"
  "operand_count Op_CreateAsyncFromSyncIterator = 3"
  "operand_count Op_InitialYield = 0"
  "operand_count Op_DynamicImport = 3"
  "operand_count Op_LoadTemplateObject = 2"
  "operand_count Op_SetObjectLiteralPrototype = 2"
  "operand_count Op_ToString = 2"
  "operand_count Op_Update = 3"
  "operand_count Op_EnterLexicalEnvironment = 2"
  "operand_count Op_InitializeLexicalEnvironment = 2"
  "operand_count Op_LeaveLexicalEnvironment = 0"
  "operand_count Op_ConstructSpread = 3"
  "operand_count Op_SuperConstructSpread = 2"
  by (simp_all add: operand_count_def OPCODE_OPERAND_COUNTS_def)

lemma opcode_index_less: "opcode_index op < 146"
  using opcode_index [of op] by simp

lemma opcode_index_Opcode [simp]: "i < 146 \<Longrightarrow> opcode_index (Opcode i) = i"
  by (simp add: Opcode_inverse)

lemma Opcode_opcode_index [simp]: "Opcode (opcode_index op) = op"
  by (rule opcode_index_inverse)

lemma opcode_exhaust: "\<exists>i<146. op = Opcode i"
  by (rule exI [of _ "opcode_index op"]) (simp add: opcode_index_less)

lemma opcode_univ:
  "op \<in> {Op_Nop, Op_LoadImmediate, Op_LoadConstant, Op_Move, Op_Add, Op_Sub, Op_Mul, Op_Div,
     Op_StrictEqual, Op_Jump, Op_JumpIfFalse, Op_Return, Op_Throw, Op_Call, Op_CreateClosure,
     Op_LoadScope, Op_StoreScope, Op_Await, Op_Yield, Op_LoadUndefined, Op_LoadNull, Op_LoadFalse,
     Op_LoadTrue, Op_Not, Op_JumpIfTrue, Op_JumpIfNotNullish, Op_Negate, Op_CreateObject,
     Op_GetById, Op_SetById, Op_CallWithReceiver, Op_LoadException, Op_Construct, Op_LoadThis,
     Op_LoadNewTarget, Op_LessThan, Op_GetByValue, Op_SetByValue, Op_Typeof, Op_DeclareScope,
     Op_InstanceOf, Op_StoreResolvedScope, Op_LoadEnvironment, Op_StoreEnvironment,
     Op_DeclareGlobalLexical, Op_InitializeGlobalLexical, Op_ReturnUndefined, Op_ToNumber,
     Op_BitwiseNot, Op_BitwiseAnd, Op_BitwiseOr, Op_BitwiseXor, Op_ShiftLeft, Op_ShiftRight,
     Op_ShiftRightUnsigned, Op_Remainder, Op_Exponentiate, Op_GreaterThan, Op_LessEqual,
     Op_GreaterEqual, Op_LooseEqual, Op_LooseNotEqual, Op_HasProperty, Op_TypeofScope,
     Op_DeleteById, Op_DeleteByValue, Op_CreateArray, Op_CreateForInIterator, Op_ForInNext,
     Op_LoadArgumentsLength, Op_EnterFinally, Op_ResumeCompletion, Op_BreakThroughFinally,
     Op_ContinueThroughFinally, Op_ToPropertyKey, Op_ToPropertyKeyForIn, Op_SetFunctionName,
     Op_DefineGetterById, Op_DefineSetterById, Op_DefineGetterByValue, Op_DefineSetterByValue,
     Op_SetAccessorFunctionName, Op_CreateExclusionList, Op_ExcludePropertyKey,
     Op_CopyDataProperties, Op_CollectRestArguments, Op_LoadArgumentsObject, Op_CreateClass,
     Op_SuperConstruct, Op_InitializeThis, Op_CheckConstructor, Op_DefineClassMethodById,
     Op_SuperConstructForwardAll, Op_CreateBaseClass, Op_DefineClassGetterById,
     Op_DefineClassSetterById, Op_SetFunctionNameByValue, Op_DefineClassMethodByValue,
     Op_DefineClassGetterByValue, Op_DefineClassSetterByValue, Op_LoadSuperBase, Op_GetSuperById,
     Op_GetSuperByValue, Op_EnterClassEnvironment, Op_InitializeClassEnvironment,
     Op_LeaveClassEnvironment, Op_SetFunctionHomeObject, Op_DefineFieldById, Op_DefineFieldByValue,
     Op_AttachInstanceFields, Op_InitializeInstanceElements, Op_CreatePrivateName, Op_GetPrivate,
     Op_SetPrivate, Op_CreateAccessorPair, Op_DefinePrivateField, Op_DefinePrivateMethod,
     Op_DefinePrivateAccessor, Op_HasPrivate, Op_TailCall, Op_TailCallWithReceiver, Op_DirectEval,
     Op_InitializeEnvironment, Op_CreateDataPropertyById, Op_CreateDataPropertyByValue,
     Op_LoadIteratorSymbol, Op_CheckObject, Op_YieldWithKind, Op_CallSpread, Op_TailCallSpread,
     Op_CallSpreadWithReceiver, Op_TailCallSpreadWithReceiver, Op_DirectEvalSpread,
     Op_LoadAsyncIteratorSymbol, Op_CreateAsyncFromSyncIterator, Op_InitialYield, Op_DynamicImport,
     Op_LoadTemplateObject, Op_SetObjectLiteralPrototype, Op_ToString, Op_Update,
     Op_EnterLexicalEnvironment, Op_InitializeLexicalEnvironment, Op_LeaveLexicalEnvironment,
     Op_ConstructSpread, Op_SuperConstructSpread}" (is "op \<in> ?S")
proof -
  have "opcode_index op \<in> set [0..<146]"
    by (simp add: opcode_index_less)
  then show ?thesis
    unfolding insert_iff empty_iff opcode_eq_iff opcode_index_simps
    by (simp add: upt_conv_Cons [of 0] upt_conv_Cons [of "Suc 0"] upt_rec_numeral flip: numeral_2_eq_2)
qed

lemma all_opcode:
  "(\<forall>op. P op) \<longleftrightarrow> (\<forall>op \<in> {Op_Nop, Op_LoadImmediate, Op_LoadConstant, Op_Move, Op_Add, Op_Sub, Op_Mul, Op_Div,
     Op_StrictEqual, Op_Jump, Op_JumpIfFalse, Op_Return, Op_Throw, Op_Call, Op_CreateClosure,
     Op_LoadScope, Op_StoreScope, Op_Await, Op_Yield, Op_LoadUndefined, Op_LoadNull, Op_LoadFalse,
     Op_LoadTrue, Op_Not, Op_JumpIfTrue, Op_JumpIfNotNullish, Op_Negate, Op_CreateObject,
     Op_GetById, Op_SetById, Op_CallWithReceiver, Op_LoadException, Op_Construct, Op_LoadThis,
     Op_LoadNewTarget, Op_LessThan, Op_GetByValue, Op_SetByValue, Op_Typeof, Op_DeclareScope,
     Op_InstanceOf, Op_StoreResolvedScope, Op_LoadEnvironment, Op_StoreEnvironment,
     Op_DeclareGlobalLexical, Op_InitializeGlobalLexical, Op_ReturnUndefined, Op_ToNumber,
     Op_BitwiseNot, Op_BitwiseAnd, Op_BitwiseOr, Op_BitwiseXor, Op_ShiftLeft, Op_ShiftRight,
     Op_ShiftRightUnsigned, Op_Remainder, Op_Exponentiate, Op_GreaterThan, Op_LessEqual,
     Op_GreaterEqual, Op_LooseEqual, Op_LooseNotEqual, Op_HasProperty, Op_TypeofScope,
     Op_DeleteById, Op_DeleteByValue, Op_CreateArray, Op_CreateForInIterator, Op_ForInNext,
     Op_LoadArgumentsLength, Op_EnterFinally, Op_ResumeCompletion, Op_BreakThroughFinally,
     Op_ContinueThroughFinally, Op_ToPropertyKey, Op_ToPropertyKeyForIn, Op_SetFunctionName,
     Op_DefineGetterById, Op_DefineSetterById, Op_DefineGetterByValue, Op_DefineSetterByValue,
     Op_SetAccessorFunctionName, Op_CreateExclusionList, Op_ExcludePropertyKey,
     Op_CopyDataProperties, Op_CollectRestArguments, Op_LoadArgumentsObject, Op_CreateClass,
     Op_SuperConstruct, Op_InitializeThis, Op_CheckConstructor, Op_DefineClassMethodById,
     Op_SuperConstructForwardAll, Op_CreateBaseClass, Op_DefineClassGetterById,
     Op_DefineClassSetterById, Op_SetFunctionNameByValue, Op_DefineClassMethodByValue,
     Op_DefineClassGetterByValue, Op_DefineClassSetterByValue, Op_LoadSuperBase, Op_GetSuperById,
     Op_GetSuperByValue, Op_EnterClassEnvironment, Op_InitializeClassEnvironment,
     Op_LeaveClassEnvironment, Op_SetFunctionHomeObject, Op_DefineFieldById, Op_DefineFieldByValue,
     Op_AttachInstanceFields, Op_InitializeInstanceElements, Op_CreatePrivateName, Op_GetPrivate,
     Op_SetPrivate, Op_CreateAccessorPair, Op_DefinePrivateField, Op_DefinePrivateMethod,
     Op_DefinePrivateAccessor, Op_HasPrivate, Op_TailCall, Op_TailCallWithReceiver, Op_DirectEval,
     Op_InitializeEnvironment, Op_CreateDataPropertyById, Op_CreateDataPropertyByValue,
     Op_LoadIteratorSymbol, Op_CheckObject, Op_YieldWithKind, Op_CallSpread, Op_TailCallSpread,
     Op_CallSpreadWithReceiver, Op_TailCallSpreadWithReceiver, Op_DirectEvalSpread,
     Op_LoadAsyncIteratorSymbol, Op_CreateAsyncFromSyncIterator, Op_InitialYield, Op_DynamicImport,
     Op_LoadTemplateObject, Op_SetObjectLiteralPrototype, Op_ToString, Op_Update,
     Op_EnterLexicalEnvironment, Op_InitializeLexicalEnvironment, Op_LeaveLexicalEnvironment,
     Op_ConstructSpread, Op_SuperConstructSpread}. P op)"
  using opcode_univ by blast

lemma length_OPCODE_OPERAND_COUNTS: "length OPCODE_OPERAND_COUNTS = OPCODE_COUNT"
  by (simp add: OPCODE_OPERAND_COUNTS_def OPCODE_COUNT_def)

lemma operand_count_le_3: "operand_count op \<le> 3"
proof -
  have "\<forall>c \<in> set OPCODE_OPERAND_COUNTS. c \<le> 3"
    by (simp add: OPCODE_OPERAND_COUNTS_def)
  moreover have "operand_count op \<in> set OPCODE_OPERAND_COUNTS"
    by (simp add: operand_count_def length_OPCODE_OPERAND_COUNTS OPCODE_COUNT_def opcode_index_less)
  ultimately show ?thesis by blast
qed

section \<open>The inverse tables\<close>

lemma from_base_table:
  "from_base b = map_of (map (\<lambda>i. (word_of_nat i, Opcode i)) [0..<64]) b"
  unfolding from_base_def opcode_defs
  by (rule arg_cong [where f = "\<lambda>xs. map_of xs b"]) (simp add: upt_conv_Cons [of 0] upt_conv_Cons [of "Suc 0"] upt_rec_numeral flip: numeral_2_eq_2)

lemma from_extended_table:
  "from_extended n = map_of (map (\<lambda>i. (i, Opcode (64 + i))) [0..<82]) n"
  unfolding from_extended_def opcode_defs
  by (rule arg_cong [where f = "\<lambda>xs. map_of xs n"]) (simp add: upt_conv_Cons [of 0] upt_conv_Cons [of "Suc 0"] upt_rec_numeral flip: numeral_2_eq_2)

lemma from_base_eq: "from_base b = (if unat b < 64 then Some (Opcode (unat b)) else None)"
proof (cases "unat b < 64")
  case True
  have "inj_on (\<lambda>i. word_of_nat i :: u8) {0..<64}"
    by (auto simp: inj_on_def unat_of_nat dest!: arg_cong [where f = unat])
  then have "map_of (map (\<lambda>i. (word_of_nat i :: u8, Opcode i)) [0..<64]) (word_of_nat (unat b))
    = Some (Opcode (unat b))"
    using True
    by (subst map_of_eq_Some_iff)
      (auto simp: distinct_map o_def intro!: image_eqI [where x = "unat b"])
  with True show ?thesis by (simp add: from_base_table)
next
  case False
  then have "map_of (map (\<lambda>i. (word_of_nat i :: u8, Opcode i)) [0..<64]) b = None"
    by (auto simp: map_of_eq_None_iff unat_of_nat)
  with False show ?thesis by (simp add: from_base_table)
qed

lemma from_extended_eq: "from_extended n = (if n < 82 then Some (Opcode (64 + n)) else None)"
  by (auto simp: from_extended_table map_of_eq_None_iff map_of_eq_Some_iff distinct_map inj_on_def o_def)

lemma from_base_opcode_u8: "opcode_index op < 64 \<Longrightarrow> from_base (opcode_u8 op) = Some op"
  by (simp add: from_base_eq opcode_u8_def unat_of_nat)

lemma from_extended_opcode_index:
  "64 \<le> opcode_index op \<Longrightarrow> from_extended (opcode_index op - 64) = Some op"
  using opcode_index_less [of op] by (simp add: from_extended_eq)

lemma from_base_eq_Some: "from_base b = Some op \<longleftrightarrow> unat b = opcode_index op \<and> opcode_index op < 64"
  by (auto simp: from_base_eq opcode_index_less)

lemma from_extended_eq_Some: "from_extended n = Some op \<longleftrightarrow> opcode_index op = 64 + n"
  using opcode_index_less [of op] by (auto simp: from_extended_eq opcode_eq_iff)

lemma from_index_opcode_index: "from_index (opcode_index op) = Some op"
  using opcode_index_less [of op]
  by (auto simp: from_index_def OPCODE_COUNT_def BASE_OPCODE_COUNT_def from_base_eq from_extended_eq unat_of_nat)

section \<open>Properties\<close>

text \<open>The dense opcode numbering is a bijection: \<open>from_index\<close> returns an opcode for exactly the numbers
  0 to 145, and it is the opcode with that discriminant, so the tables \<open>from_base\<close> and
  \<open>from_extended\<close> list every variant once and in the order of the enumeration.\<close>

theorem opcode_numbering: "from_index n = Some op \<longleftrightarrow> opcode_index op = n"
proof
  assume "opcode_index op = n"
  then show "from_index n = Some op" using from_index_opcode_index by blast
next
  assume "from_index n = Some op"
  then show "opcode_index op = n"
    by (auto simp: from_index_def OPCODE_COUNT_def BASE_OPCODE_COUNT_def from_base_eq from_extended_eq unat_of_nat
        split: if_splits)
qed

end
