(* ===== verification/Bytecode_Encoding.thy ===== *)
theory Bytecode_Encoding
  imports Bytecode_Opcode
begin

text \<open>
  The word encoding of \<open>crates/tachyon-bytecode/src/encoding.rs\<close> and the unchecked decoder of
  \<open>crates/tachyon-bytecode/src/lib.rs\<close>.

  An instruction is a header word and up to three operands. The low byte of the header holds the
  format in its top two bits and the opcode (or the opcode within an extension page) in the other
  six. Operands are packed into the header (compact), two to a word (normal), or one to a word
  (wide, and every escaped opcode).

  A \<open>WordOffset\<close>, \<open>RegisterId\<close>, \<open>ConstantId\<close>, \<open>FunctionId\<close> or \<open>FeedbackSlot\<close> is a transparent
  newtype of \<open>u32\<close> and is modelled by it. The array \<open>[u32; 3]\<close> of decoded operands is a list, which
  \<open>length_operands\<close> shows to have length 3; \<open>operand_count\<close> and \<open>word_len\<close>, at most 3 and 4, are
  naturals, so the casts to \<open>u8\<close> lose nothing.
\<close>

section \<open>Data\<close>

type_synonym word_offset = u32
type_synonym register_id = u32
type_synonym constant_id = u32
type_synonym function_id = u32
type_synonym feedback_slot = u32

definition OPCODE_MASK :: u8 where "OPCODE_MASK = 0x3f"

definition FORMAT_MASK :: u8 where "FORMAT_MASK = 0xc0"

definition ESCAPE_FORMAT :: u8 where "ESCAPE_FORMAT = 0xc0"

definition NORMAL_FORMAT :: u8 where "NORMAL_FORMAT = 0x40"

definition WIDE_FORMAT :: u8 where "WIDE_FORMAT = 0x80"

definition MAX_ENCODED_INSTRUCTION_WORDS :: nat where "MAX_ENCODED_INSTRUCTION_WORDS = 4"

datatype operand_width = Compact | Normal | Wide

record decoded_instruction =
  instr_opcode :: opcode
  instr_width :: operand_width
  instr_operands :: "u32 list"
  instr_operand_count :: nat
  instr_word_len :: nat

datatype decode_error =
    InvalidOpcode word_offset u8
  | InvalidFormat word_offset u8
  | Truncated word_offset nat nat
  | NonZeroReservedBits word_offset u32

datatype encode_error = WrongOperandCount opcode nat nat

definition instr_operand :: "decoded_instruction \<Rightarrow> nat \<Rightarrow> u32 option" where
  "instr_operand d index =
     (if index < instr_operand_count d then Some (instr_operands d ! index) else None)"

section \<open>Encoding\<close>

text \<open>The loop \<open>word |= operand << (8 * (index + 1))\<close> of the compact form.\<close>

fun compact_word :: "u32 \<Rightarrow> nat \<Rightarrow> u32 list \<Rightarrow> u32" where
  "compact_word word index [] = word"
| "compact_word word index (operand # operands) =
     compact_word (word OR push_bit (8 * (index + 1)) operand) (index + 1) operands"

text \<open>The loop over \<open>operands.chunks(2)\<close> of the normal form.\<close>

fun normal_words :: "u32 list \<Rightarrow> u32 list" where
  "normal_words [] = []"
| "normal_words [first] = [first OR push_bit 16 0]"
| "normal_words (first # second # operands) = (first OR push_bit 16 second) # normal_words operands"

definition encode_width :: "u32 list \<Rightarrow> operand_width" where
  "encode_width operands =
     (if \<forall>operand \<in> set operands. operand \<le> 0xff then Compact
      else if \<forall>operand \<in> set operands. operand \<le> 0xffff then Normal
      else Wide)"

definition encode_extended :: "opcode \<Rightarrow> u32 list \<Rightarrow> u32 list" where
  "encode_extended op operands =
     (let extension = opcode_index op - BASE_OPCODE_COUNT;
          page = extension div BASE_OPCODE_COUNT;
          base = extension mod BASE_OPCODE_COUNT
      in (ucast (ESCAPE_FORMAT OR (word_of_nat base :: u8)) OR push_bit 8 (word_of_nat page)) # operands)"

definition encode_base :: "opcode \<Rightarrow> u32 list \<Rightarrow> u32 list" where
  "encode_base op operands =
     (let base = opcode_u8 op
      in case encode_width operands of
           Compact \<Rightarrow> [compact_word (ucast base) 0 operands]
         | Normal \<Rightarrow> ucast (base OR NORMAL_FORMAT) # normal_words operands
         | Wide \<Rightarrow> ucast (base OR WIDE_FORMAT) # operands)"

definition encode_instruction :: "opcode \<Rightarrow> u32 list \<Rightarrow> (encode_error, u32 list) outcome" where
  "encode_instruction op operands =
     (if length operands \<noteq> operand_count op
      then Err (WrongOperandCount op (operand_count op) (length operands))
      else if opcode_index op \<ge> BASE_OPCODE_COUNT then Ok (encode_extended op operands)
      else Ok (encode_base op operands))"

section \<open>Decoding\<close>

text \<open>Writing the first \<open>n\<close> entries of the zero-initialised array \<open>[0; 3]\<close>.\<close>

definition fill_operands :: "nat \<Rightarrow> (nat \<Rightarrow> u32) \<Rightarrow> u32 list" where
  "fill_operands n f = [if 0 < n then f 0 else 0, if 1 < n then f 1 else 0, if 2 < n then f 2 else 0]"

definition decoded :: "opcode \<Rightarrow> operand_width \<Rightarrow> u32 list \<Rightarrow> nat \<Rightarrow> decoded_instruction" where
  "decoded op width operands word_len =
     \<lparr>instr_opcode = op, instr_width = width, instr_operands = operands,
      instr_operand_count = operand_count op, instr_word_len = word_len\<rparr>"

definition decode_escape ::
  "u32 list \<Rightarrow> word_offset \<Rightarrow> opcode \<Rightarrow> (decode_error, decoded_instruction) outcome" where
  "decode_escape words offset op =
     (let start = unat offset; expected_words = 1 + operand_count op
      in if length words - start < expected_words
         then Err (Truncated offset expected_words (length words - start))
         else Ok (decoded op Wide
           (fill_operands (operand_count op) (\<lambda>index. words ! (start + 1 + index))) expected_words))"

definition decode_normal ::
  "u32 list \<Rightarrow> word_offset \<Rightarrow> opcode \<Rightarrow> (decode_error, decoded_instruction) outcome" where
  "decode_normal words offset op =
     (let n = operand_count op; data_words = div_ceil n 2; expected_words = 1 + data_words;
          start = unat offset
      in if length words - start < expected_words
         then Err (Truncated offset expected_words (length words - start))
         else if n mod 2 = 1 \<and> drop_bit 16 (words ! (start + data_words)) \<noteq> 0
         then Err (NonZeroReservedBits (offset + word_of_nat data_words) (words ! (start + data_words)))
         else Ok (decoded op Normal
           (fill_operands n (\<lambda>index.
              drop_bit (16 * (index mod 2)) (words ! (start + 1 + index div 2)) AND 0xffff))
           expected_words))"

definition decode_wide ::
  "u32 list \<Rightarrow> word_offset \<Rightarrow> opcode \<Rightarrow> (decode_error, decoded_instruction) outcome" where
  "decode_wide words offset op =
     (let n = operand_count op; expected_words = 1 + n; start = unat offset
      in if length words - start < expected_words
         then Err (Truncated offset expected_words (length words - start))
         else Ok (decoded op Wide
           (fill_operands n (\<lambda>index. words ! (start + 1 + index))) expected_words))"

definition header_opcode :: "u32 \<Rightarrow> opcode option" where
  "header_opcode header =
     (let raw = ucast header :: u8
      in if raw AND FORMAT_MASK = ESCAPE_FORMAT
         then from_extended (unat (drop_bit 8 header) * BASE_OPCODE_COUNT + unat (raw AND OPCODE_MASK))
         else from_base (raw AND OPCODE_MASK))"

definition decode_instruction ::
  "u32 list \<Rightarrow> word_offset \<Rightarrow> (decode_error, decoded_instruction) outcome" where
  "decode_instruction words offset =
     (case get words (unat offset) of
        None \<Rightarrow> Err (Truncated offset 1 0)
      | Some header \<Rightarrow>
          (let raw = ucast header :: u8; format = raw AND FORMAT_MASK
           in case header_opcode header of
                None \<Rightarrow> Err (InvalidOpcode offset raw)
              | Some op \<Rightarrow>
                  if format = ESCAPE_FORMAT then decode_escape words offset op
                  else if format \<noteq> 0 \<and> header AND 0xffffff00 \<noteq> 0
                  then Err (NonZeroReservedBits offset header)
                  else if format = 0
                  then Ok (decoded op Compact
                    (fill_operands (operand_count op)
                      (\<lambda>index. drop_bit (8 * (index + 1)) header AND 0xff)) 1)
                  else if format = NORMAL_FORMAT then decode_normal words offset op
                  else if format = WIDE_FORMAT then decode_wide words offset op
                  else Err (InvalidFormat offset raw)))"

section \<open>The unchecked decoder\<close>

text \<open>
  \<open>VerifiedInstructionDecoder::decode_unchecked\<close>. A read outside the backing words and a
  \<open>transmute\<close> of a number that is no opcode are undefined behaviour; both are \<open>Panic\<close> here, so that
  a theorem that the result is \<open>Ok\<close> excludes them. The opcode number is computed in \<open>u8\<close>, as in the
  source, with its wrap-around.
\<close>

definition unchecked_normal_operands :: "u32 list \<Rightarrow> nat \<Rightarrow> nat \<Rightarrow> (decode_error, u32 list) outcome" where
  "unchecked_normal_operands words start n =
     and_then (if n \<noteq> 0 then index_or_panic words (start + 1) else Ok 0) (\<lambda>first.
     and_then (if n > 2 then index_or_panic words (start + 2) else Ok 0) (\<lambda>second.
       Ok [if n \<noteq> 0 then first AND 0xffff else 0,
           if n \<noteq> 0 \<and> n > 1 then drop_bit 16 first else 0,
           if n > 2 then second AND 0xffff else 0]))"

definition unchecked_full_width_operands :: "u32 list \<Rightarrow> nat \<Rightarrow> nat \<Rightarrow> (decode_error, u32 list) outcome" where
  "unchecked_full_width_operands words start n =
     and_then (if n > 0 then index_or_panic words (start + 1) else Ok 0) (\<lambda>a.
     and_then (if n > 1 then index_or_panic words (start + 2) else Ok 0) (\<lambda>b.
     and_then (if n > 2 then index_or_panic words (start + 3) else Ok 0) (\<lambda>c. Ok [a, b, c])))"

definition decode_compact_operands :: "u32 \<Rightarrow> nat \<Rightarrow> u32 list" where
  "decode_compact_operands header n =
     [if n > 0 then drop_bit 8 header AND 0xff else 0,
      if n > 1 then drop_bit 16 header AND 0xff else 0,
      if n > 2 then drop_bit 24 header else 0]"

definition unchecked_opcode_u8 :: "u32 \<Rightarrow> u8" where
  "unchecked_opcode_u8 header =
     (let raw = ucast header :: u8
      in (raw AND OPCODE_MASK) +
         (if raw AND FORMAT_MASK = ESCAPE_FORMAT then 64 + ucast (drop_bit 8 header) * 64 else 0))"

definition decode_unchecked :: "u32 list \<Rightarrow> word_offset \<Rightarrow> (decode_error, decoded_instruction) outcome" where
  "decode_unchecked words offset =
     (let start = unat offset
      in and_then (index_or_panic words start) (\<lambda>header.
         let format = (ucast header :: u8) AND FORMAT_MASK
         in and_then (expect (from_index (unat (unchecked_opcode_u8 header)))) (\<lambda>op.
         let n = operand_count op
         in if format = 0 then Ok (decoded op Compact (decode_compact_operands header n) 1)
            else if format = NORMAL_FORMAT
            then and_then (unchecked_normal_operands words start n) (\<lambda>operands.
                   Ok (decoded op Normal operands (1 + div_ceil n 2)))
            else and_then (unchecked_full_width_operands words start n) (\<lambda>operands.
                   Ok (decoded op Wide operands (1 + n))))))"

text \<open>The operand array that a decode of \<open>operands\<close> must produce: unused entries stay zero.\<close>

definition pad_operands :: "u32 list \<Rightarrow> u32 list" where
  "pad_operands operands = operands @ replicate (3 - length operands) 0"

section \<open>Bit fields\<close>

lemma and_0xff: "(x :: u32) AND 0xff = take_bit 8 x"
  by (simp add: take_bit_eq_mask mask_eq_exp_minus_1)

lemma and_0xffff: "(x :: u32) AND 0xffff = take_bit 16 x"
  by (simp add: take_bit_eq_mask mask_eq_exp_minus_1)

lemma and_0xffffff00: "(x :: u32) AND 0xffffff00 = push_bit 8 (drop_bit 8 x)"
proof -
  have m: "(0xffffff00 :: u32) = push_bit 8 (mask 24)"
    by (simp add: mask_eq_exp_minus_1 push_bit_eq_mult)
  show ?thesis
    unfolding m by (rule bit_word_eqI) (auto simp: bit_simps)
qed

lemma and_OPCODE_MASK: "x AND OPCODE_MASK = take_bit 6 x"
  by (simp add: take_bit_eq_mask mask_eq_exp_minus_1 OPCODE_MASK_def)

lemma and_FORMAT_MASK: "x AND FORMAT_MASK = push_bit 6 (drop_bit 6 x)"
proof -
  have m: "FORMAT_MASK = push_bit 6 (mask 2)"
    by (simp add: FORMAT_MASK_def mask_eq_exp_minus_1 push_bit_eq_mult)
  show ?thesis
    unfolding m by (rule bit_word_eqI) (auto simp: bit_simps)
qed

lemma format_eqs:
  "NORMAL_FORMAT = push_bit 6 1" "WIDE_FORMAT = push_bit 6 2" "ESCAPE_FORMAT = push_bit 6 3"
  by (simp_all add: NORMAL_FORMAT_def WIDE_FORMAT_def ESCAPE_FORMAT_def push_bit_eq_mult)

lemmas format_defs = NORMAL_FORMAT_def WIDE_FORMAT_def ESCAPE_FORMAT_def

lemma format_cases:
  "x AND FORMAT_MASK \<in> {0, NORMAL_FORMAT, WIDE_FORMAT, ESCAPE_FORMAT}"
proof -
  have "drop_bit 6 (unat x) < 4"
    using unsigned_less [of x, where 'a = nat] by (simp add: drop_bit_eq_div)
  then have "unat (drop_bit 6 x) \<in> {0, 1, 2, 3}"
    unfolding unat_drop_bit_eq by auto
  then have "drop_bit 6 x \<in> {0, 1, 2, 3}"
    by (simp add: word_unat_eq_iff)
  then show ?thesis
    by (auto simp: and_FORMAT_MASK format_eqs)
qed

lemma byte_bit: "x \<le> 0xff \<Longrightarrow> bit (x :: u32) n \<Longrightarrow> n < 8"
  by (rule small_word_bit [of x 8]) (auto simp: word_le_nat_alt)

lemma half_bit: "x \<le> 0xffff \<Longrightarrow> bit (x :: u32) n \<Longrightarrow> n < 16"
  by (rule small_word_bit [of x 16]) (auto simp: word_le_nat_alt)

lemma unat_opcode_u8: "unat (opcode_u8 op) = opcode_index op"
  using opcode_index_less [of op] by (simp add: opcode_u8_def unat_of_nat)

lemma raw_fields:
  assumes "unat (b :: u8) < 64"
  shows "(b OR push_bit 6 f) AND FORMAT_MASK = push_bit 6 f" "(b OR push_bit 6 f) AND OPCODE_MASK = b"
    "b AND FORMAT_MASK = 0" "b AND OPCODE_MASK = b"
proof -
  have "bit b n \<Longrightarrow> n < 6" for n
    using assms by (intro small_word_bit [of b 6]) simp_all
  then show "(b OR push_bit 6 f) AND FORMAT_MASK = push_bit 6 f"
    "(b OR push_bit 6 f) AND OPCODE_MASK = b" "b AND FORMAT_MASK = 0" "b AND OPCODE_MASK = b"
    unfolding and_FORMAT_MASK and_OPCODE_MASK
    by (auto intro!: bit_word_eqI simp: bit_simps) fastforce+
qed

lemma compact_header_fields:
  fixes b :: u8
  assumes "x \<le> 0xff" "y \<le> 0xff" "z \<le> 0xff"
  defines "h \<equiv> ((ucast b OR push_bit 8 x) OR push_bit 16 y) OR push_bit 24 z :: u32"
  shows "ucast h = b" "drop_bit 8 h AND 0xff = x" "drop_bit 16 h AND 0xff = y" "drop_bit 24 h AND 0xff = z"
  unfolding and_0xff h_def
  by (rule bit_word_eqI; use assms(1-3) byte_bit in \<open>fastforce simp: bit_simps dest: bit_imp_le_length\<close>)+

lemma ucast_header: "ucast (ucast (b :: u8) :: u32) = b" "drop_bit 8 (ucast (b :: u8) :: u32) = 0"
  by (rule bit_word_eqI; auto simp: bit_simps dest: bit_imp_le_length)+

lemma escape_header_fields:
  fixes b :: u8
  assumes "p < 2"
  defines "h \<equiv> ucast b OR push_bit 8 (word_of_nat p) :: u32"
  shows "ucast h = b" "drop_bit 8 h = word_of_nat p"
proof -
  have p: "\<And>n. bit (word_of_nat p :: u32) n \<Longrightarrow> n < 1"
    using assms(1) by (intro small_word_bit [of "word_of_nat p :: u32" 1]) (auto simp: unat_of_nat)
  show "ucast h = b" "drop_bit 8 h = word_of_nat p"
    unfolding h_def
    by (rule bit_word_eqI; use p in \<open>fastforce simp: bit_simps dest: bit_imp_le_length\<close>)+
qed

lemma normal_word_fields:
  assumes "x \<le> 0xffff" "y \<le> (0xffff :: u32)"
  shows "(x OR push_bit 16 y) AND 0xffff = x" "drop_bit 16 (x OR push_bit 16 y) = y"
    "y AND 0xffff = y"
  unfolding and_0xffff
  by (rule bit_word_eqI; use assms half_bit in \<open>fastforce simp: bit_simps\<close>)+


lemma operand_list_cases:
  assumes "length (operands :: u32 list) \<le> 3"
  obtains "operands = []" | a where "operands = [a]" | a b where "operands = [a, b]"
    | a b c where "operands = [a, b, c]"
  using assms by (cases operands; cases "tl operands"; cases "tl (tl operands)"; cases "tl (tl (tl operands))") auto


lemma fill_operands_pad:
  assumes "length operands = n" "n \<le> 3" "\<And>i. i < n \<Longrightarrow> f i = operands ! i"
  shows "fill_operands n f = pad_operands operands"
  using assms(2,3) unfolding assms(1) [symmetric]
  by (cases rule: operand_list_cases)
    (auto simp: fill_operands_def pad_operands_def numeral_3_eq_3 numeral_2_eq_2 less_Suc_eq)

lemma compact_word_pad:
  "length operands \<le> 3 \<Longrightarrow> compact_word b 0 operands =
     ((b OR push_bit 8 (pad_operands operands ! 0)) OR push_bit 16 (pad_operands operands ! 1))
       OR push_bit 24 (pad_operands operands ! 2)"
  by (cases operands rule: operand_list_cases) (auto simp: pad_operands_def numeral_3_eq_3 numeral_2_eq_2)

lemma pad_operands_le:
  "\<forall>x \<in> set operands. x \<le> k \<Longrightarrow> length operands \<le> 3 \<Longrightarrow> i < 3 \<Longrightarrow> pad_operands operands ! i \<le> k"
  by (auto simp: pad_operands_def nth_append)

lemma pad_operands_nth: "i < length operands \<Longrightarrow> pad_operands operands ! i = operands ! i"
  by (simp add: pad_operands_def nth_append)


lemma compact_word_fields:
  fixes b :: u8
  assumes "length operands \<le> 3" "\<forall>x \<in> set operands. x \<le> 0xff"
  shows "ucast (compact_word (ucast b) 0 operands) = b"
    and "i < length operands \<Longrightarrow> drop_bit (8 * (i + 1)) (compact_word (ucast b) 0 operands) AND 0xff = operands ! i"
proof -
  note h = compact_word_pad [OF assms(1)]
  note le = pad_operands_le [OF assms(2,1)]
  have le3: "pad_operands operands ! 0 \<le> 0xff" "pad_operands operands ! 1 \<le> 0xff" "pad_operands operands ! 2 \<le> 0xff"
    using le [of 0] le [of 1] le [of 2] by simp_all
  show "ucast (compact_word (ucast b) 0 operands) = b"
    unfolding h by (rule compact_header_fields [OF le3])
  assume i: "i < length operands"
  then consider "i = 0" | "i = 1" | "i = 2" using assms(1) by linarith
  then show "drop_bit (8 * (i + 1)) (compact_word (ucast b) 0 operands) AND 0xff = operands ! i"
    unfolding pad_operands_nth [OF i, symmetric] h
    by cases (use compact_header_fields(2-4) [OF le3] in simp_all)
qed

lemma decode_encode_compact:
  assumes op: "opcode_index op < 64" and len: "length operands = operand_count op"
    and width: "encode_width operands = Compact" and pre: "length pre < 2 ^ 32"
  shows "decode_instruction (pre @ [compact_word (ucast (opcode_u8 op)) 0 operands] @ suf) (word_of_nat (length pre))
    = Ok (decoded op Compact (pad_operands operands) 1)"
proof -
  let ?h = "compact_word (ucast (opcode_u8 op)) 0 operands"
  have b: "unat (opcode_u8 op) < 64" by (simp add: unat_opcode_u8 op)
  have len3: "length operands \<le> 3" by (simp add: len operand_count_le_3)
  have le: "\<forall>x \<in> set operands. x \<le> 0xff"
    using width by (auto simp: encode_width_def split: if_splits)
  note f = compact_word_fields [OF len3 le, where b = "opcode_u8 op"]
  have "fill_operands (operand_count op) (\<lambda>i. drop_bit (8 * (i + 1)) ?h AND 0xff) = pad_operands operands"
    using len operand_count_le_3 by (intro fill_operands_pad f(2)) auto
  moreover have "header_opcode ?h = Some op"
    by (simp add: header_opcode_def f(1) raw_fields(3,4) [OF b] from_base_opcode_u8 op ESCAPE_FORMAT_def)
  ultimately show ?thesis
    using pre f(1) by (simp add: decode_instruction_def get_def u32_simps raw_fields(3) [OF b] ESCAPE_FORMAT_def)
qed



lemma length_normal_words: "length (normal_words operands) = div_ceil (length operands) 2"
  by (induction operands rule: normal_words.induct) (auto simp: div_ceil_def)

lemma normal_words_operand:
  "\<forall>x \<in> set operands. x \<le> 0xffff \<Longrightarrow> i < length operands \<Longrightarrow>
    drop_bit (16 * (i mod 2)) (normal_words operands ! (i div 2)) AND 0xffff = operands ! i"
proof (induction operands arbitrary: i rule: normal_words.induct)
  case (3 x y operands)
  show ?case
  proof (cases "i < 2")
    case True
    then have "i = 0 \<or> i = 1" by linarith
    with 3 show ?thesis by (auto simp: normal_word_fields simp del: drop_bit_or)
  next
    case False
    then obtain j where j: "i = Suc (Suc j)" by (metis add_2_eq_Suc le_Suc_ex not_less)
    with 3 show ?thesis by simp
  qed
qed (use normal_word_fields [where y = 0] in auto)

lemma normal_words_padding:
  "\<forall>x \<in> set operands. x \<le> 0xffff \<Longrightarrow> length operands mod 2 = 1 \<Longrightarrow>
    drop_bit 16 (last (normal_words operands)) = 0"
proof (induction operands rule: normal_words.induct)
  case (3 x y operands)
  then have "length operands \<noteq> 0" by auto
  then have "normal_words operands \<noteq> []"
    by (cases operands rule: normal_words.cases) auto
  with 3 show ?case by (simp add: mod_Suc split: if_splits)
qed (use normal_word_fields(2) [where y = 0] in auto)

lemma raw_formats:
  assumes "unat (b :: u8) < 64"
  shows "(b OR NORMAL_FORMAT) AND FORMAT_MASK = NORMAL_FORMAT" "(b OR NORMAL_FORMAT) AND OPCODE_MASK = b"
    "(b OR WIDE_FORMAT) AND FORMAT_MASK = WIDE_FORMAT" "(b OR WIDE_FORMAT) AND OPCODE_MASK = b"
    "(ESCAPE_FORMAT OR b) AND FORMAT_MASK = ESCAPE_FORMAT" "(ESCAPE_FORMAT OR b) AND OPCODE_MASK = b"
  using raw_fields [OF assms] unfolding format_eqs by (simp_all only: or.commute [of "push_bit 6 3"])

lemma format_distinct:
  "NORMAL_FORMAT \<noteq> 0" "WIDE_FORMAT \<noteq> 0" "ESCAPE_FORMAT \<noteq> 0" "0 \<noteq> ESCAPE_FORMAT"
  "NORMAL_FORMAT \<noteq> WIDE_FORMAT" "WIDE_FORMAT \<noteq> NORMAL_FORMAT"
  "NORMAL_FORMAT \<noteq> ESCAPE_FORMAT" "WIDE_FORMAT \<noteq> ESCAPE_FORMAT"
  by (simp_all add: format_defs)

lemma decode_instruction_base:
  assumes op: "opcode_index op < 64" and h: "get words (unat offset) = Some (ucast (opcode_u8 op OR fmt))"
  shows "fmt = NORMAL_FORMAT \<Longrightarrow> decode_instruction words offset = decode_normal words offset op"
    and "fmt = WIDE_FORMAT \<Longrightarrow> decode_instruction words offset = decode_wide words offset op"
proof -
  have b: "unat (opcode_u8 op) < 64" by (simp add: unat_opcode_u8 op)
  show "fmt = NORMAL_FORMAT \<Longrightarrow> decode_instruction words offset = decode_normal words offset op"
    "fmt = WIDE_FORMAT \<Longrightarrow> decode_instruction words offset = decode_wide words offset op"
    using h by (simp_all add: decode_instruction_def header_opcode_def ucast_header raw_formats [OF b]
        format_distinct and_0xffffff00 from_base_opcode_u8 op)
qed

lemma decode_normal_eq_Ok:
  assumes "unat offset = start" "n = operand_count op" "start + 1 + div_ceil n 2 \<le> length words"
    and "fill_operands n (\<lambda>i. drop_bit (16 * (i mod 2)) (words ! (start + 1 + i div 2)) AND 0xffff) = operands"
    and "n mod 2 = 0 \<or> drop_bit 16 (words ! (start + div_ceil n 2)) = 0"
  shows "decode_normal words offset op = Ok (decoded op Normal operands (1 + div_ceil n 2))"
  using assms by (auto simp: decode_normal_def Let_def)

lemma decode_encode_normal:
  assumes op: "opcode_index op < 64" and len: "length operands = operand_count op"
    and le: "\<forall>x \<in> set operands. x \<le> 0xffff" and pre: "length pre < 2 ^ 32"
  shows "decode_instruction (pre @ (ucast (opcode_u8 op OR NORMAL_FORMAT) # normal_words operands) @ suf)
      (word_of_nat (length pre))
    = Ok (decoded op Normal (pad_operands operands) (1 + length (normal_words operands)))"
proof -
  let ?hs = "ucast (opcode_u8 op OR NORMAL_FORMAT) # normal_words operands"
  let ?ws = "pre @ ?hs @ suf"
  let ?n = "operand_count op"
  have nth: "?ws ! (length pre + k) = ?hs ! k" if "k \<le> length (normal_words operands)" for k
    using that by (intro nth_append_mid) simp
  have "fill_operands ?n
      (\<lambda>i. drop_bit (16 * (i mod 2)) (?ws ! (length pre + 1 + i div 2)) AND 0xffff) = pad_operands operands"
  proof (intro fill_operands_pad)
    fix i assume i: "i < ?n"
    then have "1 + i div 2 \<le> length (normal_words operands)"
      unfolding length_normal_words len by (auto simp: div_ceil_def)
    from nth [OF this] normal_words_operand [OF le] i
    show "drop_bit (16 * (i mod 2)) (?ws ! (length pre + 1 + i div 2)) AND 0xffff = operands ! i"
      by (simp add: len add.assoc)
  qed (use len operand_count_le_3 in auto)
  moreover have "?n mod 2 = 0 \<or> drop_bit 16 (?ws ! (length pre + div_ceil ?n 2)) = 0"
  proof (cases "?n mod 2 = 0")
    case False
    then have that: "?n mod 2 = 1" by simp
    have "normal_words operands \<noteq> []"
      using that length_normal_words [of operands] len by (auto simp: div_ceil_def)
    then have "?ws ! (length pre + length (normal_words operands)) = last (normal_words operands)"
      by (subst nth) (auto simp: last_conv_nth nth_Cons')
    with normal_words_padding [OF le] that len length_normal_words [of operands] show ?thesis by simp
  qed simp
  moreover have "decode_instruction ?ws (word_of_nat (length pre)) = decode_normal ?ws (word_of_nat (length pre)) op"
    using pre by (intro decode_instruction_base op) (auto simp: get_def u32_simps)
  moreover have "unat (word_of_nat (length pre) :: u32) = length pre"
    using pre by (rule unat_u32_of_nat)
  ultimately show ?thesis
    by (simp only: length_normal_words len)
      (rule decode_normal_eq_Ok, auto simp: length_normal_words len simp del: append.simps)
qed


lemma fill_operands_words:
  assumes "length operands = n" "n \<le> 3"
  shows "fill_operands n (\<lambda>i. (pre @ (h # operands) @ suf) ! (length pre + 1 + i)) = pad_operands operands"
proof (intro fill_operands_pad assms)
  fix i assume "i < n"
  then have "(pre @ (h # operands) @ suf) ! (length pre + (1 + i)) = (h # operands) ! (1 + i)"
    using assms(1) by (intro nth_append_mid) simp
  then show "(pre @ (h # operands) @ suf) ! (length pre + 1 + i) = operands ! i"
    by (simp add: add.assoc)
qed

lemma decode_full_width:
  assumes "length operands = operand_count op" "length pre < 2 ^ 32"
  shows "decode_wide (pre @ (h # operands) @ suf) (word_of_nat (length pre)) op
      = Ok (decoded op Wide (pad_operands operands) (1 + length operands))"
    and "decode_escape (pre @ (h # operands) @ suf) (word_of_nat (length pre)) op
      = Ok (decoded op Wide (pad_operands operands) (1 + length operands))"
  using assms fill_operands_words [OF assms(1) operand_count_le_3, of pre h suf]
  by (auto simp: decode_wide_def decode_escape_def Let_def u32_simps simp del: append.simps)

lemma header_opcode_escape:
  assumes "64 \<le> opcode_index op"
  defines "extension \<equiv> opcode_index op - 64"
  defines "h \<equiv> ucast (ESCAPE_FORMAT OR word_of_nat (extension mod 64) :: u8) OR push_bit 8 (word_of_nat (extension div 64)) :: u32"
  shows "(ucast h :: u8) AND FORMAT_MASK = ESCAPE_FORMAT" "header_opcode h = Some op"
proof -
  have p: "extension div 64 < 2" and b: "unat (word_of_nat (extension mod 64) :: u8) = extension mod 64"
    using opcode_index_less [of op] by (auto simp: extension_def unat_of_nat)
  have b': "unat (word_of_nat (extension mod 64) :: u8) < 64" by (simp add: b)
  note f = escape_header_fields [OF p, folded h_def]
  show format: "(ucast h :: u8) AND FORMAT_MASK = ESCAPE_FORMAT"
    unfolding h_def f by (rule raw_formats [OF b'])
  have "unat (drop_bit 8 h) * 64 + unat ((ucast h :: u8) AND OPCODE_MASK) = extension"
    unfolding h_def f raw_formats(6) [OF b'] b using p by (simp add: unat_of_nat)
  then show "header_opcode h = Some op"
    using format assms(1) by (simp add: header_opcode_def BASE_OPCODE_COUNT_def from_extended_eq_Some extension_def)
qed

lemma decode_encode_extended:
  assumes op: "64 \<le> opcode_index op" and len: "length operands = operand_count op" and pre: "length pre < 2 ^ 32"
  shows "decode_instruction (pre @ encode_extended op operands @ suf) (word_of_nat (length pre))
    = Ok (decoded op Wide (pad_operands operands) (1 + length operands))"
proof -
  define h :: u32 where "h = hd (encode_extended op operands)"
  have enc: "encode_extended op operands = h # operands"
    by (simp add: h_def encode_extended_def Let_def)
  have "(ucast h :: u8) AND FORMAT_MASK = ESCAPE_FORMAT" "header_opcode h = Some op"
    using header_opcode_escape [OF op] by (simp_all add: h_def encode_extended_def Let_def BASE_OPCODE_COUNT_def)
  then have "decode_instruction (pre @ (h # operands) @ suf) (word_of_nat (length pre))
      = decode_escape (pre @ (h # operands) @ suf) (word_of_nat (length pre)) op"
    using pre by (simp add: decode_instruction_def get_def u32_simps)
  then show ?thesis
    unfolding enc by (simp only: decode_full_width(2) [OF len pre])
qed

lemma decode_encode_wide:
  assumes op: "opcode_index op < 64" and len: "length operands = operand_count op" and pre: "length pre < 2 ^ 32"
  shows "decode_instruction (pre @ (ucast (opcode_u8 op OR WIDE_FORMAT) # operands) @ suf) (word_of_nat (length pre))
    = Ok (decoded op Wide (pad_operands operands) (1 + length operands))"
  using pre
  by (subst decode_instruction_base(2) [OF op])
    (auto simp: get_def u32_simps nth_append decode_full_width(1) [OF len pre] simp del: append.simps)

lemma decode_encode_base:
  assumes op: "opcode_index op < 64" and len: "length operands = operand_count op" and pre: "length pre < 2 ^ 32"
  shows "decode_instruction (pre @ encode_base op operands @ suf) (word_of_nat (length pre))
    = Ok (decoded op (encode_width operands) (pad_operands operands) (length (encode_base op operands)))"
proof (cases "encode_width operands")
  case Compact
  then show ?thesis
    using decode_encode_compact [OF op len Compact pre] by (simp add: encode_base_def)
next
  case Normal
  then have "\<forall>x \<in> set operands. x \<le> 0xffff" by (auto simp: encode_width_def split: if_splits)
  from decode_encode_normal [OF op len this pre] Normal show ?thesis
    by (simp add: encode_base_def)
next
  case Wide
  then show ?thesis
    using decode_encode_wide [OF op len pre] by (simp add: encode_base_def)
qed

lemma decode_encode_aux:
  assumes "encode_instruction op operands = Ok ws" "length pre < 2 ^ 32"
  shows "\<exists>width. decode_instruction (pre @ ws @ suf) (word_of_nat (length pre))
    = Ok (decoded op width (pad_operands operands) (length ws))"
proof (cases "opcode_index op < 64")
  case True
  with assms decode_encode_base [OF True] show ?thesis
    by (auto simp: encode_instruction_def BASE_OPCODE_COUNT_def split: if_splits)
next
  case False
  with assms decode_encode_extended [of op operands] show ?thesis
    by (auto simp: encode_instruction_def BASE_OPCODE_COUNT_def encode_extended_def Let_def split: if_splits)
qed


section \<open>Inversion of a successful decode\<close>

lemma fill_operands_facts:
  "length (fill_operands n f) = 3"
  "i < n \<Longrightarrow> n \<le> 3 \<Longrightarrow> fill_operands n f ! i = f i"
  "n \<le> i \<Longrightarrow> i < 3 \<Longrightarrow> fill_operands n f ! i = 0"
proof -
  show "i < n \<Longrightarrow> n \<le> 3 \<Longrightarrow> fill_operands n f ! i = f i"
    by (subgoal_tac "i = 0 \<or> i = 1 \<or> i = 2", auto simp: fill_operands_def)
  show "n \<le> i \<Longrightarrow> i < 3 \<Longrightarrow> fill_operands n f ! i = 0"
    by (subgoal_tac "i = 0 \<or> i = 1 \<or> i = 2", auto simp: fill_operands_def)
qed (simp add: fill_operands_def)

lemma decoded_simps [simp]:
  "instr_opcode (decoded op w os l) = op" "instr_width (decoded op w os l) = w"
  "instr_operands (decoded op w os l) = os" "instr_word_len (decoded op w os l) = l"
  "instr_operand_count (decoded op w os l) = operand_count op"
  by (simp_all add: decoded_def)

lemma decode_instruction_elim:
  assumes "decode_instruction words offset = Ok d"
  obtains (compact) header op where "get words (unat offset) = Some header" "header_opcode header = Some op"
      "(ucast header :: u8) AND FORMAT_MASK = 0"
      "d = decoded op Compact (fill_operands (operand_count op) (\<lambda>i. drop_bit (8 * (i + 1)) header AND 0xff)) 1"
    | (normal) header op where "get words (unat offset) = Some header" "header_opcode header = Some op"
      "(ucast header :: u8) AND FORMAT_MASK = NORMAL_FORMAT"
      "unat offset + 1 + div_ceil (operand_count op) 2 \<le> length words"
      "d = decoded op Normal (fill_operands (operand_count op) (\<lambda>i.
         drop_bit (16 * (i mod 2)) (words ! (unat offset + 1 + i div 2)) AND 0xffff)) (1 + div_ceil (operand_count op) 2)"
    | (wide) header op where "get words (unat offset) = Some header" "header_opcode header = Some op"
      "(ucast header :: u8) AND FORMAT_MASK \<in> {WIDE_FORMAT, ESCAPE_FORMAT}"
      "unat offset + 1 + operand_count op \<le> length words"
      "d = decoded op Wide (fill_operands (operand_count op) (\<lambda>i. words ! (unat offset + 1 + i))) (1 + operand_count op)"
proof -
  from assms obtain header op where h: "get words (unat offset) = Some header" "header_opcode header = Some op"
    by (auto simp: decode_instruction_def Let_def split: option.splits)
  then have lt: "unat offset < length words" by (simp add: get_eq_Some)
  consider "(ucast header :: u8) AND FORMAT_MASK = 0" | "(ucast header :: u8) AND FORMAT_MASK = NORMAL_FORMAT"
    | "(ucast header :: u8) AND FORMAT_MASK = WIDE_FORMAT" | "(ucast header :: u8) AND FORMAT_MASK = ESCAPE_FORMAT"
    using format_cases [of "ucast header"] by blast
  then show thesis
  proof cases
    case 1
    with h assms show ?thesis
      by (intro compact [of header op]) (auto simp: decode_instruction_def format_distinct)
  next
    case 2
    with h assms have "decode_normal words offset op = Ok d"
      by (auto simp: decode_instruction_def format_distinct split: if_splits)
    with 2 h lt show ?thesis
      by (intro normal [of header op]) (auto simp: decode_normal_def Let_def split: if_splits)
  next
    case 3
    with h assms have "decode_wide words offset op = Ok d"
      by (auto simp: decode_instruction_def format_distinct split: if_splits)
    with 3 h lt show ?thesis
      by (intro wide [of header op]) (auto simp: decode_wide_def Let_def split: if_splits)
  next
    case 4
    with h assms have "decode_escape words offset op = Ok d"
      by (auto simp: decode_instruction_def format_distinct split: if_splits)
    with 4 h lt show ?thesis
      by (intro wide [of header op]) (auto simp: decode_escape_def Let_def split: if_splits)
  qed
qed

lemma decode_instruction_bounds:
  assumes "decode_instruction words offset = Ok d"
  shows "1 \<le> instr_word_len d" "instr_word_len d \<le> MAX_ENCODED_INSTRUCTION_WORDS"
    "unat offset + instr_word_len d \<le> length words"
    "length (instr_operands d) = 3" "instr_operand_count d = operand_count (instr_opcode d)"
    "\<And>i. operand_count (instr_opcode d) \<le> i \<Longrightarrow> i < 3 \<Longrightarrow> instr_operands d ! i = 0"
proof -
  have "1 \<le> instr_word_len d \<and> instr_word_len d \<le> MAX_ENCODED_INSTRUCTION_WORDS
      \<and> unat offset + instr_word_len d \<le> length words \<and> length (instr_operands d) = 3
      \<and> instr_operand_count d = operand_count (instr_opcode d)
      \<and> (\<forall>i. operand_count (instr_opcode d) \<le> i \<longrightarrow> i < 3 \<longrightarrow> instr_operands d ! i = 0)"
    using assms operand_count_le_3 [of "instr_opcode d"] div_ceil_2_le [of "operand_count (instr_opcode d)"]
    by (cases rule: decode_instruction_elim)
      (auto simp: fill_operands_facts MAX_ENCODED_INSTRUCTION_WORDS_def get_eq_Some)
  then show "1 \<le> instr_word_len d" "instr_word_len d \<le> MAX_ENCODED_INSTRUCTION_WORDS"
    "unat offset + instr_word_len d \<le> length words"
    "length (instr_operands d) = 3" "instr_operand_count d = operand_count (instr_opcode d)"
    "\<And>i. operand_count (instr_opcode d) \<le> i \<Longrightarrow> i < 3 \<Longrightarrow> instr_operands d ! i = 0"
    by blast+
qed

lemma decode_instruction_not_Panic: "decode_instruction words offset \<noteq> Panic"
  by (auto simp: decode_instruction_def decode_escape_def decode_normal_def decode_wide_def Let_def
      split: option.splits)

section \<open>The encoder is minimal\<close>

lemma header_opcode_base_iff:
  assumes "header_opcode header = Some op"
  shows "(ucast header :: u8) AND FORMAT_MASK = ESCAPE_FORMAT \<longleftrightarrow> 64 \<le> opcode_index op"
  using assms by (auto simp: header_opcode_def from_base_eq_Some from_extended_eq_Some Let_def split: if_splits)

lemma take_fill_operands:
  "n \<le> 3 \<Longrightarrow> x \<in> set (take n (fill_operands n f)) \<Longrightarrow> \<exists>i<n. x = f i"
  by (auto simp: in_set_conv_nth fill_operands_facts)

lemma take_bit_le_0xff: "take_bit 8 (x :: u32) \<le> 0xff"
  using take_bit_nat_less_exp [of 8 "unat x"] by (simp add: word_le_nat_alt unsigned_take_bit_eq)

lemma take_bit_le_0xffff: "take_bit 16 (x :: u32) \<le> 0xffff"
  using take_bit_nat_less_exp [of 16 "unat x"] by (simp add: word_le_nat_alt unsigned_take_bit_eq)

lemma length_encode_base:
  "length (encode_base op operands) =
     (case encode_width operands of Compact \<Rightarrow> 1 | Normal \<Rightarrow> 1 + div_ceil (length operands) 2 | Wide \<Rightarrow> 1 + length operands)"
  by (simp add: encode_base_def length_normal_words split: operand_width.split)

lemma encode_is_minimal_aux:
  assumes "decode_instruction words offset = Ok d"
  defines "operands \<equiv> take (operand_count (instr_opcode d)) (instr_operands d)"
  shows "\<exists>ws. encode_instruction (instr_opcode d) operands = Ok ws \<and> length ws \<le> instr_word_len d"
proof -
  let ?n = "operand_count (instr_opcode d)"
  have len: "length operands = ?n"
    using decode_instruction_bounds(4) [OF assms(1)] operand_count_le_3 [of "instr_opcode d"] by (simp add: operands_def)
  have narrow: "1 + div_ceil ?n 2 \<le> 1 + ?n" "(1::nat) \<le> 1 + div_ceil ?n 2"
    using div_ceil_2_le by auto
  have enc: "length (encode_base (instr_opcode d) operands) \<le> instr_word_len d" if "opcode_index (instr_opcode d) < 64"
    using assms(1)
  proof (cases rule: decode_instruction_elim)
    case (compact header op)
    then have "\<forall>x \<in> set operands. x \<le> 0xff"
      using take_fill_operands [OF operand_count_le_3] take_bit_le_0xff
      by (fastforce simp: operands_def and_0xff)
    with compact show ?thesis by (simp add: length_encode_base encode_width_def)
  next
    case (normal header op)
    then have "\<forall>x \<in> set operands. x \<le> 0xffff"
      using take_fill_operands [OF operand_count_le_3] take_bit_le_0xffff
      by (fastforce simp: operands_def and_0xffff)
    then have "encode_width operands \<noteq> Wide" by (simp add: encode_width_def)
    with normal narrow len show ?thesis
      by (cases "encode_width operands") (auto simp: length_encode_base)
  next
    case (wide header op)
    with narrow len show ?thesis
      by (cases "encode_width operands") (auto simp: length_encode_base)
  qed
  have ext: "length (encode_extended (instr_opcode d) operands) \<le> instr_word_len d" if "64 \<le> opcode_index (instr_opcode d)"
    using assms(1)
  proof (cases rule: decode_instruction_elim)
    case (compact header op)
    with that header_opcode_base_iff [of header op] show ?thesis by (simp add: format_distinct)
  next
    case (normal header op)
    with that header_opcode_base_iff [of header op] show ?thesis by (simp add: format_distinct)
  next
    case (wide header op)
    with len show ?thesis by (simp add: encode_extended_def Let_def)
  qed
  show ?thesis
    using enc ext len by (auto simp: encode_instruction_def BASE_OPCODE_COUNT_def)
qed

section \<open>The unchecked decoder agrees with the checked one\<close>

lemma unat_take_bit_6: "unat (take_bit 6 (b :: u8)) < 64"
  using take_bit_nat_less_exp [of 6 "unat b"] by (simp add: unsigned_take_bit_eq)

lemma from_index_unchecked_opcode:
  assumes "header_opcode header = Some op"
  shows "from_index (unat (unchecked_opcode_u8 header)) = Some op"
proof -
  let ?raw = "ucast header :: u8"
  have low: "unat (?raw AND OPCODE_MASK) < 64"
    unfolding and_OPCODE_MASK by (rule unat_take_bit_6)
  have "unat (unchecked_opcode_u8 header) = opcode_index op"
  proof (cases "?raw AND FORMAT_MASK = ESCAPE_FORMAT")
    case True
    let ?page = "unat (drop_bit 8 header)"
    from assms True have ix: "opcode_index op = 64 + (?page * 64 + unat (?raw AND OPCODE_MASK))"
      by (simp add: header_opcode_def from_extended_eq_Some BASE_OPCODE_COUNT_def)
    with opcode_index_less [of op] have "?page < 2" by linarith
    then have page: "unat (ucast (drop_bit 8 header) :: u8) = ?page"
      by (simp add: unsigned_ucast_eq unsigned_take_bit_eq take_bit_nat_eq_self)
    show ?thesis
      using True ix low opcode_index_less [of op]
      by (simp add: unchecked_opcode_u8_def Let_def unat_word_ariths page)
  next
    case False
    with assms show ?thesis
      by (simp add: header_opcode_def from_base_eq_Some unchecked_opcode_u8_def Let_def)
  qed
  then show ?thesis by (simp add: from_index_opcode_index)
qed

lemma drop_bit_and_mask:
  "drop_bit 24 (x :: u32) AND 0xff = drop_bit 24 x" "drop_bit 16 (x :: u32) AND 0xffff = drop_bit 16 x"
  unfolding and_0xff and_0xffff by (rule bit_word_eqI; auto simp: bit_simps dest: bit_imp_le_length)+

lemma decode_unchecked_aux:
  assumes "decode_instruction words offset = Ok d"
  shows "decode_unchecked words offset = Ok d"
  using assms
proof (cases rule: decode_instruction_elim)
  case (compact header op)
  then show ?thesis
    by (simp add: decode_unchecked_def index_or_panic_def from_index_unchecked_opcode decode_compact_operands_def
        fill_operands_def drop_bit_and_mask)
next
  case (normal header op)
  then have "unchecked_normal_operands words (unat offset) (operand_count op) = Ok (instr_operands d)"
    using operand_count_le_3 [of op]
    by (auto simp: unchecked_normal_operands_def fill_operands_def index_or_panic_def get_def div_ceil_def
        drop_bit_and_mask numeral_3_eq_3 le_Suc_eq)
  with normal show ?thesis
    by (simp add: decode_unchecked_def index_or_panic_def from_index_unchecked_opcode format_distinct Let_def)
next
  case (wide header op)
  then have "unchecked_full_width_operands words (unat offset) (operand_count op) = Ok (instr_operands d)"
    using operand_count_le_3 [of op]
    by (auto simp: unchecked_full_width_operands_def fill_operands_def index_or_panic_def get_def
        numeral_3_eq_3 le_Suc_eq)
  with wide show ?thesis
    by (auto simp: decode_unchecked_def index_or_panic_def from_index_unchecked_opcode format_distinct Let_def)
qed

section \<open>Properties\<close>

text \<open>C18. Round trip: whatever instruction the encoder accepts, the decoder reads the same opcode and
  the same operands back from the encoded words, wherever they stand in a stream, and consumes exactly
  the words the encoder wrote.\<close>

theorem decode_encode_roundtrip:
  assumes "encode_instruction op operands = Ok ws" and "length pre < 2 ^ 32"
  shows "\<exists>width. decode_instruction (pre @ ws @ suf) (word_of_nat (length pre))
    = Ok (decoded op width (pad_operands operands) (length ws))"
  using assms by (rule decode_encode_aux)

theorem decode_encode_roundtrip_witness:
  "encode_instruction Op_Add [1, 2, 300] = Ok [68, 131073, 300] \<and>
   (\<exists>width. decode_instruction ([7] @ [68, 131073, 300] @ []) (word_of_nat (length [7 :: u32]))
     = Ok (decoded Op_Add width (pad_operands [1, 2, 300]) (length [68, 131073, 300 :: u32])))"
proof -
  have enc: "encode_instruction Op_Add [1, 2, 300] = Ok [68, 131073, 300]"
    by (simp add: encode_instruction_def BASE_OPCODE_COUNT_def encode_base_def encode_width_def opcode_u8_def
        NORMAL_FORMAT_def push_bit_eq_mult)
  have "length [7 :: u32] < 2 ^ 32" by simp
  from enc decode_encode_roundtrip [OF enc this, of "[]"] show ?thesis by blast
qed

text \<open>The encoder chooses the smallest form: no stream holds the same opcode with the same operands
  in fewer words than \<open>encode_instruction\<close> uses for them.\<close>

theorem encode_is_minimal:
  assumes "decode_instruction words offset = Ok d"
  shows "\<exists>ws. encode_instruction (instr_opcode d) (take (operand_count (instr_opcode d)) (instr_operands d)) = Ok ws
    \<and> length ws \<le> instr_word_len d"
  using assms by (rule encode_is_minimal_aux)

theorem encode_is_minimal_witness:
  "decode_instruction [132, 1, 2, 3] 0 = Ok (decoded Op_Add Wide [1, 2, 3] 4) \<and>
   (\<exists>ws. encode_instruction Op_Add (take (operand_count Op_Add) [1, 2, 3]) = Ok ws \<and> length ws \<le> 4)"
proof -
  have dec: "decode_instruction [132, 1, 2, 3] 0 = Ok (decoded Op_Add Wide [1, 2, 3] 4)"
    by (simp add: decode_instruction_def get_def header_opcode_def FORMAT_MASK_def OPCODE_MASK_def format_defs
        from_base_def decode_wide_def fill_operands_def BASE_OPCODE_COUNT_def)
  from dec encode_is_minimal [OF dec] show ?thesis by simp
qed

text \<open>A successful decode stays inside the stream: it consumes between one and four words, all of
  them present, returns three operand words and zeroes the ones its opcode does not have.\<close>

theorem decode_within_stream:
  assumes "decode_instruction words offset = Ok d"
  shows "1 \<le> instr_word_len d \<and> instr_word_len d \<le> MAX_ENCODED_INSTRUCTION_WORDS \<and>
    unat offset + instr_word_len d \<le> length words \<and> length (instr_operands d) = 3 \<and>
    (\<forall>i. operand_count (instr_opcode d) \<le> i \<and> i < 3 \<longrightarrow> instr_operands d ! i = 0)"
  using decode_instruction_bounds [OF assms] by blast

theorem decode_within_stream_witness:
  "decode_instruction [11] 0 = Ok (decoded Op_Return Compact [0, 0, 0] 1) \<and> (0::nat) + 1 \<le> length [11 :: u32]"
proof -
  have dec: "decode_instruction [11] 0 = Ok (decoded Op_Return Compact [0, 0, 0] 1)"
    by (simp add: decode_instruction_def get_def header_opcode_def FORMAT_MASK_def OPCODE_MASK_def format_defs
        from_base_def fill_operands_def drop_bit_eq_div)
  from dec decode_within_stream [OF dec] show ?thesis by simp
qed

text \<open>C20. The decoder that skips every check returns the same instruction as the checked one wherever the
  checked one succeeds: no read leaves the words, and the opcode number it transmutes is an opcode.\<close>

theorem decode_unchecked_agrees:
  assumes "decode_instruction words offset = Ok d"
  shows "decode_unchecked words offset = Ok d"
  using assms by (rule decode_unchecked_aux)

theorem decode_unchecked_agrees_witness:
  "decode_instruction [0x1c0, 5, 6, 7] 0 = Ok (decoded Op_CallSpread Wide [5, 6, 7] 4) \<and>
   decode_unchecked [0x1c0, 5, 6, 7] 0 = Ok (decoded Op_CallSpread Wide [5, 6, 7] 4)"
proof -
  have dec: "decode_instruction [0x1c0, 5, 6, 7] 0 = Ok (decoded Op_CallSpread Wide [5, 6, 7] 4)"
    by (simp add: decode_instruction_def get_def header_opcode_def FORMAT_MASK_def OPCODE_MASK_def format_defs
        from_extended_def decode_escape_def fill_operands_def BASE_OPCODE_COUNT_def drop_bit_eq_div)
  from dec decode_unchecked_agrees [OF dec] show ?thesis by simp
qed

end
