(* ===== verification/Bytecode_Metadata.thy ===== *)
theory Bytecode_Metadata
  imports Bytecode_Encoding
begin

text \<open>
  The immutable data of \<open>crates/tachyon-bytecode/src/lib.rs\<close> (and the source spans of
  \<open>builder.rs\<close>): constants, handler tables, function kinds and layouts, binding plans, suspend
  points, and the records a module is built from.

  Strings that the crate only compares (binding names) are \<open>string\<close>; the module source is its UTF-8
  bytes, because its character boundaries are tested; \<open>Arc\<close> sharing is immaterial to the values.
\<close>

section \<open>Constants, handlers and function kinds\<close>

datatype bytecode_constant =
    NumberBits u64
  | Const_String "u16 list"
  | Const_BigInt string
  | Const_RegExp "u16 list" u8
  | TemplateSite "u16 list option list" "u16 list list"

datatype handler_kind = HK_Catch | HK_Finally | HK_IteratorClose

definition is_finalizer :: "handler_kind \<Rightarrow> bool" where
  "is_finalizer kind \<longleftrightarrow> kind \<in> {HK_Finally, HK_IteratorClose}"

record handler_entry =
  protected_start :: word_offset
  protected_end :: word_offset
  handler_target :: word_offset
  handler_end :: word_offset
  handler_kind :: handler_kind
  handler_environment_depth :: u32

datatype function_kind =
    FK_Script | FK_Module | FK_Ordinary | FK_DerivedClassConstructor | FK_BaseClassConstructor
  | FK_Generator | FK_Async | FK_AsyncGenerator

datatype function_role = FR_Ordinary | FR_Method | FR_ClassFieldInitializer

definition has_home_object :: "function_role \<Rightarrow> bool" where
  "has_home_object role \<longleftrightarrow> role \<in> {FR_Method, FR_ClassFieldInitializer}"

fun is_valid_for :: "function_role \<Rightarrow> function_kind \<Rightarrow> bool" where
  "is_valid_for FR_Ordinary kind = True"
| "is_valid_for FR_Method kind = (kind \<in> {FK_Ordinary, FK_Generator, FK_Async, FK_AsyncGenerator})"
| "is_valid_for FR_ClassFieldInitializer kind = (kind = FK_Ordinary)"

datatype class_instance_element_kind = PublicField | PrivateField | PrivateMethod | PrivateAccessor

definition element_kind_from_operand :: "u32 \<Rightarrow> class_instance_element_kind option" where
  "element_kind_from_operand operand =
     map_of [(0, PublicField), (1, PrivateField), (2, PrivateMethod), (3, PrivateAccessor)] operand"

definition element_kind_is_private :: "class_instance_element_kind \<Rightarrow> bool" where
  "element_kind_is_private k \<longleftrightarrow> k \<in> {PrivateField, PrivateMethod, PrivateAccessor}"

datatype environment_record_kind = ER_Declarative | ER_Function | ER_Global | ER_Module

fun for_function_kind :: "function_kind \<Rightarrow> environment_record_kind" where
  "for_function_kind FK_Script = ER_Global"
| "for_function_kind FK_Module = ER_Module"
| "for_function_kind FK_Ordinary = ER_Function"
| "for_function_kind FK_DerivedClassConstructor = ER_Function"
| "for_function_kind FK_BaseClassConstructor = ER_Function"
| "for_function_kind FK_Generator = ER_Function"
| "for_function_kind FK_Async = ER_Function"
| "for_function_kind FK_AsyncGenerator = ER_Function"

datatype function_strictness = Sloppy | Strict

section \<open>Side tables\<close>

type_synonym suspend_point_id = u32

record suspend_point =
  sp_id :: suspend_point_id
  sp_instruction :: word_offset
  sp_resume_offset :: word_offset
  sp_destination :: register_id
  sp_completion_depth :: u32

record feedback_site =
  fs_offset :: word_offset
  fs_slot :: feedback_slot

datatype binding_location =
    BL_FrameRegister register_id
  | BL_Environment u32 u32
  | BL_ClassEnvironment u32 u32
  | BL_LexicalEnvironment u32 u32
  | BL_ModuleCell u32
  | BL_ModuleFunction u32 function_id
  | BL_GlobalLexical
  | BL_GlobalProperty
  | BL_Dynamic

record binding_plan_entry =
  bp_name :: string
  bp_location :: binding_location
  bp_mutable :: bool

record environment_slot_metadata =
  es_name :: string
  es_mutable :: bool
  es_initialized :: bool
  es_parameter :: bool

record source_span =
  span_start :: u32
  span_end :: u32

record source_map_entry =
  sm_offset :: word_offset
  sm_span :: source_span

section \<open>Functions and modules\<close>

record function_layout =
  register_count :: u32
  argument_count :: u32
  function_length :: u32
  name_scope :: "u32 option"
  temporary_register_count :: u32
  feedback_slot_count :: u32
  environment_slot_count :: u32
  self_binding_slot :: "u32 option"
  max_handler_depth :: u32
  max_completion_depth :: u32
  needs_argument_source :: bool
  has_rest_parameter :: bool
  simple_parameter_list :: bool

record function_metadata =
  fm_kind :: function_kind
  fm_role :: function_role
  fm_strictness :: function_strictness
  fm_layout :: function_layout
  fm_source_map :: "source_map_entry list"
  fm_handlers :: "handler_entry list"
  fm_suspend_points :: "suspend_point list"
  fm_feedback_sites :: "feedback_site list"
  fm_binding_plan :: "binding_plan_entry list"
  fm_environment_record_kind :: environment_record_kind
  fm_environment_slots :: "environment_slot_metadata list"

definition function_metadata_new :: "function_kind \<Rightarrow> function_layout \<Rightarrow> function_metadata" where
  "function_metadata_new kind layout =
     \<lparr>fm_kind = kind, fm_role = FR_Ordinary,
      fm_strictness = (if kind \<in> {FK_Module, FK_DerivedClassConstructor, FK_BaseClassConstructor}
                       then Strict else Sloppy),
      fm_layout = layout, fm_source_map = [], fm_handlers = [], fm_suspend_points = [],
      fm_feedback_sites = [], fm_binding_plan = [],
      fm_environment_record_kind = for_function_kind kind, fm_environment_slots = []\<rparr>"

record function_source_range =
  range_start :: u32
  range_end :: u32

definition UNAVAILABLE :: function_source_range where
  "UNAVAILABLE = \<lparr>range_start = - 1, range_end = 0\<rparr>"

definition source_range_new :: "source_span \<Rightarrow> function_source_range" where
  "source_range_new span = \<lparr>range_start = span_start span, range_end = span_end span\<rparr>"

definition source_range_span :: "function_source_range \<Rightarrow> source_span option" where
  "source_range_span r =
     (if range_start r = range_start UNAVAILABLE \<and> range_end r = range_end UNAVAILABLE then None
      else Some \<lparr>span_start = range_start r, span_end = range_end r\<rparr>)"

record compiled_function_template =
  ct_id :: function_id
  ct_words :: "u32 list"
  ct_metadata :: function_metadata
  ct_source_range :: function_source_range

definition template_new :: "function_id \<Rightarrow> u32 list \<Rightarrow> function_metadata \<Rightarrow> compiled_function_template" where
  "template_new i ws metadata =
     \<lparr>ct_id = i, ct_words = ws, ct_metadata = metadata, ct_source_range = UNAVAILABLE\<rparr>"

definition with_source_span :: "compiled_function_template \<Rightarrow> source_span \<Rightarrow> compiled_function_template" where
  "with_source_span template span = template\<lparr>ct_source_range := source_range_new span\<rparr>"

record verified_bytecode =
  vb_words :: "u32 list"
  vb_starts :: "bool list"

definition is_instruction_start :: "verified_bytecode \<Rightarrow> word_offset \<Rightarrow> bool" where
  "is_instruction_start vb offset = (case get (vb_starts vb) (unat offset) of Some b \<Rightarrow> b | None \<Rightarrow> False)"

record compiled_function =
  cf_id :: function_id
  cf_bytecode :: verified_bytecode
  cf_metadata :: function_metadata
  cf_source_range :: function_source_range

section \<open>Why a module is rejected\<close>

datatype verify_error =
    VE_Decode decode_error
  | CodeTooLarge nat
  | RegisterOutOfRange word_offset u32 u32
  | ConstantOutOfRange word_offset u32 u32
  | TemplateSiteConstantRequired word_offset u32
  | ScopeNameOutOfRange word_offset u32 u32
  | FunctionOutOfRange word_offset u32 u32
  | EnvironmentSlotOutOfRange word_offset u32 u32
  | InvalidBooleanOperand word_offset u32
  | InvalidCallArgumentWindow word_offset u32 u32 u32
  | InvalidJumpTarget word_offset u32
  | MissingTerminalInstruction

datatype (plugins only: code size) module_build_error =
    SourceTooLarge nat
  | TooManyConstants nat
  | TooManyScopeNames nat
  | TooManyFunctions nat
  | FunctionIdMismatch function_id function_id
  | InvalidEntryFunction function_id u32
  | InvalidFunctionLayout function_id function_layout
  | InvalidFunctionStrictness function_id function_kind function_strictness
  | InvalidFunctionRole function_id function_kind function_role
  | InvalidClassInstruction function_id function_kind word_offset opcode
  | InvalidClassConstructorTarget function_id word_offset function_id function_kind
  | InvalidClassEnvironmentDepth function_id word_offset u32 u32
  | ClassEnvironmentSlotOutOfRange function_id word_offset u32 u32
  | VerifyFunction function_id verify_error
  | SourceMapOffsetNotInstructionStart function_id word_offset
  | SourceMapOutOfBounds function_id source_span u32
  | InvalidFunctionSourceRange function_id source_span u32
  | SourceMapNotMonotonic function_id word_offset word_offset
  | InvalidHandlerRange function_id handler_entry
  | HandlerTargetInsideProtectedRange function_id handler_entry
  | HandlerTableNotProperlyNested function_id handler_entry handler_entry
  | InvalidFinallyInstruction function_id word_offset opcode
  | FeedbackSiteOffsetNotInstructionStart function_id word_offset
  | FeedbackSlotOutOfRange function_id feedback_slot u32
  | FeedbackSitesNotMonotonic function_id word_offset word_offset
  | BindingRegisterOutOfRange function_id binding_plan_entry u32
  | BindingEnvironmentSlotOutOfRange function_id binding_plan_entry u32
  | BindingFunctionOutOfRange function_id binding_plan_entry u32
  | EnvironmentSlotMetadataCountMismatch function_id u32 u32
  | EnvironmentSlotBindingMismatch function_id binding_plan_entry
  | EmptyEnvironmentSlotName function_id u32
  | InvalidSelfBindingSlot function_id u32
  | EmptyBindingName function_id binding_plan_entry
  | SuspendPointIdMismatch function_id suspend_point_id suspend_point_id
  | InvalidSuspendPoint function_id suspend_point
  | SuspendPointMissing function_id word_offset suspend_point_id
  | SuspendInIncompatibleFunction function_id function_kind word_offset opcode
  | InitialYieldInIncompatibleFunction function_id function_kind word_offset
  | InvalidInitialYieldCount function_id function_kind u32
  | VerifiedBytecodeDecodeInvariant function_id word_offset
  | ModuleStencilOnNonModuleEntry function_kind

section \<open>Lemmas\<close>

lemma is_finalizer_simps [simp]:
  "\<not> is_finalizer HK_Catch" "is_finalizer HK_Finally" "is_finalizer HK_IteratorClose"
  by (simp_all add: is_finalizer_def)

lemma is_instruction_start_iff:
  "is_instruction_start vb offset \<longleftrightarrow> unat offset < length (vb_starts vb) \<and> vb_starts vb ! unat offset"
  by (simp add: is_instruction_start_def get_def)

text \<open>A span attached to a template is read back, unless it is the reserved pair that marks a missing span.\<close>

lemma source_range_span_new:
  "source_range_span (source_range_new span) =
     (if span_start span = - 1 \<and> span_end span = 0 then None else Some span)"
  by (cases span) (auto simp: source_range_span_def source_range_new_def UNAVAILABLE_def)

end
