(* ===== verification/Bytecode_Verify.thy ===== *)
theory Bytecode_Verify
  imports Bytecode_Metadata
begin

text \<open>
  Stream verification, the part of \<open>crates/tachyon-bytecode/src/verify.rs\<close> that turns raw words into
  \<open>VerifiedBytecode\<close>: one pass that decodes every instruction and records the boundaries, then a check
  of the operand domains of every instruction.

  The loops of the crate keep their position as a \<open>u32\<close> or \<open>usize\<close> offset and advance it by the length
  of the decoded instruction. The model keeps the position as a natural; \<open>verify\<close> rejects a stream of
  more than \<open>u32::MAX\<close> words, and \<open>stream_offsets_fit\<close> shows that in what remains no offset reaches
  \<open>2 ^ 32\<close>, so that the \<open>u32\<close> arithmetic of the source never wraps.

  The specification of a stream is \<open>stream\<close>, the list of its instructions with their offsets. The
  locale \<open>stream_walk\<close> states the shape that every decoding loop of the crate has and proves once that
  such a loop is a fold over \<open>stream\<close>; each loop interprets it.
\<close>

section \<open>Operand domains\<close>

record verify_context =
  ctx_register_count :: u32
  ctx_constants :: "bytecode_constant list"
  ctx_function_count :: u32
  ctx_scope_name_count :: u32
  ctx_max_environment_slot_count :: u32

definition check_register :: "verify_context \<Rightarrow> word_offset \<Rightarrow> u32 \<Rightarrow> (verify_error, unit) outcome" where
  "check_register ctx offset register =
     (if register < ctx_register_count ctx then Ok ()
      else Err (RegisterOutOfRange offset register (ctx_register_count ctx)))"

definition check_registers :: "verify_context \<Rightarrow> word_offset \<Rightarrow> u32 list \<Rightarrow> (verify_error, unit) outcome" where
  "check_registers ctx offset registers = for_each (check_register ctx offset) registers"

text \<open>
  The \<open>match\<close> of \<open>verify_instruction\<close>, in the order of its arms. The first definition holds the arms up
  to the environment accesses; its last branch hands over to the arms for calls, suspension, control
  transfer and classes. The source's match is exhaustive, so the final \<open>Panic\<close> has no counterpart
  there; \<open>verify_operands_exhaustive\<close> shows that it is never reached.
\<close>

definition verify_call_operands ::
  "opcode \<Rightarrow> u32 list \<Rightarrow> word_offset \<Rightarrow> verify_context \<Rightarrow> (verify_error, unit) outcome" where
  "verify_call_operands op operands offset ctx =
     (let a = operands ! 0; b = operands ! 1; c = operands ! 2; count = ctx_register_count ctx
      in if op \<in> {Op_Call, Op_TailCall, Op_DirectEval, Op_Construct, Op_SuperConstruct}
         then and_then (check_registers ctx offset [a, b]) (\<lambda>_.
           reject_if ((case checked_add b c of None \<Rightarrow> True | Some last_argument \<Rightarrow> last_argument \<ge> count) \<and> c \<noteq> 0)
             (InvalidCallArgumentWindow offset b c count))
         else if op \<in> {Op_CallWithReceiver, Op_TailCallWithReceiver}
         then and_then (check_registers ctx offset [a, b]) (\<lambda>_.
           reject_if (case Option.bind (checked_add b 1) (\<lambda>callee. checked_add callee c) of
                        None \<Rightarrow> True | Some last_argument \<Rightarrow> last_argument \<ge> count)
             (InvalidCallArgumentWindow offset (saturating_add b 1) c count))
         else if op \<in> {Op_CallSpread, Op_TailCallSpread, Op_CallSpreadWithReceiver, Op_TailCallSpreadWithReceiver,
       Op_DirectEvalSpread, Op_ConstructSpread}
         then and_then (check_registers ctx offset [a, b, c]) (\<lambda>_.
           reject_if (op \<in> {Op_CallSpreadWithReceiver, Op_TailCallSpreadWithReceiver} \<and>
                      (case checked_add b 1 of None \<Rightarrow> True | Some callee \<Rightarrow> callee \<ge> count))
             (InvalidCallArgumentWindow offset (saturating_add b 1) 0 count))
         else if op = Op_SuperConstructSpread then check_registers ctx offset [a, b]
         else if op = Op_InitialYield then Ok ()
         else if op \<in> {Op_Await, Op_Yield} then check_registers ctx offset [a, b]
         else if op = Op_YieldWithKind
         then and_then (check_registers ctx offset [a, b]) (\<lambda>_.
           and_then (ok_or (RegisterOutOfRange offset (- 1) count) (checked_add b 1)) (check_register ctx offset))
         else if op \<in> {Op_JumpIfFalse, Op_JumpIfTrue, Op_JumpIfNotNullish} then check_register ctx offset a
         else if op \<in> {Op_Return, Op_Throw} then check_register ctx offset a
         else if op \<in> {Op_CreateClosure, Op_CreateBaseClass} then check_register ctx offset a
         else if op = Op_CreateClass
         then and_then (check_registers ctx offset [a, c]) (\<lambda>_.
           and_then (ok_or (RegisterOutOfRange offset (- 1) count) (checked_add c 1)) (check_register ctx offset))
         else if op = Op_AttachInstanceFields
         then and_then (check_register ctx offset a) (\<lambda>_.
           if c \<noteq> 0
           then and_then (ok_or (RegisterOutOfRange offset (- 1) count) (checked_mul c 4)) (\<lambda>size.
                and_then (ok_or (RegisterOutOfRange offset (- 1) count)
                            (Option.bind (checked_add b size) (\<lambda>end. checked_sub end 1)))
                  (check_register ctx offset))
           else Ok ())
         else if op \<in> {Op_StoreScope, Op_StoreResolvedScope, Op_InitializeGlobalLexical} then check_register ctx offset a
         else Panic)"

definition verify_operands ::
  "opcode \<Rightarrow> u32 list \<Rightarrow> word_offset \<Rightarrow> verify_context \<Rightarrow> (verify_error, unit) outcome" where
  "verify_operands op operands offset ctx =
     (let a = operands ! 0; b = operands ! 1; c = operands ! 2; slots = ctx_max_environment_slot_count ctx
      in if op \<in> {Op_Nop, Op_Jump, Op_EnterFinally, Op_ResumeCompletion, Op_BreakThroughFinally,
       Op_ContinueThroughFinally, Op_ReturnUndefined, Op_DeclareScope, Op_DeclareGlobalLexical,
       Op_LeaveClassEnvironment, Op_LeaveLexicalEnvironment}
         then Ok ()
         else if op \<in> {Op_EnterClassEnvironment, Op_EnterLexicalEnvironment}
         then and_then (reject_if (a = 0 \<or> a > slots) (EnvironmentSlotOutOfRange offset (saturating_sub a 1) slots)) (\<lambda>_.
           reject_if (op = Op_EnterLexicalEnvironment \<and> b > 1) (InvalidBooleanOperand offset b))
         else if op \<in> {Op_LoadUndefined, Op_LoadNull, Op_LoadFalse, Op_LoadTrue, Op_LoadImmediate,
       Op_LoadConstant, Op_LoadTemplateObject, Op_LoadScope}
         then check_register ctx offset a
         else if op = Op_CreatePrivateName
         then and_then (check_register ctx offset a) (\<lambda>_.
           reject_if (b \<ge> ctx_scope_name_count ctx) (ScopeNameOutOfRange offset b (ctx_scope_name_count ctx)))
         else if op \<in> {Op_CreateObject, Op_CreateArray, Op_LoadException, Op_LoadThis, Op_LoadNewTarget,
       Op_LoadArgumentsLength, Op_LoadArgumentsObject, Op_InitializeThis,
       Op_SuperConstructForwardAll, Op_CheckConstructor, Op_LoadIteratorSymbol,
       Op_LoadAsyncIteratorSymbol, Op_CheckObject, Op_LoadSuperBase}
         then check_register ctx offset a
         else if op = Op_CreateAsyncFromSyncIterator then check_registers ctx offset [a, b, c]
         else if op \<in> {Op_InitializeClassEnvironment, Op_InitializeLexicalEnvironment}
         then and_then (check_register ctx offset a) (\<lambda>_.
           reject_if (b \<ge> slots) (EnvironmentSlotOutOfRange offset b slots))
         else if op = Op_Move then check_registers ctx offset [a, b]
         else if op \<in> {Op_Not, Op_Negate, Op_Typeof, Op_ToNumber, Op_ToString, Op_BitwiseNot, Op_TypeofScope,
       Op_CreateForInIterator, Op_ForInNext, Op_ExcludePropertyKey, Op_CollectRestArguments}
         then check_registers ctx offset [a, b]
         else if op = Op_Update
         then and_then (check_registers ctx offset [a, b]) (\<lambda>_. reject_if (c > 1) (InvalidBooleanOperand offset c))
         else if op = Op_CreateExclusionList then check_register ctx offset a
         else if op = Op_SetFunctionName then check_register ctx offset a
         else if op \<in> {Op_Add, Op_Sub, Op_Mul, Op_Div, Op_StrictEqual, Op_LessThan, Op_BitwiseAnd, Op_BitwiseOr,
       Op_BitwiseXor, Op_ShiftLeft, Op_ShiftRight, Op_ShiftRightUnsigned, Op_Remainder,
       Op_Exponentiate, Op_GreaterThan, Op_LessEqual, Op_GreaterEqual, Op_LooseEqual,
       Op_LooseNotEqual, Op_HasProperty, Op_DeleteById, Op_DeleteByValue, Op_InstanceOf,
       Op_GetByValue, Op_SetByValue, Op_ToPropertyKey, Op_ToPropertyKeyForIn, Op_DefineGetterById,
       Op_DefineSetterById, Op_DefineGetterByValue, Op_DefineSetterByValue,
       Op_DefineClassGetterById, Op_DefineClassSetterById, Op_DefineClassMethodByValue,
       Op_DefineClassGetterByValue, Op_DefineClassSetterByValue, Op_DefineFieldByValue,
       Op_CreateDataPropertyByValue, Op_GetPrivate, Op_SetPrivate, Op_CreateAccessorPair,
       Op_DefinePrivateField, Op_DefinePrivateMethod, Op_DefinePrivateAccessor, Op_HasPrivate,
       Op_CopyDataProperties}
         then check_registers ctx offset [a, b, c]
         else if op = Op_DynamicImport then check_registers ctx offset [a, b, c]
         else if op = Op_SetAccessorFunctionName
         then and_then (check_registers ctx offset [a, b]) (\<lambda>_. reject_if (c > 1) (InvalidBooleanOperand offset c))
         else if op = Op_SetFunctionNameByValue then check_registers ctx offset [a, b]
         else if op = Op_GetSuperById then check_register ctx offset a
         else if op = Op_GetSuperByValue then check_registers ctx offset [a, b, c]
         else if op \<in> {Op_LoadEnvironment, Op_StoreEnvironment, Op_InitializeEnvironment} then check_register ctx offset a
         else if op = Op_InitializeInstanceElements then check_register ctx offset a
         else if op \<in> {Op_GetById, Op_SetById, Op_DefineClassMethodById, Op_DefineFieldById,
       Op_CreateDataPropertyById, Op_SetFunctionHomeObject, Op_SetObjectLiteralPrototype}
         then check_registers ctx offset [a, b]
         else verify_call_operands op operands offset ctx)"

fun is_template_site :: "bytecode_constant \<Rightarrow> bool" where
  "is_template_site (TemplateSite cooked raw) = True"
| "is_template_site _ = False"

definition verify_constant :: "opcode \<Rightarrow> u32 list \<Rightarrow> word_offset \<Rightarrow> verify_context \<Rightarrow> (verify_error, unit) outcome" where
  "verify_constant op operands offset ctx =
     (if op \<in> {Op_LoadConstant, Op_LoadTemplateObject}
      then (case get (ctx_constants ctx) (unat (operands ! 1)) of
              None \<Rightarrow> Err (ConstantOutOfRange offset (operands ! 1)
                        (case u32_try_from (length (ctx_constants ctx)) of Some n \<Rightarrow> n | None \<Rightarrow> - 1))
            | Some constant \<Rightarrow>
                reject_if (op = Op_LoadTemplateObject \<and> \<not> is_template_site constant)
                  (TemplateSiteConstantRequired offset (operands ! 1)))
      else Ok ())"

definition scope_name_operand :: "opcode \<Rightarrow> u32 list \<Rightarrow> u32 option" where
  "scope_name_operand op operands =
     (if op \<in> {Op_LoadScope, Op_StoreScope, Op_StoreResolvedScope} then Some (operands ! 1)
      else if op = Op_DeclareScope then Some (operands ! 0)
      else if op = Op_DeclareGlobalLexical then Some (operands ! 0)
      else if op = Op_InitializeGlobalLexical then Some (operands ! 1)
      else if op = Op_GetSuperById then Some (operands ! 1)
      else if op \<in> {Op_GetById, Op_SetById, Op_DefineGetterById, Op_DefineSetterById, Op_DefineClassMethodById,
       Op_DefineClassGetterById, Op_DefineClassSetterById, Op_DefineFieldById,
       Op_CreateDataPropertyById} then Some (operands ! 2)
      else None)"

definition jump_target :: "opcode \<Rightarrow> u32 list \<Rightarrow> u32 option" where
  "jump_target op operands =
     (if op \<in> {Op_Jump, Op_BreakThroughFinally, Op_ContinueThroughFinally} then Some (operands ! 0)
      else if op \<in> {Op_JumpIfFalse, Op_JumpIfTrue, Op_JumpIfNotNullish} then Some (operands ! 1)
      else None)"

definition starts_at :: "bool list \<Rightarrow> u32 \<Rightarrow> bool" where
  "starts_at starts target = (case get starts (unat target) of Some b \<Rightarrow> b | None \<Rightarrow> False)"

definition verify_indices ::
  "opcode \<Rightarrow> u32 list \<Rightarrow> word_offset \<Rightarrow> bool list \<Rightarrow> verify_context \<Rightarrow> (verify_error, unit) outcome" where
  "verify_indices op operands offset starts ctx =
     and_then (case scope_name_operand op operands of
         None \<Rightarrow> Ok ()
       | Some scope_name \<Rightarrow> reject_if (scope_name \<ge> ctx_scope_name_count ctx)
           (ScopeNameOutOfRange offset scope_name (ctx_scope_name_count ctx))) (\<lambda>_.
     and_then (reject_if (op \<in> {Op_CreateClosure, Op_CreateClass, Op_CreateBaseClass}
           \<and> operands ! 1 \<ge> ctx_function_count ctx)
         (FunctionOutOfRange offset (operands ! 1) (ctx_function_count ctx))) (\<lambda>_.
     and_then (reject_if (op \<in> {Op_LoadEnvironment, Op_StoreEnvironment}
           \<and> operands ! 2 \<ge> ctx_max_environment_slot_count ctx)
         (EnvironmentSlotOutOfRange offset (operands ! 2) (ctx_max_environment_slot_count ctx))) (\<lambda>_.
     and_then (reject_if (op = Op_DeclareGlobalLexical \<and> operands ! 1 > 1)
         (InvalidBooleanOperand offset (operands ! 1))) (\<lambda>_.
     (case jump_target op operands of
        None \<Rightarrow> Ok ()
      | Some target \<Rightarrow> reject_if (\<not> starts_at starts target) (InvalidJumpTarget offset target))))))"

definition verify_instruction ::
  "decoded_instruction \<Rightarrow> word_offset \<Rightarrow> bool list \<Rightarrow> verify_context \<Rightarrow> (verify_error, unit) outcome" where
  "verify_instruction instruction offset starts ctx =
     (let op = instr_opcode instruction; operands = instr_operands instruction
      in and_then (verify_operands op operands offset ctx) (\<lambda>_.
         and_then (verify_constant op operands offset ctx) (\<lambda>_.
         verify_indices op operands offset starts ctx)))"

section \<open>The stream\<close>

text \<open>The first pass. Its state is the boundary map, the decoded instructions and the last opcode.\<close>

type_synonym scan_state = "bool list \<times> (word_offset \<times> decoded_instruction) list \<times> opcode option"

function verify_scan :: "u32 list \<Rightarrow> nat \<Rightarrow> scan_state \<Rightarrow> (verify_error, scan_state) outcome" where
  "verify_scan words offset s =
     (if offset < length words
      then (case decode_instruction words (word_of_nat offset) of
              Ok instruction \<Rightarrow>
                (case s of (starts, offsets, last_opcode) \<Rightarrow>
                   verify_scan words (offset + instr_word_len instruction)
                     (starts[offset := True], offsets @ [(word_of_nat offset, instruction)],
                      Some (instr_opcode instruction)))
            | Err e \<Rightarrow> Err (VE_Decode e)
            | Panic \<Rightarrow> Panic)
      else Ok s)"
  by pat_completeness auto
termination
  by (relation "measure (\<lambda>(words, offset, s). length words - offset)")
    (auto dest: decode_instruction_bounds(1))

declare verify_scan.simps [simp del]

definition verify :: "u32 list \<Rightarrow> verify_context \<Rightarrow> (verify_error, verified_bytecode) outcome" where
  "verify words ctx =
     (if length words > 2 ^ 32 - 1 then Err (CodeTooLarge (length words))
      else and_then (verify_scan words 0 (replicate (length words) False, [], None)) (\<lambda>(starts, offsets, last_opcode).
        if \<not> (case last_opcode of Some op \<Rightarrow> is_terminal op | None \<Rightarrow> False)
        then Err MissingTerminalInstruction
        else and_then (for_each (\<lambda>(offset, instruction). verify_instruction instruction offset starts ctx) offsets) (\<lambda>_.
          Ok \<lparr>vb_words = words, vb_starts = starts\<rparr>)))"

text \<open>The specification of a stream: its instructions with their offsets, if all of it decodes.\<close>

function stream :: "u32 list \<Rightarrow> nat \<Rightarrow> (nat \<times> decoded_instruction) list option" where
  "stream words offset =
     (if offset < length words
      then (case decode_instruction words (word_of_nat offset) of
              Ok instruction \<Rightarrow>
                map_option ((#) (offset, instruction)) (stream words (offset + instr_word_len instruction))
            | _ \<Rightarrow> None)
      else Some [])"
  by pat_completeness auto
termination
  by (relation "measure (\<lambda>(words, offset). length words - offset)")
    (auto dest: decode_instruction_bounds(1))

declare stream.simps [simp del]

fun fold_outcome :: "('s \<Rightarrow> 'x \<Rightarrow> ('e, 's) outcome) \<Rightarrow> 'x list \<Rightarrow> 's \<Rightarrow> ('e, 's) outcome" where
  "fold_outcome f [] s = Ok s"
| "fold_outcome f (x # xs) s = and_then (f s x) (fold_outcome f xs)"

text \<open>
  One step of control inside a function body: to the next instruction unless the opcode is terminal,
  or to the jump target of a jump.
\<close>

inductive control_step :: "u32 list \<Rightarrow> nat \<Rightarrow> nat \<Rightarrow> bool" for words where
  fallthrough: "decode_instruction words (word_of_nat pc) = Ok d \<Longrightarrow> \<not> is_terminal (instr_opcode d) \<Longrightarrow>
     control_step words pc (pc + instr_word_len d)"
| jump: "decode_instruction words (word_of_nat pc) = Ok d \<Longrightarrow>
     jump_target (instr_opcode d) (instr_operands d) = Some target \<Longrightarrow> control_step words pc (unat target)"

section \<open>Decoding loops are folds over the stream\<close>

locale stream_walk =
  fixes walk :: "'p \<Rightarrow> u32 list \<Rightarrow> nat \<Rightarrow> 's \<Rightarrow> ('e, 's) outcome"
    and step :: "'p \<Rightarrow> 's \<Rightarrow> nat \<times> decoded_instruction \<Rightarrow> ('e, 's) outcome"
  assumes walk_end: "length words \<le> offset \<Longrightarrow> walk p words offset s = Ok s"
    and walk_step: "offset < length words \<Longrightarrow> decode_instruction words (word_of_nat offset) = Ok d \<Longrightarrow>
      walk p words offset s = and_then (step p s (offset, d)) (walk p words (offset + instr_word_len d))"
begin

lemma walk_fold:
  "stream words offset = Some is \<Longrightarrow> walk p words offset s = fold_outcome (step p) is s"
proof (induction words offset arbitrary: "is" s rule: stream.induct)
  case (1 words offset)
  show ?case
  proof (cases "offset < length words")
    case True
    with "1.prems" obtain d is' where d: "decode_instruction words (word_of_nat offset) = Ok d"
      and rest: "stream words (offset + instr_word_len d) = Some is'" and eq: "is = (offset, d) # is'"
      by (auto simp: stream.simps [of words offset] split: outcome.splits)
    have "walk p words (offset + instr_word_len d) = fold_outcome (step p) is'"
      using "1.IH" [OF True d rest] by (rule ext)
    then show ?thesis by (simp add: walk_step [OF True d] eq)
  next
    case False
    with "1.prems" show ?thesis by (simp add: stream.simps [of words offset] walk_end)
  qed
qed

end

definition scan_step :: "unit \<Rightarrow> scan_state \<Rightarrow> nat \<times> decoded_instruction \<Rightarrow> (verify_error, scan_state) outcome" where
  "scan_step p s x = (case s of (starts, offsets, last_opcode) \<Rightarrow>
     Ok (starts[fst x := True], offsets @ [(word_of_nat (fst x), snd x)], Some (instr_opcode (snd x))))"

interpretation scan: stream_walk "\<lambda>_. verify_scan" scan_step
  by unfold_locales (auto simp: verify_scan.simps scan_step_def split: prod.splits)

section \<open>Facts about streams\<close>

lemma stream_elems:
  "stream words offset = Some is \<Longrightarrow> (pc, d) \<in> set is \<Longrightarrow>
     offset \<le> pc \<and> pc < length words \<and> decode_instruction words (word_of_nat pc) = Ok d \<and>
     (pc + instr_word_len d \<ge> length words \<or> (\<exists>d'. (pc + instr_word_len d, d') \<in> set is))"
proof (induction words offset arbitrary: "is" rule: stream.induct)
  case (1 words offset)
  show ?case
  proof (cases "offset < length words")
    case True
    with "1.prems" obtain d0 is' where d0: "decode_instruction words (word_of_nat offset) = Ok d0"
      and rest: "stream words (offset + instr_word_len d0) = Some is'" and eq: "is = (offset, d0) # is'"
      by (auto simp: stream.simps [of words offset] split: outcome.splits)
    from rest have next_in: "offset + instr_word_len d0 < length words \<Longrightarrow>
        \<exists>d'. (offset + instr_word_len d0, d') \<in> set is'"
      by (auto simp: stream.simps [of words "offset + instr_word_len d0"] split: outcome.splits)
    from "1.prems"(2) eq consider "(pc, d) = (offset, d0)" | "(pc, d) \<in> set is'" by auto
    then show ?thesis
    proof cases
      case 1
      with d0 True eq next_in show ?thesis
        by (cases "offset + instr_word_len d0 < length words") auto
    next
      case 2
      from "1.IH" [OF True d0 rest 2] eq show ?thesis by auto
    qed
  next
    case False
    with "1.prems" show ?thesis by (simp add: stream.simps [of words offset])
  qed
qed

lemma stream_head: "stream words offset = Some is \<Longrightarrow> offset < length words \<Longrightarrow> \<exists>d. (offset, d) \<in> set is"
  by (auto simp: stream.simps [of words offset] split: outcome.splits)

lemma stream_sorted: "stream words offset = Some is \<Longrightarrow> sorted_wrt (<) (map fst is)"
proof (induction words offset arbitrary: "is" rule: stream.induct)
  case (1 words offset)
  show ?case
  proof (cases "offset < length words")
    case True
    with "1.prems" obtain d0 is' where d0: "decode_instruction words (word_of_nat offset) = Ok d0"
      and rest: "stream words (offset + instr_word_len d0) = Some is'" and eq: "is = (offset, d0) # is'"
      by (auto simp: stream.simps [of words offset] split: outcome.splits)
    have "offset < fst x" if "x \<in> set is'" for x
      using stream_elems [OF rest, of "fst x" "snd x"] that decode_instruction_bounds(1) [OF d0] by auto
    with "1.IH" [OF True d0 rest] show ?thesis by (simp add: eq)
  next
    case False
    with "1.prems" show ?thesis by (simp add: stream.simps [of words offset])
  qed
qed

lemma stream_functional:
  assumes "stream words offset = Some is" "(pc, d) \<in> set is" "(pc, d') \<in> set is"
  shows "d = d'"
  using stream_elems [OF assms(1,2)] stream_elems [OF assms(1,3)] by auto

lemma stream_offsets_fit:
  assumes "stream words 0 = Some is" "length words < 2 ^ 32" "(pc, d) \<in> set is"
  shows "pc + instr_word_len d \<le> length words" "pc + instr_word_len d < 2 ^ 32"
    "unat (word_of_nat pc :: u32) = pc"
proof -
  have pc: "pc < length words" "decode_instruction words (word_of_nat pc) = Ok d"
    using stream_elems [OF assms(1,3)] by auto
  then show fit: "unat (word_of_nat pc :: u32) = pc"
    using assms(2) by (intro unat_u32_of_nat) simp
  show "pc + instr_word_len d \<le> length words"
    using decode_instruction_bounds(3) [OF pc(2)] fit by simp
  with assms(2) show "pc + instr_word_len d < 2 ^ 32" by simp
qed

lemma stream_next:
  assumes "stream words 0 = Some is" "length words < 2 ^ 32" "(pc, d) \<in> set is"
  shows "pc + instr_word_len d = length words \<or> (\<exists>d'. (pc + instr_word_len d, d') \<in> set is)"
  using stream_elems [OF assms(1,3)] stream_offsets_fit(1) [OF assms] by auto

section \<open>The first pass computes the stream\<close>

lemma verify_scan_stream: "verify_scan words offset s = Ok t \<Longrightarrow> \<exists>is. stream words offset = Some is"
proof (induction words offset s rule: verify_scan.induct)
  case (1 words offset s)
  show ?case
  proof (cases "offset < length words")
    case True
    with "1.prems" obtain d where d: "decode_instruction words (word_of_nat offset) = Ok d"
      by (auto simp: verify_scan.simps [of words offset] split: outcome.splits)
    obtain starts offsets last_opcode where s: "s = (starts, offsets, last_opcode)" by (cases s)
    from "1.prems" "1.IH" [OF True d s [symmetric] refl] True d s show ?thesis
      by (auto simp: verify_scan.simps [of words offset] stream.simps [of words offset])
  qed (simp add: stream.simps)
qed

lemma fold_scan_step:
  "fold_outcome (scan_step p) is (starts, offsets, last_opcode) =
     Ok (foldl (\<lambda>ss x. ss[fst x := True]) starts is,
         offsets @ map (\<lambda>(pc, d). (word_of_nat pc, d)) is,
         (if is = [] then last_opcode else Some (instr_opcode (snd (last is)))))"
  by (induction "is" arbitrary: starts offsets last_opcode) (auto simp: scan_step_def)

lemma length_foldl_starts [simp]: "length (foldl (\<lambda>ss x. ss[fst x := True]) ss is) = length ss"
  by (induction "is" arbitrary: ss) auto

lemma nth_foldl_starts:
  "i < length ss \<Longrightarrow> foldl (\<lambda>ss x. ss[fst x := True]) ss is ! i \<longleftrightarrow> ss ! i \<or> i \<in> fst ` set is"
proof (induction "is" arbitrary: ss)
  case (Cons x "is")
  have "ss[fst x := True] ! i \<longleftrightarrow> i = fst x \<or> ss ! i"
    using Cons.prems by (cases "fst x = i") auto
  with Cons show ?case by auto
qed simp

lemma verify_stream:
  assumes "verify words ctx = Ok vb"
  obtains "is" where "stream words 0 = Some is" "length words < 2 ^ 32" "vb_words vb = words"
    "is \<noteq> []" "is_terminal (instr_opcode (snd (last is)))"
    "length (vb_starts vb) = length words"
    "\<And>i. i < length words \<Longrightarrow> vb_starts vb ! i \<longleftrightarrow> i \<in> fst ` set is"
    "\<And>pc d. (pc, d) \<in> set is \<Longrightarrow> verify_instruction d (word_of_nat pc) (vb_starts vb) ctx = Ok ()"
proof -
  from assms have small: "length words < 2 ^ 32" by (auto simp: verify_def split: if_splits)
  from assms obtain starts offsets last_opcode
    where scan: "verify_scan words 0 (replicate (length words) False, [], None) = Ok (starts, offsets, last_opcode)"
      and terminal: "case last_opcode of Some op \<Rightarrow> is_terminal op | None \<Rightarrow> False"
      and each: "\<forall>x \<in> set offsets. (case x of (offset, d) \<Rightarrow> verify_instruction d offset starts ctx) = Ok ()"
      and vb: "vb = \<lparr>vb_words = words, vb_starts = starts\<rparr>"
    by (auto simp: verify_def outcome_simps split: if_splits)
  from verify_scan_stream [OF scan] obtain "is" where st: "stream words 0 = Some is" by blast
  from scan.walk_fold [OF st, of "(replicate (length words) False, [], None)"] scan
  have starts: "starts = foldl (\<lambda>ss x. ss[fst x := True]) (replicate (length words) False) is"
    and offsets: "offsets = map (\<lambda>(pc, d). (word_of_nat pc, d)) is"
    and last: "last_opcode = (if is = [] then None else Some (instr_opcode (snd (last is))))"
    by (simp_all add: fold_scan_step)
  show thesis
    by (rule that [OF st small])
      (use vb starts offsets last terminal each in \<open>auto simp: nth_foldl_starts split: if_splits\<close>)
qed

lemma verify_starts:
  assumes "verify words ctx = Ok vb" "stream words 0 = Some is"
  shows "is_instruction_start vb offset \<longleftrightarrow> unat offset \<in> fst ` set is"
proof -
  from assms(1) obtain is' where st: "stream words 0 = Some is'" and len: "length (vb_starts vb) = length words"
    and starts: "\<And>i. i < length words \<Longrightarrow> vb_starts vb ! i \<longleftrightarrow> i \<in> fst ` set is'"
    by (rule verify_stream) auto
  have "unat offset < length words" if "unat offset \<in> fst ` set is"
    using that stream_elems [OF assms(2)] by auto
  with st starts len assms(2) show ?thesis by (auto simp: is_instruction_start_iff)
qed

lemma verify_instruction_jump:
  assumes "verify_instruction d offset starts ctx = Ok ()" "jump_target (instr_opcode d) (instr_operands d) = Some target"
  shows "unat target < length starts \<and> starts ! unat target"
  using assms
  by (auto simp: verify_instruction_def verify_indices_def starts_at_def get_def Let_def outcome_simps split: if_splits)

lemma stream_not_last:
  "stream words offset = Some is \<Longrightarrow> x \<in> set is \<Longrightarrow> x \<noteq> last is \<Longrightarrow> fst x + instr_word_len (snd x) < length words"
proof (induction words offset arbitrary: "is" rule: stream.induct)
  case (1 words offset)
  show ?case
  proof (cases "offset < length words")
    case True
    with "1.prems" obtain d0 is' where d0: "decode_instruction words (word_of_nat offset) = Ok d0"
      and rest: "stream words (offset + instr_word_len d0) = Some is'" and eq: "is = (offset, d0) # is'"
      by (auto simp: stream.simps [of words offset] split: outcome.splits)
    from "1.prems" eq have ne: "is' \<noteq> []" by auto
    show ?thesis
    proof (cases "x \<in> set is'")
      case True': True
      with "1.IH" [OF True d0 rest True'] "1.prems" eq ne show ?thesis by simp
    next
      case False
      with "1.prems" eq have "x = (offset, d0)" by simp
      with rest ne show ?thesis
        by (auto simp: stream.simps [of words "offset + instr_word_len d0"] split: if_splits)
    qed
  next
    case False
    with "1.prems" show ?thesis by (simp add: stream.simps [of words offset])
  qed
qed

text \<open>Control never leaves the instruction boundaries of a verified stream.\<close>

lemma control_step_in_stream:
  assumes "verify words ctx = Ok vb" "stream words 0 = Some is" "pc \<in> fst ` set is" "control_step words pc pc'"
  shows "pc' \<in> fst ` set is"
proof -
  from assms(1) obtain is' where st: "stream words 0 = Some is'" and small: "length words < 2 ^ 32"
    and terminal: "is_terminal (instr_opcode (snd (last is')))"
    and len: "length (vb_starts vb) = length words"
    and starts: "\<And>i. i < length words \<Longrightarrow> vb_starts vb ! i \<longleftrightarrow> i \<in> fst ` set is'"
    and each: "\<And>pc d. (pc, d) \<in> set is' \<Longrightarrow> verify_instruction d (word_of_nat pc) (vb_starts vb) ctx = Ok ()"
    by (rule verify_stream) blast
  have eq: "is' = is" using st assms(2) by simp
  from assms(3) obtain d where d: "(pc, d) \<in> set is" by auto
  with stream_elems [OF assms(2)] have dec: "decode_instruction words (word_of_nat pc) = Ok d" by blast
  from assms(4) show ?thesis
  proof (cases rule: control_step.cases)
    case (fallthrough d')
    then have "d' = d" using dec by simp
    with fallthrough terminal eq have "(pc, d) \<noteq> last is" by (metis snd_conv)
    with stream_not_last [OF assms(2) d] have "pc + instr_word_len d < length words" by simp
    with stream_next [OF assms(2) small d] fallthrough \<open>d' = d\<close> show ?thesis by (force simp: image_iff)
  next
    case (jump d' target)
    then have "d' = d" using dec by simp
    with jump verify_instruction_jump [OF each [unfolded eq, OF d]] len starts eq show ?thesis by auto
  qed
qed

section \<open>The verifier is total\<close>

lemma check_register_not_Panic [simp]: "check_register ctx offset r \<noteq> Panic"
  by (simp add: check_register_def)

lemma check_registers_not_Panic [simp]: "check_registers ctx offset rs \<noteq> Panic"
  unfolding check_registers_def by (rule for_each_not_Panic) simp

lemma and_then_not_Panic: "m \<noteq> Panic \<Longrightarrow> (\<And>x. m = Ok x \<Longrightarrow> f x \<noteq> Panic) \<Longrightarrow> and_then m f \<noteq> Panic"
  by (cases m) auto

lemma verify_operands_exhaustive: "verify_operands op operands offset ctx \<noteq> Panic"
  using opcode_univ [of op]
  by (elim insertE; simp add: verify_operands_def verify_call_operands_def Let_def opcode_eq_iff outcome_simps)

lemma verify_instruction_not_Panic: "verify_instruction d offset starts ctx \<noteq> Panic"
  by (auto simp: verify_instruction_def verify_constant_def verify_indices_def Let_def outcome_simps
      verify_operands_exhaustive split: option.splits)

lemma verify_scan_not_Panic: "verify_scan words offset s \<noteq> Panic"
proof (induction words offset s rule: verify_scan.induct)
  case (1 words offset s)
  then show ?case
    using decode_instruction_not_Panic [of words "word_of_nat offset"]
    by (subst verify_scan.simps) (cases s, auto split: outcome.splits)
qed

section \<open>Properties\<close>

text \<open>C9. The verifier accepts exactly the streams that decode completely into instructions whose last one is
  terminal and which all pass the operand checks, and the boundary map it returns marks exactly the
  offsets of those instructions.\<close>

theorem verify_accepts_exactly:
  "verify words ctx = Ok vb \<longleftrightarrow>
    (\<exists>is. stream words 0 = Some is \<and> length words < 2 ^ 32 \<and>
      is \<noteq> [] \<and> is_terminal (instr_opcode (snd (last is))) \<and>
      vb = \<lparr>vb_words = words, vb_starts = map (\<lambda>i. i \<in> fst ` set is) [0..<length words]\<rparr> \<and>
      (\<forall>(pc, d) \<in> set is. verify_instruction d (word_of_nat pc) (vb_starts vb) ctx = Ok ()))"
  (is "?L \<longleftrightarrow> ?R")
proof
  assume ?L
  then show ?R
  proof (rule verify_stream)
    fix "is" assume st: "stream words 0 = Some is" "length words < 2 ^ 32" "vb_words vb = words" "is \<noteq> []"
      "is_terminal (instr_opcode (snd (last is)))" "length (vb_starts vb) = length words"
      "\<And>i. i < length words \<Longrightarrow> vb_starts vb ! i \<longleftrightarrow> i \<in> fst ` set is"
      "\<And>pc d. (pc, d) \<in> set is \<Longrightarrow> verify_instruction d (word_of_nat pc) (vb_starts vb) ctx = Ok ()"
    then have "vb_starts vb = map (\<lambda>i. i \<in> fst ` set is) [0..<length words]"
      by (intro nth_equalityI) auto
    with st show ?R by (intro exI [of _ "is"]) (cases vb, auto)
  qed
next
  assume ?R
  then obtain "is" where st: "stream words 0 = Some is" and small: "length words < 2 ^ 32"
    and terminal: "is \<noteq> []" "is_terminal (instr_opcode (snd (last is)))"
    and vb: "vb = \<lparr>vb_words = words, vb_starts = map (\<lambda>i. i \<in> fst ` set is) [0..<length words]\<rparr>"
    and each: "\<forall>(pc, d) \<in> set is. verify_instruction d (word_of_nat pc) (vb_starts vb) ctx = Ok ()"
    by blast
  have "foldl (\<lambda>ss x. ss[fst x := True]) (replicate (length words) False) is = vb_starts vb"
    by (rule nth_equalityI) (auto simp: vb nth_foldl_starts)
  with scan.walk_fold [OF st, of "(replicate (length words) False, [], None)"] terminal
  have "verify_scan words 0 (replicate (length words) False, [], None) =
      Ok (vb_starts vb, map (\<lambda>(pc, d). (word_of_nat pc, d)) is, Some (instr_opcode (snd (last is))))"
    by (simp add: fold_scan_step)
  then show ?L
    using small terminal each vb by (auto simp: verify_def outcome_simps)
qed

theorem verify_accepts_exactly_witness:
  "let ctx = \<lparr>ctx_register_count = 0, ctx_constants = [], ctx_function_count = 1, ctx_scope_name_count = 0,
              ctx_max_environment_slot_count = 0\<rparr>
   in verify [46] ctx = Ok \<lparr>vb_words = [46], vb_starts = [True]\<rparr> \<and> (\<exists>is. stream [46] 0 = Some is \<and> is \<noteq> [])"
proof -
  let ?ctx = "\<lparr>ctx_register_count = 0, ctx_constants = [], ctx_function_count = 1, ctx_scope_name_count = 0,
              ctx_max_environment_slot_count = 0\<rparr>"
  have dec: "decode_instruction [46] 0 = Ok (decoded Op_ReturnUndefined Compact [0, 0, 0] 1)"
    by (simp add: decode_instruction_def get_def header_opcode_def FORMAT_MASK_def OPCODE_MASK_def format_defs
        from_base_def fill_operands_def)
  have "verify [46] ?ctx = Ok \<lparr>vb_words = [46], vb_starts = [True]\<rparr>"
    by (simp add: verify_def verify_scan.simps dec is_terminal_def verify_instruction_def verify_operands_def
        verify_constant_def verify_indices_def scope_name_operand_def jump_target_def opcode_eq_iff outcome_simps
        reject_if_def)
  with verify_accepts_exactly [of "[46]" ?ctx] show ?thesis by auto
qed

text \<open>Verification always returns: it never panics, and in particular its operand match covers all 146
  opcodes.\<close>

theorem verify_never_panics: "verify words ctx \<noteq> Panic"
proof -
  have "for_each (\<lambda>(offset, d). verify_instruction d offset starts ctx) xs \<noteq> Panic" for starts xs
    by (rule for_each_not_Panic) (auto simp: verify_instruction_not_Panic)
  then show ?thesis
    by (auto simp: verify_def outcome_simps verify_scan_not_Panic)
qed

text \<open>C1. Control-flow safety: from offset 0, by any sequence of fall-throughs and jumps, a verified function
  only ever reaches instruction boundaries of its own code, and there the decoder without checks
  returns the instruction that the checked decoder sees.\<close>

theorem verified_control_flow:
  assumes "verify words ctx = Ok vb" and "(control_step words)\<^sup>*\<^sup>* 0 pc"
  shows "is_instruction_start vb (word_of_nat pc) \<and>
    (\<exists>d. decode_instruction words (word_of_nat pc) = Ok d \<and> decode_unchecked words (word_of_nat pc) = Ok d)"
proof -
  from assms(1) obtain "is" where st: "stream words 0 = Some is" and small: "length words < 2 ^ 32" and ne: "is \<noteq> []"
    by (rule verify_stream) blast
  have "words \<noteq> []" using st ne by (auto simp: stream.simps [of words 0] split: if_splits)
  with stream_head [OF st] have "0 \<in> fst ` set is" by force
  with assms(2) have pc: "pc \<in> fst ` set is"
    by (induction rule: rtranclp_induct) (auto intro: control_step_in_stream [OF assms(1) st])
  then obtain d where d: "(pc, d) \<in> set is" by auto
  from stream_offsets_fit(3) [OF st small d] pc have "is_instruction_start vb (word_of_nat pc)"
    by (simp add: verify_starts [OF assms(1) st])
  moreover have "decode_instruction words (word_of_nat pc) = Ok d"
    using stream_elems [OF st d] by blast
  ultimately show ?thesis by (blast intro: decode_unchecked_aux)
qed

theorem verified_control_flow_witness:
  "let ctx = \<lparr>ctx_register_count = 0, ctx_constants = [], ctx_function_count = 1, ctx_scope_name_count = 0,
              ctx_max_environment_slot_count = 0\<rparr>
   in verify [0, 9] ctx = Ok \<lparr>vb_words = [0, 9], vb_starts = [True, True]\<rparr> \<and> (control_step [0, 9])\<^sup>*\<^sup>* 0 1 \<and>
      is_instruction_start \<lparr>vb_words = [0, 9], vb_starts = [True, True]\<rparr> 1"
proof -
  let ?ctx = "\<lparr>ctx_register_count = 0, ctx_constants = [], ctx_function_count = 1, ctx_scope_name_count = 0,
              ctx_max_environment_slot_count = 0\<rparr>"
  have dec: "decode_instruction [0, 9] 0 = Ok (decoded Op_Nop Compact [0, 0, 0] 1)"
    "decode_instruction [0, 9] 1 = Ok (decoded Op_Jump Compact [0, 0, 0] 1)"
    by (simp_all add: decode_instruction_def get_def header_opcode_def FORMAT_MASK_def OPCODE_MASK_def format_defs
        from_base_def fill_operands_def drop_bit_eq_div)
  have v: "verify [0, 9] ?ctx = Ok \<lparr>vb_words = [0, 9], vb_starts = [True, True]\<rparr>"
    by (simp add: verify_def verify_scan.simps dec is_terminal_def verify_instruction_def verify_operands_def
        verify_constant_def verify_indices_def scope_name_operand_def jump_target_def starts_at_def get_def
        opcode_eq_iff outcome_simps reject_if_def)
  have "control_step [0, 9] 0 (0 + 1)"
    using control_step.fallthrough [of "[0, 9]" 0] dec by (simp add: is_terminal_def opcode_eq_iff)
  then have r: "(control_step [0, 9])\<^sup>*\<^sup>* 0 1" by simp
  from v r verified_control_flow [OF v r] show ?thesis by simp
qed

end
