(* ===== verification/Bytecode_Validate.thy ===== *)
theory Bytecode_Validate
  imports Bytecode_Verify
begin

text \<open>
  The per-function metadata checks of \<open>crates/tachyon-bytecode/src/verify.rs\<close>, which run on the
  verified bytecode of a function: layout, source map, handler table, completion opcodes, class
  opcodes, dynamic environments, feedback sites, binding plan, environment slots and suspend points.
\<close>

section \<open>Layout, source map and feedback sites\<close>

record handler_depth =
  hd_handlers :: u32
  hd_finally_handlers :: u32

definition validate_function_layout ::
  "function_id \<Rightarrow> function_layout \<Rightarrow> handler_depth \<Rightarrow> u32 \<Rightarrow> (module_build_error, unit) outcome" where
  "validate_function_layout function layout depth scope_name_count =
     reject_if (argument_count layout > register_count layout
       \<or> temporary_register_count layout > register_count layout - argument_count layout
       \<or> max_handler_depth layout < hd_handlers depth
       \<or> max_completion_depth layout < hd_finally_handlers depth
       \<or> (case name_scope layout of None \<Rightarrow> False | Some n \<Rightarrow> n \<ge> scope_name_count))
     (InvalidFunctionLayout function layout)"

fun validate_source_map_from ::
  "word_offset option \<Rightarrow> function_id \<Rightarrow> source_map_entry list \<Rightarrow> verified_bytecode \<Rightarrow> u32 \<Rightarrow>
   (module_build_error, unit) outcome" where
  "validate_source_map_from previous function [] bytecode source_len = Ok ()"
| "validate_source_map_from previous function (entry # entries) bytecode source_len =
     (if \<not> is_instruction_start bytecode (sm_offset entry)
      then Err (SourceMapOffsetNotInstructionStart function (sm_offset entry))
      else if span_start (sm_span entry) > span_end (sm_span entry) \<or> span_end (sm_span entry) > source_len
      then Err (SourceMapOutOfBounds function (sm_span entry) source_len)
      else (case previous of
              Some p \<Rightarrow> if sm_offset entry \<le> p then Err (SourceMapNotMonotonic function p (sm_offset entry))
                        else validate_source_map_from (Some (sm_offset entry)) function entries bytecode source_len
            | None \<Rightarrow> validate_source_map_from (Some (sm_offset entry)) function entries bytecode source_len))"

definition validate_source_map ::
  "function_id \<Rightarrow> source_map_entry list \<Rightarrow> verified_bytecode \<Rightarrow> u32 \<Rightarrow> (module_build_error, unit) outcome" where
  "validate_source_map = validate_source_map_from None"

fun validate_feedback_sites_from ::
  "word_offset option \<Rightarrow> function_id \<Rightarrow> feedback_site list \<Rightarrow> verified_bytecode \<Rightarrow> u32 \<Rightarrow>
   (module_build_error, unit) outcome" where
  "validate_feedback_sites_from previous function [] bytecode slot_count = Ok ()"
| "validate_feedback_sites_from previous function (site # sites) bytecode slot_count =
     (if \<not> is_instruction_start bytecode (fs_offset site)
      then Err (FeedbackSiteOffsetNotInstructionStart function (fs_offset site))
      else if fs_slot site \<ge> slot_count
      then Err (FeedbackSlotOutOfRange function (fs_slot site) slot_count)
      else (case previous of
              Some p \<Rightarrow> if fs_offset site \<le> p then Err (FeedbackSitesNotMonotonic function p (fs_offset site))
                        else validate_feedback_sites_from (Some (fs_offset site)) function sites bytecode slot_count
            | None \<Rightarrow> validate_feedback_sites_from (Some (fs_offset site)) function sites bytecode slot_count))"

definition validate_feedback_sites ::
  "function_id \<Rightarrow> feedback_site list \<Rightarrow> verified_bytecode \<Rightarrow> u32 \<Rightarrow> (module_build_error, unit) outcome" where
  "validate_feedback_sites = validate_feedback_sites_from None"

section \<open>Handler tables\<close>

definition handler_contains :: "handler_entry \<Rightarrow> handler_entry \<Rightarrow> bool" where
  "handler_contains outer inner \<longleftrightarrow>
     protected_start outer \<le> protected_start inner \<and> protected_end inner \<le> protected_end outer"

definition crosses_handler_ranges :: "handler_entry \<Rightarrow> handler_entry \<Rightarrow> bool" where
  "crosses_handler_ranges left right \<longleftrightarrow>
     protected_start left < protected_start right \<and> protected_start right < protected_end left \<and>
     protected_end left < protected_end right"

definition finalizer_contains :: "handler_entry \<Rightarrow> handler_entry \<Rightarrow> bool" where
  "finalizer_contains outer inner \<longleftrightarrow>
     is_finalizer (handler_kind outer) \<and> handler_target outer \<le> handler_target inner \<and>
     handler_end inner \<le> handler_end outer"

definition finalizer_executes_around :: "handler_entry \<Rightarrow> handler_entry \<Rightarrow> bool" where
  "finalizer_executes_around outer inner \<longleftrightarrow>
     is_finalizer (handler_kind outer) \<and> handler_target outer \<le> protected_start inner \<and>
     protected_end inner \<le> handler_end outer"

definition crosses_finalizer_ranges :: "handler_entry \<Rightarrow> handler_entry \<Rightarrow> bool" where
  "crosses_finalizer_ranges left right =
     (if \<not> is_finalizer (handler_kind left) \<or> \<not> is_finalizer (handler_kind right) then False
      else let (first, second) = (if handler_target left \<le> handler_target right then (left, right) else (right, left))
           in handler_target first < handler_target second \<and> handler_target second < handler_end first \<and>
              handler_end first < handler_end second)"

function ends_with_resume_from :: "nat \<Rightarrow> u32 list \<Rightarrow> word_offset \<Rightarrow> bool" where
  "ends_with_resume_from offset words end_offset =
     (if offset < unat end_offset
      then (case decode_instruction words (word_of_nat offset) of
              Ok instruction \<Rightarrow>
                (let next = offset + instr_word_len instruction
                 in if next = unat end_offset then instr_opcode instruction = Op_ResumeCompletion
                    else ends_with_resume_from next words end_offset)
            | _ \<Rightarrow> False)
      else False)"
  by pat_completeness auto
termination
  by (relation "measure (\<lambda>(offset, words, end_offset). unat end_offset - offset)")
    (auto dest: decode_instruction_bounds(1))

declare ends_with_resume_from.simps [simp del]

definition finalizer_ends_with_resume :: "verified_bytecode \<Rightarrow> word_offset \<Rightarrow> bool" where
  "finalizer_ends_with_resume bytecode end_offset = ends_with_resume_from 0 (vb_words bytecode) end_offset"

definition validate_handler_range ::
  "function_id \<Rightarrow> verified_bytecode \<Rightarrow> handler_entry \<Rightarrow> (module_build_error, unit) outcome" where
  "validate_handler_range function bytecode h =
     (let code_len = word_of_nat (length (vb_words bytecode));
          start_is_valid = is_instruction_start bytecode (protected_start h);
          end_is_valid = (protected_end h = code_len \<or> is_instruction_start bytecode (protected_end h));
          handler_end_is_valid = (handler_end h = code_len \<or> is_instruction_start bytecode (handler_end h));
          handler_kind_is_valid =
            (case handler_kind h of
               HK_Catch \<Rightarrow> handler_end h = handler_target h
             | _ \<Rightarrow> handler_target h < handler_end h \<and> finalizer_ends_with_resume bytecode (handler_end h))
      in and_then (reject_if (\<not> start_is_valid \<or> \<not> end_is_valid \<or> \<not> is_instruction_start bytecode (handler_target h)
             \<or> \<not> handler_end_is_valid \<or> \<not> handler_kind_is_valid \<or> protected_start h \<ge> protected_end h)
           (InvalidHandlerRange function h)) (\<lambda>_.
         reject_if (protected_start h \<le> handler_target h \<and> handler_target h < protected_end h)
           (HandlerTargetInsideProtectedRange function h)))"

definition validate_handler_pair ::
  "function_id \<Rightarrow> handler_entry \<Rightarrow> handler_entry \<Rightarrow> (module_build_error, unit) outcome" where
  "validate_handler_pair function current previous =
     and_then (reject_if (protected_start previous > protected_start current
         \<or> (protected_start previous = protected_start current \<and> protected_end previous \<le> protected_end current)
         \<or> crosses_handler_ranges previous current)
       (HandlerTableNotProperlyNested function previous current)) (\<lambda>_.
     reject_if (crosses_finalizer_ranges previous current)
       (HandlerTableNotProperlyNested function previous current))"

definition count_u32 :: "('a \<Rightarrow> bool) \<Rightarrow> 'a list \<Rightarrow> u32" where
  "count_u32 p xs = word_of_nat (length (filter p xs))"

fun validate_handler_nesting ::
  "handler_entry list \<Rightarrow> handler_depth \<Rightarrow> function_id \<Rightarrow> handler_entry list \<Rightarrow> (module_build_error, handler_depth) outcome" where
  "validate_handler_nesting earlier max_depth function [] = Ok max_depth"
| "validate_handler_nesting earlier max_depth function (current # later) =
     and_then (for_each (validate_handler_pair function current) earlier) (\<lambda>_.
       let depth = count_u32 (\<lambda>candidate. handler_contains candidate current) (earlier @ [current])
       in validate_handler_nesting (earlier @ [current])
            (max_depth\<lparr>hd_handlers := max (hd_handlers max_depth) depth\<rparr>) function later)"

definition finalizer_depth :: "handler_entry list \<Rightarrow> handler_depth \<Rightarrow> handler_entry \<Rightarrow> handler_depth" where
  "finalizer_depth handlers max_depth current =
     (let active_depth = count_u32 (\<lambda>candidate. finalizer_contains candidate current) handlers
      in max_depth\<lparr>hd_handlers := max (hd_handlers max_depth) active_depth,
                   hd_finally_handlers := max (hd_finally_handlers max_depth) active_depth\<rparr>)"

definition combined_depth :: "handler_entry list \<Rightarrow> handler_depth \<Rightarrow> handler_entry \<Rightarrow> handler_depth" where
  "combined_depth handlers max_depth current =
     (let protected_depth = count_u32 (\<lambda>candidate. handler_contains candidate current) handlers;
          active_outer_finalizers = count_u32 (\<lambda>candidate. finalizer_executes_around candidate current) handlers
      in max_depth\<lparr>hd_handlers := max (hd_handlers max_depth)
           (saturating_add protected_depth active_outer_finalizers)\<rparr>)"

definition validate_handlers ::
  "function_id \<Rightarrow> handler_entry list \<Rightarrow> verified_bytecode \<Rightarrow> (module_build_error, handler_depth) outcome" where
  "validate_handlers function handlers bytecode =
     and_then (for_each (validate_handler_range function bytecode) handlers) (\<lambda>_.
     and_then (validate_handler_nesting [] \<lparr>hd_handlers = 0, hd_finally_handlers = 0\<rparr> function handlers) (\<lambda>depth.
       let depth = foldl (finalizer_depth handlers) depth (filter (\<lambda>h. is_finalizer (handler_kind h)) handlers)
       in Ok (foldl (combined_depth handlers) depth handlers)))"

section \<open>Instruction walks\<close>

text \<open>
  The loop \<open>while offset < words.len() { decode; body; offset += word_len }\<close> that five of the checks
  share. \<open>failed\<close> is what the loop does where the decode fails, \<open>body\<close> the rest of its body.
\<close>

function walk_instructions ::
  "(nat \<Rightarrow> ('e, 's) outcome) \<Rightarrow> ('s \<Rightarrow> nat \<times> decoded_instruction \<Rightarrow> ('e, 's) outcome) \<Rightarrow>
   u32 list \<Rightarrow> nat \<Rightarrow> 's \<Rightarrow> ('e, 's) outcome" where
  "walk_instructions failed body words offset s =
     (if offset < length words
      then (case decode_instruction words (word_of_nat offset) of
              Ok d \<Rightarrow> and_then (body s (offset, d)) (\<lambda>s'. walk_instructions failed body words (offset + instr_word_len d) s')
            | _ \<Rightarrow> failed offset)
      else Ok s)"
  by pat_completeness auto
termination
  by (relation "measure (\<lambda>(failed, body, words, offset, s). length words - offset)")
    (auto dest: decode_instruction_bounds(1))

declare walk_instructions.simps [simp del]

definition decode_invariant :: "function_id \<Rightarrow> nat \<Rightarrow> (module_build_error, 's) outcome" where
  "decode_invariant function offset = Err (VerifiedBytecodeDecodeInvariant function (word_of_nat offset))"

definition enters_environment :: "opcode \<Rightarrow> bool" where
  "enters_environment op \<longleftrightarrow> op \<in> {Op_EnterClassEnvironment, Op_EnterLexicalEnvironment}"

definition initializes_environment :: "opcode \<Rightarrow> bool" where
  "initializes_environment op \<longleftrightarrow> op \<in> {Op_InitializeClassEnvironment, Op_InitializeLexicalEnvironment}"

definition leaves_environment :: "opcode \<Rightarrow> bool" where
  "leaves_environment op \<longleftrightarrow> op \<in> {Op_LeaveClassEnvironment, Op_LeaveLexicalEnvironment}"

definition is_abrupt :: "opcode \<Rightarrow> bool" where
  "is_abrupt op \<longleftrightarrow> op \<in> {Op_BreakThroughFinally, Op_ContinueThroughFinally}"

section \<open>Completion and class opcodes\<close>

definition in_range :: "u32 \<Rightarrow> u32 \<Rightarrow> u32 \<Rightarrow> bool" where
  "in_range low high x \<longleftrightarrow> low \<le> x \<and> x < high"

definition finally_instruction_valid ::
  "handler_entry list \<Rightarrow> u32 \<Rightarrow> u32 \<Rightarrow> u32 \<Rightarrow> decoded_instruction \<Rightarrow> bool" where
  "finally_instruction_valid handlers environment_depth offset next d =
     (let op = instr_opcode d; finalizers = filter (\<lambda>h. is_finalizer (handler_kind h)) handlers
      in if op = Op_EnterFinally
         then (\<exists>h \<in> set finalizers. in_range (protected_start h) (protected_end h) offset)
         else if op = Op_ResumeCompletion
         then (\<exists>h \<in> set finalizers. handler_target h \<le> offset \<and> handler_end h = next)
         else if is_abrupt op
         then (let target = instr_operands d ! 0
               in instr_operands d ! 1 < environment_depth \<or>
                  (\<exists>h \<in> set finalizers.
                     in_range (protected_start h) (protected_end h) offset \<and>
                       \<not> in_range (protected_start h) (protected_end h) target \<or>
                     in_range (handler_target h) (handler_end h) offset \<and>
                       \<not> in_range (handler_target h) (handler_end h) target))
         else True)"

definition finally_step ::
  "function_id \<Rightarrow> handler_entry list \<Rightarrow> u32 \<Rightarrow> nat \<times> decoded_instruction \<Rightarrow> (module_build_error, u32) outcome" where
  "finally_step function handlers environment_depth x =
     (case x of (offset, d) \<Rightarrow>
        if \<not> finally_instruction_valid handlers environment_depth (word_of_nat offset)
               (word_of_nat (offset + instr_word_len d)) d
        then Err (InvalidFinallyInstruction function (word_of_nat offset) (instr_opcode d))
        else if enters_environment (instr_opcode d) then Ok (saturating_add environment_depth 1)
        else if leaves_environment (instr_opcode d) then Ok (saturating_sub environment_depth 1)
        else Ok environment_depth)"

definition validate_finally_instructions ::
  "function_id \<Rightarrow> handler_entry list \<Rightarrow> verified_bytecode \<Rightarrow> (module_build_error, unit) outcome" where
  "validate_finally_instructions function handlers bytecode =
     and_then (walk_instructions (\<lambda>_. Panic) (finally_step function handlers) (vb_words bytecode) 0 0) (\<lambda>_. Ok ())"

definition class_constructor_kinds :: "function_kind set" where
  "class_constructor_kinds = {FK_DerivedClassConstructor, FK_BaseClassConstructor}"

definition class_step ::
  "function_id \<Rightarrow> function_kind \<Rightarrow> function_role \<Rightarrow> function_kind list \<Rightarrow> unit \<Rightarrow> nat \<times> decoded_instruction \<Rightarrow>
   (module_build_error, unit) outcome" where
  "class_step function kind role function_kinds s x =
     (case x of (offset, d) \<Rightarrow>
        let op = instr_opcode d; word_offset = word_of_nat offset;
            invalid = InvalidClassInstruction function kind word_offset op
        in and_then (reject_if (op \<in> {Op_SuperConstruct, Op_SuperConstructSpread, Op_SuperConstructForwardAll, Op_InitializeThis}
               \<and> kind \<noteq> FK_DerivedClassConstructor) invalid) (\<lambda>_.
           and_then (reject_if (op = Op_InitializeInstanceElements \<and> kind \<notin> class_constructor_kinds) invalid) (\<lambda>_.
           and_then (reject_if (op \<in> {Op_LoadSuperBase, Op_GetSuperById, Op_GetSuperByValue}
               \<and> \<not> (has_home_object role \<or> kind \<in> class_constructor_kinds)) invalid) (\<lambda>_.
           if op \<in> {Op_CreateClass, Op_CreateBaseClass}
           then (let target = instr_operands d ! 1
                 in and_then (index_or_panic function_kinds (unat target)) (\<lambda>target_kind.
                    reject_if (target_kind \<noteq> (if op = Op_CreateClass then FK_DerivedClassConstructor
                                              else FK_BaseClassConstructor))
                      (InvalidClassConstructorTarget function word_offset target target_kind)))
           else Ok ()))))"

definition validate_class_instructions ::
  "function_id \<Rightarrow> function_kind \<Rightarrow> function_role \<Rightarrow> verified_bytecode \<Rightarrow> function_kind list \<Rightarrow>
   (module_build_error, unit) outcome" where
  "validate_class_instructions function kind role bytecode function_kinds =
     walk_instructions (decode_invariant function) (class_step function kind role function_kinds)
       (vb_words bytecode) 0 ()"

section \<open>Dynamic environments\<close>

type_synonym environment_state = "u32 option list \<times> u32 list \<times> u32"

definition environment_step ::
  "function_id \<Rightarrow> environment_state \<Rightarrow> nat \<times> decoded_instruction \<Rightarrow> (module_build_error, environment_state) outcome" where
  "environment_step function s x =
     (case s of (depth_at, slot_counts, depth) \<Rightarrow> case x of (offset, d) \<Rightarrow>
        let op = instr_opcode d; word_offset = word_of_nat offset; depth_at = depth_at[offset := Some depth]
        in if enters_environment op
           then and_then (ok_or (InvalidClassEnvironmentDepth function word_offset (- 1) depth) (checked_add depth 1))
                  (\<lambda>depth. Ok (depth_at, slot_counts @ [instr_operands d ! 0], depth))
           else if initializes_environment op
           then (if slot_counts = [] then Err (InvalidClassEnvironmentDepth function word_offset 1 0)
                 else and_then (reject_if (instr_operands d ! 1 \<ge> last slot_counts)
                        (ClassEnvironmentSlotOutOfRange function word_offset (instr_operands d ! 1) (last slot_counts)))
                        (\<lambda>_. Ok (depth_at, slot_counts, depth)))
           else if leaves_environment op
           then and_then (ok_or (InvalidClassEnvironmentDepth function word_offset 1 0) (checked_sub depth 1))
                  (\<lambda>depth. Ok (depth_at, butlast slot_counts, depth))
           else Ok (depth_at, slot_counts, depth))"

definition environment_edge_step ::
  "function_id \<Rightarrow> u32 option list \<Rightarrow> unit \<Rightarrow> nat \<times> decoded_instruction \<Rightarrow> (module_build_error, unit) outcome" where
  "environment_edge_step function depth_at s x =
     (case x of (offset, d) \<Rightarrow>
        let op = instr_opcode d; word_offset = word_of_nat offset
        in case jump_target op (instr_operands d) of
             None \<Rightarrow> Ok ()
           | Some target \<Rightarrow>
               and_then (and_then (index_or_panic depth_at offset) expect) (\<lambda>source_depth.
               and_then (and_then (index_or_panic depth_at (unat target)) expect) (\<lambda>target_depth.
               and_then (reject_if (is_abrupt op \<and> instr_operands d ! 1 \<noteq> target_depth)
                 (InvalidClassEnvironmentDepth function word_offset target_depth (instr_operands d ! 1))) (\<lambda>_.
               reject_if ((\<not> is_abrupt op \<and> source_depth \<noteq> target_depth) \<or> (is_abrupt op \<and> target_depth > source_depth))
                 (InvalidClassEnvironmentDepth function word_offset source_depth target_depth)))))"

definition environment_handler_check ::
  "function_id \<Rightarrow> u32 option list \<Rightarrow> handler_entry \<Rightarrow> (module_build_error, unit) outcome" where
  "environment_handler_check function depth_at h =
     and_then (and_then (index_or_panic depth_at (unat (handler_target h))) expect) (\<lambda>target_depth.
       reject_if (handler_environment_depth h \<noteq> target_depth)
         (InvalidClassEnvironmentDepth function (handler_target h) target_depth (handler_environment_depth h)))"

definition validate_class_environments ::
  "function_id \<Rightarrow> handler_entry list \<Rightarrow> verified_bytecode \<Rightarrow> (module_build_error, unit) outcome" where
  "validate_class_environments function handlers bytecode =
     (let words = vb_words bytecode
      in and_then (walk_instructions (decode_invariant function) (environment_step function) words 0
             (replicate (length words + 1) None, [], 0)) (\<lambda>(depth_at, slot_counts, depth).
         let depth_at = depth_at[length words := Some depth]
         in and_then (reject_if (depth \<noteq> 0)
              (InvalidClassEnvironmentDepth function (word_of_nat (length words)) 0 depth)) (\<lambda>_.
            and_then (walk_instructions (decode_invariant function) (environment_edge_step function depth_at) words 0 ()) (\<lambda>_.
            for_each (environment_handler_check function depth_at) handlers))))"

section \<open>Binding plan and environment slots\<close>

definition validate_binding_bounds ::
  "function_id \<Rightarrow> function_layout \<Rightarrow> u32 \<Rightarrow> u32 \<Rightarrow> binding_plan_entry \<Rightarrow> (module_build_error, unit) outcome" where
  "validate_binding_bounds function layout max_environment_slot_count function_count binding =
     (if bp_name binding = [] then Err (EmptyBindingName function binding)
      else let slot_error = BindingEnvironmentSlotOutOfRange function binding max_environment_slot_count
           in case bp_location binding of
             BL_FrameRegister r \<Rightarrow> reject_if (r \<ge> register_count layout)
               (BindingRegisterOutOfRange function binding (register_count layout))
           | BL_Environment depth slot \<Rightarrow> reject_if (slot \<ge> max_environment_slot_count) slot_error
           | BL_ClassEnvironment depth slot \<Rightarrow> reject_if (slot \<ge> max_environment_slot_count) slot_error
           | BL_LexicalEnvironment depth slot \<Rightarrow> reject_if (slot \<ge> max_environment_slot_count) slot_error
           | BL_ModuleFunction slot target \<Rightarrow>
               and_then (reject_if (slot \<ge> max_environment_slot_count) slot_error) (\<lambda>_.
               reject_if (target \<ge> function_count) (BindingFunctionOutOfRange function binding function_count))
           | _ \<Rightarrow> Ok ())"

definition owned_slot :: "binding_location \<Rightarrow> u32 option" where
  "owned_slot location =
     (case location of
        BL_Environment depth slot \<Rightarrow> if depth = 0 then Some slot else None
      | BL_ModuleFunction slot target \<Rightarrow> Some slot
      | _ \<Rightarrow> None)"

definition validate_binding_owner ::
  "function_id \<Rightarrow> function_layout \<Rightarrow> environment_slot_metadata list \<Rightarrow> binding_plan_entry \<Rightarrow>
   (module_build_error, unit) outcome" where
  "validate_binding_owner function layout environment_slots binding =
     (case owned_slot (bp_location binding) of
        None \<Rightarrow> Ok ()
      | Some slot \<Rightarrow>
          if environment_slot_count layout = 0 then Ok ()
          else (case get environment_slots (unat slot) of
                  None \<Rightarrow> Err (EnvironmentSlotBindingMismatch function binding)
                | Some owner \<Rightarrow> reject_if (es_name owner \<noteq> bp_name binding \<or> es_mutable owner \<noteq> bp_mutable binding)
                    (EnvironmentSlotBindingMismatch function binding)))"

definition validate_binding_plan ::
  "function_id \<Rightarrow> binding_plan_entry list \<Rightarrow> function_layout \<Rightarrow> u32 \<Rightarrow> environment_slot_metadata list \<Rightarrow> u32 \<Rightarrow>
   (module_build_error, unit) outcome" where
  "validate_binding_plan function bindings layout max_environment_slot_count environment_slots function_count =
     and_then (for_each (validate_binding_bounds function layout max_environment_slot_count function_count) bindings) (\<lambda>_.
       for_each (validate_binding_owner function layout environment_slots) bindings)"

fun validate_slot_names ::
  "function_id \<Rightarrow> nat \<Rightarrow> environment_slot_metadata list \<Rightarrow> (module_build_error, unit) outcome" where
  "validate_slot_names function index [] = Ok ()"
| "validate_slot_names function index (slot # slots) =
     (if es_name slot = []
      then and_then (expect (u32_try_from index)) (\<lambda>i. Err (EmptyEnvironmentSlotName function i))
      else validate_slot_names function (index + 1) slots)"

definition validate_environment_slots ::
  "function_id \<Rightarrow> environment_slot_metadata list \<Rightarrow> function_layout \<Rightarrow> (module_build_error, unit) outcome" where
  "validate_environment_slots function slots layout =
     (let actual = (case u32_try_from (length slots) of Some n \<Rightarrow> n | None \<Rightarrow> - 1)
      in and_then (reject_if (actual \<noteq> environment_slot_count layout)
           (EnvironmentSlotMetadataCountMismatch function (environment_slot_count layout) actual)) (\<lambda>_.
         and_then (validate_slot_names function 0 slots) (\<lambda>_.
         case self_binding_slot layout of
           None \<Rightarrow> Ok ()
         | Some slot \<Rightarrow>
             (case get slots (unat slot) of
                None \<Rightarrow> Err (InvalidSelfBindingSlot function slot)
              | Some metadata \<Rightarrow> reject_if (es_mutable metadata \<or> \<not> es_initialized metadata)
                  (InvalidSelfBindingSlot function slot)))))"

section \<open>Suspend points\<close>

definition is_suspend :: "opcode \<Rightarrow> bool" where
  "is_suspend op \<longleftrightarrow> op \<in> {Op_Await, Op_Yield, Op_YieldWithKind}"

definition suspend_compatible :: "opcode \<Rightarrow> function_kind \<Rightarrow> bool" where
  "suspend_compatible op kind \<longleftrightarrow>
     (if op = Op_Await then kind \<in> {FK_Module, FK_Async, FK_AsyncGenerator}
      else if op \<in> {Op_Yield, Op_YieldWithKind} then kind \<in> {FK_Generator, FK_AsyncGenerator}
      else False)"

fun validate_suspend_table ::
  "function_id \<Rightarrow> nat \<Rightarrow> suspend_point list \<Rightarrow> verified_bytecode \<Rightarrow> u32 \<Rightarrow> (module_build_error, unit) outcome" where
  "validate_suspend_table function index [] bytecode registers = Ok ()"
| "validate_suspend_table function index (sp # sps) bytecode registers =
     and_then (ok_or (InvalidSuspendPoint function sp) (u32_try_from index)) (\<lambda>expected.
     and_then (reject_if (sp_id sp \<noteq> expected) (SuspendPointIdMismatch function expected (sp_id sp))) (\<lambda>_.
     and_then (reject_if (\<not> is_instruction_start bytecode (sp_instruction sp)
         \<or> \<not> is_instruction_start bytecode (sp_resume_offset sp) \<or> sp_destination sp \<ge> registers)
       (InvalidSuspendPoint function sp)) (\<lambda>_.
     (case decode_instruction (vb_words bytecode) (sp_instruction sp) of
        Ok d \<Rightarrow>
          and_then (reject_if (\<not> is_suspend (instr_opcode d) \<or> instr_operands d ! 1 \<noteq> sp_destination sp
              \<or> instr_operands d ! 2 \<noteq> sp_id sp
              \<or> sp_resume_offset sp \<noteq> sp_instruction sp + word_of_nat (instr_word_len d))
            (InvalidSuspendPoint function sp)) (\<lambda>_. validate_suspend_table function (index + 1) sps bytecode registers)
      | _ \<Rightarrow> Err (VerifiedBytecodeDecodeInvariant function (sp_instruction sp))))))"

definition suspend_step ::
  "function_id \<Rightarrow> function_kind \<Rightarrow> suspend_point list \<Rightarrow> u32 \<Rightarrow> nat \<times> decoded_instruction \<Rightarrow>
   (module_build_error, u32) outcome" where
  "suspend_step function kind suspend_points initial_yield_count x =
     (case x of (offset, d) \<Rightarrow>
        let op = instr_opcode d; word_offset = word_of_nat offset
        in if is_suspend op
           then and_then (reject_if (\<not> suspend_compatible op kind)
                  (SuspendInIncompatibleFunction function kind word_offset op)) (\<lambda>_.
                let i = instr_operands d ! 2
                in and_then (reject_if (map_option sp_id (get suspend_points (unat i)) \<noteq> Some i)
                     (SuspendPointMissing function word_offset i)) (\<lambda>_. Ok initial_yield_count))
           else if op = Op_InitialYield
           then and_then (reject_if (kind \<notin> {FK_Generator, FK_AsyncGenerator})
                  (InitialYieldInIncompatibleFunction function kind word_offset)) (\<lambda>_.
                Ok (saturating_add initial_yield_count 1))
           else Ok initial_yield_count)"

definition validate_suspend_opcodes ::
  "function_id \<Rightarrow> function_kind \<Rightarrow> verified_bytecode \<Rightarrow> suspend_point list \<Rightarrow> (module_build_error, unit) outcome" where
  "validate_suspend_opcodes function kind bytecode suspend_points =
     and_then (walk_instructions (decode_invariant function) (suspend_step function kind suspend_points)
         (vb_words bytecode) 0 0) (\<lambda>initial_yield_count.
       reject_if (kind \<in> {FK_Generator, FK_AsyncGenerator} \<and> initial_yield_count \<noteq> 1)
         (InvalidInitialYieldCount function kind initial_yield_count))"

definition validate_suspend_points ::
  "function_id \<Rightarrow> suspend_point list \<Rightarrow> verified_bytecode \<Rightarrow> u32 \<Rightarrow> function_kind \<Rightarrow> (module_build_error, unit) outcome" where
  "validate_suspend_points function suspend_points bytecode registers kind =
     and_then (validate_suspend_table function 0 suspend_points bytecode registers) (\<lambda>_.
       validate_suspend_opcodes function kind bytecode suspend_points)"

section \<open>Ordered side tables\<close>

text \<open>Source maps and feedback sites are the same kind of table: entries valid one by one, offsets strictly increasing.\<close>

locale ordered_table =
  fixes run :: "word_offset option \<Rightarrow> 'p \<Rightarrow> 'a list \<Rightarrow> (module_build_error, unit) outcome"
    and offset_of :: "'a \<Rightarrow> word_offset"
    and valid :: "'p \<Rightarrow> 'a \<Rightarrow> bool"
  assumes run_Nil: "run previous p [] = Ok ()"
    and run_Cons: "run previous p (x # xs) = Ok () \<longleftrightarrow>
      valid p x \<and> (case previous of None \<Rightarrow> True | Some q \<Rightarrow> q < offset_of x) \<and> run (Some (offset_of x)) p xs = Ok ()"
begin

lemma run_Some_iff:
  "run (Some q) p xs = Ok () \<longleftrightarrow> (\<forall>x \<in> set xs. valid p x) \<and> sorted_wrt (<) (q # map offset_of xs)"
  by (induction xs arbitrary: q) (auto simp: run_Nil run_Cons)

lemma run_iff: "run None p xs = Ok () \<longleftrightarrow> (\<forall>x \<in> set xs. valid p x) \<and> sorted_wrt (<) (map offset_of xs)"
  by (cases xs) (auto simp: run_Nil run_Cons run_Some_iff)

end

interpretation source_maps: ordered_table
  "\<lambda>previous (function, bytecode, source_len) entries. validate_source_map_from previous function entries bytecode source_len"
  sm_offset
  "\<lambda>(function, bytecode, source_len) entry. is_instruction_start bytecode (sm_offset entry) \<and>
     span_start (sm_span entry) \<le> span_end (sm_span entry) \<and> span_end (sm_span entry) \<le> source_len"
  by unfold_locales (auto split: option.splits if_splits simp: not_le not_less)

interpretation feedback: ordered_table
  "\<lambda>previous (function, bytecode, slot_count) sites. validate_feedback_sites_from previous function sites bytecode slot_count"
  fs_offset
  "\<lambda>(function, bytecode, slot_count) site. is_instruction_start bytecode (fs_offset site) \<and> fs_slot site < slot_count"
  by unfold_locales (auto split: option.splits if_splits simp: not_le not_less)

section \<open>Handler tables\<close>

lemma validate_handler_pair_Ok:
  "validate_handler_pair function c p = Ok u \<longleftrightarrow>
     protected_start p \<le> protected_start c \<and>
     (protected_start p = protected_start c \<longrightarrow> protected_end c < protected_end p) \<and>
     \<not> crosses_handler_ranges p c \<and> \<not> crosses_finalizer_ranges p c"
  by (auto simp: validate_handler_pair_def outcome_simps not_less not_le)

text \<open>A handler that starts inside an earlier one ends inside it.\<close>

lemma handler_pair_nested:
  assumes "validate_handler_pair function c p = Ok ()" "protected_start c < protected_end p"
  shows "handler_contains p c"
  using assms by (auto simp: validate_handler_pair_Ok crosses_handler_ranges_def handler_contains_def not_less)

lemma hd_handlers_foldl_mono:
  "(\<And>d x. hd_handlers d \<le> hd_handlers (f d x)) \<Longrightarrow> hd_handlers d \<le> hd_handlers (foldl f d xs)"
  by (induction xs arbitrary: d) (auto intro: order_trans)

lemma nesting_Ok:
  "validate_handler_nesting earlier depth function later = Ok depth' \<Longrightarrow>
     hd_handlers depth \<le> hd_handlers depth' \<and>
     (\<forall>pre c post. later = pre @ c # post \<longrightarrow>
        (\<forall>p \<in> set (earlier @ pre). validate_handler_pair function c p = Ok ()) \<and>
        count_u32 (\<lambda>candidate. handler_contains candidate c) (earlier @ pre @ [c]) \<le> hd_handlers depth')"
proof (induction later arbitrary: earlier depth)
  case (Cons h later)
  let ?d = "depth\<lparr>hd_handlers := max (hd_handlers depth)
    (count_u32 (\<lambda>candidate. handler_contains candidate h) (earlier @ [h]))\<rparr>"
  from Cons.prems have pairs: "\<forall>p \<in> set earlier. validate_handler_pair function h p = Ok ()"
    and rest: "validate_handler_nesting (earlier @ [h]) ?d function later = Ok depth'"
    by (auto simp: outcome_simps Let_def)
  note IH = Cons.IH [OF rest]
  then have le: "hd_handlers ?d \<le> hd_handlers depth'" by blast
  show ?case
  proof (intro conjI allI impI)
    show "hd_handlers depth \<le> hd_handlers depth'" using le by simp
    fix pre c post assume eq: "h # later = pre @ c # post"
    show "\<forall>p \<in> set (earlier @ pre). validate_handler_pair function c p = Ok ()"
      using eq pairs IH by (cases pre) auto
    show "count_u32 (\<lambda>candidate. handler_contains candidate c) (earlier @ pre @ [c]) \<le> hd_handlers depth'"
      using eq le IH by (cases pre) auto
  qed
qed simp

lemma validate_handlers_nesting:
  assumes "validate_handlers function handlers bytecode = Ok depth"
  obtains depth' where "validate_handler_nesting [] \<lparr>hd_handlers = 0, hd_finally_handlers = 0\<rparr> function handlers = Ok depth'"
    "hd_handlers depth' \<le> hd_handlers depth"
    "\<forall>h \<in> set handlers. validate_handler_range function bytecode h = Ok ()"
proof -
  from assms obtain depth' where
    n: "validate_handler_nesting [] \<lparr>hd_handlers = 0, hd_finally_handlers = 0\<rparr> function handlers = Ok depth'"
    and d: "depth = foldl (combined_depth handlers)
      (foldl (finalizer_depth handlers) depth' (filter (\<lambda>h. is_finalizer (handler_kind h)) handlers)) handlers"
    and r: "\<forall>h \<in> set handlers. validate_handler_range function bytecode h = Ok ()"
    by (auto simp: validate_handlers_def outcome_simps Let_def)
  have "hd_handlers depth' \<le> hd_handlers depth"
    unfolding d
    by (rule order_trans [OF hd_handlers_foldl_mono hd_handlers_foldl_mono])
      (simp_all add: finalizer_depth_def combined_depth_def Let_def)
  with n r that show thesis by blast
qed

lemma unat_count_u32: "length xs < 2 ^ 32 \<Longrightarrow> unat (count_u32 p xs) = length (filter p xs)"
  unfolding count_u32_def
  by (rule unat_u32_of_nat) (rule order.strict_trans1 [OF length_filter_le])

lemma last_filter_split:
  "filter p xs \<noteq> [] \<Longrightarrow> \<exists>pre c post. xs = pre @ c # post \<and> p c \<and> filter p post = []"
proof (induction xs rule: rev_induct)
  case (snoc x xs)
  show ?case
  proof (cases "p x")
    case True
    then show ?thesis by (intro exI [of _ xs] exI [of _ x] exI [of _ "[]"]) simp
  next
    case False
    with snoc obtain pre c post where "xs = pre @ c # post" "p c" "filter p post = []" by auto
    with False show ?thesis by (intro exI [of _ pre] exI [of _ c] exI [of _ "post @ [x]"]) simp
  qed
qed simp

lemma length_filter_mono_set: "(\<And>x. x \<in> set xs \<Longrightarrow> p x \<Longrightarrow> q x) \<Longrightarrow> length (filter p xs) \<le> length (filter q xs)"
  by (induction xs) auto

lemma handler_depth_covers_aux:
  assumes ok: "validate_handlers function handlers bytecode = Ok depth" and small: "length handlers < 2 ^ 32"
  shows "length (filter (\<lambda>h. in_range (protected_start h) (protected_end h) pc) handlers) \<le> unat (hd_handlers depth)"
proof (cases "filter (\<lambda>h. in_range (protected_start h) (protected_end h) pc) handlers = []")
  case False
  let ?p = "\<lambda>h. in_range (protected_start h) (protected_end h) pc"
  obtain pre c post where split: "handlers = pre @ c # post" "?p c" "filter ?p post = []"
    using last_filter_split [OF False] by blast
  obtain depth' where n: "validate_handler_nesting [] \<lparr>hd_handlers = 0, hd_finally_handlers = 0\<rparr> function handlers = Ok depth'"
    and le: "hd_handlers depth' \<le> hd_handlers depth"
    using ok by (rule validate_handlers_nesting)
  from nesting_Ok [OF n] split(1)
  have pairs: "\<forall>p \<in> set pre. validate_handler_pair function c p = Ok ()"
    and count: "count_u32 (\<lambda>candidate. handler_contains candidate c) (pre @ [c]) \<le> hd_handlers depth'"
    by auto
  have "handler_contains h c" if "h \<in> set (pre @ [c])" "?p h" for h
  proof (cases "h = c")
    case True
    then show ?thesis by (simp add: handler_contains_def)
  next
    case False
    with that pairs have "validate_handler_pair function c h = Ok ()" by auto
    moreover have "protected_start c < protected_end h"
      using that(2) split(2) by (auto simp: in_range_def)
    ultimately show ?thesis by (rule handler_pair_nested)
  qed
  then have "length (filter ?p (pre @ [c])) \<le> length (filter (\<lambda>candidate. handler_contains candidate c) (pre @ [c]))"
    by (rule length_filter_mono_set)
  also have "\<dots> = unat (count_u32 (\<lambda>candidate. handler_contains candidate c) (pre @ [c]))"
    using small split(1) by (subst unat_count_u32) auto
  also have "\<dots> \<le> unat (hd_handlers depth)"
    using count le by (auto simp: word_le_nat_alt intro: order_trans)
  finally show ?thesis using split by simp
qed simp

section \<open>Walks over verified bytecode\<close>

interpretation walk: stream_walk "\<lambda>(failed, body). walk_instructions failed body" "\<lambda>(failed, body). body"
  by unfold_locales (auto simp: walk_instructions.simps)

text \<open>On bytecode that decodes completely a walk is a fold of its body, and the failure branch is dead.\<close>

lemmas walk_stream = walk.walk_fold [where p = "(failed, body)" for failed body, simplified]

lemma fold_outcome_not_Panic:
  "(\<And>s x. x \<in> set xs \<Longrightarrow> f s x \<noteq> Panic) \<Longrightarrow> fold_outcome f xs s \<noteq> Panic"
  by (induction xs arbitrary: s) (auto simp: outcome_simps)

lemma fold_outcome_unit_Ok:
  "fold_outcome f xs () = Ok () \<longleftrightarrow> (\<forall>x \<in> set xs. f () x = Ok ())"
  by (induction xs) (auto simp: outcome_simps)

section \<open>Dynamic environments\<close>

definition environment_after :: "opcode \<Rightarrow> nat \<Rightarrow> nat" where
  "environment_after op k = (if enters_environment op then k + 1 else if leaves_environment op then k - 1 else k)"

text \<open>
  Control together with the number of dynamic environments on the frame's environment stack: an
  instruction that falls through pushes or pops, a plain jump leaves the stack alone, and an abrupt
  jump unwinds it to the depth in its second operand.
\<close>

inductive environment_control :: "u32 list \<Rightarrow> nat \<times> nat \<Rightarrow> nat \<times> nat \<Rightarrow> bool" for words where
  fallthrough: "decode_instruction words (word_of_nat pc) = Ok d \<Longrightarrow> \<not> is_terminal (instr_opcode d) \<Longrightarrow>
     environment_control words (pc, k) (pc + instr_word_len d, environment_after (instr_opcode d) k)"
| jump: "decode_instruction words (word_of_nat pc) = Ok d \<Longrightarrow> \<not> is_abrupt (instr_opcode d) \<Longrightarrow>
     jump_target (instr_opcode d) (instr_operands d) = Some target \<Longrightarrow>
     environment_control words (pc, k) (unat target, k)"
| abrupt: "decode_instruction words (word_of_nat pc) = Ok d \<Longrightarrow> is_abrupt (instr_opcode d) \<Longrightarrow>
     jump_target (instr_opcode d) (instr_operands d) = Some target \<Longrightarrow>
     environment_control words (pc, k) (unat target, unat (instr_operands d ! 1))"

inductive_cases environment_control_elim: "environment_control words (pc, k) s"

lemma environment_step_Ok:
  assumes "environment_step function (depth_at, slot_counts, depth) (offset, d) = Ok (depth_at', slot_counts', depth')"
  shows "depth_at' = depth_at[offset := Some depth]"
    "unat depth' = environment_after (instr_opcode d) (unat depth)"
    "leaves_environment (instr_opcode d) \<Longrightarrow> 0 < unat depth"
proof -
  have "unat (depth - 1) = unat depth - 1 \<and> 0 < unat depth" if "1 \<le> depth"
    using that by (simp add: unat_sub word_le_nat_alt)
  moreover have "\<not> enters_environment (instr_opcode d)" if "leaves_environment (instr_opcode d)"
    using that by (auto simp: enters_environment_def leaves_environment_def opcode_eq_iff)
  moreover have "\<not> initializes_environment (instr_opcode d)" if "leaves_environment (instr_opcode d)"
    using that by (auto simp: initializes_environment_def leaves_environment_def opcode_eq_iff)
  moreover have "\<not> leaves_environment (instr_opcode d) \<and> \<not> enters_environment (instr_opcode d)"
    if "initializes_environment (instr_opcode d)"
    using that by (auto simp: initializes_environment_def leaves_environment_def enters_environment_def opcode_eq_iff)
  ultimately show "depth_at' = depth_at[offset := Some depth]"
    "unat depth' = environment_after (instr_opcode d) (unat depth)"
    "leaves_environment (instr_opcode d) \<Longrightarrow> 0 < unat depth"
    using assms
    by (auto simp: environment_step_def Let_def outcome_simps checked_add_eq_Some checked_sub_eq_Some
        environment_after_def split: if_splits)
qed

lemma environment_fold_frame:
  "fold_outcome (environment_step function) is (depth_at, slot_counts, depth) = Ok (depth_at', slot_counts', depth') \<Longrightarrow>
     length depth_at' = length depth_at \<and> (\<forall>i. i \<notin> fst ` set is \<longrightarrow> depth_at' ! i = depth_at ! i)"
proof (induction "is" arbitrary: depth_at slot_counts depth)
  case (Cons x "is")
  obtain offset d where x: "x = (offset, d)" by (cases x)
  from Cons.prems obtain a b c where st: "environment_step function (depth_at, slot_counts, depth) (offset, d) = Ok (a, b, c)"
    and rest: "fold_outcome (environment_step function) is (a, b, c) = Ok (depth_at', slot_counts', depth')"
    by (auto simp: outcome_simps x)
  from Cons.IH [OF rest] environment_step_Ok(1) [OF st] x show ?case
    by (metis fst_conv image_insert insertCI length_list_update list.simps(15) nth_list_update_neq)
qed simp

text \<open>What the first pass records: a depth for every boundary, related to its successor's by the opcode.\<close>

definition depth_related :: "u32 option list \<Rightarrow> nat \<times> decoded_instruction \<Rightarrow> bool" where
  "depth_related E x \<longleftrightarrow> (case x of (pc, d) \<Rightarrow>
     \<exists>k k'. E ! pc = Some k \<and> E ! (pc + instr_word_len d) = Some k' \<and>
       unat k' = environment_after (instr_opcode d) (unat k) \<and> (leaves_environment (instr_opcode d) \<longrightarrow> 0 < unat k))"

lemma environment_pass:
  "stream words offset = Some is \<Longrightarrow> offset \<le> length words \<Longrightarrow> length words < 2 ^ 32 \<Longrightarrow>
   length depth_at = length words + 1 \<Longrightarrow>
   fold_outcome (environment_step function) is (depth_at, slot_counts, depth) = Ok (depth_at', slot_counts', depth') \<Longrightarrow>
   depth_at'[length words := Some depth'] ! offset = Some depth \<and>
   (\<forall>x \<in> set is. depth_related (depth_at'[length words := Some depth']) x)"
proof (induction words offset arbitrary: "is" depth_at slot_counts depth rule: stream.induct)
  case (1 words offset)
  show ?case
  proof (cases "offset < length words")
    case True
    with "1.prems" obtain d is' where d: "decode_instruction words (word_of_nat offset) = Ok d"
      and rest: "stream words (offset + instr_word_len d) = Some is'" and eq: "is = (offset, d) # is'"
      by (auto simp: stream.simps [of words offset] split: outcome.splits)
    from "1.prems"(5) eq obtain a b c where
      st: "environment_step function (depth_at, slot_counts, depth) (offset, d) = Ok (a, b, c)"
      and fold: "fold_outcome (environment_step function) is' (a, b, c) = Ok (depth_at', slot_counts', depth')"
      by (auto simp: outcome_simps)
    note a = environment_step_Ok(1) [OF st]
    have fits: "offset + instr_word_len d \<le> length words"
      using decode_instruction_bounds(3) [OF d] True "1.prems"(3) by (simp add: unat_u32_of_nat)
    from "1.IH" [OF True d rest fits "1.prems"(3) _ fold] a "1.prems"(4)
    have IH: "depth_at'[length words := Some depth'] ! (offset + instr_word_len d) = Some c"
      "\<forall>x \<in> set is'. depth_related (depth_at'[length words := Some depth']) x" by simp_all
    have "offset \<notin> fst ` set is'"
      using stream_elems [OF rest] decode_instruction_bounds(1) [OF d] by fastforce
    with environment_fold_frame [OF fold] a "1.prems"(4) True have "depth_at' ! offset = Some depth" by simp
    with True have here: "depth_at'[length words := Some depth'] ! offset = Some depth" by simp
    with IH environment_step_Ok(2,3) [OF st] have "depth_related (depth_at'[length words := Some depth']) (offset, d)"
      by (auto simp: depth_related_def)
    with here IH(2) eq show ?thesis by simp
  next
    case False
    with "1.prems" show ?thesis by (simp add: stream.simps [of words offset])
  qed
qed

text \<open>What the second pass checks on every jump.\<close>

lemma environment_edge_Ok:
  assumes "environment_edge_step function E () (pc, d) = Ok ()"
    and "jump_target (instr_opcode d) (instr_operands d) = Some target"
  obtains k k' where "E ! pc = Some k" "E ! unat target = Some k'"
    "is_abrupt (instr_opcode d) \<Longrightarrow> instr_operands d ! 1 = k' \<and> k' \<le> k"
    "\<not> is_abrupt (instr_opcode d) \<Longrightarrow> k' = k"
  using assms
  by (auto simp: environment_edge_step_def Let_def outcome_simps index_or_panic_def not_less)

text \<open>The depth table that an accepted function has.\<close>

lemma validate_class_environments_table:
  assumes "verify words ctx = Ok vb" "stream words 0 = Some is" "validate_class_environments function handlers vb = Ok ()"
  obtains E where "E ! 0 = Some 0" "\<forall>x \<in> set is. depth_related E x"
    "\<forall>x \<in> set is. environment_edge_step function E () x = Ok ()"
    "\<forall>h \<in> set handlers. E ! unat (handler_target h) = Some (handler_environment_depth h)"
    "E ! length words = Some 0"
proof -
  from assms(1,2) have small: "length words < 2 ^ 32" and words: "vb_words vb = words"
    by (auto elim!: verify_stream)
  let ?init = "(replicate (length words + 1) None, [], 0) :: environment_state"
  from assms(3) obtain depth_at slot_counts where
    pass: "walk_instructions (decode_invariant function) (environment_step function) words 0 ?init = Ok (depth_at, slot_counts, 0)"
    and edges: "walk_instructions (decode_invariant function)
      (environment_edge_step function (depth_at[length words := Some 0])) words 0 () = Ok ()"
    and handlers: "\<forall>h \<in> set handlers. environment_handler_check function (depth_at[length words := Some 0]) h = Ok ()"
    by (auto simp: validate_class_environments_def words Let_def outcome_simps)
  from pass have fold: "fold_outcome (environment_step function) is ?init = Ok (depth_at, slot_counts, 0)"
    by (simp add: walk_stream [OF assms(2)])
  from edges have "\<forall>x \<in> set is. environment_edge_step function (depth_at[length words := Some 0]) () x = Ok ()"
    by (simp add: walk_stream [OF assms(2)] fold_outcome_unit_Ok)
  moreover have "length depth_at = length words + 1"
    using environment_fold_frame [OF fold] by simp
  moreover from environment_pass [OF assms(2) _ small _ fold]
  have "depth_at[length words := Some 0] ! 0 = Some 0" "\<forall>x \<in> set is. depth_related (depth_at[length words := Some 0]) x"
    by simp_all
  ultimately show thesis
    using handlers by (intro that [of "depth_at[length words := Some 0]"])
      (auto simp: environment_handler_check_def outcome_simps index_or_panic_def)
qed

lemma environment_control_step: "environment_control words (pc, k) (pc', k') \<Longrightarrow> control_step words pc pc'"
  by (cases rule: environment_control.cases) (auto intro: control_step.intros)

lemma environment_control_depth:
  assumes "(pc, d) \<in> set is" "depth_related E (pc, d)" "environment_edge_step function E () (pc, d) = Ok ()"
    and "decode_instruction words (word_of_nat pc) = Ok d"
    and "map_option unat (E ! pc) = Some k" "environment_control words (pc, k) (pc', k')"
  shows "map_option unat (E ! pc') = Some k'"
  using assms(6)
proof (cases rule: environment_control.cases)
  case (fallthrough d')
  with assms show ?thesis by (auto simp: depth_related_def)
next
  case (jump d' target)
  with assms show ?thesis by (auto elim!: environment_edge_Ok)
next
  case (abrupt d' target)
  with assms show ?thesis by (auto elim!: environment_edge_Ok)
qed

lemma environment_depth_aux:
  assumes "verify words ctx = Ok vb" "stream words 0 = Some is"
    and "\<forall>x \<in> set is. depth_related E x" "\<forall>x \<in> set is. environment_edge_step function E () x = Ok ()"
    and "E ! 0 = Some 0" "(environment_control words)\<^sup>*\<^sup>* (0, 0) (pc, k)"
  shows "pc \<in> fst ` set is \<and> map_option unat (E ! pc) = Some k"
  using assms(6)
proof (induction rule: rtranclp_induct2)
  case refl
  from assms(1,2) have "is \<noteq> []" by (auto elim!: verify_stream)
  with assms(2) have "words \<noteq> []" by (auto simp: stream.simps [of words 0] split: if_splits)
  with stream_head [OF assms(2)] assms(5) show ?case by force
next
  case (step pc k pc' k')
  then obtain d where d: "(pc, d) \<in> set is" and k: "map_option unat (E ! pc) = Some k" by auto
  have dec: "decode_instruction words (word_of_nat pc) = Ok d" using stream_elems [OF assms(2) d] by blast
  have "pc' \<in> fst ` set is"
    using control_step_in_stream [OF assms(1,2) _ environment_control_step [OF step.hyps(2)]] d by force
  moreover have "map_option unat (E ! pc') = Some k'"
    by (rule environment_control_depth [OF d _ _ dec k step.hyps(2)]) (use assms(3,4) d in auto)
  ultimately show ?case by simp
qed

section \<open>Suspend points\<close>

lemma validate_suspend_table_Ok:
  "validate_suspend_table function index sps vb registers = Ok () \<Longrightarrow> i < length sps \<Longrightarrow>
   sp_id (sps ! i) = word_of_nat (index + i) \<and> index + i < 2 ^ 32 \<and>
   is_instruction_start vb (sp_instruction (sps ! i)) \<and> is_instruction_start vb (sp_resume_offset (sps ! i)) \<and>
   sp_destination (sps ! i) < registers \<and>
   (\<exists>d. decode_instruction (vb_words vb) (sp_instruction (sps ! i)) = Ok d \<and> is_suspend (instr_opcode d) \<and>
     instr_operands d ! 1 = sp_destination (sps ! i) \<and> instr_operands d ! 2 = sp_id (sps ! i) \<and>
     sp_resume_offset (sps ! i) = sp_instruction (sps ! i) + word_of_nat (instr_word_len d))"
proof (induction sps arbitrary: index i)
  case (Cons sp sps)
  from Cons.prems(1) obtain d where head: "sp_id sp = word_of_nat index" "index < 2 ^ 32"
    "is_instruction_start vb (sp_instruction sp)" "is_instruction_start vb (sp_resume_offset sp)"
    "sp_destination sp < registers" "decode_instruction (vb_words vb) (sp_instruction sp) = Ok d"
    "is_suspend (instr_opcode d)" "instr_operands d ! 1 = sp_destination sp" "instr_operands d ! 2 = sp_id sp"
    "sp_resume_offset sp = sp_instruction sp + word_of_nat (instr_word_len d)"
    and rest: "validate_suspend_table function (index + 1) sps vb registers = Ok ()"
    by (auto simp: outcome_simps u32_simps not_le split: outcome.splits)
  show ?case
  proof (cases i)
    case 0
    with head show ?thesis by auto
  next
    case (Suc j)
    with Cons.prems(2) have "j < length sps" by simp
    moreover have "(sp # sps) ! i = sps ! j" "index + 1 + j = index + i" using Suc by simp_all
    ultimately show ?thesis using Cons.IH [OF rest, of j] by metis
  qed
qed simp

lemma stream_length:
  assumes "stream words 0 = Some is"
  shows "length is \<le> length words"
proof -
  have "length is = card (fst ` set is)"
    using stream_sorted [OF assms] by (metis distinct_card length_map list.set_map strict_sorted_iff)
  also have "\<dots> \<le> card {..<length words}"
    by (rule card_mono) (use stream_elems [OF assms] in auto)
  finally show ?thesis by simp
qed

lemma suspend_fold:
  "fold_outcome (suspend_step function kind sps) is n = Ok m \<Longrightarrow>
   unat n + length (filter (\<lambda>x. instr_opcode (snd x) = Op_InitialYield) is) < 2 ^ 32 \<Longrightarrow>
   unat m = unat n + length (filter (\<lambda>x. instr_opcode (snd x) = Op_InitialYield) is) \<and>
   (\<forall>(pc, d) \<in> set is. is_suspend (instr_opcode d) \<longrightarrow> suspend_compatible (instr_opcode d) kind \<and>
      unat (instr_operands d ! 2) < length sps \<and> sp_id (sps ! unat (instr_operands d ! 2)) = instr_operands d ! 2)"
proof (induction "is" arbitrary: n)
  case (Cons x "is")
  obtain pc d where x: "x = (pc, d)" by (cases x)
  from Cons.prems(1) obtain n' where st: "suspend_step function kind sps n (pc, d) = Ok n'"
    and rest: "fold_outcome (suspend_step function kind sps) is n' = Ok m"
    by (auto simp: outcome_simps x)
  have "\<not> is_suspend Op_InitialYield" by (simp add: is_suspend_def opcode_eq_iff)
  with st Cons.prems(2) have "unat n' = unat n + (if instr_opcode d = Op_InitialYield then 1 else 0)"
    by (auto simp: suspend_step_def Let_def outcome_simps x saturating_add_def checked_add_def unat_word_ariths
        split: if_splits)
  moreover from st have "is_suspend (instr_opcode d) \<longrightarrow> suspend_compatible (instr_opcode d) kind \<and>
      unat (instr_operands d ! 2) < length sps \<and> sp_id (sps ! unat (instr_operands d ! 2)) = instr_operands d ! 2"
    by (auto simp: suspend_step_def Let_def outcome_simps)
  ultimately show ?case using Cons.IH [OF rest] Cons.prems(2) x by auto
qed simp

section \<open>The checks never panic on verified bytecode\<close>

lemma verify_class_operand:
  assumes "verify_instruction d offset starts ctx = Ok ()" "instr_opcode d \<in> {Op_CreateClass, Op_CreateBaseClass}"
  shows "instr_operands d ! 1 < ctx_function_count ctx"
  using assms
  by (auto simp: verify_instruction_def verify_indices_def Let_def outcome_simps not_le split: if_splits)

lemma validate_slot_names_not_Panic:
  "index + length slots \<le> 2 ^ 32 \<Longrightarrow> validate_slot_names function index slots \<noteq> Panic"
  by (induction slots arbitrary: index) (auto simp: outcome_simps u32_try_from_def)

lemma validate_suspend_table_not_Panic: "validate_suspend_table function index sps vb registers \<noteq> Panic"
  using decode_instruction_not_Panic
  by (induction sps arbitrary: index) (auto simp: outcome_simps split: outcome.splits)

lemma suspend_step_not_Panic: "suspend_step function kind sps n x \<noteq> Panic"
  by (auto simp: suspend_step_def Let_def outcome_simps split: prod.splits)

lemma environment_step_not_Panic: "environment_step function s x \<noteq> Panic"
  by (auto simp: environment_step_def Let_def outcome_simps split: prod.splits)

lemma finally_step_not_Panic: "finally_step function handlers n x \<noteq> Panic"
  by (auto simp: finally_step_def split: prod.splits)

lemma class_step_not_Panic:
  "instr_opcode d \<in> {Op_CreateClass, Op_CreateBaseClass} \<longrightarrow> unat (instr_operands d ! 1) < length function_kinds \<Longrightarrow>
   class_step function kind role function_kinds s (pc, d) \<noteq> Panic"
  by (auto simp: class_step_def Let_def outcome_simps index_or_panic_def)

lemma environment_edge_step_not_Panic:
  "pc < length E \<Longrightarrow> E ! pc \<noteq> None \<Longrightarrow>
   (\<And>target. jump_target (instr_opcode d) (instr_operands d) = Some target \<Longrightarrow> unat target < length E \<and> E ! unat target \<noteq> None) \<Longrightarrow>
   environment_edge_step function E s (pc, d) \<noteq> Panic"
  by (auto simp: environment_edge_step_def Let_def outcome_simps index_or_panic_def split: option.splits)

lemma validate_handlers_target:
  assumes "validate_handlers function handlers vb = Ok depth" "h \<in> set handlers"
  shows "is_instruction_start vb (handler_target h)"
proof -
  have "validate_handler_range function vb h = Ok ()"
    using assms by (auto elim: validate_handlers_nesting)
  then show ?thesis by (auto simp: validate_handler_range_def Let_def outcome_simps)
qed

lemma validate_class_environments_not_Panic:
  assumes v: "verify words ctx = Ok vb" and handlers: "\<And>h. h \<in> set handlers \<Longrightarrow> is_instruction_start vb (handler_target h)"
  shows "validate_class_environments function handlers vb \<noteq> Panic"
proof -
  from v obtain "is" where st: "stream words 0 = Some is" and small: "length words < 2 ^ 32" and words: "vb_words vb = words"
    and len: "length (vb_starts vb) = length words"
    and starts: "\<And>i. i < length words \<Longrightarrow> vb_starts vb ! i \<longleftrightarrow> i \<in> fst ` set is"
    and each: "\<And>pc d. (pc, d) \<in> set is \<Longrightarrow> verify_instruction d (word_of_nat pc) (vb_starts vb) ctx = Ok ()"
    by (rule verify_stream) blast
  let ?init = "(replicate (length words + 1) None, [], 0) :: environment_state"
  have edges: "fold_outcome (environment_edge_step function (depth_at[length words := Some depth])) is () \<noteq> Panic \<and>
      for_each (environment_handler_check function (depth_at[length words := Some depth])) handlers \<noteq> Panic"
    if fold: "fold_outcome (environment_step function) is ?init = Ok (depth_at, slot_counts, depth)"
    for depth_at slot_counts depth
  proof -
    let ?E = "depth_at[length words := Some depth]"
    have E: "pc < length ?E \<and> ?E ! pc \<noteq> None" if "pc \<in> fst ` set is" for pc
      using environment_pass [OF st _ small _ fold] environment_fold_frame [OF fold] stream_elems [OF st] that
      by (force simp: depth_related_def)
    have "environment_edge_step function ?E u x \<noteq> Panic" if "x \<in> set is" for u x
    proof (cases x)
      case (Pair pc d)
      with that have here: "(pc, d) \<in> set is" "pc \<in> fst ` set is" by force+
      have "unat target \<in> fst ` set is" if "jump_target (instr_opcode d) (instr_operands d) = Some target" for target
        using verify_instruction_jump [OF each [OF here(1)] that] len starts by metis
      with E here show ?thesis unfolding Pair by (intro environment_edge_step_not_Panic) blast+
    qed
    moreover have "environment_handler_check function ?E h \<noteq> Panic" if "h \<in> set handlers" for h
      using handlers [OF that] E [of "unat (handler_target h)"] verify_starts [OF v st]
      by (auto simp: environment_handler_check_def outcome_simps index_or_panic_def)
    ultimately show ?thesis by (intro conjI fold_outcome_not_Panic for_each_not_Panic)
  qed
  show ?thesis
    using edges fold_outcome_not_Panic [of "is" "environment_step function" ?init, OF environment_step_not_Panic]
    by (auto simp: validate_class_environments_def words Let_def walk_stream [OF st] outcome_simps)
qed

lemma validators_not_Panic:
  assumes v: "verify words ctx = Ok vb"
    and kinds: "length function_kinds < 2 ^ 32" "ctx_function_count ctx = word_of_nat (length function_kinds)"
    and slots: "length slots < 2 ^ 32"
  shows "validate_finally_instructions function handlers vb \<noteq> Panic \<and>
    validate_class_instructions function kind role vb function_kinds \<noteq> Panic \<and>
    validate_suspend_points function sps vb registers kind \<noteq> Panic \<and>
    validate_environment_slots function slots layout \<noteq> Panic \<and>
    (validate_handlers function handlers vb = Ok depth \<longrightarrow> validate_class_environments function handlers vb \<noteq> Panic)"
proof (intro conjI impI)
  from v obtain "is" where st: "stream words 0 = Some is" and words: "vb_words vb = words"
    and each: "\<And>pc d. (pc, d) \<in> set is \<Longrightarrow> verify_instruction d (word_of_nat pc) (vb_starts vb) ctx = Ok ()"
    by (rule verify_stream) blast
  note walk_stream [OF st, simp]
  show "validate_finally_instructions function handlers vb \<noteq> Panic"
    using fold_outcome_not_Panic [of "is" "finally_step function handlers", OF finally_step_not_Panic]
    by (simp add: validate_finally_instructions_def words outcome_simps)
  have "class_step function kind role function_kinds u x \<noteq> Panic" if "x \<in> set is" for u x
  proof (cases x)
    case (Pair pc d)
    have "unat (instr_operands d ! 1) < length function_kinds" if "instr_opcode d \<in> {Op_CreateClass, Op_CreateBaseClass}"
      using verify_class_operand [OF each that, of pc] \<open>x \<in> set is\<close> Pair kinds by (simp add: word_less_nat_alt unat_u32_of_nat)
    then show ?thesis unfolding Pair by (intro class_step_not_Panic) simp
  qed
  then show "validate_class_instructions function kind role vb function_kinds \<noteq> Panic"
    by (simp add: validate_class_instructions_def words fold_outcome_not_Panic)
  show "validate_suspend_points function sps vb registers kind \<noteq> Panic"
    using fold_outcome_not_Panic [of "is" "suspend_step function kind sps", OF suspend_step_not_Panic]
    by (simp add: validate_suspend_points_def validate_suspend_opcodes_def words outcome_simps
        validate_suspend_table_not_Panic)
  show "validate_environment_slots function slots layout \<noteq> Panic"
    using validate_slot_names_not_Panic [of 0 slots "function"] slots
    by (auto simp: validate_environment_slots_def Let_def outcome_simps split: option.splits)
  assume "validate_handlers function handlers vb = Ok depth"
  then show "validate_class_environments function handlers vb \<noteq> Panic"
    by (intro validate_class_environments_not_Panic [OF v] validate_handlers_target)
qed

section \<open>Properties\<close>


text \<open>C26. Handler tables: any two accepted handlers are nested or disjoint, and no program point is covered
  by more handlers than the frame layout reserves.\<close>

theorem handlers_nested_within_depth:
  assumes ok: "validate_handlers function handlers vb = Ok depth" and small: "length handlers < 2 ^ 32"
    and layout: "validate_function_layout function layout depth scope_names = Ok ()"
  shows "sorted_wrt (\<lambda>p c. handler_contains p c \<or> protected_end p \<le> protected_start c) handlers \<and>
    length (filter (\<lambda>h. in_range (protected_start h) (protected_end h) pc) handlers) \<le> unat (max_handler_depth layout)"
proof
  obtain depth' where n: "validate_handler_nesting [] \<lparr>hd_handlers = 0, hd_finally_handlers = 0\<rparr> function handlers = Ok depth'"
    using ok by (rule validate_handlers_nesting)
  have "handler_contains (handlers ! i) (handlers ! j) \<or> protected_end (handlers ! i) \<le> protected_start (handlers ! j)"
    if "i < j" "j < length handlers" for i j
  proof -
    have "handlers = take j handlers @ handlers ! j # drop (Suc j) handlers" using that by (simp add: id_take_nth_drop)
    with nesting_Ok [OF n] have "\<forall>p \<in> set (take j handlers). validate_handler_pair function (handlers ! j) p = Ok ()"
      by (metis append_Nil)
    moreover have "handlers ! i \<in> set (take j handlers)" using that by (auto simp: in_set_conv_nth)
    ultimately show ?thesis using handler_pair_nested not_less by blast
  qed
  then show "sorted_wrt (\<lambda>p c. handler_contains p c \<or> protected_end p \<le> protected_start c) handlers"
    by (simp add: sorted_wrt_iff_nth_less)
  have "hd_handlers depth \<le> max_handler_depth layout"
    using layout by (auto simp: validate_function_layout_def outcome_simps not_less)
  with handler_depth_covers_aux [OF ok small, of pc]
  show "length (filter (\<lambda>h. in_range (protected_start h) (protected_end h) pc) handlers) \<le> unat (max_handler_depth layout)"
    by (auto simp: word_le_nat_alt intro: order_trans)
qed


text \<open>C30. The metadata checks reject, they do not crash: on bytecode that passed verification against the
  module's function count, none of their unguarded indexing, \<open>expect\<close> or decode steps can panic.\<close>

theorem validators_never_panic:
  assumes "verify words ctx = Ok vb"
    and "length function_kinds < 2 ^ 32" "ctx_function_count ctx = word_of_nat (length function_kinds)"
    and "length slots < 2 ^ 32"
  shows "validate_finally_instructions function handlers vb \<noteq> Panic \<and>
    validate_class_instructions function kind role vb function_kinds \<noteq> Panic \<and>
    validate_suspend_points function sps vb registers kind \<noteq> Panic \<and>
    validate_environment_slots function slots layout \<noteq> Panic \<and>
    (validate_handlers function handlers vb = Ok depth \<longrightarrow> validate_class_environments function handlers vb \<noteq> Panic)"
  using assms by (rule validators_not_Panic)

text \<open>A source map or feedback table is accepted exactly when every entry is valid on its own (it points at
  an instruction boundary, and its span or slot is in bounds) and the offsets strictly increase.\<close>

theorem side_tables_accept_exactly:
  "(validate_source_map function entries vb source_len = Ok () \<longleftrightarrow>
     list_all (\<lambda>e. is_instruction_start vb (sm_offset e) \<and> span_start (sm_span e) \<le> span_end (sm_span e) \<and>
       span_end (sm_span e) \<le> source_len) entries \<and> sorted_wrt (<) (map sm_offset entries)) \<and>
   (validate_feedback_sites function sites vb slot_count = Ok () \<longleftrightarrow>
     list_all (\<lambda>s. is_instruction_start vb (fs_offset s) \<and> fs_slot s < slot_count) sites \<and>
     sorted_wrt (<) (map fs_offset sites))"
  unfolding validate_source_map_def validate_feedback_sites_def
  using source_maps.run_iff [of "(function, vb, source_len)" entries] feedback.run_iff [of "(function, vb, slot_count)" sites]
  by (auto simp: list_all_iff)

section \<open>Witnesses\<close>

text \<open>A generator that creates a lexical environment around a yield, under one catch handler.\<close>

definition demo_context :: verify_context where
  "demo_context = \<lparr>ctx_register_count = 2, ctx_constants = [], ctx_function_count = 1, ctx_scope_name_count = 0,
     ctx_max_environment_slot_count = 1\<rparr>"

definition demo_words :: "u32 list" where
  "demo_words = [0x1c7, 0x1cd, 1, 0, 18, 0x1cf, 46]"

definition demo_bytecode :: verified_bytecode where
  "demo_bytecode = \<lparr>vb_words = demo_words, vb_starts = [True, True, False, False, True, True, True]\<rparr>"

definition demo_handlers :: "handler_entry list" where
  "demo_handlers = [\<lparr>protected_start = 0, protected_end = 1, handler_target = 1, handler_end = 1,
     handler_kind = HK_Catch, handler_environment_depth = 0\<rparr>]"

lemmas decode_eval = decode_instruction_def decode_escape_def get_def header_opcode_def FORMAT_MASK_def OPCODE_MASK_def
  format_defs from_base_def from_extended_def fill_operands_def drop_bit_eq_div BASE_OPCODE_COUNT_def

lemmas verify_eval = verify_def verify_scan.simps verify_call_operands_def is_terminal_def verify_instruction_def verify_operands_def
  check_registers_def check_register_def verify_constant_def verify_indices_def scope_name_operand_def jump_target_def
  starts_at_def get_def opcode_eq_iff outcome_simps reject_if_def

lemma demo_decode:
  "decode_instruction demo_words 0 = Ok (decoded Op_InitialYield Wide [0, 0, 0] 1)"
  "decode_instruction demo_words 1 = Ok (decoded Op_EnterLexicalEnvironment Wide [1, 0, 0] 3)"
  "decode_instruction demo_words 4 = Ok (decoded Op_Yield Compact [0, 0, 0] 1)"
  "decode_instruction demo_words 5 = Ok (decoded Op_LeaveLexicalEnvironment Wide [0, 0, 0] 1)"
  "decode_instruction demo_words 6 = Ok (decoded Op_ReturnUndefined Compact [0, 0, 0] 1)"
  by (simp_all add: demo_words_def decode_eval)

lemma demo_length: "length demo_words = 7"
  by (simp add: demo_words_def)

lemma demo_stream:
  "stream demo_words 0 = Some [(0, decoded Op_InitialYield Wide [0, 0, 0] 1),
     (1, decoded Op_EnterLexicalEnvironment Wide [1, 0, 0] 3), (4, decoded Op_Yield Compact [0, 0, 0] 1),
     (5, decoded Op_LeaveLexicalEnvironment Wide [0, 0, 0] 1), (6, decoded Op_ReturnUndefined Compact [0, 0, 0] 1)]"
  by (simp add: stream.simps demo_decode demo_length)

lemma demo_verify: "verify demo_words demo_context = Ok demo_bytecode"
  by (simp add: demo_bytecode_def demo_context_def demo_decode demo_length verify_eval) (simp add: eval_nat_numeral)

lemma demo_starts: "is_instruction_start demo_bytecode n \<longleftrightarrow> n \<in> {0, 1, 4, 5, 6}"
proof -
  have "unat n \<in> {0, 1, 4, 5, 6} \<longleftrightarrow> n \<in> {0, 1, 4, 5, 6}"
    by (auto simp: word_unat_eq_iff)
  then show ?thesis by (simp add: verify_starts [OF demo_verify demo_stream])
qed

lemma demo_vb_words: "vb_words demo_bytecode = demo_words"
  by (simp add: demo_bytecode_def)

lemma demo_environments: "validate_class_environments 0 demo_handlers demo_bytecode = Ok ()"
  by (simp add: validate_class_environments_def demo_vb_words walk_stream [OF demo_stream] demo_length demo_handlers_def
      environment_step_def environment_edge_step_def environment_handler_check_def enters_environment_def
      initializes_environment_def leaves_environment_def jump_target_def index_or_panic_def get_def
      opcode_eq_iff checked_add_def checked_sub_def reject_if_def Let_def)

definition demo_suspend_points :: "suspend_point list" where
  "demo_suspend_points = [\<lparr>sp_id = 0, sp_instruction = 4, sp_resume_offset = 5, sp_destination = 0,
     sp_completion_depth = 0\<rparr>]"

lemma demo_suspends: "validate_suspend_points 0 demo_suspend_points demo_bytecode 2 FK_Generator = Ok ()"
  by (simp add: validate_suspend_points_def validate_suspend_opcodes_def demo_vb_words walk_stream [OF demo_stream]
      demo_suspend_points_def demo_starts demo_decode u32_try_from_def is_suspend_def suspend_step_def get_def
      suspend_compatible_def opcode_eq_iff saturating_add_def checked_add_def reject_if_def)

lemma demo_validate_handlers:
  "validate_handlers 0 demo_handlers demo_bytecode = Ok \<lparr>hd_handlers = 1, hd_finally_handlers = 0\<rparr>"
  by (simp add: validate_handlers_def demo_handlers_def validate_handler_range_def demo_starts demo_vb_words
      handler_contains_def count_u32_def combined_depth_def finalizer_executes_around_def saturating_add_def
      checked_add_def reject_if_def)



definition demo_layout :: function_layout where
  "demo_layout = \<lparr>register_count = 2, argument_count = 0, function_length = 0, name_scope = None,
     temporary_register_count = 2, feedback_slot_count = 0, environment_slot_count = 0, self_binding_slot = None,
     max_handler_depth = 1, max_completion_depth = 0, needs_argument_source = False, has_rest_parameter = False,
     simple_parameter_list = True\<rparr>"

theorem handlers_nested_within_depth_witness:
  "validate_handlers 0 demo_handlers demo_bytecode = Ok \<lparr>hd_handlers = 1, hd_finally_handlers = 0\<rparr> \<and>
   length (filter (\<lambda>h. in_range (protected_start h) (protected_end h) 0) demo_handlers) \<le> unat (max_handler_depth demo_layout)"
proof -
  have small: "length demo_handlers < 2 ^ 32" by (simp add: demo_handlers_def)
  have "validate_function_layout 0 demo_layout \<lparr>hd_handlers = 1, hd_finally_handlers = 0\<rparr> 0 = Ok ()"
    by (simp add: validate_function_layout_def demo_layout_def reject_if_def)
  from handlers_nested_within_depth [OF demo_validate_handlers small this] demo_validate_handlers show ?thesis by blast
qed


theorem validators_never_panic_witness:
  "verify demo_words demo_context = Ok demo_bytecode \<and>
   validate_class_environments 0 demo_handlers demo_bytecode \<noteq> Panic"
  using validators_never_panic [OF demo_verify, of "[FK_Generator]" "[]" 0 demo_handlers] demo_verify demo_validate_handlers
  by (auto simp: demo_context_def)

section \<open>A gap in the suspend check\<close>

text \<open>
  The comment on \<open>validate_suspend_opcodes\<close> says that every suspend opcode names metadata so that
  resume is deterministic. The check accepts a second suspending instruction that names the entry of
  the first: its destination and its resume offset are then not the ones in the table.
\<close>

definition shared_words :: "u32 list" where
  "shared_words = [0x1c7, 18, 0x10012, 46]"

lemma shared_suspend_id_accepted:
  "let vb = \<lparr>vb_words = shared_words, vb_starts = [True, True, True, True]\<rparr>;
       sps = [\<lparr>sp_id = 0, sp_instruction = 1, sp_resume_offset = 2, sp_destination = 0, sp_completion_depth = 0\<rparr>]
   in verify shared_words demo_context = Ok vb \<and>
      validate_suspend_points 0 sps vb 2 FK_Generator = Ok () \<and>
      decode_instruction shared_words 2 = Ok (decoded Op_Yield Compact [0, 1, 0] 1)"
proof -
  let ?vb = "\<lparr>vb_words = shared_words, vb_starts = [True, True, True, True]\<rparr>"
  have dec: "decode_instruction shared_words 0 = Ok (decoded Op_InitialYield Wide [0, 0, 0] 1)"
    "decode_instruction shared_words 1 = Ok (decoded Op_Yield Compact [0, 0, 0] 1)"
    "decode_instruction shared_words 2 = Ok (decoded Op_Yield Compact [0, 1, 0] 1)"
    "decode_instruction shared_words 3 = Ok (decoded Op_ReturnUndefined Compact [0, 0, 0] 1)"
    by (simp_all add: shared_words_def decode_eval)
  have len: "length shared_words = 4" by (simp add: shared_words_def)
  have st: "stream shared_words 0 = Some [(0, decoded Op_InitialYield Wide [0, 0, 0] 1),
      (1, decoded Op_Yield Compact [0, 0, 0] 1), (2, decoded Op_Yield Compact [0, 1, 0] 1),
      (3, decoded Op_ReturnUndefined Compact [0, 0, 0] 1)]"
    by (simp add: stream.simps dec len)
  have "verify shared_words demo_context = Ok ?vb"
    by (simp add: demo_context_def dec len verify_eval) (simp add: eval_nat_numeral)
  moreover have "validate_suspend_points 0 [\<lparr>sp_id = 0, sp_instruction = 1, sp_resume_offset = 2, sp_destination = 0,
      sp_completion_depth = 0\<rparr>] ?vb 2 FK_Generator = Ok ()"
    by (simp add: validate_suspend_points_def validate_suspend_opcodes_def walk_stream [OF st] is_instruction_start_def
        dec u32_try_from_def is_suspend_def suspend_step_def get_def suspend_compatible_def opcode_eq_iff
        saturating_add_def checked_add_def reject_if_def)
  ultimately show ?thesis using dec by simp
qed

end
