(* ===== verification/Bytecode_Builder.thy ===== *)
theory Bytecode_Builder
  imports Bytecode_Validate
begin

text \<open>
  The bytecode assembler of \<open>crates/tachyon-bytecode/src/builder.rs\<close>: instructions are appended in their
  smallest form, jumps to labels as full-width placeholders with a patch, and \<open>finish\<close> writes the
  label offsets into the placeholders. Every method takes \<open>&mut self\<close>, so a method of the model
  returns its outcome and the builder it leaves behind, also where it fails half way.

  The specification is a list of symbolic instructions: the finished words decode to exactly the
  instructions that were emitted, in order, with every label replaced by the offset it was bound to.
\<close>

section \<open>State\<close>

type_synonym label = u32

record jump_patch =
  jp_label :: label
  jp_operand_word :: word_offset

record bytecode_builder =
  bb_words :: "u32 list"
  bb_labels :: "word_offset option list"
  bb_patches :: "jump_patch list"
  bb_source_map :: "source_map_entry list"
  bb_register_count :: u32

datatype builder_error =
    BE_Encode encode_error
  | InvalidLabel label
  | LabelAlreadyBound label
  | UnboundLabel label
  | LabelCountOverflow
  | CodeSizeOverflow
  | RegisterCountOverflow

type_synonym 'a build = "bytecode_builder \<Rightarrow> (builder_error, 'a) outcome \<times> bytecode_builder"

definition build_return :: "'a \<Rightarrow> 'a build" where
  "build_return x b = (Ok x, b)"

definition build_lift :: "(builder_error, 'a) outcome \<Rightarrow> 'a build" where
  "build_lift r b = (r, b)"

definition build_bind :: "'a build \<Rightarrow> ('a \<Rightarrow> 'c build) \<Rightarrow> 'c build" where
  "build_bind m f b = (case m b of (r, b') \<Rightarrow>
     (case r of Ok x \<Rightarrow> f x b' | Err e \<Rightarrow> (Err e, b') | Panic \<Rightarrow> (Panic, b')))"

definition build_modify :: "(bytecode_builder \<Rightarrow> bytecode_builder) \<Rightarrow> unit build" where
  "build_modify f b = (Ok (), f b)"

section \<open>Methods\<close>

definition with_capacity :: bytecode_builder where
  "with_capacity = \<lparr>bb_words = [], bb_labels = [], bb_patches = [], bb_source_map = [], bb_register_count = 0\<rparr>"

definition next_word_offset :: "word_offset build" where
  "next_word_offset b = (ok_or CodeSizeOverflow (u32_try_from (length (bb_words b))), b)"

definition ensure_word_capacity :: "nat \<Rightarrow> unit build" where
  "ensure_word_capacity additional b =
     (and_then (ok_or CodeSizeOverflow (u32_try_from (length (bb_words b) + additional))) (\<lambda>_. Ok ()), b)"

definition ensure_label :: "label \<Rightarrow> unit build" where
  "ensure_label l b = ((if get (bb_labels b) (unat l) \<noteq> None then Ok () else Err (InvalidLabel l)), b)"

definition new_label :: "label build" where
  "new_label =
     build_bind (\<lambda>b. (ok_or LabelCountOverflow (u32_try_from (length (bb_labels b))), b)) (\<lambda>l.
     build_bind (build_modify (\<lambda>b. b\<lparr>bb_labels := bb_labels b @ [None]\<rparr>)) (\<lambda>_. build_return l))"

definition bind_label :: "label \<Rightarrow> unit build" where
  "bind_label l =
     build_bind next_word_offset (\<lambda>offset b.
       case get (bb_labels b) (unat l) of
         None \<Rightarrow> (Err (InvalidLabel l), b)
       | Some (Some _) \<Rightarrow> (Err (LabelAlreadyBound l), b)
       | Some None \<Rightarrow> (Ok (), b\<lparr>bb_labels := (bb_labels b)[unat l := Some offset]\<rparr>))"

definition current_offset :: "word_offset build" where
  "current_offset = next_word_offset"

definition note_register :: "u32 \<Rightarrow> unit build" where
  "note_register register =
     build_bind (build_lift (ok_or RegisterCountOverflow (checked_add register 1))) (\<lambda>count.
       build_modify (\<lambda>b. b\<lparr>bb_register_count := max (bb_register_count b) count\<rparr>))"

fun note_indexes :: "nat list \<Rightarrow> u32 list \<Rightarrow> unit build" where
  "note_indexes [] operands = build_return ()"
| "note_indexes (i # is) operands =
     build_bind (case get operands i of Some register \<Rightarrow> note_register register | None \<Rightarrow> build_return ())
       (\<lambda>_. note_indexes is operands)"

text \<open>The arms of \<open>note_registers\<close> that only select operand indexes.\<close>

definition noted_indexes :: "opcode \<Rightarrow> nat list option" where
  "noted_indexes op =
     (if op \<in> {Op_Nop, Op_InitialYield, Op_Jump, Op_EnterFinally, Op_ResumeCompletion,
       Op_BreakThroughFinally, Op_ContinueThroughFinally, Op_ReturnUndefined, Op_DeclareScope,
       Op_DeclareGlobalLexical, Op_LeaveClassEnvironment, Op_LeaveLexicalEnvironment}
      then Some []
      else if op \<in> {Op_EnterClassEnvironment, Op_EnterLexicalEnvironment} then Some []
      else if op \<in> {Op_LoadUndefined, Op_LoadNull, Op_LoadFalse, Op_LoadTrue, Op_LoadImmediate,
       Op_LoadConstant, Op_LoadTemplateObject, Op_LoadScope, Op_CreateClosure, Op_CreateBaseClass,
       Op_StoreScope, Op_StoreResolvedScope, Op_InitializeGlobalLexical,
       Op_InitializeClassEnvironment, Op_InitializeLexicalEnvironment, Op_CreatePrivateName,
       Op_LoadIteratorSymbol, Op_LoadAsyncIteratorSymbol, Op_CheckObject, Op_Return, Op_Throw}
      then Some [0]
      else if op = Op_CreateAsyncFromSyncIterator then Some [0, 1, 2]
      else if op \<in> {Op_CreateObject, Op_CreateArray, Op_LoadException, Op_LoadThis, Op_LoadNewTarget,
       Op_LoadArgumentsLength, Op_LoadArgumentsObject, Op_InitializeThis,
       Op_SuperConstructForwardAll, Op_CheckConstructor, Op_LoadSuperBase,
       Op_InitializeInstanceElements}
      then Some [0]
      else if op \<in> {Op_Move, Op_Not, Op_Negate, Op_Typeof, Op_ToNumber, Op_ToString, Op_BitwiseNot,
       Op_TypeofScope, Op_CreateForInIterator, Op_ForInNext, Op_CreateExclusionList,
       Op_ExcludePropertyKey, Op_CollectRestArguments}
      then Some [0, 1]
      else if op = Op_Update then Some [0, 1]
      else if op \<in> {Op_JumpIfFalse, Op_JumpIfTrue, Op_JumpIfNotNullish} then Some [0]
      else if op \<in> {Op_Add, Op_Sub, Op_Mul, Op_Div, Op_StrictEqual, Op_LessThan, Op_BitwiseAnd, Op_BitwiseOr,
       Op_BitwiseXor, Op_ShiftLeft, Op_ShiftRight, Op_ShiftRightUnsigned, Op_Remainder,
       Op_Exponentiate, Op_GreaterThan, Op_LessEqual, Op_GreaterEqual, Op_LooseEqual,
       Op_LooseNotEqual, Op_HasProperty, Op_DeleteById, Op_DeleteByValue, Op_InstanceOf,
       Op_GetByValue, Op_SetByValue, Op_ToPropertyKey, Op_ToPropertyKeyForIn, Op_DefineGetterById,
       Op_DefineSetterById, Op_DefineGetterByValue, Op_DefineSetterByValue, Op_CopyDataProperties,
       Op_GetPrivate, Op_SetPrivate, Op_CreateAccessorPair, Op_DefinePrivateField,
       Op_DefinePrivateMethod, Op_DefinePrivateAccessor, Op_HasPrivate}
      then Some [0, 1, 2]
      else if op = Op_DynamicImport then Some [0, 1, 2]
      else if op = Op_SetAccessorFunctionName then Some [0, 1]
      else if op = Op_SetFunctionName then Some [0]
      else if op \<in> {Op_LoadEnvironment, Op_StoreEnvironment, Op_InitializeEnvironment} then Some [0]
      else if op \<in> {Op_GetById, Op_SetById} then Some [0, 1]
      else if op \<in> {Op_DefineClassMethodById, Op_DefineClassGetterById, Op_DefineClassSetterById} then Some [0, 1]
      else if op = Op_SetFunctionNameByValue then Some [0, 1]
      else if op \<in> {Op_DefineClassMethodByValue, Op_DefineClassGetterByValue, Op_DefineClassSetterByValue,
       Op_DefineFieldByValue}
      then Some [0, 1, 2]
      else if op = Op_SetFunctionHomeObject then Some [0, 1]
      else if op = Op_SetObjectLiteralPrototype then Some [0, 1]
      else if op \<in> {Op_DefineFieldById, Op_CreateDataPropertyById} then Some [0, 1]
      else if op = Op_CreateDataPropertyByValue then Some [0, 1, 2]
      else if op = Op_GetSuperById then Some [0]
      else if op = Op_GetSuperByValue then Some [0, 1, 2]
      else if op = Op_CreateClass then Some [0, 2]
      else if op \<in> {Op_CallSpread, Op_TailCallSpread, Op_CallSpreadWithReceiver, Op_TailCallSpreadWithReceiver,
       Op_DirectEvalSpread, Op_ConstructSpread}
      then Some [0, 1, 2]
      else if op = Op_SuperConstructSpread then Some [0, 1]
      else if op \<in> {Op_Await, Op_Yield} then Some [0, 1]
      else None)"

text \<open>The arms that note a computed register as well.\<close>

definition note_call_registers :: "opcode \<Rightarrow> u32 list \<Rightarrow> unit build" where
  "note_call_registers op operands =
     (if op \<in> {Op_Call, Op_TailCall, Op_DirectEval, Op_Construct, Op_SuperConstruct}
      then build_bind (note_indexes [0, 1] operands) (\<lambda>_.
           build_bind (build_lift (index_or_panic operands 1)) (\<lambda>callee.
           build_bind (build_lift (index_or_panic operands 2)) (\<lambda>argument_count.
           if argument_count \<noteq> 0
           then build_bind (build_lift (ok_or RegisterCountOverflow (checked_add callee argument_count))) note_register
           else build_return ())))
      else if op = Op_AttachInstanceFields
      then build_bind (build_bind (build_lift (index_or_panic operands 0)) note_register) (\<lambda>_.
           build_bind (build_lift (index_or_panic operands 2)) (\<lambda>count.
           if count \<noteq> 0
           then build_bind (build_lift (index_or_panic operands 1)) (\<lambda>first.
                build_bind (build_lift (ok_or RegisterCountOverflow (checked_mul count 4))) (\<lambda>size.
                build_bind (build_lift (ok_or RegisterCountOverflow
                  (Option.bind (checked_add first size) (\<lambda>end. checked_sub end 1)))) note_register))
           else build_return ()))
      else if op \<in> {Op_CallWithReceiver, Op_TailCallWithReceiver}
      then build_bind (note_indexes [0, 1] operands) (\<lambda>_.
           build_bind (build_lift (index_or_panic operands 1)) (\<lambda>receiver.
           build_bind (build_lift (index_or_panic operands 2)) (\<lambda>argument_count.
           build_bind (build_lift (ok_or RegisterCountOverflow
             (Option.bind (checked_add receiver 1) (\<lambda>callee. checked_add callee argument_count)))) note_register)))
      else if op = Op_YieldWithKind
      then build_bind (note_indexes [0, 1] operands) (\<lambda>_.
           build_bind (build_lift (index_or_panic operands 1)) (\<lambda>destination.
           build_bind (build_lift (ok_or RegisterCountOverflow (checked_add destination 1))) note_register))
      else build_lift Panic)"

definition note_registers :: "opcode \<Rightarrow> u32 list \<Rightarrow> unit build" where
  "note_registers op operands =
     (case noted_indexes op of
        Some indexes \<Rightarrow> note_indexes indexes operands
      | None \<Rightarrow> note_call_registers op operands)"

definition emit :: "opcode \<Rightarrow> u32 list \<Rightarrow> source_span \<Rightarrow> word_offset build" where
  "emit op operands span =
     build_bind (build_lift (map_err BE_Encode (encode_instruction op operands))) (\<lambda>words.
     build_bind (ensure_word_capacity (length words)) (\<lambda>_.
     build_bind (note_registers op operands) (\<lambda>_.
     build_bind next_word_offset (\<lambda>offset.
     build_bind (build_modify (\<lambda>b. b\<lparr>bb_words := bb_words b @ words,
         bb_source_map := bb_source_map b @ [\<lparr>sm_offset = offset, sm_span = span\<rparr>]\<rparr>)) (\<lambda>_.
     build_return offset)))))"

text \<open>
  The common tail of the three jump emitters: the words of the placeholder, the patch of the word
  \<open>delta\<close> words after the header, and the source map entry.
\<close>

definition push_jump :: "u32 list \<Rightarrow> label \<Rightarrow> u32 \<Rightarrow> source_span \<Rightarrow> word_offset build" where
  "push_jump words l delta span =
     build_bind next_word_offset (\<lambda>offset.
     build_bind (build_modify (\<lambda>b. b\<lparr>bb_words := bb_words b @ words,
         bb_patches := bb_patches b @ [\<lparr>jp_label = l, jp_operand_word = offset + delta\<rparr>],
         bb_source_map := bb_source_map b @ [\<lparr>sm_offset = offset, sm_span = span\<rparr>]\<rparr>)) (\<lambda>_.
     build_return offset))"

definition emit_jump :: "label \<Rightarrow> source_span \<Rightarrow> word_offset build" where
  "emit_jump l span =
     build_bind (ensure_label l) (\<lambda>_.
     build_bind (ensure_word_capacity 2) (\<lambda>_.
     push_jump [ucast (opcode_u8 Op_Jump OR WIDE_FORMAT), 0] l 1 span))"

definition emit_abrupt_jump :: "opcode \<Rightarrow> label \<Rightarrow> u32 \<Rightarrow> source_span \<Rightarrow> word_offset build" where
  "emit_abrupt_jump op l environment_depth span =
     build_bind (ensure_label l) (\<lambda>_.
     build_bind (ensure_word_capacity 3) (\<lambda>_.
     push_jump [ucast (opcode_u8 op OR WIDE_FORMAT), 0, environment_depth] l 1 span))"

definition emit_conditional_jump :: "opcode \<Rightarrow> register_id \<Rightarrow> label \<Rightarrow> source_span \<Rightarrow> word_offset build" where
  "emit_conditional_jump op condition l span =
     build_bind (ensure_label l) (\<lambda>_.
     build_bind (note_register condition) (\<lambda>_.
     build_bind (ensure_word_capacity 3) (\<lambda>_.
     push_jump [ucast (opcode_u8 op OR WIDE_FORMAT), condition, 0] l 2 span)))"

definition emit_jump_if_false :: "register_id \<Rightarrow> label \<Rightarrow> source_span \<Rightarrow> word_offset build" where
  "emit_jump_if_false = emit_conditional_jump Op_JumpIfFalse"

definition emit_jump_if_true :: "register_id \<Rightarrow> label \<Rightarrow> source_span \<Rightarrow> word_offset build" where
  "emit_jump_if_true = emit_conditional_jump Op_JumpIfTrue"

definition emit_jump_if_not_nullish :: "register_id \<Rightarrow> label \<Rightarrow> source_span \<Rightarrow> word_offset build" where
  "emit_jump_if_not_nullish = emit_conditional_jump Op_JumpIfNotNullish"

fun apply_patches :: "word_offset option list \<Rightarrow> jump_patch list \<Rightarrow> u32 list \<Rightarrow> (builder_error, u32 list) outcome" where
  "apply_patches labels [] words = Ok words"
| "apply_patches labels (p # ps) words =
     (case get labels (unat (jp_label p)) of
        None \<Rightarrow> Err (InvalidLabel (jp_label p))
      | Some None \<Rightarrow> Err (UnboundLabel (jp_label p))
      | Some (Some target) \<Rightarrow>
          if unat (jp_operand_word p) < length words
          then apply_patches labels ps (words[unat (jp_operand_word p) := target])
          else Panic)"

definition finish :: "bytecode_builder \<Rightarrow> (builder_error, u32 list \<times> source_map_entry list \<times> u32) outcome" where
  "finish b = and_then (apply_patches (bb_labels b) (bb_patches b) (bb_words b)) (\<lambda>words.
     Ok (words, bb_source_map b, bb_register_count b))"

section \<open>Specification: symbolic instructions\<close>

datatype build_command =
    New_Label
  | Bind_Label label
  | Emit opcode "u32 list" source_span
  | Emit_Jump label source_span
  | Emit_Abrupt_Jump opcode label u32 source_span
  | Emit_Jump_If_False register_id label source_span
  | Emit_Jump_If_True register_id label source_span
  | Emit_Jump_If_Not_Nullish register_id label source_span

fun run_command :: "build_command \<Rightarrow> unit build" where
  "run_command New_Label = build_bind new_label (\<lambda>_. build_return ())"
| "run_command (Bind_Label l) = bind_label l"
| "run_command (Emit op operands span) = build_bind (emit op operands span) (\<lambda>_. build_return ())"
| "run_command (Emit_Jump l span) = build_bind (emit_jump l span) (\<lambda>_. build_return ())"
| "run_command (Emit_Abrupt_Jump op l depth span) = build_bind (emit_abrupt_jump op l depth span) (\<lambda>_. build_return ())"
| "run_command (Emit_Jump_If_False c l span) = build_bind (emit_jump_if_false c l span) (\<lambda>_. build_return ())"
| "run_command (Emit_Jump_If_True c l span) = build_bind (emit_jump_if_true c l span) (\<lambda>_. build_return ())"
| "run_command (Emit_Jump_If_Not_Nullish c l span) =
     build_bind (emit_jump_if_not_nullish c l span) (\<lambda>_. build_return ())"

fun run_commands :: "build_command list \<Rightarrow> unit build" where
  "run_commands [] = build_return ()"
| "run_commands (c # cs) = build_bind (run_command c) (\<lambda>_. run_commands cs)"

text \<open>An emitted instruction, with the label it jumps to still symbolic: operands before and after the target.\<close>

datatype symbolic = Plain opcode "u32 list" | Branch opcode "u32 list" label "u32 list"

fun command_symbols :: "build_command \<Rightarrow> symbolic list" where
  "command_symbols (Emit op operands span) = [Plain op operands]"
| "command_symbols (Emit_Jump l span) = [Branch Op_Jump [] l []]"
| "command_symbols (Emit_Abrupt_Jump op l depth span) = [Branch op [] l [depth]]"
| "command_symbols (Emit_Jump_If_False c l span) = [Branch Op_JumpIfFalse [c] l []]"
| "command_symbols (Emit_Jump_If_True c l span) = [Branch Op_JumpIfTrue [c] l []]"
| "command_symbols (Emit_Jump_If_Not_Nullish c l span) = [Branch Op_JumpIfNotNullish [c] l []]"
| "command_symbols _ = []"

text \<open>The opcode of an abrupt jump is only asserted in debug builds.\<close>

fun command_valid :: "build_command \<Rightarrow> bool" where
  "command_valid (Emit_Abrupt_Jump op l depth span) \<longleftrightarrow> is_abrupt op"
| "command_valid _ \<longleftrightarrow> True"

fun resolve :: "(label \<Rightarrow> u32) \<Rightarrow> symbolic \<Rightarrow> opcode \<times> u32 list" where
  "resolve t (Plain op operands) = (op, pad_operands operands)"
| "resolve t (Branch op before l after) = (op, pad_operands (before @ [t l] @ after))"

definition label_target :: "bytecode_builder \<Rightarrow> label \<Rightarrow> u32" where
  "label_target b l = (case get (bb_labels b) (unat l) of Some (Some target) \<Rightarrow> target | _ \<Rightarrow> 0)"

section \<open>Representation of symbolic instructions by words\<close>

fun symbol_words :: "(label \<Rightarrow> u32) \<Rightarrow> symbolic \<Rightarrow> u32 list" where
  "symbol_words t (Plain op operands) = (case encode_instruction op operands of Ok ws \<Rightarrow> ws | _ \<Rightarrow> [])"
| "symbol_words t (Branch op before l after) = ucast (opcode_u8 op OR WIDE_FORMAT) # before @ [t l] @ after"

fun symbol_valid :: "symbolic \<Rightarrow> bool" where
  "symbol_valid (Plain op operands) \<longleftrightarrow> length operands = operand_count op"
| "symbol_valid (Branch op before l after) \<longleftrightarrow> length before + 1 + length after = operand_count op \<and>
     (opcode_index op < 64 \<or> is_abrupt op)"

abbreviation code :: "(label \<Rightarrow> u32) \<Rightarrow> symbolic list \<Rightarrow> u32 list" where
  "code t syms \<equiv> concat (map (symbol_words t) syms)"

abbreviation placeholder :: "label \<Rightarrow> u32" where
  "placeholder \<equiv> \<lambda>_. 0"

fun symbol_offsets :: "nat \<Rightarrow> symbolic list \<Rightarrow> nat list" where
  "symbol_offsets k [] = []"
| "symbol_offsets k (s # syms) = k # symbol_offsets (k + length (symbol_words placeholder s)) syms"

fun symbol_patches :: "nat \<Rightarrow> symbolic list \<Rightarrow> jump_patch list" where
  "symbol_patches k [] = []"
| "symbol_patches k (Plain op operands # syms) =
     symbol_patches (k + length (symbol_words placeholder (Plain op operands))) syms"
| "symbol_patches k (Branch op before l after # syms) =
     \<lparr>jp_label = l, jp_operand_word = word_of_nat (k + 1 + length before)\<rparr> #
     symbol_patches (k + length (symbol_words placeholder (Branch op before l after))) syms"

definition builder_inv :: "symbolic list \<Rightarrow> bytecode_builder \<Rightarrow> bool" where
  "builder_inv syms b \<longleftrightarrow>
     bb_words b = code placeholder syms \<and> length (bb_words b) < 2 ^ 32 \<and> list_all symbol_valid syms \<and>
     map (unat \<circ> sm_offset) (bb_source_map b) = symbol_offsets 0 syms \<and>
     bb_patches b = symbol_patches 0 syms \<and>
     (\<forall>offset. Some offset \<in> set (bb_labels b) \<longrightarrow>
        unat offset \<in> insert (length (bb_words b)) (set (symbol_offsets 0 syms))) \<and>
     (\<forall>p \<in> set (bb_patches b). unat (jp_label p) < length (bb_labels b))"

lemma length_symbol_words: "length (symbol_words t s) = length (symbol_words placeholder s)"
  by (cases s) auto

lemma length_code: "length (code t syms) = length (code placeholder syms)"
  by (induction syms) (auto simp: length_symbol_words [of t])

lemma symbol_offsets_append:
  "symbol_offsets k (syms @ syms') = symbol_offsets k syms @ symbol_offsets (k + length (code placeholder syms)) syms'"
  by (induction syms arbitrary: k) (auto simp: add.assoc)

lemma symbol_patches_append:
  "symbol_patches k (syms @ syms') = symbol_patches k syms @ symbol_patches (k + length (code placeholder syms)) syms'"
  by (induction k syms rule: symbol_patches.induct) (auto simp: add.assoc)

lemma abrupt_header:
  assumes "is_abrupt op"
  shows "encode_extended op operands = ucast (opcode_u8 op OR WIDE_FORMAT) # operands" "64 \<le> opcode_index op"
  using assms
  by (auto simp: is_abrupt_def encode_extended_def opcode_u8_def WIDE_FORMAT_def ESCAPE_FORMAT_def
      BASE_OPCODE_COUNT_def Let_def)

lemma decode_symbol:
  assumes "symbol_valid s" "length pre < 2 ^ 32"
  shows "\<exists>d. decode_instruction (pre @ symbol_words t s @ suf) (word_of_nat (length pre)) = Ok d \<and>
    (instr_opcode d, instr_operands d) = resolve t s \<and> instr_word_len d = length (symbol_words t s)"
proof (cases s)
  case (Plain op operands)
  with assms(1) obtain ws where "encode_instruction op operands = Ok ws"
    by (cases "BASE_OPCODE_COUNT \<le> opcode_index op") (auto simp: encode_instruction_def)
  with Plain decode_encode_aux [OF this assms(2)] show ?thesis by force
next
  case (Branch op before l after)
  let ?os = "before @ [t l] @ after"
  have len: "length ?os = operand_count op" using assms(1) Branch by simp
  from assms(1) Branch consider "opcode_index op < 64" | "is_abrupt op" by auto
  then show ?thesis
  proof cases
    case 1
    with decode_encode_wide [OF 1 len assms(2), of suf] Branch show ?thesis by force
  next
    case 2
    with decode_encode_extended [OF abrupt_header(2) [OF 2] len assms(2), of suf] Branch abrupt_header(1) [OF 2, of ?os]
    show ?thesis by force
  qed
qed

lemma stream_code:
  "list_all symbol_valid syms \<Longrightarrow> length (pre @ code t syms) < 2 ^ 32 \<Longrightarrow>
   \<exists>is. stream (pre @ code t syms) (length pre) = Some is \<and> map fst is = symbol_offsets (length pre) syms \<and>
     map (\<lambda>(pc, d). (instr_opcode d, instr_operands d)) is = map (resolve t) syms"
proof (induction syms arbitrary: pre)
  case Nil
  then show ?case by (simp add: stream.simps)
next
  case (Cons s syms)
  have small: "length pre < 2 ^ 32" using Cons.prems by simp
  from Cons.prems decode_symbol [of s pre t "code t syms"] small obtain d where
    d: "decode_instruction (pre @ code t (s # syms)) (word_of_nat (length pre)) = Ok d"
      "(instr_opcode d, instr_operands d) = resolve t s" "instr_word_len d = length (symbol_words t s)"
    by auto
  from Cons.IH [of "pre @ symbol_words t s"] Cons.prems obtain "is" where
    "stream (pre @ code t (s # syms)) (length pre + length (symbol_words t s)) = Some is"
    "map fst is = symbol_offsets (length pre + length (symbol_words t s)) syms"
    "map (\<lambda>(pc, d). (instr_opcode d, instr_operands d)) is = map (resolve t) syms"
    by auto
  moreover have "0 < length (symbol_words t s)" using d(3) decode_instruction_bounds(1) [OF d(1)] by linarith
  ultimately show ?case
    using d by (subst stream.simps) (auto simp: length_symbol_words [of t])
qed

section \<open>The invariant is preserved\<close>

lemma build_bind_Ok [outcome_simps]:
  "build_bind m f b = (Ok y, b') \<longleftrightarrow> (\<exists>x b1. m b = (Ok x, b1) \<and> f x b1 = (Ok y, b'))"
  by (auto simp: build_bind_def split: prod.splits outcome.splits)

text \<open>Noting registers changes nothing but the register count, and only upwards.\<close>

definition registers_only :: "'a build \<Rightarrow> bool" where
  "registers_only m \<longleftrightarrow> (\<forall>b. \<exists>n \<ge> bb_register_count b. snd (m b) = b\<lparr>bb_register_count := n\<rparr>)"

lemma registers_only_bind:
  assumes "registers_only m" "\<And>x. registers_only (f x)"
  shows "registers_only (build_bind m f)"
  unfolding registers_only_def
proof
  fix b
  obtain r b1 where m: "m b = (r, b1)" by (cases "m b")
  with assms(1) obtain n where n: "bb_register_count b \<le> n" "b1 = b\<lparr>bb_register_count := n\<rparr>"
    by (metis registers_only_def snd_conv)
  show "\<exists>n \<ge> bb_register_count b. snd (build_bind m f b) = b\<lparr>bb_register_count := n\<rparr>"
  proof (cases r)
    case (Ok x)
    from assms(2) [of x] obtain k where "bb_register_count b1 \<le> k" "snd (f x b1) = b1\<lparr>bb_register_count := k\<rparr>"
      unfolding registers_only_def by blast
    with m n Ok show ?thesis by (intro exI [of _ k]) (auto simp: build_bind_def)
  qed (use m n in \<open>auto simp: build_bind_def\<close>)
qed

lemma registers_only_basic:
  "registers_only (build_return x)" "registers_only (build_lift r)" "registers_only (note_register register)"
proof -
  show basic: "registers_only (build_return x)" "registers_only (build_lift r')" for x :: 'x and r' :: "(builder_error, 'y) outcome"
    by (auto simp: registers_only_def build_return_def build_lift_def intro: exI [of _ "bb_register_count _"])
  have "registers_only (build_modify (\<lambda>b. b\<lparr>bb_register_count := max (bb_register_count b) count\<rparr>))" for count
    unfolding registers_only_def build_modify_def by (metis max.cobounded1 snd_conv)
  then show "registers_only (note_register register)"
    unfolding note_register_def by (intro registers_only_bind basic)
qed

lemma registers_only_if: "registers_only m \<Longrightarrow> registers_only m' \<Longrightarrow> registers_only (if c then m else m')"
  by simp

lemma registers_only_note_indexes: "registers_only (note_indexes is operands)"
  by (induction "is") (auto intro!: registers_only_bind registers_only_basic split: option.splits)

lemma registers_only_note_registers: "registers_only (note_registers op operands)"
proof -
  have "registers_only (note_call_registers op operands)"
    unfolding note_call_registers_def
    by (intro registers_only_if registers_only_bind registers_only_basic registers_only_note_indexes)
  then show ?thesis
    by (cases "noted_indexes op") (simp_all add: note_registers_def registers_only_note_indexes)
qed

lemma registers_only_Ok:
  "registers_only m \<Longrightarrow> m b = (r, b') \<Longrightarrow> bb_register_count b \<le> bb_register_count b' \<and>
     bb_words b' = bb_words b \<and> bb_labels b' = bb_labels b \<and> bb_patches b' = bb_patches b \<and>
     bb_source_map b' = bb_source_map b"
  unfolding registers_only_def by (metis bytecode_builder.select_convs bytecode_builder.surjective
      bytecode_builder.update_convs(5) snd_conv)

lemma builder_inv_registers:
  "registers_only m \<Longrightarrow> m b = (r, b') \<Longrightarrow> builder_inv syms b \<Longrightarrow> builder_inv syms b'"
  using registers_only_Ok [of m b r b'] unfolding builder_inv_def by metis

text \<open>Appending the words, the source map entry and the patches of one symbolic instruction.\<close>

lemma builder_inv_append:
  assumes "builder_inv syms b" "symbol_valid s" "words = symbol_words placeholder s"
    and "length (bb_words b) + length words < 2 ^ 32" "0 < length words"
    and "\<forall>p \<in> set (symbol_patches (length (bb_words b)) [s]). unat (jp_label p) < length (bb_labels b)"
  shows "builder_inv (syms @ [s]) (b\<lparr>bb_words := bb_words b @ words,
      bb_patches := bb_patches b @ symbol_patches (length (bb_words b)) [s],
      bb_source_map := bb_source_map b @ [\<lparr>sm_offset = word_of_nat (length (bb_words b)), sm_span = span\<rparr>]\<rparr>)"
  using assms
  by (auto simp: builder_inv_def symbol_offsets_append symbol_patches_append unat_u32_of_nat)

lemma next_word_offset_Ok [outcome_simps]:
  "next_word_offset b = (Ok offset, b') \<longleftrightarrow> b' = b \<and> length (bb_words b) < 2 ^ 32 \<and> offset = word_of_nat (length (bb_words b))"
  by (auto simp: next_word_offset_def outcome_simps u32_simps)

lemma ensure_word_capacity_Ok [outcome_simps]:
  "ensure_word_capacity n b = (Ok u, b') \<longleftrightarrow> b' = b \<and> length (bb_words b) + n < 2 ^ 32"
  by (auto simp: ensure_word_capacity_def outcome_simps u32_simps)

lemma ensure_label_Ok [outcome_simps]:
  "ensure_label l b = (Ok u, b') \<longleftrightarrow> b' = b \<and> unat l < length (bb_labels b)"
  by (auto simp: ensure_label_def outcome_simps not_less)

lemmas build_simps = build_return_def build_lift_def build_modify_def outcome_simps

lemma encode_instruction_Ok:
  "encode_instruction op operands = Ok ws \<Longrightarrow> length operands = operand_count op \<and> 0 < length ws"
  by (auto simp: encode_instruction_def encode_extended_def encode_base_def Let_def split: if_splits operand_width.splits)

lemma emit_inv:
  assumes "builder_inv syms b" "emit op operands span b = (Ok offset, b')"
  shows "builder_inv (syms @ [Plain op operands]) b'"
proof -
  from assms(2) obtain words b1 where enc: "encode_instruction op operands = Ok words"
    and cap: "length (bb_words b) + length words < 2 ^ 32"
    and regs: "note_registers op operands b = (Ok (), b1)"
    and b': "b' = b1\<lparr>bb_words := bb_words b1 @ words, bb_source_map := bb_source_map b1 @
      [\<lparr>sm_offset = word_of_nat (length (bb_words b1)), sm_span = span\<rparr>]\<rparr>"
    by (auto simp: emit_def build_simps)
  note frame = registers_only_Ok [OF registers_only_note_registers regs]
  have "builder_inv (syms @ [Plain op operands]) (b1\<lparr>bb_words := bb_words b1 @ words,
      bb_patches := bb_patches b1 @ symbol_patches (length (bb_words b1)) [Plain op operands],
      bb_source_map := bb_source_map b1 @ [\<lparr>sm_offset = word_of_nat (length (bb_words b1)), sm_span = span\<rparr>]\<rparr>)"
    using encode_instruction_Ok [OF enc] enc cap frame
    by (intro builder_inv_append builder_inv_registers [OF registers_only_note_registers regs assms(1)]) auto
  then show ?thesis by (simp add: b')
qed

lemma push_jump_inv:
  assumes "builder_inv syms b" "push_jump words l delta span b = (Ok offset, b')"
    and "words = symbol_words placeholder (Branch op before l after)" "symbol_valid (Branch op before l after)"
    and "delta = word_of_nat (1 + length before)"
    and "length (bb_words b) + length words < 2 ^ 32" "unat l < length (bb_labels b)"
  shows "builder_inv (syms @ [Branch op before l after]) b'"
proof -
  have "b' = b\<lparr>bb_words := bb_words b @ words,
      bb_patches := bb_patches b @ symbol_patches (length (bb_words b)) [Branch op before l after],
      bb_source_map := bb_source_map b @ [\<lparr>sm_offset = word_of_nat (length (bb_words b)), sm_span = span\<rparr>]\<rparr>"
    using assms(2,5) by (auto simp: push_jump_def build_simps add.assoc)
  then show ?thesis
    using assms(1,3,4,6,7) by (simp only:) (rule builder_inv_append; simp)
qed

lemma emit_conditional_jump_inv:
  assumes "builder_inv syms b" "emit_conditional_jump op c l span b = (Ok offset, b')"
    and "op \<in> {Op_JumpIfFalse, Op_JumpIfTrue, Op_JumpIfNotNullish}"
  shows "builder_inv (syms @ [Branch op [c] l []]) b'"
proof -
  from assms(2) obtain b1 where l: "unat l < length (bb_labels b)" and regs: "note_register c b = (Ok (), b1)"
    and cap: "length (bb_words b1) + 3 < 2 ^ 32"
    and push: "push_jump [ucast (opcode_u8 op OR WIDE_FORMAT), c, 0] l 2 span b1 = (Ok offset, b')"
    by (auto simp: emit_conditional_jump_def build_simps)
  note inv = builder_inv_registers [OF registers_only_basic(3) regs assms(1)]
  have "bb_labels b1 = bb_labels b" using registers_only_Ok [OF registers_only_basic(3) regs] by simp
  with inv push cap l assms(3) show ?thesis by (intro push_jump_inv [OF inv push]) auto
qed

lemma bind_label_inv:
  assumes "builder_inv syms b" "bind_label l b = (Ok u, b')"
  shows "builder_inv syms b'"
proof -
  from assms(2) have b': "b' = b\<lparr>bb_labels := (bb_labels b)[unat l := Some (word_of_nat (length (bb_words b)))]\<rparr>"
    by (auto simp: bind_label_def build_simps split: option.splits)
  have fits: "length (bb_words b) < 2 ^ 32" using assms(1) by (auto simp: builder_inv_def)
  have "Some offset \<in> set (bb_labels b) \<or> unat offset = length (bb_words b)"
    if "Some offset \<in> set ((bb_labels b)[unat l := Some (word_of_nat (length (bb_words b)))])" for offset
    using that unat_u32_of_nat [OF fits] by (auto dest: set_update_subset_insert [THEN subsetD])
  with assms(1) show ?thesis by (auto simp: b' builder_inv_def) blast
qed

lemma run_command_inv:
  assumes "builder_inv syms b" "run_command c b = (Ok (), b')" "command_valid c"
  shows "builder_inv (syms @ command_symbols c) b'"
proof (cases c)
  case New_Label
  with assms show ?thesis
    by (auto simp: new_label_def build_simps builder_inv_def less_Suc_eq)
next
  case (Bind_Label l)
  with assms show ?thesis by (simp add: bind_label_inv)
next
  case (Emit op operands span)
  with assms show ?thesis by (auto simp: build_simps intro: emit_inv)
next
  case (Emit_Jump l span)
  with assms show ?thesis
    by (auto simp: emit_jump_def build_simps intro!: push_jump_inv [OF assms(1)])
next
  case (Emit_Abrupt_Jump op l depth span)
  moreover have "operand_count op = 2" if "is_abrupt op" using that by (auto simp: is_abrupt_def)
  ultimately show ?thesis
    using assms by (auto simp: emit_abrupt_jump_def build_simps intro!: push_jump_inv [OF assms(1)])
qed (use assms in \<open>auto simp: build_simps emit_jump_if_false_def emit_jump_if_true_def emit_jump_if_not_nullish_def
    intro!: emit_conditional_jump_inv\<close>)

abbreviation symbols_of :: "build_command list \<Rightarrow> symbolic list" where
  "symbols_of cs \<equiv> concat (map command_symbols cs)"

lemma run_commands_inv:
  "builder_inv syms b \<Longrightarrow> run_commands cs b = (Ok (), b') \<Longrightarrow> list_all command_valid cs \<Longrightarrow>
   builder_inv (syms @ symbols_of cs) b'"
proof (induction cs arbitrary: syms b)
  case (Cons c cs)
  then obtain b1 where "run_command c b = (Ok (), b1)" "run_commands cs b1 = (Ok (), b')"
    by (auto simp: build_simps)
  with Cons.IH [of "syms @ command_symbols c" b1] run_command_inv [of syms b c b1] Cons.prems show ?case by simp
qed (simp add: build_return_def)

lemma builder_inv_with_capacity: "builder_inv [] with_capacity"
  by (simp add: builder_inv_def with_capacity_def)

lemma run_commands_builder_inv:
  "run_commands cs with_capacity = (Ok (), b) \<Longrightarrow> list_all command_valid cs \<Longrightarrow> builder_inv (symbols_of cs) b"
  using run_commands_inv [OF builder_inv_with_capacity] by simp

section \<open>Patching resolves the labels\<close>

lemma list_update_middle: "k = length xs \<Longrightarrow> (xs @ y # ys)[k := z] = xs @ z # ys"
  by simp

lemma apply_patches_code:
  "apply_patches (bb_labels b) (symbol_patches (length pre) syms) (pre @ code placeholder syms) = Ok words \<Longrightarrow>
   length (pre @ code placeholder syms) < 2 ^ 32 \<Longrightarrow> words = pre @ code (label_target b) syms"
proof (induction syms arbitrary: pre)
  case (Cons s syms)
  let ?pre = "pre @ symbol_words (label_target b) s"
  have len: "length ?pre = length pre + length (symbol_words placeholder s)" by (simp add: length_symbol_words [of "label_target b"])
  have "apply_patches (bb_labels b) (symbol_patches (length ?pre) syms) (?pre @ code placeholder syms) = Ok words"
  proof (cases s)
    case (Plain op operands)
    with Cons.prems(1) show ?thesis by simp
  next
    case (Branch op before l after)
    have fits: "unat (word_of_nat (length pre + 1 + length before) :: u32) = length pre + 1 + length before"
      using Cons.prems(2) Branch by (intro unat_u32_of_nat) simp
    let ?h = "ucast (opcode_u8 op OR WIDE_FORMAT) :: u32"
    have upd: "(pre @ (?h # before @ [0] @ after) @ code placeholder syms)[length pre + 1 + length before := target] =
        pre @ (?h # before @ [target] @ after) @ code placeholder syms" for target
      using list_update_middle [of "length pre + 1 + length before" "pre @ ?h # before" 0 "after @ code placeholder syms" target]
      by simp
    from Cons.prems(1) Branch fits upd show ?thesis
      by (auto simp: label_target_def split: option.splits if_splits)
  qed
  with Cons.IH [of ?pre] Cons.prems(2) len show ?case by simp
qed simp

lemma apply_patches_progress:
  "(\<And>p. p \<in> set ps \<Longrightarrow> \<exists>target. get labels (unat (jp_label p)) = Some (Some target)) \<Longrightarrow>
   (\<And>p. p \<in> set ps \<Longrightarrow> unat (jp_operand_word p) < length words) \<Longrightarrow> \<exists>words'. apply_patches labels ps words = Ok words'"
proof (induction ps arbitrary: words)
  case (Cons p ps)
  from Cons.prems(1) [of p] obtain target where t: "get labels (unat (jp_label p)) = Some (Some target)" by auto
  with Cons.prems(2) [of p] Cons.IH [of "words[unat (jp_operand_word p) := target]"] Cons.prems show ?case by simp
qed simp

lemma apply_patches_Ok:
  "apply_patches labels ps words = Ok words' \<Longrightarrow> p \<in> set ps \<Longrightarrow>
   \<exists>target. get labels (unat (jp_label p)) = Some (Some target)"
  by (induction labels ps words rule: apply_patches.induct) (auto split: option.splits if_splits)

lemma symbol_patches_bounds:
  "p \<in> set (symbol_patches k syms) \<Longrightarrow> k + length (code placeholder syms) < 2 ^ 32 \<Longrightarrow>
   unat (jp_operand_word p) < k + length (code placeholder syms)"
proof (induction k syms rule: symbol_patches.induct)
  case (3 k op before l after syms)
  show ?case
  proof (cases "p \<in> set (symbol_patches (k + length (symbol_words placeholder (Branch op before l after))) syms)")
    case True
    from "3.IH" [OF True] "3.prems" show ?thesis by (simp add: add.assoc)
  next
    case False
    with "3.prems" have "p = \<lparr>jp_label = l, jp_operand_word = word_of_nat (k + 1 + length before)\<rparr>" by simp
    moreover have "unat (word_of_nat (k + 1 + length before) :: u32) = k + 1 + length before"
      using "3.prems" by (intro unat_u32_of_nat) simp
    ultimately show ?thesis by simp
  qed
qed (auto simp: add.assoc)

section \<open>Noted registers are the registers the verifier checks\<close>

definition register_error :: "(verify_error, unit) outcome \<Rightarrow> bool" where
  "register_error r \<longleftrightarrow> (case r of Err (RegisterOutOfRange _ _ _) \<Rightarrow> True | Err (InvalidCallArgumentWindow _ _ _ _) \<Rightarrow> True
     | _ \<Rightarrow> False)"

text \<open>
  The opcodes for which the verifier wants a register that the builder does not note: the one after
  operand 2 of \<open>CreateClass\<close>, the callee after the receiver of the two spread calls with a receiver, and,
  for the class accessors by name, the index of the name, which both the verifier's register match and
  its scope-name match claim.
\<close>

definition unnoted_opcodes :: "opcode set" where
  "unnoted_opcodes = {Op_CreateClass, Op_CallSpreadWithReceiver, Op_TailCallSpreadWithReceiver,
       Op_DefineClassGetterById, Op_DefineClassSetterById}"

lemma note_register_Ok:
  assumes "note_register r b = (Ok u, b')"
  shows "r < bb_register_count b'"
proof -
  from assms have "checked_add r 1 = Some (r + 1)" and b': "b' = b\<lparr>bb_register_count := max (bb_register_count b) (r + 1)\<rparr>"
    by (auto simp: note_register_def build_simps checked_add_eq_Some)
  then have "r < r + 1" by (auto simp: checked_add_eq_Some word_less_nat_alt)
  with b' show ?thesis by (simp add: less_max_iff_disj)
qed

lemma registers_grow: "registers_only m \<Longrightarrow> m b = (r, b') \<Longrightarrow> x < bb_register_count b \<Longrightarrow> x < bb_register_count b'"
  using registers_only_Ok [of m b r b'] by auto

lemma note_indexes_Ok:
  "note_indexes is operands b = (Ok u, b') \<Longrightarrow> i \<in> set is \<Longrightarrow> i < length operands \<Longrightarrow> operands ! i < bb_register_count b'"
proof (induction "is" arbitrary: b)
  case (Cons j "is")
  then obtain u1 b1 where
    head: "(case get operands j of Some register \<Rightarrow> note_register register | None \<Rightarrow> build_return ()) b = (Ok u1, b1)"
    and rest: "note_indexes is operands b1 = (Ok u, b')" by (auto simp: build_simps)
  show ?case
  proof (cases "i \<in> set is")
    case True
    with Cons.IH [OF rest] Cons.prems show ?thesis by simp
  next
    case False
    with Cons.prems head have "note_register (operands ! i) b = (Ok u1, b1)" by (auto simp: get_def)
    then show ?thesis using registers_grow [OF registers_only_note_indexes rest] note_register_Ok by blast
  qed
qed simp

lemma noted_indexes_verify:
  assumes "noted_indexes op \<noteq> None" "op \<notin> unnoted_opcodes"
    and "list_all (\<lambda>i. i < operand_count op \<longrightarrow> operands ! i < ctx_register_count ctx) (the (noted_indexes op))"
  shows "\<not> register_error (verify_operands op operands offset ctx)"
  using opcode_univ [of op] assms
  by (elim insertE)
    (simp_all add: noted_indexes_def unnoted_opcodes_def verify_operands_def verify_call_operands_def opcode_eq_iff
      check_registers_def check_register_def register_error_def reject_if_def Let_def)

lemma noted_indexes_None:
  "noted_indexes op = None \<longleftrightarrow> op \<in> {Op_Call, Op_TailCall, Op_DirectEval, Op_Construct, Op_SuperConstruct,
       Op_AttachInstanceFields, Op_CallWithReceiver, Op_TailCallWithReceiver, Op_YieldWithKind}"
  using opcode_univ [of op]
  by (elim insertE) (simp_all add: noted_indexes_def opcode_eq_iff)

lemma pad_operands_3: "length operands = 3 \<Longrightarrow> pad_operands operands = operands"
  by (simp add: pad_operands_def)

text \<open>What each of the arms with a computed register has noted when it succeeds.\<close>

lemma note_call_registers_Ok:
  assumes "note_call_registers op operands b = (Ok u, b')" "length operands = 3"
  shows "op \<in> {Op_Call, Op_TailCall, Op_DirectEval, Op_Construct, Op_SuperConstruct} \<Longrightarrow>
      operands ! 0 < bb_register_count b' \<and> operands ! 1 < bb_register_count b' \<and>
      (operands ! 2 \<noteq> 0 \<longrightarrow> (\<exists>last. checked_add (operands ! 1) (operands ! 2) = Some last \<and> last < bb_register_count b'))"
    and "op = Op_AttachInstanceFields \<Longrightarrow> operands ! 0 < bb_register_count b' \<and>
      (operands ! 2 \<noteq> 0 \<longrightarrow> (\<exists>size last. checked_mul (operands ! 2) 4 = Some size \<and>
         Option.bind (checked_add (operands ! 1) size) (\<lambda>end. checked_sub end 1) = Some last \<and> last < bb_register_count b'))"
    and "op \<in> {Op_CallWithReceiver, Op_TailCallWithReceiver} \<Longrightarrow>
      operands ! 0 < bb_register_count b' \<and> operands ! 1 < bb_register_count b' \<and>
      (\<exists>last. Option.bind (checked_add (operands ! 1) 1) (\<lambda>callee. checked_add callee (operands ! 2)) = Some last \<and>
         last < bb_register_count b')"
    and "op = Op_YieldWithKind \<Longrightarrow> operands ! 0 < bb_register_count b' \<and> operands ! 1 < bb_register_count b' \<and>
      (\<exists>next. checked_add (operands ! 1) 1 = Some next \<and> next < bb_register_count b')"
proof -
  have noted: "operands ! 0 < bb_register_count b2 \<and> operands ! 1 < bb_register_count b2"
    if "note_indexes [0, 1] operands b1 = (Ok v, b2)" for b1 b2 v
    using note_indexes_Ok [OF that] assms(2) by simp
  note grow = registers_grow [OF registers_only_basic(3)]
  show "op \<in> {Op_Call, Op_TailCall, Op_DirectEval, Op_Construct, Op_SuperConstruct} \<Longrightarrow>
      operands ! 0 < bb_register_count b' \<and> operands ! 1 < bb_register_count b' \<and>
      (operands ! 2 \<noteq> 0 \<longrightarrow> (\<exists>last. checked_add (operands ! 1) (operands ! 2) = Some last \<and> last < bb_register_count b'))"
    using assms noted note_register_Ok grow
    by (fastforce simp: note_call_registers_def build_simps index_or_panic_def simp del: note_indexes.simps split: if_splits)
  show "op = Op_AttachInstanceFields \<Longrightarrow> operands ! 0 < bb_register_count b' \<and>
      (operands ! 2 \<noteq> 0 \<longrightarrow> (\<exists>size last. checked_mul (operands ! 2) 4 = Some size \<and>
         Option.bind (checked_add (operands ! 1) size) (\<lambda>end. checked_sub end 1) = Some last \<and> last < bb_register_count b'))"
    using assms note_register_Ok grow
    by (fastforce simp: note_call_registers_def opcode_eq_iff build_simps index_or_panic_def split: if_splits)
  show "op \<in> {Op_CallWithReceiver, Op_TailCallWithReceiver} \<Longrightarrow>
      operands ! 0 < bb_register_count b' \<and> operands ! 1 < bb_register_count b' \<and>
      (\<exists>last. Option.bind (checked_add (operands ! 1) 1) (\<lambda>callee. checked_add callee (operands ! 2)) = Some last \<and>
         last < bb_register_count b')"
    using assms noted note_register_Ok grow
    by (fastforce simp: note_call_registers_def opcode_eq_iff build_simps index_or_panic_def simp del: note_indexes.simps
        split: if_splits)
  show "op = Op_YieldWithKind \<Longrightarrow> operands ! 0 < bb_register_count b' \<and> operands ! 1 < bb_register_count b' \<and>
      (\<exists>next. checked_add (operands ! 1) 1 = Some next \<and> next < bb_register_count b')"
    using assms noted note_register_Ok grow
    by (fastforce simp: note_call_registers_def opcode_eq_iff build_simps index_or_panic_def simp del: note_indexes.simps
        split: if_splits)
qed

lemma note_call_registers_verify:
  assumes "noted_indexes op = None" "note_call_registers op operands b = (Ok u, b')" "length operands = 3"
    and "bb_register_count b' \<le> ctx_register_count ctx"
  shows "\<not> register_error (verify_operands op operands offset ctx)"
proof -
  note noted = note_call_registers_Ok [OF assms(2,3)]
  have lt: "x < bb_register_count b' \<Longrightarrow> x < ctx_register_count ctx" for x using assms(4) by simp
  note eval = verify_operands_def verify_call_operands_def opcode_eq_iff check_registers_def check_register_def
    register_error_def reject_if_def Let_def
  from assms(1) consider "op \<in> {Op_Call, Op_TailCall, Op_DirectEval, Op_Construct, Op_SuperConstruct}" | "op = Op_AttachInstanceFields"
    | "op \<in> {Op_CallWithReceiver, Op_TailCallWithReceiver}" | "op = Op_YieldWithKind"
    unfolding noted_indexes_None by blast
  then show ?thesis
  proof cases
    case 1
    with noted(1) lt have "operands ! 0 < ctx_register_count ctx" "operands ! 1 < ctx_register_count ctx"
      "operands ! 2 = 0 \<or> (\<exists>last. checked_add (operands ! 1) (operands ! 2) = Some last \<and> last < ctx_register_count ctx)"
      by blast+
    moreover have "verify_operands op operands offset ctx = verify_call_operands op operands offset ctx"
      using 1 by (elim insertE emptyE) (simp_all add: verify_operands_def opcode_eq_iff Let_def)
    ultimately show ?thesis
      unfolding verify_call_operands_def Let_def if_P [OF 1]
      by (auto simp: check_registers_def check_register_def register_error_def reject_if_def)
  next
    case 2
    with noted(2) lt have "operands ! 0 < ctx_register_count ctx" "operands ! 2 = 0 \<or>
        (\<exists>size last. checked_mul (operands ! 2) 4 = Some size \<and>
           Option.bind (checked_add (operands ! 1) size) (\<lambda>end. checked_sub end 1) = Some last \<and> last < ctx_register_count ctx)"
      by blast+
    with 2 show ?thesis by (elim disjE exE conjE; simp add: eval)
  next
    case 3
    with noted(3) lt obtain last where "operands ! 0 < ctx_register_count ctx" "operands ! 1 < ctx_register_count ctx"
      "Option.bind (checked_add (operands ! 1) 1) (\<lambda>callee. checked_add callee (operands ! 2)) = Some last"
      "last < ctx_register_count ctx" by blast
    with 3 show ?thesis by (elim insertE emptyE; simp add: eval)
  next
    case 4
    with noted(4) lt obtain "next" where "operands ! 0 < ctx_register_count ctx" "operands ! 1 < ctx_register_count ctx"
      "checked_add (operands ! 1) 1 = Some next" "next < ctx_register_count ctx" by blast
    with 4 show ?thesis by (simp add: eval)
  qed
qed

section \<open>Properties\<close>


text \<open>C28. \<open>finish\<close> succeeds exactly when every label that some jump uses has been bound; it never panics.\<close>

theorem finish_succeeds_iff_bound:
  assumes run: "run_commands cs with_capacity = (Ok (), b)" and valid: "list_all command_valid cs"
  shows "finish b \<noteq> Panic \<and> ((\<exists>r. finish b = Ok r) \<longleftrightarrow>
    (\<forall>op before l after. Branch op before l after \<in> set (symbols_of cs) \<longrightarrow>
       (\<exists>target. get (bb_labels b) (unat l) = Some (Some target))))"
proof -
  let ?syms = "symbols_of cs"
  have inv: "builder_inv ?syms b" using run valid by (rule run_commands_builder_inv)
  then have w: "bb_words b = code placeholder ?syms" and small: "length (code placeholder ?syms) < 2 ^ 32"
    and p: "bb_patches b = symbol_patches 0 ?syms" by (auto simp: builder_inv_def)
  have patch_labels: "jp_label ` set (symbol_patches k syms) = {l. \<exists>op before after. Branch op before l after \<in> set syms}" for k syms
    by (induction k syms rule: symbol_patches.induct) auto
  have bounds: "unat (jp_operand_word p) < length (bb_words b)" if "p \<in> set (bb_patches b)" for p
    using that symbol_patches_bounds [of p 0 ?syms] small by (simp add: p w)
  have "apply_patches labels ps ws \<noteq> Panic" if "\<forall>p \<in> set ps. unat (jp_operand_word p) < length ws" for labels ps ws
    using that by (induction labels ps ws rule: apply_patches.induct) (auto split: option.splits)
  with bounds have "finish b \<noteq> Panic" by (simp add: finish_def outcome_simps)
  moreover have "(\<exists>r. finish b = Ok r) \<longleftrightarrow>
      (\<forall>p \<in> set (bb_patches b). \<exists>target. get (bb_labels b) (unat (jp_label p)) = Some (Some target))"
    using apply_patches_progress [of "bb_patches b" "bb_labels b" "bb_words b"] bounds
    by (auto simp: finish_def outcome_simps dest: apply_patches_Ok)
  moreover have "\<dots> \<longleftrightarrow> (\<forall>l \<in> jp_label ` set (bb_patches b). \<exists>target. get (bb_labels b) (unat l) = Some (Some target))"
    by auto
  ultimately show ?thesis unfolding p patch_labels by blast
qed

text \<open>C29. Builder and verifier agree on registers: if the builder accepted an instruction, then verification
  with at least the register count it accumulated finds no register of that instruction out of range,
  whatever the opcode, apart from the five opcodes of \<open>unnoted_opcodes\<close>.\<close>

theorem noted_registers_pass_verification:
  assumes run: "note_registers op operands b = (Ok (), b')" and len: "length operands = operand_count op"
    and op: "op \<notin> unnoted_opcodes" and count: "bb_register_count b' \<le> ctx_register_count ctx"
  shows "\<not> register_error (verify_operands op (pad_operands operands) offset ctx)"
proof (cases "noted_indexes op")
  case None
  then have "operand_count op = 3" by (auto simp: noted_indexes_None)
  moreover from None run have "note_call_registers op operands b = (Ok (), b')" by (simp add: note_registers_def)
  ultimately show ?thesis
    using note_call_registers_verify [OF None _ _ count] len by (simp add: pad_operands_3)
next
  case (Some "is")
  with run have "note_indexes is operands b = (Ok (), b')" by (simp add: note_registers_def)
  from note_indexes_Ok [OF this] len count Some
  have "list_all (\<lambda>i. i < operand_count op \<longrightarrow> pad_operands operands ! i < ctx_register_count ctx) (the (noted_indexes op))"
    by (auto simp: list_all_iff pad_operands_nth intro: order.strict_trans2)
  with Some op show ?thesis by (intro noted_indexes_verify) auto
qed

section \<open>Witnesses\<close>

text \<open>A loop: a label, a conditional exit, a backward jump and a return.\<close>

abbreviation demo_span :: source_span where
  "demo_span \<equiv> \<lparr>span_start = 0, span_end = 0\<rparr>"

definition demo_commands :: "build_command list" where
  "demo_commands = [New_Label, New_Label, Bind_Label 0, Emit_Jump_If_False 0 1 demo_span, Emit_Jump 0 demo_span,
     Bind_Label 1, Emit Op_ReturnUndefined [] demo_span]"

definition demo_builder :: bytecode_builder where
  "demo_builder = snd (run_commands demo_commands with_capacity)"

lemmas build_eval = build_bind_def build_return_def build_lift_def build_modify_def new_label_def bind_label_def
  emit_def emit_jump_def emit_jump_if_false_def emit_conditional_jump_def push_jump_def next_word_offset_def
  ensure_word_capacity_def ensure_label_def note_register_def note_registers_def noted_indexes_def with_capacity_def
  u32_try_from_def get_def checked_add_def encode_instruction_def encode_base_def encode_width_def
  BASE_OPCODE_COUNT_def opcode_eq_iff opcode_u8_def format_defs

lemma demo_run: "run_commands demo_commands with_capacity = (Ok (), demo_builder)"
  "demo_builder = \<lparr>bb_words = [0x8a, 0, 0, 0x89, 0, 46], bb_labels = [Some 0, Some 5],
     bb_patches = [\<lparr>jp_label = 1, jp_operand_word = 2\<rparr>, \<lparr>jp_label = 0, jp_operand_word = 4\<rparr>],
     bb_source_map = [\<lparr>sm_offset = 0, sm_span = demo_span\<rparr>, \<lparr>sm_offset = 3, sm_span = demo_span\<rparr>,
       \<lparr>sm_offset = 5, sm_span = demo_span\<rparr>], bb_register_count = 1\<rparr>"
  by (simp_all add: demo_builder_def demo_commands_def build_eval)

lemma demo_finish: "finish demo_builder = Ok ([0x8a, 0, 5, 0x89, 0, 46], bb_source_map demo_builder, 1)"
  by (simp add: finish_def demo_run(2) get_def)

lemma demo_valid: "list_all command_valid demo_commands"
  by (simp add: demo_commands_def)


theorem finish_succeeds_iff_bound_witness:
  "run_commands demo_commands with_capacity = (Ok (), demo_builder) \<and> finish demo_builder \<noteq> Panic"
  using finish_succeeds_iff_bound [OF demo_run(1) demo_valid] demo_run(1) by blast

theorem noted_registers_pass_verification_witness:
  "note_registers Op_YieldWithKind [0, 1, 0] with_capacity = (Ok (), with_capacity\<lparr>bb_register_count := 3\<rparr>) \<and>
   \<not> register_error (verify_operands Op_YieldWithKind [0, 1, 0] 0 (demo_context\<lparr>ctx_register_count := 3\<rparr>))"
proof -
  have run: "note_registers Op_YieldWithKind [0, 1, 0] with_capacity = (Ok (), with_capacity\<lparr>bb_register_count := 3\<rparr>)"
    by (simp add: build_eval note_call_registers_def index_or_panic_def)
  have "\<not> register_error (verify_operands Op_YieldWithKind (pad_operands [0, 1, 0]) 0 (demo_context\<lparr>ctx_register_count := 3\<rparr>))"
    by (rule noted_registers_pass_verification [OF run]) (simp_all add: unnoted_opcodes_def opcode_eq_iff)
  with run show ?thesis by (simp add: pad_operands_3)
qed

section \<open>A class accessor that the verifier rejects\<close>

text \<open>
  The lowering of \<open>class C { get x() {} }\<close> emits \<open>DefineClassGetterById [target, closure, name]\<close> where
  \<open>name\<close> indexes the scope names of the module. The builder notes the two registers; the verifier
  demands that the name index is below the register count as well, so the accessor is rejected as soon
  as enough names come before it, although name 7 exists.
\<close>

lemma class_getter_by_name_rejected:
  "note_registers Op_DefineClassGetterById [0, 1, 7] with_capacity = (Ok (), with_capacity\<lparr>bb_register_count := 2\<rparr>) \<and>
   verify_operands Op_DefineClassGetterById [0, 1, 7] 0
     \<lparr>ctx_register_count = 2, ctx_constants = [], ctx_function_count = 1, ctx_scope_name_count = 100,
      ctx_max_environment_slot_count = 0\<rparr> = Err (RegisterOutOfRange 0 7 2)"
  by (simp add: build_eval verify_operands_def check_registers_def check_register_def)

end
