(* ===== verification/Module_Stencil.thy ===== *)
theory Module_Stencil
  imports Prelude "HOL-Library.List_Lexorder" "HOL-Library.Multiset"
begin

text \<open>
  The static module record of \<open>crates/tachyon-bytecode/src/module.rs\<close>: requests, imports, exports and
  local bindings, and the validation that freezes them.

  Attribute lists are sorted by key before requests are compared. The source sorts with an unstable
  sort; two attributes with equal keys make the request invalid whatever their order, so the stable
  sort of the model differs only on requests that are rejected with the same error.
\<close>

section \<open>Data\<close>

type_synonym module_request_id = u32

record module_attribute =
  attr_key :: "u16 list"
  attr_value :: "u16 list"

record module_request =
  mr_specifier :: "u16 list"
  mr_attributes :: "module_attribute list"

datatype module_import_name = Import_Name "u16 list" | Import_Namespace

record module_import_entry =
  mi_module_request :: module_request_id
  mi_import_name :: module_import_name
  mi_local_name :: string

datatype module_export_entry =
    Export_Local "u16 list" string
  | Export_Indirect "u16 list" module_request_id module_import_name
  | Export_Star module_request_id

record module_stencil =
  ms_requested_modules :: "module_request list"
  ms_imports :: "module_import_entry list"
  ms_exports :: "module_export_entry list"
  ms_local_bindings :: "string list"
  ms_has_top_level_await :: bool

datatype module_stencil_error =
    TooManyRequests nat
  | DuplicateRequest u32 u32
  | DuplicateAttributeKey u32 u32
  | RequestOutOfRange module_request_id u32
  | EmptyLocalName
  | DuplicateImportLocalName string
  | DuplicateLocalBinding string
  | DuplicateExportName "u16 list"

section \<open>Validation\<close>

fun position :: "('a \<Rightarrow> bool) \<Rightarrow> 'a list \<Rightarrow> nat option" where
  "position p [] = None"
| "position p (x # xs) = (if p x then Some 0 else map_option Suc (position p xs))"

definition sort_attributes :: "module_request \<Rightarrow> module_request" where
  "sort_attributes request = request\<lparr>mr_attributes := sort_key attr_key (mr_attributes request)\<rparr>"

fun validate_attributes ::
  "module_attribute list \<Rightarrow> nat \<Rightarrow> module_attribute list \<Rightarrow> (module_stencil_error, unit) outcome" where
  "validate_attributes earlier index [] = Ok ()"
| "validate_attributes earlier index (a # attributes) =
     (if \<exists>previous \<in> set earlier. attr_key previous = attr_key a
      then Err (DuplicateAttributeKey (word_of_nat index) (word_of_nat (length earlier)))
      else validate_attributes (earlier @ [a]) index attributes)"

fun validate_requests_from ::
  "module_request list \<Rightarrow> module_request list \<Rightarrow> (module_stencil_error, unit) outcome" where
  "validate_requests_from earlier [] = Ok ()"
| "validate_requests_from earlier (request # requests) =
     and_then (validate_attributes [] (length earlier) (mr_attributes request)) (\<lambda>_.
       case position (\<lambda>previous. previous = request) earlier of
         Some first \<Rightarrow> Err (DuplicateRequest (word_of_nat first) (word_of_nat (length earlier)))
       | None \<Rightarrow> validate_requests_from (earlier @ [request]) requests)"

definition validate_requests :: "module_request list \<Rightarrow> (module_stencil_error, unit) outcome" where
  "validate_requests = validate_requests_from []"

definition validate_request_id :: "module_request_id \<Rightarrow> u32 \<Rightarrow> (module_stencil_error, unit) outcome" where
  "validate_request_id request request_count =
     reject_if (request \<ge> request_count) (RequestOutOfRange request request_count)"

fun validate_imports_from ::
  "module_import_entry list \<Rightarrow> u32 \<Rightarrow> module_import_entry list \<Rightarrow> (module_stencil_error, unit) outcome" where
  "validate_imports_from earlier request_count [] = Ok ()"
| "validate_imports_from earlier request_count (entry # entries) =
     and_then (validate_request_id (mi_module_request entry) request_count) (\<lambda>_.
     if mi_local_name entry = [] then Err EmptyLocalName
     else if \<exists>previous \<in> set earlier. mi_local_name previous = mi_local_name entry
     then Err (DuplicateImportLocalName (mi_local_name entry))
     else validate_imports_from (earlier @ [entry]) request_count entries)"

definition validate_imports :: "module_import_entry list \<Rightarrow> u32 \<Rightarrow> (module_stencil_error, unit) outcome" where
  "validate_imports imports request_count = validate_imports_from [] request_count imports"

fun export_name :: "module_export_entry \<Rightarrow> u16 list option" where
  "export_name (Export_Local name local) = Some name"
| "export_name (Export_Indirect name request import_name) = Some name"
| "export_name (Export_Star request) = None"

fun export_request :: "module_export_entry \<Rightarrow> module_request_id option" where
  "export_request (Export_Local name local) = None"
| "export_request (Export_Indirect name request import_name) = Some request"
| "export_request (Export_Star request) = Some request"

fun validate_exports_from ::
  "module_export_entry list \<Rightarrow> u32 \<Rightarrow> module_export_entry list \<Rightarrow> (module_stencil_error, unit) outcome" where
  "validate_exports_from earlier request_count [] = Ok ()"
| "validate_exports_from earlier request_count (entry # entries) =
     and_then (case export_request entry of Some request \<Rightarrow> validate_request_id request request_count | None \<Rightarrow> Ok ()) (\<lambda>_.
     case export_name entry of
       None \<Rightarrow> validate_exports_from (earlier @ [entry]) request_count entries
     | Some name \<Rightarrow>
         if \<exists>previous \<in> set earlier. export_name previous = Some name then Err (DuplicateExportName name)
         else validate_exports_from (earlier @ [entry]) request_count entries)"

definition validate_exports :: "module_export_entry list \<Rightarrow> u32 \<Rightarrow> (module_stencil_error, unit) outcome" where
  "validate_exports exports request_count = validate_exports_from [] request_count exports"

fun validate_local_bindings_from :: "string list \<Rightarrow> string list \<Rightarrow> (module_stencil_error, unit) outcome" where
  "validate_local_bindings_from earlier [] = Ok ()"
| "validate_local_bindings_from earlier (name # names) =
     (if name = [] then Err EmptyLocalName
      else if name \<in> set earlier then Err (DuplicateLocalBinding name)
      else validate_local_bindings_from (earlier @ [name]) names)"

definition validate_local_bindings :: "string list \<Rightarrow> (module_stencil_error, unit) outcome" where
  "validate_local_bindings = validate_local_bindings_from []"

definition module_stencil_new ::
  "module_request list \<Rightarrow> module_import_entry list \<Rightarrow> module_export_entry list \<Rightarrow> string list \<Rightarrow> bool \<Rightarrow>
   (module_stencil_error, module_stencil) outcome" where
  "module_stencil_new requests imports exports local_bindings has_top_level_await =
     (let requests = map sort_attributes requests
      in and_then (validate_requests requests) (\<lambda>_.
         and_then (ok_or (TooManyRequests (length requests)) (u32_try_from (length requests))) (\<lambda>request_count.
         and_then (validate_imports imports request_count) (\<lambda>_.
         and_then (validate_exports exports request_count) (\<lambda>_.
         and_then (validate_local_bindings local_bindings) (\<lambda>_.
         Ok \<lparr>ms_requested_modules = requests, ms_imports = imports, ms_exports = exports,
             ms_local_bindings = local_bindings, ms_has_top_level_await = has_top_level_await\<rparr>))))))"

section \<open>Loops that reject duplicates\<close>

text \<open>
  The five loops have one contract: the entries must be valid one by one, and no key may occur twice.
  An entry without a key (a star export) is exempt.
\<close>

locale unique_keys =
  fixes run :: "'a list \<Rightarrow> 'p \<Rightarrow> 'a list \<Rightarrow> ('e, unit) outcome"
    and key :: "'a \<Rightarrow> 'k option"
    and valid :: "'p \<Rightarrow> 'a \<Rightarrow> bool"
  assumes run_Nil: "run earlier p [] = Ok ()"
    and run_Cons: "run earlier p (x # xs) = Ok () \<longleftrightarrow>
      valid p x \<and> (\<forall>k. key x = Some k \<longrightarrow> k \<notin> set (List.map_filter key earlier)) \<and> run (earlier @ [x]) p xs = Ok ()"
begin

lemma map_filter_append: "List.map_filter f (xs @ ys) = List.map_filter f xs @ List.map_filter f ys"
  by (simp add: map_filter_def)

lemma run_from_iff:
  "distinct (List.map_filter key earlier) \<Longrightarrow>
   run earlier p xs = Ok () \<longleftrightarrow> (\<forall>x \<in> set xs. valid p x) \<and> distinct (List.map_filter key (earlier @ xs))"
proof (induction xs arbitrary: earlier)
  case (Cons x xs)
  show ?case
  proof (cases "key x")
    case None
    then have "List.map_filter key (earlier @ [x]) = List.map_filter key earlier"
      "List.map_filter key (earlier @ x # xs) = List.map_filter key ((earlier @ [x]) @ xs)"
      by (simp_all add: map_filter_append map_filter_simps)
    with Cons None show ?thesis by (auto simp: run_Cons)
  next
    case (Some k)
    then have *: "List.map_filter key (earlier @ [x]) = List.map_filter key earlier @ [k]"
      by (simp add: map_filter_append map_filter_simps)
    show ?thesis
    proof (cases "k \<in> set (List.map_filter key earlier)")
      case True
      then have "\<not> distinct (List.map_filter key (earlier @ x # xs))"
        using Some by (simp add: map_filter_append map_filter_simps)
      with True Some show ?thesis by (simp add: run_Cons)
    next
      case False
      with Cons.prems * have "distinct (List.map_filter key (earlier @ [x]))" by simp
      from Cons.IH [OF this] False Some show ?thesis by (auto simp: run_Cons)
    qed
  qed
qed (simp add: run_Nil)

lemma run_iff: "run [] p xs = Ok () \<longleftrightarrow> (\<forall>x \<in> set xs. valid p x) \<and> distinct (List.map_filter key xs)"
  using run_from_iff [of "[]"] by (simp add: map_filter_simps)

end

lemma set_map_filter: "set (List.map_filter f xs) = {y. \<exists>x \<in> set xs. f x = Some y}"
  by (force simp: map_filter_def)

lemma map_filter_Some [simp]: "List.map_filter (\<lambda>x. Some (f x)) xs = map f xs"
  by (simp add: map_filter_def o_def)

lemma position_None: "position p xs = None \<longleftrightarrow> (\<forall>x \<in> set xs. \<not> p x)"
  by (induction xs) auto

lemma position_Some: "position p xs = Some i \<Longrightarrow> \<exists>x \<in> set xs. p x"
  by (induction xs arbitrary: i) (auto split: if_splits)

interpretation attribute_loop: unique_keys validate_attributes "\<lambda>a. Some (attr_key a)" "\<lambda>_ _. True"
  by unfold_locales (auto simp: image_iff, metis)

interpretation request_loop: unique_keys "\<lambda>earlier (_ :: unit). validate_requests_from earlier" Some
  "\<lambda>_ r. distinct (map attr_key (mr_attributes r))"
  using attribute_loop.run_iff
  by unfold_locales (auto simp: outcome_simps position_None set_map_filter dest: position_Some split: option.splits)

interpretation import_loop: unique_keys validate_imports_from "\<lambda>e. Some (mi_local_name e)"
  "\<lambda>request_count e. mi_module_request e < request_count \<and> mi_local_name e \<noteq> []"
  by unfold_locales (auto simp: outcome_simps validate_request_id_def not_le image_iff, metis)

interpretation export_loop: unique_keys validate_exports_from export_name
  "\<lambda>request_count e. \<forall>r. export_request e = Some r \<longrightarrow> r < request_count"
  by unfold_locales
    (auto simp: outcome_simps validate_request_id_def not_le set_map_filter split: option.splits)

interpretation binding_loop: unique_keys "\<lambda>earlier (_ :: unit). validate_local_bindings_from earlier" Some "\<lambda>_ n. n \<noteq> []"
  by unfold_locales (auto simp: set_map_filter)

section \<open>Properties\<close>

lemma mset_sort_attributes: "mset (mr_attributes (sort_attributes r)) = mset (mr_attributes r)"
  by (simp add: sort_attributes_def)

lemma distinct_keys_sort_attributes:
  "distinct (map attr_key (mr_attributes (sort_attributes r))) \<longleftrightarrow> distinct (map attr_key (mr_attributes r))"
  using mset_sort_attributes [of r] by (metis mset_map distinct_count_atmost_1 set_mset_mset)

text \<open>Sorting by key is a normal form: it identifies exactly the requests that differ in attribute order only.\<close>

lemma sort_attributes_eq_iff:
  assumes "distinct (map attr_key (mr_attributes r))"
  shows "sort_attributes r = sort_attributes r' \<longleftrightarrow>
    mr_specifier r = mr_specifier r' \<and> mset (mr_attributes r) = mset (mr_attributes r')"
proof
  assume *: "sort_attributes r = sort_attributes r'"
  then have "mset (mr_attributes r) = mset (mr_attributes r')" using mset_sort_attributes by metis
  moreover have "mr_specifier r = mr_specifier r'"
    using * by (metis module_request.select_convs(1) module_request.surjective module_request.update_convs(2) sort_attributes_def)
  ultimately show "mr_specifier r = mr_specifier r' \<and> mset (mr_attributes r) = mset (mr_attributes r')" by simp
next
  assume *: "mr_specifier r = mr_specifier r' \<and> mset (mr_attributes r) = mset (mr_attributes r')"
  have "inj_on attr_key (set (mr_attributes r))" using assms by (simp add: distinct_map)
  with * have "sort_key attr_key (mr_attributes r) = sort_key attr_key (mr_attributes r')"
    by (intro sort_key_inj_key_eq) simp_all
  with * show "sort_attributes r = sort_attributes r'" by (cases r; cases r') (simp add: sort_attributes_def)
qed

text \<open>C31. The frozen module record satisfies every cross-table invariant, and nothing that satisfies them is
  rejected: attribute keys are unique in each request, no two requests agree in specifier and attribute
  multiset, imports and exports refer to existing requests, and import names, export names and local
  bindings are unique and, where they bind, not empty.\<close>

theorem module_stencil_accepts_exactly:
  "(\<exists>s. module_stencil_new requests imports exports bindings await = Ok s) \<longleftrightarrow>
    length requests < 2 ^ 32 \<and>
    list_all (\<lambda>r. distinct (map attr_key (mr_attributes r))) requests \<and>
    distinct (map (\<lambda>r. (mr_specifier r, mset (mr_attributes r))) requests) \<and>
    list_all (\<lambda>e. unat (mi_module_request e) < length requests \<and> mi_local_name e \<noteq> []) imports \<and>
    distinct (map mi_local_name imports) \<and>
    list_all (\<lambda>e. case export_request e of Some r \<Rightarrow> unat r < length requests | None \<Rightarrow> True) exports \<and>
    distinct (List.map_filter export_name exports) \<and>
    [] \<notin> set bindings \<and> distinct bindings"
proof -
  have keys: "(\<forall>r \<in> set (map sort_attributes requests). distinct (map attr_key (mr_attributes r))) \<longleftrightarrow>
      list_all (\<lambda>r. distinct (map attr_key (mr_attributes r))) requests"
    by (simp add: distinct_keys_sort_attributes list_all_iff)
  have same: "distinct (map sort_attributes requests) \<longleftrightarrow>
      distinct (map (\<lambda>r. (mr_specifier r, mset (mr_attributes r))) requests)"
    if "list_all (\<lambda>r. distinct (map attr_key (mr_attributes r))) requests"
    using that sort_attributes_eq_iff by (auto simp: distinct_map inj_on_def list_all_iff)
  have count: "unat r < length requests \<longleftrightarrow> r < word_of_nat (length requests)" if "length requests < 2 ^ 32" for r :: u32
    using that by (simp add: word_less_nat_alt unat_u32_of_nat)
  have reqs: "validate_requests (map sort_attributes requests) = Ok () \<longleftrightarrow>
      list_all (\<lambda>r. distinct (map attr_key (mr_attributes r))) requests \<and>
      distinct (map (\<lambda>r. (mr_specifier r, mset (mr_attributes r))) requests)"
    unfolding validate_requests_def using request_loop.run_iff [of "map sort_attributes requests"] keys same
    by (auto simp: map_filter_def)
  show ?thesis
    unfolding module_stencil_new_def Let_def
    using reqs import_loop.run_iff [of _ "imports"] export_loop.run_iff [of _ exports] binding_loop.run_iff [of bindings]
    by (auto simp: outcome_simps u32_simps validate_imports_def validate_exports_def validate_local_bindings_def
        list_all_iff count map_filter_def split: option.splits)
qed

end
