(* ===== verification/Bytecode_Module.thy ===== *)
theory Bytecode_Module
  imports Bytecode_Validate Module_Stencil
begin

text \<open>
  \<open>CompiledModule\<close> of \<open>crates/tachyon-bytecode/src/lib.rs\<close>: the constructor that runs the verifier and all
  metadata checks over every function template before a module exists, and the attachment of the
  static module record.

  The constructor computes the largest environment a function enters by a loop over undecoded words
  whose offset is a saturating \<open>u32\<close>. On a template of \<open>2 ^ 32\<close> words or more that loop can stay at the
  last offset for ever, so it is modelled with divergence as \<open>None\<close>; below that size it returns.
\<close>

section \<open>Environment slots entered by a function\<close>

partial_function (option) max_entered_slots :: "u32 list \<Rightarrow> u32 \<Rightarrow> u32 \<Rightarrow> u32 option" where
  "max_entered_slots words offset maximum =
     (if unat offset < length words
      then (case decode_instruction words offset of
              Ok d \<Rightarrow> max_entered_slots words (saturating_add offset (word_of_nat (instr_word_len d)))
                (if enters_environment (instr_opcode d) then max maximum (instr_operands d ! 0) else maximum)
            | _ \<Rightarrow> Some maximum)
      else Some maximum)"

definition max_or_zero :: "u32 list \<Rightarrow> u32" where
  "max_or_zero xs = foldl max 0 xs"

definition encoded_class_environment_slots :: "compiled_function_template list \<Rightarrow> u32 option" where
  "encoded_class_environment_slots templates =
     map_option max_or_zero (those (map (\<lambda>t. max_entered_slots (ct_words t) 0 0) templates))"

definition max_environment_slot_count :: "compiled_function_template list \<Rightarrow> u32 option" where
  "max_environment_slot_count templates =
     map_option (max (max_or_zero (map (\<lambda>t. environment_slot_count (fm_layout (ct_metadata t))) templates)))
       (encoded_class_environment_slots templates)"

section \<open>One function template\<close>

text \<open>\<open>str::is_char_boundary\<close> on the UTF-8 bytes of the source.\<close>

definition is_char_boundary :: "u8 list \<Rightarrow> nat \<Rightarrow> bool" where
  "is_char_boundary source i \<longleftrightarrow>
     i = 0 \<or> (if length source \<le> i then i = length source else source ! i AND 0xc0 \<noteq> 0x80)"

definition check_source_range ::
  "u8 list \<Rightarrow> u32 \<Rightarrow> compiled_function_template \<Rightarrow> (module_build_error, unit) outcome" where
  "check_source_range source source_len template =
     (case source_range_span (ct_source_range template) of
        None \<Rightarrow> Ok ()
      | Some span \<Rightarrow> reject_if (span_start span > span_end span \<or> span_end span > source_len
          \<or> \<not> is_char_boundary source (unat (span_start span)) \<or> \<not> is_char_boundary source (unat (span_end span)))
          (InvalidFunctionSourceRange (ct_id template) span source_len))"

definition check_template ::
  "u8 list \<Rightarrow> u32 \<Rightarrow> nat \<Rightarrow> compiled_function_template \<Rightarrow> (module_build_error, unit) outcome" where
  "check_template source source_len index template =
     (let expected = word_of_nat index; metadata = ct_metadata template
      in and_then (reject_if (ct_id template \<noteq> expected) (FunctionIdMismatch expected (ct_id template))) (\<lambda>_.
         and_then (reject_if (\<not> is_valid_for (fm_role metadata) (fm_kind metadata))
           (InvalidFunctionRole (ct_id template) (fm_kind metadata) (fm_role metadata))) (\<lambda>_.
         and_then (check_source_range source source_len template) (\<lambda>_.
         reject_if ((fm_kind metadata \<in> {FK_Module, FK_DerivedClassConstructor, FK_BaseClassConstructor}
             \<or> fm_role metadata = FR_ClassFieldInitializer) \<and> fm_strictness metadata \<noteq> Strict)
           (InvalidFunctionStrictness (ct_id template) (fm_kind metadata) (fm_strictness metadata))))))"

definition validate_metadata ::
  "verify_context \<Rightarrow> u32 \<Rightarrow> function_kind list \<Rightarrow> compiled_function_template \<Rightarrow> verified_bytecode \<Rightarrow>
   (module_build_error, unit) outcome" where
  "validate_metadata context source_len function_kinds template bytecode =
     (let i = ct_id template; metadata = ct_metadata template; layout = fm_layout metadata
      in and_then (validate_source_map i (fm_source_map metadata) bytecode source_len) (\<lambda>_.
         and_then (validate_handlers i (fm_handlers metadata) bytecode) (\<lambda>handler_depth.
         and_then (validate_finally_instructions i (fm_handlers metadata) bytecode) (\<lambda>_.
         and_then (validate_class_instructions i (fm_kind metadata) (fm_role metadata) bytecode function_kinds) (\<lambda>_.
         and_then (validate_class_environments i (fm_handlers metadata) bytecode) (\<lambda>_.
         and_then (validate_function_layout i layout handler_depth (ctx_scope_name_count context)) (\<lambda>_.
         and_then (validate_feedback_sites i (fm_feedback_sites metadata) bytecode (feedback_slot_count layout)) (\<lambda>_.
         and_then (validate_binding_plan i (fm_binding_plan metadata) layout (ctx_max_environment_slot_count context)
           (fm_environment_slots metadata) (ctx_function_count context)) (\<lambda>_.
         and_then (validate_environment_slots i (fm_environment_slots metadata) layout) (\<lambda>_.
         validate_suspend_points i (fm_suspend_points metadata) bytecode (register_count layout) (fm_kind metadata)))))))))))"

definition compile_template ::
  "u8 list \<Rightarrow> u32 \<Rightarrow> verify_context \<Rightarrow> function_kind list \<Rightarrow> nat \<Rightarrow> compiled_function_template \<Rightarrow>
   (module_build_error, compiled_function) outcome" where
  "compile_template source source_len context function_kinds index template =
     and_then (check_template source source_len index template) (\<lambda>_.
     and_then (map_err (VerifyFunction (ct_id template)) (verify (ct_words template)
       (context\<lparr>ctx_register_count := register_count (fm_layout (ct_metadata template))\<rparr>))) (\<lambda>bytecode.
     and_then (validate_metadata context source_len function_kinds template bytecode) (\<lambda>_.
     Ok \<lparr>cf_id = ct_id template, cf_bytecode = bytecode, cf_metadata = ct_metadata template,
         cf_source_range = ct_source_range template\<rparr>)))"

fun compile_templates ::
  "(nat \<Rightarrow> compiled_function_template \<Rightarrow> (module_build_error, compiled_function) outcome) \<Rightarrow> nat \<Rightarrow>
   compiled_function_template list \<Rightarrow> (module_build_error, compiled_function list) outcome" where
  "compile_templates f index [] = Ok []"
| "compile_templates f index (template # templates) =
     and_then (f index template) (\<lambda>function.
     and_then (compile_templates f (index + 1) templates) (\<lambda>functions. Ok (function # functions)))"

section \<open>The module\<close>

record compiled_module =
  cm_source :: "u8 list"
  cm_constants :: "bytecode_constant list"
  cm_scope_names :: "string list"
  cm_functions :: "compiled_function list"
  cm_entry_function :: function_id
  cm_module_stencil :: "module_stencil option"

definition check_counts ::
  "u8 list \<Rightarrow> bytecode_constant list \<Rightarrow> string list \<Rightarrow> compiled_function_template list \<Rightarrow> function_id \<Rightarrow>
   (module_build_error, u32 \<times> u32 \<times> u32) outcome" where
  "check_counts source constants scope_names templates entry =
     and_then (ok_or (SourceTooLarge (length source)) (u32_try_from (length source))) (\<lambda>source_len.
     and_then (ok_or (TooManyConstants (length constants)) (u32_try_from (length constants))) (\<lambda>_.
     and_then (ok_or (TooManyScopeNames (length scope_names)) (u32_try_from (length scope_names))) (\<lambda>scope_name_count.
     and_then (ok_or (TooManyFunctions (length templates)) (u32_try_from (length templates))) (\<lambda>function_count.
     and_then (reject_if (entry \<ge> function_count) (InvalidEntryFunction entry function_count)) (\<lambda>_.
     Ok (source_len, scope_name_count, function_count))))))"

definition compiled_module_new ::
  "u8 list \<Rightarrow> bytecode_constant list \<Rightarrow> string list \<Rightarrow> compiled_function_template list \<Rightarrow> function_id \<Rightarrow>
   (module_build_error, compiled_module) outcome option" where
  "compiled_module_new source constants scope_names templates entry =
     (case check_counts source constants scope_names templates entry of
        Err e \<Rightarrow> Some (Err e)
      | Panic \<Rightarrow> Some Panic
      | Ok (source_len, scope_name_count, function_count) \<Rightarrow>
          map_option (\<lambda>max_slots.
            let context = \<lparr>ctx_register_count = 0, ctx_constants = constants, ctx_function_count = function_count,
                  ctx_scope_name_count = scope_name_count, ctx_max_environment_slot_count = max_slots\<rparr>;
                function_kinds = map (\<lambda>t. fm_kind (ct_metadata t)) templates
            in and_then (compile_templates (compile_template source source_len context function_kinds) 0 templates)
                 (\<lambda>functions. Ok \<lparr>cm_source = source, cm_constants = constants, cm_scope_names = scope_names,
                    cm_functions = functions, cm_entry_function = entry, cm_module_stencil = None\<rparr>))
          (max_environment_slot_count templates))"

definition with_module_stencil :: "compiled_module \<Rightarrow> module_stencil \<Rightarrow> (module_build_error, compiled_module) outcome" where
  "with_module_stencil m stencil =
     and_then (index_or_panic (cm_functions m) (unat (cm_entry_function m))) (\<lambda>entry.
     let kind = fm_kind (cf_metadata entry)
     in and_then (reject_if (kind \<noteq> FK_Module) (ModuleStencilOnNonModuleEntry kind)) (\<lambda>_.
        Ok (m\<lparr>cm_module_stencil := Some stencil\<rparr>)))"

definition module_function :: "compiled_module \<Rightarrow> function_id \<Rightarrow> compiled_function option" where
  "module_function m i = get (cm_functions m) (unat i)"

section \<open>The slot loop returns\<close>

lemma max_entered_slots_returns:
  "length words < 2 ^ 32 \<Longrightarrow> \<exists>m. max_entered_slots words offset maximum = Some m"
proof (induction "length words - unat offset" arbitrary: offset maximum rule: less_induct)
  case less
  show ?case
  proof (cases "unat offset < length words")
    case True
    show ?thesis
    proof (cases "decode_instruction words offset")
      case (Ok d)
      note bounds = decode_instruction_bounds(1,3) [OF Ok]
      then have "unat (saturating_add offset (word_of_nat (instr_word_len d))) = unat offset + instr_word_len d"
        using less.prems by (simp add: saturating_add_def checked_add_def unat_of_nat unat_word_ariths)
      with bounds True less.prems less.hyps [of "saturating_add offset (word_of_nat (instr_word_len d))"] Ok
      show ?thesis by (subst max_entered_slots.simps) simp
    qed (simp_all add: max_entered_slots.simps True)
  qed (simp add: max_entered_slots.simps)
qed

lemma those_map_Some: "(\<And>x. x \<in> set xs \<Longrightarrow> \<exists>y. f x = Some y) \<Longrightarrow> \<exists>ys. those (map f xs) = Some ys"
proof (induction xs)
  case (Cons x xs)
  then obtain y ys where "f x = Some y" "those (map f xs) = Some ys" by (metis list.set_intros)
  then show ?case by simp
qed simp

section \<open>Compiled templates\<close>

lemma compile_templates_Ok:
  "compile_templates f index templates = Ok fs \<Longrightarrow> length fs = length templates \<and>
   (\<forall>i < length templates. f (index + i) (templates ! i) = Ok (fs ! i))"
proof (induction templates arbitrary: index fs)
  case (Cons t templates)
  then obtain g gs where head: "f index t = Ok g" and rest: "compile_templates f (index + 1) templates = Ok gs"
    and eq: "fs = g # gs" by (auto simp: outcome_simps)
  from Cons.IH [OF rest] head eq show ?case by (auto simp: nth_Cons split: nat.splits)
qed simp

lemma compile_templates_not_Panic:
  "(\<And>i. i < length templates \<Longrightarrow> f (index + i) (templates ! i) \<noteq> Panic) \<Longrightarrow> compile_templates f index templates \<noteq> Panic"
proof (induction templates arbitrary: index)
  case (Cons t templates)
  have "compile_templates f (index + 1) templates \<noteq> Panic"
    using Cons.prems [of "Suc _"] by (intro Cons.IH) auto
  with Cons.prems [of 0] show ?case by (auto simp: outcome_simps)
qed simp

text \<open>What the constructor has established about a module and each of its fs.\<close>

definition function_checked :: "compiled_module \<Rightarrow> verify_context \<Rightarrow> nat \<Rightarrow> compiled_function \<Rightarrow> bool" where
  "function_checked m ctx i f \<longleftrightarrow>
     (let metadata = cf_metadata f; layout = fm_layout metadata; vb = cf_bytecode f
      in unat (cf_id f) = i \<and> is_valid_for (fm_role metadata) (fm_kind metadata) \<and>
         ctx_constants ctx = cm_constants m \<and>
         unat (ctx_function_count ctx) = length (cm_functions m) \<and>
         unat (ctx_scope_name_count ctx) = length (cm_scope_names m) \<and>
         ctx_register_count ctx = register_count layout \<and>
         verify (vb_words vb) ctx = Ok vb \<and>
         (\<exists>depth. validate_handlers (cf_id f) (fm_handlers metadata) vb = Ok depth \<and>
            validate_function_layout (cf_id f) layout depth (ctx_scope_name_count ctx) = Ok ()) \<and>
         validate_class_instructions (cf_id f) (fm_kind metadata) (fm_role metadata) vb
           (map (\<lambda>g. fm_kind (cf_metadata g)) (cm_functions m)) = Ok () \<and>
         validate_class_environments (cf_id f) (fm_handlers metadata) vb = Ok () \<and>
         validate_suspend_points (cf_id f) (fm_suspend_points metadata) vb (register_count layout) (fm_kind metadata) = Ok ())"

lemma compile_template_Ok:
  assumes "compile_template source source_len ctx kinds i t = Ok f"
  shows "cf_metadata f = ct_metadata t" "cf_id f = word_of_nat i"
    "is_valid_for (fm_role (ct_metadata t)) (fm_kind (ct_metadata t))"
    "verify (ct_words t) (ctx\<lparr>ctx_register_count := register_count (fm_layout (ct_metadata t))\<rparr>) = Ok (cf_bytecode f)"
    "validate_metadata ctx source_len kinds t (cf_bytecode f) = Ok ()" "ct_id t = cf_id f"
  using assms by (auto simp: compile_template_def check_template_def Let_def outcome_simps)

lemma verify_vb_words: "verify words ctx = Ok vb \<Longrightarrow> vb_words vb = words"
  by (auto elim: verify_stream)

lemma compiled_module_new_Ok:
  assumes "compiled_module_new source constants scope_names templates entry = Some (Ok m)"
  obtains max_slots where "length (cm_functions m) = length templates" "length templates < 2 ^ 32"
    "unat entry < length templates" "cm_entry_function m = entry" "cm_constants m = constants"
    "cm_scope_names m = scope_names" "length scope_names < 2 ^ 32"
    "\<And>i. i < length templates \<Longrightarrow> compile_template source (word_of_nat (length source))
       \<lparr>ctx_register_count = 0, ctx_constants = constants, ctx_function_count = word_of_nat (length templates),
        ctx_scope_name_count = word_of_nat (length scope_names), ctx_max_environment_slot_count = max_slots\<rparr>
       (map (\<lambda>t. fm_kind (ct_metadata t)) templates) i (templates ! i) = Ok (cm_functions m ! i)"
proof -
  from assms obtain max_slots where
    counts: "length templates < 2 ^ 32" "length scope_names < 2 ^ 32" "entry < word_of_nat (length templates)"
    and comp: "compile_templates (compile_template source (word_of_nat (length source))
       \<lparr>ctx_register_count = 0, ctx_constants = constants, ctx_function_count = word_of_nat (length templates),
        ctx_scope_name_count = word_of_nat (length scope_names), ctx_max_environment_slot_count = max_slots\<rparr>
       (map (\<lambda>t. fm_kind (ct_metadata t)) templates)) 0 templates = Ok (cm_functions m)"
    and m: "cm_entry_function m = entry" "cm_constants m = constants" "cm_scope_names m = scope_names"
    by (auto simp: compiled_module_new_def check_counts_def outcome_simps u32_simps Let_def not_le
        split: outcome.splits prod.splits)
  from counts have "unat entry < length templates" by (simp add: word_less_nat_alt unat_u32_of_nat)
  with compile_templates_Ok [OF comp] counts m show thesis by (intro that [of max_slots]) simp_all
qed

lemma compiled_module_checked:
  assumes "compiled_module_new source constants scope_names templates entry = Some (Ok m)"
  obtains ctx where "\<And>i. i < length (cm_functions m) \<Longrightarrow>
    function_checked m (ctx\<lparr>ctx_register_count := register_count (fm_layout (cf_metadata (cm_functions m ! i)))\<rparr>) i
      (cm_functions m ! i)"
  using assms
proof (rule compiled_module_new_Ok)
  fix max_slots
  let ?ctx = "\<lparr>ctx_register_count = 0, ctx_constants = constants, ctx_function_count = word_of_nat (length templates),
        ctx_scope_name_count = word_of_nat (length scope_names), ctx_max_environment_slot_count = max_slots\<rparr>"
  assume lens: "length (cm_functions m) = length templates" "length templates < 2 ^ 32"
    and m: "cm_entry_function m = entry" "cm_constants m = constants" "cm_scope_names m = scope_names"
    and names: "length scope_names < 2 ^ 32"
    and each: "\<And>i. i < length templates \<Longrightarrow> compile_template source (word_of_nat (length source)) ?ctx
       (map (\<lambda>t. fm_kind (ct_metadata t)) templates) i (templates ! i) = Ok (cm_functions m ! i)"
  have kinds: "map (\<lambda>t. fm_kind (ct_metadata t)) templates = map (\<lambda>g. fm_kind (cf_metadata g)) (cm_functions m)"
    using lens compile_template_Ok(1) [OF each] by (intro nth_equalityI) simp_all
  show thesis
  proof (rule that [of ?ctx])
    fix i assume i: "i < length (cm_functions m)"
    then have "i < length templates" using lens by simp
    note c = compile_template_Ok [OF each [OF this], unfolded kinds]
    from c(5) i lens show "function_checked m (?ctx\<lparr>ctx_register_count :=
        register_count (fm_layout (cf_metadata (cm_functions m ! i)))\<rparr>) i (cm_functions m ! i)"
      using c(1-4,6) verify_vb_words [OF c(4)]
      by (auto simp: function_checked_def Let_def unat_u32_of_nat unat_u32_of_nat [OF names] m validate_metadata_def outcome_simps)
  qed
qed

section \<open>The remaining checks never panic\<close>

lemma validate_source_map_from_not_Panic: "validate_source_map_from p i entries vb n \<noteq> Panic"
  by (induction entries arbitrary: p) (auto split: option.splits)

lemma validate_feedback_sites_from_not_Panic: "validate_feedback_sites_from p i sites vb n \<noteq> Panic"
  by (induction sites arbitrary: p) (auto split: option.splits)

lemma validate_handler_nesting_not_Panic: "validate_handler_nesting earlier depth i hs \<noteq> Panic"
proof (induction hs arbitrary: earlier depth)
  case (Cons h hs)
  have "for_each (validate_handler_pair i h) earlier \<noteq> Panic"
    by (rule for_each_not_Panic) (simp add: validate_handler_pair_def outcome_simps)
  with Cons show ?case by (auto simp: outcome_simps Let_def)
qed simp

lemma validate_handlers_not_Panic: "validate_handlers i hs vb \<noteq> Panic"
proof -
  have "for_each (validate_handler_range i vb) hs \<noteq> Panic"
    by (rule for_each_not_Panic) (simp add: validate_handler_range_def outcome_simps Let_def)
  then show ?thesis
    by (auto simp: validate_handlers_def outcome_simps Let_def validate_handler_nesting_not_Panic)
qed

lemma validate_function_layout_not_Panic: "validate_function_layout i layout depth n \<noteq> Panic"
  by (simp add: validate_function_layout_def outcome_simps)

lemma validate_binding_plan_not_Panic: "validate_binding_plan i bindings layout slots metadata n \<noteq> Panic"
proof -
  have "for_each (validate_binding_bounds i layout slots n) bindings \<noteq> Panic"
    by (rule for_each_not_Panic)
      (auto simp: validate_binding_bounds_def outcome_simps Let_def split: binding_location.splits)
  moreover have "for_each (validate_binding_owner i layout metadata) bindings \<noteq> Panic"
    by (rule for_each_not_Panic) (auto simp: validate_binding_owner_def outcome_simps split: option.splits)
  ultimately show ?thesis by (simp add: validate_binding_plan_def outcome_simps)
qed

lemmas metadata_not_Panic = validate_source_map_from_not_Panic validate_feedback_sites_from_not_Panic
  validate_handlers_not_Panic validate_function_layout_not_Panic validate_binding_plan_not_Panic

lemma verify_not_Panic: "verify words ctx \<noteq> Panic"
proof -
  have "for_each (\<lambda>(offset, d). verify_instruction d offset starts ctx) xs \<noteq> Panic" for starts xs
    by (rule for_each_not_Panic) (auto simp: verify_instruction_not_Panic)
  then show ?thesis by (auto simp: verify_def outcome_simps verify_scan_not_Panic)
qed

lemma compile_template_not_Panic:
  assumes "length kinds < 2 ^ 32" "ctx_function_count ctx = word_of_nat (length kinds)"
    and "length (fm_environment_slots (ct_metadata t)) < 2 ^ 32"
  shows "compile_template source source_len ctx kinds i t \<noteq> Panic"
proof -
  let ?ctx = "ctx\<lparr>ctx_register_count := register_count (fm_layout (ct_metadata t))\<rparr>"
  have "validate_metadata ctx source_len kinds t vb \<noteq> Panic" if v: "verify (ct_words t) ?ctx = Ok vb" for vb
    using validators_not_Panic [OF v assms(1) _ assms(3)] assms(2) metadata_not_Panic
    by (auto simp: validate_metadata_def validate_source_map_def validate_feedback_sites_def Let_def outcome_simps)
  moreover have "check_template source source_len i t \<noteq> Panic"
    by (auto simp: check_template_def check_source_range_def Let_def outcome_simps split: option.splits)
  ultimately show ?thesis by (auto simp: compile_template_def outcome_simps verify_not_Panic)
qed

section \<open>Class opcodes of an accepted module\<close>

lemma validate_class_instructions_Ok:
  assumes "verify words ctx = Ok vb" "stream words 0 = Some is" "(pc, d) \<in> set is"
    and "validate_class_instructions i kind role vb kinds = Ok ()"
  shows "class_step i kind role kinds () (pc, d) = Ok ()"
proof -
  have "fold_outcome (class_step i kind role kinds) is () = Ok ()"
    using assms(4) by (simp add: validate_class_instructions_def verify_vb_words [OF assms(1)] walk_stream [OF assms(2)])
  with assms(3) show ?thesis by (auto simp: fold_outcome_unit_Ok)
qed

lemma verify_function_operand:
  assumes "verify words ctx = Ok vb" "stream words 0 = Some is" "(pc, d) \<in> set is"
    and "instr_opcode d \<in> {Op_CreateClosure, Op_CreateClass, Op_CreateBaseClass}"
  shows "instr_operands d ! 1 < ctx_function_count ctx"
proof -
  from assms(1-3) have "verify_instruction d (word_of_nat pc) (vb_starts vb) ctx = Ok ()"
    by (auto elim!: verify_stream)
  with assms(4) show ?thesis
    by (auto simp: verify_instruction_def verify_indices_def Let_def outcome_simps not_le split: if_splits)
qed

section \<open>Properties\<close>

text \<open>C23. Building a module always ends with a module or an error: for templates below \<open>2 ^ 32\<close> words and
  environment slots the constructor neither diverges nor panics.\<close>

theorem module_build_total:
  assumes "\<forall>t \<in> set templates. length (ct_words t) < 2 ^ 32 \<and> length (fm_environment_slots (ct_metadata t)) < 2 ^ 32"
  shows "\<exists>r. compiled_module_new source constants scope_names templates entry = Some r \<and> r \<noteq> Panic"
proof (cases "check_counts source constants scope_names templates entry")
  case (Ok counts)
  obtain source_len scope_name_count function_count where counts: "counts = (source_len, scope_name_count, function_count)"
    by (cases counts)
  with Ok have small: "length templates < 2 ^ 32" and fc: "function_count = word_of_nat (length templates)"
    by (auto simp: check_counts_def outcome_simps u32_simps)
  obtain xs where "those (map (\<lambda>t. max_entered_slots (ct_words t) 0 0) templates) = Some xs"
    using those_map_Some [of templates "\<lambda>t. max_entered_slots (ct_words t) 0 0"] max_entered_slots_returns assms by blast
  then obtain max_slots where slots: "max_environment_slot_count templates = Some max_slots"
    by (simp add: max_environment_slot_count_def encoded_class_environment_slots_def)
  let ?ctx = "\<lparr>ctx_register_count = 0, ctx_constants = constants, ctx_function_count = function_count,
      ctx_scope_name_count = scope_name_count, ctx_max_environment_slot_count = max_slots\<rparr>"
  let ?kinds = "map (\<lambda>t. fm_kind (ct_metadata t)) templates"
  have "compile_template source source_len ?ctx ?kinds i (templates ! i) \<noteq> Panic" if "i < length templates" for i
    using that assms small by (intro compile_template_not_Panic) (simp_all add: fc)
  then have "compile_templates (compile_template source source_len ?ctx ?kinds) 0 templates \<noteq> Panic"
    by (intro compile_templates_not_Panic) simp
  with Ok counts slots show ?thesis by (auto simp: compiled_module_new_def Let_def outcome_simps)
next
  case Panic
  then show ?thesis by (simp add: check_counts_def outcome_simps)
qed (simp add: compiled_module_new_def)

text \<open>C22. Closures resolve: in an accepted module every instruction that creates a closure or a class names an
  existing function of the module, the function stored under that id, and a class instruction names a
  constructor of the matching kind.\<close>

theorem module_closures_resolve:
  assumes new: "compiled_module_new source constants scope_names templates entry = Some (Ok m)"
    and f: "f \<in> set (cm_functions m)" and st: "stream (vb_words (cf_bytecode f)) 0 = Some is" "(pc, d) \<in> set is"
    and op: "instr_opcode d \<in> {Op_CreateClosure, Op_CreateClass, Op_CreateBaseClass}"
  shows "\<exists>g. module_function m (instr_operands d ! 1) = Some g \<and> cf_id g = instr_operands d ! 1 \<and>
    (instr_opcode d = Op_CreateClass \<longrightarrow> fm_kind (cf_metadata g) = FK_DerivedClassConstructor) \<and>
    (instr_opcode d = Op_CreateBaseClass \<longrightarrow> fm_kind (cf_metadata g) = FK_BaseClassConstructor)"
proof -
  from f obtain i where i: "i < length (cm_functions m)" "f = cm_functions m ! i" by (auto simp: in_set_conv_nth)
  obtain ctx where checked: "\<And>i. i < length (cm_functions m) \<Longrightarrow>
    function_checked m (ctx\<lparr>ctx_register_count := register_count (fm_layout (cf_metadata (cm_functions m ! i)))\<rparr>) i
      (cm_functions m ! i)"
    using compiled_module_checked [OF new] by blast
  let ?ctx = "ctx\<lparr>ctx_register_count := register_count (fm_layout (cf_metadata f))\<rparr>"
  let ?target = "unat (instr_operands d ! 1)"
  from checked [OF i(1)] i(2) have v: "verify (vb_words (cf_bytecode f)) ?ctx = Ok (cf_bytecode f)"
    and count: "unat (ctx_function_count ctx) = length (cm_functions m)"
    and cls: "validate_class_instructions (cf_id f) (fm_kind (cf_metadata f)) (fm_role (cf_metadata f)) (cf_bytecode f)
       (map (\<lambda>g. fm_kind (cf_metadata g)) (cm_functions m)) = Ok ()"
    by (auto simp: function_checked_def Let_def)
  have target: "?target < length (cm_functions m)"
    using verify_function_operand [OF v st op] count by (simp add: word_less_nat_alt)
  then have "cf_id (cm_functions m ! ?target) = instr_operands d ! 1"
    using checked [OF target] by (auto simp: function_checked_def Let_def word_unat_eq_iff)
  moreover have "instr_opcode d \<in> {Op_CreateClass, Op_CreateBaseClass} \<Longrightarrow> fm_kind (cf_metadata (cm_functions m ! ?target)) =
      (if instr_opcode d = Op_CreateClass then FK_DerivedClassConstructor else FK_BaseClassConstructor)"
    using validate_class_instructions_Ok [OF v st cls] target
    by (auto simp: class_step_def Let_def outcome_simps index_or_panic_def)
  moreover have "Op_CreateBaseClass \<noteq> Op_CreateClass" by (simp add: opcode_eq_iff)
  ultimately show ?thesis using target by (auto simp: module_function_def get_def)
qed

text \<open>The entry function of an accepted module exists, so attaching a module record never panics, and it
  succeeds exactly when the entry function is a module body.\<close>

theorem module_stencil_attaches:
  assumes new: "compiled_module_new source constants scope_names templates entry = Some (Ok m)"
  shows "\<exists>f. module_function m (cm_entry_function m) = Some f \<and>
    with_module_stencil m stencil =
      (if fm_kind (cf_metadata f) = FK_Module then Ok (m\<lparr>cm_module_stencil := Some stencil\<rparr>)
       else Err (ModuleStencilOnNonModuleEntry (fm_kind (cf_metadata f))))"
  using new
proof (rule compiled_module_new_Ok)
  assume "length (cm_functions m) = length templates" "unat entry < length templates" "cm_entry_function m = entry"
  then show ?thesis
    by (simp add: module_function_def with_module_stencil_def index_or_panic_def get_def Let_def reject_if_def)
qed

section \<open>Witnesses\<close>

text \<open>A module whose body creates a closure of function 1, which returns.\<close>

definition tiny_layout :: function_layout where
  "tiny_layout = \<lparr>register_count = 1, argument_count = 0, function_length = 0, name_scope = None,
     temporary_register_count = 1, feedback_slot_count = 0, environment_slot_count = 0, self_binding_slot = None,
     max_handler_depth = 0, max_completion_depth = 0, needs_argument_source = False, has_rest_parameter = False,
     simple_parameter_list = True\<rparr>"

definition tiny_templates :: "compiled_function_template list" where
  "tiny_templates = [template_new 0 [0x1000e, 46] (function_metadata_new FK_Module tiny_layout),
     template_new 1 [46] (function_metadata_new FK_Ordinary tiny_layout)]"

definition tiny_module :: compiled_module where
  "tiny_module = \<lparr>cm_source = [], cm_constants = [], cm_scope_names = [],
     cm_functions = [\<lparr>cf_id = 0, cf_bytecode = \<lparr>vb_words = [0x1000e, 46], vb_starts = [True, True]\<rparr>,
         cf_metadata = function_metadata_new FK_Module tiny_layout, cf_source_range = UNAVAILABLE\<rparr>,
       \<lparr>cf_id = 1, cf_bytecode = \<lparr>vb_words = [46], vb_starts = [True]\<rparr>,
         cf_metadata = function_metadata_new FK_Ordinary tiny_layout, cf_source_range = UNAVAILABLE\<rparr>],
     cm_entry_function = 0, cm_module_stencil = None\<rparr>"

lemma tiny_decode:
  "decode_instruction [0x1000e, 46] 0 = Ok (decoded Op_CreateClosure Compact [0, 1, 0] 1)"
  "decode_instruction [0x1000e, 46] 1 = Ok (decoded Op_ReturnUndefined Compact [0, 0, 0] 1)"
  "decode_instruction [46] 0 = Ok (decoded Op_ReturnUndefined Compact [0, 0, 0] 1)"
  by (simp_all add: decode_eval)

lemma tiny_streams:
  "stream [0x1000e, 46] 0 = Some [(0, decoded Op_CreateClosure Compact [0, 1, 0] 1),
     (1, decoded Op_ReturnUndefined Compact [0, 0, 0] 1)]"
  "stream [46] 0 = Some [(0, decoded Op_ReturnUndefined Compact [0, 0, 0] 1)]"
  by (simp_all add: stream.simps tiny_decode)

lemma tiny_slots: "max_environment_slot_count tiny_templates = Some 0"
  by (simp add: max_environment_slot_count_def encoded_class_environment_slots_def tiny_templates_def template_new_def
      max_entered_slots.simps tiny_decode saturating_add_def checked_add_def enters_environment_def opcode_eq_iff
      max_or_zero_def function_metadata_new_def tiny_layout_def)

lemma tiny_verify:
  "verify [0x1000e, 46] \<lparr>ctx_register_count = 1, ctx_constants = [], ctx_function_count = 2, ctx_scope_name_count = 0,
     ctx_max_environment_slot_count = 0\<rparr> = Ok \<lparr>vb_words = [0x1000e, 46], vb_starts = [True, True]\<rparr>"
  "verify [46] \<lparr>ctx_register_count = 1, ctx_constants = [], ctx_function_count = 2, ctx_scope_name_count = 0,
     ctx_max_environment_slot_count = 0\<rparr> = Ok \<lparr>vb_words = [46], vb_starts = [True]\<rparr>"
  by (simp_all add: tiny_decode verify_eval) (simp add: word_le_nat_alt)

lemma tiny_module_new: "compiled_module_new [] [] [] tiny_templates 0 = Some (Ok tiny_module)"
proof -
  have "compile_templates (compile_template [] 0 \<lparr>ctx_register_count = 0, ctx_constants = [], ctx_function_count = 2,
      ctx_scope_name_count = 0, ctx_max_environment_slot_count = 0\<rparr> [FK_Module, FK_Ordinary]) 0 tiny_templates
    = Ok (cm_functions tiny_module)"
    by (simp add: tiny_templates_def tiny_module_def compile_template_def check_template_def check_source_range_def
        source_range_span_def UNAVAILABLE_def template_new_def function_metadata_new_def tiny_layout_def tiny_verify
        validate_metadata_def validate_source_map_def validate_feedback_sites_def validate_handlers_def
        validate_finally_instructions_def validate_class_instructions_def validate_class_environments_def
        validate_function_layout_def validate_binding_plan_def validate_environment_slots_def validate_suspend_points_def
        validate_suspend_opcodes_def walk_stream [OF tiny_streams(1)] walk_stream [OF tiny_streams(2)] finally_step_def
        finally_instruction_valid_def class_step_def environment_step_def environment_edge_step_def suspend_step_def
        jump_target_def is_suspend_def is_abrupt_def enters_environment_def initializes_environment_def
        leaves_environment_def u32_try_from_def opcode_eq_iff reject_if_def)
  then show ?thesis
    by (simp add: compiled_module_new_def check_counts_def tiny_slots u32_try_from_def reject_if_def)
       (simp add: tiny_templates_def tiny_module_def template_new_def function_metadata_new_def)
qed

theorem module_build_total_witness:
  "\<exists>r. compiled_module_new [] [] [] tiny_templates 0 = Some r \<and> r \<noteq> Panic"
  by (rule module_build_total) (simp add: tiny_templates_def template_new_def function_metadata_new_def)

theorem module_closures_resolve_witness:
  "compiled_module_new [] [] [] tiny_templates 0 = Some (Ok tiny_module) \<and>
   (\<exists>g. module_function tiny_module 1 = Some g \<and> cf_id g = 1)"
proof -
  let ?f = "cm_functions tiny_module ! 0"
  have f: "?f \<in> set (cm_functions tiny_module)" "stream (vb_words (cf_bytecode ?f)) 0 =
      Some [(0, decoded Op_CreateClosure Compact [0, 1, 0] 1), (1, decoded Op_ReturnUndefined Compact [0, 0, 0] 1)]"
    by (simp_all add: tiny_module_def tiny_streams)
  have "\<exists>g. module_function tiny_module (instr_operands (decoded Op_CreateClosure Compact [0, 1, 0] 1) ! 1) = Some g \<and>
      cf_id g = instr_operands (decoded Op_CreateClosure Compact [0, 1, 0] 1) ! 1"
    using module_closures_resolve [OF tiny_module_new f, of 0 "decoded Op_CreateClosure Compact [0, 1, 0] 1"]
    by auto
  then show ?thesis using tiny_module_new by simp
qed

theorem module_stencil_attaches_witness:
  "compiled_module_new [] [] [] tiny_templates 0 = Some (Ok tiny_module) \<and>
   (\<exists>f. module_function tiny_module (cm_entry_function tiny_module) = Some f)"
  using module_stencil_attaches [OF tiny_module_new] tiny_module_new by blast

end
