(* ===== verification/Tachyon_Value.thy ===== *)
theory Tachyon_Value
  imports Prelude
begin

text \<open>
  The NaN-boxed value of \<open>crates/tachyon-value/src/lib.rs\<close>: logical heap addresses, the constructors
  and accessors of \<open>Value\<close>, and the checked classification \<open>decode\<close>.

  A \<open>Value\<close> is its 64 bits. An \<open>f64\<close> is its IEEE bit pattern, which is all that boxing looks at; an
  \<open>i32\<close> or \<open>i64\<close> is a word of that width, read with \<open>sint\<close> where the source compares signed.
\<close>

section \<open>Constants\<close>

definition TAGGED_MASK :: u64 where "TAGGED_MASK = 0xfff8000000000000"
definition TAGGED_PREFIX :: u64 where "TAGGED_PREFIX = 0xfff8000000000000"
definition TAG_SHIFT :: nat where "TAG_SHIFT = 48"
definition TAG_MASK :: u64 where "TAG_MASK = 0x0007000000000000"
definition PAYLOAD_MASK :: u64 where "PAYLOAD_MASK = 0x0000ffffffffffff"
definition CANONICAL_NAN_BITS :: u64 where "CANONICAL_NAN_BITS = 0x7ff8000000000000"
definition LOW_U32_MASK :: u64 where "LOW_U32_MASK = 0xffffffff"
definition SMALL_BIGINT_SIGN_BIT :: u64 where "SMALL_BIGINT_SIGN_BIT = push_bit 47 1"
definition SMALL_BIGINT_MIN :: int where "SMALL_BIGINT_MIN = - (2 ^ 47)"
definition SMALL_BIGINT_MAX :: int where "SMALL_BIGINT_MAX = 2 ^ 47 - 1"

section \<open>Logical heap addresses\<close>

type_synonym span_id = u16
type_synonym span_offset = u16
type_synonym raw_heap_ref = u32

definition span_offset_new :: "u16 \<Rightarrow> span_offset option" where
  "span_offset_new offset = (if offset \<noteq> 0 then Some offset else None)"

definition raw_heap_ref_new :: "u32 \<Rightarrow> raw_heap_ref option" where
  "raw_heap_ref_new offset =
     (if (ucast offset :: u16) = 0 then None else if offset \<noteq> 0 then Some offset else None)"

definition raw_heap_ref_from_parts :: "span_id \<Rightarrow> span_offset \<Rightarrow> ('e, raw_heap_ref) outcome" where
  "raw_heap_ref_from_parts i offset =
     (let encoded = push_bit 16 (ucast i) OR ucast offset :: u32
      in if encoded \<noteq> 0 then Ok encoded else Panic)"

definition raw_heap_ref_span_id :: "raw_heap_ref \<Rightarrow> span_id" where
  "raw_heap_ref_span_id r = ucast (drop_bit 16 r)"

definition raw_heap_ref_span_offset :: "raw_heap_ref \<Rightarrow> ('e, span_offset) outcome" where
  "raw_heap_ref_span_offset r = expect (span_offset_new (ucast r))"

section \<open>Immediates and tags\<close>

datatype immediate = Undefined | Null | False_Value | True_Value | Hole | Uninitialized

definition immediate_payload :: "immediate \<Rightarrow> u64" where
  "immediate_payload i =
     (case i of Undefined \<Rightarrow> 0 | Null \<Rightarrow> 1 | False_Value \<Rightarrow> 2 | True_Value \<Rightarrow> 3 | Hole \<Rightarrow> 4 | Uninitialized \<Rightarrow> 5)"

definition immediate_from_payload :: "u64 \<Rightarrow> immediate option" where
  "immediate_from_payload payload =
     (if payload = 0 then Some Undefined
      else if payload = 1 then Some Null
      else if payload = 2 then Some False_Value
      else if payload = 3 then Some True_Value
      else if payload = 4 then Some Hole
      else if payload = 5 then Some Uninitialized
      else None)"

datatype tag = Tag_HeapRef | Tag_Int32 | Tag_Immediate | Tag_SmallBigInt

definition tag_number :: "tag \<Rightarrow> u64" where
  "tag_number t = (case t of Tag_HeapRef \<Rightarrow> 0 | Tag_Int32 \<Rightarrow> 1 | Tag_Immediate \<Rightarrow> 2 | Tag_SmallBigInt \<Rightarrow> 3)"

definition tag_from_bits :: "u64 \<Rightarrow> tag option" where
  "tag_from_bits bits =
     (let t = ucast (drop_bit TAG_SHIFT (bits AND TAG_MASK)) :: u8
      in if t = 0 then Some Tag_HeapRef
         else if t = 1 then Some Tag_Int32
         else if t = 2 then Some Tag_Immediate
         else if t = 3 then Some Tag_SmallBigInt
         else None)"

section \<open>Values\<close>

type_synonym f64_bits = u64
type_synonym js_value = u64

definition f64_is_nan :: "f64_bits \<Rightarrow> bool" where
  "f64_is_nan bits \<longleftrightarrow> bits AND 0x7ff0000000000000 = 0x7ff0000000000000 \<and> bits AND 0x000fffffffffffff \<noteq> 0"

definition is_tagged :: "js_value \<Rightarrow> bool" where
  "is_tagged v \<longleftrightarrow> v AND TAGGED_MASK = TAGGED_PREFIX"

definition from_tagged :: "tag \<Rightarrow> u64 \<Rightarrow> js_value" where
  "from_tagged t payload = (TAGGED_PREFIX OR push_bit TAG_SHIFT (tag_number t)) OR payload"

definition value_payload :: "js_value \<Rightarrow> u64" where
  "value_payload v = v AND PAYLOAD_MASK"

definition tag_bits :: "js_value \<Rightarrow> u8" where
  "tag_bits v = ucast (drop_bit TAG_SHIFT (v AND TAG_MASK))"

definition from_f64 :: "f64_bits \<Rightarrow> js_value" where
  "from_f64 number = (if f64_is_nan number then CANONICAL_NAN_BITS else number)"

definition from_i32 :: "32 word \<Rightarrow> js_value" where
  "from_i32 x = from_tagged Tag_Int32 (ucast x)"

definition from_heap_ref :: "raw_heap_ref \<Rightarrow> js_value" where
  "from_heap_ref r = from_tagged Tag_HeapRef (ucast r)"

definition from_immediate :: "immediate \<Rightarrow> js_value" where
  "from_immediate i = from_tagged Tag_Immediate (immediate_payload i)"

definition from_small_bigint :: "64 word \<Rightarrow> js_value option" where
  "from_small_bigint x =
     (if sint x < SMALL_BIGINT_MIN \<or> sint x > SMALL_BIGINT_MAX then None
      else Some (from_tagged Tag_SmallBigInt (x AND PAYLOAD_MASK)))"

definition as_f64 :: "js_value \<Rightarrow> f64_bits option" where
  "as_f64 v = (if is_tagged v then None else Some v)"

definition is_number :: "js_value \<Rightarrow> bool" where
  "is_number v \<longleftrightarrow> \<not> is_tagged v"

definition as_i32 :: "js_value \<Rightarrow> 32 word option" where
  "as_i32 v =
     (if is_tagged v \<and> tag_bits v = ucast (tag_number Tag_Int32) \<and> value_payload v AND NOT LOW_U32_MASK = 0
      then Some (ucast (value_payload v)) else None)"

definition as_heap_ref :: "js_value \<Rightarrow> raw_heap_ref option" where
  "as_heap_ref v =
     (if \<not> is_tagged v \<or> tag_bits v \<noteq> ucast (tag_number Tag_HeapRef) \<or> value_payload v AND NOT LOW_U32_MASK \<noteq> 0
      then None else raw_heap_ref_new (ucast (value_payload v)))"

definition as_immediate :: "js_value \<Rightarrow> immediate option" where
  "as_immediate v =
     (if is_tagged v \<and> tag_bits v = ucast (tag_number Tag_Immediate) then immediate_from_payload (value_payload v)
      else None)"

definition as_small_bigint :: "js_value \<Rightarrow> 64 word option" where
  "as_small_bigint v =
     (if \<not> is_tagged v \<or> tag_bits v \<noteq> ucast (tag_number Tag_SmallBigInt) then None
      else let payload = value_payload v
           in Some (if payload AND SMALL_BIGINT_SIGN_BIT = 0 then payload else payload OR NOT PAYLOAD_MASK))"

datatype value_kind =
    VK_Number f64_bits
  | VK_HeapRef raw_heap_ref
  | VK_Int32 "32 word"
  | VK_Immediate immediate
  | VK_SmallBigInt "64 word"

datatype value_decode_error =
    InvalidHeapRefPayload u64
  | InvalidInt32Payload u64
  | InvalidImmediatePayload u64
  | ReservedTag u8

definition decode_heap_ref :: "u64 \<Rightarrow> (value_decode_error, value_kind) outcome" where
  "decode_heap_ref payload =
     (if payload AND NOT LOW_U32_MASK \<noteq> 0 then Err (InvalidHeapRefPayload payload)
      else (case raw_heap_ref_new (ucast payload) of
              Some r \<Rightarrow> Ok (VK_HeapRef r)
            | None \<Rightarrow> Err (InvalidHeapRefPayload payload)))"

definition decode_int32 :: "u64 \<Rightarrow> (value_decode_error, value_kind) outcome" where
  "decode_int32 payload =
     (if payload AND NOT LOW_U32_MASK \<noteq> 0 then Err (InvalidInt32Payload payload)
      else Ok (VK_Int32 (ucast payload)))"

definition decode_immediate :: "u64 \<Rightarrow> (value_decode_error, value_kind) outcome" where
  "decode_immediate payload =
     (case immediate_from_payload payload of
        Some i \<Rightarrow> Ok (VK_Immediate i)
      | None \<Rightarrow> Err (InvalidImmediatePayload payload))"

definition decode_value :: "js_value \<Rightarrow> (value_decode_error, value_kind) outcome" where
  "decode_value v =
     (case as_f64 v of
        Some number \<Rightarrow> Ok (VK_Number number)
      | None \<Rightarrow>
          let payload = v AND PAYLOAD_MASK
          in case tag_from_bits v of
               Some Tag_HeapRef \<Rightarrow> decode_heap_ref payload
             | Some Tag_Int32 \<Rightarrow> decode_int32 payload
             | Some Tag_Immediate \<Rightarrow> decode_immediate payload
             | Some Tag_SmallBigInt \<Rightarrow> and_then (expect (as_small_bigint v)) (\<lambda>x. Ok (VK_SmallBigInt x))
             | None \<Rightarrow> Err (ReservedTag (ucast (drop_bit TAG_SHIFT (v AND TAG_MASK)))))"

section \<open>Bit fields of a value\<close>

lemma mask_eqs:
  "TAGGED_MASK = push_bit 51 (mask 13)" "TAGGED_PREFIX = push_bit 51 (mask 13)" "TAG_MASK = push_bit 48 (mask 3)"
  "PAYLOAD_MASK = mask 48" "LOW_U32_MASK = mask 32"
  by (simp_all add: TAGGED_MASK_def TAGGED_PREFIX_def TAG_MASK_def PAYLOAD_MASK_def LOW_U32_MASK_def
      mask_eq_exp_minus_1 push_bit_eq_mult)

lemma bit_TAGGED: "bit (push_bit 51 (mask 13) :: u64) n \<longleftrightarrow> 51 \<le> n \<and> n < 64"
  by (auto simp: bit_simps)

lemma is_tagged_iff: "is_tagged v \<longleftrightarrow> (\<forall>n. 51 \<le> n \<and> n < 64 \<longrightarrow> bit v n)"
proof
  assume "is_tagged v"
  then have "bit (v AND push_bit 51 (mask 13)) n \<longleftrightarrow> bit (push_bit 51 (mask 13) :: u64) n" for n
    by (simp add: is_tagged_def mask_eqs)
  then show "\<forall>n. 51 \<le> n \<and> n < 64 \<longrightarrow> bit v n" unfolding bit_and_iff bit_TAGGED by blast
next
  assume "\<forall>n. 51 \<le> n \<and> n < 64 \<longrightarrow> bit v n"
  then show "is_tagged v"
    unfolding is_tagged_def mask_eqs by (intro bit_word_eqI) (auto simp: bit_and_iff bit_TAGGED)
qed

lemma tag_field: "drop_bit TAG_SHIFT (v AND TAG_MASK) = take_bit 3 (drop_bit 48 v)"
  unfolding mask_eqs TAG_SHIFT_def by (rule bit_word_eqI) (auto simp: bit_simps)

lemma payload_field: "value_payload v = take_bit 48 v"
  by (simp add: value_payload_def mask_eqs take_bit_eq_mask)

lemma low_field: "x AND NOT LOW_U32_MASK = 0 \<longleftrightarrow> take_bit 32 x = (x :: u64)"
proof -
  have "x = (x AND NOT (mask 32)) OR take_bit 32 x" by (rule bit_word_eqI) (auto simp: bit_simps)
  moreover have "take_bit 32 x AND NOT (mask 32) = 0" by (rule bit_word_eqI) (auto simp: bit_simps)
  ultimately show ?thesis unfolding mask_eqs by (metis or.left_neutral)
qed

lemma tag_number_less: "unat (tag_number t) < 2 ^ 3"
  by (cases t) (simp_all add: tag_number_def)

text \<open>A tagged value is its tag and its payload, and any tag and 48-bit payload make one.\<close>

lemma from_tagged_fields:
  assumes "take_bit 48 payload = payload"
  shows "is_tagged (from_tagged t payload)" "value_payload (from_tagged t payload) = payload"
    "take_bit 3 (drop_bit 48 (from_tagged t payload)) = tag_number t"
proof -
  have p: "n < 48" if "bit payload n" for n using that assms by (metis bit_take_bit_iff)
  have t: "n < 3" if "bit (tag_number t) n" for n using that tag_number_less by (rule small_word_bit [rotated])
  note bits = from_tagged_def mask_eqs TAG_SHIFT_def bit_simps
  show "is_tagged (from_tagged t payload)" by (auto simp: is_tagged_iff bits)
  show "value_payload (from_tagged t payload) = payload"
    unfolding payload_field by (rule bit_word_eqI) (auto simp: bits dest: p)
  show "take_bit 3 (drop_bit 48 (from_tagged t payload)) = tag_number t"
    by (rule bit_word_eqI) (auto simp: bits dest: p t)
qed

lemma tagged_eqI:
  assumes "is_tagged v" "take_bit 3 (drop_bit 48 v) = tag_number t"
  shows "v = from_tagged t (value_payload v)"
proof (rule bit_word_eqI)
  fix n assume "n < LENGTH(64)"
  then have n: "n < 64" by simp
  have tag: "bit (tag_number t) k \<longleftrightarrow> k < 3 \<and> bit v (48 + k)" for k
    unfolding assms(2) [symmetric] by (simp add: bit_simps)
  show "bit v n = bit (from_tagged t (value_payload v)) n"
    using n assms(1) [unfolded is_tagged_iff] tag [of "n - 48"]
    by (auto simp: from_tagged_def payload_field mask_eqs TAG_SHIFT_def bit_simps)
qed

section \<open>Classification by tag\<close>

lemma tag_bits_alt: "tag_bits v = ucast (take_bit 3 (drop_bit 48 v))"
  by (simp only: tag_bits_def tag_field)

lemma tag_number_inj: "tag_number s = tag_number t \<longleftrightarrow> s = t"
  by (cases s; cases t) (simp_all add: tag_number_def)

lemma tag_bits_tag_number: "tag_bits v = ucast (tag_number t) \<longleftrightarrow> take_bit 3 (drop_bit 48 v) = tag_number t"
proof
  assume "tag_bits v = ucast (tag_number t)"
  then have "unat (tag_bits v) = unat (ucast (tag_number t) :: u8)" by simp
  moreover have "unat (tag_bits v) = unat (take_bit 3 (drop_bit 48 v))"
    unfolding tag_bits_alt by (simp add: unsigned_ucast_eq unsigned_take_bit_eq)
  moreover have "unat (ucast (tag_number t) :: u8) = unat (tag_number t)"
    using tag_number_less [of t] by (simp add: unsigned_ucast_eq take_bit_nat_eq_self)
  ultimately show "take_bit 3 (drop_bit 48 v) = tag_number t"
    by (simp add: word_unat_eq_iff)
qed (simp add: tag_bits_alt)

lemma tag_from_bits_iff: "tag_from_bits v = Some t \<longleftrightarrow> take_bit 3 (drop_bit 48 v) = tag_number t"
  unfolding tag_bits_tag_number [symmetric] tag_from_bits_def Let_def tag_bits_def [symmetric]
  by (cases t) (auto simp: tag_number_def)

lemma from_tagged_decode:
  assumes "take_bit 48 payload = payload"
  shows "is_tagged (from_tagged t payload)" "value_payload (from_tagged t payload) = payload"
    "tag_from_bits (from_tagged t payload) = Some t" "tag_bits (from_tagged t payload) = ucast (tag_number t)"
  using from_tagged_fields [OF assms, of t] by (simp_all add: tag_from_bits_iff tag_bits_tag_number)

lemma tagged_cases:
  assumes "is_tagged v" "tag_from_bits v = Some t"
  shows "v = from_tagged t (value_payload v)" "tag_bits v = ucast (tag_number s) \<longleftrightarrow> s = t"
  using assms tagged_eqI by (auto simp: tag_from_bits_iff tag_bits_tag_number tag_number_inj)

section \<open>Numbers are never tagged\<close>

lemma f64_nan_bits:
  assumes "is_tagged v"
  shows "f64_is_nan v"
proof -
  have e: "(0x7ff0000000000000 :: u64) = push_bit 52 (mask 11)" and m: "(0x000fffffffffffff :: u64) = mask 52"
    by (simp_all add: mask_eq_exp_minus_1 push_bit_eq_mult)
  have bits: "bit v n" if "51 \<le> n" "n < 64" for n using assms that by (simp add: is_tagged_iff)
  have "v AND push_bit 52 (mask 11) = push_bit 52 (mask 11)"
    by (rule bit_word_eqI) (auto simp: bit_simps intro: bits)
  moreover have "bit (v AND mask 52) 51" using bits [of 51] by (simp add: bit_simps)
  then have "v AND mask 52 \<noteq> 0" by (metis bit_0_eq bot_apply bot_bool_def)
  ultimately show ?thesis by (simp only: f64_is_nan_def e m simp_thms not_False_eq_True)
qed

lemma canonical_nan_untagged: "\<not> is_tagged CANONICAL_NAN_BITS" "f64_is_nan CANONICAL_NAN_BITS"
  by (simp_all add: is_tagged_def CANONICAL_NAN_BITS_def TAGGED_MASK_def TAGGED_PREFIX_def f64_is_nan_def)

lemma from_f64_untagged: "\<not> is_tagged (from_f64 n)"
  using f64_nan_bits [of n] canonical_nan_untagged by (auto simp: from_f64_def)

section \<open>Small integers survive sign extension\<close>

lemma small_bigint_bits:
  assumes "SMALL_BIGINT_MIN \<le> sint (x :: 64 word)" "sint x \<le> SMALL_BIGINT_MAX" "47 \<le> n" "n < 64"
  shows "bit x n = bit x 47"
proof -
  have "signed_take_bit 47 (sint x) = sint x"
    using assms(1,2) by (simp add: signed_take_bit_int_eq_self_iff SMALL_BIGINT_MIN_def SMALL_BIGINT_MAX_def)
  then have "bit (sint x) n = bit (signed_take_bit 47 (sint x)) n" by simp
  also have "\<dots> = bit (sint x) 47" using assms(3) by (simp add: bit_signed_take_bit_iff min_def)
  finally show ?thesis using assms(4) by (simp add: bit_sint_iff)
qed

section \<open>Specification: what a value stands for\<close>

fun kind_valid :: "value_kind \<Rightarrow> bool" where
  "kind_valid (VK_Number n) \<longleftrightarrow> \<not> f64_is_nan n \<or> n = CANONICAL_NAN_BITS"
| "kind_valid (VK_HeapRef r) \<longleftrightarrow> (ucast r :: u16) \<noteq> 0"
| "kind_valid (VK_Int32 i) \<longleftrightarrow> True"
| "kind_valid (VK_Immediate i) \<longleftrightarrow> True"
| "kind_valid (VK_SmallBigInt x) \<longleftrightarrow> SMALL_BIGINT_MIN \<le> sint x \<and> sint x \<le> SMALL_BIGINT_MAX"

fun encode_kind :: "value_kind \<Rightarrow> js_value option" where
  "encode_kind (VK_Number n) = Some (from_f64 n)"
| "encode_kind (VK_HeapRef r) = Some (from_heap_ref r)"
| "encode_kind (VK_Int32 i) = Some (from_i32 i)"
| "encode_kind (VK_Immediate i) = Some (from_immediate i)"
| "encode_kind (VK_SmallBigInt x) = from_small_bigint x"

lemma ucast_u32_u64:
  "take_bit 48 (ucast (x :: u32) :: u64) = ucast x" "(ucast (ucast x :: u64) :: u32) = x"
  "(ucast x :: u64) AND NOT LOW_U32_MASK = 0"
proof -
  show "take_bit 48 (ucast x :: u64) = ucast x" by (rule bit_word_eqI) (auto simp: bit_simps dest: bit_imp_le_length)
  show "(ucast (ucast x :: u64) :: u32) = x" by (rule bit_word_eqI) (auto simp: bit_simps)
  show "(ucast x :: u64) AND NOT LOW_U32_MASK = 0"
    unfolding low_field by (rule bit_word_eqI) (auto simp: bit_simps dest: bit_imp_le_length)
qed

lemma raw_heap_ref_new_iff: "raw_heap_ref_new x = Some r \<longleftrightarrow> r = x \<and> (ucast x :: u16) \<noteq> 0"
  by (auto simp: raw_heap_ref_new_def)

lemma immediate_roundtrip:
  "immediate_from_payload (immediate_payload i) = Some i" "take_bit 48 (immediate_payload i) = immediate_payload i"
  "immediate_from_payload p = Some i \<longleftrightarrow> p = immediate_payload i"
  by (cases i; auto simp: immediate_from_payload_def immediate_payload_def)+

lemma sign_bit: "x AND SMALL_BIGINT_SIGN_BIT = 0 \<longleftrightarrow> \<not> bit x 47"
  by (simp only: SMALL_BIGINT_SIGN_BIT_def push_bit_of_1 and_exp_eq_0_iff_not_bit)

lemma sign_extend:
  assumes "kind_valid (VK_SmallBigInt x)"
  shows "(let payload = take_bit 48 x in if payload AND SMALL_BIGINT_SIGN_BIT = 0 then payload else payload OR NOT PAYLOAD_MASK) = x"
proof -
  have ext: "bit x n = bit x 47" if "48 \<le> n" "n < 64" for n
    using small_bigint_bits [of x n] assms that by simp
  show ?thesis
    unfolding Let_def mask_eqs sign_bit
  proof (rule bit_word_eqI)
    fix n assume "n < LENGTH(64)"
    then show "bit (if \<not> bit (take_bit 48 x) 47 then take_bit 48 x else take_bit 48 x OR NOT (mask 48)) n = bit x n"
      using ext [of n] by (cases "n < 48"; cases "bit x 47") (simp_all add: bit_simps)
  qed
qed

lemma sign_extend_range:
  assumes "take_bit 48 p = (p :: u64)"
  defines "x \<equiv> if p AND SMALL_BIGINT_SIGN_BIT = 0 then p else p OR NOT PAYLOAD_MASK"
  shows "kind_valid (VK_SmallBigInt x)" "x AND PAYLOAD_MASK = p"
proof -
  have p: "n < 48" if "bit p n" for n using that assms(1) by (metis bit_take_bit_iff)
  have bits: "bit x n \<longleftrightarrow> (if n < 48 then bit p n else n < 64 \<and> bit p 47)" for n
    by (auto simp: x_def sign_bit mask_eqs bit_simps not_less dest: p)
  then show "x AND PAYLOAD_MASK = p" unfolding mask_eqs by (intro bit_word_eqI) (auto simp: bit_simps dest: p)
  have sint_bits: "bit (sint x) n \<longleftrightarrow> (if n \<le> 47 then bit p n else bit p 47)" for n
    by (cases "n \<le> 47") (auto simp: bit_sint_iff bits)
  have "signed_take_bit 47 (sint x) = sint x"
    by (rule bit_eqI) (simp add: bit_signed_take_bit_iff sint_bits min_def)
  then show "kind_valid (VK_SmallBigInt x)"
    by (simp add: signed_take_bit_int_eq_self_iff SMALL_BIGINT_MIN_def SMALL_BIGINT_MAX_def)
qed

text \<open>\<open>decode\<close> on each constructor, and the shape of a value from what it decodes to.\<close>

lemma decode_from_tagged:
  assumes "take_bit 48 p = p"
  shows "decode_value (from_tagged Tag_HeapRef p) = decode_heap_ref p"
    "decode_value (from_tagged Tag_Int32 p) = decode_int32 p"
    "decode_value (from_tagged Tag_Immediate p) = decode_immediate p"
    "decode_value (from_tagged Tag_SmallBigInt p) = Ok (VK_SmallBigInt
       (if p AND SMALL_BIGINT_SIGN_BIT = 0 then p else p OR NOT PAYLOAD_MASK))"
  using from_tagged_decode [OF assms]
  by (simp_all add: decode_value_def as_f64_def as_small_bigint_def value_payload_def Let_def)

lemma decode_value_cases:
  obtains (number) "\<not> is_tagged v" "decode_value v = Ok (VK_Number v)"
    | (tagged) t p where "is_tagged v" "tag_from_bits v = Some t" "v = from_tagged t p" "take_bit 48 p = p" "p = value_payload v"
    | (reserved) "is_tagged v" "tag_from_bits v = None" "decode_value v = Err (ReservedTag (tag_bits v))"
proof (cases "is_tagged v")
  case True
  show thesis
  proof (cases "tag_from_bits v")
    case (Some t)
    with True show thesis by (intro tagged [of t "value_payload v"] tagged_cases(1)) (simp_all add: payload_field)
  next
    case None
    with True have "decode_value v = Err (ReservedTag (tag_bits v))"
      by (simp only: decode_value_def as_f64_def tag_bits_def Let_def if_True option.case)
    with True None show thesis by (rule reserved)
  qed
next
  case False
  then have "decode_value v = Ok (VK_Number v)" by (simp add: decode_value_def as_f64_def)
  with False show thesis by (rule number)
qed

lemma ucast_low: "(ucast (ucast (p :: u64) :: u32) :: u64) = take_bit 32 p"
  by (rule bit_word_eqI) (auto simp: bit_simps)

lemma immediate_payload_inj: "immediate_payload i = immediate_payload j \<longleftrightarrow> i = j"
  using immediate_roundtrip(1) by (metis option.inject)

lemma decode_heap_ref_Ok:
  "decode_heap_ref p = Ok k \<longleftrightarrow> (\<exists>r. k = VK_HeapRef r \<and> (ucast r :: u16) \<noteq> 0 \<and> p = ucast r)"
proof
  assume "decode_heap_ref p = Ok k"
  then have low: "take_bit 32 p = p" and k: "k = VK_HeapRef (ucast p)" "(ucast (ucast p :: u32) :: u16) \<noteq> 0"
    by (auto simp: decode_heap_ref_def raw_heap_ref_new_iff low_field split: if_splits option.splits)
  from low have "p = ucast (ucast p :: u32)" by (simp add: ucast_low)
  with k show "\<exists>r. k = VK_HeapRef r \<and> (ucast r :: u16) \<noteq> 0 \<and> p = ucast r" by blast
next
  assume "\<exists>r. k = VK_HeapRef r \<and> (ucast r :: u16) \<noteq> 0 \<and> p = ucast r"
  then obtain r where "k = VK_HeapRef r" "(ucast r :: u16) \<noteq> 0" "p = ucast r" by blast
  then show "decode_heap_ref p = Ok k"
    using ucast_u32_u64 [of r] raw_heap_ref_new_iff [of r r] by (simp add: decode_heap_ref_def)
qed

lemma decode_int32_Ok: "decode_int32 p = Ok k \<longleftrightarrow> (\<exists>i. k = VK_Int32 i \<and> p = ucast i)"
proof
  assume "decode_int32 p = Ok k"
  then have low: "take_bit 32 p = p" and k: "k = VK_Int32 (ucast p)"
    by (auto simp: decode_int32_def low_field split: if_splits)
  from low have "p = ucast (ucast p :: u32)" by (simp add: ucast_low)
  with k show "\<exists>i. k = VK_Int32 i \<and> p = ucast i" by blast
qed (use ucast_u32_u64 in \<open>auto simp: decode_int32_def\<close>)

lemma decode_immediate_Ok: "decode_immediate p = Ok k \<longleftrightarrow> (\<exists>i. k = VK_Immediate i \<and> p = immediate_payload i)"
  by (auto simp: decode_immediate_def immediate_roundtrip immediate_payload_inj split: option.splits)

section \<open>Properties\<close>

lemma decode_encode_small_bigint:
  assumes "kind_valid (VK_SmallBigInt x)"
  shows "from_small_bigint x = Some (from_tagged Tag_SmallBigInt (take_bit 48 x))"
    "decode_value (from_tagged Tag_SmallBigInt (take_bit 48 x)) = Ok (VK_SmallBigInt x)"
proof -
  show "from_small_bigint x = Some (from_tagged Tag_SmallBigInt (take_bit 48 x))"
    using assms by (simp add: from_small_bigint_def mask_eqs take_bit_eq_mask not_less)
  show "decode_value (from_tagged Tag_SmallBigInt (take_bit 48 x)) = Ok (VK_SmallBigInt x)"
    using sign_extend [OF assms] by (simp add: decode_from_tagged Let_def)
qed

text \<open>C24. Boxing loses nothing: every value a constructor accepts decodes to the same kind and payload, for all
  doubles (with NaN in its canonical form), all 32-bit integers, all valid heap addresses, all immediates and
  all integers of 48 bits with their sign.\<close>

theorem value_decode_encode:
  assumes "kind_valid k"
  shows "\<exists>v. encode_kind k = Some v \<and> decode_value v = Ok k"
proof (cases k)
  case (VK_Number n)
  with assms have "from_f64 n = n" by (auto simp: from_f64_def)
  with VK_Number from_f64_untagged [of n] show ?thesis by (simp add: decode_value_def as_f64_def)
next
  case (VK_HeapRef r)
  with assms show ?thesis by (simp add: from_heap_ref_def decode_from_tagged ucast_u32_u64 decode_heap_ref_Ok)
next
  case (VK_Int32 i)
  then show ?thesis by (simp add: from_i32_def decode_from_tagged ucast_u32_u64 decode_int32_Ok)
next
  case (VK_Immediate i)
  then show ?thesis by (simp add: from_immediate_def decode_from_tagged immediate_roundtrip decode_immediate_Ok)
next
  case (VK_SmallBigInt x)
  with assms decode_encode_small_bigint show ?thesis by simp
qed

lemma decoded_representation:
  assumes ok: "decode_value v = Ok k"
  shows "(kind_valid k \<and> encode_kind k = Some v) \<or> (k = VK_Number v \<and> f64_is_nan v \<and> v \<noteq> CANONICAL_NAN_BITS)"
proof (cases v rule: decode_value_cases)
  case number
  with ok have "k = VK_Number v" by simp
  then show ?thesis by (cases "f64_is_nan v") (auto simp: from_f64_def)
next
  case (tagged t p)
  show ?thesis
  proof (cases t)
    case Tag_HeapRef
    with ok tagged(3,4) show ?thesis by (auto simp: decode_from_tagged decode_heap_ref_Ok from_heap_ref_def)
  next
    case Tag_Int32
    with ok tagged(3,4) show ?thesis by (auto simp: decode_from_tagged decode_int32_Ok from_i32_def)
  next
    case Tag_Immediate
    with ok tagged(3,4) show ?thesis by (auto simp: decode_from_tagged decode_immediate_Ok from_immediate_def)
  next
    case Tag_SmallBigInt
    let ?x = "if p AND SMALL_BIGINT_SIGN_BIT = 0 then p else p OR NOT PAYLOAD_MASK"
    note x = sign_extend_range [OF tagged(4)]
    from ok tagged(3,4) Tag_SmallBigInt have "k = VK_SmallBigInt ?x" by (simp add: decode_from_tagged(4))
    moreover have "take_bit 48 ?x = p" using x(2) by (simp only: mask_eqs take_bit_eq_mask)
    ultimately show ?thesis
      using x(1) decode_encode_small_bigint(1) [OF x(1)] tagged(3) Tag_SmallBigInt by simp
  qed
qed (use ok in simp)

text \<open>C10. The representation is unique: whatever 64 bits decode to is a valid kind whose constructor gives back
  those very bits, the only exception being a NaN that is not the canonical one, so comparing bits
  compares values.\<close>

theorem value_representation_unique:
  assumes "decode_value v = Ok k"
  shows "(kind_valid k \<and> encode_kind k = Some v) \<or> (k = VK_Number v \<and> f64_is_nan v \<and> v \<noteq> CANONICAL_NAN_BITS)"
  by (rule decoded_representation [OF assms])

lemma accessors_classify:
  "(as_f64 v = Some n \<longleftrightarrow> decode_value v = Ok (VK_Number n)) \<and>
   (as_i32 v = Some i \<longleftrightarrow> decode_value v = Ok (VK_Int32 i)) \<and>
   (as_heap_ref v = Some r \<longleftrightarrow> decode_value v = Ok (VK_HeapRef r)) \<and>
   (as_immediate v = Some m \<longleftrightarrow> decode_value v = Ok (VK_Immediate m)) \<and>
   (as_small_bigint v = Some x \<longleftrightarrow> decode_value v = Ok (VK_SmallBigInt x))"
proof (cases v rule: decode_value_cases)
  case number
  then show ?thesis
    by (auto simp: as_f64_def as_i32_def as_heap_ref_def as_immediate_def as_small_bigint_def)
next
  case (tagged t p)
  note v = tagged(1) tagged(5) [symmetric] tagged_cases(2) [OF tagged(1,2)]
  have acc: "as_f64 v = None"
    "as_i32 v = (if t = Tag_Int32 \<and> p AND NOT LOW_U32_MASK = 0 then Some (ucast p) else None)"
    "as_heap_ref v = (if t = Tag_HeapRef \<and> p AND NOT LOW_U32_MASK = 0 then raw_heap_ref_new (ucast p) else None)"
    "as_immediate v = (if t = Tag_Immediate then immediate_from_payload p else None)"
    "as_small_bigint v = (if t = Tag_SmallBigInt
       then Some (if p AND SMALL_BIGINT_SIGN_BIT = 0 then p else p OR NOT PAYLOAD_MASK) else None)"
    unfolding as_f64_def as_i32_def as_heap_ref_def as_immediate_def as_small_bigint_def v(2,3) Let_def
    using v(1) by auto
  have dec: "decode_value v = (case t of Tag_HeapRef \<Rightarrow> decode_heap_ref p | Tag_Int32 \<Rightarrow> decode_int32 p
      | Tag_Immediate \<Rightarrow> decode_immediate p | Tag_SmallBigInt \<Rightarrow> Ok (VK_SmallBigInt
       (if p AND SMALL_BIGINT_SIGN_BIT = 0 then p else p OR NOT PAYLOAD_MASK)))"
    using decode_from_tagged [OF tagged(4)] tagged(3) by (cases t) simp_all
  show ?thesis
    unfolding acc dec decode_heap_ref_def decode_int32_def decode_immediate_def
    by (cases t) (simp_all split: option.splits)
next
  case reserved
  then have "tag_bits v \<noteq> ucast (tag_number t)" for t
    using tag_bits_tag_number [of v t] tag_from_bits_iff [of v t] by simp
  with reserved show ?thesis
    by (auto simp: as_f64_def as_i32_def as_heap_ref_def as_immediate_def as_small_bigint_def)
qed

text \<open>C25. The unchecked-looking fast paths agree with the checked decoder on every bit pattern: each accessor
  returns a payload exactly when \<open>decode\<close> classifies the value that way.\<close>

theorem value_accessors_agree:
  "(as_f64 v = Some n \<longleftrightarrow> decode_value v = Ok (VK_Number n)) \<and>
   (as_i32 v = Some i \<longleftrightarrow> decode_value v = Ok (VK_Int32 i)) \<and>
   (as_heap_ref v = Some r \<longleftrightarrow> decode_value v = Ok (VK_HeapRef r)) \<and>
   (as_immediate v = Some m \<longleftrightarrow> decode_value v = Ok (VK_Immediate m)) \<and>
   (as_small_bigint v = Some x \<longleftrightarrow> decode_value v = Ok (VK_SmallBigInt x))"
  by (rule accessors_classify)

text \<open>A heap address is the pair of its span and its offset in the span: composing and splitting are
  inverse, and neither panics on a nonzero offset.\<close>

theorem heap_ref_parts:
  assumes "offset \<noteq> 0"
  shows "\<exists>r. raw_heap_ref_from_parts i offset = Ok r \<and> raw_heap_ref_new r = Some r \<and>
    raw_heap_ref_span_id r = i \<and> raw_heap_ref_span_offset r = Ok offset"
proof -
  let ?r = "push_bit 16 (ucast i) OR ucast offset :: u32"
  have low: "(ucast ?r :: u16) = offset" and high: "(ucast (drop_bit 16 ?r) :: u16) = i"
    by (rule bit_word_eqI; auto simp: bit_simps dest: bit_imp_le_length)+
  then have "?r \<noteq> 0" using assms by auto
  with low high assms show ?thesis
    by (auto simp: raw_heap_ref_from_parts_def raw_heap_ref_new_def raw_heap_ref_span_id_def
        raw_heap_ref_span_offset_def span_offset_new_def Let_def)
qed

section \<open>Immediate BigInts and heap references as kinds\<close>

lemma as_small_bigint_iff: "as_small_bigint v = Some x \<longleftrightarrow> from_small_bigint x = Some v"
proof -
  have "from_small_bigint x = Some v \<Longrightarrow> kind_valid (VK_SmallBigInt x)"
    by (simp add: from_small_bigint_def split: if_splits)
  then show ?thesis
    using accessors_classify [of v] decoded_representation [of v "VK_SmallBigInt x"] decode_encode_small_bigint [of x] by fastforce
qed

lemma heap_ref_value:
  assumes "(ucast r :: u16) \<noteq> 0"
  shows "as_heap_ref (from_heap_ref r) = Some r" "as_small_bigint (from_heap_ref r) = None"
proof -
  have "decode_value (from_heap_ref r) = Ok (VK_HeapRef r)"
    using ucast_u32_u64 [of r] assms by (simp only: from_heap_ref_def decode_from_tagged decode_heap_ref_Ok) blast
  then show "as_heap_ref (from_heap_ref r) = Some r" "as_small_bigint (from_heap_ref r) = None"
    using accessors_classify [of "from_heap_ref r"] by (simp_all, metis option.exhaust outcome.inject(1) value_kind.distinct)
qed

section \<open>Witnesses\<close>

theorem value_decode_encode_witness:
  "\<exists>v. encode_kind (VK_SmallBigInt (- 42)) = Some v \<and> decode_value v = Ok (VK_SmallBigInt (- 42))"
  by (rule value_decode_encode) (simp add: SMALL_BIGINT_MIN_def SMALL_BIGINT_MAX_def)

theorem value_representation_unique_witness:
  "decode_value (from_i32 7) = Ok (VK_Int32 7) \<and> encode_kind (VK_Int32 7) = Some (from_i32 7)"
proof -
  have "decode_value (from_i32 7) = Ok (VK_Int32 7)"
    using ucast_u32_u64 [of 7] by (simp only: from_i32_def decode_from_tagged decode_int32_Ok) blast
  with value_representation_unique [OF this] show ?thesis by auto
qed

theorem heap_ref_parts_witness:
  "\<exists>r. raw_heap_ref_from_parts 3 16 = Ok r \<and> raw_heap_ref_new r = Some r \<and>
    raw_heap_ref_span_id r = 3 \<and> raw_heap_ref_span_offset r = Ok 16"
  by (rule heap_ref_parts) simp

end
