(* ===== verification/Gc_Span.thy ===== *)
theory Gc_Span
  imports Tachyon_Value
begin

text \<open>
  Side metadata of the heap's spans: the layout constants of \<open>crates/tachyon-gc/src/layout.rs\<close>, the
  collection epoch of \<open>epoch.rs\<close>, the promotion policy of \<open>tuning.rs\<close>, and the size classes, bitmaps and
  per-span metadata of \<open>span.rs\<close>.

  A bitmap is the list of its words; the specification of every bitmap is the set of its set bits.
  The arrays of the source have a fixed length, which is an invariant of the lists here, and an
  index beyond it is a panic.
\<close>

section \<open>Layout constants\<close>

definition SPAN_SIZE_BYTES :: nat where "SPAN_SIZE_BYTES = 64 * 1024"
definition MINIMUM_SLOT_SIZE_BYTES :: nat where "MINIMUM_SLOT_SIZE_BYTES = 16"
definition MAX_SMALL_OBJECT_SLOTS :: nat where
  "MAX_SMALL_OBJECT_SLOTS = (SPAN_SIZE_BYTES - MINIMUM_SLOT_SIZE_BYTES) div MINIMUM_SLOT_SIZE_BYTES"
definition SLOT_BITMAP_WORDS :: nat where "SLOT_BITMAP_WORDS = div_ceil MAX_SMALL_OBJECT_SLOTS 64"
definition CARD_SIZE_BYTES :: nat where "CARD_SIZE_BYTES = 512"
definition CARDS_PER_SPAN :: nat where "CARDS_PER_SPAN = SPAN_SIZE_BYTES div CARD_SIZE_BYTES"
definition CARD_BITMAP_WORDS :: nat where "CARD_BITMAP_WORDS = div_ceil CARDS_PER_SPAN 64"

lemma layout_values:
  "SPAN_SIZE_BYTES = 65536" "MINIMUM_SLOT_SIZE_BYTES = 16" "MAX_SMALL_OBJECT_SLOTS = 4095" "SLOT_BITMAP_WORDS = 64"
  "CARD_SIZE_BYTES = 512" "CARDS_PER_SPAN = 128" "CARD_BITMAP_WORDS = 2"
  by (simp_all add: SPAN_SIZE_BYTES_def MINIMUM_SLOT_SIZE_BYTES_def MAX_SMALL_OBJECT_SLOTS_def SLOT_BITMAP_WORDS_def
      CARD_SIZE_BYTES_def CARDS_PER_SPAN_def CARD_BITMAP_WORDS_def div_ceil_def)

section \<open>Collection epochs\<close>

type_synonym collection_epoch = u32

datatype epoch_overflow = CollectionEpochOverflow

definition epoch_INITIAL :: collection_epoch where "epoch_INITIAL = 1"

definition epoch_new :: "u32 \<Rightarrow> collection_epoch option" where
  "epoch_new n = (if n \<noteq> 0 then Some n else None)"

definition epoch_next :: "collection_epoch \<Rightarrow> (epoch_overflow, collection_epoch) outcome" where
  "epoch_next e =
     (case checked_add e 1 of
        Some n \<Rightarrow> (case epoch_new n of Some e' \<Rightarrow> Ok e' | None \<Rightarrow> Err CollectionEpochOverflow)
      | None \<Rightarrow> Err CollectionEpochOverflow)"

section \<open>Spaces and promotion\<close>

datatype span_space = Eden | Survivor u8 | Old

type_synonym span_reuse_generation = u32

definition generation_next :: "span_reuse_generation \<Rightarrow> span_reuse_generation" where
  "generation_next g = g + 1"

datatype sweep_state = Swept | Pending collection_epoch | InProgress collection_epoch

definition EARLY_PROMOTION_OCCUPANCY_PERCENT :: u8 where "EARLY_PROMOTION_OCCUPANCY_PERCENT = 80"

definition should_promote_early :: "u16 \<Rightarrow> u16 \<Rightarrow> bool" where
  "should_promote_early live_slots total_slots \<longleftrightarrow>
     live_slots \<noteq> 0 \<and>
     (ucast live_slots :: u32) * 100 \<ge> ucast total_slots * ucast EARLY_PROMOTION_OCCUPANCY_PERCENT"

definition promotion_due_to_age :: "span_space \<Rightarrow> u8 \<Rightarrow> bool" where
  "promotion_due_to_age space promotion_age =
     (case space of
        Eden \<Rightarrow> promotion_age \<le> 1
      | Survivor age \<Rightarrow> saturating_add age 1 \<ge> promotion_age
      | Old \<Rightarrow> False)"

section \<open>Large objects\<close>

record large_span_metadata =
  ls_span_count :: u32
  ls_object_bytes :: nat
  ls_allocated :: bool
  ls_mark_epoch :: "collection_epoch option"
  ls_remembered :: bool
  ls_reuse_generation :: span_reuse_generation

definition large_span_new :: "u32 \<Rightarrow> nat \<Rightarrow> span_reuse_generation \<Rightarrow> large_span_metadata" where
  "large_span_new span_count object_bytes reuse_generation =
     \<lparr>ls_span_count = span_count, ls_object_bytes = object_bytes, ls_allocated = True, ls_mark_epoch = None,
      ls_remembered = True, ls_reuse_generation = reuse_generation\<rparr>"

definition large_set_remembered :: "large_span_metadata \<Rightarrow> bool \<Rightarrow> large_span_metadata" where
  "large_set_remembered m remembered = m\<lparr>ls_remembered := remembered\<rparr>"

definition large_is_marked :: "large_span_metadata \<Rightarrow> collection_epoch \<Rightarrow> bool" where
  "large_is_marked m e \<longleftrightarrow> ls_mark_epoch m = Some e"

definition large_mark :: "large_span_metadata \<Rightarrow> collection_epoch \<Rightarrow> bool \<times> large_span_metadata" where
  "large_mark m e = (if ls_mark_epoch m = Some e then (False, m) else (True, m\<lparr>ls_mark_epoch := Some e\<rparr>))"

definition large_reclaim :: "large_span_metadata \<Rightarrow> large_span_metadata" where
  "large_reclaim m = m\<lparr>ls_allocated := False, ls_mark_epoch := None\<rparr>"

definition large_reset_mark_epoch :: "large_span_metadata \<Rightarrow> large_span_metadata" where
  "large_reset_mark_epoch m = m\<lparr>ls_mark_epoch := None\<rparr>"

section \<open>Slots and size classes\<close>

type_synonym slot_index = u16
type_synonym size_class = u16

definition slot_index_new :: "u16 \<Rightarrow> slot_index option" where
  "slot_index_new index = (if unat index \<ge> MAX_SMALL_OBJECT_SLOTS then None else Some index)"

definition size_class_new :: "u16 \<Rightarrow> size_class option" where
  "size_class_new slot_size =
     (if slot_size < word_of_nat MINIMUM_SLOT_SIZE_BYTES \<or> unat slot_size mod MINIMUM_SLOT_SIZE_BYTES \<noteq> 0
      then None else Some slot_size)"

definition slot_count :: "size_class \<Rightarrow> u16" where
  "slot_count c = word_of_nat ((SPAN_SIZE_BYTES - MINIMUM_SLOT_SIZE_BYTES) div unat c)"

definition offset_for_slot :: "size_class \<Rightarrow> slot_index \<Rightarrow> span_offset option" where
  "offset_for_slot c slot =
     (if slot \<ge> slot_count c then None
      else span_offset_new (word_of_nat (MINIMUM_SLOT_SIZE_BYTES + unat slot * unat c)))"

definition slot_for_offset :: "size_class \<Rightarrow> span_offset \<Rightarrow> slot_index option" where
  "slot_for_offset c offset =
     (if unat offset < MINIMUM_SLOT_SIZE_BYTES then None
      else let relative = unat offset - MINIMUM_SLOT_SIZE_BYTES
           in if relative mod unat c \<noteq> 0 then None
              else let slot = word_of_nat (relative div unat c)
                   in if slot < slot_count c then slot_index_new slot else None)"

section \<open>Bitmaps\<close>

type_synonym bitmap = "u64 list"

definition count_ones :: "u64 \<Rightarrow> nat" where
  "count_ones w = length (filter (bit w) [0..<64])"

definition trailing_zeros :: "u64 \<Rightarrow> nat" where
  "trailing_zeros w = length (takeWhile (\<lambda>n. \<not> bit w n) [0..<64])"

definition word_and_mask :: "nat \<Rightarrow> nat \<times> u64" where
  "word_and_mask bit_index = (bit_index div 64, push_bit (bit_index mod 64) 1)"

definition bitmap_contains :: "bitmap \<Rightarrow> nat \<Rightarrow> ('e, bool) outcome" where
  "bitmap_contains words i =
     (case word_and_mask i of (w, m) \<Rightarrow>
        and_then (index_or_panic words w) (\<lambda>x. Ok (x AND m \<noteq> 0)))"

definition bitmap_insert :: "bitmap \<Rightarrow> nat \<Rightarrow> ('e, bool \<times> bitmap) outcome" where
  "bitmap_insert words i =
     (case word_and_mask i of (w, m) \<Rightarrow>
        and_then (index_or_panic words w) (\<lambda>x. Ok (\<not> (x AND m \<noteq> 0), words[w := x OR m])))"

definition bitmap_remove :: "bitmap \<Rightarrow> slot_index \<Rightarrow> ('e, bool \<times> bitmap) outcome" where
  "bitmap_remove words slot =
     (case word_and_mask (unat slot) of (w, m) \<Rightarrow>
        and_then (index_or_panic words w) (\<lambda>x. Ok (x AND m \<noteq> 0, words[w := x AND NOT m])))"

definition bitmap_clear :: "bitmap \<Rightarrow> bitmap" where
  "bitmap_clear words = replicate (length words) 0"

definition slot_bitmap_new :: bitmap where
  "slot_bitmap_new = replicate SLOT_BITMAP_WORDS 0"

text \<open>The loop of \<open>next_set\<close>: the current word with the bits below the start masked out, then the words after it.\<close>

function next_set_from :: "bitmap \<Rightarrow> nat \<Rightarrow> u64 \<Rightarrow> ('e, slot_index option) outcome" where
  "next_set_from words word_index word =
     (if word \<noteq> 0
      then (let index = word_index * 64 + trailing_zeros word
            in if index < MAX_SMALL_OBJECT_SLOTS
               then and_then (expect (slot_index_new (word_of_nat index))) (\<lambda>slot. Ok (Some slot))
               else Ok None)
      else if word_index + 1 < length words then next_set_from words (word_index + 1) (words ! (word_index + 1))
      else Ok None)"
  by pat_completeness auto
termination
  by (relation "measure (\<lambda>(words, word_index, word). length words - word_index)") auto

declare next_set_from.simps [simp del]

definition bitmap_next_set :: "bitmap \<Rightarrow> u16 \<Rightarrow> ('e, slot_index option) outcome" where
  "bitmap_next_set words start =
     (if unat start \<ge> MAX_SMALL_OBJECT_SLOTS then Ok None
      else and_then (index_or_panic words (unat start div 64)) (\<lambda>x.
        next_set_from words (unat start div 64) (x AND push_bit (unat start mod 64) (- 1))))"

definition bitmap_count :: "bitmap \<Rightarrow> ('e, u16) outcome" where
  "bitmap_count words =
     (let count = sum_list (map count_ones words)
      in expect (if count < 2 ^ 16 then Some (word_of_nat count) else None))"

section \<open>Allocation, mark and card bitmaps\<close>

record mark_bitmap =
  mb_epoch :: "collection_epoch option"
  mb_bits :: bitmap

definition mark_bitmap_new :: mark_bitmap where
  "mark_bitmap_new = \<lparr>mb_epoch = None, mb_bits = slot_bitmap_new\<rparr>"

definition is_marked :: "mark_bitmap \<Rightarrow> slot_index \<Rightarrow> collection_epoch \<Rightarrow> ('e, bool) outcome" where
  "is_marked m slot e =
     (if mb_epoch m = Some e then bitmap_contains (mb_bits m) (unat slot) else Ok False)"

definition mark :: "mark_bitmap \<Rightarrow> slot_index \<Rightarrow> collection_epoch \<Rightarrow> ('e, bool \<times> mark_bitmap) outcome" where
  "mark m slot e =
     (let m = (if mb_epoch m \<noteq> Some e then m\<lparr>mb_bits := bitmap_clear (mb_bits m), mb_epoch := Some e\<rparr> else m)
      in and_then (bitmap_insert (mb_bits m) (unat slot)) (\<lambda>(fresh, bits). Ok (fresh, m\<lparr>mb_bits := bits\<rparr>)))"

definition reset_for_epoch_overflow :: "mark_bitmap \<Rightarrow> mark_bitmap" where
  "reset_for_epoch_overflow m = m\<lparr>mb_bits := bitmap_clear (mb_bits m), mb_epoch := None\<rparr>"

definition marked_count :: "mark_bitmap \<Rightarrow> collection_epoch \<Rightarrow> ('e, u16) outcome" where
  "marked_count m e = (if mb_epoch m \<noteq> Some e then Ok 0 else bitmap_count (mb_bits m))"

definition card_bitmap_new :: bitmap where
  "card_bitmap_new = replicate CARD_BITMAP_WORDS 0"

definition card_mark :: "bitmap \<Rightarrow> span_offset \<Rightarrow> ('e, bool \<times> bitmap) outcome" where
  "card_mark words offset = bitmap_insert words (unat offset div CARD_SIZE_BYTES)"

definition card_is_dirty :: "bitmap \<Rightarrow> span_offset \<Rightarrow> ('e, bool) outcome" where
  "card_is_dirty words offset = bitmap_contains words (unat offset div CARD_SIZE_BYTES)"

definition card_dirty_count :: "bitmap \<Rightarrow> nat" where
  "card_dirty_count words = sum_list (map count_ones words)"

section \<open>Small-object spans\<close>

record small_span_metadata =
  ss_size_class :: size_class
  ss_space :: span_space
  ss_allocations :: bitmap
  ss_marks :: mark_bitmap
  ss_cards :: bitmap
  ss_bump_cursor :: u16
  ss_free_list_head :: "slot_index option"
  ss_sweep_state :: sweep_state
  ss_reuse_generation :: span_reuse_generation
  ss_allocated_slots :: u16
  ss_allocated_bytes :: u32

definition small_span_new :: "size_class \<Rightarrow> span_space \<Rightarrow> span_reuse_generation \<Rightarrow> small_span_metadata" where
  "small_span_new c space reuse_generation =
     \<lparr>ss_size_class = c, ss_space = space, ss_allocations = slot_bitmap_new, ss_marks = mark_bitmap_new,
      ss_cards = card_bitmap_new, ss_bump_cursor = 0, ss_free_list_head = None, ss_sweep_state = Swept,
      ss_reuse_generation = reuse_generation, ss_allocated_slots = 0, ss_allocated_bytes = 0\<rparr>"

definition set_space :: "small_span_metadata \<Rightarrow> span_space \<Rightarrow> small_span_metadata" where
  "set_space m space = m\<lparr>ss_space := space\<rparr>"

definition has_allocation_capacity :: "small_span_metadata \<Rightarrow> bool" where
  "has_allocation_capacity m =
     (case ss_space m of
        Survivor age \<Rightarrow> False
      | Eden \<Rightarrow> ss_bump_cursor m < slot_count (ss_size_class m)
      | Old \<Rightarrow> ss_free_list_head m \<noteq> None \<or> ss_bump_cursor m < slot_count (ss_size_class m))"

definition take_bump_slot :: "small_span_metadata \<Rightarrow> ('e, slot_index option \<times> small_span_metadata) outcome" where
  "take_bump_slot m =
     (if ss_bump_cursor m \<ge> slot_count (ss_size_class m) then Ok (None, m)
      else and_then (expect (slot_index_new (ss_bump_cursor m))) (\<lambda>slot.
        Ok (Some slot, m\<lparr>ss_bump_cursor := ss_bump_cursor m + 1\<rparr>)))"

definition set_free_list_head :: "small_span_metadata \<Rightarrow> slot_index option \<Rightarrow> small_span_metadata" where
  "set_free_list_head m head = m\<lparr>ss_free_list_head := head\<rparr>"

definition commit_allocation :: "small_span_metadata \<Rightarrow> slot_index \<Rightarrow> ('e, small_span_metadata) outcome" where
  "commit_allocation m slot =
     and_then (bitmap_insert (ss_allocations m) (unat slot)) (\<lambda>(fresh, bits).
     if \<not> fresh then Panic
     else and_then (expect (checked_add (ss_allocated_slots m) 1)) (\<lambda>slots.
          and_then (expect (checked_add (ss_allocated_bytes m) (ucast (ss_size_class m)))) (\<lambda>bytes.
          Ok (m\<lparr>ss_allocations := bits, ss_allocated_slots := slots, ss_allocated_bytes := bytes\<rparr>))))"

definition reclaim_allocation :: "small_span_metadata \<Rightarrow> slot_index \<Rightarrow> ('e, bool \<times> small_span_metadata) outcome" where
  "reclaim_allocation m slot =
     and_then (bitmap_remove (ss_allocations m) slot) (\<lambda>(present, bits).
     if \<not> present then Ok (False, m\<lparr>ss_allocations := bits\<rparr>)
     else Ok (True, m\<lparr>ss_allocations := bits, ss_allocated_slots := ss_allocated_slots m - 1,
       ss_allocated_bytes := ss_allocated_bytes m - ucast (ss_size_class m)\<rparr>))"

definition remember_card :: "small_span_metadata \<Rightarrow> span_offset \<Rightarrow> ('e, bool \<times> small_span_metadata) outcome" where
  "remember_card m offset =
     and_then (card_mark (ss_cards m) offset) (\<lambda>(fresh, cards). Ok (fresh, m\<lparr>ss_cards := cards\<rparr>))"

definition replace_cards :: "small_span_metadata \<Rightarrow> bitmap \<Rightarrow> small_span_metadata" where
  "replace_cards m cards = m\<lparr>ss_cards := cards\<rparr>"

section \<open>Bitmaps as sets\<close>

definition bits_of :: "bitmap \<Rightarrow> nat set" where
  "bits_of words = {i. i < 64 * length words \<and> bit (words ! (i div 64)) (i mod 64)}"

text \<open>A bitmap for \<open>bound\<close> bits: enough words and no bit at or beyond the bound.\<close>

definition bitmap_inv :: "nat \<Rightarrow> nat \<Rightarrow> bitmap \<Rightarrow> bool" where
  "bitmap_inv n bound words \<longleftrightarrow> length words = n \<and> bits_of words \<subseteq> {..<bound}"

lemma and_mask_bit: "(w :: u64) AND 2 ^ k = 0 \<longleftrightarrow> \<not> bit w k"
proof -
  have "w AND push_bit k 1 = (if bit w k then push_bit k 1 else 0)"
    by (rule bit_word_eqI) (auto simp: bit_simps)
  moreover have "push_bit k 1 \<noteq> (0 :: u64)" if "bit w k"
    using that bit_imp_le_length [OF that] by (auto simp: push_bit_eq_mult)
  ultimately show ?thesis by auto
qed

lemma bitmap_contains_eq:
  "i < 64 * length words \<Longrightarrow> bitmap_contains words i = Ok (i \<in> bits_of words)"
  by (simp add: bitmap_contains_def word_and_mask_def index_or_panic_def get_def and_mask_bit bits_of_def less_mult_imp_div_less mult.commute)

lemma bits_of_update:
  assumes "i < 64 * length words" and "\<And>k. k < 64 \<Longrightarrow> bit w k \<longleftrightarrow> (if k = i mod 64 then b else bit (words ! (i div 64)) k)"
  shows "bits_of (words[i div 64 := w]) = (if b then insert i (bits_of words) else bits_of words - {i})"
proof -
  have less: "i div 64 < length words" using assms(1) by (simp add: less_mult_imp_div_less mult.commute)
  have "j \<in> bits_of (words[i div 64 := w]) \<longleftrightarrow> (if j = i then b else j \<in> bits_of words)" for j
  proof (cases "j div 64 = i div 64")
    case True
    then have ji: "j = i \<longleftrightarrow> j mod 64 = i mod 64" by (metis div_mult_mod_eq)
    have "j < 64 * length words"
      using True less by (metis div_less_iff_less_mult mult.commute zero_less_numeral)
    moreover have "bit w (j mod 64) \<longleftrightarrow> (if j mod 64 = i mod 64 then b else bit (words ! (i div 64)) (j mod 64))"
      using assms(2) [of "j mod 64"] by simp
    ultimately show ?thesis unfolding bits_of_def ji using True less by simp
  next
    case False
    then have "j \<noteq> i" "words[i div 64 := w] ! (j div 64) = words ! (j div 64)" by auto
    then show ?thesis by (simp add: bits_of_def)
  qed
  then show ?thesis by (intro set_eqI, simp only:) (simp split: if_split)
qed

text \<open>The words after setting and after clearing one bit.\<close>

definition with_bit :: "bitmap \<Rightarrow> nat \<Rightarrow> bitmap" where
  "with_bit words i = words[i div 64 := words ! (i div 64) OR push_bit (i mod 64) 1]"

definition without_bit :: "bitmap \<Rightarrow> nat \<Rightarrow> bitmap" where
  "without_bit words i = words[i div 64 := words ! (i div 64) AND NOT (push_bit (i mod 64) 1)]"

lemma length_with_bit [simp]: "length (with_bit words i) = length words" "length (without_bit words i) = length words"
  by (simp_all add: with_bit_def without_bit_def)

lemma bits_of_with_bit:
  assumes "i < 64 * length words"
  shows "bits_of (with_bit words i) = insert i (bits_of words)" "bits_of (without_bit words i) = bits_of words - {i}"
  using bits_of_update [OF assms, of "words ! (i div 64) OR push_bit (i mod 64) 1" True]
    bits_of_update [OF assms, of "words ! (i div 64) AND NOT (push_bit (i mod 64) 1)" False]
  by (auto simp: bit_simps with_bit_def without_bit_def)

lemma bitmap_insert_eq:
  assumes "i < 64 * length words"
  shows "bitmap_insert words i = Ok (i \<notin> bits_of words, with_bit words i)"
proof -
  have "i div 64 < length words" using assms by (simp add: less_mult_imp_div_less mult.commute)
  then show ?thesis using assms
    by (simp add: bitmap_insert_def word_and_mask_def index_or_panic_def get_def and_mask_bit bits_of_def with_bit_def)
qed

lemma bitmap_remove_eq:
  assumes "unat slot < 64 * length words"
  shows "bitmap_remove words slot = Ok (unat slot \<in> bits_of words, without_bit words (unat slot))"
proof -
  have "unat slot div 64 < length words" using assms by (simp add: less_mult_imp_div_less mult.commute)
  then show ?thesis using assms
    by (simp add: bitmap_remove_def word_and_mask_def index_or_panic_def get_def and_mask_bit bits_of_def without_bit_def)
qed

lemma bits_of_clear [simp]: "bits_of (bitmap_clear words) = {}" "length (bitmap_clear words) = length words"
  by (auto simp: bits_of_def bitmap_clear_def less_mult_imp_div_less mult.commute)

lemma bits_of_replicate [simp]: "bits_of (replicate n 0) = {}"
  by (auto simp: bits_of_def less_mult_imp_div_less mult.commute)


section \<open>Finding and counting bits\<close>

lemma trailing_zeros_props:
  assumes "w \<noteq> 0"
  shows "trailing_zeros w < 64" "bit w (trailing_zeros w)" "k < trailing_zeros w \<Longrightarrow> \<not> bit w k"
proof -
  let ?t = "takeWhile (\<lambda>n. \<not> bit w n) [0..<64]"
  obtain n where n: "bit w n" using assms by (auto simp: bit_eq_iff [of w 0])
  then have "n \<in> set [0..<64]" using bit_imp_le_length [OF n] by simp
  with n have ne: "?t \<noteq> [0..<64]" by (metis takeWhile_eq_all_conv)
  then have less: "length ?t < length [0..<64]"
    by (metis length_takeWhile_le nth_equalityI le_neq_implies_less takeWhile_nth)
  then show "trailing_zeros w < 64" by (simp add: trailing_zeros_def)
  show "bit w (trailing_zeros w)"
    using nth_length_takeWhile [OF less] less by (simp add: trailing_zeros_def)
  show "\<not> bit w k" if "k < trailing_zeros w"
  proof -
    have k: "k < length ?t" using that by (simp add: trailing_zeros_def)
    then have "?t ! k \<in> set ?t" "?t ! k = [0..<64] ! k" by (auto intro: takeWhile_nth)
    moreover have "[0..<64] ! k = k" using k less by simp
    ultimately show ?thesis using set_takeWhileD by fastforce
  qed
qed

lemma count_ones_card: "count_ones w = card {i. i < 64 \<and> bit w i}"
proof -
  have "count_ones w = card (set (filter (bit w) [0..<64]))"
    unfolding count_ones_def by (rule distinct_card [symmetric]) simp
  then show ?thesis by (simp add: conj_commute)
qed

lemma bits_of_Nil [simp]: "bits_of [] = {}"
  by (simp add: bits_of_def)

lemma bits_of_Cons: "bits_of (w # ws) = {i. i < 64 \<and> bit w i} \<union> (\<lambda>i. i + 64) ` bits_of ws"
proof (rule set_eqI)
  fix i
  show "i \<in> bits_of (w # ws) \<longleftrightarrow> i \<in> {i. i < 64 \<and> bit w i} \<union> (\<lambda>i. i + 64) ` bits_of ws"
  proof (cases "i < 64")
    case True
    then show ?thesis by (auto simp: bits_of_def)
  next
    case False
    then obtain j where j: "i = j + 64" by (metis add.commute le_Suc_ex not_less)
    have "(j + 64) div 64 = Suc (j div 64)" "(j + 64) mod 64 = j mod 64" by simp_all
    then show ?thesis unfolding j by (auto simp: bits_of_def image_iff)
  qed
qed

lemma finite_bits_of [simp]: "finite (bits_of ws)"
  by (rule finite_subset [of _ "{..<64 * length ws}"]) (auto simp: bits_of_def)

lemma sum_count_ones: "sum_list (map count_ones ws) = card (bits_of ws)"
proof (induction ws)
  case (Cons w ws)
  have "card (bits_of (w # ws)) = card {i. i < 64 \<and> bit w i} + card ((\<lambda>i. i + 64) ` bits_of ws)"
    unfolding bits_of_Cons by (rule card_Un_disjoint) auto
  also have "card ((\<lambda>i. i + 64) ` bits_of ws) = card (bits_of ws)"
    by (rule card_image) (simp add: inj_on_def)
  finally show ?case using Cons by (simp add: count_ones_card)
qed simp

lemma bitmap_count_eq:
  assumes "bitmap_inv n bound words" and "bound < 2 ^ 16"
  shows "bitmap_count words = Ok (word_of_nat (card (bits_of words)))"
proof -
  have "card (bits_of words) \<le> card {..<bound}"
    using assms(1) by (intro card_mono) (auto simp: bitmap_inv_def)
  then show ?thesis using assms(2) by (simp add: bitmap_count_def sum_count_ones)
qed

lemma slot_index_new_iff: "slot_index_new s = Some t \<longleftrightarrow> t = s \<and> unat s < 4095"
  by (auto simp: slot_index_new_def layout_values not_le)

text \<open>The search loop: \<open>word\<close> holds the bits of the current word that are still candidates.\<close>

lemma next_set_from_eq:
  assumes "k < length words" and "length words = 64"
    and "\<And>j. bit word j \<longleftrightarrow> start \<le> k * 64 + j \<and> bit (words ! k) j" and "start < k * 64 + 64"
    and "\<forall>i \<in> bits_of words. start \<le> i \<longrightarrow> k * 64 \<le> i"
  shows "next_set_from words k word =
    Ok (if \<exists>i \<in> bits_of words. start \<le> i \<and> i < 4095
        then Some (word_of_nat (LEAST i. i \<in> bits_of words \<and> start \<le> i)) else None)"
  using assms
proof (induction words k word rule: next_set_from.induct)
  case (1 words k word)
  note simp = next_set_from.simps [of words k word]
  show ?case
  proof (cases "word = 0")
    case False
    let ?i = "k * 64 + trailing_zeros word"
    note tz = trailing_zeros_props [OF False]
    have div: "?i div 64 = k" "?i mod 64 = trailing_zeros word" using tz(1) by simp_all
    have mem: "?i \<in> bits_of words" "start \<le> ?i"
      using tz(1,2) "1.prems"(1,3) div by (auto simp: bits_of_def)
    have min: "?i \<le> j" if j: "j \<in> bits_of words" "start \<le> j" for j
    proof (rule ccontr)
      assume "\<not> ?i \<le> j"
      moreover have "k * 64 \<le> j" using "1.prems"(5) j by blast
      ultimately obtain m where m: "j = k * 64 + m" "m < trailing_zeros word"
        by (metis add_less_cancel_left le_Suc_ex not_le)
      then have "j div 64 = k" "j mod 64 = m" using tz(1) by simp_all
      then have "bit word m" using j m "1.prems"(3) by (auto simp: bits_of_def)
      with tz(3) [OF m(2)] show False by blast
    qed
    have least: "(LEAST i. i \<in> bits_of words \<and> start \<le> i) = ?i"
      by (rule Least_equality) (use mem min in auto)
    have "(\<exists>i \<in> bits_of words. start \<le> i \<and> i < 4095) \<longleftrightarrow> ?i < 4095"
      using mem min le_less_trans by blast
    then show ?thesis unfolding simp least using False
      by (simp add: Let_def layout_values slot_index_new_def unat_of_nat del: of_nat_add of_nat_mult)
  next
    case True
    have skip: "\<forall>i \<in> bits_of words. start \<le> i \<longrightarrow> Suc k * 64 \<le> i"
    proof (intro ballI impI, rule ccontr)
      fix i assume i: "i \<in> bits_of words" "start \<le> i" "\<not> Suc k * 64 \<le> i"
      then have "k * 64 \<le> i" using "1.prems"(5) by blast
      with i(3) have d: "i div 64 = k" "i = k * 64 + i mod 64"
        by (metis div_nat_eqI not_le mult.commute, metis div_nat_eqI not_le mult.commute div_mult_mod_eq)
      then have "bit word (i mod 64)" using i "1.prems"(3) by (auto simp: bits_of_def)
      then show False using True by simp
    qed
    show ?thesis
    proof (cases "k + 1 < length words")
      case less: True
      have "bit (words ! (k + 1)) j \<longleftrightarrow> start \<le> (k + 1) * 64 + j \<and> bit (words ! (k + 1)) j" for j
        using "1.prems"(4) by auto
      note IH = "1.IH" [OF _ less less "1.prems"(2) this]
      show ?thesis unfolding simp using True less IH "1.prems"(4) skip by simp
    next
      case False
      then have "k = 63" using "1.prems"(1,2) by simp
      then have "\<not> (\<exists>i \<in> bits_of words. start \<le> i \<and> i < 4095)"
        using skip "1.prems"(2) by (auto simp: bits_of_def)
      then show ?thesis unfolding simp using True False by simp
    qed
  qed
qed


definition slots_of :: "bitmap \<Rightarrow> slot_index set" where
  "slots_of words = {s. unat s \<in> bits_of words}"

abbreviation slot_bitmap_inv :: "bitmap \<Rightarrow> bool" where
  "slot_bitmap_inv \<equiv> bitmap_inv 64 4095"

abbreviation card_bitmap_inv :: "bitmap \<Rightarrow> bool" where
  "card_bitmap_inv \<equiv> bitmap_inv 2 128"

lemma bitmap_next_set_eq:
  assumes "slot_bitmap_inv words"
  shows "bitmap_next_set words start =
    Ok (if \<exists>s \<in> slots_of words. start \<le> s then Some (LEAST s. s \<in> slots_of words \<and> start \<le> s) else None)"
proof (cases "unat start < 4095")
  case False
  then show ?thesis using assms
    by (auto simp: bitmap_next_set_def layout_values slots_of_def bitmap_inv_def word_le_nat_alt)
next
  case True
  let ?S = "\<exists>i \<in> bits_of words. unat start \<le> i \<and> i < 4095"
  let ?L = "LEAST i. i \<in> bits_of words \<and> unat start \<le> i"
  have len: "length words = 64" and sub: "bits_of words \<subseteq> {..<4095}" using assms by (auto simp: bitmap_inv_def)
  have k: "unat start div 64 < length words" using True len by simp
  have "bitmap_next_set words start = Ok (if ?S then Some (word_of_nat ?L) else None)"
  proof -
    have "next_set_from words (unat start div 64) (words ! (unat start div 64) AND push_bit (unat start mod 64) (- 1)) =
        Ok (if ?S then Some (word_of_nat ?L) else None)"
    proof (rule next_set_from_eq [OF k len])
      fix j
      have "unat start \<le> unat start div 64 * 64 + j \<longleftrightarrow> unat start mod 64 \<le> j"
        by (metis add_le_cancel_left div_mult_mod_eq)
      then show "bit (words ! (unat start div 64) AND push_bit (unat start mod 64) (- 1)) j \<longleftrightarrow>
          unat start \<le> unat start div 64 * 64 + j \<and> bit (words ! (unat start div 64)) j"
        by (auto simp: bit_simps dest: bit_imp_le_length)
    next
      have "unat start = unat start div 64 * 64 + unat start mod 64" by simp
      moreover have "unat start mod 64 < 64" by simp
      ultimately show "unat start < unat start div 64 * 64 + 64" by linarith
    qed (metis div_times_less_eq_dividend le_trans)
    then show ?thesis using True k by (simp add: bitmap_next_set_def layout_values index_or_panic_def get_def)
  qed
  moreover have "?S \<longleftrightarrow> (\<exists>s \<in> slots_of words. start \<le> s)"
  proof
    assume ?S
    then obtain i where "i \<in> bits_of words" "unat start \<le> i" "i < 4095" by blast
    then have "word_of_nat i \<in> slots_of words" "start \<le> word_of_nat i"
      by (simp_all add: slots_of_def unat_of_nat word_le_nat_alt)
    then show "\<exists>s \<in> slots_of words. start \<le> s" by blast
  qed (use sub in \<open>auto simp: slots_of_def word_le_nat_alt\<close>)
  moreover have "word_of_nat ?L = (LEAST s. s \<in> slots_of words \<and> start \<le> s)" if ex: ?S
  proof (rule Least_equality [symmetric])
    have L: "?L \<in> bits_of words \<and> unat start \<le> ?L" by (rule LeastI_ex) (use ex in auto)
    then have "?L < 4095" using sub by auto
    then have u: "unat (word_of_nat ?L :: u16) = ?L" by (simp add: unat_of_nat)
    show "word_of_nat ?L \<in> slots_of words \<and> start \<le> word_of_nat ?L"
      using L u by (simp add: slots_of_def word_le_nat_alt)
    show "word_of_nat ?L \<le> s" if "s \<in> slots_of words \<and> start \<le> s" for s
      unfolding word_le_nat_alt u by (rule Least_le) (use that in \<open>simp add: slots_of_def word_le_nat_alt\<close>)
  qed
  ultimately show ?thesis by auto
qed

lemma slots_of_facts:
  assumes "slot_bitmap_inv words"
  shows "finite (slots_of words)" "s \<in> slots_of words \<Longrightarrow> unat s < 4095" "card (slots_of words) = card (bits_of words)"
proof -
  show "unat s < 4095" if "s \<in> slots_of words" using that assms by (auto simp: slots_of_def bitmap_inv_def)
  have "bits_of words = unat ` slots_of words"
  proof
    show "bits_of words \<subseteq> unat ` slots_of words"
    proof
      fix i assume i: "i \<in> bits_of words"
      then have "unat (word_of_nat i :: u16) = i" using assms by (auto simp: bitmap_inv_def unat_of_nat)
      with i show "i \<in> unat ` slots_of words" by (metis (mono_tags) imageI mem_Collect_eq slots_of_def)
    qed
  qed (auto simp: slots_of_def)
  moreover have "inj_on unat (slots_of words)" by (rule inj_onI) (simp add: word_unat_eq_iff)
  ultimately show "finite (slots_of words)" "card (slots_of words) = card (bits_of words)"
    using finite_bits_of [of words] by (simp_all add: finite_image_iff card_image)
qed


lemma unat_u16_less: "unat (x :: u16) < 65536"
  using unsigned_less [of x] by simp

lemma unat_ucast_u16: "unat (ucast (x :: u16) :: u32) = unat x"
  using unat_u16_less [of x] by (simp add: unsigned_ucast_eq take_bit_nat_eq_self)

section \<open>The slots of a span\<close>

abbreviation valid_class :: "size_class \<Rightarrow> bool" where
  "valid_class c \<equiv> size_class_new c = Some c"

lemma size_class_new_iff: "size_class_new c = Some d \<longleftrightarrow> d = c \<and> 16 \<le> unat c \<and> unat c mod 16 = 0"
  by (auto simp: size_class_new_def layout_values word_less_nat_alt not_less)

lemma slot_count_facts:
  assumes "valid_class c"
  shows "unat (slot_count c) = 65520 div unat c" "unat (slot_count c) \<le> 4095" "unat (slot_count c) * unat c \<le> 65520"
    "0 < slot_count c"
proof -
  have c: "16 \<le> unat c" "unat c < 65536" "unat c mod 16 = 0"
    using assms unsigned_less [of c] by (auto simp: size_class_new_iff)
  have le: "65520 div unat c \<le> 65520 div 16" using c(1) by (rule div_le_mono2 [rotated]) simp
  then show n: "unat (slot_count c) = 65520 div unat c"
    by (simp add: slot_count_def layout_values unat_of_nat)
  then show "unat (slot_count c) \<le> 4095" using le by simp
  show "unat (slot_count c) * unat c \<le> 65520" unfolding n by simp
  have "unat c \<le> 65520" using c by presburger
  then have "0 < 65520 div unat c" using c(1) by (simp add: div_greater_zero_iff)
  then show "0 < slot_count c" using n by (simp add: word_less_nat_alt)
qed

lemma slot_end_le:
  assumes "valid_class c" and "s < slot_count c"
  shows "16 + unat s * unat c + unat c \<le> 65536"
proof -
  have "Suc (unat s) * unat c \<le> unat (slot_count c) * unat c"
    using assms(2) by (intro mult_le_mono1) (simp add: word_less_nat_alt)
  with slot_count_facts(3) [OF assms(1)] show ?thesis by simp
qed

lemma offset_for_slot_eq:
  assumes "valid_class c"
  shows "offset_for_slot c s = (if s < slot_count c then Some (word_of_nat (16 + unat s * unat c)) else None)"
proof (cases "s < slot_count c")
  case True
  have c: "16 \<le> unat c" using assms by (simp add: size_class_new_iff)
  then have "16 + unat s * unat c < 65536" using slot_end_le [OF assms True] by linarith
  then have "unat (word_of_nat (16 + unat s * unat c) :: u16) = 16 + unat s * unat c"
    by (simp add: unat_of_nat del: of_nat_add of_nat_mult)
  then have "(word_of_nat (16 + unat s * unat c) :: u16) \<noteq> 0" by (metis add_eq_0_iff_both_eq_0 unat_0 zero_neq_numeral)
  then show ?thesis using True by (simp add: offset_for_slot_def layout_values span_offset_new_def not_le)
qed (simp add: offset_for_slot_def not_less)

lemma unat_offset_for_slot:
  assumes "valid_class c" and "offset_for_slot c s = Some off"
  shows "unat off = 16 + unat s * unat c" "s < slot_count c"
proof -
  show s: "s < slot_count c" using assms by (auto simp: offset_for_slot_eq split: if_splits)
  have "16 \<le> unat c" using assms(1) by (simp add: size_class_new_iff)
  then have "16 + unat s * unat c < 65536" using slot_end_le [OF assms(1) s] by linarith
  then show "unat off = 16 + unat s * unat c"
    using assms s by (auto simp: offset_for_slot_eq unat_of_nat simp del: of_nat_add of_nat_mult)
qed

lemma slot_for_offset_iff:
  assumes "valid_class c"
  shows "slot_for_offset c off = Some s \<longleftrightarrow> offset_for_slot c s = Some off"
proof
  assume "offset_for_slot c s = Some off"
  note off = unat_offset_for_slot [OF assms this]
  have c: "16 \<le> unat c" using assms by (simp add: size_class_new_iff)
  have "unat s < 4095" using off(2) slot_count_facts(2) [OF assms] by (simp add: word_less_nat_alt)
  then show "slot_for_offset c off = Some s"
    using off c by (simp add: slot_for_offset_def layout_values Let_def slot_index_new_iff)
next
  assume "slot_for_offset c off = Some s"
  then have h: "16 \<le> unat off" "(unat off - 16) mod unat c = 0" "s < slot_count c"
    "s = word_of_nat ((unat off - 16) div unat c)"
    by (auto simp: slot_for_offset_def layout_values Let_def slot_index_new_iff not_less split: if_splits)
  have c: "16 \<le> unat c" using assms by (simp add: size_class_new_iff)
  have lt: "(unat off - 16) div unat c < 65536"
    using unat_u16_less [of off] by (simp add: order_le_less_trans [OF div_le_dividend])
  then have "unat s * unat c = unat off - 16"
    using h(2) by (simp add: h(4) unat_of_nat) (metis add.right_neutral div_mult_mod_eq)
  then have "16 + unat s * unat c = unat off" using h(1) by simp
  then show "offset_for_slot c s = Some off" using h(3) by (simp only: offset_for_slot_eq [OF assms]) simp
qed

text \<open>Distinct slots of a span do not overlap.\<close>

lemma slots_disjoint:
  assumes "s < t"
  shows "16 + unat s * unat (c :: size_class) + unat c \<le> 16 + unat t * unat c"
proof -
  have "Suc (unat s) * unat c \<le> unat t * unat c"
    using assms by (intro mult_le_mono1) (simp add: word_less_nat_alt)
  then show ?thesis by simp
qed


section \<open>The contract of the bitmaps\<close>

text \<open>
  What the collector relies on: membership, an insertion that reports whether the element was new, and
  clearing. An insertion may add a whole granule, as a card does for all addresses in it.
\<close>

locale granular_set =
  fixes contains :: "'s \<Rightarrow> 'i \<Rightarrow> ('e, bool) outcome"
    and insertion :: "'s \<Rightarrow> 'i \<Rightarrow> ('e, bool \<times> 's) outcome"
    and clearing :: "'s \<Rightarrow> 's"
    and elems :: "'s \<Rightarrow> 'i set"
    and invar :: "'s \<Rightarrow> bool"
    and valid :: "'i \<Rightarrow> bool"
    and granule :: "'i \<Rightarrow> 'i set"
  assumes contains_law: "invar s \<Longrightarrow> valid i \<Longrightarrow> contains s i = Ok (i \<in> elems s)"
    and insertion_law: "invar s \<Longrightarrow> valid i \<Longrightarrow>
      \<exists>s'. insertion s i = Ok (i \<notin> elems s, s') \<and> invar s' \<and> elems s' = granule i \<union> elems s"
    and clearing_law: "invar s \<Longrightarrow> invar (clearing s) \<and> elems (clearing s) = {}"
    and granule_refl: "i \<in> granule i"
begin

text \<open>Inserting a sequence of elements one after the other.\<close>

fun insert_all :: "'s \<Rightarrow> 'i list \<Rightarrow> ('e, 's) outcome" where
  "insert_all s [] = Ok s"
| "insert_all s (i # is) = and_then (insertion s i) (\<lambda>(_, s). insert_all s is)"

lemma insert_all_elems:
  assumes "invar s" and "list_all valid is"
  shows "\<exists>s'. insert_all s is = Ok s' \<and> invar s' \<and> elems s' = elems s \<union> (\<Union>i \<in> set is. granule i)"
  using assms
proof (induction "is" arbitrary: s)
  case (Cons i "is")
  then obtain s1 where s1: "insertion s i = Ok (i \<notin> elems s, s1)" "invar s1" "elems s1 = granule i \<union> elems s"
    using insertion_law by force
  then show ?case using Cons.IH [of s1] Cons.prems(2) by auto
qed simp

lemma insert_all_then_contains:
  assumes "invar s" and "list_all valid is" and "j \<in> set is" and "insert_all (clearing s) is = Ok s'"
  shows "contains s' j = Ok True"
proof -
  have "invar s'" "elems s' = (\<Union>i \<in> set is. granule i)"
    using insert_all_elems [of "clearing s" "is"] clearing_law assms by auto
  moreover have "valid j" using assms(2,3) by (auto simp: list_all_iff)
  ultimately show ?thesis using contains_law assms(3) granule_refl by fastforce
qed

lemma insertion_idempotent:
  assumes "invar s" and "valid i" and "insertion s i = Ok (b, s1)" and "insertion s1 i = Ok (b', s2)"
  shows "\<not> b' \<and> elems s2 = elems s1"
proof -
  have s1: "invar s1" "elems s1 = granule i \<union> elems s" using insertion_law [OF assms(1,2)] assms(3) by auto
  then have "i \<in> elems s1" using granule_refl by blast
  then show ?thesis using insertion_law [OF s1(1) assms(2)] assms(4) s1(2) by auto
qed

end

abbreviation valid_slot :: "slot_index \<Rightarrow> bool" where
  "valid_slot s \<equiv> unat s < 4095"

lemma slot_bitmap_ops:
  assumes "slot_bitmap_inv words" and "valid_slot s"
  shows "bitmap_contains words (unat s) = Ok (s \<in> slots_of words)"
    and "bitmap_insert words (unat s) = Ok (s \<notin> slots_of words, with_bit words (unat s))"
    and "bitmap_remove words s = Ok (s \<in> slots_of words, without_bit words (unat s))"
    and "slot_bitmap_inv (with_bit words (unat s))" "slots_of (with_bit words (unat s)) = insert s (slots_of words)"
    and "slot_bitmap_inv (without_bit words (unat s))" "slots_of (without_bit words (unat s)) = slots_of words - {s}"
proof -
  have len: "unat s < 64 * length words" using assms by (simp add: bitmap_inv_def)
  show "bitmap_contains words (unat s) = Ok (s \<in> slots_of words)"
    "bitmap_insert words (unat s) = Ok (s \<notin> slots_of words, with_bit words (unat s))"
    "bitmap_remove words s = Ok (s \<in> slots_of words, without_bit words (unat s))"
    by (simp_all add: bitmap_contains_eq [OF len] bitmap_insert_eq [OF len] bitmap_remove_eq [OF len] slots_of_def)
  show "slots_of (with_bit words (unat s)) = insert s (slots_of words)"
    "slots_of (without_bit words (unat s)) = slots_of words - {s}"
    by (auto simp: slots_of_def bits_of_with_bit [OF len] word_unat_eq_iff)
  show "slot_bitmap_inv (with_bit words (unat s))" "slot_bitmap_inv (without_bit words (unat s))"
    using assms by (auto simp: bits_of_with_bit [OF len] bitmap_inv_def)
qed

lemma slot_bitmap_empty:
  "slot_bitmap_inv words \<Longrightarrow> slot_bitmap_inv (bitmap_clear words)" "slots_of (bitmap_clear words) = {}"
  "slot_bitmap_inv slot_bitmap_new" "slots_of slot_bitmap_new = {}"
  by (auto simp: bitmap_inv_def slots_of_def slot_bitmap_new_def layout_values)

interpretation slot_bits: granular_set "\<lambda>w s. bitmap_contains w (unat s)" "\<lambda>w s. bitmap_insert w (unat s)" bitmap_clear
  slots_of slot_bitmap_inv valid_slot "\<lambda>s. {s}"
  by unfold_locales (simp_all add: slot_bitmap_ops slot_bitmap_empty)

definition marked_slots :: "collection_epoch \<Rightarrow> mark_bitmap \<Rightarrow> slot_index set" where
  "marked_slots e m = (if mb_epoch m = Some e then slots_of (mb_bits m) else {})"

abbreviation mark_inv :: "mark_bitmap \<Rightarrow> bool" where
  "mark_inv m \<equiv> slot_bitmap_inv (mb_bits m)"

text \<open>The bitmap after marking one slot.\<close>

definition with_mark :: "mark_bitmap \<Rightarrow> slot_index \<Rightarrow> collection_epoch \<Rightarrow> mark_bitmap" where
  "with_mark m s e = m\<lparr>mb_epoch := Some e,
     mb_bits := with_bit (if mb_epoch m = Some e then mb_bits m else bitmap_clear (mb_bits m)) (unat s)\<rparr>"

lemma mark_bitmap_ops:
  assumes "mark_inv m" and "valid_slot s"
  shows "is_marked m s e = Ok (s \<in> marked_slots e m)"
    and "mark m s e = Ok (s \<notin> marked_slots e m, with_mark m s e)"
    and "mark_inv (with_mark m s e)" "marked_slots e (with_mark m s e) = insert s (marked_slots e m)"
  using assms slot_bitmap_empty(1) [OF assms(1)]
  by (auto simp: is_marked_def mark_def marked_slots_def with_mark_def slot_bitmap_ops slot_bitmap_empty Let_def)

lemma mark_bitmap_empty:
  "mark_inv m \<Longrightarrow> mark_inv (reset_for_epoch_overflow m)" "marked_slots e (reset_for_epoch_overflow m) = {}"
  "mark_inv mark_bitmap_new" "marked_slots e mark_bitmap_new = {}"
  by (auto simp: reset_for_epoch_overflow_def marked_slots_def mark_bitmap_new_def slot_bitmap_empty)

interpretation mark_bits: granular_set "\<lambda>m s. is_marked m s e" "\<lambda>m s. mark m s e" reset_for_epoch_overflow
  "marked_slots e" mark_inv valid_slot "\<lambda>s. {s}" for e
  by unfold_locales (simp_all add: mark_bitmap_ops mark_bitmap_empty)

definition dirty_offsets :: "bitmap \<Rightarrow> span_offset set" where
  "dirty_offsets words = {off. unat off div 512 \<in> bits_of words}"

lemma card_bitmap_ops:
  assumes "card_bitmap_inv words"
  shows "card_is_dirty words off = Ok (off \<in> dirty_offsets words)"
    and "card_mark words off = Ok (off \<notin> dirty_offsets words, with_bit words (unat off div 512))"
    and "card_bitmap_inv (with_bit words (unat off div 512))"
    and "dirty_offsets (with_bit words (unat off div 512)) = {x. unat x div 512 = unat off div 512} \<union> dirty_offsets words"
proof -
  have bound: "unat off div 512 < 128" using unat_u16_less [of off] by (simp add: less_mult_imp_div_less)
  then have len: "unat off div 512 < 64 * length words" using assms by (simp add: bitmap_inv_def)
  then show "card_is_dirty words off = Ok (off \<in> dirty_offsets words)"
    "card_mark words off = Ok (off \<notin> dirty_offsets words, with_bit words (unat off div 512))"
    by (simp_all add: card_is_dirty_def card_mark_def bitmap_contains_eq bitmap_insert_eq dirty_offsets_def layout_values)
  show "card_bitmap_inv (with_bit words (unat off div 512))"
    "dirty_offsets (with_bit words (unat off div 512)) = {x. unat x div 512 = unat off div 512} \<union> dirty_offsets words"
    using assms bound by (auto simp: bits_of_with_bit [OF len] bitmap_inv_def dirty_offsets_def)
qed

lemma card_bitmap_empty: "card_bitmap_inv words \<Longrightarrow> card_bitmap_inv (bitmap_clear words)" "dirty_offsets (bitmap_clear words) = {}"
  by (auto simp: bitmap_inv_def dirty_offsets_def)

interpretation card_bits: granular_set card_is_dirty card_mark bitmap_clear dirty_offsets card_bitmap_inv
  "\<lambda>_. True" "\<lambda>off. {x. unat x div 512 = unat off div 512}"
  by unfold_locales (simp_all add: card_bitmap_ops card_bitmap_empty)

section \<open>The invariant of a small-object span\<close>

definition small_span_inv :: "small_span_metadata \<Rightarrow> bool" where
  "small_span_inv m \<longleftrightarrow>
     valid_class (ss_size_class m) \<and> slot_bitmap_inv (ss_allocations m) \<and> mark_inv (ss_marks m) \<and>
     card_bitmap_inv (ss_cards m) \<and> ss_bump_cursor m \<le> slot_count (ss_size_class m) \<and>
     slots_of (ss_allocations m) \<subseteq> {s. s < ss_bump_cursor m} \<and>
     unat (ss_allocated_slots m) = card (slots_of (ss_allocations m)) \<and>
     unat (ss_allocated_bytes m) = card (slots_of (ss_allocations m)) * unat (ss_size_class m)"

lemma small_span_invD:
  assumes "small_span_inv m"
  shows "valid_class (ss_size_class m)" "slot_bitmap_inv (ss_allocations m)" "mark_inv (ss_marks m)"
    "card_bitmap_inv (ss_cards m)" "ss_bump_cursor m \<le> slot_count (ss_size_class m)"
    "s \<in> slots_of (ss_allocations m) \<Longrightarrow> s < ss_bump_cursor m"
    "unat (ss_allocated_slots m) = card (slots_of (ss_allocations m))"
    "unat (ss_allocated_bytes m) = card (slots_of (ss_allocations m)) * unat (ss_size_class m)"
  using assms by (auto simp: small_span_inv_def)

lemma bump_valid_slot: "small_span_inv m \<Longrightarrow> s < slot_count (ss_size_class m) \<Longrightarrow> valid_slot s"
  using slot_count_facts(2) [of "ss_size_class m"] by (auto simp: small_span_inv_def word_less_nat_alt)

lemma allocated_slot_valid:
  "small_span_inv m \<Longrightarrow> s \<in> slots_of (ss_allocations m) \<Longrightarrow> s < slot_count (ss_size_class m)"
  using small_span_invD(5,6) order_less_le_trans by blast

lemma small_span_new_inv: "valid_class c \<Longrightarrow> small_span_inv (small_span_new c space g)"
  by (simp add: small_span_inv_def small_span_new_def slot_bitmap_empty mark_bitmap_empty)
    (simp add: bitmap_inv_def card_bitmap_new_def layout_values)

lemma take_bump_slot_eq:
  assumes "small_span_inv m"
  shows "take_bump_slot m =
      (if ss_bump_cursor m < slot_count (ss_size_class m)
       then Ok (Some (ss_bump_cursor m), m\<lparr>ss_bump_cursor := ss_bump_cursor m + 1\<rparr>) else Ok (None, m))"
    and "ss_bump_cursor m < slot_count (ss_size_class m) \<Longrightarrow>
      small_span_inv (m\<lparr>ss_bump_cursor := ss_bump_cursor m + 1\<rparr>)"
proof -
  show "take_bump_slot m =
      (if ss_bump_cursor m < slot_count (ss_size_class m)
       then Ok (Some (ss_bump_cursor m), m\<lparr>ss_bump_cursor := ss_bump_cursor m + 1\<rparr>) else Ok (None, m))"
    using bump_valid_slot [OF assms, of "ss_bump_cursor m"]
    by (auto simp: take_bump_slot_def slot_index_new_def layout_values not_le)
  assume less: "ss_bump_cursor m < slot_count (ss_size_class m)"
  then have "unat (ss_bump_cursor m + 1) = unat (ss_bump_cursor m) + 1"
    using bump_valid_slot [OF assms less] by (simp add: unat_word_ariths)
  with less have "ss_bump_cursor m < ss_bump_cursor m + 1" "ss_bump_cursor m + 1 \<le> slot_count (ss_size_class m)"
    by (simp_all add: word_less_nat_alt word_le_nat_alt)
  then show "small_span_inv (m\<lparr>ss_bump_cursor := ss_bump_cursor m + 1\<rparr>)"
    using assms by (auto simp: small_span_inv_def)
qed


text \<open>The metadata after a successful \<open>commit_allocation\<close> and after a \<open>reclaim_allocation\<close>.\<close>

definition committed :: "small_span_metadata \<Rightarrow> slot_index \<Rightarrow> small_span_metadata" where
  "committed m s = m\<lparr>ss_allocations := with_bit (ss_allocations m) (unat s),
     ss_allocated_slots := ss_allocated_slots m + 1,
     ss_allocated_bytes := ss_allocated_bytes m + ucast (ss_size_class m)\<rparr>"

definition reclaimed :: "small_span_metadata \<Rightarrow> slot_index \<Rightarrow> small_span_metadata" where
  "reclaimed m s =
     (if s \<in> slots_of (ss_allocations m)
      then m\<lparr>ss_allocations := without_bit (ss_allocations m) (unat s), ss_allocated_slots := ss_allocated_slots m - 1,
        ss_allocated_bytes := ss_allocated_bytes m - ucast (ss_size_class m)\<rparr>
      else m\<lparr>ss_allocations := without_bit (ss_allocations m) (unat s)\<rparr>)"

lemma commit_allocation_eq:
  assumes inv: "small_span_inv m" and s: "s < ss_bump_cursor m" "s \<notin> slots_of (ss_allocations m)"
  shows "commit_allocation m s = Ok (committed m s)" "small_span_inv (committed m s)"
    "slots_of (ss_allocations (committed m s)) = insert s (slots_of (ss_allocations m))"
proof -
  note [simp] = small_span_invD(2) [OF inv]
  let ?A = "slots_of (ss_allocations m)" and ?c = "ss_size_class m"
  have sc: "s < slot_count ?c" using s(1) small_span_invD(5) [OF inv] by simp
  note vs = bump_valid_slot [OF inv sc]
  have "insert s ?A \<subseteq> {t. t < slot_count ?c}" using allocated_slot_valid [OF inv] sc by auto
  then have "card (insert s ?A) \<le> card {t. t < slot_count ?c}" by (rule card_mono [rotated]) simp
  also have "card {t. t < slot_count ?c} \<le> unat (slot_count ?c)"
  proof -
    have "unat ` {t. t < slot_count ?c} \<subseteq> {..<unat (slot_count ?c)}" by (auto simp: word_less_nat_alt)
    then have "card (unat ` {t. t < slot_count ?c}) \<le> unat (slot_count ?c)" by (metis card_lessThan card_mono finite_lessThan)
    moreover have "inj_on unat {t. t < slot_count ?c}" by (rule inj_onI) (simp add: word_unat_eq_iff)
    ultimately show ?thesis by (simp add: card_image)
  qed
  finally have "Suc (card ?A) \<le> unat (slot_count ?c)"
    using s(2) slots_of_facts(1) [OF small_span_invD(2) [OF inv]] by simp
  then have "Suc (card ?A) * unat ?c \<le> 65520" "Suc (card ?A) \<le> 4095"
    using slot_count_facts(2,3) [OF small_span_invD(1) [OF inv]] mult_le_mono1 order_trans by blast+
  then have sums: "unat (ss_allocated_slots m + 1) = Suc (card ?A)"
    "unat (ss_allocated_bytes m + ucast ?c) = Suc (card ?A) * unat ?c"
    "checked_add (ss_allocated_slots m) 1 = Some (ss_allocated_slots m + 1)"
    "checked_add (ss_allocated_bytes m) (ucast ?c) = Some (ss_allocated_bytes m + ucast ?c)"
    using small_span_invD(7,8) [OF inv] by (simp_all add: checked_add_def unat_word_ariths unat_ucast_u16)
  then show "commit_allocation m s = Ok (committed m s)"
    using s(2) vs by (simp add: commit_allocation_def committed_def slot_bitmap_ops)
  show "slots_of (ss_allocations (committed m s)) = insert s ?A" using vs by (simp add: committed_def slot_bitmap_ops)
  show "small_span_inv (committed m s)"
    using inv s(1) sums(1,2) s(2) slots_of_facts(1) [OF small_span_invD(2) [OF inv]] vs
    by (simp add: small_span_inv_def committed_def slot_bitmap_ops)
qed

lemma reclaim_allocation_eq:
  assumes inv: "small_span_inv m" and vs: "valid_slot s"
  shows "reclaim_allocation m s = Ok (s \<in> slots_of (ss_allocations m), reclaimed m s)" "small_span_inv (reclaimed m s)"
    "slots_of (ss_allocations (reclaimed m s)) = slots_of (ss_allocations m) - {s}"
proof -
  note alloc = small_span_invD(2) [OF inv]
  let ?A = "slots_of (ss_allocations m)" and ?c = "ss_size_class m"
  show "reclaim_allocation m s = Ok (s \<in> ?A, reclaimed m s)"
    by (simp add: reclaim_allocation_def reclaimed_def slot_bitmap_ops alloc vs)
  show "slots_of (ss_allocations (reclaimed m s)) = ?A - {s}" by (simp add: reclaimed_def slot_bitmap_ops alloc vs)
  have sums: "unat (ss_allocated_slots m - 1) = card (?A - {s})"
    "unat (ss_allocated_bytes m - ucast ?c) = card (?A - {s}) * unat ?c" if "s \<in> ?A"
  proof -
    have pos: "0 < card ?A" "card (?A - {s}) = card ?A - 1"
      using that slots_of_facts(1) [OF alloc] by (auto simp: card_gt_0_iff)
    then have "1 \<le> ss_allocated_slots m" "ucast ?c \<le> ss_allocated_bytes m"
      using small_span_invD(7,8) [OF inv] by (auto simp: word_le_nat_alt unat_ucast_u16)
    then show "unat (ss_allocated_slots m - 1) = card (?A - {s})"
      "unat (ss_allocated_bytes m - ucast ?c) = card (?A - {s}) * unat ?c"
      using small_span_invD(7,8) [OF inv] pos(2) by (simp_all add: unat_sub unat_ucast_u16 diff_mult_distrib)
  qed
  show "small_span_inv (reclaimed m s)"
    using inv sums vs by (auto simp: small_span_inv_def reclaimed_def slot_bitmap_ops)
qed


section \<open>The life of a span\<close>

text \<open>
  One operation on a span: an allocation from the bump region or from a free slot below the cursor, a
  reclaimed slot, a mark, the forced reset of the marks, a remembered card, a new card snapshot, a
  change of cohort or of the free-list head.
\<close>

inductive span_step :: "small_span_metadata \<Rightarrow> small_span_metadata \<Rightarrow> bool" where
  bump: "take_bump_slot m = (Ok (Some s, m') :: (unit, _) outcome) \<Longrightarrow>
    commit_allocation m' s = (Ok m'' :: (unit, _) outcome) \<Longrightarrow> span_step m m''"
| reuse: "s < ss_bump_cursor m \<Longrightarrow> s \<notin> slots_of (ss_allocations m) \<Longrightarrow>
    commit_allocation m s = (Ok m' :: (unit, _) outcome) \<Longrightarrow> span_step m m'"
| reclaim: "slot_index_new i = Some s \<Longrightarrow> reclaim_allocation m s = (Ok (b, m') :: (unit, _) outcome) \<Longrightarrow> span_step m m'"
| mark: "slot_index_new i = Some s \<Longrightarrow> mark (ss_marks m) s e = (Ok (b, marks) :: (unit, _) outcome) \<Longrightarrow>
    span_step m (m\<lparr>ss_marks := marks\<rparr>)"
| reset: "span_step m (m\<lparr>ss_marks := reset_for_epoch_overflow (ss_marks m)\<rparr>)"
| card: "remember_card m off = (Ok (b, m') :: (unit, _) outcome) \<Longrightarrow> span_step m m'"
| cards: "card_bitmap_inv cards \<Longrightarrow> span_step m (replace_cards m cards)"
| space: "span_step m (set_space m space)"
| head: "span_step m (set_free_list_head m head)"

lemma span_step_inv:
  assumes "span_step m m'" and inv: "small_span_inv m"
  shows "small_span_inv m' \<and> ss_size_class m' = ss_size_class m"
  using assms
proof (induction rule: span_step.induct)
  case (bump m s m' m'')
  let ?m = "m\<lparr>ss_bump_cursor := ss_bump_cursor m + 1\<rparr>"
  have b: "ss_bump_cursor m < slot_count (ss_size_class m)" "s = ss_bump_cursor m" "m' = ?m"
    using bump.hyps(1) by (auto simp: take_bump_slot_eq(1) [OF bump.prems] split: if_splits)
  note inv' = take_bump_slot_eq(2) [OF bump.prems b(1)]
  have "unat (s + 1) = unat s + 1"
    using bump_valid_slot [OF bump.prems b(1)] by (simp add: unat_word_ariths b(2))
  then have "s < ss_bump_cursor ?m" using b(2) by (simp add: word_less_nat_alt)
  moreover have "s \<notin> slots_of (ss_allocations ?m)" using small_span_invD(6) [OF bump.prems, of s] b(2) by auto
  ultimately have "m'' = committed ?m s" and ok: "small_span_inv (committed ?m s)"
    using bump.hyps(2) commit_allocation_eq(2) [OF inv'] by (auto simp: commit_allocation_eq(1) [OF inv'] b(3))
  with ok show ?case by (simp add: committed_def)
next
  case (reuse s m m')
  then have "m' = committed m s" by (simp add: commit_allocation_eq)
  then show ?case using commit_allocation_eq(2) [OF reuse.prems reuse.hyps(1,2)] by (simp add: committed_def)
next
  case (reclaim i s m b m')
  then have "valid_slot s" by (simp add: slot_index_new_iff)
  moreover from this have "m' = reclaimed m s" using reclaim by (simp add: reclaim_allocation_eq)
  ultimately show ?case using reclaim_allocation_eq(2) [OF reclaim.prems] by (simp add: reclaimed_def)
next
  case (mark i s m e b marks)
  then have "valid_slot s" by (simp add: slot_index_new_iff)
  moreover from this have "marks = with_mark (ss_marks m) s e"
    using mark by (simp add: mark_bitmap_ops [OF small_span_invD(3) [OF mark.prems]])
  ultimately show ?case using mark.prems by (simp add: small_span_inv_def mark_bitmap_ops)
next
  case (reset m)
  then show ?case by (auto simp: small_span_inv_def mark_bitmap_empty)
next
  case (card m off b m')
  then have "m' = m\<lparr>ss_cards := with_bit (ss_cards m) (unat off div 512)\<rparr>"
    by (simp add: remember_card_def card_bitmap_ops [OF small_span_invD(4) [OF card.prems]])
  then show ?case using card.prems by (simp add: small_span_inv_def card_bitmap_ops)
qed (auto simp: small_span_inv_def replace_cards_def set_space_def set_free_list_head_def)

lemma reachable_span_inv:
  assumes "valid_class c" and "span_step\<^sup>*\<^sup>* (small_span_new c space g) m"
  shows "small_span_inv m \<and> ss_size_class m = c"
  using assms(2)
  by (induction rule: rtranclp_induct)
    (use assms(1) small_span_new_inv span_step_inv in \<open>auto simp: small_span_new_def\<close>)

section \<open>Properties\<close>

text \<open>C32. The slots of a size class: slot numbers and in-span offsets determine each other, every slot lies
  16-aligned between the reserved first granule and the end of the span, and distinct slots do not overlap.\<close>

theorem slots_partition_span:
  assumes "size_class_new n = Some c"
  shows "(slot_for_offset c off = Some s \<longleftrightarrow> offset_for_slot c s = Some off) \<and>
    (offset_for_slot c s = Some off \<longrightarrow>
       16 \<le> unat off \<and> unat off + unat c \<le> SPAN_SIZE_BYTES \<and> 16 dvd unat off \<and>
       (\<forall>t off'. offset_for_slot c t = Some off' \<and> s < t \<longrightarrow> unat off + unat c \<le> unat off'))"
proof (intro conjI impI allI)
  have c: "valid_class c" "16 dvd unat c" using assms by (auto simp: size_class_new_iff dvd_eq_mod_eq_0)
  show "slot_for_offset c off = Some s \<longleftrightarrow> offset_for_slot c s = Some off" by (rule slot_for_offset_iff [OF c(1)])
  assume off: "offset_for_slot c s = Some off"
  note u = unat_offset_for_slot [OF c(1) off]
  show "16 \<le> unat off" "16 dvd unat off" using u(1) c(2) by simp_all
  show "unat off + unat c \<le> SPAN_SIZE_BYTES" using slot_end_le [OF c(1) u(2)] u(1) by (simp add: layout_values)
  fix t off' assume "offset_for_slot c t = Some off' \<and> s < t"
  then show "unat off + unat c \<le> unat off'"
    using unat_offset_for_slot(1) [OF c(1)] slots_disjoint [of s t c] u(1) by auto
qed

theorem slots_partition_span_witness:
  "size_class_new 48 = Some 48 \<and> offset_for_slot 48 2 = Some 112 \<and> slot_for_offset 48 112 = Some 2"
proof -
  have c: "size_class_new 48 = Some 48" by (simp add: size_class_new_def layout_values)
  have off: "offset_for_slot 48 2 = Some 112"
    by (simp add: offset_for_slot_def slot_count_def layout_values span_offset_new_def)
  from slots_partition_span [OF c, of 112 2] c off show ?thesis by simp
qed




end
