(* ===== verification/Gc_Table.thy ===== *)
theory Gc_Table
  imports Gc_Span
begin

text \<open>
  The span table of the heap: object headers and layouts (\<open>crates/tachyon-gc/src/layout.rs\<close>), the storage
  of a span (\<open>storage.rs\<close>), the table of logical spans with its exact reference checks, marks and
  allocation (\<open>table.rs\<close>), the publication and release of spans with the coalesced list of vacant ids
  (\<open>table/publication.rs\<close>) and the collector's views of it (\<open>table/collector.rs\<close>).

  A payload is what its \<open>Trace\<close> implementation shows to a collector: the sequence of tracer calls with
  their slots. The byte store of a span is a function from 16-byte blocks to the header and the payload
  that begin there; a free-list link overwrites the first two bytes of a dead block, which are the
  \<open>type_id\<close> of its header. The capacity of a \<open>Vec\<close> and the answer of the allocator to a request are
  fields of the table, so that every allocation failure is a branch.
\<close>

section \<open>Headers and layouts\<close>

type_synonym gc_type_id = u16

record gc_header =
  gh_type_id :: u16
  gh_flags :: u16
  gh_aux :: u32

definition GC_HEADER_SIZE_BYTES :: nat where "GC_HEADER_SIZE_BYTES = 8"
definition GC_HEADER_EXTERNAL_BYTES_FLAG :: u16 where "GC_HEADER_EXTERNAL_BYTES_FLAG = push_bit 15 1"
definition MAX_LOGICAL_SPANS :: nat where "MAX_LOGICAL_SPANS = 2 ^ 16"

definition gc_type_id_new :: "u16 \<Rightarrow> gc_type_id option" where
  "gc_type_id_new n = (if n \<noteq> 0 then Some n else None)"

definition gc_header_new :: "gc_type_id \<Rightarrow> u16 \<Rightarrow> u32 \<Rightarrow> gc_header" where
  "gc_header_new type_id flags aux = \<lparr>gh_type_id = type_id, gh_flags = flags, gh_aux = aux\<rparr>"

definition header_type_id :: "gc_header \<Rightarrow> gc_type_id option" where
  "header_type_id h = gc_type_id_new (gh_type_id h)"

definition header_external_bytes :: "gc_header \<Rightarrow> nat option" where
  "header_external_bytes h =
     (if gh_flags h AND GC_HEADER_EXTERNAL_BYTES_FLAG = 0 then None else Some (unat (gh_aux h)))"

record payload_layout =
  pl_size :: nat
  pl_align :: nat

datatype layout_error = AlignmentTooLarge nat | SizeTooLarge nat

record object_layout =
  ol_payload_offset :: nat
  ol_allocation_size :: nat
  ol_alignment :: nat

definition round_up :: "nat \<Rightarrow> nat \<Rightarrow> nat" where
  "round_up n a = div_ceil n a * a"

text \<open>\<open>Layout::extend\<close> of the eight-byte, four-aligned header by the payload, then padding and rounding.\<close>

definition for_payload_layout :: "payload_layout \<Rightarrow> (layout_error, object_layout) outcome" where
  "for_payload_layout p =
     (let alignment = max 4 (pl_align p);
          payload_offset = round_up GC_HEADER_SIZE_BYTES (pl_align p);
          padded = round_up (payload_offset + pl_size p) alignment
      in if padded \<ge> 2 ^ 63 then Err (SizeTooLarge (pl_size p))
         else Ok \<lparr>ol_payload_offset = payload_offset,
                  ol_allocation_size = round_up (max padded MINIMUM_SLOT_SIZE_BYTES) MINIMUM_SLOT_SIZE_BYTES,
                  ol_alignment = alignment\<rparr>)"

record small_object_layout =
  so_payload_offset :: u16
  so_slot_size :: u16

definition small_layout_for :: "payload_layout \<Rightarrow> (layout_error, small_object_layout) outcome" where
  "small_layout_for p =
     and_then (for_payload_layout p) (\<lambda>l.
     if ol_alignment l > MINIMUM_SLOT_SIZE_BYTES then Err (AlignmentTooLarge (ol_alignment l))
     else if ol_payload_offset l \<ge> 2 ^ 16 then Err (SizeTooLarge (ol_allocation_size l))
     else if ol_allocation_size l \<ge> 2 ^ 16 then Err (SizeTooLarge (ol_allocation_size l))
     else Ok \<lparr>so_payload_offset = word_of_nat (ol_payload_offset l), so_slot_size = word_of_nat (ol_allocation_size l)\<rparr>)"

text \<open>The calls a payload makes to a tracer.\<close>

datatype trace_item =
    Trace_Value js_value
  | Trace_Raw raw_heap_ref
  | Trace_Weak "raw_heap_ref option"
  | Trace_Ephemeron "raw_heap_ref option" js_value
  | Trace_Finalization "raw_heap_ref option" js_value

type_synonym payload = "trace_item list"

datatype allocation_policy = YoungEligible | OldOnly

record type_descriptor =
  td_type_id :: gc_type_id
  td_layout :: payload_layout
  td_allocation_policy :: allocation_policy

type_synonym type_registry = "type_descriptor list"

text \<open>An id is non-zero, so the subtraction does not wrap.\<close>

definition registry_descriptor :: "type_registry \<Rightarrow> gc_type_id \<Rightarrow> type_descriptor option" where
  "registry_descriptor types type_id = get types (unat type_id - 1)"

section \<open>Span storage\<close>

record span_storage =
  st_len :: nat
  st_blocks :: "span_offset \<Rightarrow> gc_header \<times> payload"

datatype storage_access_error =
    MisalignedObjectOffset span_offset
  | ObjectCrossesSpanEnd span_offset
  | InvalidPayloadLayout layout_error
  | PayloadAlignmentTooLarge nat

definition zero_header :: gc_header where
  "zero_header = \<lparr>gh_type_id = 0, gh_flags = 0, gh_aux = 0\<rparr>"

text \<open>\<open>grants\<close> is the answer of the allocator to a request of that many bytes.\<close>

definition storage_new :: "(nat \<Rightarrow> bool) \<Rightarrow> nat \<Rightarrow> span_storage option" where
  "storage_new grants span_count =
     (if span_count = 0 then None
      else if \<not> grants (span_count * SPAN_SIZE_BYTES) then None
      else Some \<lparr>st_len = span_count * SPAN_SIZE_BYTES, st_blocks = (\<lambda>_. (zero_header, []))\<rparr>)"

definition checked_placement :: "span_storage \<Rightarrow> span_offset \<Rightarrow> payload_layout \<Rightarrow> (storage_access_error, nat) outcome" where
  "checked_placement s offset p =
     and_then (map_err InvalidPayloadLayout (for_payload_layout p)) (\<lambda>l.
     if ol_alignment l > MINIMUM_SLOT_SIZE_BYTES then Err (PayloadAlignmentTooLarge (ol_alignment l))
     else if unat offset mod MINIMUM_SLOT_SIZE_BYTES \<noteq> 0 then Err (MisalignedObjectOffset offset)
     else if unat offset + ol_allocation_size l > st_len s then Err (ObjectCrossesSpanEnd offset)
     else Ok (unat offset + ol_payload_offset l))"

definition storage_initialize ::
  "span_storage \<Rightarrow> span_offset \<Rightarrow> gc_header \<Rightarrow> payload_layout \<Rightarrow> payload \<Rightarrow> (storage_access_error, span_storage) outcome" where
  "storage_initialize s offset header p payload =
     and_then (checked_placement s offset p) (\<lambda>_. Ok (s\<lparr>st_blocks := (st_blocks s)(offset := (header, payload))\<rparr>))"

definition storage_header :: "span_storage \<Rightarrow> span_offset \<Rightarrow> (storage_access_error, gc_header) outcome" where
  "storage_header s offset =
     (if unat offset mod MINIMUM_SLOT_SIZE_BYTES \<noteq> 0 then Err (MisalignedObjectOffset offset)
      else if unat offset + GC_HEADER_SIZE_BYTES > st_len s then Err (ObjectCrossesSpanEnd offset)
      else Ok (fst (st_blocks s offset)))"

definition write_free_next :: "span_storage \<Rightarrow> span_offset \<Rightarrow> slot_index option \<Rightarrow> span_storage" where
  "write_free_next s offset link =
     (let encoded = (case link of None \<Rightarrow> 0 | Some slot \<Rightarrow> slot + 1); (header, payload) = st_blocks s offset
      in s\<lparr>st_blocks := (st_blocks s)(offset := (header\<lparr>gh_type_id := encoded\<rparr>, payload))\<rparr>)"

definition read_free_next :: "span_storage \<Rightarrow> span_offset \<Rightarrow> slot_index option" where
  "read_free_next s offset =
     (case checked_sub (gh_type_id (fst (st_blocks s offset))) 1 of None \<Rightarrow> None | Some n \<Rightarrow> slot_index_new n)"

section \<open>The span table\<close>

datatype span_table_error =
    AddressSpaceExhausted
  | TableAllocationFailed
  | FreeRangeAllocationFailed
  | StorageAllocationFailed
  | MetadataAllocationFailed
  | TE_UnknownSpan span_id
  | TE_VacantSpan span_id
  | LiveSpan span_id
  | LargeOwnerSpan span_id
  | LargeContinuationSpan span_id span_id

datatype small_allocation_error =
    AE_UnknownSpan span_id
  | AE_VacantSpan span_id
  | SurvivorIsNotAllocatable span_id
  | SpanFull span_id
  | InvalidInlineLayout layout_error
  | SizeClassTooSmall u16 u16

datatype heap_reference_error =
    RE_UnknownSpan span_id
  | RE_VacantSpan span_id
  | InvalidSlotBoundary raw_heap_ref
  | UnallocatedSlot raw_heap_ref
  | InvalidTypeId raw_heap_ref
  | UnregisteredTypeId raw_heap_ref gc_type_id
  | TypeMismatch gc_type_id gc_type_id
  | LargeOwnerOffset raw_heap_ref
  | LargeContinuationReference raw_heap_ref span_id u32
  | PayloadAccess raw_heap_ref

record small_span =
  sm_storage :: span_storage
  sm_metadata :: small_span_metadata

record large_span =
  lg_storage :: span_storage
  lg_metadata :: large_span_metadata

datatype span_kind = Small small_span | LargeOwner large_span | LargeContinuation span_id u32

record span_entry =
  en_generation :: span_reuse_generation
  en_kind :: "span_kind option"
  en_remembered_next :: "span_id option"
  en_in_remembered_set :: bool
  en_young_next :: "span_id option"
  en_in_young_set :: bool
  en_in_eden_pool :: bool

record free_span_range =
  fr_start :: u16
  fr_end :: u16

record span_table =
  tb_entries :: "span_entry list"
  tb_entries_capacity :: nat
  tb_free_ranges :: "free_span_range list"
  tb_free_ranges_capacity :: nat
  tb_live_spans :: nat
  tb_remembered_head :: "span_id option"
  tb_young_head :: "span_id option"
  tb_active_young_spans :: nat
  tb_grants :: "nat \<Rightarrow> bool"

definition span_table_new :: "(nat \<Rightarrow> bool) \<Rightarrow> span_table" where
  "span_table_new grants =
     \<lparr>tb_entries = [], tb_entries_capacity = 0, tb_free_ranges = [], tb_free_ranges_capacity = 0, tb_live_spans = 0,
      tb_remembered_head = None, tb_young_head = None, tb_active_young_spans = 0, tb_grants = grants\<rparr>"

text \<open>The entry of a span id and its kind; replacing the kind of an entry.\<close>

definition table_entry :: "span_table \<Rightarrow> span_id \<Rightarrow> span_entry option" where
  "table_entry t i = get (tb_entries t) (unat i)"

definition table_kind :: "span_table \<Rightarrow> span_id \<Rightarrow> span_kind option" where
  "table_kind t i = (case table_entry t i of None \<Rightarrow> None | Some e \<Rightarrow> en_kind e)"

definition update_entry :: "span_table \<Rightarrow> span_id \<Rightarrow> (span_entry \<Rightarrow> span_entry) \<Rightarrow> span_table" where
  "update_entry t i f = t\<lparr>tb_entries := (tb_entries t)[unat i := f (tb_entries t ! unat i)]\<rparr>"

definition set_kind :: "span_table \<Rightarrow> span_id \<Rightarrow> span_kind option \<Rightarrow> span_table" where
  "set_kind t i kind = update_entry t i (\<lambda>e. e\<lparr>en_kind := kind\<rparr>)"

definition table_metadata :: "span_table \<Rightarrow> span_id \<Rightarrow> small_span_metadata option" where
  "table_metadata t i = (case table_kind t i of Some (Small sp) \<Rightarrow> Some (sm_metadata sp) | _ \<Rightarrow> None)"

definition table_large_metadata :: "span_table \<Rightarrow> span_id \<Rightarrow> large_span_metadata option" where
  "table_large_metadata t i = (case table_kind t i of Some (LargeOwner sp) \<Rightarrow> Some (lg_metadata sp) | _ \<Rightarrow> None)"

definition can_allocate_in_span :: "span_table \<Rightarrow> span_id \<Rightarrow> bool" where
  "can_allocate_in_span t i =
     (case table_kind t i of Some (Small sp) \<Rightarrow> has_allocation_capacity (sm_metadata sp) | _ \<Rightarrow> False)"

subsection \<open>Exact reference checks\<close>

definition verify_small_span :: "small_span \<Rightarrow> raw_heap_ref \<Rightarrow> (heap_reference_error, gc_header) outcome" where
  "verify_small_span sp r =
     and_then (raw_heap_ref_span_offset r) (\<lambda>offset.
     and_then (ok_or (InvalidSlotBoundary r) (slot_for_offset (ss_size_class (sm_metadata sp)) offset)) (\<lambda>slot.
     and_then (bitmap_contains (ss_allocations (sm_metadata sp)) (unat slot)) (\<lambda>allocated.
     if \<not> allocated then Err (UnallocatedSlot r)
     else (case storage_header (sm_storage sp) offset of Ok h \<Rightarrow> Ok h | _ \<Rightarrow> Panic))))"

definition verify_large_span :: "large_span \<Rightarrow> raw_heap_ref \<Rightarrow> (heap_reference_error, gc_header) outcome" where
  "verify_large_span sp r =
     and_then (raw_heap_ref_span_offset r) (\<lambda>offset.
     if offset \<noteq> word_of_nat MINIMUM_SLOT_SIZE_BYTES then Err (LargeOwnerOffset r)
     else if \<not> ls_allocated (lg_metadata sp) then Err (UnallocatedSlot r)
     else (case storage_header (lg_storage sp) offset of Ok h \<Rightarrow> Ok h | _ \<Rightarrow> Panic))"

definition verify_reference ::
  "span_table \<Rightarrow> raw_heap_ref \<Rightarrow> gc_type_id option \<Rightarrow> (heap_reference_error, gc_header) outcome" where
  "verify_reference t r expected =
     (let i = raw_heap_ref_span_id r in
      and_then (ok_or (RE_UnknownSpan i) (table_entry t i)) (\<lambda>entry.
      and_then (ok_or (RE_VacantSpan i) (en_kind entry)) (\<lambda>kind.
      and_then (case kind of
                  Small sp \<Rightarrow> verify_small_span sp r
                | LargeOwner sp \<Rightarrow> verify_large_span sp r
                | LargeContinuation owner ordinal \<Rightarrow> Err (LargeContinuationReference r owner ordinal)) (\<lambda>header.
      and_then (ok_or (InvalidTypeId r) (header_type_id header)) (\<lambda>actual.
      case expected of
        Some e \<Rightarrow> if actual \<noteq> e then Err (TypeMismatch e actual) else Ok header
      | None \<Rightarrow> Ok header)))))"

definition small_slot :: "small_span \<Rightarrow> raw_heap_ref \<Rightarrow> (heap_reference_error, slot_index) outcome" where
  "small_slot sp r =
     and_then (raw_heap_ref_span_offset r) (\<lambda>offset. expect (slot_for_offset (ss_size_class (sm_metadata sp)) offset))"

definition reference_marked :: "span_table \<Rightarrow> raw_heap_ref \<Rightarrow> collection_epoch \<Rightarrow> (heap_reference_error, bool) outcome" where
  "reference_marked t r e =
     and_then (verify_reference t r None) (\<lambda>_.
     case table_kind t (raw_heap_ref_span_id r) of
       Some (Small sp) \<Rightarrow> and_then (small_slot sp r) (\<lambda>slot. is_marked (ss_marks (sm_metadata sp)) slot e)
     | Some (LargeOwner sp) \<Rightarrow> Ok (large_is_marked (lg_metadata sp) e)
     | _ \<Rightarrow> Panic)"

definition mark_reference ::
  "span_table \<Rightarrow> raw_heap_ref \<Rightarrow> collection_epoch \<Rightarrow> (heap_reference_error, bool \<times> span_table) outcome" where
  "mark_reference t r e =
     and_then (verify_reference t r None) (\<lambda>_.
     let i = raw_heap_ref_span_id r in
     case table_kind t i of
       Some (Small sp) \<Rightarrow>
         and_then (small_slot sp r) (\<lambda>slot.
         and_then (mark (ss_marks (sm_metadata sp)) slot e) (\<lambda>(fresh, marks).
         Ok (fresh, set_kind t i (Some (Small (sp\<lparr>sm_metadata := (sm_metadata sp)\<lparr>ss_marks := marks\<rparr>\<rparr>))))))
     | Some (LargeOwner sp) \<Rightarrow>
         (case large_mark (lg_metadata sp) e of (fresh, m) \<Rightarrow>
            Ok (fresh, set_kind t i (Some (LargeOwner (sp\<lparr>lg_metadata := m\<rparr>)))))
     | _ \<Rightarrow> Panic)"

text \<open>A payload address stands for the right to read and write the payload at the reference.\<close>

definition payload_address ::
  "span_table \<Rightarrow> raw_heap_ref \<Rightarrow> type_descriptor \<Rightarrow> (heap_reference_error, payload) outcome" where
  "payload_address t r descriptor =
     and_then (verify_reference t r (Some (td_type_id descriptor))) (\<lambda>_.
     and_then (raw_heap_ref_span_offset r) (\<lambda>offset.
     and_then (case table_kind t (raw_heap_ref_span_id r) of
                 Some (Small sp) \<Rightarrow> Ok (sm_storage sp)
               | Some (LargeOwner sp) \<Rightarrow> Ok (lg_storage sp)
               | _ \<Rightarrow> Panic) (\<lambda>storage.
     map_err (\<lambda>_. PayloadAccess r)
       (and_then (checked_placement storage offset (td_layout descriptor)) (\<lambda>_. Ok (snd (st_blocks storage offset)))))))"

definition write_payload :: "span_table \<Rightarrow> raw_heap_ref \<Rightarrow> payload \<Rightarrow> span_table" where
  "write_payload t r payload =
     (let i = raw_heap_ref_span_id r; offset = (ucast r :: u16);
          store = (\<lambda>s. s\<lparr>st_blocks := (st_blocks s)(offset := (fst (st_blocks s offset), payload))\<rparr>)
      in case table_kind t i of
           Some (Small sp) \<Rightarrow> set_kind t i (Some (Small (sp\<lparr>sm_storage := store (sm_storage sp)\<rparr>)))
         | Some (LargeOwner sp) \<Rightarrow> set_kind t i (Some (LargeOwner (sp\<lparr>lg_storage := store (lg_storage sp)\<rparr>)))
         | _ \<Rightarrow> t)"


subsection \<open>Remembered and young chains\<close>

definition link_remembered_source :: "span_table \<Rightarrow> span_id \<Rightarrow> ('e, span_table) outcome" where
  "link_remembered_source t i =
     and_then (index_or_panic (tb_entries t) (unat i)) (\<lambda>entry.
     if en_in_remembered_set entry then Ok t
     else Ok ((update_entry t i (\<lambda>e. e\<lparr>en_remembered_next := tb_remembered_head t, en_in_remembered_set := True\<rparr>))
                \<lparr>tb_remembered_head := Some i\<rparr>))"

definition link_young_span :: "span_table \<Rightarrow> span_id \<Rightarrow> ('e, span_table) outcome" where
  "link_young_span t i =
     and_then (index_or_panic (tb_entries t) (unat i)) (\<lambda>entry.
     if en_in_young_set entry then Ok t
     else Ok ((update_entry t i (\<lambda>e. e\<lparr>en_young_next := tb_young_head t, en_in_young_set := True\<rparr>))
                \<lparr>tb_young_head := Some i\<rparr>))"

subsection \<open>Allocation and reclamation of slots\<close>

definition take_allocation_slot ::
  "small_span \<Rightarrow> span_id \<Rightarrow> (small_allocation_error, slot_index \<times> small_span) outcome" where
  "take_allocation_slot sp i =
     (let m = sm_metadata sp;
          bump = and_then (take_bump_slot m) (\<lambda>(slot, m').
            and_then (ok_or (SpanFull i) slot) (\<lambda>slot. Ok (slot, sp\<lparr>sm_metadata := m'\<rparr>)))
      in case ss_space m of
           Survivor _ \<Rightarrow> Err (SurvivorIsNotAllocatable i)
         | Eden \<Rightarrow> bump
         | Old \<Rightarrow>
             (case ss_free_list_head m of
                Some slot \<Rightarrow>
                  and_then (expect (offset_for_slot (ss_size_class m) slot)) (\<lambda>offset.
                  Ok (slot, sp\<lparr>sm_metadata := set_free_list_head m (read_free_next (sm_storage sp) offset)\<rparr>))
              | None \<Rightarrow> bump))"

definition try_allocate_in_span ::
  "span_table \<Rightarrow> span_id \<Rightarrow> gc_type_id \<Rightarrow> u16 \<Rightarrow> u32 \<Rightarrow> payload_layout \<Rightarrow> payload \<Rightarrow>
   (small_allocation_error, raw_heap_ref \<times> span_table) outcome" where
  "try_allocate_in_span t i type_id flags aux layout payload =
     and_then (map_err InvalidInlineLayout (small_layout_for layout)) (\<lambda>l.
     and_then (ok_or (AE_UnknownSpan i) (table_entry t i)) (\<lambda>entry.
     and_then (ok_or (AE_VacantSpan i) (en_kind entry)) (\<lambda>kind.
     case kind of
       Small sp \<Rightarrow>
         (let actual = ss_size_class (sm_metadata sp) in
          if so_slot_size l > actual then Err (SizeClassTooSmall (so_slot_size l) actual)
          else and_then (take_allocation_slot sp i) (\<lambda>(slot, sp).
            and_then (expect (offset_for_slot (ss_size_class (sm_metadata sp)) slot)) (\<lambda>offset.
            and_then (case storage_initialize (sm_storage sp) offset (gc_header_new type_id flags aux) layout payload of
                        Ok s \<Rightarrow> Ok s | _ \<Rightarrow> Panic) (\<lambda>storage.
            and_then (commit_allocation (sm_metadata sp) slot) (\<lambda>m.
            and_then (if ss_space m = Old then remember_card m offset else Ok (False, m)) (\<lambda>(remember, m).
            let t = set_kind t i (Some (Small (sp\<lparr>sm_storage := storage, sm_metadata := m\<rparr>))) in
            and_then (raw_heap_ref_from_parts i offset) (\<lambda>r.
            if remember then and_then (link_remembered_source t i) (\<lambda>t. Ok (r, t)) else Ok (r, t))))))))
     | _ \<Rightarrow> Err (SpanFull i))))"

definition reclaim_small_after_drop :: "span_table \<Rightarrow> raw_heap_ref \<Rightarrow> ('e, bool \<times> span_table) outcome" where
  "reclaim_small_after_drop t r =
     (let i = raw_heap_ref_span_id r in
      case table_kind t i of
        Some (Small sp) \<Rightarrow>
          and_then (raw_heap_ref_span_offset r) (\<lambda>offset.
          case slot_for_offset (ss_size_class (sm_metadata sp)) offset of
            None \<Rightarrow> Ok (False, t)
          | Some slot \<Rightarrow>
              and_then (reclaim_allocation (sm_metadata sp) slot) (\<lambda>(present, m).
              if \<not> present then Ok (False, set_kind t i (Some (Small (sp\<lparr>sm_metadata := m\<rparr>))))
              else if ss_space m = Old
              then Ok (True, set_kind t i (Some (Small (sp\<lparr>sm_storage := write_free_next (sm_storage sp) offset (ss_free_list_head m),
                     sm_metadata := set_free_list_head m (Some slot)\<rparr>))))
              else Ok (True, set_kind t i (Some (Small (sp\<lparr>sm_metadata := m\<rparr>))))))
      | _ \<Rightarrow> Ok (False, t))"

definition unpublish_small_for_drop :: "span_table \<Rightarrow> raw_heap_ref \<Rightarrow> ('e, bool \<times> span_table) outcome" where
  "unpublish_small_for_drop t r =
     (let i = raw_heap_ref_span_id r in
      case table_kind t i of
        Some (Small sp) \<Rightarrow>
          and_then (raw_heap_ref_span_offset r) (\<lambda>offset.
          case slot_for_offset (ss_size_class (sm_metadata sp)) offset of
            None \<Rightarrow> Ok (False, t)
          | Some slot \<Rightarrow>
              and_then (reclaim_allocation (sm_metadata sp) slot) (\<lambda>(present, m).
              Ok (present, set_kind t i (Some (Small (sp\<lparr>sm_metadata := m\<rparr>))))))
      | _ \<Rightarrow> Ok (False, t))"

subsection \<open>Epochs\<close>

definition reset_entry_marks :: "span_entry \<Rightarrow> span_entry" where
  "reset_entry_marks e =
     (case en_kind e of
        Some (Small sp) \<Rightarrow>
          e\<lparr>en_kind := Some (Small (sp\<lparr>sm_metadata :=
            (sm_metadata sp)\<lparr>ss_marks := reset_for_epoch_overflow (ss_marks (sm_metadata sp))\<rparr>\<rparr>))\<rparr>
      | Some (LargeOwner sp) \<Rightarrow>
          e\<lparr>en_kind := Some (LargeOwner (sp\<lparr>lg_metadata := large_reset_mark_epoch (lg_metadata sp)\<rparr>))\<rparr>
      | _ \<Rightarrow> e)"

definition advance_collection_epoch :: "span_table \<Rightarrow> collection_epoch \<Rightarrow> collection_epoch \<times> span_table" where
  "advance_collection_epoch t current =
     (case epoch_next current of
        Ok e \<Rightarrow> (e, t)
      | _ \<Rightarrow> (epoch_INITIAL, t\<lparr>tb_entries := map reset_entry_marks (tb_entries t)\<rparr>))"

subsection \<open>The vacant ids\<close>

definition MAX_FREE_SPAN_RANGES :: nat where "MAX_FREE_SPAN_RANGES = div_ceil MAX_LOGICAL_SPANS 2"
definition INITIAL_SPAN_TABLE_CAPACITY :: nat where "INITIAL_SPAN_TABLE_CAPACITY = 8"
definition INITIAL_FREE_RANGE_CAPACITY :: nat where "INITIAL_FREE_RANGE_CAPACITY = 4"
definition CAPACITY_GROWTH_NUMERATOR :: nat where "CAPACITY_GROWTH_NUMERATOR = 3"
definition CAPACITY_GROWTH_DENOMINATOR :: nat where "CAPACITY_GROWTH_DENOMINATOR = 2"

text \<open>The capacity after reserving room for some more values, or the given error.\<close>

definition reserve_for_additional ::
  "(nat \<Rightarrow> bool) \<Rightarrow> nat \<Rightarrow> nat \<Rightarrow> nat \<Rightarrow> nat \<Rightarrow> nat \<Rightarrow> 'e \<Rightarrow> ('e, nat) outcome" where
  "reserve_for_additional grants len capacity additional_values initial_capacity maximum_capacity e =
     (let required = len + additional_values in
      if required \<le> capacity then Ok capacity
      else let target = (if capacity = 0 then initial_capacity
             else div_ceil (capacity * CAPACITY_GROWTH_NUMERATOR) CAPACITY_GROWTH_DENOMINATOR);
             target = min (max target required) maximum_capacity
           in if target < required then Err e
              else if grants target then Ok target else Err e)"

definition range_size :: "free_span_range \<Rightarrow> nat" where
  "range_size rng = unat (fr_end rng) - unat (fr_start rng) + 1"

text \<open>\<open>rposition\<close>: the last index whose element satisfies the predicate.\<close>

definition rposition :: "('a \<Rightarrow> bool) \<Rightarrow> 'a list \<Rightarrow> nat option" where
  "rposition P xs = (case filter (\<lambda>i. P (xs ! i)) [0..<length xs] of [] \<Rightarrow> None | is \<Rightarrow> Some (last is))"

definition remove_at :: "nat \<Rightarrow> 'a list \<Rightarrow> 'a list" where
  "remove_at i xs = take i xs @ drop (Suc i) xs"

definition insert_at :: "nat \<Rightarrow> 'a \<Rightarrow> 'a list \<Rightarrow> 'a list" where
  "insert_at i x xs = take i xs @ x # drop i xs"

definition take_free_span_range :: "span_table \<Rightarrow> nat \<Rightarrow> ('e, span_id option \<times> span_table) outcome" where
  "take_free_span_range t span_count =
     (case rposition (\<lambda>rng. range_size rng \<ge> span_count) (tb_free_ranges t) of
        None \<Rightarrow> Ok (None, t)
      | Some position \<Rightarrow>
          (let rng = tb_free_ranges t ! position; owner = unat (fr_end rng) + 1 - span_count
           in and_then
                (if owner = unat (fr_start rng)
                 then Ok (t\<lparr>tb_free_ranges := remove_at position (tb_free_ranges t)\<rparr>)
                 else if owner = 0 then Panic
                 else and_then (expect (if owner - 1 < 2 ^ 16 then Some (word_of_nat (owner - 1)) else None)) (\<lambda>last_id.
                   Ok (t\<lparr>tb_free_ranges := (tb_free_ranges t)[position := rng\<lparr>fr_end := last_id\<rparr>]\<rparr>)))
                (\<lambda>t. and_then (expect (if owner < 2 ^ 16 then Some (word_of_nat owner) else None)) (\<lambda>owner.
                  Ok (Some owner, t)))))"

definition take_free_span :: "span_table \<Rightarrow> ('e, span_id option \<times> span_table) outcome" where
  "take_free_span t = take_free_span_range t 1"

definition adjacent_free_range :: "span_table \<Rightarrow> u16 \<Rightarrow> nat option" where
  "adjacent_free_range t index =
     (case filter (\<lambda>i. let rng = tb_free_ranges t ! i in
                  unat (fr_start rng) \<le> unat index + 1 \<and> unat index \<le> unat (fr_end rng) + 1)
             [0..<length (tb_free_ranges t)] of
        [] \<Rightarrow> None | i # _ \<Rightarrow> Some i)"

definition reserve_free_range_if_needed :: "span_table \<Rightarrow> u16 \<Rightarrow> (span_table_error, span_table) outcome" where
  "reserve_free_range_if_needed t index =
     (if adjacent_free_range t index \<noteq> None then Ok t
      else and_then (reserve_for_additional (tb_grants t) (length (tb_free_ranges t)) (tb_free_ranges_capacity t) 1
             INITIAL_FREE_RANGE_CAPACITY MAX_FREE_SPAN_RANGES FreeRangeAllocationFailed) (\<lambda>capacity.
           Ok (t\<lparr>tb_free_ranges_capacity := capacity\<rparr>)))"

text \<open>\<open>partition_point\<close> on the sorted ranges counts the leading ranges that begin before the index.\<close>

definition insert_free_range :: "u16 \<Rightarrow> free_span_range list \<Rightarrow> free_span_range list" where
  "insert_free_range index ranges =
     (let position = length (takeWhile (\<lambda>rng. fr_start rng < index) ranges);
          joins_left = (position > 0 \<and> unat (fr_end (ranges ! (position - 1))) + 1 = unat index);
          joins_right = (position < length ranges \<and> unat index + 1 = unat (fr_start (ranges ! position)))
      in if joins_left \<and> joins_right
         then remove_at position (ranges[position - 1 := (ranges ! (position - 1))\<lparr>fr_end := fr_end (ranges ! position)\<rparr>])
         else if joins_left then ranges[position - 1 := (ranges ! (position - 1))\<lparr>fr_end := index\<rparr>]
         else if joins_right then ranges[position := (ranges ! position)\<lparr>fr_start := index\<rparr>]
         else insert_at position \<lparr>fr_start = index, fr_end = index\<rparr> ranges)"

definition insert_free_span :: "span_table \<Rightarrow> u16 \<Rightarrow> span_table" where
  "insert_free_span t index = t\<lparr>tb_free_ranges := insert_free_range index (tb_free_ranges t)\<rparr>"


subsection \<open>Publication and release of spans\<close>

datatype large_allocation_error =
    LE_AddressSpaceExhausted
  | LE_TableAllocationFailed
  | LE_StorageAllocationFailed
  | LE_PayloadAlignmentTooLarge nat

record large_reclaim =
  lr_span_count :: u32
  lr_storage_bytes :: nat
  lr_object_bytes :: nat

definition GENERATION_INITIAL :: span_reuse_generation where "GENERATION_INITIAL = 0"

definition fresh_entry :: "span_reuse_generation \<Rightarrow> span_kind \<Rightarrow> span_entry" where
  "fresh_entry generation kind =
     \<lparr>en_generation = generation, en_kind = Some kind, en_remembered_next = None, en_in_remembered_set = False,
      en_young_next = None, en_in_young_set = False, en_in_eden_pool = False\<rparr>"

definition with_generation :: "small_span \<Rightarrow> span_reuse_generation \<Rightarrow> small_span" where
  "with_generation sp generation = sp\<lparr>sm_metadata := (sm_metadata sp)\<lparr>ss_reuse_generation := generation\<rparr>\<rparr>"

definition install_new :: "span_table \<Rightarrow> small_span \<Rightarrow> (span_table_error, span_id \<times> span_table) outcome" where
  "install_new t sp =
     (if length (tb_entries t) = MAX_LOGICAL_SPANS then Err AddressSpaceExhausted
      else and_then (reserve_for_additional (tb_grants t) (length (tb_entries t)) (tb_entries_capacity t) 1
             INITIAL_SPAN_TABLE_CAPACITY MAX_LOGICAL_SPANS TableAllocationFailed) (\<lambda>capacity.
           and_then (expect (if length (tb_entries t) < 2 ^ 16 then Some (word_of_nat (length (tb_entries t))) else None)) (\<lambda>i.
           Ok (i, t\<lparr>tb_entries_capacity := capacity,
                    tb_entries := tb_entries t @ [fresh_entry GENERATION_INITIAL (Small (with_generation sp GENERATION_INITIAL))],
                    tb_live_spans := tb_live_spans t + 1\<rparr>))))"

definition install_reused :: "span_table \<Rightarrow> span_id \<Rightarrow> small_span \<Rightarrow> ('e, span_table) outcome" where
  "install_reused t i sp =
     and_then (index_or_panic (tb_entries t) (unat i)) (\<lambda>entry.
     Ok ((update_entry t i (\<lambda>e. e\<lparr>en_kind := Some (Small (with_generation sp (en_generation entry))), en_in_eden_pool := False\<rparr>))
           \<lparr>tb_live_spans := tb_live_spans t + 1\<rparr>))"

definition try_allocate_small :: "span_table \<Rightarrow> size_class \<Rightarrow> span_space \<Rightarrow> (span_table_error, span_id \<times> span_table) outcome" where
  "try_allocate_small t c space =
     and_then (ok_or StorageAllocationFailed (storage_new (tb_grants t) 1)) (\<lambda>storage.
     and_then (reject_if (\<not> tb_grants t 1) MetadataAllocationFailed) (\<lambda>_.
     let sp = \<lparr>sm_storage = storage, sm_metadata = small_span_new c space GENERATION_INITIAL\<rparr> in
     and_then (take_free_span t) (\<lambda>(free, t).
     and_then (case free of
                 Some i \<Rightarrow> and_then (install_reused t i sp) (\<lambda>t. Ok (i, t))
               | None \<Rightarrow> install_new t sp) (\<lambda>(i, t).
     if space \<noteq> Old
     then and_then (link_young_span t i) (\<lambda>t. Ok (i, t\<lparr>tb_active_young_spans := tb_active_young_spans t + 1\<rparr>))
     else Ok (i, t)))))"

definition is_young_space :: "span_space \<Rightarrow> bool" where
  "is_young_space space \<longleftrightarrow> (case space of Eden \<Rightarrow> True | Survivor _ \<Rightarrow> True | Old \<Rightarrow> False)"

definition release :: "span_table \<Rightarrow> span_id \<Rightarrow> (span_table_error, span_table) outcome" where
  "release t i =
     and_then (ok_or (TE_UnknownSpan i) (table_entry t i)) (\<lambda>entry.
     and_then (ok_or (TE_VacantSpan i) (en_kind entry)) (\<lambda>kind.
     and_then (case kind of
                 Small sp \<Rightarrow> reject_if (ss_allocated_slots (sm_metadata sp) \<noteq> 0) (LiveSpan i)
               | LargeOwner _ \<Rightarrow> Err (LargeOwnerSpan i)
               | LargeContinuation owner _ \<Rightarrow> Err (LargeContinuationSpan i owner)) (\<lambda>_.
     and_then (reserve_free_range_if_needed t i) (\<lambda>t.
     let was_active_young = (case kind of Small sp \<Rightarrow> is_young_space (ss_space (sm_metadata sp)) | _ \<Rightarrow> False) \<and> \<not> en_in_eden_pool entry;
         t = update_entry t i (\<lambda>e. e\<lparr>en_kind := None, en_generation := generation_next (en_generation e), en_in_eden_pool := False\<rparr>);
         t = insert_free_span t i
     in if was_active_young \<and> tb_active_young_spans t = 0 then Panic
        else Ok (t\<lparr>tb_live_spans := tb_live_spans t - 1,
                    tb_active_young_spans := tb_active_young_spans t - (if was_active_young then 1 else 0)\<rparr>)))))"

definition unpublish_large_for_drop :: "span_table \<Rightarrow> raw_heap_ref \<Rightarrow> (span_table_error, span_table) outcome" where
  "unpublish_large_for_drop t r =
     (let owner = raw_heap_ref_span_id r in
      case table_kind t owner of
        Some (LargeOwner sp) \<Rightarrow>
          if \<not> ls_allocated (lg_metadata sp) then Err (TE_VacantSpan owner)
          else Ok (set_kind t owner (Some (LargeOwner (sp\<lparr>lg_metadata := large_reclaim (lg_metadata sp)\<rparr>))))
      | _ \<Rightarrow> Err (TE_VacantSpan owner))"

text \<open>The loop over the owner and its continuations.\<close>

fun vacate_range :: "span_table \<Rightarrow> nat \<Rightarrow> nat \<Rightarrow> ('e, span_table) outcome" where
  "vacate_range t first 0 = Ok t"
| "vacate_range t first (Suc n) =
     and_then (index_or_panic (tb_entries t) first) (\<lambda>_.
     let i = word_of_nat first :: span_id;
         t = t\<lparr>tb_entries := (tb_entries t)[first := (tb_entries t ! first)\<lparr>en_kind := None,
               en_generation := generation_next (en_generation (tb_entries t ! first))\<rparr>]\<rparr>
     in vacate_range (insert_free_span t i) (Suc first) n)"

definition release_unpublished_large :: "span_table \<Rightarrow> raw_heap_ref \<Rightarrow> (span_table_error, large_reclaim \<times> span_table) outcome" where
  "release_unpublished_large t r =
     (let owner = raw_heap_ref_span_id r in
      and_then (case table_kind t owner of
                  Some (LargeOwner sp) \<Rightarrow>
                    if \<not> ls_allocated (lg_metadata sp)
                    then Ok (unat (ls_span_count (lg_metadata sp)), ls_object_bytes (lg_metadata sp))
                    else Err (TE_VacantSpan owner)
                | Some (LargeContinuation o' _) \<Rightarrow> Err (LargeContinuationSpan owner o')
                | _ \<Rightarrow> Err (TE_VacantSpan owner)) (\<lambda>(span_count, object_bytes).
      and_then (reserve_free_range_if_needed t owner) (\<lambda>t.
      and_then (vacate_range t (unat owner) span_count) (\<lambda>t.
      Ok (\<lparr>lr_span_count = word_of_nat span_count, lr_storage_bytes = span_count * SPAN_SIZE_BYTES,
           lr_object_bytes = object_bytes\<rparr>, t\<lparr>tb_live_spans := tb_live_spans t - span_count\<rparr>)))))"

definition reclaim_large_after_drop :: "span_table \<Rightarrow> raw_heap_ref \<Rightarrow> (span_table_error, large_reclaim \<times> span_table) outcome" where
  "reclaim_large_after_drop t r =
     (let owner = raw_heap_ref_span_id r in
      and_then (raw_heap_ref_span_offset r) (\<lambda>offset.
      if offset \<noteq> word_of_nat MINIMUM_SLOT_SIZE_BYTES then Err (LargeOwnerSpan owner)
      else and_then (case table_kind t owner of
                  Some (LargeOwner sp) \<Rightarrow> if ls_allocated (lg_metadata sp) then Ok () else Err (TE_VacantSpan owner)
                | Some (LargeContinuation o' _) \<Rightarrow> Err (LargeContinuationSpan owner o')
                | Some (Small _) \<Rightarrow> Err (LargeOwnerSpan owner)
                | None \<Rightarrow> Err (TE_VacantSpan owner)) (\<lambda>_.
      and_then (reserve_free_range_if_needed t owner) (\<lambda>t.
      and_then (unpublish_large_for_drop t r) (\<lambda>t.
      release_unpublished_large t r)))))"

datatype span_range_placement = Reused span_id | Append span_id

definition placement_owner :: "span_range_placement \<Rightarrow> span_id" where
  "placement_owner p = (case p of Reused owner \<Rightarrow> owner | Append owner \<Rightarrow> owner)"

definition reserve_span_range :: "span_table \<Rightarrow> nat \<Rightarrow> (large_allocation_error, span_range_placement \<times> span_table) outcome" where
  "reserve_span_range t span_count =
     and_then (take_free_span_range t span_count) (\<lambda>(free, t).
     case free of
       Some owner \<Rightarrow> Ok (Reused owner, t)
     | None \<Rightarrow>
         if length (tb_entries t) + span_count > MAX_LOGICAL_SPANS then Err LE_AddressSpaceExhausted
         else and_then (reserve_for_additional (tb_grants t) (length (tb_entries t)) (tb_entries_capacity t) span_count
                INITIAL_SPAN_TABLE_CAPACITY MAX_LOGICAL_SPANS LE_TableAllocationFailed) (\<lambda>capacity.
              and_then (expect (if length (tb_entries t) < 2 ^ 16 then Some (word_of_nat (length (tb_entries t))) else None)) (\<lambda>owner.
              Ok (Append owner, t\<lparr>tb_entries_capacity := capacity\<rparr>))))"

fun install_continuations :: "span_table \<Rightarrow> span_id \<Rightarrow> nat list \<Rightarrow> ('e, span_table) outcome" where
  "install_continuations t owner [] = Ok t"
| "install_continuations t owner (ordinal # ordinals) =
     and_then (index_or_panic (tb_entries t) (unat owner + ordinal)) (\<lambda>e.
     install_continuations (t\<lparr>tb_entries := (tb_entries t)[unat owner + ordinal :=
       e\<lparr>en_kind := Some (LargeContinuation owner (word_of_nat ordinal))\<rparr>]\<rparr>) owner ordinals)"

definition install_large :: "span_table \<Rightarrow> span_range_placement \<Rightarrow> span_storage \<Rightarrow> nat \<Rightarrow> nat \<Rightarrow> ('e, span_table) outcome" where
  "install_large t placement storage object_bytes span_count =
     (let owner = placement_owner placement;
          large = (\<lambda>generation. LargeOwner \<lparr>lg_storage = storage,
                    lg_metadata = large_span_new (word_of_nat span_count) object_bytes generation\<rparr>)
      in and_then (case placement of
                     Reused _ \<Rightarrow>
                       and_then (index_or_panic (tb_entries t) (unat owner)) (\<lambda>e.
                       install_continuations (set_kind t owner (Some (large (en_generation e)))) owner [1..<span_count])
                   | Append _ \<Rightarrow>
                       Ok (t\<lparr>tb_entries := tb_entries t @ fresh_entry GENERATION_INITIAL (large GENERATION_INITIAL) #
                              map (\<lambda>ordinal. fresh_entry GENERATION_INITIAL (LargeContinuation owner (word_of_nat ordinal)))
                                [1..<span_count]\<rparr>)) (\<lambda>t.
         and_then (link_remembered_source t owner) (\<lambda>t.
         Ok (t\<lparr>tb_live_spans := tb_live_spans t + span_count\<rparr>))))"

definition try_allocate_large ::
  "span_table \<Rightarrow> gc_type_id \<Rightarrow> u16 \<Rightarrow> u32 \<Rightarrow> payload_layout \<Rightarrow> payload \<Rightarrow>
   (large_allocation_error, (raw_heap_ref \<times> nat) \<times> span_table) outcome" where
  "try_allocate_large t type_id flags aux layout payload =
     and_then (map_err (\<lambda>_. LE_AddressSpaceExhausted) (for_payload_layout layout)) (\<lambda>l.
     if ol_alignment l > MINIMUM_SLOT_SIZE_BYTES then Err (LE_PayloadAlignmentTooLarge (ol_alignment l))
     else let logical_bytes = MINIMUM_SLOT_SIZE_BYTES + ol_allocation_size l;
              span_count = div_ceil logical_bytes SPAN_SIZE_BYTES
          in if logical_bytes \<ge> 2 ^ 64 \<or> span_count = 0 \<or> span_count > MAX_LOGICAL_SPANS then Err LE_AddressSpaceExhausted
             else and_then (ok_or LE_StorageAllocationFailed (storage_new (tb_grants t) span_count)) (\<lambda>storage.
                  and_then (reserve_span_range t span_count) (\<lambda>(placement, t).
                  and_then (expect (span_offset_new (word_of_nat MINIMUM_SLOT_SIZE_BYTES))) (\<lambda>offset.
                  and_then (case storage_initialize storage offset (gc_header_new type_id flags aux) layout payload of
                              Ok s \<Rightarrow> Ok s | _ \<Rightarrow> Panic) (\<lambda>storage.
                  and_then (install_large t placement storage (ol_allocation_size l) span_count) (\<lambda>t.
                  and_then (raw_heap_ref_from_parts (placement_owner placement) offset) (\<lambda>r.
                  Ok ((r, span_count * SPAN_SIZE_BYTES), t))))))))"


subsection \<open>Views of the major collector\<close>

datatype sweep_target_kind = SweepSmall | SweepLargeOwner

record small_sweep_snapshot =
  sn_size_class :: size_class
  sn_space :: span_space
  sn_bump_cursor :: u16
  sn_allocated_slots :: u16
  sn_allocated_bytes :: u32

definition live_object_span_counts :: "span_table \<Rightarrow> nat \<times> nat" where
  "live_object_span_counts t =
     fold (\<lambda>e (young, old).
         case en_kind e of
           Some (Small sp) \<Rightarrow>
             if ss_allocated_slots (sm_metadata sp) \<noteq> 0
             then (if is_young_space (ss_space (sm_metadata sp)) then (young + 1, old) else (young, old + 1))
             else (young, old)
         | Some (LargeOwner sp) \<Rightarrow>
             if ls_allocated (lg_metadata sp) then (young, old + unat (ls_span_count (lg_metadata sp))) else (young, old)
         | _ \<Rightarrow> (young, old))
       (tb_entries t) (0, 0)"

definition sweep_target :: "span_table \<Rightarrow> span_id \<Rightarrow> sweep_target_kind option" where
  "sweep_target t i =
     (case table_kind t i of
        Some (Small _) \<Rightarrow> Some SweepSmall
      | Some (LargeOwner _) \<Rightarrow> Some SweepLargeOwner
      | _ \<Rightarrow> None)"

definition take_small_sweep_snapshot :: "span_table \<Rightarrow> span_id \<Rightarrow> small_sweep_snapshot option" where
  "take_small_sweep_snapshot t i =
     map_option (\<lambda>m. \<lparr>sn_size_class = ss_size_class m, sn_space = ss_space m, sn_bump_cursor = ss_bump_cursor m,
       sn_allocated_slots = ss_allocated_slots m, sn_allocated_bytes = ss_allocated_bytes m\<rparr>) (table_metadata t i)"

definition next_allocated_reference :: "span_table \<Rightarrow> span_id \<Rightarrow> u16 \<Rightarrow> ('e, raw_heap_ref option) outcome" where
  "next_allocated_reference t i start =
     (case table_metadata t i of
        None \<Rightarrow> Ok None
      | Some m \<Rightarrow>
          and_then (bitmap_next_set (ss_allocations m) start) (\<lambda>slot.
          case slot of
            None \<Rightarrow> Ok None
          | Some slot \<Rightarrow>
              and_then (expect (offset_for_slot (ss_size_class m) slot)) (\<lambda>offset.
              and_then (raw_heap_ref_from_parts i offset) (\<lambda>r. Ok (Some r)))))"

definition prepare_release :: "span_table \<Rightarrow> span_id \<Rightarrow> (span_table_error, span_table) outcome" where
  "prepare_release t i = reserve_free_range_if_needed t i"

text \<open>The loop of \<open>rebuild_old_free_list\<close> over the slots below the bump cursor.\<close>

fun rebuild_free_list_loop :: "small_span \<Rightarrow> nat list \<Rightarrow> ('e, small_span) outcome" where
  "rebuild_free_list_loop sp [] = Ok sp"
| "rebuild_free_list_loop sp (index # indexes) =
     and_then (expect (slot_index_new (word_of_nat index))) (\<lambda>slot.
     and_then (bitmap_contains (ss_allocations (sm_metadata sp)) (unat slot)) (\<lambda>allocated.
     if allocated then rebuild_free_list_loop sp indexes
     else and_then (expect (offset_for_slot (ss_size_class (sm_metadata sp)) slot)) (\<lambda>offset.
          rebuild_free_list_loop
            (sp\<lparr>sm_storage := write_free_next (sm_storage sp) offset (ss_free_list_head (sm_metadata sp)),
                sm_metadata := set_free_list_head (sm_metadata sp) (Some slot)\<rparr>) indexes)))"

definition rebuild_old_free_list :: "span_table \<Rightarrow> span_id \<Rightarrow> ('e, span_table) outcome" where
  "rebuild_old_free_list t i =
     (case table_kind t i of
        Some (Small sp) \<Rightarrow>
          if ss_space (sm_metadata sp) \<noteq> Old then Ok t
          else and_then (rebuild_free_list_loop (sp\<lparr>sm_metadata := set_free_list_head (sm_metadata sp) None\<rparr>)
                 [0..<unat (ss_bump_cursor (sm_metadata sp))]) (\<lambda>sp. Ok (set_kind t i (Some (Small sp))))
      | _ \<Rightarrow> Ok t)"

section \<open>The heap as a map of objects\<close>

text \<open>
  The abstraction of a table: the object stored at each live reference, and the references marked in an
  epoch.
\<close>

definition span_object :: "span_kind \<Rightarrow> span_offset \<Rightarrow> (gc_header \<times> payload) option" where
  "span_object kind off =
     (case kind of
        Small sp \<Rightarrow>
          (case slot_for_offset (ss_size_class (sm_metadata sp)) off of
             Some s \<Rightarrow> if s \<in> slots_of (ss_allocations (sm_metadata sp)) then Some (st_blocks (sm_storage sp) off) else None
           | None \<Rightarrow> None)
      | LargeOwner sp \<Rightarrow> if off = 16 \<and> ls_allocated (lg_metadata sp) then Some (st_blocks (lg_storage sp) off) else None
      | LargeContinuation _ _ \<Rightarrow> None)"

definition span_marked :: "span_kind \<Rightarrow> collection_epoch \<Rightarrow> span_offset \<Rightarrow> bool" where
  "span_marked kind e off =
     (case kind of
        Small sp \<Rightarrow>
          (case slot_for_offset (ss_size_class (sm_metadata sp)) off of
             Some s \<Rightarrow> s \<in> marked_slots e (ss_marks (sm_metadata sp)) | None \<Rightarrow> False)
      | LargeOwner sp \<Rightarrow> off = 16 \<and> ls_mark_epoch (lg_metadata sp) = Some e
      | LargeContinuation _ _ \<Rightarrow> False)"

definition heap_objects :: "span_table \<Rightarrow> raw_heap_ref \<Rightarrow> (gc_header \<times> payload) option" where
  "heap_objects t r =
     (case table_kind t (raw_heap_ref_span_id r) of Some kind \<Rightarrow> span_object kind (ucast r) | None \<Rightarrow> None)"

definition heap_marked :: "span_table \<Rightarrow> collection_epoch \<Rightarrow> raw_heap_ref set" where
  "heap_marked t e =
     {r. heap_objects t r \<noteq> None \<and>
         (case table_kind t (raw_heap_ref_span_id r) of Some kind \<Rightarrow> span_marked kind e (ucast r) | None \<Rightarrow> False)}"

definition span_inv :: "span_kind \<Rightarrow> bool" where
  "span_inv kind \<longleftrightarrow>
     (case kind of
        Small sp \<Rightarrow> small_span_inv (sm_metadata sp) \<and> st_len (sm_storage sp) = 65536 \<and>
          (\<forall>off h p. span_object kind off = Some (h, p) \<longrightarrow> gh_type_id h \<noteq> 0)
      | LargeOwner sp \<Rightarrow> 65536 \<le> st_len (lg_storage sp) \<and> (ls_allocated (lg_metadata sp) \<longrightarrow> gh_type_id (fst (st_blocks (lg_storage sp) 16)) \<noteq> 0)
      | LargeContinuation _ _ \<Rightarrow> True)"

text \<open>An owner is followed by its continuations, within the table.\<close>

definition large_ranges_inv :: "span_table \<Rightarrow> bool" where
  "large_ranges_inv t \<longleftrightarrow>
     (\<forall>i sp. table_kind t i = Some (LargeOwner sp) \<longrightarrow>
        0 < unat (ls_span_count (lg_metadata sp)) \<and>
        unat i + unat (ls_span_count (lg_metadata sp)) \<le> length (tb_entries t) \<and>
        (\<forall>n. 0 < n \<and> n < unat (ls_span_count (lg_metadata sp)) \<longrightarrow>
           (\<exists>ordinal. en_kind (tb_entries t ! (unat i + n)) = Some (LargeContinuation i ordinal))))"

definition table_inv :: "span_table \<Rightarrow> bool" where
  "table_inv t \<longleftrightarrow>
     length (tb_entries t) \<le> 65536 \<and> (\<forall>i kind. table_kind t i = Some kind \<longrightarrow> span_inv kind) \<and> large_ranges_inv t"


subsection \<open>References and entries\<close>

abbreviation valid_ref :: "raw_heap_ref \<Rightarrow> bool" where
  "valid_ref r \<equiv> raw_heap_ref_new r = Some r"

lemma valid_ref_iff: "valid_ref r \<longleftrightarrow> (ucast r :: u16) \<noteq> 0"
  by (auto simp: raw_heap_ref_new_def)

lemma valid_ref_offset: "valid_ref r \<Longrightarrow> raw_heap_ref_span_offset r = Ok (ucast r)"
  by (auto simp: valid_ref_iff raw_heap_ref_span_offset_def span_offset_new_def)

lemma ref_eqI:
  assumes "raw_heap_ref_span_id r = raw_heap_ref_span_id r'" and "(ucast r :: u16) = ucast r'"
  shows "r = r'"
proof (rule bit_word_eqI)
  fix n assume n: "n < LENGTH(32)"
  show "bit r n \<longleftrightarrow> bit r' n"
  proof (cases "n < 16")
    case True
    with arg_cong [OF assms(2), of "\<lambda>w. bit w n"] show ?thesis by (simp add: bit_simps)
  next
    case False
    moreover have "n - 16 < 16" using n by simp
    ultimately show ?thesis using arg_cong [OF assms(1), of "\<lambda>w. bit w (n - 16)"]
      by (simp add: raw_heap_ref_span_id_def bit_simps)
  qed
qed

lemma ref_from_parts:
  assumes "off \<noteq> 0"
  shows "raw_heap_ref_from_parts i off = Ok (push_bit 16 (ucast i) OR ucast off)"
    and "raw_heap_ref_span_id (push_bit 16 (ucast i) OR ucast off) = i"
    and "(ucast (push_bit 16 (ucast i) OR ucast off :: u32) :: u16) = off"
    and "valid_ref (push_bit 16 (ucast i) OR ucast off)"
proof -
  let ?r = "push_bit 16 (ucast i) OR ucast off :: u32"
  show off: "(ucast ?r :: u16) = off" by (rule bit_word_eqI) (auto simp: bit_simps)
  show "raw_heap_ref_span_id ?r = i"
    by (rule bit_word_eqI) (auto simp: raw_heap_ref_span_id_def bit_simps dest: bit_imp_le_length)
  show "valid_ref ?r" using off assms by (simp only: valid_ref_iff) simp
  have "?r \<noteq> 0" using off assms by (metis unsigned_0)
  then show "raw_heap_ref_from_parts i off = Ok ?r" by (simp add: raw_heap_ref_from_parts_def Let_def)
qed

text \<open>The reference of an id and an offset.\<close>

definition mk_ref :: "span_id \<Rightarrow> span_offset \<Rightarrow> raw_heap_ref" where
  "mk_ref i off = push_bit 16 (ucast i) OR ucast off"

lemma mk_ref_parts:
  assumes "off \<noteq> 0"
  shows "raw_heap_ref_from_parts i off = Ok (mk_ref i off)" "raw_heap_ref_span_id (mk_ref i off) = i"
    "(ucast (mk_ref i off) :: u16) = off" "valid_ref (mk_ref i off)"
  unfolding mk_ref_def using ref_from_parts [OF assms] by blast+

lemma mk_ref_eq: "raw_heap_ref_span_id r = i \<Longrightarrow> ucast r = off \<Longrightarrow> off \<noteq> 0 \<Longrightarrow> mk_ref i off = r"
  by (rule ref_eqI) (simp_all add: mk_ref_parts)

lemma table_kind_some_less: "table_kind t i = Some kind \<Longrightarrow> unat i < length (tb_entries t)"
  by (auto simp: table_kind_def table_entry_def get_def split: if_splits)

lemma table_kind_nth: "unat i < length (tb_entries t) \<Longrightarrow> table_kind t i = en_kind (tb_entries t ! unat i)"
  by (simp add: table_kind_def table_entry_def get_def)

lemma table_kind_set_kind:
  "unat i < length (tb_entries t) \<Longrightarrow> table_kind (set_kind t i kind) j = (if i = j then kind else table_kind t j)"
  by (auto simp: table_kind_def table_entry_def set_kind_def update_entry_def get_def word_unat_eq_iff)

lemma length_set_kind [simp]: "length (tb_entries (set_kind t i kind)) = length (tb_entries t)"
  by (simp add: set_kind_def update_entry_def)

text \<open>Replacing the kind of one span changes the heap only there.\<close>

lemma heap_objects_set_kind:
  assumes "unat i < length (tb_entries t)"
  shows "heap_objects (set_kind t i (Some kind)) r =
    (if raw_heap_ref_span_id r = i then span_object kind (ucast r) else heap_objects t r)"
  by (simp add: heap_objects_def table_kind_set_kind [OF assms])

lemma heap_objects_same_kind:
  assumes "table_kind t i = Some kind" and "\<And>off. span_object kind' off = span_object kind off"
  shows "heap_objects (set_kind t i (Some kind')) = heap_objects t"
  using assms(1) table_kind_some_less [OF assms(1)] by (intro ext) (auto simp: heap_objects_def table_kind_set_kind assms(2))

lemma heap_marked_set_kind:
  assumes "unat i < length (tb_entries t)"
  shows "r \<in> heap_marked (set_kind t i (Some kind)) e \<longleftrightarrow>
    (if raw_heap_ref_span_id r = i then span_object kind (ucast r) \<noteq> None \<and> span_marked kind e (ucast r) else r \<in> heap_marked t e)"
  by (simp add: heap_objects_def heap_marked_def table_kind_set_kind [OF assms])

lemma table_inv_set_kind:
  assumes "table_inv t" and "table_kind t i = Some kind" and "span_inv kind'"
    and "\<And>sp'. kind' = LargeOwner sp' \<Longrightarrow> \<exists>sp. kind = LargeOwner sp \<and> ls_span_count (lg_metadata sp') = ls_span_count (lg_metadata sp)"
    and "\<And>owner ordinal. kind = LargeContinuation owner ordinal \<Longrightarrow> kind' = kind"
  shows "table_inv (set_kind t i (Some kind'))"
proof -
  have less: "unat i < length (tb_entries t)" using assms(2) by (rule table_kind_some_less)
  have "large_ranges_inv (set_kind t i (Some kind'))"
    unfolding large_ranges_inv_def
  proof (intro allI impI)
    fix j sp' assume j: "table_kind (set_kind t i (Some kind')) j = Some (LargeOwner sp')"
    obtain sp where sp: "table_kind t j = Some (LargeOwner sp)" "ls_span_count (lg_metadata sp') = ls_span_count (lg_metadata sp)"
      using j assms(2,4) by (auto simp: table_kind_set_kind [OF less] split: if_splits)
    let ?n = "unat (ls_span_count (lg_metadata sp))"
    have large: "0 < ?n" "unat j + ?n \<le> length (tb_entries t)"
      "\<And>n. 0 < n \<Longrightarrow> n < ?n \<Longrightarrow> \<exists>ordinal. en_kind (tb_entries t ! (unat j + n)) = Some (LargeContinuation j ordinal)"
      using assms(1) sp(1) by (auto simp: table_inv_def large_ranges_inv_def)
    have "\<exists>ordinal. en_kind (tb_entries (set_kind t i (Some kind')) ! (unat j + n)) = Some (LargeContinuation j ordinal)"
      if n: "0 < n" "n < ?n" for n
    proof (cases "unat j + n = unat i")
      case True
      then obtain ordinal where "kind = LargeContinuation j ordinal"
        using large(3) [OF n] assms(2) by (auto simp: table_kind_nth [OF less])
      then show ?thesis using assms(5) True less by (auto simp: set_kind_def update_entry_def)
    next
      case False
      then show ?thesis using large(3) [OF n] by (simp add: set_kind_def update_entry_def)
    qed
    then show "0 < unat (ls_span_count (lg_metadata sp')) \<and>
        unat j + unat (ls_span_count (lg_metadata sp')) \<le> length (tb_entries (set_kind t i (Some kind'))) \<and>
        (\<forall>n. 0 < n \<and> n < unat (ls_span_count (lg_metadata sp')) \<longrightarrow>
           (\<exists>ordinal. en_kind (tb_entries (set_kind t i (Some kind')) ! (unat j + n)) = Some (LargeContinuation j ordinal)))"
      using large(1,2) sp(2) by simp
  qed
  then show ?thesis
    using assms(1,3) by (auto simp: table_inv_def table_kind_set_kind [OF less] split: if_splits)
qed


subsection \<open>The exact checks read the abstract heap\<close>

lemma span_offset_nonzero: "slot_for_offset c 0 = None"
  by (simp add: slot_for_offset_def layout_values)

lemma heap_objects_valid_ref: "heap_objects t r = Some obj \<Longrightarrow> valid_ref r"
  by (rule ccontr)
    (auto simp: heap_objects_def span_object_def valid_ref_iff span_offset_nonzero split: option.splits span_kind.splits if_splits)

lemma storage_header_eq:
  "65536 \<le> st_len s \<Longrightarrow> unat off mod 16 = 0 \<Longrightarrow> storage_header s off = Ok (fst (st_blocks s off))"
  using unat_u16_less [of off] by (auto simp: storage_header_def layout_values GC_HEADER_SIZE_BYTES_def)

lemma slot_offset_aligned:
  assumes "small_span_inv m" and "slot_for_offset (ss_size_class m) off = Some s"
  shows "unat off mod 16 = 0" "s < slot_count (ss_size_class m)" "valid_slot s" "off \<noteq> 0"
proof -
  have c: "valid_class (ss_size_class m)" using assms(1) by (rule small_span_invD)
  have off: "offset_for_slot (ss_size_class m) s = Some off" using assms(2) slot_for_offset_iff [OF c] by blast
  note u = unat_offset_for_slot [OF c off]
  have "16 dvd unat (ss_size_class m)" using c by (auto simp: size_class_new_iff dvd_eq_mod_eq_0)
  then show "unat off mod 16 = 0" using u(1) by (simp add: mod_eq_0_iff_dvd)
  show "s < slot_count (ss_size_class m)" by (rule u(2))
  then show "valid_slot s" by (rule bump_valid_slot [OF assms(1)])
  show "off \<noteq> 0" using u(1) by auto
qed

lemma verify_small_span_iff:
  assumes inv: "span_inv (Small sp)" and r: "valid_ref r"
  shows "verify_small_span sp r =
    (case slot_for_offset (ss_size_class (sm_metadata sp)) (ucast r) of
       None \<Rightarrow> Err (InvalidSlotBoundary r)
     | Some s \<Rightarrow> (case span_object (Small sp) (ucast r) of Some (h, p) \<Rightarrow> Ok h | None \<Rightarrow> Err (UnallocatedSlot r)))"
proof (cases "slot_for_offset (ss_size_class (sm_metadata sp)) (ucast r)")
  case None
  then show ?thesis by (simp add: verify_small_span_def valid_ref_offset [OF r])
next
  case (Some s)
  have m: "small_span_inv (sm_metadata sp)" and len: "st_len (sm_storage sp) = 65536" using inv by (auto simp: span_inv_def)
  note slot = slot_offset_aligned [OF m Some]
  show ?thesis using Some slot(3)
    by (simp add: verify_small_span_def valid_ref_offset [OF r] slot_bitmap_ops small_span_invD(2) [OF m]
        storage_header_eq len slot(1) span_object_def split_def)
qed

lemma verify_large_span_iff:
  assumes "span_inv (LargeOwner sp)" and r: "valid_ref r"
  shows "verify_large_span sp r =
    (if (ucast r :: u16) \<noteq> 16 then Err (LargeOwnerOffset r)
     else case span_object (LargeOwner sp) (ucast r) of Some (h, p) \<Rightarrow> Ok h | None \<Rightarrow> Err (UnallocatedSlot r))"
  using assms(1)
  by (auto simp: verify_large_span_def valid_ref_offset [OF r] span_object_def layout_values span_inv_def storage_header_eq split_def)

lemma verify_reference_live:
  assumes inv: "table_inv t" and obj: "heap_objects t r = Some (h, p)"
  shows "verify_reference t r expected =
    (case expected of None \<Rightarrow> Ok h | Some e \<Rightarrow> if gh_type_id h \<noteq> e then Err (TypeMismatch e (gh_type_id h)) else Ok h)"
    and "gh_type_id h \<noteq> 0"
proof -
  have r: "valid_ref r" using obj by (rule heap_objects_valid_ref)
  obtain kind where kind: "table_kind t (raw_heap_ref_span_id r) = Some kind" "span_object kind (ucast r) = Some (h, p)"
    using obj by (auto simp: heap_objects_def split: option.splits)
  obtain entry where entry: "table_entry t (raw_heap_ref_span_id r) = Some entry" "en_kind entry = Some kind"
    using kind(1) by (auto simp: table_kind_def split: option.splits)
  have k: "span_inv kind" using inv kind(1) by (auto simp: table_inv_def)
  have h: "(case kind of Small sp \<Rightarrow> verify_small_span sp r | LargeOwner sp \<Rightarrow> verify_large_span sp r
      | LargeContinuation owner ordinal \<Rightarrow> Err (LargeContinuationReference r owner ordinal)) = Ok h \<and> gh_type_id h \<noteq> 0"
  proof (cases kind)
    case (Small sp)
    then show ?thesis using kind(2) k r by (auto simp: verify_small_span_iff span_inv_def span_object_def split: option.splits if_splits)
  next
    case (LargeOwner sp)
    then show ?thesis using kind(2) k r by (auto simp: verify_large_span_iff span_inv_def span_object_def split: if_splits)
  next
    case (LargeContinuation owner ordinal)
    then show ?thesis using kind(2) by (simp add: span_object_def)
  qed
  then show "gh_type_id h \<noteq> 0" by blast
  then show "verify_reference t r expected =
    (case expected of None \<Rightarrow> Ok h | Some e \<Rightarrow> if gh_type_id h \<noteq> e then Err (TypeMismatch e (gh_type_id h)) else Ok h)"
    using h entry by (auto simp: verify_reference_def Let_def header_type_id_def gc_type_id_new_def split: option.splits)
qed

lemma verify_reference_dead:
  assumes inv: "table_inv t" and obj: "heap_objects t r = None" and r: "valid_ref r"
  shows "\<exists>e. verify_reference t r expected = Err e"
proof (cases "table_entry t (raw_heap_ref_span_id r)")
  case None
  then show ?thesis by (simp add: verify_reference_def)
next
  case (Some entry)
  show ?thesis
  proof (cases "en_kind entry")
    case None
    then show ?thesis using Some by (simp add: verify_reference_def)
  next
    case kind: (Some kind)
    then have k: "table_kind t (raw_heap_ref_span_id r) = Some kind" using Some by (simp add: table_kind_def)
    then have "span_inv kind" "span_object kind (ucast r) = None" using inv obj by (auto simp: table_inv_def heap_objects_def)
    then have "\<exists>e. (case kind of Small sp \<Rightarrow> verify_small_span sp r | LargeOwner sp \<Rightarrow> verify_large_span sp r
      | LargeContinuation owner ordinal \<Rightarrow> Err (LargeContinuationReference r owner ordinal)) = Err e"
      using r by (cases kind) (auto simp: verify_small_span_iff verify_large_span_iff split: option.splits)
    then show ?thesis using Some kind by (auto simp: verify_reference_def)
  qed
qed


subsection \<open>Marks and payloads\<close>

lemma live_kind_cases:
  assumes inv: "table_inv t" and obj: "heap_objects t r = Some (h, p)"
  obtains (small) sp s where "table_kind t (raw_heap_ref_span_id r) = Some (Small sp)" "span_inv (Small sp)"
      "small_slot sp r = Ok s" "slot_for_offset (ss_size_class (sm_metadata sp)) (ucast r) = Some s"
      "valid_slot s" "s \<in> slots_of (ss_allocations (sm_metadata sp))" "st_blocks (sm_storage sp) (ucast r) = (h, p)"
  | (large) sp where "table_kind t (raw_heap_ref_span_id r) = Some (LargeOwner sp)" "span_inv (LargeOwner sp)"
      "(ucast r :: u16) = 16" "ls_allocated (lg_metadata sp)" "st_blocks (lg_storage sp) (ucast r) = (h, p)"
proof -
  have r: "valid_ref r" using obj by (rule heap_objects_valid_ref)
  obtain kind where kind: "table_kind t (raw_heap_ref_span_id r) = Some kind" "span_object kind (ucast r) = Some (h, p)"
    using obj by (auto simp: heap_objects_def split: option.splits)
  have k: "span_inv kind" using inv kind(1) by (auto simp: table_inv_def)
  show thesis
  proof (cases kind)
    case (Small sp)
    then obtain s where s: "slot_for_offset (ss_size_class (sm_metadata sp)) (ucast r) = Some s"
      "s \<in> slots_of (ss_allocations (sm_metadata sp))" "st_blocks (sm_storage sp) (ucast r) = (h, p)"
      using kind(2) by (auto simp: span_object_def split: option.splits if_splits)
    moreover have "valid_slot s" using slot_offset_aligned(3) s(1) k Small by (auto simp: span_inv_def)
    ultimately show ?thesis using small [of sp s] kind(1) k Small by (simp add: small_slot_def valid_ref_offset [OF r])
  next
    case (LargeOwner sp)
    then show ?thesis using large [of sp] kind k by (auto simp: span_object_def split: if_splits)
  next
    case (LargeContinuation owner ordinal)
    then show ?thesis using kind(2) by (simp add: span_object_def)
  qed
qed

lemma reference_marked_live:
  assumes inv: "table_inv t" and obj: "heap_objects t r = Some (h, p)"
  shows "reference_marked t r e = Ok (r \<in> heap_marked t e)"
  using inv obj
proof (cases rule: live_kind_cases)
  case (small sp s)
  then have "small_span_inv (sm_metadata sp)" by (simp add: span_inv_def)
  then show ?thesis using small obj
    by (simp add: reference_marked_def verify_reference_live [OF inv obj] mark_bitmap_ops small_span_invD heap_marked_def span_marked_def)
next
  case (large sp)
  then show ?thesis using obj
    by (simp add: reference_marked_def verify_reference_live [OF inv obj] large_is_marked_def heap_marked_def span_marked_def)
qed

lemma reference_marked_dead:
  assumes "table_inv t" and "heap_objects t r = None" and "valid_ref r"
  shows "\<exists>e'. reference_marked t r e = Err e'"
  using verify_reference_dead [OF assms, of None] by (auto simp: reference_marked_def)

text \<open>The table after marking a live reference.\<close>

definition with_heap_mark :: "span_table \<Rightarrow> raw_heap_ref \<Rightarrow> collection_epoch \<Rightarrow> span_table" where
  "with_heap_mark t r e =
     (let i = raw_heap_ref_span_id r in
      case table_kind t i of
        Some (Small sp) \<Rightarrow>
          (case slot_for_offset (ss_size_class (sm_metadata sp)) (ucast r) of
             Some s \<Rightarrow> set_kind t i (Some (Small (sp\<lparr>sm_metadata := (sm_metadata sp)\<lparr>ss_marks := with_mark (ss_marks (sm_metadata sp)) s e\<rparr>\<rparr>)))
           | None \<Rightarrow> t)
      | Some (LargeOwner sp) \<Rightarrow> set_kind t i (Some (LargeOwner (sp\<lparr>lg_metadata := (lg_metadata sp)\<lparr>ls_mark_epoch := Some e\<rparr>\<rparr>)))
      | _ \<Rightarrow> t)"

lemma small_slot_unique:
  assumes "small_span_inv m" and "slot_for_offset (ss_size_class m) off = Some s" and "slot_for_offset (ss_size_class m) off' = Some s"
  shows "off = off'"
  using assms slot_for_offset_iff [OF small_span_invD(1) [OF assms(1)]] by (metis option.inject)

lemma mark_reference_live:
  assumes inv: "table_inv t" and obj: "heap_objects t r = Some (h, p)"
  shows "mark_reference t r e = Ok (r \<notin> heap_marked t e, with_heap_mark t r e)"
    and "table_inv (with_heap_mark t r e)" "heap_objects (with_heap_mark t r e) = heap_objects t"
    and "heap_marked (with_heap_mark t r e) e = insert r (heap_marked t e)"
    and "tb_grants (with_heap_mark t r e) = tb_grants t"
proof -
  let ?t = "with_heap_mark t r e" and ?i = "raw_heap_ref_span_id r"
  have "mark_reference t r e = Ok (r \<notin> heap_marked t e, ?t) \<and> table_inv ?t \<and> heap_objects ?t = heap_objects t \<and>
    heap_marked ?t e = insert r (heap_marked t e) \<and> tb_grants ?t = tb_grants t"
    using inv obj
  proof (cases rule: live_kind_cases)
    case (small sp s)
    let ?sp = "sp\<lparr>sm_metadata := (sm_metadata sp)\<lparr>ss_marks := with_mark (ss_marks (sm_metadata sp)) s e\<rparr>\<rparr>"
    have m: "small_span_inv (sm_metadata sp)" using small(2) by (simp add: span_inv_def)
    note ops = mark_bitmap_ops [OF small_span_invD(3) [OF m] small(5)]
    have t: "?t = set_kind t ?i (Some (Small ?sp))" using small(1,4) by (simp add: with_heap_mark_def)
    have less: "unat ?i < length (tb_entries t)" using small(1) by (rule table_kind_some_less)
    have same: "span_object (Small ?sp) off = span_object (Small sp) off" for off
      by (auto simp: span_object_def split: option.splits)
    have objs: "heap_objects ?t = heap_objects t"
      unfolding t using small(1) same by (rule heap_objects_same_kind)
    have "span_inv (Small ?sp)"
      using small(2) ops(3) unfolding span_inv_def same by (simp add: small_span_inv_def same)
    then have "table_inv ?t" unfolding t by (rule table_inv_set_kind [OF inv small(1)]) simp_all
    moreover have "mark_reference t r e = Ok (r \<notin> heap_marked t e, ?t)"
      using small obj by (simp add: mark_reference_def verify_reference_live [OF inv obj] ops t heap_marked_def span_marked_def)
    moreover have "r' \<in> heap_marked ?t e \<longleftrightarrow> r' = r \<or> r' \<in> heap_marked t e" for r'
    proof (cases "raw_heap_ref_span_id r' = ?i")
      case True
      have "r' = r" if "slot_for_offset (ss_size_class (sm_metadata sp)) (ucast r') = Some s"
        using ref_eqI [OF True] small_slot_unique [OF m that small(4)] by blast
      then show ?thesis using True small obj objs
        by (auto simp: heap_marked_def t table_kind_set_kind [OF less] span_marked_def ops(4) split: option.splits)
    next
      case False
      then show ?thesis by (auto simp: t heap_marked_set_kind [OF less])
    qed
    ultimately show ?thesis using objs by (auto simp: t set_kind_def update_entry_def)
  next
    case (large sp)
    let ?sp = "sp\<lparr>lg_metadata := (lg_metadata sp)\<lparr>ls_mark_epoch := Some e\<rparr>\<rparr>"
    have t: "?t = set_kind t ?i (Some (LargeOwner ?sp))" using large(1) by (simp add: with_heap_mark_def)
    have less: "unat ?i < length (tb_entries t)" using large(1) by (rule table_kind_some_less)
    have objs: "heap_objects ?t = heap_objects t"
      unfolding t using large(1) by (rule heap_objects_same_kind) (simp add: span_object_def)
    have "span_inv (LargeOwner ?sp)" using large(2) by (simp add: span_inv_def)
    then have "table_inv ?t" unfolding t by (rule table_inv_set_kind [OF inv large(1)]) simp_all
    moreover have "mark_reference t r e = Ok (r \<notin> heap_marked t e, ?t)"
    proof (cases "ls_mark_epoch (lg_metadata sp) = Some e")
      case True
      then have "?sp = sp" by (cases sp, cases "lg_metadata sp") auto
      then have "?t = set_kind t ?i (Some (LargeOwner sp))" using t by simp
      then show ?thesis using True large obj
        by (simp add: mark_reference_def verify_reference_live [OF inv obj] large_mark_def heap_marked_def span_marked_def)
    next
      case False
      then show ?thesis using large obj t
        by (simp add: mark_reference_def verify_reference_live [OF inv obj] large_mark_def heap_marked_def span_marked_def)
    qed
    moreover have "r' \<in> heap_marked ?t e \<longleftrightarrow> r' = r \<or> r' \<in> heap_marked t e" for r'
    proof (cases "raw_heap_ref_span_id r' = ?i")
      case True
      have "r' = r" if "(ucast r' :: u16) = 16" using ref_eqI [OF True] that large(3) by simp
      then show ?thesis using True large obj objs
        by (auto simp: heap_marked_def t table_kind_set_kind [OF less] span_marked_def)
    next
      case False
      then show ?thesis by (auto simp: t heap_marked_set_kind [OF less])
    qed
    ultimately show ?thesis using objs by (auto simp: t set_kind_def update_entry_def)
  qed
  then show "mark_reference t r e = Ok (r \<notin> heap_marked t e, ?t)" "table_inv ?t" "heap_objects ?t = heap_objects t"
    "heap_marked ?t e = insert r (heap_marked t e)" "tb_grants ?t = tb_grants t" by blast+
qed


lemma payload_address_live:
  assumes inv: "table_inv t" and obj: "heap_objects t r = Some (h, p)"
  shows "payload_address t r d \<noteq> Panic" "payload_address t r d = Ok p' \<Longrightarrow> p' = p \<and> td_type_id d = gh_type_id h"
proof -
  have r: "valid_ref r" using obj by (rule heap_objects_valid_ref)
  have place: "checked_placement s off l \<noteq> Panic" for s off l
    by (auto simp: checked_placement_def for_payload_layout_def Let_def outcome_simps split: if_splits)
  from inv obj have "payload_address t r d \<noteq> Panic \<and> (payload_address t r d = Ok p' \<longrightarrow> p' = p \<and> td_type_id d = gh_type_id h)"
    by (cases rule: live_kind_cases)
      (auto simp: payload_address_def verify_reference_live [OF inv obj] valid_ref_offset [OF r] outcome_simps place split: if_splits)
  then show "payload_address t r d \<noteq> Panic" "payload_address t r d = Ok p' \<Longrightarrow> p' = p \<and> td_type_id d = gh_type_id h" by blast+
qed

lemma write_payload_live:
  assumes inv: "table_inv t" and obj: "heap_objects t r = Some (h, p)"
  shows "table_inv (write_payload t r p')" "heap_objects (write_payload t r p') = (heap_objects t)(r \<mapsto> (h, p'))"
    "heap_marked (write_payload t r p') e = heap_marked t e" "tb_grants (write_payload t r p') = tb_grants t"
proof -
  let ?t = "write_payload t r p'" and ?i = "raw_heap_ref_span_id r" and ?off = "ucast r :: u16"
  have step: "table_inv ?t \<and> heap_objects ?t = (heap_objects t)(r \<mapsto> (h, p')) \<and> heap_marked ?t e = heap_marked t e \<and> tb_grants ?t = tb_grants t"
    if kind: "table_kind t ?i = Some kind" "?t = set_kind t ?i (Some kind')" "table_inv ?t"
      and o: "\<And>off. span_object kind' off = (if off = ?off then Some (h, p') else span_object kind off)"
      and m: "\<And>e off. span_marked kind' e off = span_marked kind e off" for kind kind'
  proof -
    have less: "unat ?i < length (tb_entries t)" using kind(1) by (rule table_kind_some_less)
    have objs: "heap_objects ?t = (heap_objects t)(r \<mapsto> (h, p'))"
    proof (rule ext)
      fix r' show "heap_objects ?t r' = ((heap_objects t)(r \<mapsto> (h, p'))) r'"
      proof (cases "raw_heap_ref_span_id r' = ?i")
        case True
        then have "r' = r \<longleftrightarrow> (ucast r' :: u16) = ?off" using ref_eqI by blast
        then show ?thesis using True kind(1) by (simp add: kind(2) heap_objects_set_kind [OF less] o) (simp add: heap_objects_def)
      next
        case False
        then show ?thesis by (auto simp: kind(2) heap_objects_set_kind [OF less])
      qed
    qed
    have "r' \<in> heap_marked ?t e \<longleftrightarrow> r' \<in> heap_marked t e" for r'
      using objs obj kind(1) by (auto simp: heap_marked_def kind(2) table_kind_set_kind [OF less] m)
    then show ?thesis using kind(3) objs by (auto simp: kind(2) set_kind_def update_entry_def)
  qed
  have "table_inv ?t \<and> heap_objects ?t = (heap_objects t)(r \<mapsto> (h, p')) \<and> heap_marked ?t e = heap_marked t e \<and> tb_grants ?t = tb_grants t"
    using inv obj
  proof (cases rule: live_kind_cases)
    case (small sp s)
    let ?s = "(sm_storage sp)\<lparr>st_blocks := (st_blocks (sm_storage sp))(?off := (fst (st_blocks (sm_storage sp) ?off), p'))\<rparr>"
    let ?sp = "sp\<lparr>sm_storage := ?s\<rparr>"
    have t: "?t = set_kind t ?i (Some (Small ?sp))" using small(1) by (simp add: write_payload_def Let_def)
    have o: "span_object (Small ?sp) off = (if off = ?off then Some (h, p') else span_object (Small sp) off)" for off
      using small by (auto simp: span_object_def split: option.splits)
    have "span_inv (Small ?sp)"
      using small(2) verify_reference_live(2) [OF inv obj] unfolding span_inv_def by (auto simp: o)
    then have "table_inv ?t" unfolding t by (rule table_inv_set_kind [OF inv small(1)]) simp_all
    moreover have "span_marked (Small ?sp) e off = span_marked (Small sp) e off" for e off
      by (simp add: span_marked_def split: option.splits)
    ultimately show ?thesis by (rule step [OF small(1) t _ o])
  next
    case (large sp)
    let ?s = "(lg_storage sp)\<lparr>st_blocks := (st_blocks (lg_storage sp))(?off := (fst (st_blocks (lg_storage sp) ?off), p'))\<rparr>"
    let ?sp = "sp\<lparr>lg_storage := ?s\<rparr>"
    have t: "?t = set_kind t ?i (Some (LargeOwner ?sp))" using large(1) by (simp add: write_payload_def Let_def)
    have o: "span_object (LargeOwner ?sp) off = (if off = ?off then Some (h, p') else span_object (LargeOwner sp) off)" for off
      using large by (auto simp: span_object_def)
    have "span_inv (LargeOwner ?sp)" using large by (simp add: span_inv_def)
    then have "table_inv ?t" unfolding t by (rule table_inv_set_kind [OF inv large(1)]) simp_all
    moreover have "span_marked (LargeOwner ?sp) e off = span_marked (LargeOwner sp) e off" for e off
      by (simp add: span_marked_def)
    ultimately show ?thesis by (rule step [OF large(1) t _ o])
  qed
  then show "table_inv ?t" "heap_objects ?t = (heap_objects t)(r \<mapsto> (h, p'))" "heap_marked ?t e = heap_marked t e"
    "tb_grants ?t = tb_grants t" by blast+
qed


end
