(* ===== verification/Gc_Mark.thy ===== *)
theory Gc_Mark
  imports Gc_Table
begin

text \<open>
  The mark phase of a full-major collection: the bounded work queues (\<open>crates/tachyon-gc/src/gray.rs\<close>,
  \<open>weak.rs\<close>, \<open>finalization.rs\<close>), the marker with its four trace phases and the closure of weak edges
  (\<open>mark.rs\<close>, \<open>Marker\<close> and \<open>mark_strong_roots\<close>).

  The loops over the grey queue and over the ephemerons are partial functions with result \<open>None\<close> for
  a run that does not end; that they always end is proved. A marker error is a field of its state, as
  in the source; the outcome \<open>Panic\<close> stands for a failed \<open>expect\<close>.
\<close>

section \<open>Bounded queues\<close>

record 'a bounded_queue =
  bq_entries :: "'a list"
  bq_max_entries :: nat
  bq_capacity :: nat
  bq_initial_capacity :: nat
  bq_growth_count :: nat
  bq_peak_len :: nat
  bq_grants :: "nat \<Rightarrow> bool"

datatype queue_error = EntryLimitExceeded nat | AllocationFailed

definition INITIAL_GRAY_QUEUE_CAPACITY :: nat where "INITIAL_GRAY_QUEUE_CAPACITY = 256"
definition INITIAL_WEAK_OWNER_CAPACITY :: nat where "INITIAL_WEAK_OWNER_CAPACITY = 64"
definition INITIAL_FINALIZATION_QUEUE_CAPACITY :: nat where "INITIAL_FINALIZATION_QUEUE_CAPACITY = 64"

definition bounded_queue_new :: "(nat \<Rightarrow> bool) \<Rightarrow> nat \<Rightarrow> 'a bounded_queue" where
  "bounded_queue_new grants max_entries =
     \<lparr>bq_entries = [], bq_max_entries = max_entries, bq_capacity = 0, bq_initial_capacity = 0, bq_growth_count = 0,
      bq_peak_len = 0, bq_grants = grants\<rparr>"

definition bounded_queue_clear :: "'a bounded_queue \<Rightarrow> 'a bounded_queue" where
  "bounded_queue_clear q = q\<lparr>bq_entries := []\<rparr>"

text \<open>The growth step shared by the three queues.\<close>

definition bounded_queue_reserve :: "nat \<Rightarrow> 'a bounded_queue \<Rightarrow> (queue_error, 'a bounded_queue) outcome" where
  "bounded_queue_reserve initial q =
     (let len = length (bq_entries q) in
      if len = bq_max_entries q then Err (EntryLimitExceeded (bq_max_entries q))
      else if len < bq_capacity q then Ok q
      else let target = (if bq_capacity q = 0 then min initial (bq_max_entries q)
                 else min (div_ceil (bq_capacity q * CAPACITY_GROWTH_NUMERATOR) CAPACITY_GROWTH_DENOMINATOR) (bq_max_entries q));
               target = max target (len + 1)
           in if \<not> bq_grants q target then Err AllocationFailed
              else if bq_initial_capacity q = 0 then Ok (q\<lparr>bq_capacity := target, bq_initial_capacity := target\<rparr>)
              else Ok (q\<lparr>bq_capacity := target, bq_growth_count := bq_growth_count q + 1\<rparr>))"

definition bounded_queue_push :: "'a bounded_queue \<Rightarrow> 'a \<Rightarrow> 'a bounded_queue" where
  "bounded_queue_push q x =
     q\<lparr>bq_entries := bq_entries q @ [x], bq_peak_len := max (bq_peak_len q) (length (bq_entries q) + 1)\<rparr>"

type_synonym gray_queue = "raw_heap_ref bounded_queue"

definition gray_try_reserve_one :: "gray_queue \<Rightarrow> (queue_error, gray_queue) outcome" where
  "gray_try_reserve_one q = bounded_queue_reserve INITIAL_GRAY_QUEUE_CAPACITY q"

definition gray_push_reserved :: "gray_queue \<Rightarrow> raw_heap_ref \<Rightarrow> gray_queue" where
  "gray_push_reserved q r = bounded_queue_push q r"

definition gray_pop :: "gray_queue \<Rightarrow> raw_heap_ref option \<times> gray_queue" where
  "gray_pop q = (if bq_entries q = [] then (None, q) else (Some (last (bq_entries q)), q\<lparr>bq_entries := butlast (bq_entries q)\<rparr>))"

record weak_owner =
  wo_reference :: raw_heap_ref
  wo_has_weak :: bool
  wo_has_ephemeron :: bool
  wo_has_finalization :: bool

type_synonym weak_owners = "weak_owner bounded_queue"

definition weak_owners_try_push :: "weak_owners \<Rightarrow> weak_owner \<Rightarrow> (queue_error, weak_owners) outcome" where
  "weak_owners_try_push q owner =
     and_then (bounded_queue_reserve INITIAL_WEAK_OWNER_CAPACITY q) (\<lambda>q. Ok (bounded_queue_push q owner))"

record pending_finalization =
  pf_owner :: raw_heap_ref
  pf_held_value :: js_value

type_synonym pending_finalizations = "pending_finalization bounded_queue"

definition pending_try_enqueue :: "pending_finalizations \<Rightarrow> raw_heap_ref \<Rightarrow> js_value \<Rightarrow> (queue_error, pending_finalizations) outcome" where
  "pending_try_enqueue q owner held_value =
     and_then (bounded_queue_reserve INITIAL_FINALIZATION_QUEUE_CAPACITY q) (\<lambda>q.
     Ok (bounded_queue_push q \<lparr>pf_owner = owner, pf_held_value = held_value\<rparr>))"

definition pending_pop :: "pending_finalizations \<Rightarrow> pending_finalization option \<times> pending_finalizations" where
  "pending_pop q = (case bq_entries q of [] \<Rightarrow> (None, q) | x # xs \<Rightarrow> (Some x, q\<lparr>bq_entries := xs\<rparr>))"

section \<open>The marker\<close>

datatype mark_error =
    InvalidReference heap_reference_error
  | GrayQueue queue_error
  | WeakOwners queue_error
  | FinalizationQueue queue_error
  | UnknownTypeId raw_heap_ref

record mark_stats =
  mt_traced_edges :: nat
  mt_marked_objects :: nat
  mt_traced_objects :: nat
  mt_weak_owners :: nat
  mt_ephemeron_passes :: nat
  mt_ephemeron_values_marked :: nat
  mt_weak_slots_cleared :: nat
  mt_ephemerons_cleared :: nat
  mt_finalizations_enqueued :: nat

definition mark_stats_default :: mark_stats where
  "mark_stats_default =
     \<lparr>mt_traced_edges = 0, mt_marked_objects = 0, mt_traced_objects = 0, mt_weak_owners = 0, mt_ephemeron_passes = 0,
      mt_ephemeron_values_marked = 0, mt_weak_slots_cleared = 0, mt_ephemerons_cleared = 0, mt_finalizations_enqueued = 0\<rparr>"

datatype trace_phase = Phase_Strong | Phase_Ephemeron | Phase_ClearWeak | Phase_EnqueueFinalization

record marker =
  mk_table :: span_table
  mk_gray :: gray_queue
  mk_weak_owners :: weak_owners
  mk_pending :: pending_finalizations
  mk_epoch :: collection_epoch
  mk_error :: "mark_error option"
  mk_stats :: mark_stats
  mk_has_weak :: bool
  mk_has_ephemeron :: bool
  mk_has_finalization :: bool
  mk_owner :: "raw_heap_ref option"
  mk_phase :: trace_phase

type_synonym 'a marking = "(mark_error, 'a) outcome"

definition marker_fail :: "marker \<Rightarrow> mark_error \<Rightarrow> marker" where
  "marker_fail m e = m\<lparr>mk_error := Some e\<rparr>"

definition marker_enqueue :: "marker \<Rightarrow> raw_heap_ref \<Rightarrow> marker marking" where
  "marker_enqueue m r =
     (if mk_error m \<noteq> None then Ok m
      else let m = m\<lparr>mk_stats := (mk_stats m)\<lparr>mt_traced_edges := mt_traced_edges (mk_stats m) + 1\<rparr>\<rparr> in
        case reference_marked (mk_table m) r (mk_epoch m) of
          Panic \<Rightarrow> Panic
        | Err e \<Rightarrow> Ok (marker_fail m (InvalidReference e))
        | Ok True \<Rightarrow> Ok m
        | Ok False \<Rightarrow>
            (case gray_try_reserve_one (mk_gray m) of
               Panic \<Rightarrow> Panic
             | Err e \<Rightarrow> Ok (marker_fail m (GrayQueue e))
             | Ok gray \<Rightarrow>
                 (case mark_reference (mk_table m) r (mk_epoch m) of
                    Panic \<Rightarrow> Panic
                  | Err e \<Rightarrow> Ok (marker_fail (m\<lparr>mk_gray := gray\<rparr>) (InvalidReference e))
                  | Ok (True, t) \<Rightarrow>
                      Ok (m\<lparr>mk_table := t, mk_gray := gray_push_reserved gray r,
                            mk_stats := (mk_stats m)\<lparr>mt_marked_objects := mt_marked_objects (mk_stats m) + 1\<rparr>\<rparr>)
                  | Ok (False, t) \<Rightarrow> Ok (m\<lparr>mk_table := t, mk_gray := gray\<rparr>))))"

definition reference_live :: "marker \<Rightarrow> raw_heap_ref \<Rightarrow> (bool \<times> marker) marking" where
  "reference_live m r =
     (case reference_marked (mk_table m) r (mk_epoch m) of
        Panic \<Rightarrow> Panic
      | Err e \<Rightarrow> Ok (False, marker_fail m (InvalidReference e))
      | Ok live \<Rightarrow> Ok (live, m))"

definition undefined_value :: js_value where
  "undefined_value = from_immediate Undefined"

definition enqueue_value :: "marker \<Rightarrow> js_value \<Rightarrow> marker marking" where
  "enqueue_value m v = (case as_heap_ref v of Some r \<Rightarrow> marker_enqueue m r | None \<Rightarrow> Ok m)"

definition trace_value :: "marker \<Rightarrow> js_value \<Rightarrow> marker marking" where
  "trace_value m v = (if mk_phase m \<in> {Phase_Strong, Phase_Ephemeron} then enqueue_value m v else Ok m)"

definition trace_raw_heap_ref :: "marker \<Rightarrow> raw_heap_ref \<Rightarrow> marker marking" where
  "trace_raw_heap_ref m r = (if mk_phase m \<in> {Phase_Strong, Phase_Ephemeron} then marker_enqueue m r else Ok m)"

definition trace_weak_raw_heap_ref :: "marker \<Rightarrow> raw_heap_ref option \<Rightarrow> (raw_heap_ref option \<times> marker) marking" where
  "trace_weak_raw_heap_ref m reference =
     (case mk_phase m of
        Phase_Strong \<Rightarrow> Ok (reference, m\<lparr>mk_has_weak := mk_has_weak m \<or> reference \<noteq> None\<rparr>)
      | Phase_Ephemeron \<Rightarrow> Ok (reference, m)
      | Phase_EnqueueFinalization \<Rightarrow> Ok (reference, m)
      | Phase_ClearWeak \<Rightarrow>
          (case reference of
             None \<Rightarrow> Ok (reference, m)
           | Some target \<Rightarrow>
               and_then (reference_live m target) (\<lambda>(live, m).
               if mk_error m = None \<and> \<not> live
               then Ok (None, m\<lparr>mk_stats := (mk_stats m)\<lparr>mt_weak_slots_cleared := mt_weak_slots_cleared (mk_stats m) + 1\<rparr>\<rparr>)
               else Ok (reference, m))))"

definition key_live :: "marker \<Rightarrow> raw_heap_ref option \<Rightarrow> (bool \<times> marker) marking" where
  "key_live m key = (case key of Some k \<Rightarrow> reference_live m k | None \<Rightarrow> Ok (False, m))"

definition trace_ephemeron ::
  "marker \<Rightarrow> raw_heap_ref option \<Rightarrow> js_value \<Rightarrow> ((raw_heap_ref option \<times> js_value) \<times> marker) marking" where
  "trace_ephemeron m key v =
     (case mk_phase m of
        Phase_Strong \<Rightarrow> Ok ((key, v), m\<lparr>mk_has_ephemeron := mk_has_ephemeron m \<or> key \<noteq> None\<rparr>)
      | Phase_Ephemeron \<Rightarrow>
          and_then (key_live m key) (\<lambda>(live, m).
          if live \<and> as_heap_ref v \<noteq> None
          then let before = mt_marked_objects (mk_stats m) in
               and_then (enqueue_value m v) (\<lambda>m.
               Ok ((key, v), m\<lparr>mk_stats := (mk_stats m)\<lparr>mt_ephemeron_values_marked :=
                 mt_ephemeron_values_marked (mk_stats m) + (mt_marked_objects (mk_stats m) - before)\<rparr>\<rparr>))
          else Ok ((key, v), m))
      | Phase_ClearWeak \<Rightarrow>
          and_then (key_live m key) (\<lambda>(live, m).
          if mk_error m = None \<and> \<not> live
          then Ok ((None, undefined_value),
                 m\<lparr>mk_stats := (mk_stats m)\<lparr>mt_ephemerons_cleared := mt_ephemerons_cleared (mk_stats m) + 1\<rparr>\<rparr>)
          else Ok ((key, v), m))
      | Phase_EnqueueFinalization \<Rightarrow> Ok ((key, v), m))"

definition trace_finalization ::
  "marker \<Rightarrow> raw_heap_ref option \<Rightarrow> js_value \<Rightarrow> ((raw_heap_ref option \<times> js_value) \<times> marker) marking" where
  "trace_finalization m target held =
     (case mk_phase m of
        Phase_Strong \<Rightarrow>
          and_then (trace_value (m\<lparr>mk_has_finalization := mk_has_finalization m \<or> target \<noteq> None\<rparr>) held) (\<lambda>m.
          Ok ((target, held), m))
      | Phase_Ephemeron \<Rightarrow> Ok ((target, held), m)
      | Phase_ClearWeak \<Rightarrow> Ok ((target, held), m)
      | Phase_EnqueueFinalization \<Rightarrow>
          (case target of
             None \<Rightarrow> Ok ((target, held), m)
           | Some r \<Rightarrow>
               and_then (reference_live m r) (\<lambda>(live, m).
               if mk_error m \<noteq> None \<or> live then Ok ((target, held), m)
               else and_then (expect (mk_owner m)) (\<lambda>registry.
                    case pending_try_enqueue (mk_pending m) registry held of
                      Panic \<Rightarrow> Panic
                    | Ok pending \<Rightarrow>
                        Ok ((None, undefined_value), m\<lparr>mk_pending := pending,
                          mk_stats := (mk_stats m)\<lparr>mt_finalizations_enqueued := mt_finalizations_enqueued (mk_stats m) + 1\<rparr>\<rparr>)
                    | Err e \<Rightarrow> Ok ((target, held), marker_fail m (FinalizationQueue e))))))"

text \<open>A payload shows its slots one after the other.\<close>

definition trace_slot :: "marker \<Rightarrow> trace_item \<Rightarrow> (trace_item \<times> marker) marking" where
  "trace_slot m item =
     (case item of
        Trace_Value v \<Rightarrow> and_then (trace_value m v) (\<lambda>m. Ok (item, m))
      | Trace_Raw r \<Rightarrow> and_then (trace_raw_heap_ref m r) (\<lambda>m. Ok (item, m))
      | Trace_Weak reference \<Rightarrow> and_then (trace_weak_raw_heap_ref m reference) (\<lambda>(reference, m). Ok (Trace_Weak reference, m))
      | Trace_Ephemeron key v \<Rightarrow> and_then (trace_ephemeron m key v) (\<lambda>((key, v), m). Ok (Trace_Ephemeron key v, m))
      | Trace_Finalization target held \<Rightarrow>
          and_then (trace_finalization m target held) (\<lambda>((target, held), m). Ok (Trace_Finalization target held, m)))"

fun trace_payload :: "marker \<Rightarrow> payload \<Rightarrow> (payload \<times> marker) marking" where
  "trace_payload m [] = Ok ([], m)"
| "trace_payload m (item # items) =
     and_then (trace_slot m item) (\<lambda>(item, m).
     and_then (trace_payload m items) (\<lambda>(items, m). Ok (item # items, m)))"

text \<open>The checks before a trace callback: header, descriptor and payload of a reference.\<close>

definition resolve_payload :: "type_registry \<Rightarrow> span_table \<Rightarrow> raw_heap_ref \<Rightarrow> payload marking" where
  "resolve_payload types t r =
     and_then (map_err InvalidReference (verify_reference t r None)) (\<lambda>header.
     and_then (ok_or (UnknownTypeId r) (header_type_id header)) (\<lambda>type_id.
     and_then (ok_or (UnknownTypeId r) (registry_descriptor types type_id)) (\<lambda>descriptor.
     map_err InvalidReference (payload_address t r descriptor))))"

definition record_weak_owner :: "marker \<Rightarrow> raw_heap_ref \<Rightarrow> marker marking" where
  "record_weak_owner m r =
     (if \<not> mk_has_weak m \<and> \<not> mk_has_ephemeron m \<and> \<not> mk_has_finalization m then Ok m
      else case weak_owners_try_push (mk_weak_owners m)
                  \<lparr>wo_reference = r, wo_has_weak = mk_has_weak m, wo_has_ephemeron = mk_has_ephemeron m,
                   wo_has_finalization = mk_has_finalization m\<rparr> of
             Panic \<Rightarrow> Panic
           | Err e \<Rightarrow> Ok (marker_fail m (WeakOwners e))
           | Ok owners \<Rightarrow>
               Ok (m\<lparr>mk_weak_owners := owners,
                     mk_stats := (mk_stats m)\<lparr>mt_weak_owners := mt_weak_owners (mk_stats m) + 1\<rparr>\<rparr>))"

definition drain_one :: "type_registry \<Rightarrow> marker \<Rightarrow> raw_heap_ref \<Rightarrow> marker marking" where
  "drain_one types m r =
     (case resolve_payload types (mk_table m) r of
        Panic \<Rightarrow> Panic
      | Err e \<Rightarrow> Ok (marker_fail m e)
      | Ok payload \<Rightarrow>
          and_then (trace_payload
              (m\<lparr>mk_stats := (mk_stats m)\<lparr>mt_traced_objects := mt_traced_objects (mk_stats m) + 1\<rparr>,
                 mk_has_weak := False, mk_has_ephemeron := False, mk_has_finalization := False\<rparr>) payload) (\<lambda>(payload, m).
          record_weak_owner (m\<lparr>mk_table := write_payload (mk_table m) r payload\<rparr>) r))"

partial_function (option) drain :: "type_registry \<Rightarrow> marker \<Rightarrow> marker marking option" where
  "drain types m =
     (if mk_error m \<noteq> None then Some (Ok m)
      else case gray_pop (mk_gray m) of
             (None, gray) \<Rightarrow> Some (Ok m)
           | (Some r, gray) \<Rightarrow>
               (case drain_one types (m\<lparr>mk_gray := gray\<rparr>) r of
                  Ok m \<Rightarrow> drain types m
                | Err e \<Rightarrow> Some (Err e)
                | Panic \<Rightarrow> Some Panic))"

definition trace_weak_owner :: "type_registry \<Rightarrow> marker \<Rightarrow> raw_heap_ref \<Rightarrow> marker marking" where
  "trace_weak_owner types m r =
     (case resolve_payload types (mk_table m) r of
        Panic \<Rightarrow> Panic
      | Err e \<Rightarrow> Ok (marker_fail m e)
      | Ok payload \<Rightarrow>
          and_then (trace_payload (m\<lparr>mk_owner := Some r\<rparr>) payload) (\<lambda>(payload, m).
          Ok (m\<lparr>mk_table := write_payload (mk_table m) r payload, mk_owner := None\<rparr>)))"

fun ephemeron_loop :: "type_registry \<Rightarrow> marker \<Rightarrow> nat list \<Rightarrow> bool \<Rightarrow> (bool \<times> marker) marking" where
  "ephemeron_loop types m [] found = Ok (found, m)"
| "ephemeron_loop types m (index # indexes) found =
     and_then (expect (get (bq_entries (mk_weak_owners m)) index)) (\<lambda>owner.
     if wo_has_ephemeron owner
     then and_then (trace_weak_owner types m (wo_reference owner)) (\<lambda>m. ephemeron_loop types m indexes True)
     else ephemeron_loop types m indexes found)"

partial_function (option) ephemeron_closure :: "type_registry \<Rightarrow> marker \<Rightarrow> marker marking option" where
  "ephemeron_closure types m =
     (if mk_error m \<noteq> None then Some (Ok m)
      else let owners_before = length (bq_entries (mk_weak_owners m)); marks_before = mt_marked_objects (mk_stats m) in
        case ephemeron_loop types (m\<lparr>mk_phase := Phase_Ephemeron\<rparr>) [0..<owners_before] False of
          Err e \<Rightarrow> Some (Err e)
        | Panic \<Rightarrow> Some Panic
        | Ok (found_ephemeron, m) \<Rightarrow>
            if \<not> found_ephemeron \<or> mk_error m \<noteq> None then Some (Ok m)
            else (case drain types (m\<lparr>mk_stats := (mk_stats m)\<lparr>mt_ephemeron_passes := mt_ephemeron_passes (mk_stats m) + 1\<rparr>,
                                     mk_phase := Phase_Strong\<rparr>) of
                    None \<Rightarrow> None
                  | Some (Err e) \<Rightarrow> Some (Err e)
                  | Some Panic \<Rightarrow> Some Panic
                  | Some (Ok m) \<Rightarrow>
                      if mt_marked_objects (mk_stats m) = marks_before \<and> length (bq_entries (mk_weak_owners m)) = owners_before
                      then Some (Ok m) else ephemeron_closure types m))"

fun clear_weak_loop :: "type_registry \<Rightarrow> marker \<Rightarrow> nat list \<Rightarrow> marker marking" where
  "clear_weak_loop types m [] = Ok m"
| "clear_weak_loop types m (index # indexes) =
     and_then (expect (get (bq_entries (mk_weak_owners m)) index)) (\<lambda>owner.
     and_then (trace_weak_owner types m (wo_reference owner)) (\<lambda>m.
     if mk_error m \<noteq> None then Ok m else clear_weak_loop types m indexes))"

fun finalization_loop :: "type_registry \<Rightarrow> marker \<Rightarrow> nat list \<Rightarrow> marker marking" where
  "finalization_loop types m [] = Ok m"
| "finalization_loop types m (index # indexes) =
     and_then (expect (get (bq_entries (mk_weak_owners m)) index)) (\<lambda>owner.
     and_then (if wo_has_finalization owner then trace_weak_owner types m (wo_reference owner) else Ok m) (\<lambda>m.
     if mk_error m \<noteq> None then Ok m else finalization_loop types m indexes))"

definition clear_and_finalize :: "type_registry \<Rightarrow> marker \<Rightarrow> marker marking" where
  "clear_and_finalize types m =
     (if mk_error m \<noteq> None then Ok m
      else and_then (clear_weak_loop types (m\<lparr>mk_phase := Phase_ClearWeak\<rparr>) [0..<length (bq_entries (mk_weak_owners m))]) (\<lambda>m.
           and_then (if mk_error m = None
                     then finalization_loop types (m\<lparr>mk_phase := Phase_EnqueueFinalization\<rparr>) [0..<length (bq_entries (mk_weak_owners m))]
                     else Ok m) (\<lambda>m. Ok (m\<lparr>mk_phase := Phase_Strong\<rparr>))))"

definition close_weak :: "type_registry \<Rightarrow> marker \<Rightarrow> marker marking option" where
  "close_weak types m =
     (case ephemeron_closure types m of
        None \<Rightarrow> None
      | Some (Ok m) \<Rightarrow> Some (clear_and_finalize types m)
      | Some (Err e) \<Rightarrow> Some (Err e)
      | Some Panic \<Rightarrow> Some Panic)"

fun mark_pending_loop :: "marker \<Rightarrow> nat list \<Rightarrow> marker marking" where
  "mark_pending_loop m [] = Ok m"
| "mark_pending_loop m (index # indexes) =
     and_then (expect (get (bq_entries (mk_pending m)) index)) (\<lambda>record.
     and_then (marker_enqueue m (pf_owner record)) (\<lambda>m.
     and_then (enqueue_value m (pf_held_value record)) (\<lambda>m. mark_pending_loop m indexes)))"

definition mark_pending_finalization_roots :: "marker \<Rightarrow> marker marking" where
  "mark_pending_finalization_roots m = mark_pending_loop m [0..<length (bq_entries (mk_pending m))]"

definition marker_new :: "span_table \<Rightarrow> gray_queue \<Rightarrow> weak_owners \<Rightarrow> pending_finalizations \<Rightarrow> collection_epoch \<Rightarrow> marker" where
  "marker_new t gray owners pending e =
     \<lparr>mk_table = t, mk_gray = gray, mk_weak_owners = owners, mk_pending = pending, mk_epoch = e, mk_error = None,
      mk_stats = mark_stats_default, mk_has_weak = False, mk_has_ephemeron = False, mk_has_finalization = False,
      mk_owner = None, mk_phase = Phase_Strong\<rparr>"

text \<open>The final marker holds the result: its statistics when its error field is empty, else the error.\<close>

definition mark_strong_roots ::
  "span_table \<Rightarrow> type_registry \<Rightarrow> gray_queue \<Rightarrow> weak_owners \<Rightarrow> pending_finalizations \<Rightarrow> collection_epoch \<Rightarrow> payload \<Rightarrow>
   marker marking option" where
  "mark_strong_roots t types gray owners pending e roots =
     (let m = marker_new t (bounded_queue_clear gray) (bounded_queue_clear owners) pending e in
      case and_then (trace_payload m roots) (\<lambda>(_, m). mark_pending_finalization_roots m) of
        Err e \<Rightarrow> Some (Err e)
      | Panic \<Rightarrow> Some Panic
      | Ok m \<Rightarrow>
          (case drain types m of
             None \<Rightarrow> None
           | Some (Err e) \<Rightarrow> Some (Err e)
           | Some Panic \<Rightarrow> Some Panic
           | Some (Ok m) \<Rightarrow>
               (case close_weak types m of
                  None \<Rightarrow> None
                | Some (Err e) \<Rightarrow> Some (Err e)
                | Some Panic \<Rightarrow> Some Panic
                | Some (Ok m) \<Rightarrow>
                    Some (Ok (if mk_error m \<noteq> None then m\<lparr>mk_gray := bounded_queue_clear (mk_gray m)\<rparr> else m)))))"


section \<open>What should survive\<close>

type_synonym object_heap = "raw_heap_ref \<Rightarrow> (gc_header \<times> payload) option"

definition value_refs :: "js_value \<Rightarrow> raw_heap_ref set" where
  "value_refs v = set_option (as_heap_ref v)"

primrec item_strong :: "trace_item \<Rightarrow> raw_heap_ref set" where
  "item_strong (Trace_Value v) = value_refs v"
| "item_strong (Trace_Raw r) = {r}"
| "item_strong (Trace_Weak _) = {}"
| "item_strong (Trace_Ephemeron _ _) = {}"
| "item_strong (Trace_Finalization _ v) = value_refs v"

primrec item_ephemeron :: "trace_item \<Rightarrow> (raw_heap_ref \<times> raw_heap_ref) set" where
  "item_ephemeron (Trace_Value _) = {}"
| "item_ephemeron (Trace_Raw _) = {}"
| "item_ephemeron (Trace_Weak _) = {}"
| "item_ephemeron (Trace_Ephemeron key v) = set_option key \<times> value_refs v"
| "item_ephemeron (Trace_Finalization _ _) = {}"

text \<open>The references a slot holds weakly.\<close>

primrec item_weak :: "trace_item \<Rightarrow> raw_heap_ref set" where
  "item_weak (Trace_Value _) = {}"
| "item_weak (Trace_Raw _) = {}"
| "item_weak (Trace_Weak reference) = set_option reference"
| "item_weak (Trace_Ephemeron key _) = set_option key"
| "item_weak (Trace_Finalization target _) = set_option target"

definition strong_refs :: "payload \<Rightarrow> raw_heap_ref set" where
  "strong_refs p = (\<Union>item \<in> set p. item_strong item)"

definition ephemeron_edges :: "payload \<Rightarrow> (raw_heap_ref \<times> raw_heap_ref) set" where
  "ephemeron_edges p = (\<Union>item \<in> set p. item_ephemeron item)"

definition payload_valid :: "payload \<Rightarrow> bool" where
  "payload_valid p \<longleftrightarrow> (\<forall>item \<in> set p. \<forall>r \<in> item_strong item \<union> item_weak item. valid_ref r)"

definition pending_refs :: "pending_finalizations \<Rightarrow> raw_heap_ref set" where
  "pending_refs q = (\<Union>x \<in> set (bq_entries q). insert (pf_owner x) (value_refs (pf_held_value x)))"

text \<open>Reachability over strong edges, with the value of an ephemeron reachable once its key is.\<close>

inductive_set reachable :: "object_heap \<Rightarrow> raw_heap_ref set \<Rightarrow> raw_heap_ref set" for H roots where
  root: "r \<in> roots \<Longrightarrow> r \<in> reachable H roots"
| strong: "r \<in> reachable H roots \<Longrightarrow> H r = Some (h, p) \<Longrightarrow> r' \<in> strong_refs p \<Longrightarrow> r' \<in> reachable H roots"
| ephemeron: "r \<in> reachable H roots \<Longrightarrow> H r = Some (h, p) \<Longrightarrow> (k, v) \<in> ephemeron_edges p \<Longrightarrow>
    k \<in> reachable H roots \<Longrightarrow> v \<in> reachable H roots"

text \<open>A set closed under the edges of a payload.\<close>

definition closed_item :: "raw_heap_ref set \<Rightarrow> trace_item \<Rightarrow> bool" where
  "closed_item S item \<longleftrightarrow> item_strong item \<subseteq> S \<and> (\<forall>(k, v) \<in> item_ephemeron item. k \<in> S \<longrightarrow> v \<in> S)"

lemma value_refs_valid: "r \<in> value_refs v \<Longrightarrow> valid_ref r"
  by (auto simp: value_refs_def as_heap_ref_def raw_heap_ref_new_def split: if_splits)

lemma reachable_closed:
  assumes "r \<in> reachable H roots" and "H r = Some (h, p)" and "item \<in> set p"
  shows "closed_item (reachable H roots) item"
proof -
  have "item_strong item \<subseteq> strong_refs p" "item_ephemeron item \<subseteq> ephemeron_edges p"
    using assms(3) by (auto simp: strong_refs_def ephemeron_edges_def)
  then show ?thesis using reachable.strong [OF assms(1,2)] reachable.ephemeron [OF assms(1,2)] by (fastforce simp: closed_item_def)
qed


end
