(* ===== verification/Gc_Mark_Sound.thy ===== *)
theory Gc_Mark_Sound
  imports Gc_Mark
begin

text \<open>
  Correctness of the mark phase of \<open>Gc_Mark\<close>: each trace callback advances the marks, the grey queue keeps
  the tri-colour invariant, draining and the closure of ephemerons end, and what is marked at the end is
  exactly what the roots reach.
\<close>

section \<open>Steps of the marker\<close>

abbreviation marked :: "marker \<Rightarrow> raw_heap_ref set" where
  "marked m \<equiv> heap_marked (mk_table m) (mk_epoch m)"

abbreviation gray :: "marker \<Rightarrow> raw_heap_ref list" where
  "gray m \<equiv> bq_entries (mk_gray m)"

abbreviation owners :: "marker \<Rightarrow> weak_owner list" where
  "owners m \<equiv> bq_entries (mk_weak_owners m)"

text \<open>The table represents the heap \<open>H\<close> and only members of \<open>S\<close> are marked.\<close>

definition mark_state :: "object_heap \<Rightarrow> raw_heap_ref set \<Rightarrow> marker \<Rightarrow> bool" where
  "mark_state H S m \<longleftrightarrow> table_inv (mk_table m) \<and> heap_objects (mk_table m) = H \<and> marked m \<subseteq> S"

text \<open>
  What tracing changes: the new marks are appended to the grey queue, and without an error the
  references of \<open>L\<close> are marked.
\<close>

definition advances :: "object_heap \<Rightarrow> raw_heap_ref set \<Rightarrow> raw_heap_ref set \<Rightarrow> marker \<Rightarrow> marker \<Rightarrow> bool" where
  "advances H S L m m' \<longleftrightarrow>
     mark_state H S m' \<and> marked m \<subseteq> marked m' \<and>
     (\<exists>xs. gray m' = gray m @ xs \<and> distinct xs \<and> set xs = marked m' - marked m \<and>
        mt_marked_objects (mk_stats m') = mt_marked_objects (mk_stats m) + length xs) \<and>
     (mk_error m' = None \<longrightarrow> mk_error m = None \<and> L \<subseteq> marked m') \<and>
     mk_epoch m' = mk_epoch m \<and> mk_weak_owners m' = mk_weak_owners m \<and> mk_pending m' = mk_pending m \<and>
     mk_phase m' = mk_phase m \<and> mk_owner m' = mk_owner m"

lemma advancesE:
  assumes "advances H S L m m'"
  obtains xs where "mark_state H S m'" "marked m \<subseteq> marked m'" "gray m' = gray m @ xs" "distinct xs"
    "set xs = marked m' - marked m" "mt_marked_objects (mk_stats m') = mt_marked_objects (mk_stats m) + length xs"
    "mk_error m' = None \<Longrightarrow> mk_error m = None" "mk_error m' = None \<Longrightarrow> L \<subseteq> marked m'"
    "mk_epoch m' = mk_epoch m" "mk_weak_owners m' = mk_weak_owners m" "mk_pending m' = mk_pending m"
    "mk_phase m' = mk_phase m" "mk_owner m' = mk_owner m"
proof -
  obtain xs where xs: "gray m' = gray m @ xs" "distinct xs" "set xs = marked m' - marked m"
      "mt_marked_objects (mk_stats m') = mt_marked_objects (mk_stats m) + length xs"
    using assms unfolding advances_def by blast
  show thesis by (rule that [OF _ _ xs]) (use assms in \<open>unfold advances_def, blast+\<close>)
qed

lemma advancesI:
  assumes "mark_state H S m'" "marked m \<subseteq> marked m'" "gray m' = gray m @ xs" "distinct xs"
    "set xs = marked m' - marked m" "mt_marked_objects (mk_stats m') = mt_marked_objects (mk_stats m) + length xs"
    "mk_error m' = None \<Longrightarrow> mk_error m = None" "mk_error m' = None \<Longrightarrow> L \<subseteq> marked m'"
    "mk_epoch m' = mk_epoch m" "mk_weak_owners m' = mk_weak_owners m" "mk_pending m' = mk_pending m"
    "mk_phase m' = mk_phase m" "mk_owner m' = mk_owner m"
  shows "advances H S L m m'"
  using assms unfolding advances_def by blast

lemma advances_refl: "mark_state H S m \<Longrightarrow> advances H S {} m m"
  by (rule advancesI [where xs = "[]"]) simp_all

lemma advances_state: "advances H S L m m' \<Longrightarrow> mark_state H S m'"
  by (simp add: advances_def)

lemma advances_trans:
  assumes "advances H S L m m'" and "advances H S L' m' m''"
  shows "advances H S (L \<union> L') m m''"
  using assms(1)
proof (rule advancesE)
  fix xs
  assume xs: "marked m \<subseteq> marked m'" "gray m' = gray m @ xs" "distinct xs" "set xs = marked m' - marked m"
    "mt_marked_objects (mk_stats m') = mt_marked_objects (mk_stats m) + length xs"
    "mk_error m' = None \<Longrightarrow> mk_error m = None" "mk_error m' = None \<Longrightarrow> L \<subseteq> marked m'"
    "mk_epoch m' = mk_epoch m" "mk_weak_owners m' = mk_weak_owners m" "mk_pending m' = mk_pending m"
    "mk_phase m' = mk_phase m" "mk_owner m' = mk_owner m"
  from assms(2) show ?thesis
  proof (rule advancesE)
    fix ys
    assume ys: "mark_state H S m''" "marked m' \<subseteq> marked m''" "gray m'' = gray m' @ ys" "distinct ys"
      "set ys = marked m'' - marked m'" "mt_marked_objects (mk_stats m'') = mt_marked_objects (mk_stats m') + length ys"
      "mk_error m'' = None \<Longrightarrow> mk_error m' = None" "mk_error m'' = None \<Longrightarrow> L' \<subseteq> marked m''"
      "mk_epoch m'' = mk_epoch m'" "mk_weak_owners m'' = mk_weak_owners m'" "mk_pending m'' = mk_pending m'"
      "mk_phase m'' = mk_phase m'" "mk_owner m'' = mk_owner m'"
    have "set (xs @ ys) = marked m'' - marked m" "set xs \<inter> set ys = {}" using xs(1,4) ys(2,5) by auto
    with xs ys show ?thesis by (intro advancesI [where xs = "xs @ ys"]) auto
  qed
qed

lemma advances_weaken: "advances H S L m m' \<Longrightarrow> L' \<subseteq> L \<Longrightarrow> advances H S L' m m'"
  unfolding advances_def by blast

text \<open>Fields of the marker that do not take part in marking.\<close>

definition same_marking :: "marker \<Rightarrow> marker \<Rightarrow> bool" where
  "same_marking m m' \<longleftrightarrow>
     mk_table m' = mk_table m \<and> mk_epoch m' = mk_epoch m \<and> mk_gray m' = mk_gray m \<and>
     mt_marked_objects (mk_stats m') = mt_marked_objects (mk_stats m) \<and> (mk_error m' = None \<longrightarrow> mk_error m = None) \<and>
     mk_weak_owners m' = mk_weak_owners m \<and> mk_pending m' = mk_pending m \<and> mk_phase m' = mk_phase m \<and>
     mk_owner m' = mk_owner m"

lemma same_marking_advances: "same_marking m m' \<Longrightarrow> mark_state H S m \<Longrightarrow> advances H S {} m m'"
  by (rule advancesI [where xs = "[]"]) (auto simp: same_marking_def mark_state_def)

lemma advances_same:
  "advances H S L m m' \<Longrightarrow> same_marking m' m'' \<Longrightarrow> advances H S L m m''"
  "same_marking m m' \<Longrightarrow> advances H S L m' m'' \<Longrightarrow> mark_state H S m \<Longrightarrow> advances H S L m m''"
  using advances_trans [OF _ same_marking_advances, of H S L m m' m''] advances_state
    advances_trans [OF same_marking_advances, of m m' H S L m''] by auto

lemma mark_state_ignore:
  "mk_table m0 = mk_table m \<Longrightarrow> mk_epoch m0 = mk_epoch m \<Longrightarrow> mark_state H S m0 = mark_state H S m"
  by (simp add: mark_state_def)


lemma bounded_queue_reserve_cases:
  obtains (ok) q' where "bounded_queue_reserve n q = Ok q'" "bq_entries q' = bq_entries q"
  | (err) e where "bounded_queue_reserve n q = Err e"
  by (cases "bounded_queue_reserve n q")
    (auto simp: bounded_queue_reserve_def Let_def split: if_splits)

definition same_flags :: "marker \<Rightarrow> marker \<Rightarrow> bool" where
  "same_flags m m' \<longleftrightarrow> mk_has_weak m' = mk_has_weak m \<and> mk_has_ephemeron m' = mk_has_ephemeron m \<and>
     mk_has_finalization m' = mk_has_finalization m"

lemma marker_enqueue_advances:
  assumes st: "mark_state H S m" and r: "valid_ref r" "r \<in> S"
  shows "\<exists>m'. marker_enqueue m r = Ok m' \<and> advances H S {r} m m' \<and> same_flags m m'"
proof (cases "mk_error m = None")
  case False
  then have "marker_enqueue m r = Ok m" by (auto simp: marker_enqueue_def)
  moreover have "advances H S {r} m m" using False st by (intro advancesI [where xs = "[]"]) auto
  ultimately show ?thesis by (simp add: same_flags_def)
next
  case None: True
  let ?m = "m\<lparr>mk_stats := (mk_stats m)\<lparr>mt_traced_edges := mt_traced_edges (mk_stats m) + 1\<rparr>\<rparr>"
  have inv: "table_inv (mk_table m)" and H: "heap_objects (mk_table m) = H" using st by (auto simp: mark_state_def)
  have fail: "advances H S {r} m (marker_fail m1 e) \<and> same_flags m (marker_fail m1 e)"
    if "mk_table m1 = mk_table m" "mk_epoch m1 = mk_epoch m" "gray m1 = gray m"
      "mt_marked_objects (mk_stats m1) = mt_marked_objects (mk_stats m)" "mk_weak_owners m1 = mk_weak_owners m"
      "mk_pending m1 = mk_pending m" "mk_phase m1 = mk_phase m" "mk_owner m1 = mk_owner m" "same_flags m m1" for m1 e
    using that st by (auto simp: marker_fail_def mark_state_def same_flags_def intro!: advancesI [where xs = "[]"])
  show ?thesis
  proof (cases "H r")
    case dead: None
    then obtain e where "reference_marked (mk_table m) r (mk_epoch m) = Err e"
      using reference_marked_dead [OF inv _ r(1)] H by blast
    then have "marker_enqueue m r = Ok (marker_fail ?m (InvalidReference e))" using None by (simp add: marker_enqueue_def Let_def)
    then show ?thesis using fail [of ?m] by (simp add: same_flags_def)
  next
    case (Some obj)
    then obtain h p where obj: "heap_objects (mk_table m) r = Some (h, p)" using H by (cases obj) auto
    note live = reference_marked_live [OF inv obj, of "mk_epoch m"]
    show ?thesis
    proof (cases "r \<in> marked m")
      case True
      then have "marker_enqueue m r = Ok ?m" using None live by (simp add: marker_enqueue_def Let_def)
      moreover have "advances H S {r} m ?m" using True st by (intro advancesI [where xs = "[]"]) (auto simp: mark_state_def)
      ultimately show ?thesis by (simp add: same_flags_def)
    next
      case False
      note mark = mark_reference_live [OF inv obj, of "mk_epoch m"]
      show ?thesis
      proof (cases rule: bounded_queue_reserve_cases [of INITIAL_GRAY_QUEUE_CAPACITY "mk_gray m"])
        case (ok q)
        let ?m' = "?m\<lparr>mk_table := with_heap_mark (mk_table m) r (mk_epoch m), mk_gray := bounded_queue_push q r,
          mk_stats := (mk_stats ?m)\<lparr>mt_marked_objects := mt_marked_objects (mk_stats m) + 1\<rparr>\<rparr>"
        have "marker_enqueue m r = Ok ?m'"
          using None live False ok mark by (simp add: marker_enqueue_def Let_def gray_try_reserve_one_def gray_push_reserved_def)
        moreover have "advances H S {r} m ?m'"
          using False st ok mark r(2) H
          by (intro advancesI [where xs = "[r]"]) (auto simp: mark_state_def bounded_queue_push_def)
        ultimately show ?thesis by (simp add: same_flags_def)
      next
        case (err e)
        then have "marker_enqueue m r = Ok (marker_fail ?m (GrayQueue e))"
          using None live False by (simp add: marker_enqueue_def Let_def gray_try_reserve_one_def)
        then show ?thesis using fail [of ?m] by (simp add: same_flags_def)
      qed
    qed
  qed
qed

lemma enqueue_value_advances:
  assumes "mark_state H S m" and "value_refs v \<subseteq> S"
  shows "\<exists>m'. enqueue_value m v = Ok m' \<and> advances H S (value_refs v) m m' \<and> same_flags m m'"
proof (cases "as_heap_ref v")
  case None
  then show ?thesis using advances_refl [OF assms(1)] by (simp add: enqueue_value_def value_refs_def same_flags_def)
next
  case (Some r)
  then have "valid_ref r" "r \<in> S" using assms(2) value_refs_valid [of r v] by (auto simp: value_refs_def)
  then show ?thesis using marker_enqueue_advances [OF assms(1)] Some by (simp add: enqueue_value_def value_refs_def)
qed

lemma reference_live_eq:
  assumes "mark_state H S m" and "valid_ref r"
  obtains (live) "H r \<noteq> None" "reference_live m r = Ok (r \<in> marked m, m)"
  | (dead) e where "H r = None" "reference_live m r = Ok (False, marker_fail m e)"
proof -
  have inv: "table_inv (mk_table m)" and H: "heap_objects (mk_table m) = H" using assms(1) by (auto simp: mark_state_def)
  show thesis
  proof (cases "H r")
    case None
    then obtain e where "reference_marked (mk_table m) r (mk_epoch m) = Err e"
      using reference_marked_dead [OF inv _ assms(2)] H by blast
    then show ?thesis using dead [of "InvalidReference e"] None by (simp add: reference_live_def)
  next
    case (Some obj)
    then obtain h p where "heap_objects (mk_table m) r = Some (h, p)" using H by (cases obj) auto
    then have "reference_marked (mk_table m) r (mk_epoch m) = Ok (r \<in> marked m)" by (rule reference_marked_live [OF inv])
    then show ?thesis using live Some by (simp add: reference_live_def)
  qed
qed


subsection \<open>Tracing in the marking phases\<close>

primrec weak_slot :: "trace_item \<Rightarrow> bool" where
  "weak_slot (Trace_Value _) = False" | "weak_slot (Trace_Raw _) = False" | "weak_slot (Trace_Weak r) = (r \<noteq> None)"
| "weak_slot (Trace_Ephemeron _ _) = False" | "weak_slot (Trace_Finalization _ _) = False"

primrec ephemeron_slot :: "trace_item \<Rightarrow> bool" where
  "ephemeron_slot (Trace_Value _) = False" | "ephemeron_slot (Trace_Raw _) = False" | "ephemeron_slot (Trace_Weak _) = False"
| "ephemeron_slot (Trace_Ephemeron key _) = (key \<noteq> None)" | "ephemeron_slot (Trace_Finalization _ _) = False"

primrec finalization_slot :: "trace_item \<Rightarrow> bool" where
  "finalization_slot (Trace_Value _) = False" | "finalization_slot (Trace_Raw _) = False" | "finalization_slot (Trace_Weak _) = False"
| "finalization_slot (Trace_Ephemeron _ _) = False" | "finalization_slot (Trace_Finalization target _) = (target \<noteq> None)"

lemma same_flags_trans: "same_flags m m' \<Longrightarrow> same_flags m' m'' \<Longrightarrow> same_flags m m''"
  by (simp add: same_flags_def)

definition flags_after :: "marker \<Rightarrow> payload \<Rightarrow> marker \<Rightarrow> bool" where
  "flags_after m p m' \<longleftrightarrow>
     mk_has_weak m' = (mk_has_weak m \<or> list_ex weak_slot p) \<and>
     mk_has_ephemeron m' = (mk_has_ephemeron m \<or> list_ex ephemeron_slot p) \<and>
     mk_has_finalization m' = (mk_has_finalization m \<or> list_ex finalization_slot p)"

lemma trace_slot_strong:
  assumes st: "mark_state H S m" and ph: "mk_phase m = Phase_Strong" and S: "item_strong item \<subseteq> S"
    and valid: "\<forall>r \<in> item_strong item. valid_ref r"
  shows "\<exists>m'. trace_slot m item = Ok (item, m') \<and> advances H S (item_strong item) m m' \<and> flags_after m [item] m'"
proof (cases item)
  case (Trace_Value v)
  then show ?thesis using enqueue_value_advances [OF st, of v] S ph
    by (auto simp: trace_slot_def trace_value_def flags_after_def same_flags_def)
next
  case (Trace_Raw r)
  then show ?thesis using marker_enqueue_advances [OF st, of r] S valid ph
    by (auto simp: trace_slot_def trace_raw_heap_ref_def flags_after_def same_flags_def)
next
  case (Trace_Weak r)
  let ?m = "m\<lparr>mk_has_weak := mk_has_weak m \<or> r \<noteq> None\<rparr>"
  have "advances H S {} m ?m" by (rule same_marking_advances [OF _ st]) (simp add: same_marking_def)
  then show ?thesis using Trace_Weak ph by (simp add: trace_slot_def trace_weak_raw_heap_ref_def flags_after_def)
next
  case (Trace_Ephemeron key v)
  let ?m = "m\<lparr>mk_has_ephemeron := mk_has_ephemeron m \<or> key \<noteq> None\<rparr>"
  have "advances H S {} m ?m" by (rule same_marking_advances [OF _ st]) (simp add: same_marking_def)
  then show ?thesis using Trace_Ephemeron ph by (simp add: trace_slot_def trace_ephemeron_def flags_after_def)
next
  case (Trace_Finalization target v)
  let ?m = "m\<lparr>mk_has_finalization := mk_has_finalization m \<or> target \<noteq> None\<rparr>"
  have same: "same_marking m ?m" by (simp add: same_marking_def)
  have st': "mark_state H S ?m" using st by (simp add: mark_state_def)
  have v: "value_refs v \<subseteq> S" using S Trace_Finalization by simp
  obtain m' where "enqueue_value ?m v = Ok m'" "advances H S (value_refs v) ?m m'" "same_flags ?m m'"
    using enqueue_value_advances [OF st' v] by blast
  then show ?thesis using Trace_Finalization ph advances_same(2) [OF same _ st]
    by (auto simp: trace_slot_def trace_finalization_def trace_value_def flags_after_def same_flags_def)
qed

lemma trace_payload_strong:
  assumes "mark_state H S m" and "mk_phase m = Phase_Strong" and "strong_refs p \<subseteq> S" and "payload_valid p"
  shows "\<exists>m'. trace_payload m p = Ok (p, m') \<and> advances H S (strong_refs p) m m' \<and> flags_after m p m'"
  using assms
proof (induction p arbitrary: m)
  case Nil
  then show ?case using advances_refl by (simp add: strong_refs_def flags_after_def)
next
  case (Cons item p)
  have S: "item_strong item \<subseteq> S" "strong_refs p \<subseteq> S" and valid: "\<forall>r \<in> item_strong item. valid_ref r" "payload_valid p"
    using Cons.prems(3,4) by (auto simp: strong_refs_def payload_valid_def)
  obtain m1 where m1: "trace_slot m item = Ok (item, m1)" "advances H S (item_strong item) m m1" "flags_after m [item] m1"
    using trace_slot_strong [OF Cons.prems(1,2) S(1) valid(1)] by blast
  have "mark_state H S m1" "mk_phase m1 = Phase_Strong" using m1(2) Cons.prems(2) by (auto simp: advances_def)
  then obtain m2 where m2: "trace_payload m1 p = Ok (p, m2)" "advances H S (strong_refs p) m1 m2" "flags_after m1 p m2"
    using Cons.IH S(2) valid(2) by blast
  have "strong_refs (item # p) = item_strong item \<union> strong_refs p" by (simp add: strong_refs_def)
  then have "advances H S (strong_refs (item # p)) m m2" using advances_trans [OF m1(2) m2(2)] by simp
  moreover have "flags_after m (item # p) m2" using m1(3) m2(3) by (auto simp: flags_after_def)
  ultimately show ?case using m1(1) m2(1) by simp
qed

text \<open>The values of ephemerons whose key is already marked.\<close>

definition awakened :: "raw_heap_ref set \<Rightarrow> payload \<Rightarrow> raw_heap_ref set" where
  "awakened M p = {v. \<exists>k \<in> M. (k, v) \<in> ephemeron_edges p}"

lemma trace_slot_ephemeron:
  assumes st: "mark_state H S m" and ph: "mk_phase m = Phase_Ephemeron" and S: "closed_item S item"
    and valid: "\<forall>r \<in> item_strong item \<union> item_weak item. valid_ref r"
  shows "\<exists>m'. trace_slot m item = Ok (item, m') \<and> advances H S (awakened (marked m) [item]) m m'"
proof (cases item)
  case (Trace_Value v)
  then show ?thesis using enqueue_value_advances [OF st, of v] S ph
    by (auto simp: trace_slot_def trace_value_def closed_item_def awakened_def ephemeron_edges_def intro: advances_weaken)
next
  case (Trace_Raw r)
  then show ?thesis using marker_enqueue_advances [OF st, of r] S valid ph
    by (auto simp: trace_slot_def trace_raw_heap_ref_def closed_item_def awakened_def ephemeron_edges_def intro: advances_weaken)
next
  case (Trace_Weak r)
  then show ?thesis using advances_refl [OF st] ph
    by (simp add: trace_slot_def trace_weak_raw_heap_ref_def awakened_def ephemeron_edges_def)
next
  case (Trace_Finalization target v)
  then show ?thesis using advances_refl [OF st] ph
    by (simp add: trace_slot_def trace_finalization_def awakened_def ephemeron_edges_def)
next
  case (Trace_Ephemeron key v)
  have edges: "ephemeron_edges [item] = set_option key \<times> value_refs v" using Trace_Ephemeron by (simp add: ephemeron_edges_def)
  show ?thesis
  proof (cases key)
    case None
    then show ?thesis using advances_refl [OF st] ph Trace_Ephemeron edges
      by (simp add: trace_slot_def trace_ephemeron_def key_live_def awakened_def)
  next
    case (Some k)
    then have k: "valid_ref k" using valid Trace_Ephemeron by simp
    from st k show ?thesis
    proof (cases rule: reference_live_eq)
      case (dead e)
      have "advances H S (awakened (marked m) [item]) m (marker_fail m e)"
        using st by (intro advancesI [where xs = "[]"]) (auto simp: marker_fail_def mark_state_def)
      then show ?thesis using dead Some ph Trace_Ephemeron by (simp add: trace_slot_def trace_ephemeron_def key_live_def)
    next
      case live
      show ?thesis
      proof (cases "k \<in> marked m \<and> as_heap_ref v \<noteq> None")
        case False
        then have "awakened (marked m) [item] = {}" using Some edges by (auto simp: awakened_def value_refs_def)
        then show ?thesis using False live Some ph Trace_Ephemeron advances_refl [OF st]
          by (auto simp: trace_slot_def trace_ephemeron_def key_live_def)
      next
        case True
        have "k \<in> S" using True st by (auto simp: mark_state_def)
        then have "value_refs v \<subseteq> S" using S Trace_Ephemeron Some by (auto simp: closed_item_def)
        then obtain m1 where m1: "enqueue_value m v = Ok m1" "advances H S (value_refs v) m m1"
          using enqueue_value_advances [OF st] by blast
        let ?m = "m1\<lparr>mk_stats := (mk_stats m1)\<lparr>mt_ephemeron_values_marked :=
          mt_ephemeron_values_marked (mk_stats m1) + (mt_marked_objects (mk_stats m1) - mt_marked_objects (mk_stats m))\<rparr>\<rparr>"
        have "same_marking m1 ?m" by (simp add: same_marking_def)
        then have "advances H S (value_refs v) m ?m" by (rule advances_same(1) [OF m1(2)])
        moreover have "awakened (marked m) [item] = value_refs v" using True Some edges by (auto simp: awakened_def)
        ultimately show ?thesis using True live Some ph Trace_Ephemeron m1(1)
          by (simp add: trace_slot_def trace_ephemeron_def key_live_def Let_def)
      qed
    qed
  qed
qed

lemma trace_payload_ephemeron:
  assumes "mark_state H S m" and "mk_phase m = Phase_Ephemeron" and "\<forall>item \<in> set p. closed_item S item" and "payload_valid p"
  shows "\<exists>m'. trace_payload m p = Ok (p, m') \<and> advances H S (awakened (marked m) p) m m'"
  using assms
proof (induction p arbitrary: m)
  case Nil
  then show ?case using advances_refl by (simp add: awakened_def ephemeron_edges_def)
next
  case (Cons item p)
  have valid: "\<forall>r \<in> item_strong item \<union> item_weak item. valid_ref r" "payload_valid p"
    using Cons.prems(4) by (auto simp: payload_valid_def)
  obtain m1 where m1: "trace_slot m item = Ok (item, m1)" "advances H S (awakened (marked m) [item]) m m1"
    using trace_slot_ephemeron [OF Cons.prems(1,2) _ valid(1)] Cons.prems(3) by auto
  have mono: "mark_state H S m1" "mk_phase m1 = Phase_Ephemeron" "marked m \<subseteq> marked m1"
    using m1(2) Cons.prems(2) by (auto simp: advances_def)
  then obtain m2 where m2: "trace_payload m1 p = Ok (p, m2)" "advances H S (awakened (marked m1) p) m1 m2"
    using Cons.IH [OF mono(1,2) _ valid(2)] Cons.prems(3) by auto
  have "advances H S (awakened (marked m) [item] \<union> awakened (marked m1) p) m m2" by (rule advances_trans [OF m1(2) m2(2)])
  moreover have "awakened (marked m) (item # p) \<subseteq> awakened (marked m) [item] \<union> awakened (marked m1) p"
    using mono(3) by (auto simp: awakened_def ephemeron_edges_def)
  ultimately have "advances H S (awakened (marked m) (item # p)) m m2" by (rule advances_weaken)
  then show ?case using m1(1) m2(1) by simp
qed


section \<open>Draining the grey queue\<close>

text \<open>A heap whose payloads hold well-formed references, and a set closed under its edges.\<close>

definition heap_valid :: "object_heap \<Rightarrow> bool" where
  "heap_valid H \<longleftrightarrow> (\<forall>r h p. H r = Some (h, p) \<longrightarrow> payload_valid p)"

definition heap_closed :: "object_heap \<Rightarrow> raw_heap_ref set \<Rightarrow> bool" where
  "heap_closed H S \<longleftrightarrow> (\<forall>r \<in> S. \<forall>h p. H r = Some (h, p) \<longrightarrow> (\<forall>item \<in> set p. closed_item S item))"

lemma heap_closed_strong: "heap_closed H S \<Longrightarrow> r \<in> S \<Longrightarrow> H r = Some (h, p) \<Longrightarrow> strong_refs p \<subseteq> S"
  by (force simp: heap_closed_def closed_item_def strong_refs_def)

definition owner_record :: "raw_heap_ref \<Rightarrow> payload \<Rightarrow> weak_owner" where
  "owner_record r p = \<lparr>wo_reference = r, wo_has_weak = list_ex weak_slot p, wo_has_ephemeron = list_ex ephemeron_slot p,
     wo_has_finalization = list_ex finalization_slot p\<rparr>"

definition special :: "payload \<Rightarrow> bool" where
  "special p \<longleftrightarrow> list_ex weak_slot p \<or> list_ex ephemeron_slot p \<or> list_ex finalization_slot p"

lemma resolve_payload_live:
  assumes "mark_state H S m" and "H r = Some (h, p)"
  obtains (ok) "resolve_payload types (mk_table m) r = Ok p"
  | (err) e where "resolve_payload types (mk_table m) r = Err e"
proof -
  have inv: "table_inv (mk_table m)" and obj: "heap_objects (mk_table m) r = Some (h, p)"
    using assms by (auto simp: mark_state_def)
  note pa = payload_address_live [OF inv obj]
  show thesis
  proof (cases "resolve_payload types (mk_table m) r")
    case (Ok p')
    then show ?thesis using ok pa(2) by (auto simp: resolve_payload_def outcome_simps)
  next
    case (Err e)
    then show ?thesis by (rule err)
  next
    case Panic
    then show ?thesis using pa(1)
      by (auto simp: resolve_payload_def outcome_simps verify_reference_live [OF inv obj])
  qed
qed

lemma write_same_payload:
  assumes "mark_state H S m" and "H r = Some (h, p)"
  shows "mark_state H S (m\<lparr>mk_table := write_payload (mk_table m) r p\<rparr>)"
    "heap_marked (write_payload (mk_table m) r p) (mk_epoch m) = marked m"
proof -
  have inv: "table_inv (mk_table m)" and obj: "heap_objects (mk_table m) r = Some (h, p)"
    using assms by (auto simp: mark_state_def)
  note w = write_payload_live [OF inv obj, of p]
  have "heap_objects (write_payload (mk_table m) r p) = heap_objects (mk_table m)" unfolding w(2) using obj by (auto simp: fun_eq_iff)
  then show "mark_state H S (m\<lparr>mk_table := write_payload (mk_table m) r p\<rparr>)" using assms(1) w(1,3) by (simp add: mark_state_def)
  show "heap_marked (write_payload (mk_table m) r p) (mk_epoch m) = marked m" by (rule w(3))
qed

lemma record_weak_owner_cases:
  obtains (none) "record_weak_owner m r = Ok m" "\<not> mk_has_weak m" "\<not> mk_has_ephemeron m" "\<not> mk_has_finalization m"
  | (ok) q s where "record_weak_owner m r = Ok (m\<lparr>mk_weak_owners := q, mk_stats := s\<rparr>)"
      "bq_entries q = owners m @ [\<lparr>wo_reference = r, wo_has_weak = mk_has_weak m, wo_has_ephemeron = mk_has_ephemeron m,
        wo_has_finalization = mk_has_finalization m\<rparr>]" "mt_marked_objects s = mt_marked_objects (mk_stats m)"
      "mk_has_weak m \<or> mk_has_ephemeron m \<or> mk_has_finalization m"
  | (err) e where "record_weak_owner m r = Ok (marker_fail m e)"
proof (cases "mk_has_weak m \<or> mk_has_ephemeron m \<or> mk_has_finalization m")
  case False
  then show ?thesis using none by (simp add: record_weak_owner_def)
next
  case True
  show ?thesis
  proof (cases rule: bounded_queue_reserve_cases [of INITIAL_WEAK_OWNER_CAPACITY "mk_weak_owners m"])
    case rok: (ok q')
    let ?owner = "\<lparr>wo_reference = r, wo_has_weak = mk_has_weak m, wo_has_ephemeron = mk_has_ephemeron m,
        wo_has_finalization = mk_has_finalization m\<rparr>"
    let ?s = "(mk_stats m)\<lparr>mt_weak_owners := mt_weak_owners (mk_stats m) + 1\<rparr>"
    have "record_weak_owner m r = Ok (m\<lparr>mk_weak_owners := bounded_queue_push q' ?owner, mk_stats := ?s\<rparr>)"
      using True rok(1) by (auto simp: record_weak_owner_def weak_owners_try_push_def)
    then show ?thesis by (rule ok) (use True rok(2) in \<open>simp_all add: bounded_queue_push_def\<close>)
  next
    case (err e)
    then show ?thesis using that(3) [of "WeakOwners e"] True by (auto simp: record_weak_owner_def weak_owners_try_push_def)
  qed
qed

text \<open>Up to the weak owner it records, tracing one grey object only advances the marks.\<close>

lemma drain_one_advances:
  assumes st: "mark_state H S m" and ph: "mk_phase m = Phase_Strong" and obj: "H r = Some (h, p)" and r: "r \<in> S"
    and H: "heap_valid H" "heap_closed H S"
  shows "\<exists>m'. drain_one types m r = Ok m' \<and>
    advances H S (strong_refs p) m (m'\<lparr>mk_weak_owners := mk_weak_owners m\<rparr>) \<and>
    (mk_error m' = None \<longrightarrow> owners m' = owners m @ (if special p then [owner_record r p] else []))"
  using st obj
proof (cases rule: resolve_payload_live [where types = types])
  case (err e)
  have "advances H S (strong_refs p) m (marker_fail m e)"
    using st by (intro advancesI [where xs = "[]"]) (auto simp: marker_fail_def mark_state_def)
  then show ?thesis using err by (simp add: drain_one_def marker_fail_def)
next
  case ok
  let ?m = "m\<lparr>mk_stats := (mk_stats m)\<lparr>mt_traced_objects := mt_traced_objects (mk_stats m) + 1\<rparr>,
    mk_has_weak := False, mk_has_ephemeron := False, mk_has_finalization := False\<rparr>"
  have st0: "mark_state H S ?m" using st by (simp add: mark_state_def)
  have valid: "payload_valid p" using H(1) obj by (auto simp: heap_valid_def)
  obtain m1 where m1: "trace_payload ?m p = Ok (p, m1)" "advances H S (strong_refs p) ?m m1" "flags_after ?m p m1"
    using trace_payload_strong [OF st0 _ heap_closed_strong [OF H(2) r obj] valid] ph by auto
  have adv: "advances H S (strong_refs p) m m1"
    by (rule advances_same(2) [OF _ m1(2) st]) (simp add: same_marking_def)
  let ?m2 = "m1\<lparr>mk_table := write_payload (mk_table m1) r p\<rparr>"
  note w = write_same_payload [OF advances_state [OF adv] obj]
  have adv2: "advances H S (strong_refs p) m ?m2"
    using adv by (rule advancesE) (use w in \<open>intro advancesI; simp\<close>)
  have owners2: "mk_weak_owners ?m2 = mk_weak_owners m" using adv2 by (auto simp: advances_def)
  have one: "drain_one types m r = record_weak_owner ?m2 r" using ok m1(1) by (simp add: drain_one_def)
  show ?thesis
  proof (cases rule: record_weak_owner_cases [of ?m2 r])
    case none
    then have "\<not> special p" using m1(3) by (simp add: flags_after_def special_def)
    moreover have "same_marking ?m2 (?m2\<lparr>mk_weak_owners := mk_weak_owners m\<rparr>)" using owners2 by (simp add: same_marking_def)
    then have "advances H S (strong_refs p) m (?m2\<lparr>mk_weak_owners := mk_weak_owners m\<rparr>)" by (rule advances_same(1) [OF adv2])
    ultimately show ?thesis using one none(1) owners2 by auto
  next
    case (ok q s)
    let ?m3 = "?m2\<lparr>mk_weak_owners := q, mk_stats := s\<rparr>"
    have "same_marking ?m2 (?m3\<lparr>mk_weak_owners := mk_weak_owners m\<rparr>)" using ok(3) owners2 by (simp add: same_marking_def)
    then have "advances H S (strong_refs p) m (?m3\<lparr>mk_weak_owners := mk_weak_owners m\<rparr>)" by (rule advances_same(1) [OF adv2])
    moreover have "special p" "owners ?m3 = owners m @ [owner_record r p]"
      using ok(2,4) m1(3) owners2 by (auto simp: flags_after_def special_def owner_record_def)
    ultimately show ?thesis using one ok(1) by auto
  next
    case (err e)
    have "same_marking ?m2 ((marker_fail ?m2 e)\<lparr>mk_weak_owners := mk_weak_owners m\<rparr>)"
      using owners2 by (simp add: same_marking_def marker_fail_def)
    then have "advances H S (strong_refs p) m ((marker_fail ?m2 e)\<lparr>mk_weak_owners := mk_weak_owners m\<rparr>)"
      by (rule advances_same(1) [OF adv2])
    then show ?thesis using one err by (auto simp: marker_fail_def)
  qed
qed


text \<open>
  The tri-colour invariant: grey references are marked and queued once; every black object has its strong
  edges marked and, when it has weak slots, an entry among the weak owners.
\<close>

definition tri_colour :: "object_heap \<Rightarrow> raw_heap_ref set \<Rightarrow> marker \<Rightarrow> bool" where
  "tri_colour H S m \<longleftrightarrow>
     mark_state H S m \<and> distinct (gray m) \<and> set (gray m) \<subseteq> marked m \<and>
     (\<forall>b \<in> marked m - set (gray m). \<forall>h p. H b = Some (h, p) \<longrightarrow>
        strong_refs p \<subseteq> marked m \<and> (special p \<longrightarrow> owner_record b p \<in> set (owners m))) \<and>
     (\<forall>w \<in> set (owners m). wo_reference w \<in> marked m \<and>
        (\<exists>h p. H (wo_reference w) = Some (h, p) \<and> special p \<and> w = owner_record (wo_reference w) p))"

lemma tri_colourI:
  assumes "mark_state H S m" "distinct (gray m)" "set (gray m) \<subseteq> marked m"
    and "\<And>b h p. b \<in> marked m - set (gray m) \<Longrightarrow> H b = Some (h, p) \<Longrightarrow>
      strong_refs p \<subseteq> marked m \<and> (special p \<longrightarrow> owner_record b p \<in> set (owners m))"
    and "\<And>w. w \<in> set (owners m) \<Longrightarrow>
      wo_reference w \<in> marked m \<and> (\<exists>h p. H (wo_reference w) = Some (h, p) \<and> special p \<and> w = owner_record (wo_reference w) p)"
  shows "tri_colour H S m"
  using assms unfolding tri_colour_def by blast

lemma tri_colour_black:
  "tri_colour H S m \<Longrightarrow> b \<in> marked m - set (gray m) \<Longrightarrow> H b = Some (h, p) \<Longrightarrow>
     strong_refs p \<subseteq> marked m \<and> (special p \<longrightarrow> owner_record b p \<in> set (owners m))"
  unfolding tri_colour_def by blast

lemma tri_colour_owner:
  "tri_colour H S m \<Longrightarrow> w \<in> set (owners m) \<Longrightarrow>
     wo_reference w \<in> marked m \<and> (\<exists>h p. H (wo_reference w) = Some (h, p) \<and> special p \<and> w = owner_record (wo_reference w) p)"
  unfolding tri_colour_def by blast

lemma marked_live: "mark_state H S m \<Longrightarrow> r \<in> marked m \<Longrightarrow> \<exists>h p. H r = Some (h, p)"
  by (auto simp: mark_state_def heap_marked_def)

text \<open>Progress of a marking without error: more marks, counted exactly, and more weak owners.\<close>

definition marks_more :: "object_heap \<Rightarrow> raw_heap_ref set \<Rightarrow> marker \<Rightarrow> marker \<Rightarrow> bool" where
  "marks_more H S m m' \<longleftrightarrow>
     tri_colour H S m' \<and> marked m \<subseteq> marked m' \<and> (\<exists>ys. owners m' = owners m @ ys) \<and>
     mt_marked_objects (mk_stats m') = mt_marked_objects (mk_stats m) + card (marked m' - marked m)"

lemma marks_more_refl: "tri_colour H S m \<Longrightarrow> marks_more H S m m"
  by (simp add: marks_more_def)

lemma card_Diff_chain: "A \<subseteq> B \<Longrightarrow> B \<subseteq> C \<Longrightarrow> card (C - A) = card (B - A) + card (C - B)" for A :: "'a::finite set"
  by (subst card_Un_disjoint [symmetric]) (auto intro: arg_cong [of _ _ card])

lemma marks_more_trans:
  assumes "marks_more H S m m'" and "marks_more H S m' m''"
  shows "marks_more H S m m''"
proof -
  have "marked m \<subseteq> marked m'" "marked m' \<subseteq> marked m''" using assms by (simp_all add: marks_more_def)
  note chain = card_Diff_chain [OF this]
  obtain xs ys where "owners m' = owners m @ xs" "owners m'' = owners m' @ ys" using assms by (auto simp: marks_more_def)
  then have "owners m'' = owners m @ (xs @ ys)" by simp
  moreover have "marked m \<subseteq> marked m''" using assms by (auto simp: marks_more_def)
  ultimately show ?thesis using assms chain unfolding marks_more_def by (simp only: add.assoc) blast
qed

definition same_roles :: "marker \<Rightarrow> marker \<Rightarrow> bool" where
  "same_roles m m' \<longleftrightarrow> mk_epoch m' = mk_epoch m \<and> mk_phase m' = mk_phase m \<and> mk_pending m' = mk_pending m \<and> mk_owner m' = mk_owner m"

definition mark_work :: "marker \<Rightarrow> nat" where
  "mark_work m = card (- marked m) + length (gray m)"

lemma drain_one_tri_colour:
  assumes tri: "tri_colour H S m" and ph: "mk_phase m = Phase_Strong" and g: "gray m = rest @ [r]"
    and H: "heap_valid H" "heap_closed H S"
    and q: "q = (mk_gray m)\<lparr>bq_entries := rest\<rparr>"
  shows "\<exists>m'. drain_one types (m\<lparr>mk_gray := q\<rparr>) r = Ok m' \<and> same_roles m m' \<and> mark_work m' < mark_work m \<and> mark_state H S m' \<and>
    (mk_error m' = None \<longrightarrow> marks_more H S m m')"
proof -
  let ?m = "m\<lparr>mk_gray := q\<rparr>"
  have st: "mark_state H S ?m" and sub: "set (gray m) \<subseteq> marked m" and dis: "distinct (gray m)"
    using tri by (auto simp: tri_colour_def mark_state_def)
  have r: "r \<in> marked m" using sub g by auto
  then obtain h p where obj: "H r = Some (h, p)" using marked_live st by (metis marker.select_convs(1,5) marker.update_convs(2) mark_state_def tri tri_colour_def)
  have rS: "r \<in> S" using r tri by (auto simp: tri_colour_def mark_state_def)
  obtain m' where m': "drain_one types ?m r = Ok m'"
      "advances H S (strong_refs p) ?m (m'\<lparr>mk_weak_owners := mk_weak_owners m\<rparr>)"
      "mk_error m' = None \<longrightarrow> owners m' = owners m @ (if special p then [owner_record r p] else [])"
    using drain_one_advances [OF st _ obj rS H] ph by fastforce
  from m'(2) show ?thesis
  proof (rule advancesE)
    fix xs
    assume a: "mark_state H S (m'\<lparr>mk_weak_owners := mk_weak_owners m\<rparr>)" "marked ?m \<subseteq> marked (m'\<lparr>mk_weak_owners := mk_weak_owners m\<rparr>)"
      "gray (m'\<lparr>mk_weak_owners := mk_weak_owners m\<rparr>) = gray ?m @ xs" "distinct xs"
      "set xs = marked (m'\<lparr>mk_weak_owners := mk_weak_owners m\<rparr>) - marked ?m"
      "mt_marked_objects (mk_stats (m'\<lparr>mk_weak_owners := mk_weak_owners m\<rparr>)) = mt_marked_objects (mk_stats ?m) + length xs"
      "mk_error (m'\<lparr>mk_weak_owners := mk_weak_owners m\<rparr>) = None \<Longrightarrow> strong_refs p \<subseteq> marked (m'\<lparr>mk_weak_owners := mk_weak_owners m\<rparr>)"
      "mk_epoch (m'\<lparr>mk_weak_owners := mk_weak_owners m\<rparr>) = mk_epoch ?m"
      "mk_pending (m'\<lparr>mk_weak_owners := mk_weak_owners m\<rparr>) = mk_pending ?m"
      "mk_phase (m'\<lparr>mk_weak_owners := mk_weak_owners m\<rparr>) = mk_phase ?m" "mk_owner (m'\<lparr>mk_weak_owners := mk_weak_owners m\<rparr>) = mk_owner ?m"
    have mono: "marked m \<subseteq> marked m'" and gray': "gray m' = rest @ xs" and xs: "set xs = marked m' - marked m" "distinct xs"
      and st': "mark_state H S m'" using a(1-5) q by (auto simp: mark_state_def)
    have len: "length xs = card (marked m' - marked m)" using xs distinct_card by fastforce
    have "card (- marked m') + card (marked m' - marked m) = card (- marked m)"
      using mono by (subst card_Un_disjoint [symmetric]) (auto intro: arg_cong [of _ _ card])
    then have work: "mark_work m' < mark_work m" using len gray' g by (simp add: mark_work_def)
    have "tri_colour H S m'" if err: "mk_error m' = None"
    proof -
      have own: "owners m' = owners m @ (if special p then [owner_record r p] else [])" using m'(3) err by blast
      have strong: "strong_refs p \<subseteq> marked m'" using a(7) err by simp
      have "strong_refs p' \<subseteq> marked m' \<and> (special p' \<longrightarrow> owner_record b p' \<in> set (owners m'))"
        if b: "b \<in> marked m' - set (gray m')" "H b = Some (h', p')" for b h' p'
      proof (cases "b = r")
        case True
        then show ?thesis using strong own obj b(2) by auto
      next
        case False
        then have "b \<in> marked m - set (gray m)" using b(1) xs(1) gray' g by auto
        then show ?thesis using tri b(2) mono own unfolding tri_colour_def by fastforce
      qed
      moreover have "wo_reference w \<in> marked m' \<and> (\<exists>h p. H (wo_reference w) = Some (h, p) \<and> special p \<and> w = owner_record (wo_reference w) p)"
        if w: "w \<in> set (owners m')" for w
      proof (cases "w \<in> set (owners m)")
        case True
        then show ?thesis using tri mono unfolding tri_colour_def by blast
      next
        case False
        then have "w = owner_record r p" "special p" using w own by (auto split: if_splits)
        then show ?thesis using r mono obj by (auto simp: owner_record_def)
      qed
      moreover have "distinct (gray m')" "set (gray m') \<subseteq> marked m'" using dis g gray' xs sub mono by auto
      ultimately show ?thesis using st' unfolding tri_colour_def by blast
    qed
    moreover have "same_roles m m'" using a(8-11) by (simp add: same_roles_def)
    ultimately show ?thesis using m'(1,3) a(6) work mono len st' by (auto simp: marks_more_def)
  qed
qed

lemma drain_nothing: "gray m = [] \<Longrightarrow> drain types m = Some (Ok m)"
  by (simp add: drain.simps [of types m] gray_pop_def)

lemma drain_terminates:
  assumes "tri_colour H S m" and "mk_phase m = Phase_Strong" and "heap_valid H" "heap_closed H S"
  shows "\<exists>m'. drain types m = Some (Ok m') \<and> same_roles m m' \<and> mark_state H S m' \<and>
    (mk_error m' = None \<longrightarrow> marks_more H S m m' \<and> gray m' = [] \<and> mk_error m = None)"
  using assms
proof (induction "mark_work m" arbitrary: m rule: less_induct)
  case less
  note step = drain.simps [of types m]
  show ?case
  proof (cases "mk_error m = None \<and> gray m \<noteq> []")
    case False
    then have "drain types m = Some (Ok m)" unfolding step by (auto simp: gray_pop_def)
    then show ?thesis using marks_more_refl [OF less.prems(1)] False less.prems(1) by (auto simp: same_roles_def tri_colour_def)
  next
    case True
    then obtain rest r where g: "gray m = rest @ [r]" by (metis rev_exhaust)
    let ?q = "(mk_gray m)\<lparr>bq_entries := rest\<rparr>"
    obtain m1 where m1: "drain_one types (m\<lparr>mk_gray := ?q\<rparr>) r = Ok m1" "same_roles m m1" "mark_work m1 < mark_work m"
        "mark_state H S m1" "mk_error m1 = None \<longrightarrow> marks_more H S m m1"
      using drain_one_tri_colour [where types = types, OF less.prems(1,2) g less.prems(3,4) refl] by (elim exE conjE) (rule that)
    have "gray_pop (mk_gray m) = (Some r, ?q)" using g by (simp add: gray_pop_def)
    then have d: "drain types m = drain types m1" using True m1(1) by (simp only: step) simp
    show ?thesis
    proof (cases "mk_error m1 = None")
      case False
      then have "drain types m1 = Some (Ok m1)" by (simp add: drain.simps [of types m1])
      then show ?thesis using d m1(2,4) False by auto
    next
      case ok: True
      then have more: "marks_more H S m m1" using m1(5) by blast
      then have tri1: "tri_colour H S m1" by (simp add: marks_more_def)
      have ph1: "mk_phase m1 = Phase_Strong" using m1(2) less.prems(2) by (simp add: same_roles_def)
      obtain m2 where m2: "drain types m1 = Some (Ok m2)" "same_roles m1 m2" "mark_state H S m2"
          "mk_error m2 = None \<longrightarrow> marks_more H S m1 m2 \<and> gray m2 = [] \<and> mk_error m1 = None"
        using less.hyps [OF m1(3) tri1 ph1 less.prems(3,4)] by (elim exE conjE) (rule that)
      have "same_roles m m2" using m1(2) m2(2) by (simp add: same_roles_def)
      then show ?thesis using d m2(1,3,4) True marks_more_trans [OF more] by auto
    qed
  qed
qed

section \<open>Roots\<close>

lemma tri_colour_advances:
  assumes tri: "tri_colour H S m" and adv: "advances H S L m m'"
  shows "tri_colour H S m'" "marks_more H S m m'"
proof -
  show tri': "tri_colour H S m'"
    using adv
  proof (rule advancesE)
    fix xs
    assume a: "mark_state H S m'" "marked m \<subseteq> marked m'" "gray m' = gray m @ xs" "distinct xs"
      "set xs = marked m' - marked m" "mk_weak_owners m' = mk_weak_owners m"
    have sub: "set (gray m) \<subseteq> marked m" "distinct (gray m)" using tri by (auto simp: tri_colour_def)
    have gray': "distinct (gray m')" "set (gray m') \<subseteq> marked m'" using a sub by auto
    have old: "b \<in> marked m - set (gray m)" if "b \<in> marked m' - set (gray m')" for b using that a(3,5) by auto
    show ?thesis
    proof (rule tri_colourI [OF a(1) gray'])
      fix b h p assume b: "b \<in> marked m' - set (gray m')" "H b = Some (h, p)"
      show "strong_refs p \<subseteq> marked m' \<and> (special p \<longrightarrow> owner_record b p \<in> set (owners m'))"
        using tri_colour_black [OF tri old [OF b(1)] b(2)] a(2) by (simp add: a(6)) blast
    next
      fix w assume "w \<in> set (owners m')"
      then show "wo_reference w \<in> marked m' \<and> (\<exists>h p. H (wo_reference w) = Some (h, p) \<and> special p \<and> w = owner_record (wo_reference w) p)"
        using tri_colour_owner [OF tri, of w] a(2) unfolding a(6) by blast
    qed
  qed
  show "marks_more H S m m'"
    using adv
  proof (rule advancesE)
    fix xs assume "marked m \<subseteq> marked m'" "distinct xs" "set xs = marked m' - marked m" "mk_weak_owners m' = mk_weak_owners m"
      "mt_marked_objects (mk_stats m') = mt_marked_objects (mk_stats m) + length xs"
    then show ?thesis using tri' distinct_card by (fastforce simp: marks_more_def)
  qed
qed

definition pending_valid :: "pending_finalizations \<Rightarrow> bool" where
  "pending_valid q \<longleftrightarrow> (\<forall>x \<in> set (bq_entries q). valid_ref (pf_owner x))"

definition record_refs :: "pending_finalization \<Rightarrow> raw_heap_ref set" where
  "record_refs x = insert (pf_owner x) (value_refs (pf_held_value x))"

lemma mark_pending_loop_advances:
  assumes "mark_state H S m" and "pending_valid (mk_pending m)" and "pending_refs (mk_pending m) \<subseteq> S"
    and "\<forall>i \<in> set is. i < length (bq_entries (mk_pending m))"
  shows "\<exists>m'. mark_pending_loop m is = Ok m' \<and> advances H S (\<Union>i \<in> set is. record_refs (bq_entries (mk_pending m) ! i)) m m'"
  using assms
proof (induction "is" arbitrary: m)
  case Nil
  then show ?case using advances_refl by simp
next
  case (Cons i "is")
  let ?x = "bq_entries (mk_pending m) ! i"
  have i: "i < length (bq_entries (mk_pending m))" using Cons.prems(4) by simp
  then have mem: "?x \<in> set (bq_entries (mk_pending m))" by simp
  then have refs: "record_refs ?x \<subseteq> S" and valid: "valid_ref (pf_owner ?x)"
    using Cons.prems(2,3) by (auto simp: pending_refs_def record_refs_def pending_valid_def)
  obtain m1 where m1: "marker_enqueue m (pf_owner ?x) = Ok m1" "advances H S {pf_owner ?x} m m1"
    using marker_enqueue_advances [OF Cons.prems(1) valid] refs by (auto simp: record_refs_def)
  have st1: "mark_state H S m1" by (rule advances_state [OF m1(2)])
  obtain m2 where m2: "enqueue_value m1 (pf_held_value ?x) = Ok m2" "advances H S (value_refs (pf_held_value ?x)) m1 m2"
    using enqueue_value_advances [OF st1, of "pf_held_value ?x"] refs by (auto simp: record_refs_def)
  have st2: "mark_state H S m2" by (rule advances_state [OF m2(2)])
  have pend: "mk_pending m2 = mk_pending m" using m1(2) m2(2) by (simp add: advances_def)
  obtain m3 where m3: "mark_pending_loop m2 is = Ok m3"
      "advances H S (\<Union>i \<in> set is. record_refs (bq_entries (mk_pending m) ! i)) m2 m3"
    using Cons.IH [OF st2] Cons.prems(2-4) pend by auto
  have "advances H S (\<Union>i \<in> set (i # is). record_refs (bq_entries (mk_pending m) ! i)) m m3"
    using advances_trans [OF advances_trans [OF m1(2) m2(2)] m3(2)] by (rule advances_weaken) (auto simp: record_refs_def)
  then show ?case using m1(1) m2(1) m3(1) i by (auto simp: get_def)
qed

lemma mark_roots:
  assumes inv: "table_inv t" and H: "heap_objects t = H" and fresh: "heap_marked t e = {}"
    and roots: "payload_valid roots" "pending_valid pending" and S: "strong_refs roots \<union> pending_refs pending \<subseteq> S"
    and m0: "m0 = marker_new t (bounded_queue_clear gq) (bounded_queue_clear wq) pending e"
  shows "\<exists>m. and_then (trace_payload m0 roots) (\<lambda>(_, m). mark_pending_finalization_roots m) = Ok m \<and>
    tri_colour H S m \<and> mk_phase m = Phase_Strong \<and> mk_owner m = None \<and> mk_epoch m = e \<and> mk_pending m = pending \<and>
    (mk_error m = None \<longrightarrow> strong_refs roots \<union> pending_refs pending \<subseteq> marked m)"
proof -
  have st: "mark_state H S m0" and init: "marked m0 = {}" "gray m0 = []" "owners m0 = []" "mk_phase m0 = Phase_Strong"
      "mk_pending m0 = pending" "mk_owner m0 = None" "mk_epoch m0 = e"
    using inv H fresh by (auto simp: m0 marker_new_def mark_state_def bounded_queue_clear_def)
  have tri0: "tri_colour H S m0" using st init by (simp add: tri_colour_def)
  obtain m1 where m1: "trace_payload m0 roots = Ok (roots, m1)" "advances H S (strong_refs roots) m0 m1"
    using trace_payload_strong [OF st init(4) _ roots(1)] S by blast
  have pend1: "mk_pending m1 = pending" using m1(2) init(5) by (simp add: advances_def)
  have all: "(\<Union>i \<in> set [0..<length (bq_entries pending)]. record_refs (bq_entries pending ! i)) = pending_refs pending"
    by (auto simp: pending_refs_def record_refs_def set_conv_nth)
  obtain m2 where m2: "mark_pending_finalization_roots m1 = Ok m2" "advances H S (pending_refs pending) m1 m2"
    using mark_pending_loop_advances [OF advances_state [OF m1(2)], of "[0..<length (bq_entries pending)]"] roots(2) S
    unfolding mark_pending_finalization_roots_def pend1 all by auto
  have adv: "advances H S (strong_refs roots \<union> pending_refs pending) m0 m2" by (rule advances_trans [OF m1(2) m2(2)])
  then show ?thesis using m1(1) m2(1) tri_colour_advances(1) [OF tri0 adv] init by (auto simp: advances_def)
qed


section \<open>Closure of ephemerons\<close>

lemma trace_weak_owner_ephemeron:
  assumes st: "mark_state H S m" and ph: "mk_phase m = Phase_Ephemeron" and owner: "mk_owner m = None"
    and obj: "H r = Some (h, p)" and r: "r \<in> S" and H: "heap_valid H" "heap_closed H S"
  shows "\<exists>m'. trace_weak_owner types m r = Ok m' \<and> advances H S (awakened (marked m) p) m m'"
  using st obj
proof (cases rule: resolve_payload_live [where types = types])
  case (err e)
  have "advances H S (awakened (marked m) p) m (marker_fail m e)"
    using st by (intro advancesI [where xs = "[]"]) (auto simp: marker_fail_def mark_state_def)
  then show ?thesis using err by (simp add: trace_weak_owner_def)
next
  case ok
  let ?m = "m\<lparr>mk_owner := Some r\<rparr>"
  have st0: "mark_state H S ?m" using st by (simp add: mark_state_def)
  have valid: "payload_valid p" "\<forall>item \<in> set p. closed_item S item" using H obj r by (auto simp: heap_valid_def heap_closed_def)
  obtain m1 where m1: "trace_payload ?m p = Ok (p, m1)" "advances H S (awakened (marked m) p) ?m m1"
    using trace_payload_ephemeron [OF st0 _ valid(2,1)] ph by auto
  let ?m2 = "m1\<lparr>mk_table := write_payload (mk_table m1) r p, mk_owner := None\<rparr>"
  note w = write_same_payload [OF advances_state [OF m1(2)] obj]
  have "mark_state H S ?m2" using w(1) by (simp add: mark_state_def)
  then have "advances H S (awakened (marked m) p) m ?m2"
    using m1(2) by (elim advancesE) (use w(2) owner in \<open>intro advancesI; simp\<close>)
  then show ?thesis using ok m1(1) by (simp add: trace_weak_owner_def)
qed

text \<open>The values woken by the payload of one weak owner.\<close>

definition owner_awakened :: "object_heap \<Rightarrow> raw_heap_ref set \<Rightarrow> weak_owner \<Rightarrow> raw_heap_ref set" where
  "owner_awakened H M w = (case H (wo_reference w) of None \<Rightarrow> {} | Some (h, p) \<Rightarrow> awakened M p)"

lemma awakened_mono: "M \<subseteq> M' \<Longrightarrow> owner_awakened H M w \<subseteq> owner_awakened H M' w"
  by (auto simp: owner_awakened_def awakened_def split: option.splits)

lemma no_ephemeron_awakened:
  assumes "\<not> list_ex ephemeron_slot p"
  shows "awakened M p = {}"
proof -
  have "item_ephemeron item = {}" if "item \<in> set p" for item using assms that by (cases item) (auto simp: list_ex_iff)
  then show ?thesis by (simp add: awakened_def ephemeron_edges_def)
qed

definition owner_ok :: "object_heap \<Rightarrow> raw_heap_ref set \<Rightarrow> weak_owner \<Rightarrow> bool" where
  "owner_ok H S w \<longleftrightarrow> wo_reference w \<in> S \<and> (\<exists>h p. H (wo_reference w) = Some (h, p) \<and> special p \<and> w = owner_record (wo_reference w) p)"

lemma owner_ok_quiet: "owner_ok H S w \<Longrightarrow> \<not> wo_has_ephemeron w \<Longrightarrow> owner_awakened H M w = {}"
proof -
  assume ok: "owner_ok H S w" and quiet: "\<not> wo_has_ephemeron w"
  then obtain h p where hp: "H (wo_reference w) = Some (h, p)" and w: "w = owner_record (wo_reference w) p" by (auto simp: owner_ok_def)
  have "wo_has_ephemeron w = list_ex ephemeron_slot p" by (subst w) (simp add: owner_record_def)
  then show ?thesis using hp quiet no_ephemeron_awakened by (simp add: owner_awakened_def)
qed

lemma ephemeron_loop_advances:
  assumes "mark_state H S m" and "mk_phase m = Phase_Ephemeron" and "mk_owner m = None"
    and "heap_valid H" "heap_closed H S" and "\<forall>w \<in> set (owners m). owner_ok H S w" and "\<forall>i \<in> set is. i < length (owners m)"
  shows "\<exists>m'. ephemeron_loop types m is found = Ok (found \<or> (\<exists>i \<in> set is. wo_has_ephemeron (owners m ! i)), m') \<and>
    advances H S (\<Union>i \<in> set is. owner_awakened H (marked m) (owners m ! i)) m m' \<and>
    ((\<exists>i \<in> set is. wo_has_ephemeron (owners m ! i)) \<or> m' = m)"
  using assms
proof (induction "is" arbitrary: m found)
  case Nil
  then show ?case using advances_refl by simp
next
  case (Cons i "is")
  let ?w = "owners m ! i"
  have i: "i < length (owners m)" and "is": "\<forall>i \<in> set is. i < length (owners m)" using Cons.prems(7) by auto
  have w: "owner_ok H S ?w" using Cons.prems(6) i by simp
  show ?case
  proof (cases "wo_has_ephemeron ?w")
    case False
    obtain m' where "ephemeron_loop types m is found = Ok (found \<or> (\<exists>i \<in> set is. wo_has_ephemeron (owners m ! i)), m')"
        "advances H S (\<Union>i \<in> set is. owner_awakened H (marked m) (owners m ! i)) m m'"
        "(\<exists>i \<in> set is. wo_has_ephemeron (owners m ! i)) \<or> m' = m"
      using Cons.IH [OF Cons.prems(1-6) "is", of found] by (elim exE conjE) (rule that)
    then show ?thesis using False i owner_ok_quiet [OF w] by (auto simp: get_def)
  next
    case True
    obtain h p where hp: "H (wo_reference ?w) = Some (h, p)" "wo_reference ?w \<in> S" using w by (auto simp: owner_ok_def)
    obtain m1 where m1: "trace_weak_owner types m (wo_reference ?w) = Ok m1" "advances H S (awakened (marked m) p) m m1"
      using trace_weak_owner_ephemeron [where types = types, OF Cons.prems(1-3) hp Cons.prems(4,5)] by (elim exE conjE) (rule that)
    have keep: "mark_state H S m1" "mk_phase m1 = Phase_Ephemeron" "mk_owner m1 = None" "marked m \<subseteq> marked m1" "owners m1 = owners m"
      using m1(2) Cons.prems(2,3) by (auto simp: advances_def)
    have prems: "\<forall>w \<in> set (owners m1). owner_ok H S w" "\<forall>i \<in> set is. i < length (owners m1)" using keep(5) Cons.prems(6) "is" by simp_all
    obtain m2 where m2: "ephemeron_loop types m1 is True = Ok (True, m2)"
        "advances H S (\<Union>i \<in> set is. owner_awakened H (marked m1) (owners m1 ! i)) m1 m2"
      using Cons.IH [OF keep(1-3) Cons.prems(4,5) prems, of True] by auto
    have "(\<Union>i \<in> set (i # is). owner_awakened H (marked m) (owners m ! i)) \<subseteq>
        awakened (marked m) p \<union> (\<Union>i \<in> set is. owner_awakened H (marked m1) (owners m1 ! i))"
      using awakened_mono [OF keep(4)] hp(1) keep(5) by (fastforce simp: owner_awakened_def)
    then have "advances H S (\<Union>i \<in> set (i # is). owner_awakened H (marked m) (owners m ! i)) m m2"
      by (rule advances_weaken [OF advances_trans [OF m1(2) m2(2)]])
    then show ?thesis using True i m1(1) m2(1) by (auto simp: get_def)
  qed
qed

text \<open>No marked owner holds an unmarked value under a marked key.\<close>

definition ephemeron_closed :: "object_heap \<Rightarrow> marker \<Rightarrow> bool" where
  "ephemeron_closed H m \<longleftrightarrow> (\<forall>w \<in> set (owners m). owner_awakened H (marked m) w \<subseteq> marked m)"

lemma tri_colour_same:
  "tri_colour H S m \<Longrightarrow> mk_table m' = mk_table m \<Longrightarrow> mk_epoch m' = mk_epoch m \<Longrightarrow> mk_gray m' = mk_gray m \<Longrightarrow>
   mk_weak_owners m' = mk_weak_owners m \<Longrightarrow> tri_colour H S m'"
  by (simp add: tri_colour_def mark_state_def)

lemma tri_colour_owner_ok: "tri_colour H S m \<Longrightarrow> w \<in> set (owners m) \<Longrightarrow> owner_ok H S w"
  using tri_colour_owner unfolding owner_ok_def tri_colour_def mark_state_def by blast

text \<open>The marks a closure keeps and the fields it leaves alone.\<close>

definition closes :: "object_heap \<Rightarrow> raw_heap_ref set \<Rightarrow> marker \<Rightarrow> marker \<Rightarrow> bool" where
  "closes H S m m' \<longleftrightarrow> tri_colour H S m' \<and> gray m' = [] \<and> marked m \<subseteq> marked m' \<and> ephemeron_closed H m'"

definition same_context :: "marker \<Rightarrow> marker \<Rightarrow> bool" where
  "same_context m m' \<longleftrightarrow> mk_epoch m' = mk_epoch m \<and> mk_pending m' = mk_pending m \<and> mk_owner m' = mk_owner m"


text \<open>One round of the loop: either nothing is left to wake, or the marks grow.\<close>

lemma ephemeron_round:
  assumes tri: "tri_colour H S m" and g: "gray m = []" and err: "mk_error m = None" and owner: "mk_owner m = None"
    and H: "heap_valid H" "heap_closed H S"
  obtains (quiet) m1 where "ephemeron_loop types (m\<lparr>mk_phase := Phase_Ephemeron\<rparr>) [0..<length (owners m)] False = Ok (False, m1)"
      "mk_error m1 = None" "closes H S m m1" "same_context m m1"
  | (fail) b m1 where "ephemeron_loop types (m\<lparr>mk_phase := Phase_Ephemeron\<rparr>) [0..<length (owners m)] False = Ok (b, m1)"
      "mk_error m1 \<noteq> None" "same_context m m1" "mark_state H S m1"
  | (round) m1 m2 where "ephemeron_loop types (m\<lparr>mk_phase := Phase_Ephemeron\<rparr>) [0..<length (owners m)] False = Ok (True, m1)"
      "mk_error m1 = None" "drain types (m1\<lparr>mk_stats := (mk_stats m1)\<lparr>mt_ephemeron_passes := mt_ephemeron_passes (mk_stats m1) + 1\<rparr>,
        mk_phase := Phase_Strong\<rparr>) = Some (Ok m2)" "same_context m m2" "mk_phase m2 = Phase_Strong" "mark_state H S m2"
      "mk_error m2 = None \<Longrightarrow> tri_colour H S m2 \<and> gray m2 = [] \<and> marked m \<subseteq> marked m2 \<and>
        (if mt_marked_objects (mk_stats m2) = mt_marked_objects (mk_stats m) \<and> length (owners m2) = length (owners m)
         then ephemeron_closed H m2 else marked m \<subset> marked m2)"
proof -
  let ?m = "m\<lparr>mk_phase := Phase_Ephemeron\<rparr>"
  let ?is = "[0..<length (owners m)]"
  let ?L = "\<Union>i \<in> set ?is. owner_awakened H (marked m) (owners m ! i)"
  have st: "mark_state H S ?m" using tri by (simp add: tri_colour_def mark_state_def)
  have own: "\<forall>w \<in> set (owners ?m). owner_ok H S w" using tri_colour_owner_ok [OF tri] by simp
  obtain m1 where m1: "ephemeron_loop types ?m ?is False = Ok (\<exists>i \<in> set ?is. wo_has_ephemeron (owners m ! i), m1)"
      "advances H S ?L ?m m1" "(\<exists>i \<in> set ?is. wo_has_ephemeron (owners m ! i)) \<or> m1 = ?m"
    using ephemeron_loop_advances [where types = types, OF st _ _ H own, of ?is False] owner by auto
  have keep: "same_context m m1" "owners m1 = owners m" "marked m \<subseteq> marked m1" using m1(2) by (auto simp: advances_def same_context_def)
  show thesis
  proof (cases "\<exists>i \<in> set ?is. wo_has_ephemeron (owners m ! i)")
    case False
    have "owner_awakened H (marked m) w = {}" if "w \<in> set (owners m)" for w
      using False that own owner_ok_quiet [of H S w] by (auto simp: in_set_conv_nth)
    then have "ephemeron_closed H m1" using False m1(3) by (auto simp: ephemeron_closed_def)
    moreover have "tri_colour H S m1" using False m1(3) by (intro tri_colour_same [OF tri]) auto
    ultimately have "closes H S m m1" using False m1(3) g by (auto simp: closes_def)
    then show ?thesis using quiet [of m1] False m1(1,3) keep(1) err by auto
  next
    case True
    then have loop: "ephemeron_loop types ?m ?is False = Ok (True, m1)" using m1(1) by auto
    show ?thesis
    proof (cases "mk_error m1 = None")
      case False
      then show ?thesis using fail [OF loop _ keep(1) advances_state [OF m1(2)]] by simp
    next
      case ok: True
      let ?m1 = "m1\<lparr>mk_stats := (mk_stats m1)\<lparr>mt_ephemeron_passes := mt_ephemeron_passes (mk_stats m1) + 1\<rparr>, mk_phase := Phase_Strong\<rparr>"
      have "tri_colour H S ?m" by (rule tri_colour_same [OF tri]) simp_all
      then have more1: "marks_more H S ?m m1" and tri1: "tri_colour H S m1" using tri_colour_advances m1(2) by blast+
      have tri1': "tri_colour H S ?m1" by (rule tri_colour_same [OF tri1]) simp_all
      obtain m2 where m2: "drain types ?m1 = Some (Ok m2)" "same_roles ?m1 m2" "mark_state H S m2"
          "mk_error m2 = None \<longrightarrow> marks_more H S ?m1 m2 \<and> gray m2 = [] \<and> mk_error ?m1 = None"
        using drain_terminates [where types = types, OF tri1' _ H] by (elim meta_impE exE conjE) (simp, rule that)
      have ctx: "same_context m m2" "mk_phase m2 = Phase_Strong" using keep(1) m2(2) by (auto simp: same_context_def same_roles_def)
      have "tri_colour H S m2 \<and> gray m2 = [] \<and> marked m \<subseteq> marked m2 \<and>
        (if mt_marked_objects (mk_stats m2) = mt_marked_objects (mk_stats m) \<and> length (owners m2) = length (owners m)
         then ephemeron_closed H m2 else marked m \<subset> marked m2)" if "mk_error m2 = None"
      proof -
        have more2: "marks_more H S ?m1 m2" and g2: "gray m2 = []" using m2(4) that by blast+
        have "marks_more H S m ?m1" using more1 tri1' unfolding marks_more_def by simp
        then have more: "marks_more H S m m2" using marks_more_trans more2 by blast
        obtain ys where ys: "owners m2 = owners m @ ys" using more unfolding marks_more_def by blast
        have "?L \<subseteq> marked m1" "marked m1 \<subseteq> marked m2" using m1(2) ok more2 by (auto simp: marks_more_def elim: advancesE)
        then have L: "?L \<subseteq> marked m2" by (rule order_trans)
        show ?thesis
        proof (cases "marked m = marked m2")
          case True
          then have same1: "marked m1 = marked m" using keep(3) more2 unfolding marks_more_def by simp
          then have "gray m1 = []" using m1(2) g by (elim advancesE) simp
          then have "m2 = ?m1" using m2(1) ok drain_nothing [of ?m1 types] by simp
          then have "owners m2 = owners m" using keep(2) by simp
          moreover have "owner_awakened H (marked m) w \<subseteq> ?L" if "w \<in> set (owners m)" for w
            using that by (auto simp: in_set_conv_nth)
          ultimately have "ephemeron_closed H m2" using L True unfolding ephemeron_closed_def by simp blast
          moreover have "mt_marked_objects (mk_stats m2) = mt_marked_objects (mk_stats m)" using more True by (simp add: marks_more_def)
          ultimately show ?thesis using g2 more True \<open>owners m2 = owners m\<close> by (simp add: marks_more_def)
        next
          case False
          then have grow: "marked m \<subset> marked m2" using more unfolding marks_more_def by blast
          then have "card (marked m2 - marked m) \<noteq> 0" by auto
          then have "mt_marked_objects (mk_stats m2) \<noteq> mt_marked_objects (mk_stats m)" using more by (simp add: marks_more_def)
          then show ?thesis using g2 more grow by (simp add: marks_more_def)
        qed
      qed
      then show ?thesis by (rule round [OF loop ok m2(1) ctx m2(3)])
    qed
  qed
qed

lemma ephemeron_closure_terminates:
  assumes "tri_colour H S m" and "gray m = []" and "mk_owner m = None" and "heap_valid H" "heap_closed H S"
  shows "\<exists>m'. ephemeron_closure types m = Some (Ok m') \<and> same_context m m' \<and> mark_state H S m' \<and>
    (mk_error m' = None \<longrightarrow> closes H S m m' \<and> mk_error m = None)"
  using assms
proof (induction "card (- marked m)" arbitrary: m rule: less_induct)
  case less
  note step = ephemeron_closure.simps [of types m]
  show ?case
  proof (cases "mk_error m = None")
    case False
    then have "ephemeron_closure types m = Some (Ok m)" by (simp add: step)
    then show ?thesis using False less.prems(1) by (auto simp: same_context_def tri_colour_def)
  next
    case True
    from less.prems(1,2) True less.prems(3-) show ?thesis
    proof (cases rule: ephemeron_round [where types = types])
      case (quiet m1)
      then have "ephemeron_closure types m = Some (Ok m1)" by (simp add: step True Let_def)
      then show ?thesis using quiet True by (simp add: closes_def tri_colour_def)
    next
      case (fail b m1)
      then have "ephemeron_closure types m = Some (Ok m1)" by (simp add: step True Let_def)
      then show ?thesis using fail by auto
    next
      case (round m1 m2)
      have st: "ephemeron_closure types m =
          (if mt_marked_objects (mk_stats m2) = mt_marked_objects (mk_stats m) \<and> length (owners m2) = length (owners m)
           then Some (Ok m2) else ephemeron_closure types m2)" using round(1-3) by (simp add: step True Let_def)
      show ?thesis
      proof (cases "mk_error m2 = None")
        case False
        then have "ephemeron_closure types m = Some (Ok m2)" by (simp add: st ephemeron_closure.simps [of types m2])
        then show ?thesis using False round(4,6) by auto
      next
        case ok: True
        note r = round(7) [OF ok]
        show ?thesis
        proof (cases "mt_marked_objects (mk_stats m2) = mt_marked_objects (mk_stats m) \<and> length (owners m2) = length (owners m)")
          case same: True
          then have "closes H S m m2" using r by (simp add: closes_def)
          then show ?thesis using st same round(4,6) True by auto
        next
          case False
          then have "marked m \<subset> marked m2" using r by argo
          then have less2: "card (- marked m2) < card (- marked m)" by (intro psubset_card_mono) auto
          have pre: "tri_colour H S m2" "gray m2 = []" "mk_owner m2 = None"
            using r round(4) less.prems(3) by (auto simp: same_context_def)
          obtain m3 where "ephemeron_closure types m2 = Some (Ok m3)" "same_context m2 m3" "mark_state H S m3"
              "mk_error m3 = None \<longrightarrow> closes H S m2 m3 \<and> mk_error m2 = None"
            using less.hyps [OF less2 pre less.prems(4,5)] by (elim exE conjE) (rule that)
          then show ?thesis using st False True round(4) r by (auto simp: same_context_def closes_def)
        qed
      qed
    qed
  qed
qed


section \<open>Clearing weak slots and queueing finalizations\<close>

text \<open>What the two last phases make of a slot, with \<open>M\<close> the marked objects.\<close>

primrec clear_item :: "raw_heap_ref set \<Rightarrow> trace_item \<Rightarrow> trace_item" where
  "clear_item M (Trace_Value v) = Trace_Value v"
| "clear_item M (Trace_Raw r) = Trace_Raw r"
| "clear_item M (Trace_Weak reference) = Trace_Weak (if set_option reference \<subseteq> M then reference else None)"
| "clear_item M (Trace_Ephemeron key v) =
     (if key \<noteq> None \<and> set_option key \<subseteq> M then Trace_Ephemeron key v else Trace_Ephemeron None undefined_value)"
| "clear_item M (Trace_Finalization target held) = Trace_Finalization target held"

primrec finalize_item :: "raw_heap_ref set \<Rightarrow> trace_item \<Rightarrow> trace_item" where
  "finalize_item M (Trace_Value v) = Trace_Value v"
| "finalize_item M (Trace_Raw r) = Trace_Raw r"
| "finalize_item M (Trace_Weak reference) = Trace_Weak reference"
| "finalize_item M (Trace_Ephemeron key v) = Trace_Ephemeron key v"
| "finalize_item M (Trace_Finalization target held) =
     (if set_option target \<subseteq> M then Trace_Finalization target held else Trace_Finalization None undefined_value)"

primrec item_finalizations :: "raw_heap_ref set \<Rightarrow> trace_item \<Rightarrow> js_value list" where
  "item_finalizations M (Trace_Value v) = []"
| "item_finalizations M (Trace_Raw r) = []"
| "item_finalizations M (Trace_Weak reference) = []"
| "item_finalizations M (Trace_Ephemeron key v) = []"
| "item_finalizations M (Trace_Finalization target held) = (if set_option target \<subseteq> M then [] else [held])"

definition phase_item :: "trace_phase \<Rightarrow> raw_heap_ref set \<Rightarrow> trace_item \<Rightarrow> trace_item" where
  "phase_item ph = (if ph = Phase_ClearWeak then clear_item else finalize_item)"

definition phase_records :: "trace_phase \<Rightarrow> raw_heap_ref set \<Rightarrow> raw_heap_ref \<Rightarrow> payload \<Rightarrow> pending_finalization list" where
  "phase_records ph M owner p =
     (if ph = Phase_ClearWeak then []
      else map (\<lambda>held. \<lparr>pf_owner = owner, pf_held_value = held\<rparr>) (concat (map (item_finalizations M) p)))"

text \<open>A callback of these phases changes neither the table nor the roles of the marker.\<close>

definition settles :: "trace_phase \<Rightarrow> raw_heap_ref \<Rightarrow> marker \<Rightarrow> payload \<Rightarrow> payload \<Rightarrow> marker \<Rightarrow> bool" where
  "settles ph r m p p' m' \<longleftrightarrow>
     mk_table m' = mk_table m \<and> mk_epoch m' = mk_epoch m \<and> mk_weak_owners m' = mk_weak_owners m \<and> mk_gray m' = mk_gray m \<and>
     mk_phase m' = mk_phase m \<and> mk_owner m' = mk_owner m \<and>
     (payload_valid p \<longrightarrow> payload_valid p') \<and>
     (mk_error m' = None \<longrightarrow> mk_error m = None \<and> p' = map (phase_item ph (marked m)) p \<and>
        bq_entries (mk_pending m') = bq_entries (mk_pending m) @ phase_records ph (marked m) r p)"

lemma settles_trans:
  assumes "settles ph r m p p' m'" and "settles ph r m' q q' m''"
  shows "settles ph r m (p @ q) (p' @ q') m''"
  using assms by (auto simp: settles_def phase_records_def payload_valid_def)

lemma undefined_no_ref [simp]: "as_heap_ref undefined_value = None"
  by code_simp

lemma trace_slot_clear:
  assumes st: "mark_state H S m" and ph: "mk_phase m = Phase_ClearWeak" and valid: "\<forall>r \<in> item_weak item. valid_ref r"
  shows "\<exists>item' m'. trace_slot m item = Ok (item', m') \<and> settles Phase_ClearWeak r m [item] [item'] m'"
proof (cases item)
  case (Trace_Weak reference)
  show ?thesis
  proof (cases reference)
    case None
    then show ?thesis using Trace_Weak ph
      by (simp add: trace_slot_def trace_weak_raw_heap_ref_def settles_def phase_item_def phase_records_def)
  next
    case (Some target)
    then have "valid_ref target" using valid Trace_Weak by simp
    with st show ?thesis
      by (cases rule: reference_live_eq)
        (use Trace_Weak Some ph in \<open>auto simp: trace_slot_def trace_weak_raw_heap_ref_def settles_def phase_item_def phase_records_def
          marker_fail_def payload_valid_def\<close>)
  qed
next
  case (Trace_Ephemeron key v)
  show ?thesis
  proof (cases key)
    case None
    then show ?thesis using Trace_Ephemeron ph
      by (auto simp: trace_slot_def trace_ephemeron_def key_live_def settles_def phase_item_def phase_records_def payload_valid_def)
  next
    case (Some k)
    then have "valid_ref k" using valid Trace_Ephemeron by simp
    with st show ?thesis
      by (cases rule: reference_live_eq)
        (use Trace_Ephemeron Some ph in \<open>auto simp: trace_slot_def trace_ephemeron_def key_live_def settles_def phase_item_def
          phase_records_def marker_fail_def payload_valid_def\<close>)
  qed
qed (use ph in \<open>simp_all add: trace_slot_def trace_value_def trace_raw_heap_ref_def trace_finalization_def settles_def phase_item_def
  phase_records_def\<close>)

lemma trace_slot_finalize:
  assumes st: "mark_state H S m" and ph: "mk_phase m = Phase_EnqueueFinalization" and valid: "\<forall>r \<in> item_weak item. valid_ref r"
    and owner: "mk_owner m = Some r"
  shows "\<exists>item' m'. trace_slot m item = Ok (item', m') \<and> settles Phase_EnqueueFinalization r m [item] [item'] m'"
proof (cases item)
  case (Trace_Finalization target held)
  show ?thesis
  proof (cases target)
    case None
    then show ?thesis using Trace_Finalization ph
      by (simp add: trace_slot_def trace_finalization_def settles_def phase_item_def phase_records_def)
  next
    case (Some k)
    then have "valid_ref k" using valid Trace_Finalization by simp
    with st show ?thesis
    proof (cases rule: reference_live_eq)
      case (dead e)
      then show ?thesis using Trace_Finalization Some ph
        by (simp add: trace_slot_def trace_finalization_def settles_def marker_fail_def)
    next
      case live
      show ?thesis
      proof (cases "mk_error m \<noteq> None \<or> k \<in> marked m")
        case True
        then show ?thesis using live Trace_Finalization Some ph
          by (auto simp: trace_slot_def trace_finalization_def settles_def phase_item_def phase_records_def)
      next
        case False
        show ?thesis
          by (cases rule: bounded_queue_reserve_cases [of INITIAL_FINALIZATION_QUEUE_CAPACITY "mk_pending m"])
            (use False live Trace_Finalization Some ph owner in \<open>auto simp: trace_slot_def trace_finalization_def settles_def
              phase_item_def phase_records_def pending_try_enqueue_def bounded_queue_push_def marker_fail_def payload_valid_def
              value_refs_def expect_def\<close>)
      qed
    qed
  qed
qed (use ph in \<open>simp_all add: trace_slot_def trace_value_def trace_raw_heap_ref_def trace_weak_raw_heap_ref_def trace_ephemeron_def
  settles_def phase_item_def phase_records_def\<close>)

lemma trace_payload_settles:
  assumes "mark_state H S m" and "mk_phase m = ph" and "ph = Phase_ClearWeak \<or> ph = Phase_EnqueueFinalization"
    and "payload_valid p" and "mk_owner m = Some r"
  shows "\<exists>p' m'. trace_payload m p = Ok (p', m') \<and> settles ph r m p p' m'"
  using assms
proof (induction p arbitrary: m)
  case Nil
  then show ?case by (simp add: settles_def phase_records_def)
next
  case (Cons item p)
  have valid: "\<forall>r \<in> item_weak item. valid_ref r" "payload_valid p" using Cons.prems(4) by (auto simp: payload_valid_def)
  obtain item' m1 where m1: "trace_slot m item = Ok (item', m1)" "settles ph r m [item] [item'] m1"
    using trace_slot_clear [OF Cons.prems(1) _ valid(1), of r] trace_slot_finalize [OF Cons.prems(1) _ valid(1) Cons.prems(5)]
      Cons.prems(2,3) by auto
  have keep: "mark_state H S m1" "mk_phase m1 = ph" "mk_owner m1 = Some r"
    using m1(2) Cons.prems(1,2,5) by (auto simp: settles_def mark_state_def)
  obtain p' m2 where m2: "trace_payload m1 p = Ok (p', m2)" "settles ph r m1 p p' m2"
    using Cons.IH [OF keep(1,2) Cons.prems(3) valid(2) keep(3)] by (elim exE conjE) (rule that)
  have "settles ph r m (item # p) (item' # p') m2" using settles_trans [OF m1(2) m2(2)] by simp
  then show ?case using m1(1) m2(1) by simp
qed


text \<open>The heap in which the payloads of the objects in \<open>R\<close> have passed through a phase.\<close>

definition phase_heap :: "(trace_item \<Rightarrow> trace_item) \<Rightarrow> raw_heap_ref set \<Rightarrow> object_heap \<Rightarrow> object_heap" where
  "phase_heap f R H = (\<lambda>r. if r \<in> R then map_option (\<lambda>(h, p). (h, map f p)) (H r) else H r)"

lemma clear_item_idem [simp]: "clear_item M (clear_item M item) = clear_item M item"
  by (cases item) auto

lemma finalize_item_idem [simp]: "finalize_item M (finalize_item M item) = finalize_item M item"
  by (cases item) auto

lemma phase_item_idem: "phase_item ph M (phase_item ph M item) = phase_item ph M item"
  by (simp add: phase_item_def)

lemma phase_heap_step:
  "phase_heap (phase_item ph M) R (phase_heap (phase_item ph M) R' H) = phase_heap (phase_item ph M) (R \<union> R') H"
  by (auto simp: phase_heap_def fun_eq_iff option.map_comp comp_def case_prod_unfold phase_item_idem)

lemma phase_heap_upd:
  "H r = Some (h, p) \<Longrightarrow> H(r \<mapsto> (h, map f p)) = phase_heap f {r} H"
  by (auto simp: phase_heap_def fun_eq_iff)

text \<open>
  The state between two owners: the marks are those of \<open>m\<close>, the heap has the same objects with valid
  payloads, and without an error the owners traced so far have passed the phase.
\<close>

definition settled ::
  "trace_phase \<Rightarrow> raw_heap_ref set \<Rightarrow> pending_finalization set \<Rightarrow> marker \<Rightarrow> marker \<Rightarrow> bool" where
  "settled ph R F m m' \<longleftrightarrow>
     table_inv (mk_table m') \<and> marked m' = marked m \<and> mk_epoch m' = mk_epoch m \<and> mk_weak_owners m' = mk_weak_owners m \<and>
     mk_gray m' = mk_gray m \<and> mk_phase m' = mk_phase m \<and> mk_owner m' = mk_owner m \<and>
     dom (heap_objects (mk_table m')) = dom (heap_objects (mk_table m)) \<and>
     (heap_valid (heap_objects (mk_table m)) \<longrightarrow> heap_valid (heap_objects (mk_table m'))) \<and>
     (mk_error m' = None \<longrightarrow> mk_error m = None \<and>
        heap_objects (mk_table m') = phase_heap (phase_item ph (marked m)) R (heap_objects (mk_table m)) \<and>
        set (bq_entries (mk_pending m')) = set (bq_entries (mk_pending m)) \<union> F)"

lemma settled_refl: "table_inv (mk_table m) \<Longrightarrow> settled ph {} {} m m"
  by (simp add: settled_def phase_heap_def)

lemma settled_trans:
  assumes "settled ph R F m m'" and "settled ph R' F' m' m''"
  shows "settled ph (R' \<union> R) (F \<union> F') m m''"
proof -
  have "heap_objects (mk_table m'') = phase_heap (phase_item ph (marked m)) (R' \<union> R) (heap_objects (mk_table m))" if "mk_error m'' = None"
  proof -
    have 1: "heap_objects (mk_table m'') = phase_heap (phase_item ph (marked m')) R' (heap_objects (mk_table m'))" "mk_error m' = None"
      using assms(2) that by (simp_all add: settled_def)
    have 2: "heap_objects (mk_table m') = phase_heap (phase_item ph (marked m)) R (heap_objects (mk_table m))" "marked m' = marked m"
      using assms(1) 1(2) by (auto simp: settled_def)
    show ?thesis unfolding 1(1) 2 phase_heap_step ..
  qed
  then show ?thesis using assms unfolding settled_def by (elim conjE) (simp add: Un_assoc)
qed

lemma settled_error:
  "settled ph R F m m' \<Longrightarrow> mk_error m' \<noteq> None \<Longrightarrow> settled ph R' F' m m'"
  by (auto simp: settled_def)

definition owner_records :: "trace_phase \<Rightarrow> raw_heap_ref set \<Rightarrow> object_heap \<Rightarrow> raw_heap_ref \<Rightarrow> pending_finalization set" where
  "owner_records ph M H r = (case H r of None \<Rightarrow> {} | Some (h, p) \<Rightarrow> set (phase_records ph M r p))"

lemma trace_weak_owner_settles:
  assumes inv: "table_inv (mk_table m)" and ph: "mk_phase m = ph" "ph = Phase_ClearWeak \<or> ph = Phase_EnqueueFinalization"
    and owner: "mk_owner m = None" and obj: "heap_objects (mk_table m) r = Some (h, p)" and valid: "heap_valid (heap_objects (mk_table m))"
  shows "\<exists>m'. trace_weak_owner types m r = Ok m' \<and>
    settled ph {r} (owner_records ph (marked m) (heap_objects (mk_table m)) r) m m'"
proof -
  let ?H = "heap_objects (mk_table m)"
  have st: "mark_state ?H UNIV m" using inv by (simp add: mark_state_def)
  from st obj show ?thesis
  proof (cases rule: resolve_payload_live [where types = types])
    case (err e)
    then show ?thesis using inv by (simp add: trace_weak_owner_def settled_def marker_fail_def)
  next
    case ok
    let ?m = "m\<lparr>mk_owner := Some r\<rparr>"
    have st0: "mark_state ?H UNIV ?m" using inv by (simp add: mark_state_def)
    have vp: "payload_valid p" using valid obj by (auto simp: heap_valid_def)
    have ph0: "mk_phase ?m = ph" "mk_owner ?m = Some r" using ph(1) by simp_all
    obtain p' m1 where m1: "trace_payload ?m p = Ok (p', m1)" "settles ph r ?m p p' m1"
      using trace_payload_settles [OF st0 ph0(1) ph(2) vp ph0(2)] by (elim exE conjE) (rule that)
    let ?m2 = "m1\<lparr>mk_table := write_payload (mk_table m1) r p', mk_owner := None\<rparr>"
    have table: "mk_table m1 = mk_table m" "mk_epoch m1 = mk_epoch m" using m1(2) by (simp_all add: settles_def)
    note w = write_payload_live [OF inv obj, of p']
    have vp': "payload_valid p'" using m1(2) vp by (simp add: settles_def)
    have dom: "dom (heap_objects (write_payload (mk_table m) r p')) = dom ?H" using obj by (auto simp: w(2))
    have valid': "heap_valid (heap_objects (write_payload (mk_table m) r p'))"
      using valid vp' by (auto simp: heap_valid_def w(2) split: if_splits)
    have heap': "heap_objects (write_payload (mk_table m) r p') = phase_heap (phase_item ph (marked m)) {r} ?H" if "mk_error m1 = None"
      using m1(2) that phase_heap_upd [where H = ?H, OF obj] unfolding w(2) settles_def by auto
    have "settled ph {r} (owner_records ph (marked m) ?H r) m ?m2"
      using m1(2) w(1,3) dom valid' table owner heap' obj
      by (auto simp: settled_def settles_def owner_records_def)
    then show ?thesis using ok m1(1) by (simp add: trace_weak_owner_def)
  qed
qed


lemma settled_next:
  assumes "settled ph {r} (owner_records ph (marked m) (heap_objects (mk_table m)) r) m m1" and "mk_error m1 = None"
    and "settled ph R (\<Union>x \<in> R. owner_records ph (marked m1) (heap_objects (mk_table m1)) x) m1 m2"
  shows "settled ph (insert r R) (\<Union>x \<in> insert r R. owner_records ph (marked m) (heap_objects (mk_table m)) x) m m2"
proof -
  have H1: "heap_objects (mk_table m1) = phase_heap (phase_item ph (marked m)) {r} (heap_objects (mk_table m))" "marked m1 = marked m"
    using assms(1,2) by (auto simp: settled_def)
  have "owner_records ph M (phase_heap (phase_item ph M) {r} H) r = {}" for M H
  proof -
    have "item_finalizations M (finalize_item M item) = []" for item by (cases item) auto
    then show ?thesis
      by (auto simp: owner_records_def phase_heap_def phase_records_def phase_item_def comp_def split: option.splits)
  qed
  moreover have "owner_records ph M (phase_heap (phase_item ph M) {r} H) x = owner_records ph M H x" if "x \<noteq> r" for x M H
    using that by (simp add: owner_records_def phase_heap_def)
  ultimately have "owner_records ph M H r \<union> (\<Union>x \<in> R. owner_records ph M (phase_heap (phase_item ph M) {r} H) x) =
      (\<Union>x \<in> insert r R. owner_records ph M H x)" for M H by (auto split: if_splits) (metis empty_iff)+
  then show ?thesis using settled_trans [OF assms(1,3)] unfolding H1 by simp
qed

definition owner_refs :: "(weak_owner \<Rightarrow> bool) \<Rightarrow> marker \<Rightarrow> nat list \<Rightarrow> raw_heap_ref set" where
  "owner_refs P m is = (\<lambda>i. wo_reference (owners m ! i)) ` {i \<in> set is. P (owners m ! i)}"

lemma owner_refs_Cons:
  "owner_refs P m (i # is) = (if P (owners m ! i) then insert (wo_reference (owners m ! i)) (owner_refs P m is) else owner_refs P m is)"
  by (auto simp: owner_refs_def)

definition owners_live :: "marker \<Rightarrow> bool" where
  "owners_live m \<longleftrightarrow> (\<forall>w \<in> set (owners m). wo_reference w \<in> dom (heap_objects (mk_table m)))"

lemma settled_keeps:
  assumes "settled ph R F m m'" "owners_live m" "heap_valid (heap_objects (mk_table m))"
  shows "table_inv (mk_table m')" "mk_phase m' = mk_phase m" "mk_owner m' = mk_owner m" "owners_live m'"
    "heap_valid (heap_objects (mk_table m'))" "owners m' = owners m"
  using assms by (simp_all add: settled_def owners_live_def)

lemma clear_weak_loop_settles:
  assumes "table_inv (mk_table m)" "mk_phase m = Phase_ClearWeak" "mk_owner m = None" "owners_live m"
    "heap_valid (heap_objects (mk_table m))" "\<forall>i \<in> set is. i < length (owners m)"
  shows "\<exists>m'. clear_weak_loop types m is = Ok m' \<and> settled Phase_ClearWeak (owner_refs (\<lambda>_. True) m is)
    (\<Union>x \<in> owner_refs (\<lambda>_. True) m is. owner_records Phase_ClearWeak (marked m) (heap_objects (mk_table m)) x) m m'"
  using assms
proof (induction "is" arbitrary: m)
  case Nil
  then show ?case using settled_refl by (simp add: owner_refs_def)
next
  case (Cons i "is")
  have i: "i < length (owners m)" using Cons.prems(6) by simp
  then obtain h p where obj: "heap_objects (mk_table m) (wo_reference (owners m ! i)) = Some (h, p)"
    using Cons.prems(4) by (fastforce simp: owners_live_def)
  obtain m1 where m1: "trace_weak_owner types m (wo_reference (owners m ! i)) = Ok m1"
      "settled Phase_ClearWeak {wo_reference (owners m ! i)}
        (owner_records Phase_ClearWeak (marked m) (heap_objects (mk_table m)) (wo_reference (owners m ! i))) m m1"
    using trace_weak_owner_settles [where types = types, OF Cons.prems(1,2) _ Cons.prems(3) obj Cons.prems(5)] by auto
  note keep = settled_keeps [OF m1(2) Cons.prems(4,5)]
  show ?case
  proof (cases "mk_error m1 = None")
    case False
    then show ?thesis using m1 settled_error i by (auto simp: get_def)
  next
    case True
    obtain m2 where m2: "clear_weak_loop types m1 is = Ok m2" "settled Phase_ClearWeak (owner_refs (\<lambda>_. True) m1 is)
        (\<Union>x \<in> owner_refs (\<lambda>_. True) m1 is. owner_records Phase_ClearWeak (marked m1) (heap_objects (mk_table m1)) x) m1 m2"
      using Cons.IH [of m1] keep Cons.prems(2,3,6) by auto
    have "owner_refs (\<lambda>_. True) m1 is = owner_refs (\<lambda>_. True) m is" using keep(6) by (simp add: owner_refs_def)
    then show ?thesis using settled_next [OF m1(2) True m2(2)] i m1(1) m2(1) True by (simp add: get_def owner_refs_Cons)
  qed
qed

lemma finalization_loop_settles:
  assumes "table_inv (mk_table m)" "mk_phase m = Phase_EnqueueFinalization" "mk_owner m = None" "owners_live m"
    "heap_valid (heap_objects (mk_table m))" "mk_error m = None" "\<forall>i \<in> set is. i < length (owners m)"
  shows "\<exists>m'. finalization_loop types m is = Ok m' \<and> settled Phase_EnqueueFinalization (owner_refs wo_has_finalization m is)
    (\<Union>x \<in> owner_refs wo_has_finalization m is. owner_records Phase_EnqueueFinalization (marked m) (heap_objects (mk_table m)) x) m m'"
  using assms
proof (induction "is" arbitrary: m)
  case Nil
  then show ?case using settled_refl by (simp add: owner_refs_def)
next
  case (Cons i "is")
  have i: "i < length (owners m)" using Cons.prems(7) by simp
  then obtain h p where obj: "heap_objects (mk_table m) (wo_reference (owners m ! i)) = Some (h, p)"
    using Cons.prems(4) by (fastforce simp: owners_live_def)
  obtain m1 where m1: "trace_weak_owner types m (wo_reference (owners m ! i)) = Ok m1"
      "settled Phase_EnqueueFinalization {wo_reference (owners m ! i)}
        (owner_records Phase_EnqueueFinalization (marked m) (heap_objects (mk_table m)) (wo_reference (owners m ! i))) m m1"
    using trace_weak_owner_settles [where types = types, OF Cons.prems(1,2) _ Cons.prems(3) obj Cons.prems(5)] by auto
  note keep = settled_keeps [OF m1(2) Cons.prems(4,5)]
  show ?case
  proof (cases "wo_has_finalization (owners m ! i)")
    case False
    then show ?thesis using Cons.IH [OF Cons.prems(1-6)] Cons.prems(6,7) i by (simp add: get_def owner_refs_Cons)
  next
    case fin: True
    show ?thesis
    proof (cases "mk_error m1 = None")
      case False
      then show ?thesis using m1 settled_error i fin by (auto simp: get_def)
    next
      case True
      obtain m2 where m2: "finalization_loop types m1 is = Ok m2" "settled Phase_EnqueueFinalization (owner_refs wo_has_finalization m1 is)
          (\<Union>x \<in> owner_refs wo_has_finalization m1 is. owner_records Phase_EnqueueFinalization (marked m1) (heap_objects (mk_table m1)) x) m1 m2"
        using Cons.IH [of m1] keep True Cons.prems(2,3,7) by auto
      have "owner_refs wo_has_finalization m1 is = owner_refs wo_has_finalization m is" using keep(6) by (simp add: owner_refs_def)
      then show ?thesis using settled_next [OF m1(2) True m2(2)] i m1(1) m2(1) True fin by (simp add: get_def owner_refs_Cons)
    qed
  qed
qed


section \<open>The mark phase\<close>

text \<open>The heap after the mark phase: weak slots of surviving owners whose target died are empty.\<close>

definition after_marking :: "raw_heap_ref set \<Rightarrow> object_heap \<Rightarrow> object_heap" where
  "after_marking M H = (\<lambda>r. map_option (\<lambda>(h, p).
     (h, if r \<in> M \<and> special p then map (\<lambda>item. finalize_item M (clear_item M item)) p else p)) (H r))"

lemma dom_after_marking [simp]: "dom (after_marking M H) = dom H"
  by (auto simp: after_marking_def)

definition new_finalizations :: "raw_heap_ref set \<Rightarrow> object_heap \<Rightarrow> pending_finalization set" where
  "new_finalizations M H = {\<lparr>pf_owner = r, pf_held_value = held\<rparr> | r h p target held.
     r \<in> M \<and> H r = Some (h, p) \<and> Trace_Finalization (Some target) held \<in> set p \<and> target \<notin> M}"

lemma clear_keeps_finalizations: "clear_item M item = Trace_Finalization target held \<longleftrightarrow> item = Trace_Finalization target held"
  by (cases item) auto

lemma item_finalizations_iff:
  "held \<in> set (item_finalizations M item) \<longleftrightarrow> (\<exists>target. item = Trace_Finalization (Some target) held \<and> target \<notin> M)"
  by (cases item) auto

lemma finalize_item_quiet: "\<not> finalization_slot item \<Longrightarrow> finalize_item M item = item"
  by (cases item) auto

lemma clear_finalization_slot: "finalization_slot (clear_item M item) = finalization_slot item"
  by (cases item) auto

lemma owner_record_fields:
  assumes "w = owner_record r p"
  shows "wo_reference w = r" "wo_has_finalization w = list_ex finalization_slot p"
  using assms by (simp_all add: owner_record_def)

text \<open>The owners of a finished marking are the marked objects with weak slots.\<close>

lemma finished_owners:
  assumes tri: "tri_colour H S m" and g: "gray m = []" and "P = (\<lambda>_. True) \<or> P = wo_has_finalization"
  shows "x \<in> owner_refs P m [0..<length (owners m)] \<longleftrightarrow>
    x \<in> marked m \<and> (\<exists>h p. H x = Some (h, p) \<and> special p \<and> P (owner_record x p))"
proof -
  have "x \<in> owner_refs P m [0..<length (owners m)] \<longleftrightarrow> (\<exists>w \<in> set (owners m). P w \<and> wo_reference w = x)"
    unfolding owner_refs_def set_upt image_iff by (fastforce simp: in_set_conv_nth Bex_def)
  also have "\<dots> \<longleftrightarrow> x \<in> marked m \<and> (\<exists>h p. H x = Some (h, p) \<and> special p \<and> P (owner_record x p))"
  proof
    assume "\<exists>w \<in> set (owners m). P w \<and> wo_reference w = x"
    then obtain w where "w \<in> set (owners m)" "P w" "wo_reference w = x" by blast
    with tri_colour_owner [OF tri, of w] show "x \<in> marked m \<and> (\<exists>h p. H x = Some (h, p) \<and> special p \<and> P (owner_record x p))" by auto
  next
    assume "x \<in> marked m \<and> (\<exists>h p. H x = Some (h, p) \<and> special p \<and> P (owner_record x p))"
    then obtain h p where x: "x \<in> marked m" "H x = Some (h, p)" "special p" "P (owner_record x p)" by blast
    have "owner_record x p \<in> set (owners m)" using tri_colour_black [OF tri _ x(2)] x(1,3) g by simp
    then show "\<exists>w \<in> set (owners m). P w \<and> wo_reference w = x" using x(4) owner_record_fields(1) [OF refl] by blast
  qed
  finally show ?thesis .
qed

lemma two_phases_heap:
  assumes R1: "\<And>x. x \<in> R1 \<longleftrightarrow> x \<in> M \<and> (\<exists>h p. H x = Some (h, p) \<and> special p)"
    and R2: "\<And>x. x \<in> R2 \<longleftrightarrow> x \<in> M \<and> (\<exists>h p. H x = Some (h, p) \<and> special p \<and> list_ex finalization_slot p)"
  shows "phase_heap (finalize_item M) R2 (phase_heap (clear_item M) R1 H) = after_marking M H"
    "(\<Union>x \<in> R2. owner_records Phase_EnqueueFinalization M (phase_heap (clear_item M) R1 H) x) = new_finalizations M H"
proof -
  show "phase_heap (finalize_item M) R2 (phase_heap (clear_item M) R1 H) = after_marking M H"
  proof
    fix x
    show "phase_heap (finalize_item M) R2 (phase_heap (clear_item M) R1 H) x = after_marking M H x"
    proof (cases "H x")
      case None
      then show ?thesis by (simp add: phase_heap_def after_marking_def)
    next
      case (Some hp)
      then obtain h p where hp: "H x = Some (h, p)" by (cases hp) auto
      have quiet: "map (\<lambda>item. finalize_item M (clear_item M item)) p = map (clear_item M) p" if "\<not> list_ex finalization_slot p"
        using that by (auto simp: list_ex_iff intro: finalize_item_quiet simp: clear_finalization_slot)
      show ?thesis using R1 [of x] R2 [of x] hp quiet by (auto simp: phase_heap_def after_marking_def comp_def special_def)
    qed
  qed
  have rec: "owner_records Phase_EnqueueFinalization M (phase_heap (clear_item M) R1 H) x =
      {\<lparr>pf_owner = x, pf_held_value = held\<rparr> | h p target held. H x = Some (h, p) \<and> Trace_Finalization (Some target) held \<in> set p \<and> target \<notin> M}" for x
  proof (cases "H x")
    case None
    then show ?thesis by (simp add: owner_records_def phase_heap_def)
  next
    case (Some hp)
    then obtain h p where hp: "H x = Some (h, p)" by (cases hp) auto
    have iff: "held \<in> set (concat (map (item_finalizations M) p')) \<longleftrightarrow>
        (\<exists>target. Trace_Finalization (Some target) held \<in> set p \<and> target \<notin> M)" if "p' = p \<or> p' = map (clear_item M) p" for held p'
      using that by (auto simp: item_finalizations_iff) (metis clear_keeps_finalizations)+
    then show ?thesis using hp unfolding owner_records_def phase_heap_def phase_records_def by (auto simp del: set_concat map_map)
  qed
  show "(\<Union>x \<in> R2. owner_records Phase_EnqueueFinalization M (phase_heap (clear_item M) R1 H) x) = new_finalizations M H"
  proof -
    have "x \<in> R2" if "x \<in> M" "H x = Some (h, p)" "Trace_Finalization (Some target) held \<in> set p" for x h p target held
    proof -
      have "list_ex finalization_slot p" using that(3) unfolding list_ex_iff by (metis finalization_slot.simps(5) option.distinct(1))
      then show ?thesis using R2 that(1,2) by (auto simp: special_def)
    qed
    moreover have "x \<in> M" if "x \<in> R2" for x using that R2 by blast
    ultimately show ?thesis unfolding rec new_finalizations_def by blast
  qed
qed

text \<open>What the mark phase leaves behind, whether or not it reports an error.\<close>

definition mark_outcome :: "object_heap \<Rightarrow> raw_heap_ref set \<Rightarrow> pending_finalizations \<Rightarrow> marker \<Rightarrow> bool" where
  "mark_outcome H M pending m \<longleftrightarrow>
     table_inv (mk_table m) \<and> dom (heap_objects (mk_table m)) = dom H \<and>
     (mk_error m = None \<longrightarrow>
        marked m = M \<and> heap_objects (mk_table m) = after_marking M H \<and> gray m = [] \<and>
        set (bq_entries (mk_pending m)) = set (bq_entries pending) \<union> new_finalizations M H)"

lemma clear_and_finalize_outcome:
  assumes tri: "tri_colour H S m" and g: "gray m = []" and owner: "mk_owner m = None" and H: "heap_valid H"
  shows "\<exists>m'. clear_and_finalize types m = Ok m' \<and> mk_epoch m' = mk_epoch m \<and> mark_outcome H (marked m) (mk_pending m) m'"
proof -
  have inv: "table_inv (mk_table m)" and HH: "heap_objects (mk_table m) = H" using tri by (auto simp: tri_colour_def mark_state_def)
  let ?is = "[0..<length (owners m)]"
  let ?m = "m\<lparr>mk_phase := Phase_ClearWeak\<rparr>"
  have live: "owners_live ?m" using tri_colour_owner [OF tri] HH by (fastforce simp: owners_live_def)
  obtain m1 where m1: "clear_weak_loop types ?m ?is = Ok m1" "settled Phase_ClearWeak (owner_refs (\<lambda>_. True) ?m ?is)
      (\<Union>x \<in> owner_refs (\<lambda>_. True) ?m ?is. owner_records Phase_ClearWeak (marked ?m) (heap_objects (mk_table ?m)) x) ?m m1"
    using clear_weak_loop_settles [where types = types, of ?m ?is] inv owner live H HH by auto
  have F1: "owner_records Phase_ClearWeak M G x = {}" for M G x by (simp add: owner_records_def phase_records_def split: option.splits)
  show ?thesis
  proof (cases "mk_error m = None \<and> mk_error m1 = None")
    case False
    then show ?thesis
      using m1 inv HH by (cases "mk_error m") (auto simp: clear_and_finalize_def settled_def mark_outcome_def)
  next
    case True
    have keep: "table_inv (mk_table m1)" "mk_owner m1 = None" "owners_live m1" "heap_valid (heap_objects (mk_table m1))" "owners m1 = owners m"
      using settled_keeps [OF m1(2) live] H HH owner by auto
    let ?R1 = "owner_refs (\<lambda>_. True) m ?is" and ?R2 = "owner_refs wo_has_finalization m ?is"
    have m1': "heap_objects (mk_table m1) = phase_heap (clear_item (marked m)) ?R1 H" "marked m1 = marked m" "mk_epoch m1 = mk_epoch m"
        "set (bq_entries (mk_pending m1)) = set (bq_entries (mk_pending m))" "mk_gray m1 = mk_gray m"
      using m1(2) True HH by (auto simp: settled_def phase_item_def F1 owner_refs_def)
    let ?m1 = "m1\<lparr>mk_phase := Phase_EnqueueFinalization\<rparr>"
    have live1: "owners_live ?m1" using keep(3) by (simp add: owners_live_def)
    obtain m2 where m2: "finalization_loop types ?m1 ?is = Ok m2" "settled Phase_EnqueueFinalization (owner_refs wo_has_finalization ?m1 ?is)
        (\<Union>x \<in> owner_refs wo_has_finalization ?m1 ?is. owner_records Phase_EnqueueFinalization (marked ?m1) (heap_objects (mk_table ?m1)) x) ?m1 m2"
      using finalization_loop_settles [where types = types, of ?m1 ?is] keep live1 True by auto
    have R2: "owner_refs wo_has_finalization ?m1 ?is = ?R2" using keep(5) by (simp add: owner_refs_def)
    have s2: "settled Phase_EnqueueFinalization ?R2 (\<Union>x \<in> ?R2. owner_records Phase_EnqueueFinalization (marked m)
        (phase_heap (clear_item (marked m)) ?R1 H) x) ?m1 m2" using m2(2) m1' unfolding R2 by simp
    note two = two_phases_heap [of ?R1 "marked m" H ?R2]
    have iff: "x \<in> ?R1 \<longleftrightarrow> x \<in> marked m \<and> (\<exists>h p. H x = Some (h, p) \<and> special p)"
      "x \<in> ?R2 \<longleftrightarrow> x \<in> marked m \<and> (\<exists>h p. H x = Some (h, p) \<and> special p \<and> list_ex finalization_slot p)" for x
      using finished_owners [OF tri g] owner_record_fields(2) [OF refl] by auto
    have res: "clear_and_finalize types m = Ok (m2\<lparr>mk_phase := Phase_Strong\<rparr>)" using True m1(1) m2(1) keep(5) by (simp add: clear_and_finalize_def)
    have dom: "dom (heap_objects (mk_table m2)) = dom H" using m2(2) m1(2) HH by (simp add: settled_def)
    have "mark_outcome H (marked m) (mk_pending m) (m2\<lparr>mk_phase := Phase_Strong\<rparr>)"
      using s2 m1' g dom unfolding mark_outcome_def settled_def by (auto simp: two(1) [OF iff] two(2) [OF iff] phase_item_def)
    then show ?thesis using res s2 m1'(3) by (auto simp: settled_def)
  qed
qed


lemma reachable_least:
  assumes roots: "roots \<subseteq> M" and M: "\<And>r h p. r \<in> M \<Longrightarrow> H r = Some (h, p) \<Longrightarrow> strong_refs p \<subseteq> M \<and> awakened M p \<subseteq> M"
  shows "reachable H roots \<subseteq> M"
proof
  fix r assume "r \<in> reachable H roots"
  then show "r \<in> M"
  proof induction
    case (root r)
    then show ?case using roots by blast
  next
    case (strong r h p r')
    then show ?case using M by blast
  next
    case (ephemeron r h p k v)
    then show ?case using M [of r h p] by (auto simp: awakened_def)
  qed
qed

lemma reachable_heap_closed: "heap_closed H (reachable H roots)"
  using reachable_closed unfolding heap_closed_def by blast

lemma closed_marks_reachable:
  assumes tri: "tri_colour H (reachable H roots) m" and g: "gray m = []" and eph: "ephemeron_closed H m" and roots: "roots \<subseteq> marked m"
  shows "marked m = reachable H roots"
proof
  show "marked m \<subseteq> reachable H roots" using tri by (simp add: tri_colour_def mark_state_def)
  show "reachable H roots \<subseteq> marked m"
  proof (rule reachable_least [OF roots])
    fix r h p assume r: "r \<in> marked m" "H r = Some (h, p)"
    note black = tri_colour_black [OF tri _ r(2)]
    have "awakened (marked m) p \<subseteq> marked m"
    proof (cases "special p")
      case True
      then have "owner_record r p \<in> set (owners m)" using black r(1) g by simp
      then have "owner_awakened H (marked m) (owner_record r p) \<subseteq> marked m" using eph by (simp add: ephemeron_closed_def)
      then show ?thesis using r(2) by (simp add: owner_awakened_def owner_record_def)
    next
      case False
      then show ?thesis using no_ephemeron_awakened by (simp add: special_def)
    qed
    then show "strong_refs p \<subseteq> marked m \<and> awakened (marked m) p \<subseteq> marked m" using black r(1) g by simp
  qed
qed

lemma mark_strong_roots_outcome:
  assumes inv: "table_inv t" and H: "heap_objects t = H" and fresh: "heap_marked t e = {}" and valid: "heap_valid H"
    and roots: "payload_valid roots" "pending_valid pending"
  shows "\<exists>m. mark_strong_roots t types gq wq pending e roots = Some (Ok m) \<and> mk_epoch m = e \<and>
    mark_outcome H (reachable H (strong_refs roots \<union> pending_refs pending)) pending m"
proof -
  define S where "S = reachable H (strong_refs roots \<union> pending_refs pending)"
  have sub: "strong_refs roots \<union> pending_refs pending \<subseteq> S" unfolding S_def by (auto intro: reachable.root)
  have closed: "heap_closed H S" unfolding S_def by (rule reachable_heap_closed)
  let ?m0 = "marker_new t (bounded_queue_clear gq) (bounded_queue_clear wq) pending e"
  obtain m1 where m1: "and_then (trace_payload ?m0 roots) (\<lambda>(_, m). mark_pending_finalization_roots m) = Ok m1"
      "tri_colour H S m1" "mk_phase m1 = Phase_Strong" "mk_owner m1 = None" "mk_epoch m1 = e" "mk_pending m1 = pending"
      "mk_error m1 = None \<longrightarrow> strong_refs roots \<union> pending_refs pending \<subseteq> marked m1"
    using mark_roots [OF inv H fresh roots sub refl, of gq wq] by (elim exE conjE) (rule that)
  obtain m2 where m2: "drain types m1 = Some (Ok m2)" "same_roles m1 m2" "mark_state H S m2"
      "mk_error m2 = None \<longrightarrow> marks_more H S m1 m2 \<and> gray m2 = [] \<and> mk_error m1 = None"
    using drain_terminates [where types = types, OF m1(2,3) valid closed] by (elim exE conjE) (rule that)
  have m2': "mk_owner m2 = None" "mk_epoch m2 = e" "mk_pending m2 = pending" using m2(2) m1(4-6) by (auto simp: same_roles_def)
  have res: "mark_strong_roots t types gq wq pending e roots =
      (case close_weak types m2 of None \<Rightarrow> None | Some (Err e) \<Rightarrow> Some (Err e) | Some Panic \<Rightarrow> Some Panic
       | Some (Ok m) \<Rightarrow> Some (Ok (if mk_error m \<noteq> None then m\<lparr>mk_gray := bounded_queue_clear (mk_gray m)\<rparr> else m)))"
    unfolding mark_strong_roots_def Let_def m1(1) using m2(1) by simp
  have failed: "mark_outcome H M pending m" if "mark_state H S m'" "mk_table m = mk_table m'" "mk_error m \<noteq> None" for m m' M
    using that by (auto simp: mark_outcome_def mark_state_def)
  show ?thesis
  proof (cases "mk_error m2 = None")
    case False
    then have "close_weak types m2 = Some (Ok m2)"
      by (simp add: close_weak_def ephemeron_closure.simps [of types m2] clear_and_finalize_def)
    then show ?thesis using failed [OF m2(3)] False m2'(2) by (simp add: res)
  next
    case True
    then have tri2: "tri_colour H S m2" "gray m2 = []" "mk_error m1 = None" "marked m1 \<subseteq> marked m2"
      using m2(4) by (auto simp: marks_more_def)
    obtain m3 where m3: "ephemeron_closure types m2 = Some (Ok m3)" "same_context m2 m3" "mark_state H S m3"
        "mk_error m3 = None \<longrightarrow> closes H S m2 m3 \<and> mk_error m2 = None"
      using ephemeron_closure_terminates [where types = types, OF tri2(1,2) m2'(1) valid closed] by (elim exE conjE) (rule that)
    have m3': "mk_owner m3 = None" "mk_epoch m3 = e" "mk_pending m3 = pending" using m3(2) m2' by (auto simp: same_context_def)
    show ?thesis
    proof (cases "mk_error m3 = None")
      case False
      then have "close_weak types m2 = Some (Ok m3)" using m3(1) by (simp add: close_weak_def clear_and_finalize_def)
      then show ?thesis using failed [OF m3(3)] False m3'(2) by (simp add: res)
    next
      case ok: True
      then have tri3: "tri_colour H S m3" "gray m3 = []" "ephemeron_closed H m3" "marked m2 \<subseteq> marked m3"
        using m3(4) by (auto simp: closes_def)
      have M: "marked m3 = S" unfolding S_def
        using closed_marks_reachable [OF tri3(1) [unfolded S_def] tri3(2,3)] m1(7) tri2(3,4) tri3(4) by blast
      obtain m4 where m4: "clear_and_finalize types m3 = Ok m4" "mk_epoch m4 = mk_epoch m3" "mark_outcome H (marked m3) (mk_pending m3) m4"
        using clear_and_finalize_outcome [where types = types, OF tri3(1,2) m3'(1) valid] by (elim exE conjE) (rule that)
      have cw: "close_weak types m2 = Some (Ok m4)" using m3(1) m4(1) by (simp add: close_weak_def)
      have "mark_outcome H S pending (if mk_error m4 \<noteq> None then m4\<lparr>mk_gray := bounded_queue_clear (mk_gray m4)\<rparr> else m4)"
        using m4(3) M m3'(3) by (auto simp: mark_outcome_def simp del: domIff)
      then show ?thesis using cw m4(2) m3'(2) unfolding S_def by (auto simp: res)
    qed
  qed
qed


section \<open>Properties\<close>

text \<open>C2. The mark phase of a full collection always ends and never panics, it keeps the table well formed and every
  object in place, and when it reports no error the marked objects are exactly those the roots and
  the pending finalization records reach over strong edges, the value of an ephemeron being reached once its owner and
  its key are.\<close>

theorem mark_phase_exact:
  assumes "table_inv t" and "heap_valid (heap_objects t)" and "heap_marked t e = {}"
    and "payload_valid roots" and "pending_valid pending"
  shows "\<exists>m. mark_strong_roots t types gq wq pending e roots = Some (Ok m) \<and> table_inv (mk_table m) \<and>
    dom (heap_objects (mk_table m)) = dom (heap_objects t) \<and>
    (mk_error m = None \<longrightarrow>
       heap_marked (mk_table m) e = reachable (heap_objects t) (strong_refs roots \<union> pending_refs pending))"
  using mark_strong_roots_outcome [OF assms(1) refl assms(3,2,4,5), of types gq wq] by (auto simp: mark_outcome_def simp del: domIff)

text \<open>C11. Weak references after marking: without an error, a weak slot or ephemeron of a surviving
  owner is emptied exactly when its target or key did not survive, each finalization cell of a surviving registry whose target
  did not survive is emptied and queued with its held value, and no other payload changes.\<close>

theorem weak_slots_settled:
  assumes "table_inv t" and "heap_valid (heap_objects t)" and "heap_marked t e = {}"
    and "payload_valid roots" and "pending_valid pending"
    and "mark_strong_roots t types gq wq pending e roots = Some (Ok m)" and "mk_error m = None"
  shows "heap_objects (mk_table m) = after_marking (heap_marked (mk_table m) e) (heap_objects t) \<and>
    set (bq_entries (mk_pending m)) = set (bq_entries pending) \<union> new_finalizations (heap_marked (mk_table m) e) (heap_objects t)"
  using mark_strong_roots_outcome [OF assms(1) refl assms(3,2,4,5), of types gq wq] assms(6,7) by (auto simp: mark_outcome_def)

subsection \<open>A small heap\<close>

text \<open>
  Four objects in spans of their own: the first holds the second strongly, the third weakly and the
  fourth under the second as an ephemeron; nothing else refers to the third.
\<close>

definition cell_ref :: "nat \<Rightarrow> raw_heap_ref" where
  "cell_ref n = word_of_nat (n * 65536 + 16)"

definition cell_payload :: "nat \<Rightarrow> payload" where
  "cell_payload n =
     (if n = 0 then [Trace_Raw (cell_ref 1), Trace_Weak (Some (cell_ref 2)), Trace_Ephemeron (Some (cell_ref 1)) (from_heap_ref (cell_ref 3)),
        Trace_Finalization (Some (cell_ref 2)) undefined_value]
      else if n = 1 then [Trace_Raw (cell_ref 0)] else [])"

definition cell_span :: "nat \<Rightarrow> large_span" where
  "cell_span n = \<lparr>lg_storage = \<lparr>st_len = 65536, st_blocks = (\<lambda>_. (gc_header_new 1 0 0, cell_payload n))\<rparr>,
     lg_metadata = (large_span_new 1 64 0)\<lparr>ls_allocated := True\<rparr>\<rparr>"

definition cell_table :: span_table where
  "cell_table = (span_table_new (\<lambda>_. True))\<lparr>tb_entries := map (\<lambda>n. fresh_entry 0 (LargeOwner (cell_span n))) [0, 1, 2, 3], tb_live_spans := 4\<rparr>"

definition cell_types :: type_registry where
  "cell_types = [\<lparr>td_type_id = 1, td_layout = \<lparr>pl_size = 32, pl_align = 8\<rparr>, td_allocation_policy = OldOnly\<rparr>]"

definition cell_run :: "marker marking option" where
  "cell_run = mark_strong_roots cell_table cell_types (bounded_queue_new (\<lambda>_. True) 8) (bounded_queue_new (\<lambda>_. True) 8)
     (bounded_queue_new (\<lambda>_. True) 8) 1 [Trace_Raw (cell_ref 0)]"

lemma cell_kind:
  "table_kind cell_table i = (if unat i < 4 then Some (LargeOwner (cell_span (unat i))) else None)"
proof (cases "unat i < 4")
  case True
  then have "unat i \<in> {0, 1, 2, 3}" by auto
  then show ?thesis by (auto simp: table_kind_def table_entry_def cell_table_def get_def fresh_entry_def)
qed (simp add: table_kind_def table_entry_def cell_table_def get_def)

lemma cell_objects:
  "heap_objects cell_table r =
     (if unat (raw_heap_ref_span_id r) < 4 \<and> ucast r = (16 :: u16)
      then Some (gc_header_new 1 0 0, cell_payload (unat (raw_heap_ref_span_id r))) else None)"
  by (simp add: heap_objects_def cell_kind span_object_def cell_span_def large_span_new_def)

lemma cell_inv:
  "table_inv cell_table" "heap_valid (heap_objects cell_table)" "heap_marked cell_table 1 = {}"
  "payload_valid [Trace_Raw (cell_ref 0)]" "pending_valid (bounded_queue_new (\<lambda>_. True) 8)"
proof -
  have "length (tb_entries cell_table) = 4" by (simp add: cell_table_def)
  then show "table_inv cell_table"
    by (auto simp: table_inv_def cell_kind span_inv_def large_ranges_inv_def cell_span_def large_span_new_def gc_header_new_def
        split: if_splits)
  have refs: "valid_ref (cell_ref n)" if "n \<in> {0, 1, 2, 3}" for n
    using that by (auto simp: valid_ref_iff cell_ref_def)
  have vals: "r \<in> value_refs v \<Longrightarrow> valid_ref r" for r v by (rule value_refs_valid)
  show "heap_valid (heap_objects cell_table)"
    using refs vals by (auto simp: heap_valid_def cell_objects payload_valid_def cell_payload_def simp del: One_nat_def split: if_splits)
  show "heap_marked cell_table 1 = {}"
    by (auto simp: heap_marked_def cell_kind span_marked_def cell_span_def large_span_new_def)
  show "payload_valid [Trace_Raw (cell_ref 0)]" using refs by (simp add: payload_valid_def)
  show "pending_valid (bounded_queue_new (\<lambda>_. True) 8)" by (simp add: pending_valid_def bounded_queue_new_def)
qed

lemmas cell_eval = mark_strong_roots_def marker_new_def bounded_queue_clear_def bounded_queue_new_def Let_def
    trace_slot_def trace_raw_heap_ref_def trace_value_def trace_weak_raw_heap_ref_def trace_ephemeron_def trace_finalization_def key_live_def reference_live_def
    enqueue_value_def
    marker_enqueue_def reference_marked_def verify_reference_def raw_heap_ref_span_offset_def
    verify_large_span_def storage_header_def header_type_id_def  fresh_entry_def 
   raw_heap_ref_span_id_def table_entry_def table_kind_def get_def span_table_new_def span_offset_new_def mark_stats_default_def
  large_is_marked_def large_mark_def large_span_new_def gc_header_new_def layout_values GC_HEADER_SIZE_BYTES_def
  gray_try_reserve_one_def bounded_queue_reserve_def INITIAL_GRAY_QUEUE_CAPACITY_def INITIAL_WEAK_OWNER_CAPACITY_def INITIAL_FINALIZATION_QUEUE_CAPACITY_def
  mark_reference_def set_kind_def update_entry_def gray_push_reserved_def bounded_queue_push_def mark_pending_finalization_roots_def
  gray_pop_def drain_one_def resolve_payload_def registry_descriptor_def payload_address_def checked_placement_def for_payload_layout_def round_up_def div_ceil_def
  write_payload_def record_weak_owner_def weak_owners_try_push_def pending_try_enqueue_def close_weak_def clear_and_finalize_def trace_weak_owner_def
  drain.simps ephemeron_closure.simps marker_fail_def upt_rec expect_def gc_type_id_new_def

lemma cell_value: "as_heap_ref (from_heap_ref 196624) = Some 196624"
  by code_simp

lemma cell_ok:
  "(case cell_run of Some (Ok m) \<Rightarrow> mk_error m = None \<and> mt_marked_objects (mk_stats m) = 3 | _ \<Rightarrow> False)"
  by (simp add: cell_run_def cell_ref_def cell_table_def cell_types_def cell_span_def cell_payload_def cell_eval cell_value)

theorem mark_phase_exact_witness:
  "\<exists>m. cell_run = Some (Ok m) \<and> mk_error m = None \<and> mt_marked_objects (mk_stats m) = 3 \<and>
    heap_marked (mk_table m) 1 = reachable (heap_objects cell_table) {cell_ref 0}"
  using mark_phase_exact [OF cell_inv, of cell_types "bounded_queue_new (\<lambda>_. True) 8" "bounded_queue_new (\<lambda>_. True) 8"] cell_ok
  by (auto simp: cell_run_def strong_refs_def pending_refs_def bounded_queue_new_def)

theorem weak_slots_settled_witness:
  "\<exists>m. cell_run = Some (Ok m) \<and>
    heap_objects (mk_table m) = after_marking (heap_marked (mk_table m) 1) (heap_objects cell_table)"
proof -
  obtain m where m: "cell_run = Some (Ok m)" "mk_error m = None"
    using cell_ok by (auto split: option.splits outcome.splits)
  then show ?thesis using weak_slots_settled [OF cell_inv m(1) [unfolded cell_run_def] m(2)] by blast
qed


end
