(* ===== verification/Gc_Vacant.thy ===== *)
theory Gc_Vacant
  imports Gc_Table
begin

text \<open>
  The list of vacant span ids of the span table (\<open>crates/tachyon-gc/src/table/publication.rs\<close>): sorted ranges
  that are never adjacent. Returning an id and taking a run of ids change the set of vacant ids exactly, and
  there is always room to record one more range.
\<close>

definition range_ids :: "free_span_range \<Rightarrow> span_id set" where
  "range_ids rng = {i. fr_start rng \<le> i \<and> i \<le> fr_end rng}"

definition free_ids :: "free_span_range list \<Rightarrow> span_id set" where
  "free_ids ranges = \<Union> (range_ids ` set ranges)"

definition coalesced :: "free_span_range list \<Rightarrow> bool" where
  "coalesced ranges \<longleftrightarrow>
     sorted_wrt (\<lambda>a b. unat (fr_end a) + 1 < unat (fr_start b)) ranges \<and> (\<forall>rng \<in> set ranges. fr_start rng \<le> fr_end rng)"

lemma free_ids_simps [simp]:
  "free_ids [] = {}" "free_ids (rng # ranges) = range_ids rng \<union> free_ids ranges"
  "free_ids (xs @ ys) = free_ids xs \<union> free_ids ys"
  by (auto simp: free_ids_def)

lemma coalesced_simps:
  "coalesced []"
  "coalesced (rng # ranges) \<longleftrightarrow> fr_start rng \<le> fr_end rng \<and> coalesced ranges \<and> (\<forall>r \<in> set ranges. unat (fr_end rng) + 1 < unat (fr_start r))"
  "coalesced (xs @ ys) \<longleftrightarrow> coalesced xs \<and> coalesced ys \<and> (\<forall>x \<in> set xs. \<forall>y \<in> set ys. unat (fr_end x) + 1 < unat (fr_start y))"
  by (auto simp: coalesced_def sorted_wrt_append)

lemma insert_free_range_parts:
  assumes "\<forall>rng \<in> set ls. fr_start rng < index" and "\<forall>rng \<in> set rs. \<not> fr_start rng < index"
  shows "insert_free_range index (ls @ rs) =
    (let joins_left = (ls \<noteq> [] \<and> unat (fr_end (last ls)) + 1 = unat index);
         joins_right = (rs \<noteq> [] \<and> unat index + 1 = unat (fr_start (hd rs)))
     in if joins_left \<and> joins_right then butlast ls @ [(last ls)\<lparr>fr_end := fr_end (hd rs)\<rparr>] @ tl rs
        else if joins_left then butlast ls @ [(last ls)\<lparr>fr_end := index\<rparr>] @ rs
        else if joins_right then ls @ [(hd rs)\<lparr>fr_start := index\<rparr>] @ tl rs
        else ls @ [\<lparr>fr_start = index, fr_end = index\<rparr>] @ rs)"
proof -
  have tw: "takeWhile (\<lambda>rng. fr_start rng < index) (ls @ rs) = ls"
    using assms by (cases rs) (auto simp: takeWhile_append)
  show ?thesis unfolding insert_free_range_def tw Let_def
    by (cases ls rule: rev_cases; cases rs; simp add: nth_append list_update_append remove_at_def insert_at_def)
qed

lemma coalesced_insert:
  assumes ok: "coalesced ranges" and new: "index \<notin> free_ids ranges"
  shows "coalesced (insert_free_range index ranges)" "free_ids (insert_free_range index ranges) = insert index (free_ids ranges)"
proof -
  define ls where "ls = takeWhile (\<lambda>rng. fr_start rng < index) ranges"
  define rs where "rs = dropWhile (\<lambda>rng. fr_start rng < index) ranges"
  have split: "ranges = ls @ rs" by (simp add: ls_def rs_def)
  have l: "fr_start rng < index" if "rng \<in> set ls" for rng using that by (auto simp: ls_def dest: set_takeWhileD)
  have r: "\<not> fr_start rng < index" if rng: "rng \<in> set rs" for rng
  proof (cases rs)
    case (Cons x xs)
    have x: "\<not> fr_start x < index" using Cons hd_dropWhile [of "\<lambda>rng. fr_start rng < index" ranges] by (simp add: rs_def)
    have "rng = x \<or> unat (fr_end x) + 1 < unat (fr_start rng) \<and> fr_start x \<le> fr_end x"
      using ok rng by (auto simp: split Cons coalesced_simps)
    then show ?thesis using x by (auto simp: word_less_nat_alt word_le_nat_alt)
  qed (use rng in simp)
  have l': "unat (fr_end rng) < unat index" if "rng \<in> set ls" for rng
    using that l [OF that] new by (auto simp: split free_ids_def range_ids_def word_less_nat_alt word_le_nat_alt)
  have r': "unat index < unat (fr_start rng)" if "rng \<in> set rs" for rng
    using that r [OF that] new ok by (force simp: split free_ids_def range_ids_def coalesced_def word_less_nat_alt word_le_nat_alt)
  have "\<forall>rng \<in> set ls. fr_start rng < index" "\<forall>rng \<in> set rs. \<not> fr_start rng < index" using l r by blast+
  note parts = insert_free_range_parts [OF this]
  have far_l: "\<forall>rng \<in> set (butlast ls). unat (fr_end rng) + 1 < unat index"
    using ok l' by (cases ls rule: rev_cases) (force simp: split coalesced_simps word_le_nat_alt)+
  have far_r: "\<forall>rng \<in> set (tl rs). unat index + 1 < unat (fr_start rng)"
    using ok r' by (cases rs) (force simp: split coalesced_simps word_le_nat_alt)+
  have near: "\<forall>rng \<in> set ls. unat (fr_end rng) < unat index" "\<forall>rng \<in> set rs. unat index < unat (fr_start rng)"
    using l' r' by blast+
  show "coalesced (insert_free_range index ranges)"
    using ok far_l far_r near unfolding split parts
    by (cases ls rule: rev_cases; cases rs) (auto simp: Let_def coalesced_simps word_le_nat_alt)
  show "free_ids (insert_free_range index ranges) = insert index (free_ids ranges)"
    using ok l' r' unfolding split parts
    by (cases ls rule: rev_cases; cases rs)
      (auto simp: Let_def coalesced_simps range_ids_def word_le_nat_alt word_less_nat_alt word_unat_eq_iff)
qed

lemma coalesced_spread:
  "coalesced ranges \<Longrightarrow> ranges \<noteq> [] \<Longrightarrow> unat (fr_start (hd ranges)) + 2 * (length ranges - 1) \<le> unat (fr_end (last ranges))"
proof (induction ranges rule: induct_list012)
  case (3 x y zs)
  then show ?case by (auto simp: coalesced_simps word_le_nat_alt)
qed (auto simp: coalesced_simps word_le_nat_alt)

lemma coalesced_length: "coalesced ranges \<Longrightarrow> length ranges \<le> 32768"
  using coalesced_spread [of ranges] unat_u16_less [of "fr_end (last ranges)"] by (cases "ranges = []") auto

lemma length_insert_free_range:
  assumes "\<And>rng. rng \<in> set ranges \<Longrightarrow> \<not> (unat (fr_start rng) \<le> unat index + 1 \<and> unat index \<le> unat (fr_end rng) + 1)"
    and ok: "coalesced ranges"
  shows "length (insert_free_range index ranges) = Suc (length ranges)"
proof -
  let ?p = "length (takeWhile (\<lambda>rng. fr_start rng < index) ranges)"
  have l: "\<not> unat (fr_end (ranges ! (?p - 1))) + 1 = unat index" if "?p > 0"
  proof -
    have p: "?p - 1 < length (takeWhile (\<lambda>rng. fr_start rng < index) ranges)" using that by simp
    have "ranges ! (?p - 1) \<in> set (takeWhile (\<lambda>rng. fr_start rng < index) ranges)"
      using nth_mem [OF p] by (simp only: takeWhile_nth [OF p])
    then have "fr_start (ranges ! (?p - 1)) < index" "ranges ! (?p - 1) \<in> set ranges" by (auto dest: set_takeWhileD)
    then show ?thesis using assms(1) by (force simp: word_less_nat_alt)
  qed
  have r: "\<not> unat index + 1 = unat (fr_start (ranges ! ?p))" if "?p < length ranges"
  proof -
    have "\<not> fr_start (ranges ! ?p) < index" using nth_length_takeWhile [OF that] by simp
    moreover have "unat (fr_start (ranges ! ?p)) \<le> unat (fr_end (ranges ! ?p))"
      using ok nth_mem [OF that] by (auto simp: coalesced_def word_le_nat_alt)
    ultimately show ?thesis using assms(1) [OF nth_mem [OF that]] by force
  qed
  have none: "(?p > 0 \<and> unat (fr_end (ranges ! (?p - 1))) + 1 = unat index) = False"
    "(?p < length ranges \<and> unat index + 1 = unat (fr_start (ranges ! ?p))) = False" using l r by blast+
  have "?p \<le> length ranges" by (rule length_takeWhile_le)
  then show ?thesis unfolding insert_free_range_def Let_def none by (simp add: insert_at_def)
qed

lemma adjacent_free_range_None:
  "adjacent_free_range t index = None \<longleftrightarrow>
     (\<forall>rng \<in> set (tb_free_ranges t). \<not> (unat (fr_start rng) \<le> unat index + 1 \<and> unat index \<le> unat (fr_end rng) + 1))"
proof -
  have "adjacent_free_range t index = None \<longleftrightarrow> filter (\<lambda>i. let rng = tb_free_ranges t ! i in
      unat (fr_start rng) \<le> unat index + 1 \<and> unat index \<le> unat (fr_end rng) + 1) [0..<length (tb_free_ranges t)] = []"
    by (simp add: adjacent_free_range_def split: list.split)
  also have "\<dots> \<longleftrightarrow> (\<forall>i < length (tb_free_ranges t). let rng = tb_free_ranges t ! i in
      \<not> (unat (fr_start rng) \<le> unat index + 1 \<and> unat index \<le> unat (fr_end rng) + 1))"
    unfolding filter_empty_conv Let_def by auto
  finally show ?thesis by (simp add: Let_def all_set_conv_all_nth)
qed

text \<open>Room for one more range is always found, since separated ranges fill at most half of the ids.\<close>

lemma reserve_free_range_ok:
  assumes grants: "\<And>n. tb_grants t n" and ok: "coalesced (tb_free_ranges t)" and new: "index \<notin> free_ids (tb_free_ranges t)"
  shows "\<exists>c. reserve_free_range_if_needed t index = Ok (t\<lparr>tb_free_ranges_capacity := c\<rparr>)"
proof (cases "adjacent_free_range t index = None")
  case False
  then show ?thesis by (auto simp: reserve_free_range_if_needed_def intro!: exI [of _ "tb_free_ranges_capacity t"])
next
  case True
  then have "length (insert_free_range index (tb_free_ranges t)) = Suc (length (tb_free_ranges t))"
    by (intro length_insert_free_range ok) (auto simp: adjacent_free_range_None)
  then have "length (tb_free_ranges t) + 1 \<le> MAX_FREE_SPAN_RANGES"
    using coalesced_length [OF coalesced_insert(1) [OF ok new]] by (simp add: MAX_FREE_SPAN_RANGES_def MAX_LOGICAL_SPANS_def div_ceil_def)
  then have "\<exists>c. reserve_for_additional (tb_grants t) (length (tb_free_ranges t)) (tb_free_ranges_capacity t) 1
      INITIAL_FREE_RANGE_CAPACITY MAX_FREE_SPAN_RANGES FreeRangeAllocationFailed = Ok c"
    using grants by (auto simp: reserve_for_additional_def Let_def min_less_iff_disj less_Suc_eq_le)
  then show ?thesis using True by (auto simp: reserve_free_range_if_needed_def)
qed

lemma u16_of_nat: "n < 65536 \<Longrightarrow> unat (word_of_nat n :: u16) = n"
  by (simp add: unat_of_nat)

lemma rposition_Some: "rposition P xs = Some i \<Longrightarrow> i < length xs \<and> P (xs ! i)"
proof -
  assume "rposition P xs = Some i"
  then have "i = last (filter (\<lambda>i. P (xs ! i)) [0..<length xs])" "filter (\<lambda>i. P (xs ! i)) [0..<length xs] \<noteq> []"
    by (auto simp: rposition_def split: list.splits)
  then have "i \<in> set (filter (\<lambda>i. P (xs ! i)) [0..<length xs])" using last_in_set by blast
  then show ?thesis by simp
qed

lemma rposition_None: "rposition P xs = None \<longleftrightarrow> (\<forall>x \<in> set xs. \<not> P x)"
proof -
  have "rposition P xs = None \<longleftrightarrow> filter (\<lambda>i. P (xs ! i)) [0..<length xs] = []" by (simp add: rposition_def split: list.split)
  then show ?thesis unfolding filter_empty_conv by (auto simp: all_set_conv_all_nth)
qed

text \<open>Some consecutive ids.\<close>

definition id_run :: "span_id \<Rightarrow> nat \<Rightarrow> span_id set" where
  "id_run i n = {j. unat i \<le> unat j \<and> unat j < unat i + n}"

lemma run_in_one_range:
  assumes ok: "coalesced ranges" and run: "id_run i n \<subseteq> free_ids ranges" and n: "0 < n" "unat i + n \<le> 65536"
  shows "\<exists>rng \<in> set ranges. unat (fr_start rng) \<le> unat i \<and> unat i + n \<le> unat (fr_end rng) + 1"
proof -
  have "\<exists>rng \<in> set ranges. unat (fr_start rng) \<le> unat i \<and> unat i + m \<le> unat (fr_end rng) + 1" if "0 < m" "m \<le> n" for m
    using that
  proof (induction m)
    case (Suc m)
    let ?j = "word_of_nat (unat i + m) :: u16"
    have j: "unat ?j = unat i + m" by (rule u16_of_nat) (use Suc.prems n in simp)
    then have "?j \<in> id_run i n" using Suc.prems by (simp add: id_run_def)
    then obtain rng where rng: "rng \<in> set ranges" "unat (fr_start rng) \<le> unat i + m" "unat i + m \<le> unat (fr_end rng)"
      using run j by (force simp: free_ids_def range_ids_def word_le_nat_alt)
    show ?case
    proof (cases m)
      case (Suc k)
      then obtain rng' where rng': "rng' \<in> set ranges" "unat (fr_start rng') \<le> unat i" "unat i + m \<le> unat (fr_end rng') + 1"
        using Suc.IH Suc.prems by auto
      have "rng' = rng"
      proof (rule ccontr)
        assume "rng' \<noteq> rng"
        then have "unat (fr_end rng') + 1 < unat (fr_start rng) \<or> unat (fr_end rng) + 1 < unat (fr_start rng')"
          using rng(1) rng'(1) ok by (auto simp: coalesced_def in_set_conv_nth sorted_wrt_iff_nth_less) (metis linorder_neqE_nat)
        then show False using rng rng' by auto
      qed
      then show ?thesis using rng rng' by auto
    qed (use rng in auto)
  qed simp
  then show ?thesis using n(1) by blast
qed

definition runs_disjoint_free :: "span_table \<Rightarrow> nat \<Rightarrow> bool" where
  "runs_disjoint_free t n \<longleftrightarrow> (\<forall>i. unat i + n \<le> 65536 \<longrightarrow> \<not> id_run i n \<subseteq> free_ids (tb_free_ranges t))"

lemma take_free_span_range_exact:
  assumes ok: "coalesced (tb_free_ranges t)" and n: "0 < n"
  shows "(take_free_span_range t n = (Ok (None, t) :: ('e, _) outcome) \<and> runs_disjoint_free t n) \<or>
    (\<exists>owner ranges. take_free_span_range t n = (Ok (Some owner, t\<lparr>tb_free_ranges := ranges\<rparr>) :: ('e, _) outcome) \<and> coalesced ranges \<and> unat owner + n \<le> 65536 \<and>
       id_run owner n \<subseteq> free_ids (tb_free_ranges t) \<and> free_ids ranges = free_ids (tb_free_ranges t) - id_run owner n)"
proof (cases "rposition (\<lambda>rng. range_size rng \<ge> n) (tb_free_ranges t)")
  case None
  then have "runs_disjoint_free t n" unfolding runs_disjoint_free_def
    using run_in_one_range [OF ok _ n] by (fastforce simp: rposition_None range_size_def)
  then show ?thesis using None by (simp add: take_free_span_range_def)
next
  case (Some p)
  let ?xs = "tb_free_ranges t"
  let ?rng = "?xs ! p"
  define owner where "owner = unat (fr_end ?rng) + 1 - n"
  have p: "p < length ?xs" "n \<le> range_size ?rng" using rposition_Some [OF Some] by auto
  have le: "unat (fr_start ?rng) \<le> unat (fr_end ?rng)" using ok p(1) by (auto simp: coalesced_def word_le_nat_alt)
  have ow: "unat (fr_start ?rng) \<le> owner" "owner + n = unat (fr_end ?rng) + 1" using p(2) le by (auto simp: owner_def range_size_def)
  have bound: "owner + n \<le> 65536" "owner < 65536" using ow(2) n unat_u16_less [of "fr_end ?rng"] by auto
  then have u: "unat (word_of_nat owner :: u16) = owner" by (simp add: u16_of_nat)
  define ls where "ls = take p ?xs"
  define rs where "rs = drop (Suc p) ?xs"
  have split: "?xs = ls @ ?rng # rs" unfolding ls_def rs_def using p(1) by (simp add: id_take_nth_drop)
  have okp: "coalesced (ls @ ?rng # rs)" using ok split by simp
  have dis: "id_run (word_of_nat owner) n \<inter> free_ids (ls @ rs) = {}"
    using okp ow le by (fastforce simp: id_run_def u free_ids_def range_ids_def coalesced_simps word_le_nat_alt)
  have sub: "id_run (word_of_nat owner) n \<subseteq> range_ids ?rng" using ow by (auto simp: id_run_def u range_ids_def word_le_nat_alt)
  have ids: "free_ids ?xs = free_ids ls \<union> range_ids ?rng \<union> free_ids rs" by (subst split) auto
  show ?thesis
  proof (cases "owner = unat (fr_start ?rng)")
    case True
    have "range_ids ?rng = id_run (word_of_nat owner) n" using ow True by (auto simp: id_run_def u range_ids_def word_le_nat_alt)
    then have "free_ids (ls @ rs) = free_ids ?xs - id_run (word_of_nat owner) n" using dis ids by auto
    moreover have "coalesced (ls @ rs)" using okp by (auto simp: coalesced_simps)
    moreover have "take_free_span_range t n = Ok (Some (word_of_nat owner), t\<lparr>tb_free_ranges := ls @ rs\<rparr>)"
      unfolding take_free_span_range_def Some option.case Let_def owner_def [symmetric]
      using True bound by (simp add: remove_at_def ls_def rs_def)
    ultimately show ?thesis using bound(1) sub ids by (intro disjI2 exI [of _ "word_of_nat owner"] exI [of _ "ls @ rs"]) (auto simp: u)
  next
    case False
    define last_id where "last_id = (word_of_nat (owner - 1) :: u16)"
    let ?new = "?rng\<lparr>fr_end := last_id\<rparr>"
    have pos: "0 < owner" "unat (fr_start ?rng) \<le> owner - 1" using False ow(1) by auto
    have l: "unat last_id = owner - 1" unfolding last_id_def by (rule u16_of_nat) (use bound in simp)
    have "range_ids ?new = range_ids ?rng - id_run (word_of_nat owner) n"
      using ow pos by (auto simp: id_run_def u range_ids_def word_le_nat_alt l)
    then have "free_ids (ls @ ?new # rs) = free_ids ?xs - id_run (word_of_nat owner) n" using dis ids by auto
    moreover have "coalesced (ls @ ?new # rs)" using okp pos ow n by (force simp: coalesced_simps word_le_nat_alt l)
    moreover have "take_free_span_range t n = Ok (Some (word_of_nat owner), t\<lparr>tb_free_ranges := ls @ ?new # rs\<rparr>)"
      unfolding take_free_span_range_def Some option.case Let_def owner_def [symmetric] last_id_def
      using False bound pos p(1) by (simp add: upd_conv_take_nth_drop ls_def rs_def)
    ultimately show ?thesis using bound(1) sub ids
      by (intro disjI2 exI [of _ "word_of_nat owner"] exI [of _ "ls @ ?new # rs"]) (auto simp: u)
  qed
qed

section \<open>Properties\<close>

text \<open>C14. The list of vacant span ids is an exact, coalesced set: returning an id that is not in it adds
  that id and nothing else, merging it with the ranges on either side; taking a number of consecutive ids removes exactly
  those, and reports none only when no such run of vacant ids exists.\<close>

theorem vacant_ids_exact:
  assumes "coalesced (tb_free_ranges t)"
  shows "(i \<notin> free_ids (tb_free_ranges t) \<longrightarrow>
      coalesced (tb_free_ranges (insert_free_span t i)) \<and>
      free_ids (tb_free_ranges (insert_free_span t i)) = insert i (free_ids (tb_free_ranges t))) \<and>
    (0 < n \<longrightarrow>
      (take_free_span_range t n = (Ok (None, t) :: ('e, _) outcome) \<and>
         (\<forall>owner. unat owner + n \<le> 65536 \<longrightarrow> \<not> id_run owner n \<subseteq> free_ids (tb_free_ranges t))) \<or>
      (\<exists>owner ranges. take_free_span_range t n = (Ok (Some owner, t\<lparr>tb_free_ranges := ranges\<rparr>) :: ('e, _) outcome) \<and> coalesced ranges \<and>
         unat owner + n \<le> 65536 \<and> id_run owner n \<subseteq> free_ids (tb_free_ranges t) \<and>
         free_ids ranges = free_ids (tb_free_ranges t) - id_run owner n))"
  using coalesced_insert [OF assms, of i] by (intro conjI impI take_free_span_range_exact [OF assms, unfolded runs_disjoint_free_def])
    (simp_all add: insert_free_span_def)

theorem vacant_ids_exact_witness:
  "coalesced (tb_free_ranges (insert_free_span ((span_table_new (\<lambda>_. True))
     \<lparr>tb_free_ranges := [\<lparr>fr_start = 1, fr_end = 2\<rparr>, \<lparr>fr_start = 4, fr_end = 4\<rparr>]\<rparr>) 3))"
proof -
  let ?t = "(span_table_new (\<lambda>_. True))\<lparr>tb_free_ranges := [\<lparr>fr_start = 1, fr_end = 2\<rparr>, \<lparr>fr_start = 4, fr_end = 4\<rparr>]\<rparr>"
  have "coalesced (tb_free_ranges ?t)" by (simp add: coalesced_simps)
  moreover have "3 \<notin> free_ids (tb_free_ranges ?t)" by (simp add: range_ids_def)
  ultimately show ?thesis using vacant_ids_exact [of ?t 3 1] by blast
qed

end
