(* ===== verification/Gc_Sweep.thy ===== *)
theory Gc_Sweep
  imports Gc_Mark_Sound Gc_Vacant
begin

text \<open>
  The sweep of a full collection (\<open>crates/tachyon-gc/src/sweep.rs\<close>): the span worklist, the two passes over a
  small span, the large owners, and the teardown of a heap.

  The sweeper changes the table, the external-byte account and the statistics in place, and an error leaves
  what was done so far; an error is therefore returned together with the sweeper. The loops over the
  allocation bits of a span are partial functions, shown to return. Dropping a payload runs its Rust
  destructor, which does not touch the table.
\<close>

unbundle bit_operations_syntax

datatype sweep_worklist_error = EntryLimitExceeded nat | WorklistAllocationFailed

datatype sweep_error =
    SE_Worklist sweep_worklist_error
  | SE_InvalidReference heap_reference_error
  | SE_UnknownTypeId raw_heap_ref
  | SE_SpanTable span_table_error
  | SE_AllocationStateChanged raw_heap_ref
  | SE_ExternalAccountingUnderflow raw_heap_ref nat nat

record sweep_stats =
  sw_scanned_objects :: nat
  sw_live_objects :: nat
  sw_reclaimed_objects :: nat
  sw_scanned_bytes :: nat
  sw_live_bytes :: nat
  sw_reclaimed_bytes :: nat
  sw_spans_processed :: nat
  sw_spans_released :: nat
  sw_released_storage_bytes :: nat
  sw_external_bytes :: nat
  sw_retained_fragmentation_bytes :: nat
  sw_reusable_old_free_bytes :: nat
  sw_retained_tail_slack_bytes :: nat
  sw_allocated_young_bytes_total :: nat
  sw_allocated_old_bytes_total :: nat
  sw_young_live_spans :: nat
  sw_old_live_spans :: nat
  sw_eden_pool_retained_bytes :: nat

definition sweep_stats_default :: sweep_stats where
  "sweep_stats_default = \<lparr>sw_scanned_objects = 0, sw_live_objects = 0, sw_reclaimed_objects = 0, sw_scanned_bytes = 0,
     sw_live_bytes = 0, sw_reclaimed_bytes = 0, sw_spans_processed = 0, sw_spans_released = 0, sw_released_storage_bytes = 0,
     sw_external_bytes = 0, sw_retained_fragmentation_bytes = 0, sw_reusable_old_free_bytes = 0, sw_retained_tail_slack_bytes = 0,
     sw_allocated_young_bytes_total = 0, sw_allocated_old_bytes_total = 0, sw_young_live_spans = 0, sw_old_live_spans = 0,
     sw_eden_pool_retained_bytes = 0\<rparr>"

section \<open>The worklist\<close>

definition INITIAL_SWEEP_WORKLIST_CAPACITY :: nat where "INITIAL_SWEEP_WORKLIST_CAPACITY = 64"

record sweep_worklist =
  wl_entries :: "span_id list"
  wl_capacity :: nat
  wl_max_entries :: nat
  wl_initial_capacity :: nat
  wl_growth_count :: nat
  wl_peak_len :: nat
  wl_grants :: "nat \<Rightarrow> bool"

definition worklist_new :: "(nat \<Rightarrow> bool) \<Rightarrow> nat \<Rightarrow> sweep_worklist" where
  "worklist_new grants max_entries =
     \<lparr>wl_entries = [], wl_capacity = 0, wl_max_entries = max_entries, wl_initial_capacity = 0, wl_growth_count = 0,
      wl_peak_len = 0, wl_grants = grants\<rparr>"

definition worklist_clear :: "sweep_worklist \<Rightarrow> sweep_worklist" where
  "worklist_clear w = w\<lparr>wl_entries := []\<rparr>"

definition worklist_reserve :: "sweep_worklist \<Rightarrow> (sweep_worklist_error, sweep_worklist) outcome" where
  "worklist_reserve w =
     (if length (wl_entries w) = wl_capacity w
      then let target = max (if wl_capacity w = 0 then min INITIAL_SWEEP_WORKLIST_CAPACITY (wl_max_entries w)
                             else min (div_ceil (wl_capacity w * CAPACITY_GROWTH_NUMERATOR) CAPACITY_GROWTH_DENOMINATOR) (wl_max_entries w))
                            (length (wl_entries w) + 1)
           in if \<not> wl_grants w (target - length (wl_entries w)) then Err WorklistAllocationFailed
              else let w = w\<lparr>wl_capacity := target\<rparr>
                   in Ok (if wl_initial_capacity w = 0 then w\<lparr>wl_initial_capacity := wl_capacity w\<rparr>
                          else w\<lparr>wl_growth_count := wl_growth_count w + 1\<rparr>)
      else Ok w)"

definition worklist_try_push :: "sweep_worklist \<Rightarrow> span_id \<Rightarrow> (sweep_worklist_error, sweep_worklist) outcome" where
  "worklist_try_push w i =
     (if length (wl_entries w) = wl_max_entries w then Err (EntryLimitExceeded (wl_max_entries w))
      else and_then (worklist_reserve w) (\<lambda>w.
        Ok (w\<lparr>wl_entries := wl_entries w @ [i], wl_peak_len := max (wl_peak_len w) (length (wl_entries w) + 1)\<rparr>)))"

definition worklist_pop :: "sweep_worklist \<Rightarrow> span_id option \<times> sweep_worklist" where
  "worklist_pop w =
     (if wl_entries w = [] then (None, w) else (Some (last (wl_entries w)), w\<lparr>wl_entries := butlast (wl_entries w)\<rparr>))"

section \<open>Sweeping\<close>

record sweeper =
  sp_table :: span_table
  sp_external_bytes :: nat
  sp_stats :: sweep_stats

type_synonym 'a sweeping = "(sweep_error \<times> sweeper, 'a) outcome"

definition at_sweeper :: "sweeper \<Rightarrow> ('e \<Rightarrow> sweep_error) \<Rightarrow> ('e, 'a) outcome \<Rightarrow> 'a sweeping" where
  "at_sweeper s f m = map_err (\<lambda>e. (f e, s)) m"

definition update_stats :: "sweeper \<Rightarrow> (sweep_stats \<Rightarrow> sweep_stats) \<Rightarrow> sweeper" where
  "update_stats s f = s\<lparr>sp_stats := f (sp_stats s)\<rparr>"

definition ensure_external_charge_available :: "sweeper \<Rightarrow> raw_heap_ref \<Rightarrow> nat \<Rightarrow> unit sweeping" where
  "ensure_external_charge_available s r charged =
     (if charged > sp_external_bytes s then Err (SE_ExternalAccountingUnderflow r charged (sp_external_bytes s), s) else Ok ())"

definition charged_bytes :: "gc_header \<Rightarrow> nat" where
  "charged_bytes h = (case header_external_bytes h of Some n \<Rightarrow> n | None \<Rightarrow> 0)"

text \<open>The checks before a payload is dropped: its header, descriptor and placement.\<close>

definition resolve_drop :: "type_registry \<Rightarrow> sweeper \<Rightarrow> raw_heap_ref \<Rightarrow> nat sweeping" where
  "resolve_drop types s r =
     and_then (at_sweeper s SE_InvalidReference (verify_reference (sp_table s) r None)) (\<lambda>header.
     and_then (ok_or (SE_UnknownTypeId r, s) (header_type_id header)) (\<lambda>type_id.
     and_then (ok_or (SE_UnknownTypeId r, s) (registry_descriptor types type_id)) (\<lambda>descriptor.
     and_then (at_sweeper s SE_InvalidReference (payload_address (sp_table s) r descriptor)) (\<lambda>payload.
     and_then (ensure_external_charge_available s r (charged_bytes header)) (\<lambda>_.
     Ok (charged_bytes header))))))"

definition drop_small :: "type_registry \<Rightarrow> sweeper \<Rightarrow> raw_heap_ref \<Rightarrow> sweeper sweeping" where
  "drop_small types s r =
     and_then (resolve_drop types s r) (\<lambda>charged.
     and_then (unpublish_small_for_drop (sp_table s) r) (\<lambda>(present, t).
     let s = s\<lparr>sp_table := t\<rparr> in
     if \<not> present then Err (SE_AllocationStateChanged r, s)
     else Ok (s\<lparr>sp_external_bytes := sp_external_bytes s - charged\<rparr>)))"

definition reference_slot_successor :: "small_sweep_snapshot \<Rightarrow> raw_heap_ref \<Rightarrow> ('e, u16) outcome" where
  "reference_slot_successor snapshot r =
     and_then (raw_heap_ref_span_offset r) (\<lambda>offset.
     and_then (expect (slot_for_offset (sn_size_class snapshot) offset)) (\<lambda>slot. Ok (slot + 1)))"

text \<open>The next allocated reference and the cursor behind it.\<close>

definition next_reference :: "span_table \<Rightarrow> span_id \<Rightarrow> small_sweep_snapshot \<Rightarrow> u16 \<Rightarrow> ('e, (raw_heap_ref \<times> u16) option) outcome" where
  "next_reference t i snapshot cursor =
     and_then (next_allocated_reference t i cursor) (\<lambda>found.
     case found of
       None \<Rightarrow> Ok None
     | Some r \<Rightarrow> and_then (reference_slot_successor snapshot r) (\<lambda>cursor. Ok (Some (r, cursor))))"

partial_function (option) count_live ::
  "sweeper \<Rightarrow> span_id \<Rightarrow> collection_epoch \<Rightarrow> small_sweep_snapshot \<Rightarrow> u16 \<Rightarrow> u16 \<Rightarrow> u16 sweeping option" where
  "count_live s i epoch before cursor live =
     (case next_reference (sp_table s) i before cursor of
        Ok None \<Rightarrow> Some (Ok live)
      | Ok (Some (r, cursor)) \<Rightarrow>
          (case at_sweeper s SE_InvalidReference (reference_marked (sp_table s) r epoch) of
             Ok is_live \<Rightarrow> count_live s i epoch before cursor (if is_live then live + 1 else live)
           | Err e \<Rightarrow> Some (Err e)
           | Panic \<Rightarrow> Some Panic)
      | Err e \<Rightarrow> Some (Err e)
      | Panic \<Rightarrow> Some Panic)"

definition count_scanned :: "nat \<Rightarrow> sweep_stats \<Rightarrow> sweep_stats" where
  "count_scanned bytes x = x\<lparr>sw_scanned_objects := sw_scanned_objects x + 1, sw_scanned_bytes := sw_scanned_bytes x + bytes\<rparr>"

definition count_retained :: "nat \<Rightarrow> sweep_stats \<Rightarrow> sweep_stats" where
  "count_retained bytes x = x\<lparr>sw_live_objects := sw_live_objects x + 1, sw_live_bytes := sw_live_bytes x + bytes\<rparr>"

definition count_reclaimed :: "nat \<Rightarrow> sweep_stats \<Rightarrow> sweep_stats" where
  "count_reclaimed bytes x = x\<lparr>sw_reclaimed_objects := sw_reclaimed_objects x + 1, sw_reclaimed_bytes := sw_reclaimed_bytes x + bytes\<rparr>"

definition count_released :: "nat \<Rightarrow> nat \<Rightarrow> sweep_stats \<Rightarrow> sweep_stats" where
  "count_released spans bytes x =
     x\<lparr>sw_spans_released := sw_spans_released x + spans, sw_released_storage_bytes := sw_released_storage_bytes x + bytes\<rparr>"

definition sweep_one :: "type_registry \<Rightarrow> sweeper \<Rightarrow> collection_epoch \<Rightarrow> nat \<Rightarrow> raw_heap_ref \<Rightarrow> sweeper sweeping" where
  "sweep_one types s epoch bytes r =
     (let s = update_stats s (count_scanned bytes) in
      and_then (at_sweeper s SE_InvalidReference (reference_marked (sp_table s) r epoch)) (\<lambda>is_live.
      if is_live then Ok (update_stats s (count_retained bytes))
      else and_then (drop_small types s r) (\<lambda>s. Ok (update_stats s (count_reclaimed bytes)))))"

partial_function (option) sweep_objects ::
  "type_registry \<Rightarrow> sweeper \<Rightarrow> span_id \<Rightarrow> collection_epoch \<Rightarrow> small_sweep_snapshot \<Rightarrow> u16 \<Rightarrow> sweeper sweeping option" where
  "sweep_objects types s i epoch before cursor =
     (case next_reference (sp_table s) i before cursor of
        Ok None \<Rightarrow> Some (Ok s)
      | Ok (Some (r, cursor)) \<Rightarrow>
          (case sweep_one types s epoch (unat (sn_size_class before)) r of
             Ok s \<Rightarrow> sweep_objects types s i epoch before cursor
           | Err e \<Rightarrow> Some (Err e)
           | Panic \<Rightarrow> Some Panic)
      | Err e \<Rightarrow> Some (Err e)
      | Panic \<Rightarrow> Some Panic)"

definition account_retained_small :: "small_sweep_snapshot \<Rightarrow> sweep_stats \<Rightarrow> sweep_stats" where
  "account_retained_small snapshot x =
     (let slot_size = unat (sn_size_class snapshot); initialized_region = unat (sn_bump_cursor snapshot) * slot_size;
          fragmentation = initialized_region - unat (sn_allocated_bytes snapshot);
          usable = SPAN_SIZE_BYTES - MINIMUM_SLOT_SIZE_BYTES
      in x\<lparr>sw_retained_fragmentation_bytes := sw_retained_fragmentation_bytes x + fragmentation,
           sw_reusable_old_free_bytes := sw_reusable_old_free_bytes x + (if sn_space snapshot = Old then fragmentation else 0),
           sw_retained_tail_slack_bytes := sw_retained_tail_slack_bytes x + (usable - initialized_region)\<rparr>)"

definition finish_small :: "sweeper \<Rightarrow> span_id \<Rightarrow> sweeper sweeping" where
  "finish_small s i =
     and_then (expect (take_small_sweep_snapshot (sp_table s) i)) (\<lambda>after.
     if sn_allocated_slots after = 0
     then and_then (at_sweeper s SE_SpanTable (release (sp_table s) i)) (\<lambda>t.
          Ok (update_stats (s\<lparr>sp_table := t\<rparr>) (count_released 1 SPAN_SIZE_BYTES)))
     else and_then (rebuild_old_free_list (sp_table s) i) (\<lambda>t.
          Ok (update_stats (s\<lparr>sp_table := t\<rparr>) (account_retained_small after))))"

definition sweep_small :: "type_registry \<Rightarrow> sweeper \<Rightarrow> span_id \<Rightarrow> collection_epoch \<Rightarrow> sweeper sweeping option" where
  "sweep_small types s i epoch =
     (case take_small_sweep_snapshot (sp_table s) i of
        None \<Rightarrow> Some Panic
      | Some before \<Rightarrow>
          Option.bind (count_live s i epoch before 0 0) (\<lambda>live_slots.
          case and_then live_slots (\<lambda>live_slots.
                 if live_slots = 0
                 then and_then (at_sweeper s SE_SpanTable (prepare_release (sp_table s) i)) (\<lambda>t. Ok (s\<lparr>sp_table := t\<rparr>))
                 else Ok s) of
            Err e \<Rightarrow> Some (Err e)
          | Panic \<Rightarrow> Some Panic
          | Ok s \<Rightarrow>
              Option.bind (sweep_objects types s i epoch before 0) (\<lambda>swept. Some (and_then swept (\<lambda>s. finish_small s i)))))"

definition large_owner_reference :: "span_id \<Rightarrow> ('e, raw_heap_ref) outcome" where
  "large_owner_reference i =
     and_then (expect (span_offset_new (word_of_nat MINIMUM_SLOT_SIZE_BYTES))) (\<lambda>offset. raw_heap_ref_from_parts i offset)"

definition release_large :: "sweeper \<Rightarrow> raw_heap_ref \<Rightarrow> (nat \<Rightarrow> sweep_stats \<Rightarrow> sweep_stats) \<Rightarrow> sweeper sweeping" where
  "release_large s r f =
     and_then (at_sweeper s SE_SpanTable (release_unpublished_large (sp_table s) r)) (\<lambda>(reclaimed, t).
     Ok (update_stats (s\<lparr>sp_table := t\<rparr>)
       (\<lambda>x. count_released (unat (lr_span_count reclaimed)) (lr_storage_bytes reclaimed) (f (lr_object_bytes reclaimed) x))))"

definition sweep_large :: "type_registry \<Rightarrow> sweeper \<Rightarrow> span_id \<Rightarrow> collection_epoch \<Rightarrow> sweeper sweeping" where
  "sweep_large types s i epoch =
     and_then (expect (table_large_metadata (sp_table s) i)) (\<lambda>metadata.
     and_then (large_owner_reference i) (\<lambda>r.
     if \<not> ls_allocated metadata
     then and_then (at_sweeper s SE_SpanTable (prepare_release (sp_table s) i)) (\<lambda>t.
          release_large (s\<lparr>sp_table := t\<rparr>) r (\<lambda>_ x. x))
     else let s = update_stats s (count_scanned (ls_object_bytes metadata)) in
       and_then (at_sweeper s SE_InvalidReference (reference_marked (sp_table s) r epoch)) (\<lambda>is_live.
       if is_live
       then Ok (update_stats s (\<lambda>x. (count_retained (ls_object_bytes metadata) x)
              \<lparr>sw_retained_tail_slack_bytes := sw_retained_tail_slack_bytes x +
                 (unat (ls_span_count metadata) * SPAN_SIZE_BYTES - (MINIMUM_SLOT_SIZE_BYTES + ls_object_bytes metadata))\<rparr>))
       else and_then (at_sweeper s SE_SpanTable (prepare_release (sp_table s) i)) (\<lambda>t.
            let s = s\<lparr>sp_table := t\<rparr> in
            and_then (resolve_drop types s r) (\<lambda>charged.
            and_then (at_sweeper s SE_SpanTable (unpublish_large_for_drop (sp_table s) r)) (\<lambda>t.
            release_large (s\<lparr>sp_table := t, sp_external_bytes := sp_external_bytes s - charged\<rparr>) r count_reclaimed))))))"

definition sweep_span :: "type_registry \<Rightarrow> sweeper \<Rightarrow> span_id \<Rightarrow> collection_epoch \<Rightarrow> sweeper sweeping option" where
  "sweep_span types s i epoch =
     (let s = update_stats s (\<lambda>x. x\<lparr>sw_spans_processed := sw_spans_processed x + 1\<rparr>) in
      case sweep_target (sp_table s) i of
        Some SweepSmall \<Rightarrow> sweep_small types s i epoch
      | Some SweepLargeOwner \<Rightarrow> Some (sweep_large types s i epoch)
      | None \<Rightarrow> Some (Ok s))"

text \<open>Every owner present when the sweep begins, in the order of their ids.\<close>

fun fill_worklist :: "sweeper \<Rightarrow> nat list \<Rightarrow> sweep_worklist \<Rightarrow> sweep_worklist sweeping" where
  "fill_worklist s [] w = Ok w"
| "fill_worklist s (index # indexes) w =
     (let i = word_of_nat index in
      if sweep_target (sp_table s) i \<noteq> None
      then and_then (at_sweeper s SE_Worklist (worklist_try_push w i)) (fill_worklist s indexes)
      else fill_worklist s indexes w)"

partial_function (option) drain_worklist ::
  "type_registry \<Rightarrow> collection_epoch \<Rightarrow> sweep_worklist \<Rightarrow> sweeper \<Rightarrow> (sweep_worklist \<times> sweeper) sweeping option" where
  "drain_worklist types epoch w s =
     (case worklist_pop w of
        (None, w) \<Rightarrow> Some (Ok (w, s))
      | (Some i, w) \<Rightarrow>
          Option.bind (sweep_span types s i epoch) (\<lambda>swept.
          case swept of
            Ok s \<Rightarrow> drain_worklist types epoch w s
          | Err e \<Rightarrow> Some (Err e)
          | Panic \<Rightarrow> Some Panic))"

definition sweep_full ::
  "type_registry \<Rightarrow> collection_epoch \<Rightarrow> sweep_worklist \<Rightarrow> sweeper \<Rightarrow> (sweep_worklist \<times> sweeper) sweeping option" where
  "sweep_full types epoch w s =
     (case fill_worklist s [0..<length (tb_entries (sp_table s))] (worklist_clear w) of
        Ok w \<Rightarrow> drain_worklist types epoch w s
      | Err e \<Rightarrow> Some (Err e)
      | Panic \<Rightarrow> Some Panic)"

section \<open>Teardown\<close>

text \<open>The destruction of a heap drops every payload still published, whatever its marks.\<close>

definition drop_large_payload_for_teardown :: "type_registry \<Rightarrow> sweeper \<Rightarrow> span_id \<Rightarrow> sweeper sweeping" where
  "drop_large_payload_for_teardown types s i =
     (case table_large_metadata (sp_table s) i of
        None \<Rightarrow> Ok s
      | Some metadata \<Rightarrow>
          if \<not> ls_allocated metadata then Ok s
          else and_then (large_owner_reference i) (\<lambda>r.
               and_then (resolve_drop types s r) (\<lambda>charged.
               and_then (at_sweeper s SE_SpanTable (unpublish_large_for_drop (sp_table s) r)) (\<lambda>t.
               Ok (s\<lparr>sp_table := t, sp_external_bytes := sp_external_bytes s - charged\<rparr>)))))"

partial_function (option) teardown_small :: "type_registry \<Rightarrow> span_id \<Rightarrow> sweeper \<Rightarrow> sweeper sweeping option" where
  "teardown_small types i s =
     (case next_allocated_reference (sp_table s) i 0 of
        Ok None \<Rightarrow> Some (Ok s)
      | Ok (Some r) \<Rightarrow>
          (case drop_small types s r of
             Ok s \<Rightarrow> teardown_small types i s
           | Err e \<Rightarrow> Some (Err e)
           | Panic \<Rightarrow> Some Panic)
      | Err e \<Rightarrow> Some (Err e)
      | Panic \<Rightarrow> Some Panic)"

fun teardown_spans :: "type_registry \<Rightarrow> nat list \<Rightarrow> sweeper \<Rightarrow> sweeper sweeping option" where
  "teardown_spans types [] s = Some (Ok s)"
| "teardown_spans types (index # indexes) s =
     (let i = word_of_nat index in
      case (case sweep_target (sp_table s) i of
              Some SweepSmall \<Rightarrow> teardown_small types i s
            | Some SweepLargeOwner \<Rightarrow> Some (drop_large_payload_for_teardown types s i)
            | None \<Rightarrow> Some (Ok s)) of
        Some (Ok s) \<Rightarrow> teardown_spans types indexes s
      | other \<Rightarrow> other)"

definition teardown_payloads :: "type_registry \<Rightarrow> sweeper \<Rightarrow> sweeper sweeping option" where
  "teardown_payloads types s = teardown_spans types [0..<length (tb_entries (sp_table s))] s"

end
