(* ===== verification/Gc_Mark_Frame.thy ===== *)
theory Gc_Mark_Frame
  imports Gc_Mark
begin

text \<open>
  What marking leaves alone: the spans of the table, their spaces and their storage. The marker of
  \<open>crates/tachyon-gc/src/mark.rs\<close> changes marks and weak slots only, so the facts about vacant ids and young spans that the
  sweep relies on survive it.
\<close>

definition same_shape :: "span_kind \<Rightarrow> span_kind \<Rightarrow> bool" where
  "same_shape kind kind' \<longleftrightarrow>
     (case (kind, kind') of
        (Small sp, Small sp') \<Rightarrow> ss_space (sm_metadata sp') = ss_space (sm_metadata sp) \<and> st_len (sm_storage sp') = st_len (sm_storage sp)
      | (LargeOwner sp, LargeOwner sp') \<Rightarrow>
          ls_span_count (lg_metadata sp') = ls_span_count (lg_metadata sp) \<and> st_len (lg_storage sp') = st_len (lg_storage sp)
      | (LargeContinuation owner ordinal, LargeContinuation owner' ordinal') \<Rightarrow> owner' = owner \<and> ordinal' = ordinal
      | _ \<Rightarrow> False)"

lemma same_shape_refl [simp]: "same_shape kind kind"
  by (simp add: same_shape_def split: span_kind.split)

lemma same_shape_trans: "same_shape a b \<Longrightarrow> same_shape b c \<Longrightarrow> same_shape a c"
  by (auto simp: same_shape_def split: span_kind.splits)

text \<open>Two tables with the same spans, which may hold other objects, marks and payloads.\<close>

definition same_frame :: "span_table \<Rightarrow> span_table \<Rightarrow> bool" where
  "same_frame t t' \<longleftrightarrow>
     tb_free_ranges t' = tb_free_ranges t \<and> tb_active_young_spans t' = tb_active_young_spans t \<and> tb_grants t' = tb_grants t \<and>
     list_all2 (\<lambda>e e'. en_in_eden_pool e' = en_in_eden_pool e \<and> rel_option same_shape (en_kind e) (en_kind e')) (tb_entries t) (tb_entries t')"

lemma same_frame_refl [simp]: "same_frame t t"
  by (auto simp: same_frame_def intro!: list.rel_refl option.rel_refl)

lemma same_frame_trans:
  assumes "same_frame a b" and "same_frame b c"
  shows "same_frame a c"
proof -
  have "rel_option same_shape x z" if "rel_option same_shape x y" "rel_option same_shape y z" for x y z
    using that same_shape_trans by (cases x; cases y; cases z) auto
  then have "list_all2 (\<lambda>e e'. en_in_eden_pool e' = en_in_eden_pool e \<and> rel_option same_shape (en_kind e) (en_kind e')) (tb_entries a) (tb_entries c)"
    using assms unfolding same_frame_def list_all2_conv_all_nth by (metis (no_types, lifting))
  then show ?thesis using assms by (simp add: same_frame_def)
qed

lemma same_frame_set_kind:
  assumes "table_kind t i = Some kind" and "same_shape kind kind'"
  shows "same_frame t (set_kind t i (Some kind'))"
proof -
  have less: "unat i < length (tb_entries t)" using assms(1) by (rule table_kind_some_less)
  have "en_kind (tb_entries t ! unat i) = Some kind" using assms(1) by (simp add: table_kind_nth [OF less])
  then show ?thesis using assms(2) less
    by (auto simp: same_frame_def set_kind_def update_entry_def list_all2_conv_all_nth nth_list_update intro!: option.rel_refl)
qed

lemma mark_reference_frame: "mark_reference t r e = Ok (b, t') \<Longrightarrow> same_frame t t'"
  by (auto simp: mark_reference_def Let_def outcome_simps large_mark_def same_shape_def
      split: option.splits span_kind.splits if_splits prod.splits intro!: same_frame_set_kind)

lemma write_payload_frame: "same_frame t (write_payload t r p)"
  by (auto simp: write_payload_def Let_def same_shape_def split: option.splits span_kind.splits intro!: same_frame_set_kind)

lemma write_payload_frames:
  "same_frame a t \<Longrightarrow> same_frame a (write_payload t r p)" "same_frame (write_payload t r p) b \<Longrightarrow> same_frame t b"
  using write_payload_frame same_frame_trans by blast+

lemma marker_fail_table [simp]: "mk_table (marker_fail m e) = mk_table m"
  by (simp add: marker_fail_def)

lemma marker_enqueue_frame: "marker_enqueue m r = Ok m' \<Longrightarrow> same_frame (mk_table m) (mk_table m')"
  by (auto simp: marker_enqueue_def Let_def split: if_splits outcome.splits bool.splits) (erule mark_reference_frame)+

lemma enqueue_value_frame: "enqueue_value m v = Ok m' \<Longrightarrow> same_frame (mk_table m) (mk_table m')"
  by (auto simp: enqueue_value_def split: option.splits dest: marker_enqueue_frame)

lemma reference_live_frame: "reference_live m r = Ok (b, m') \<Longrightarrow> same_frame (mk_table m) (mk_table m')"
  by (auto simp: reference_live_def split: outcome.splits)

lemma key_live_frame: "key_live m key = Ok (b, m') \<Longrightarrow> same_frame (mk_table m) (mk_table m')"
  by (auto simp: key_live_def split: option.splits dest: reference_live_frame)

lemma trace_value_frame: "trace_value m v = Ok m' \<Longrightarrow> same_frame (mk_table m) (mk_table m')"
  by (auto simp: trace_value_def split: if_splits dest: enqueue_value_frame)

lemma trace_weak_frame: "trace_weak_raw_heap_ref m x = Ok (y, m') \<Longrightarrow> same_frame (mk_table m) (mk_table m')"
  by (auto simp: trace_weak_raw_heap_ref_def outcome_simps split: trace_phase.splits option.splits if_splits dest!: reference_live_frame)

lemma trace_ephemeron_frame: "trace_ephemeron m key v = Ok (y, m') \<Longrightarrow> same_frame (mk_table m) (mk_table m')"
  by (auto simp: trace_ephemeron_def outcome_simps Let_def split: trace_phase.splits if_splits
      dest!: key_live_frame enqueue_value_frame intro: same_frame_trans)

lemma trace_finalization_frame: "trace_finalization m target held = Ok (y, m') \<Longrightarrow> same_frame (mk_table m) (mk_table m')"
proof (cases "mk_phase m")
  case Phase_EnqueueFinalization
  have "same_frame (mk_table b) (mk_table m')"
    if "(case pending_try_enqueue (mk_pending b) registry held of
          Panic \<Rightarrow> Panic
        | Ok pending \<Rightarrow> Ok ((None, undefined_value), b\<lparr>mk_pending := pending,
            mk_stats := (mk_stats b)\<lparr>mt_finalizations_enqueued := mt_finalizations_enqueued (mk_stats b) + 1\<rparr>\<rparr>)
        | Err e \<Rightarrow> Ok ((target, held), marker_fail b (FinalizationQueue e))) = Ok (y, m')" for b registry
    using that by (cases "pending_try_enqueue (mk_pending b) registry held") auto
  moreover assume "trace_finalization m target held = Ok (y, m')"
  ultimately show ?thesis using Phase_EnqueueFinalization
    by (auto simp: trace_finalization_def outcome_simps split: option.splits if_splits dest!: reference_live_frame intro: same_frame_trans)
qed (auto simp: trace_finalization_def outcome_simps dest!: trace_value_frame)

lemma trace_slot_frame: "trace_slot m item = Ok (y, m') \<Longrightarrow> same_frame (mk_table m) (mk_table m')"
  by (auto simp: trace_slot_def trace_raw_heap_ref_def outcome_simps split: trace_item.splits if_splits
      dest!: trace_value_frame marker_enqueue_frame trace_weak_frame trace_ephemeron_frame trace_finalization_frame)

lemma trace_payload_frame: "trace_payload m items = Ok (y, m') \<Longrightarrow> same_frame (mk_table m) (mk_table m')"
proof (induction items arbitrary: m y)
  case (Cons item items)
  then obtain x m1 y' where "trace_slot m item = Ok (x, m1)" "trace_payload m1 items = Ok (y', m')" by (auto simp: outcome_simps)
  then show ?case using Cons.IH trace_slot_frame same_frame_trans by blast
qed simp

lemma record_weak_owner_frame: "record_weak_owner m r = Ok m' \<Longrightarrow> same_frame (mk_table m) (mk_table m')"
  by (auto simp: record_weak_owner_def split: if_splits outcome.splits)

lemma drain_one_frame: "drain_one types m r = Ok m' \<Longrightarrow> same_frame (mk_table m) (mk_table m')"
  by (auto simp: drain_one_def outcome_simps split: outcome.splits dest!: record_weak_owner_frame trace_payload_frame write_payload_frames(2)
      intro: same_frame_trans write_payload_frames)

lemma trace_weak_owner_frame: "trace_weak_owner types m r = Ok m' \<Longrightarrow> same_frame (mk_table m) (mk_table m')"
  by (auto simp: trace_weak_owner_def outcome_simps split: outcome.splits dest!: trace_payload_frame
      intro: same_frame_trans write_payload_frames)

lemma drain_frame:
  assumes "drain types m = Some (Ok m')"
  shows "same_frame (mk_table m) (mk_table m')"
proof -
  have "\<forall>m'. x = Ok m' \<longrightarrow> same_frame (mk_table m) (mk_table m')" if call: "drain types m = Some x" for x
    by (rule drain.raw_induct [OF _ call, where P = "\<lambda>types m x. \<forall>m'. x = Ok m' \<longrightarrow> same_frame (mk_table m) (mk_table m')"])
  (auto split: if_splits prod.splits option.splits outcome.splits dest!: drain_one_frame intro: same_frame_trans)
  then show ?thesis using assms by blast
qed

lemma ephemeron_loop_frame: "ephemeron_loop types m indexes found = Ok (b, m') \<Longrightarrow> same_frame (mk_table m) (mk_table m')"
proof (induction types m indexes found rule: ephemeron_loop.induct)
  case (2 types m index indexes found)
  then show ?case by (auto simp: outcome_simps split: if_splits dest!: trace_weak_owner_frame intro: same_frame_trans)
qed simp

lemma ephemeron_closure_frame:
  assumes "ephemeron_closure types m = Some (Ok m')"
  shows "same_frame (mk_table m) (mk_table m')"
proof -
  have "\<forall>m'. x = Ok m' \<longrightarrow> same_frame (mk_table m) (mk_table m')" if call: "ephemeron_closure types m = Some x" for x
    by (rule ephemeron_closure.raw_induct [OF _ call, where P = "\<lambda>types m x. \<forall>m'. x = Ok m' \<longrightarrow> same_frame (mk_table m) (mk_table m')"],
      auto simp: Let_def split: if_splits prod.splits option.splits outcome.splits dest!: ephemeron_loop_frame drain_frame
          intro: same_frame_trans) (blast intro: same_frame_trans)+
  then show ?thesis using assms by blast
qed

lemma clear_weak_loop_frame: "clear_weak_loop types m indexes = Ok m' \<Longrightarrow> same_frame (mk_table m) (mk_table m')"
proof (induction types m indexes rule: clear_weak_loop.induct)
  case (2 types m index indexes)
  then show ?case by (auto simp: outcome_simps split: if_splits dest!: trace_weak_owner_frame intro: same_frame_trans)
qed simp

lemma finalization_loop_frame: "finalization_loop types m indexes = Ok m' \<Longrightarrow> same_frame (mk_table m) (mk_table m')"
proof (induction types m indexes rule: finalization_loop.induct)
  case (2 types m index indexes)
  then show ?case by (auto simp: outcome_simps split: if_splits dest!: trace_weak_owner_frame intro: same_frame_trans)
qed simp

lemma clear_and_finalize_frame: "clear_and_finalize types m = Ok m' \<Longrightarrow> same_frame (mk_table m) (mk_table m')"
  by (auto simp: clear_and_finalize_def outcome_simps split: if_splits dest!: clear_weak_loop_frame finalization_loop_frame
      intro: same_frame_trans)

lemma close_weak_frame: "close_weak types m = Some (Ok m') \<Longrightarrow> same_frame (mk_table m) (mk_table m')"
  by (auto simp: close_weak_def split: option.splits outcome.splits dest!: ephemeron_closure_frame clear_and_finalize_frame
      intro: same_frame_trans)

lemma mark_pending_loop_frame: "mark_pending_loop m indexes = Ok m' \<Longrightarrow> same_frame (mk_table m) (mk_table m')"
proof (induction m indexes rule: mark_pending_loop.induct)
  case (2 m index indexes)
  then show ?case by (auto simp: outcome_simps dest!: marker_enqueue_frame enqueue_value_frame intro: same_frame_trans)
qed simp

text \<open>Marking keeps the spans of the table.\<close>

lemma mark_strong_roots_frame:
  assumes "mark_strong_roots t types gq wq pending e roots = Some (Ok m)"
  shows "same_frame t (mk_table m)"
proof -
  let ?m0 = "marker_new t (bounded_queue_clear gq) (bounded_queue_clear wq) pending e"
  have t: "mk_table ?m0 = t" by (simp add: marker_new_def)
  obtain p m0 m1 m2 m3 where "trace_payload ?m0 roots = Ok (p, m0)" "mark_pending_finalization_roots m0 = Ok m1"
      "drain types m1 = Some (Ok m2)" "close_weak types m2 = Some (Ok m3)" "mk_table m = mk_table m3"
    using assms unfolding mark_strong_roots_def Let_def
    by (auto simp: outcome_simps split: option.splits outcome.splits prod.splits if_splits)
  then show ?thesis
    using trace_payload_frame mark_pending_loop_frame drain_frame close_weak_frame same_frame_trans t
    by (metis mark_pending_finalization_roots_def)
qed

end
