(* ===== verification/Gc_Sweep_Exact.thy ===== *)
theory Gc_Sweep_Exact
  imports Gc_Sweep Gc_Mark_Frame
begin

text \<open>
  The sweep and the teardown are exact. A part of the sweep is described by the set of dead objects that leave the heap; the
  descriptions compose, so that the loops over slots, spans and the worklist each add up the sets of their steps. Together with the
  mark phase this gives the correctness of a full collection.
\<close>

unbundle bit_operations_syntax

section \<open>The heap between phases\<close>

definition active_young :: "span_entry \<Rightarrow> bool" where
  "active_young e \<longleftrightarrow>
     (case en_kind e of Some (Small sp) \<Rightarrow> is_young_space (ss_space (sm_metadata sp)) | _ \<Rightarrow> False) \<and> \<not> en_in_eden_pool e"

definition vacancy_inv :: "span_table \<Rightarrow> bool" where
  "vacancy_inv t \<longleftrightarrow>
     coalesced (tb_free_ranges t) \<and>
     (\<forall>i \<in> free_ids (tb_free_ranges t). unat i < length (tb_entries t) \<and> table_kind t i = None)"

definition heap_inv :: "span_table \<Rightarrow> bool" where
  "heap_inv t \<longleftrightarrow>
     table_inv t \<and> vacancy_inv t \<and> length (filter active_young (tb_entries t)) \<le> tb_active_young_spans t"

lemma length_filter_update:
  "i < length xs \<Longrightarrow>
     length (filter P (xs[i := y])) + (if P (xs ! i) then 1 else 0) = length (filter P xs) + (if P y then 1 else 0)"
proof (induction xs arbitrary: i)
  case (Cons x xs)
  then show ?case by (cases i) auto
qed simp

text \<open>Replacing the kind of a span by one of the same space.\<close>

lemma heap_inv_set_kind:
  assumes inv: "heap_inv t" and kind: "table_kind t i = Some kind" and new: "table_inv (set_kind t i (Some kind'))"
    and young: "\<And>sp'. kind' = Small sp' \<Longrightarrow> \<exists>sp. kind = Small sp \<and> ss_space (sm_metadata sp') = ss_space (sm_metadata sp)"
  shows "heap_inv (set_kind t i (Some kind'))"
proof -
  have less: "unat i < length (tb_entries t)" using kind by (rule table_kind_some_less)
  have old: "en_kind (tb_entries t ! unat i) = Some kind" using kind table_kind_nth [OF less] by simp
  have "vacancy_inv (set_kind t i (Some kind'))"
    using inv kind by (auto simp: heap_inv_def vacancy_inv_def table_kind_set_kind [OF less]) (auto simp: set_kind_def update_entry_def)
  moreover have "active_young ((tb_entries t ! unat i)\<lparr>en_kind := Some kind'\<rparr>) \<Longrightarrow> active_young (tb_entries t ! unat i)"
    using old young by (cases kind') (auto simp: active_young_def)
  then have "length (filter active_young (tb_entries (set_kind t i (Some kind')))) \<le> length (filter active_young (tb_entries t))"
    using length_filter_update [OF less, of active_young "(tb_entries t ! unat i)\<lparr>en_kind := Some kind'\<rparr>"]
    by (auto simp: set_kind_def update_entry_def split: if_splits)
  ultimately show ?thesis using inv new by (auto simp: heap_inv_def set_kind_def update_entry_def)
qed

text \<open>The bytes behind a span, which with the header and the payload determine a payload access.\<close>

definition span_len :: "span_table \<Rightarrow> span_id \<Rightarrow> nat" where
  "span_len t i =
     (case table_kind t i of
        Some (Small sp) \<Rightarrow> st_len (sm_storage sp)
      | Some (LargeOwner sp) \<Rightarrow> st_len (lg_storage sp)
      | _ \<Rightarrow> 0)"

lemma checked_placement_len:
  assumes "st_len s = st_len s'"
  shows "checked_placement s off l = checked_placement s' off l"
  unfolding checked_placement_def assms ..

lemma payload_address_eq:
  assumes inv: "table_inv t" and obj: "heap_objects t r = Some (h, p)"
  shows "payload_address t r d =
    (if gh_type_id h \<noteq> td_type_id d then Err (TypeMismatch (td_type_id d) (gh_type_id h))
     else map_err (\<lambda>_. PayloadAccess r)
       (and_then (checked_placement \<lparr>st_len = span_len t (raw_heap_ref_span_id r), st_blocks = \<lambda>_. (zero_header, [])\<rparr> (ucast r) (td_layout d)) (\<lambda>_. Ok p)))"
proof -
  have r: "valid_ref r" using obj by (rule heap_objects_valid_ref)
  have place: "checked_placement s (ucast r) l =
      checked_placement \<lparr>st_len = st_len s, st_blocks = \<lambda>_. (zero_header, [])\<rparr> (ucast r) l" for s l
    by (rule checked_placement_len) simp
  from inv obj show ?thesis
  proof (cases rule: live_kind_cases)
    case (small sp s)
    then show ?thesis using place [of "sm_storage sp" "td_layout d"]
      by (simp add: payload_address_def verify_reference_live [OF inv obj] valid_ref_offset [OF r] span_len_def)
  next
    case (large sp)
    then show ?thesis using place [of "lg_storage sp" "td_layout d"]
      by (simp add: payload_address_def verify_reference_live [OF inv obj] valid_ref_offset [OF r] span_len_def)
  qed
qed

definition described :: "type_registry \<Rightarrow> span_table \<Rightarrow> bool" where
  "described types t \<longleftrightarrow>
     (\<forall>r h p. heap_objects t r = Some (h, p) \<longrightarrow>
        (\<exists>d. registry_descriptor types (gh_type_id h) = Some d \<and> payload_address t r d = Ok p))"

definition object_charge :: "span_table \<Rightarrow> raw_heap_ref \<Rightarrow> nat" where
  "object_charge t r = (case heap_objects t r of Some (h, p) \<Rightarrow> charged_bytes h | None \<Rightarrow> 0)"

text \<open>A heap ready to be swept: its types are registered and its account covers the charges of its objects.\<close>

definition ready :: "type_registry \<Rightarrow> sweeper \<Rightarrow> bool" where
  "ready types s \<longleftrightarrow>
     heap_inv (sp_table s) \<and> (\<forall>n. tb_grants (sp_table s) n) \<and> described types (sp_table s) \<and>
     sum (object_charge (sp_table s)) (dom (heap_objects (sp_table s))) \<le> sp_external_bytes s"

section \<open>Sweeping as a relation\<close>

text \<open>The effect of a part of the sweep: some dead objects leave the heap and the account, all else stays.\<close>

definition sweeps :: "collection_epoch \<Rightarrow> raw_heap_ref set \<Rightarrow> sweeper \<Rightarrow> sweeper \<Rightarrow> bool" where
  "sweeps e D s s' \<longleftrightarrow>
     heap_inv (sp_table s') \<and> tb_grants (sp_table s') = tb_grants (sp_table s) \<and>
     D \<subseteq> dom (heap_objects (sp_table s)) - heap_marked (sp_table s) e \<and>
     heap_objects (sp_table s') = heap_objects (sp_table s) |` (- D) \<and>
     heap_marked (sp_table s') e = heap_marked (sp_table s) e \<and>
     (\<forall>r. heap_objects (sp_table s') r \<noteq> None \<longrightarrow>
        span_len (sp_table s') (raw_heap_ref_span_id r) = span_len (sp_table s) (raw_heap_ref_span_id r)) \<and>
     sp_external_bytes s' + sum (object_charge (sp_table s)) D = sp_external_bytes s"

lemma sweeps_refl: "heap_inv (sp_table s) \<Longrightarrow> sweeps e {} s s"
  by (auto simp: sweeps_def restrict_map_def)

lemma sweeps_objects: "sweeps e D s s' \<Longrightarrow> heap_objects (sp_table s') r = (if r \<in> D then None else heap_objects (sp_table s) r)"
  by (auto simp: sweeps_def)

lemma sweeps_charge: "sweeps e D s s' \<Longrightarrow> r \<notin> D \<Longrightarrow> object_charge (sp_table s') r = object_charge (sp_table s) r"
  by (auto simp: object_charge_def sweeps_def)

lemma sweeps_disjoint: "sweeps e D s s' \<Longrightarrow> sweeps e D' s' s'' \<Longrightarrow> D \<inter> D' = {}"
  by (auto simp: sweeps_def)

lemma sweeps_trans:
  assumes a: "sweeps e D s s'" and b: "sweeps e D' s' s''"
  shows "sweeps e (D \<union> D') s s''"
proof -
  have "sum (object_charge (sp_table s')) D' = sum (object_charge (sp_table s)) D'"
    using sweeps_disjoint [OF a b] sweeps_charge [OF a] by (intro sum.cong) auto
  then have "sum (object_charge (sp_table s)) (D \<union> D') = sum (object_charge (sp_table s)) D + sum (object_charge (sp_table s')) D'"
    using sweeps_disjoint [OF a b] by (simp add: sum.union_disjoint)
  moreover have "span_len (sp_table s'') (raw_heap_ref_span_id r) = span_len (sp_table s) (raw_heap_ref_span_id r)"
    if "heap_objects (sp_table s'') r \<noteq> None" for r
    using that sweeps_objects [OF b, of r] a b by (auto simp: sweeps_def split: if_splits)
  moreover have "heap_objects (sp_table s'') = heap_objects (sp_table s) |` (- (D \<union> D'))"
    by (intro ext) (simp add: sweeps_objects [OF b] sweeps_objects [OF a] restrict_map_def)
  ultimately show ?thesis using a b by (auto simp: sweeps_def)
qed

lemma sweeps_ready:
  assumes ready: "ready types s" and sw: "sweeps e D s s'"
  shows "ready types s'"
proof -
  let ?t = "sp_table s" and ?t' = "sp_table s'"
  have inv: "table_inv ?t" "table_inv ?t'" using ready sw by (auto simp: ready_def sweeps_def heap_inv_def)
  have "\<exists>d. registry_descriptor types (gh_type_id h) = Some d \<and> payload_address ?t' r d = Ok p" if obj: "heap_objects ?t' r = Some (h, p)" for r h p
  proof -
    have obj': "heap_objects ?t r = Some (h, p)" "span_len ?t' (raw_heap_ref_span_id r) = span_len ?t (raw_heap_ref_span_id r)"
      using obj sw by (auto simp: sweeps_def restrict_map_def split: if_splits)
    then obtain d where "registry_descriptor types (gh_type_id h) = Some d" "payload_address ?t r d = Ok p"
      using ready unfolding ready_def described_def by blast
    then show ?thesis unfolding payload_address_eq [OF inv(1) obj'(1)] payload_address_eq [OF inv(2) obj] obj'(2) by blast
  qed
  then have "described types ?t'" by (auto simp: described_def)
  moreover have "sum (object_charge ?t') (dom (heap_objects ?t')) \<le> sp_external_bytes s'"
  proof -
    have D: "D \<subseteq> dom (heap_objects ?t)" "dom (heap_objects ?t') = dom (heap_objects ?t) - D" using sw by (auto simp: sweeps_def)
    have "sum (object_charge ?t') (dom (heap_objects ?t')) = sum (object_charge ?t) (dom (heap_objects ?t) - D)"
      unfolding D(2) using sweeps_charge [OF sw] by (intro sum.cong) auto
    also have "\<dots> + sum (object_charge ?t) D = sum (object_charge ?t) (dom (heap_objects ?t))"
      using D(1) by (simp add: sum.subset_diff [symmetric])
    finally show ?thesis using ready sw by (auto simp: ready_def sweeps_def)
  qed
  ultimately show ?thesis using ready sw by (auto simp: ready_def sweeps_def)
qed

text \<open>A part of the sweep that replaces one span by one of the same shape.\<close>

lemma sweeps_set_kind:
  assumes inv: "heap_inv (sp_table s)" and kind: "table_kind (sp_table s) i = Some kind"
    and kind': "span_inv kind'" "same_shape kind kind'"
    and s': "sp_table s' = set_kind (sp_table s) i (Some kind')" "sp_external_bytes s' + sum (object_charge (sp_table s)) D = sp_external_bytes s"
    and D: "D \<subseteq> dom (heap_objects (sp_table s)) - heap_marked (sp_table s) e" "\<And>r. r \<in> D \<Longrightarrow> raw_heap_ref_span_id r = i"
    and objs: "\<And>r. raw_heap_ref_span_id r = i \<Longrightarrow> span_object kind' (ucast r) = (if r \<in> D then None else span_object kind (ucast r))"
    and marks: "\<And>r. raw_heap_ref_span_id r = i \<Longrightarrow> r \<notin> D \<Longrightarrow> span_marked kind' e (ucast r) = span_marked kind e (ucast r)"
  shows "sweeps e D s s'"
proof -
  let ?t = "sp_table s" and ?t' = "sp_table s'"
  have less: "unat i < length (tb_entries ?t)" using kind by (rule table_kind_some_less)
  have "table_inv ?t'" unfolding s'(1) using inv kind kind'
    by (intro table_inv_set_kind [where kind = kind]) (auto simp: heap_inv_def same_shape_def split: span_kind.splits)
  then have heap': "heap_inv ?t'" unfolding s'(1) using kind'(2)
    by (intro heap_inv_set_kind [OF inv kind]) (auto simp: same_shape_def split: span_kind.splits)
  have ho: "heap_objects ?t' r = (if r \<in> D then None else heap_objects ?t r)" for r
    using kind objs [of r] D(2) [of r] by (auto simp: s'(1) heap_objects_set_kind [OF less]) (auto simp: heap_objects_def)
  have "r \<in> heap_marked ?t' e \<longleftrightarrow> r \<in> heap_marked ?t e" for r
  proof (cases "r \<in> D")
    case True
    then have "r \<notin> heap_marked ?t e" using D(1) by blast
    then show ?thesis using True unfolding heap_marked_def mem_Collect_eq ho by simp
  next
    case False
    then show ?thesis using kind marks [of r] unfolding heap_marked_def mem_Collect_eq ho
      by (cases "raw_heap_ref_span_id r = i") (simp_all add: s'(1) table_kind_set_kind [OF less])
  qed
  moreover have "span_len ?t' j = span_len ?t j" for j
    using kind kind'(2) by (auto simp: span_len_def s'(1) table_kind_set_kind [OF less] same_shape_def split: span_kind.splits)
  moreover have "heap_objects ?t' = heap_objects ?t |` (- D)" by (intro ext) (simp add: ho restrict_map_def)
  ultimately show ?thesis using heap' D(1) s'(2) unfolding sweeps_def by (auto simp: s'(1) set_kind_def update_entry_def)
qed

lemma update_stats_simps [simp]:
  "sp_table (update_stats s f) = sp_table s" "sp_external_bytes (update_stats s f) = sp_external_bytes s"
  "sp_stats (update_stats s f) = f (sp_stats s)"
  by (simp_all add: update_stats_def)

lemma sweeps_stats [simp]:
  "sweeps e D (update_stats s f) s' \<longleftrightarrow> sweeps e D s s'" "sweeps e D s (update_stats s' f) \<longleftrightarrow> sweeps e D s s'"
  "ready types (update_stats s f) \<longleftrightarrow> ready types s"
  by (simp_all add: sweeps_def ready_def)

lemma at_sweeper_Ok [simp]: "at_sweeper s f (Ok x) = Ok x"
  by (simp add: at_sweeper_def)

lemma readyD:
  assumes "ready types s"
  shows "heap_inv (sp_table s)" "table_inv (sp_table s)" "vacancy_inv (sp_table s)" "coalesced (tb_free_ranges (sp_table s))"
    "tb_grants (sp_table s) n"
  using assms by (auto simp: ready_def heap_inv_def vacancy_inv_def)

lemma resolve_drop_ok:
  assumes ready: "ready types s" and obj: "heap_objects (sp_table s) r = Some (h, p)"
  shows "resolve_drop types s r = Ok (charged_bytes h)" "charged_bytes h \<le> sp_external_bytes s"
    "object_charge (sp_table s) r = charged_bytes h"
proof -
  note inv = readyD(2) [OF ready]
  show charge: "object_charge (sp_table s) r = charged_bytes h" using obj by (simp add: object_charge_def)
  have "object_charge (sp_table s) r \<le> sum (object_charge (sp_table s)) (dom (heap_objects (sp_table s)))"
    using obj by (intro member_le_sum) auto
  then show enough: "charged_bytes h \<le> sp_external_bytes s" using ready charge by (simp add: ready_def)
  obtain d where d: "registry_descriptor types (gh_type_id h) = Some d" "payload_address (sp_table s) r d = Ok p"
    using ready obj unfolding ready_def described_def by blast
  show "resolve_drop types s r = Ok (charged_bytes h)"
    using verify_reference_live [OF inv obj] d enough
    by (simp add: resolve_drop_def header_type_id_def gc_type_id_new_def ensure_external_charge_available_def)
qed

lemma reclaimed_fields [simp]:
  "ss_size_class (reclaimed m slot) = ss_size_class m" "ss_marks (reclaimed m slot) = ss_marks m"
  "ss_space (reclaimed m slot) = ss_space m"
  by (auto simp: reclaimed_def)

lemma span_object_reclaimed:
  assumes "small_span_inv (sm_metadata sp)" and "valid_slot slot"
  shows "span_object (Small (sp\<lparr>sm_metadata := reclaimed (sm_metadata sp) slot\<rparr>)) off =
    (if slot_for_offset (ss_size_class (sm_metadata sp)) off = Some slot then None else span_object (Small sp) off)"
  by (simp add: span_object_def reclaim_allocation_eq [OF assms] split: option.splits)

lemma drop_small_ok:
  assumes ready: "ready types s" and obj: "heap_objects (sp_table s) r = Some (h, p)" and dead: "r \<notin> heap_marked (sp_table s) e"
    and kind: "table_kind (sp_table s) (raw_heap_ref_span_id r) = Some (Small sp)"
  shows "\<exists>s' sp'. drop_small types s r = Ok s' \<and> sweeps e {r} s s' \<and> sp_stats s' = sp_stats s \<and>
    table_kind (sp_table s') (raw_heap_ref_span_id r) = Some (Small sp') \<and> ss_size_class (sm_metadata sp') = ss_size_class (sm_metadata sp)"
proof -
  let ?t = "sp_table s" and ?i = "raw_heap_ref_span_id r" and ?m = "sm_metadata sp"
  note inv = readyD(2) [OF ready]
  have r: "valid_ref r" using obj by (rule heap_objects_valid_ref)
  obtain slot where slot: "slot_for_offset (ss_size_class ?m) (ucast r) = Some slot" "valid_slot slot"
      "slot \<in> slots_of (ss_allocations ?m)" "span_inv (Small sp)"
    using inv obj by (cases rule: live_kind_cases) (use kind in auto)
  have m: "small_span_inv ?m" using slot(4) by (simp add: span_inv_def)
  note re = reclaim_allocation_eq [OF m slot(2)]
  let ?sp = "sp\<lparr>sm_metadata := reclaimed ?m slot\<rparr>"
  define s' where "s' = s\<lparr>sp_table := set_kind ?t ?i (Some (Small ?sp)), sp_external_bytes := sp_external_bytes s - charged_bytes h\<rparr>"
  have "drop_small types s r = Ok s'"
    using kind slot(1,3) by (simp add: drop_small_def resolve_drop_ok [OF ready obj] unpublish_small_for_drop_def valid_ref_offset [OF r] re(1) s'_def)
  moreover have objs: "span_object (Small ?sp) (ucast r') = (if r' \<in> {r} then None else span_object (Small sp) (ucast r'))"
    if "raw_heap_ref_span_id r' = ?i" for r'
  proof -
    have "slot_for_offset (ss_size_class ?m) (ucast r') = Some slot \<longleftrightarrow> r' = r"
      using ref_eqI [OF that] small_slot_unique [OF m _ slot(1)] slot(1) by blast
    then show ?thesis by (simp add: span_object_reclaimed [OF m slot(2)])
  qed
  have "sweeps e {r} s s'"
  proof (rule sweeps_set_kind [OF readyD(1) [OF ready] kind])
    show "span_inv (Small ?sp)"
      using slot(4) re(2) unfolding span_inv_def by (simp add: span_object_reclaimed [OF m slot(2)])
    show "sp_external_bytes s' + sum (object_charge ?t) {r} = sp_external_bytes s"
      using resolve_drop_ok [OF ready obj] by (simp add: s'_def)
    show "span_object (Small ?sp) (ucast r') = (if r' \<in> {r} then None else span_object (Small sp) (ucast r'))"
      if "raw_heap_ref_span_id r' = ?i" for r' using that by (rule objs)
    show "span_marked (Small ?sp) e (ucast r') = span_marked (Small sp) e (ucast r')" for r' :: raw_heap_ref
      by (simp add: span_marked_def split: option.split)
  qed (use obj dead in \<open>auto simp: same_shape_def s'_def\<close>)
  moreover have "table_kind (sp_table s') ?i = Some (Small ?sp)"
    by (simp add: s'_def table_kind_set_kind [OF table_kind_some_less [OF kind]])
  ultimately show ?thesis by (intro exI [of _ s'] exI [of _ ?sp]) (simp add: s'_def)
qed

definition reclaims :: "collection_epoch \<Rightarrow> raw_heap_ref set \<Rightarrow> sweeper \<Rightarrow> sweeper \<Rightarrow> bool" where
  "reclaims e D s s' \<longleftrightarrow>
     sweeps e D s s' \<and> sw_reclaimed_objects (sp_stats s') = sw_reclaimed_objects (sp_stats s) + card D"

lemma reclaims_refl: "heap_inv (sp_table s) \<Longrightarrow> reclaims e {} s s"
  by (simp add: reclaims_def sweeps_refl)

lemma reclaims_trans: "reclaims e D s s' \<Longrightarrow> reclaims e D' s' s'' \<Longrightarrow> reclaims e (D \<union> D') s s''"
  using sweeps_trans sweeps_disjoint by (fastforce simp: reclaims_def card_Un_disjoint)

lemma reclaims_ready: "ready types s \<Longrightarrow> reclaims e D s s' \<Longrightarrow> ready types s'"
  using sweeps_ready by (auto simp: reclaims_def)

lemma counting [simp]:
  "sw_reclaimed_objects (count_scanned n x) = sw_reclaimed_objects x" "sw_reclaimed_objects (count_retained n x) = sw_reclaimed_objects x"
  "sw_reclaimed_objects (count_reclaimed n x) = sw_reclaimed_objects x + 1" "sw_reclaimed_objects (count_released k n x) = sw_reclaimed_objects x"
  "sw_reclaimed_objects (account_retained_small a x) = sw_reclaimed_objects x"
  by (simp_all add: count_scanned_def count_retained_def count_reclaimed_def count_released_def account_retained_small_def Let_def)

section \<open>Small spans\<close>

text \<open>A small span of a size class, as the snapshot before the sweep found it.\<close>

definition holds_class :: "sweeper \<Rightarrow> span_id \<Rightarrow> size_class \<Rightarrow> bool" where
  "holds_class s i c \<longleftrightarrow> (\<exists>sp. table_kind (sp_table s) i = Some (Small sp) \<and> ss_size_class (sm_metadata sp) = c)"

lemma holds_class_stats [simp]: "holds_class (update_stats s f) i c \<longleftrightarrow> holds_class s i c"
  by (simp add: holds_class_def)

lemma sweep_one_ok:
  assumes ready: "ready types s" and obj: "heap_objects (sp_table s) r = Some (h, p)" and kind: "holds_class s (raw_heap_ref_span_id r) c"
  shows "\<exists>s'. sweep_one types s e n r = Ok s' \<and> reclaims e ({r} - heap_marked (sp_table s) e) s s' \<and>
    holds_class s' (raw_heap_ref_span_id r) c"
proof (cases "r \<in> heap_marked (sp_table s) e")
  case True
  then show ?thesis using reference_marked_live [OF readyD(2) [OF ready] obj] kind sweeps_refl [OF readyD(1) [OF ready]]
    by (simp add: sweep_one_def reclaims_def)
next
  case False
  let ?s = "update_stats s (count_scanned n)"
  obtain sp where sp: "table_kind (sp_table s) (raw_heap_ref_span_id r) = Some (Small sp)" "ss_size_class (sm_metadata sp) = c"
    using kind by (auto simp: holds_class_def)
  obtain s' sp' where s': "drop_small types ?s r = Ok s'" "sweeps e {r} ?s s'" "sp_stats s' = sp_stats ?s"
      "table_kind (sp_table s') (raw_heap_ref_span_id r) = Some (Small sp')" "ss_size_class (sm_metadata sp') = c"
    using drop_small_ok [of types ?s r h p e sp] ready obj False sp by auto
  moreover have "{r} - heap_marked (sp_table s) e = {r}" using False by blast
  ultimately show ?thesis using False reference_marked_live [OF readyD(2) [OF ready] obj]
    by (simp add: sweep_one_def reclaims_def holds_class_def)
qed

text \<open>The dead objects of a span from a slot on.\<close>

definition dead_from :: "span_table \<Rightarrow> collection_epoch \<Rightarrow> span_id \<Rightarrow> size_class \<Rightarrow> u16 \<Rightarrow> raw_heap_ref set" where
  "dead_from t e i c cursor =
     {r. raw_heap_ref_span_id r = i \<and> heap_objects t r \<noteq> None \<and> r \<notin> heap_marked t e \<and>
         (\<exists>slot. slot_for_offset c (ucast r) = Some slot \<and> cursor \<le> slot)}"

lemma next_reference_cases:
  assumes inv: "table_inv t" and kind: "table_kind t i = Some (Small sp)" and c: "sn_size_class before = ss_size_class (sm_metadata sp)"
  obtains (none) "next_reference t i before cursor = (Ok None :: ('e, _) outcome)"
      "\<And>r slot. raw_heap_ref_span_id r = i \<Longrightarrow> heap_objects t r \<noteq> None \<Longrightarrow>
         slot_for_offset (ss_size_class (sm_metadata sp)) (ucast r) = Some slot \<Longrightarrow> slot < cursor"
  | (some) r slot h p where "next_reference t i before cursor = (Ok (Some (r, slot + 1)) :: ('e, _) outcome)"
      "raw_heap_ref_span_id r = i" "heap_objects t r = Some (h, p)" "unat slot < 4095" "cursor \<le> slot"
      "slot_for_offset (ss_size_class (sm_metadata sp)) (ucast r) = Some slot"
      "\<And>r' slot'. raw_heap_ref_span_id r' = i \<Longrightarrow> heap_objects t r' \<noteq> None \<Longrightarrow>
         slot_for_offset (ss_size_class (sm_metadata sp)) (ucast r') = Some slot' \<Longrightarrow> cursor \<le> slot' \<Longrightarrow> slot' < slot + 1 \<Longrightarrow> r' = r"
proof -
  let ?m = "sm_metadata sp"
  let ?A = "slots_of (ss_allocations ?m)"
  have "span_inv (Small sp)" using inv kind by (auto simp: table_inv_def)
  then have m: "small_span_inv ?m" by (simp add: span_inv_def)
  note bits = small_span_invD(2) [OF m]
  have obj: "slot \<in> ?A" if "raw_heap_ref_span_id r = i" "heap_objects t r \<noteq> None" "slot_for_offset (ss_size_class ?m) (ucast r) = Some slot" for r slot
    using that kind by (auto simp: heap_objects_def span_object_def split: if_splits)
  have metadata: "table_metadata t i = Some ?m" using kind by (simp add: table_metadata_def)
  show thesis
  proof (cases "\<exists>slot \<in> ?A. cursor \<le> slot")
    case False
    then have "next_reference t i before cursor = (Ok None :: ('e, _) outcome)"
      by (simp add: next_reference_def next_allocated_reference_def metadata bitmap_next_set_eq [OF bits])
    moreover have "slot < cursor" if "raw_heap_ref_span_id r = i" "heap_objects t r \<noteq> None"
        "slot_for_offset (ss_size_class ?m) (ucast r) = Some slot" for r slot
      using obj [OF that] False by (auto simp: not_le)
    ultimately show ?thesis by (rule none)
  next
    case True
    define slot where "slot = (LEAST slot. slot \<in> ?A \<and> cursor \<le> slot)"
    have slot: "slot \<in> ?A" "cursor \<le> slot" and least: "\<And>slot'. slot' \<in> ?A \<Longrightarrow> cursor \<le> slot' \<Longrightarrow> slot \<le> slot'"
      unfolding slot_def using True LeastI_ex [of "\<lambda>slot. slot \<in> ?A \<and> cursor \<le> slot"] by (auto intro: Least_le)
    have lt: "unat slot < 4095" using slots_of_facts(2) [OF bits slot(1)] .
    have cls: "valid_class (ss_size_class ?m)" by (rule small_span_invD [OF m])
    obtain off where off: "offset_for_slot (ss_size_class ?m) slot = Some off"
      using offset_for_slot_eq [OF cls] allocated_slot_valid [OF m slot(1)] by auto
    then have off': "slot_for_offset (ss_size_class ?m) off = Some slot" using slot_for_offset_iff [OF cls] by blast
    then have nz: "off \<noteq> 0" using slot_offset_aligned(4) [OF m] by blast
    let ?r = "mk_ref i off"
    note parts = mk_ref_parts [OF nz, of i]
    have found: "next_reference t i before cursor = (Ok (Some (?r, slot + 1)) :: ('e, _) outcome)"
      using True off' by (simp add: next_reference_def next_allocated_reference_def metadata bitmap_next_set_eq [OF bits]
          slot_def [symmetric] off parts reference_slot_successor_def c valid_ref_offset [OF parts(4)])
    obtain h p where live: "heap_objects t ?r = Some (h, p)"
      using kind off' slot(1) parts by (cases "st_blocks (sm_storage sp) off") (auto simp: heap_objects_def span_object_def)
    have only: "r' = ?r" if r': "raw_heap_ref_span_id r' = i" "heap_objects t r' \<noteq> None"
        "slot_for_offset (ss_size_class ?m) (ucast r') = Some slot'" "cursor \<le> slot'" "slot' < slot + 1" for r' slot'
    proof -
      have "slot' \<le> slot" using r'(5) lt by (auto simp: word_less_nat_alt word_le_nat_alt unat_word_ariths)
      then have "slot' = slot" using least [OF obj [OF r'(1-3)] r'(4)] by simp
      then show ?thesis using small_slot_unique [OF m r'(3)] off' r'(1) parts by (intro ref_eqI) auto
    qed
    have at: "slot_for_offset (ss_size_class ?m) (ucast ?r) = Some slot" using off' parts(3) by simp
    show ?thesis using only by (rule some [OF found parts(2) live lt slot(2) at])
  qed
qed

lemma holds_class_Small:
  assumes "holds_class s i c"
  obtains sp where "table_kind (sp_table s) i = Some (Small sp)" "ss_size_class (sm_metadata sp) = c"
  using assms by (auto simp: holds_class_def)

lemma slot_after: "unat (slot :: u16) < 4095 \<Longrightarrow> unat (slot + 1) = unat slot + 1"
  by (simp add: unat_word_ariths)

lemma count_live_returns:
  assumes inv: "table_inv (sp_table s)" and kind: "holds_class s i (sn_size_class before)"
  shows "\<exists>n. count_live s i e before cursor live = Some (Ok n)"
proof (induction "65536 - unat cursor" arbitrary: cursor live rule: less_induct)
  case less
  obtain sp where sp: "table_kind (sp_table s) i = Some (Small sp)" "sn_size_class before = ss_size_class (sm_metadata sp)"
    using kind by (metis holds_class_Small)
  from inv sp show ?case
  proof (cases rule: next_reference_cases [where cursor = cursor and 'e = "sweep_error \<times> sweeper", case_names none some])
    case none
    then show ?thesis by (simp add: count_live.simps [of s i e before cursor])
  next
    case (some r slot h p)
    have "65536 - unat (slot + 1) < 65536 - unat cursor"
      using some(4,5) slot_after [OF some(4)] unat_u16_less [of cursor] by (auto simp: word_le_nat_alt)
    then obtain n where "count_live s i e before (slot + 1) (if r \<in> heap_marked (sp_table s) e then live + 1 else live) = Some (Ok n)"
      using less by blast
    then show ?thesis using some(1) reference_marked_live [OF inv some(3)] by (simp add: count_live.simps [of s i e before cursor])
  qed
qed

lemma sweep_objects_ok:
  assumes "ready types s" and "holds_class s i c" and "sn_size_class before = c"
  shows "\<exists>s'. sweep_objects types s i e before cursor = Some (Ok s') \<and> reclaims e (dead_from (sp_table s) e i c cursor) s s' \<and> holds_class s' i c"
  using assms
proof (induction "65536 - unat cursor" arbitrary: cursor s rule: less_induct)
  case less
  let ?t = "sp_table s"
  obtain sp where sp: "table_kind ?t i = Some (Small sp)" "ss_size_class (sm_metadata sp) = c" using less.prems(2) by (rule holds_class_Small)
  then have sp': "sn_size_class before = ss_size_class (sm_metadata sp)" using less.prems(3) by simp
  from readyD(2) [OF less.prems(1)] sp(1) sp' show ?case
  proof (cases rule: next_reference_cases [where cursor = cursor and 'e = "sweep_error \<times> sweeper", case_names none some])
    case none
    then have "dead_from ?t e i c cursor = {}" using sp(2) by (fastforce simp: dead_from_def not_le)
    then show ?thesis using none(1) less.prems reclaims_refl [OF readyD(1) [OF less.prems(1)]]
      by (simp add: sweep_objects.simps [of types s i e before cursor])
  next
    case (some r slot h p)
    let ?D = "{r} - heap_marked ?t e"
    obtain s1 where s1: "sweep_one types s e (unat (sn_size_class before)) r = Ok s1" "reclaims e ?D s s1" "holds_class s1 i c"
      using sweep_one_ok [OF less.prems(1) some(3), of c e "unat (sn_size_class before)"] less.prems(2) some(2) by auto
    have "65536 - unat (slot + 1) < 65536 - unat cursor"
      using some(4,5) slot_after [OF some(4)] unat_u16_less [of cursor] by (auto simp: word_le_nat_alt)
    then obtain s' where s': "sweep_objects types s1 i e before (slot + 1) = Some (Ok s')"
        "reclaims e (dead_from (sp_table s1) e i c (slot + 1)) s1 s'" "holds_class s' i c"
      using less.hyps [OF _ reclaims_ready [OF less.prems(1) s1(2)] s1(3) less.prems(3)] by blast
    have sw: "sweeps e ?D s s1" using s1(2) by (simp add: reclaims_def)
    have after: "slot < slot + 1" "cursor \<le> slot + 1"
      using slot_after [OF some(4)] some(5) by (auto simp: word_less_nat_alt word_le_nat_alt)
    have marks: "heap_marked (sp_table s1) e = heap_marked ?t e" using sw by (simp add: sweeps_def)
    have "?D \<union> dead_from (sp_table s1) e i c (slot + 1) = dead_from ?t e i c cursor" (is "?D \<union> ?L = ?R")
    proof (intro set_eqI iffI)
      fix r' assume "r' \<in> ?D \<union> ?L"
      then show "r' \<in> ?R" using some(2,3,5,6) sp(2) after(2)
        by (auto simp: dead_from_def marks sweeps_objects [OF sw] split: if_splits intro: order.trans)
    next
      fix r' assume r': "r' \<in> ?R"
      then obtain slot' where slot': "slot_for_offset c (ucast r') = Some slot'" "cursor \<le> slot'" by (auto simp: dead_from_def)
      show "r' \<in> ?D \<union> ?L"
      proof (cases "slot' < slot + 1")
        case True
        then have "r' = r" using some(7) [of r' slot'] r' slot' sp(2) by (auto simp: dead_from_def)
        then show ?thesis using r' by (auto simp: dead_from_def)
      next
        case False
        then show ?thesis using r' slot' by (auto simp: dead_from_def marks sweeps_objects [OF sw] not_less)
      qed
    qed
    then show ?thesis using reclaims_trans [OF s1(2) s'(2)] s' s1(1) some(1)
      by (simp add: sweep_objects.simps [of types s i e before cursor])
  qed
qed

subsection \<open>Rebuilding the free list\<close>

text \<open>The links are written into slots that are not allocated.\<close>

definition relinked :: "small_span \<Rightarrow> small_span \<Rightarrow> bool" where
  "relinked sp sp' \<longleftrightarrow>
     (\<exists>link. sm_metadata sp' = set_free_list_head (sm_metadata sp) link) \<and> st_len (sm_storage sp') = st_len (sm_storage sp) \<and>
     (\<forall>off. span_object (Small sp') off = span_object (Small sp) off)"

lemma relinked_trans: "relinked sp sp' \<Longrightarrow> relinked sp' sp'' \<Longrightarrow> relinked sp sp''"
  by (auto simp: relinked_def set_free_list_head_def)

lemma free_list_head_simps [simp]:
  "ss_allocations (set_free_list_head m link) = ss_allocations m" "ss_size_class (set_free_list_head m link) = ss_size_class m"
  "ss_marks (set_free_list_head m link) = ss_marks m" "ss_space (set_free_list_head m link) = ss_space m"
  "small_span_inv (set_free_list_head m link) \<longleftrightarrow> small_span_inv m"
  "ss_bump_cursor (set_free_list_head m link) = ss_bump_cursor m"
  by (simp_all add: set_free_list_head_def small_span_inv_def)

lemma rebuild_loop_ok:
  assumes "small_span_inv (sm_metadata sp)" and "\<forall>index \<in> set indexes. index < unat (ss_bump_cursor (sm_metadata sp))"
  shows "\<exists>sp'. rebuild_free_list_loop sp indexes = (Ok sp' :: ('e, _) outcome) \<and> relinked sp sp'"
  using assms
proof (induction indexes arbitrary: sp)
  case Nil
  have "sm_metadata sp = set_free_list_head (sm_metadata sp) (ss_free_list_head (sm_metadata sp))" by (simp add: set_free_list_head_def)
  then show ?case by (auto simp: relinked_def)
next
  case (Cons index indexes)
  let ?m = "sm_metadata sp"
  define slot where "slot = (word_of_nat index :: u16)"
  have index: "index < unat (ss_bump_cursor ?m)" using Cons.prems(2) by simp
  then have u: "unat slot = index" unfolding slot_def using unat_u16_less [of "ss_bump_cursor ?m"] by (intro u16_of_nat) simp
  have below: "slot < slot_count (ss_size_class ?m)"
    using index u small_span_invD(5) [OF Cons.prems(1)] by (auto simp: word_less_nat_alt word_le_nat_alt)
  have valid: "valid_slot slot" using Cons.prems(1) below by (rule bump_valid_slot)
  note ops = slot_bitmap_ops [OF small_span_invD(2) [OF Cons.prems(1)] valid]
  have cls: "valid_class (ss_size_class ?m)" by (rule small_span_invD [OF Cons.prems(1)])
  obtain off where off: "offset_for_slot (ss_size_class ?m) slot = Some off" using offset_for_slot_eq [OF cls] below by auto
  then have at: "slot_for_offset (ss_size_class ?m) off = Some slot" using slot_for_offset_iff [OF cls] by blast
  have index_slot: "slot_index_new (word_of_nat index) = Some slot" using valid by (simp add: slot_def slot_index_new_iff)
  show ?case
  proof (cases "slot \<in> slots_of (ss_allocations ?m)")
    case True
    then show ?thesis using Cons.IH [OF Cons.prems(1)] Cons.prems(2)
      by (simp add: index_slot ops)
  next
    case False
    let ?sp = "sp\<lparr>sm_storage := write_free_next (sm_storage sp) off (ss_free_list_head ?m), sm_metadata := set_free_list_head ?m (Some slot)\<rparr>"
    have "span_object (Small ?sp) off' = span_object (Small sp) off'" for off'
      using at False by (auto simp: span_object_def write_free_next_def split: option.splits prod.splits)
    then have "relinked sp ?sp" by (auto simp: relinked_def write_free_next_def split: prod.splits)
    moreover obtain sp' where "rebuild_free_list_loop ?sp indexes = (Ok sp' :: ('e, _) outcome)" "relinked ?sp sp'"
      using Cons.IH [of ?sp] Cons.prems by auto
    ultimately show ?thesis using False off
      by (auto simp: index_slot ops intro: relinked_trans)
  qed
qed

lemma rebuild_ok:
  assumes inv: "heap_inv (sp_table s)" and kind: "table_kind (sp_table s) i = Some (Small sp)"
  shows "\<exists>t. rebuild_old_free_list (sp_table s) i = (Ok t :: ('e, _) outcome) \<and> sweeps e {} s (s\<lparr>sp_table := t\<rparr>)"
proof (cases "ss_space (sm_metadata sp) = Old")
  case False
  then show ?thesis using kind sweeps_refl [OF inv] by (auto simp: rebuild_old_free_list_def)
next
  case True
  let ?sp = "sp\<lparr>sm_metadata := set_free_list_head (sm_metadata sp) None\<rparr>"
  have span: "span_inv (Small sp)" using inv kind by (auto simp: heap_inv_def table_inv_def)
  obtain sp' where sp': "rebuild_free_list_loop ?sp [0..<unat (ss_bump_cursor (sm_metadata sp))] = (Ok sp' :: ('e, _) outcome)" "relinked ?sp sp'"
    using rebuild_loop_ok [of ?sp "[0..<unat (ss_bump_cursor (sm_metadata sp))]"] span by (auto simp: span_inv_def)
  have "relinked sp ?sp" by (auto simp: relinked_def span_object_def split: option.split)
  then have re: "relinked sp sp'" using sp'(2) by (rule relinked_trans)
  then have "sweeps e {} s (s\<lparr>sp_table := set_kind (sp_table s) i (Some (Small sp'))\<rparr>)"
  proof (intro sweeps_set_kind [OF inv kind])
    show "span_inv (Small sp')" using span re by (auto simp: span_inv_def relinked_def)
    show "span_marked (Small sp') e (ucast r) = span_marked (Small sp) e (ucast r)" for r :: raw_heap_ref
      using re by (auto simp: span_marked_def relinked_def split: option.split)
  qed (auto simp: same_shape_def relinked_def)
  then show ?thesis using True kind sp'(1) by (auto simp: rebuild_old_free_list_def)
qed

subsection \<open>Vacating spans\<close>

text \<open>Some spans lose their storage; an owner loses its continuations with it.\<close>

lemma table_inv_vacate:
  assumes inv: "table_inv t" and len: "length (tb_entries t') = length (tb_entries t)"
    and kinds: "\<And>j. table_kind t' j = (if j \<in> V then None else table_kind t j)"
    and closed: "\<And>j owner ordinal. j \<in> V \<Longrightarrow> table_kind t j = Some (LargeContinuation owner ordinal) \<Longrightarrow> owner \<in> V"
  shows "table_inv t'"
proof -
  have bound: "length (tb_entries t) \<le> 65536" using inv by (simp add: table_inv_def)
  have nth: "en_kind (tb_entries u ! k) = table_kind u (word_of_nat k)" if "k < length (tb_entries u)" "length (tb_entries u) \<le> 65536" for u k
    using table_kind_nth [of "word_of_nat k" u] u16_of_nat [of k] that by simp
  have "large_ranges_inv t'" unfolding large_ranges_inv_def
  proof (intro allI impI)
    fix j sp assume "table_kind t' j = Some (LargeOwner sp)"
    then have j: "table_kind t j = Some (LargeOwner sp)" "j \<notin> V" by (auto simp: kinds split: if_splits)
    let ?n = "unat (ls_span_count (lg_metadata sp))"
    have large: "0 < ?n" "unat j + ?n \<le> length (tb_entries t)"
      "\<And>n. 0 < n \<Longrightarrow> n < ?n \<Longrightarrow> \<exists>ordinal. en_kind (tb_entries t ! (unat j + n)) = Some (LargeContinuation j ordinal)"
      using inv j(1) by (auto simp: table_inv_def large_ranges_inv_def)
    have "\<exists>ordinal. en_kind (tb_entries t' ! (unat j + n)) = Some (LargeContinuation j ordinal)" if n: "0 < n" "n < ?n" for n
    proof -
      have k: "unat j + n < length (tb_entries t)" using n large(2) by simp
      obtain ordinal where o: "table_kind t (word_of_nat (unat j + n)) = Some (LargeContinuation j ordinal)"
        using large(3) [OF n] nth [OF k bound] by auto
      then have "table_kind t' (word_of_nat (unat j + n)) = Some (LargeContinuation j ordinal)"
        using closed [OF _ o] j(2) by (auto simp: kinds)
      then show ?thesis using nth [of "unat j + n" t'] k len bound by simp
    qed
    then show "0 < ?n \<and> unat j + ?n \<le> length (tb_entries t') \<and>
        (\<forall>n. 0 < n \<and> n < ?n \<longrightarrow> (\<exists>ordinal. en_kind (tb_entries t' ! (unat j + n)) = Some (LargeContinuation j ordinal)))"
      using large(1,2) len by simp
  qed
  then show ?thesis using inv len by (auto simp: table_inv_def kinds split: if_splits)
qed

lemma sweeps_vacate:
  assumes inv: "heap_inv (sp_table s)" and len: "length (tb_entries (sp_table s')) = length (tb_entries (sp_table s))"
    and kinds: "\<And>j. table_kind (sp_table s') j = (if j \<in> V then None else table_kind (sp_table s) j)"
    and closed: "\<And>j owner ordinal. j \<in> V \<Longrightarrow> table_kind (sp_table s) j = Some (LargeContinuation owner ordinal) \<Longrightarrow> owner \<in> V"
    and empty: "\<And>r. raw_heap_ref_span_id r \<in> V \<Longrightarrow> heap_objects (sp_table s) r = None"
    and ranges: "coalesced (tb_free_ranges (sp_table s'))" "free_ids (tb_free_ranges (sp_table s')) = free_ids (tb_free_ranges (sp_table s)) \<union> V"
      "\<And>i. i \<in> V \<Longrightarrow> unat i < length (tb_entries (sp_table s))"
    and young: "length (filter active_young (tb_entries (sp_table s'))) \<le> tb_active_young_spans (sp_table s')"
    and same: "tb_grants (sp_table s') = tb_grants (sp_table s)" "sp_external_bytes s' = sp_external_bytes s"
  shows "sweeps e {} s s'"
proof -
  have tbl: "table_inv (sp_table s')" 
    by (rule table_inv_vacate [of "sp_table s" _ V, OF _ len kinds closed]) (use inv in \<open>auto simp: heap_inv_def\<close>)
  have vac: "vacancy_inv (sp_table s')" using inv len ranges by (auto simp: vacancy_inv_def heap_inv_def kinds)
  have objs: "heap_objects (sp_table s') r = heap_objects (sp_table s) r" for r
    using empty [of r] by (auto simp: heap_objects_def kinds)
  then have "heap_objects (sp_table s') = heap_objects (sp_table s) |` (- {})" by (auto simp: restrict_map_def)
  moreover have "r \<in> heap_marked (sp_table s') e \<longleftrightarrow> r \<in> heap_marked (sp_table s) e" for r
    using empty [of r] unfolding heap_marked_def mem_Collect_eq objs kinds by (cases "raw_heap_ref_span_id r \<in> V") simp_all
  then have "heap_marked (sp_table s') e = heap_marked (sp_table s) e" by blast
  moreover have "span_len (sp_table s') (raw_heap_ref_span_id r) = span_len (sp_table s) (raw_heap_ref_span_id r)"
    if "heap_objects (sp_table s') r \<noteq> None" for r
    using that empty [of r] by (auto simp: objs span_len_def kinds)
  ultimately show ?thesis using tbl vac young same by (auto simp: sweeps_def heap_inv_def)
qed

lemma release_ok:
  assumes ready: "ready types s" and kind: "table_kind (sp_table s) i = Some (Small sp)" and none: "ss_allocated_slots (sm_metadata sp) = 0"
  shows "\<exists>t. release (sp_table s) i = Ok t \<and> sweeps e {} s (s\<lparr>sp_table := t\<rparr>) \<and> table_kind t i = None"
proof -
  let ?t = "sp_table s"
  have less: "unat i < length (tb_entries ?t)" using kind by (rule table_kind_some_less)
  let ?e = "tb_entries ?t ! unat i"
  have entry: "table_entry ?t i = Some ?e" "en_kind ?e = Some (Small sp)"
    using kind less by (auto simp: table_entry_def get_def table_kind_nth)
  have new: "i \<notin> free_ids (tb_free_ranges ?t)" using readyD(3) [OF ready] kind by (auto simp: vacancy_inv_def)
  obtain c where c: "reserve_free_range_if_needed ?t i = Ok (?t\<lparr>tb_free_ranges_capacity := c\<rparr>)"
    using reserve_free_range_ok [OF readyD(5) [OF ready] readyD(4) [OF ready] new] by blast
  let ?e' = "?e\<lparr>en_kind := None, en_generation := generation_next (en_generation ?e), en_in_eden_pool := False\<rparr>"
  let ?n = "if active_young ?e then 1 else 0 :: nat"
  define t where "t = ?t\<lparr>tb_free_ranges_capacity := c, tb_entries := (tb_entries ?t)[unat i := ?e'],
    tb_free_ranges := insert_free_range i (tb_free_ranges ?t), tb_live_spans := tb_live_spans ?t - 1,
    tb_active_young_spans := tb_active_young_spans ?t - ?n\<rparr>"
  have inv: "heap_inv ?t" by (rule readyD [OF ready])
  have "\<not> active_young ?e'" by (simp add: active_young_def)
  then have count: "length (filter active_young (tb_entries t)) + ?n = length (filter active_young (tb_entries ?t))"
    using length_filter_update [OF less, of active_young ?e'] by (simp add: t_def)
  then have young: "length (filter active_young (tb_entries t)) \<le> tb_active_young_spans t" "?n \<le> tb_active_young_spans ?t"
    using inv by (auto simp: heap_inv_def t_def)
  have active: "(case Small sp of Small sp \<Rightarrow> is_young_space (ss_space (sm_metadata sp)) | _ \<Rightarrow> False) \<and> \<not> en_in_eden_pool ?e \<longleftrightarrow> active_young ?e"
    by (simp add: active_young_def entry(2))
  have "release ?t i = Ok t" using none young(2)
    unfolding release_def entry(1) ok_or.simps and_then.simps entry(2) c Let_def active
    by (auto simp: reject_if_def update_entry_def insert_free_span_def t_def split: if_splits)
  moreover have kinds: "table_kind t j = (if j \<in> {i} then None else table_kind ?t j)" for j
    using less by (auto simp: table_kind_def table_entry_def get_def t_def word_unat_eq_iff)
  moreover have "sweeps e {} s (s\<lparr>sp_table := t\<rparr>)"
  proof (rule sweeps_vacate [OF inv])
    have span: "span_inv (Small sp)" using inv kind by (auto simp: heap_inv_def table_inv_def)
    then have "slots_of (ss_allocations (sm_metadata sp)) = {}"
      using none slots_of_facts(1) by (auto simp: span_inv_def small_span_inv_def)
    then show "heap_objects ?t r = None" if "raw_heap_ref_span_id r \<in> {i}" for r
      using that kind by (auto simp: heap_objects_def span_object_def split: option.split)
  qed (use kinds kind less young coalesced_insert [OF readyD(4) [OF ready] new] in \<open>auto simp: t_def\<close>)
  ultimately show ?thesis by auto
qed

lemma vacate_range_ok:
  assumes "coalesced (tb_free_ranges t)" and "first + n \<le> length (tb_entries t)" and "length (tb_entries t) \<le> 65536"
    and "\<And>j. first \<le> unat j \<Longrightarrow> unat j < first + n \<Longrightarrow> j \<notin> free_ids (tb_free_ranges t)"
  shows "\<exists>t'. vacate_range t first n = (Ok t' :: ('e, _) outcome) \<and> length (tb_entries t') = length (tb_entries t) \<and>
    (\<forall>j. table_kind t' j = (if first \<le> unat j \<and> unat j < first + n then None else table_kind t j)) \<and>
    coalesced (tb_free_ranges t') \<and> free_ids (tb_free_ranges t') = free_ids (tb_free_ranges t) \<union> {j. first \<le> unat j \<and> unat j < first + n} \<and>
    tb_grants t' = tb_grants t \<and> tb_active_young_spans t' = tb_active_young_spans t \<and>
    length (filter active_young (tb_entries t')) \<le> length (filter active_young (tb_entries t))"
  using assms
proof (induction n arbitrary: first t)
  case (Suc n)
  define i where "i = (word_of_nat first :: u16)"
  have u: "unat i = first" unfolding i_def using Suc.prems(2,3) by (intro u16_of_nat) simp
  let ?e = "(tb_entries t ! first)\<lparr>en_kind := None, en_generation := generation_next (en_generation (tb_entries t ! first))\<rparr>"
  define t1 where "t1 = t\<lparr>tb_entries := (tb_entries t)[first := ?e], tb_free_ranges := insert_free_range i (tb_free_ranges t)\<rparr>"
  have first: "first < length (tb_entries t)" using Suc.prems(2) by simp
  have new: "i \<notin> free_ids (tb_free_ranges t)" using Suc.prems(4) [of i] u by simp
  note ins = coalesced_insert [OF Suc.prems(1) new]
  have kinds: "table_kind t1 j = (if unat j = first then None else table_kind t j)" for j
    using first by (auto simp: t1_def table_kind_def table_entry_def get_def)
  have "\<not> active_young ?e" by (simp add: active_young_def)
  then have young: "length (filter active_young (tb_entries t1)) \<le> length (filter active_young (tb_entries t))"
    using length_filter_update [OF first, of active_young ?e] by (simp add: t1_def split: if_splits)
  have free: "j \<notin> free_ids (tb_free_ranges t1)" if "Suc first \<le> unat j" "unat j < Suc first + n" for j
    using that Suc.prems(4) [of j] u by (auto simp: t1_def ins(2))
  obtain t' where t': "vacate_range t1 (Suc first) n = (Ok t' :: ('e, _) outcome)" "length (tb_entries t') = length (tb_entries t1)"
      "\<And>j. table_kind t' j = (if Suc first \<le> unat j \<and> unat j < Suc first + n then None else table_kind t1 j)"
      "coalesced (tb_free_ranges t')" "free_ids (tb_free_ranges t') = free_ids (tb_free_ranges t1) \<union> {j. Suc first \<le> unat j \<and> unat j < Suc first + n}"
      "tb_grants t' = tb_grants t1" "tb_active_young_spans t' = tb_active_young_spans t1"
      "length (filter active_young (tb_entries t')) \<le> length (filter active_young (tb_entries t1))"
    using Suc.IH [of t1 "Suc first", OF _ _ _ free] Suc.prems(2,3) ins(1) by (auto simp: t1_def)
  have "vacate_range t first (Suc n) = (Ok t' :: ('e, _) outcome)"
    using t'(1) first by (simp add: index_or_panic_def get_def Let_def insert_free_span_def i_def t1_def)
  moreover have "table_kind t' j = (if first \<le> unat j \<and> unat j < first + Suc n then None else table_kind t j)" for j
    by (auto simp: t'(3) kinds)
  moreover have "free_ids (tb_free_ranges t') = free_ids (tb_free_ranges t) \<union> {j. first \<le> unat j \<and> unat j < first + Suc n}"
    using u unfolding t'(5) by (auto simp: t1_def ins(2) word_unat_eq_iff)
  ultimately show ?case using t' young by (intro exI [of _ t']) (simp add: t1_def)
qed auto

text \<open>Reserving room for the id of a span leaves the heap as it is.\<close>

lemma prepare_release_ok:
  assumes ready: "ready types s" and kind: "table_kind (sp_table s) i = Some kind"
  shows "\<exists>t. prepare_release (sp_table s) i = Ok t \<and> sweeps e {} s (s\<lparr>sp_table := t\<rparr>) \<and> (\<forall>j. table_kind t j = table_kind (sp_table s) j)"
proof -
  have "i \<notin> free_ids (tb_free_ranges (sp_table s))" using readyD(3) [OF ready] kind by (auto simp: vacancy_inv_def)
  then obtain c where c: "prepare_release (sp_table s) i = Ok ((sp_table s)\<lparr>tb_free_ranges_capacity := c\<rparr>)"
    unfolding prepare_release_def using reserve_free_range_ok [OF readyD(5) [OF ready] readyD(4) [OF ready]] by blast
  have kinds: "table_kind ((sp_table s)\<lparr>tb_free_ranges_capacity := c\<rparr>) j = table_kind (sp_table s) j" for j
    by (simp add: table_kind_def table_entry_def)
  have "sweeps e {} s (s\<lparr>sp_table := (sp_table s)\<lparr>tb_free_ranges_capacity := c\<rparr>\<rparr>)"
    by (rule sweeps_vacate [OF readyD(1) [OF ready], where V = "{}"])
      (use readyD(1,4) [OF ready] in \<open>auto simp: kinds heap_inv_def\<close>)
  then show ?thesis using c kinds by blast
qed

lemma release_unpublished_large_ok:
  assumes ready: "ready types s" and kind: "table_kind (sp_table s) (raw_heap_ref_span_id r) = Some (LargeOwner sp)" and none: "\<not> ls_allocated (lg_metadata sp)"
  shows "\<exists>x t. release_unpublished_large (sp_table s) r = Ok (x, t) \<and> sweeps e {} s (s\<lparr>sp_table := t\<rparr>)"
proof -
  let ?t = "sp_table s" and ?i = "raw_heap_ref_span_id r" and ?n = "unat (ls_span_count (lg_metadata sp))"
  have inv: "heap_inv ?t" by (rule readyD [OF ready])
  have len: "length (tb_entries ?t) \<le> 65536" using inv by (simp add: heap_inv_def table_inv_def)
  have large: "0 < ?n" "unat ?i + ?n \<le> length (tb_entries ?t)"
      "\<And>n. 0 < n \<Longrightarrow> n < ?n \<Longrightarrow> \<exists>ordinal. en_kind (tb_entries ?t ! (unat ?i + n)) = Some (LargeContinuation ?i ordinal)"
    using inv kind by (auto simp: heap_inv_def table_inv_def large_ranges_inv_def)
  let ?V = "{j. unat ?i \<le> unat j \<and> unat j < unat ?i + ?n}"
  have V: "j = ?i \<or> (\<exists>ordinal. table_kind ?t j = Some (LargeContinuation ?i ordinal))" if "j \<in> ?V" for j
  proof (cases "unat j = unat ?i")
    case False
    then have "0 < unat j - unat ?i" "unat j - unat ?i < ?n" "unat ?i + (unat j - unat ?i) = unat j" "unat j < length (tb_entries ?t)"
      using that large(2) by auto
    then show ?thesis using large(3) [of "unat j - unat ?i"] by (auto simp: table_kind_nth)
  qed (simp add: word_unat_eq_iff)
  then have occupied: "table_kind ?t j \<noteq> None" if "j \<in> ?V" for j using that kind by fastforce
  have free: "j \<notin> free_ids (tb_free_ranges ?t)" if "j \<in> ?V" for j
    using occupied [OF that] readyD(3) [OF ready] by (auto simp: vacancy_inv_def)
  obtain c where c: "reserve_free_range_if_needed ?t ?i = Ok (?t\<lparr>tb_free_ranges_capacity := c\<rparr>)"
    using reserve_free_range_ok [OF readyD(5) [OF ready] readyD(4) [OF ready] free [of ?i]] large(1) by auto
  let ?t1 = "?t\<lparr>tb_free_ranges_capacity := c\<rparr>"
  have k1: "table_kind ?t1 j = table_kind ?t j" for j by (simp add: table_kind_def table_entry_def)
  obtain t where t: "vacate_range ?t1 (unat ?i) ?n = (Ok t :: (span_table_error, _) outcome)" "length (tb_entries t) = length (tb_entries ?t1)"
      "\<And>j. table_kind t j = (if unat ?i \<le> unat j \<and> unat j < unat ?i + ?n then None else table_kind ?t1 j)"
      "coalesced (tb_free_ranges t)" "free_ids (tb_free_ranges t) = free_ids (tb_free_ranges ?t1) \<union> ?V"
      "tb_grants t = tb_grants ?t1" "tb_active_young_spans t = tb_active_young_spans ?t1"
      "length (filter active_young (tb_entries t)) \<le> length (filter active_young (tb_entries ?t1))"
    using vacate_range_ok [of ?t1 "unat ?i" ?n] readyD(4) [OF ready] large(2) len free by auto
  let ?t' = "t\<lparr>tb_live_spans := tb_live_spans t - ?n\<rparr>"
  have k2: "table_kind ?t' j = (if j \<in> ?V then None else table_kind ?t j)" for j
    using t(3) [of j] k1 by (simp add: table_kind_def table_entry_def)
  have "sweeps e {} s (s\<lparr>sp_table := ?t'\<rparr>)"
  proof (rule sweeps_vacate [OF inv, where V = ?V])
    show "owner \<in> ?V" if "j \<in> ?V" "table_kind ?t j = Some (LargeContinuation owner ordinal)" for j owner ordinal
      using V [OF that(1)] that(2) kind large(1) by auto
    show "heap_objects ?t r' = None" if "raw_heap_ref_span_id r' \<in> ?V" for r'
      using V [OF that] kind none by (auto simp: heap_objects_def span_object_def)
    show "length (filter active_young (tb_entries (sp_table (s\<lparr>sp_table := ?t'\<rparr>)))) \<le> tb_active_young_spans (sp_table (s\<lparr>sp_table := ?t'\<rparr>))"
      using t(7,8) inv by (simp add: heap_inv_def)
  qed (use t k2 large(2) in auto)
  then show ?thesis using kind none c t(1) by (simp add: release_unpublished_large_def)
qed

section \<open>Spans\<close>

definition dead_of :: "span_table \<Rightarrow> collection_epoch \<Rightarrow> span_id \<Rightarrow> raw_heap_ref set" where
  "dead_of t e i = {r. raw_heap_ref_span_id r = i \<and> heap_objects t r \<noteq> None \<and> r \<notin> heap_marked t e}"

lemma dead_of_small:
  assumes "table_kind t i = Some (Small sp)"
  shows "dead_from t e i (ss_size_class (sm_metadata sp)) 0 = dead_of t e i"
proof -
  have "\<exists>slot. slot_for_offset (ss_size_class (sm_metadata sp)) (ucast r) = Some slot"
    if "raw_heap_ref_span_id r = i" "heap_objects t r \<noteq> None" for r
    using that assms by (cases "slot_for_offset (ss_size_class (sm_metadata sp)) (ucast r)") (simp_all add: heap_objects_def span_object_def)
  then show ?thesis unfolding dead_from_def dead_of_def by fastforce
qed

lemma sweeps_dead_of: "sweeps e D s s' \<Longrightarrow> dead_of (sp_table s') e i = dead_of (sp_table s) e i - D"
  unfolding dead_of_def by (auto simp: sweeps_objects) (simp_all add: sweeps_def)

lemma snapshot_small:
  "table_kind t i = Some (Small sp) \<Longrightarrow> take_small_sweep_snapshot t i =
     Some \<lparr>sn_size_class = ss_size_class (sm_metadata sp), sn_space = ss_space (sm_metadata sp), sn_bump_cursor = ss_bump_cursor (sm_metadata sp),
       sn_allocated_slots = ss_allocated_slots (sm_metadata sp), sn_allocated_bytes = ss_allocated_bytes (sm_metadata sp)\<rparr>"
  by (simp add: take_small_sweep_snapshot_def table_metadata_def)

lemma finish_small_ok:
  assumes ready: "ready types s" and kind: "table_kind (sp_table s) i = Some (Small sp)"
  shows "\<exists>s'. finish_small s i = Ok s' \<and> reclaims e {} s s'"
proof (cases "ss_allocated_slots (sm_metadata sp) = 0")
  case True
  then show ?thesis using release_ok [OF ready kind, of e] by (auto simp: finish_small_def snapshot_small [OF kind] reclaims_def)
next
  case False
  then show ?thesis using rebuild_ok [OF readyD(1) [OF ready] kind, of e, where 'e = "sweep_error \<times> sweeper"]
    by (auto simp: finish_small_def snapshot_small [OF kind] reclaims_def)
qed

lemma sweep_small_ok:
  assumes ready: "ready types s" and kind: "table_kind (sp_table s) i = Some (Small sp)"
  shows "\<exists>s'. sweep_small types s i e = Some (Ok s') \<and> reclaims e (dead_of (sp_table s) e i) s s'"
proof -
  let ?c = "ss_size_class (sm_metadata sp)"
  obtain before where before: "take_small_sweep_snapshot (sp_table s) i = Some before" "sn_size_class before = ?c"
    using snapshot_small [OF kind] by simp
  have cls: "holds_class s i ?c" using kind by (simp add: holds_class_def)
  obtain n where n: "count_live s i e before 0 0 = Some (Ok n)"
    using count_live_returns [OF readyD(2) [OF ready], of i before] cls before(2) by metis
  let ?prepare = "if n = 0 then and_then (at_sweeper s SE_SpanTable (prepare_release (sp_table s) i)) (\<lambda>t. Ok (s\<lparr>sp_table := t\<rparr>)) else Ok s"
  obtain s1 where s1: "?prepare = Ok s1" "sweeps e {} s s1" "sp_stats s1 = sp_stats s" "\<And>j. table_kind (sp_table s1) j = table_kind (sp_table s) j"
    using prepare_release_ok [OF ready kind, of e] sweeps_refl [OF readyD(1) [OF ready]] by (cases "n = 0") auto
  have ready1: "ready types s1" using ready s1(2) by (rule sweeps_ready)
  have cls1: "holds_class s1 i ?c" using kind s1(4) by (simp add: holds_class_def)
  obtain s2 where s2: "sweep_objects types s1 i e before 0 = Some (Ok s2)" "reclaims e (dead_from (sp_table s1) e i ?c 0) s1 s2" "holds_class s2 i ?c"
    using sweep_objects_ok [OF ready1 cls1 before(2)] by blast
  obtain sp2 where sp2: "table_kind (sp_table s2) i = Some (Small sp2)" using s2(3) by (rule holds_class_Small)
  obtain s3 where s3: "finish_small s2 i = Ok s3" "reclaims e {} s2 s3"
    using finish_small_ok [OF reclaims_ready [OF ready1 s2(2)] sp2] by blast
  have "dead_from (sp_table s1) e i ?c 0 = dead_of (sp_table s) e i"
    using dead_of_small [of "sp_table s1" i sp e] kind s1(4) sweeps_dead_of [OF s1(2)] by simp
  moreover have "reclaims e {} s s1" using s1(2,3) by (simp add: reclaims_def)
  ultimately have "reclaims e (dead_of (sp_table s) e i) s s3" using reclaims_trans reclaims_trans [OF s2(2) s3(2)] by fastforce
  then show ?thesis using s1(1) s2(1) s3(1) n before(1) by (simp add: sweep_small_def)
qed

lemma release_large_ok:
  assumes ready: "ready types s" and kind: "table_kind (sp_table s) (raw_heap_ref_span_id r) = Some (LargeOwner sp)" and none: "\<not> ls_allocated (lg_metadata sp)"
    and f: "\<And>n x. sw_reclaimed_objects (f n x) = sw_reclaimed_objects x + k"
  shows "\<exists>s'. release_large s r f = Ok s' \<and> sweeps e {} s s' \<and> sw_reclaimed_objects (sp_stats s') = sw_reclaimed_objects (sp_stats s) + k"
proof -
  obtain x t where "release_unpublished_large (sp_table s) r = Ok (x, t)" "sweeps e {} s (s\<lparr>sp_table := t\<rparr>)"
    using release_unpublished_large_ok [OF ready kind none, of e] by blast
  then show ?thesis by (simp add: release_large_def f)
qed

lemma large_owner_ref: "large_owner_reference i = (Ok (mk_ref i 16) :: ('e, _) outcome)"
  by (simp add: large_owner_reference_def span_offset_new_def layout_values mk_ref_parts)

lemma large_object:
  assumes "table_kind t i = Some (LargeOwner sp)" and "raw_heap_ref_span_id r = i"
  shows "heap_objects t r \<noteq> None \<longleftrightarrow> r = mk_ref i 16 \<and> ls_allocated (lg_metadata sp)"
proof -
  have "r = mk_ref i 16 \<longleftrightarrow> (ucast r :: u16) = 16" using assms(2) mk_ref_eq [of r i 16] mk_ref_parts(3) [of 16 i] by auto
  then show ?thesis using assms by (simp add: heap_objects_def span_object_def)
qed

lemma drop_large_ok:
  assumes ready: "ready types s" and kind: "table_kind (sp_table s) i = Some (LargeOwner sp)" and alloc: "ls_allocated (lg_metadata sp)"
    and dead: "mk_ref i 16 \<notin> heap_marked (sp_table s) e"
  shows "\<exists>charged t. resolve_drop types s (mk_ref i 16) = Ok charged \<and> unpublish_large_for_drop (sp_table s) (mk_ref i 16) = Ok t \<and>
    sweeps e {mk_ref i 16} s (s\<lparr>sp_table := t, sp_external_bytes := sp_external_bytes s - charged\<rparr>) \<and>
    table_kind t i = Some (LargeOwner (sp\<lparr>lg_metadata := large_reclaim (lg_metadata sp)\<rparr>))"
proof -
  let ?r = "mk_ref i 16" and ?sp = "sp\<lparr>lg_metadata := large_reclaim (lg_metadata sp)\<rparr>"
  let ?t = "set_kind (sp_table s) i (Some (LargeOwner ?sp))"
  have id: "raw_heap_ref_span_id ?r = i" by (rule mk_ref_parts) simp
  obtain h p where obj: "heap_objects (sp_table s) ?r = Some (h, p)" using large_object [OF kind id] alloc by (cases "heap_objects (sp_table s) ?r") auto
  note drop = resolve_drop_ok [OF ready obj]
  have "sweeps e {?r} s (s\<lparr>sp_table := ?t, sp_external_bytes := sp_external_bytes s - charged_bytes h\<rparr>)"
  proof (rule sweeps_set_kind [of _ i "LargeOwner sp" "LargeOwner ?sp"])
    show "heap_inv (sp_table s)" by (rule readyD [OF ready])
    have "span_inv (LargeOwner sp)" using readyD(2) [OF ready] kind by (auto simp: table_inv_def)
    then show "span_inv (LargeOwner ?sp)" by (simp add: span_inv_def large_reclaim_def)
    show "span_object (LargeOwner ?sp) (ucast r) = (if r \<in> {?r} then None else span_object (LargeOwner sp) (ucast r))"
      if "raw_heap_ref_span_id r = i" for r
      using that mk_ref_eq [of r i 16] by (auto simp: span_object_def large_reclaim_def)
    show "span_marked (LargeOwner ?sp) e (ucast r) = span_marked (LargeOwner sp) e (ucast r)"
      if "raw_heap_ref_span_id r = i" "r \<notin> {?r}" for r
      using that mk_ref_eq [of r i 16] by (auto simp: span_marked_def)
  qed (use kind drop obj dead id in \<open>auto simp: same_shape_def large_reclaim_def\<close>)
  moreover have "table_kind ?t i = Some (LargeOwner ?sp)" using table_kind_set_kind [OF table_kind_some_less [OF kind]] by simp
  moreover have "unpublish_large_for_drop (sp_table s) ?r = Ok ?t" using kind alloc id by (simp add: unpublish_large_for_drop_def)
  ultimately show ?thesis using drop(1) by blast
qed

lemma sweep_large_ok:
  assumes ready: "ready types s" and kind: "table_kind (sp_table s) i = Some (LargeOwner sp)"
  shows "\<exists>s'. sweep_large types s i e = Ok s' \<and> reclaims e (dead_of (sp_table s) e i) s s'"
proof -
  let ?r = "mk_ref i 16" and ?m = "lg_metadata sp"
  have meta: "table_large_metadata (sp_table s) i = Some ?m" using kind by (simp add: table_large_metadata_def)
  have id: "raw_heap_ref_span_id ?r = i" by (rule mk_ref_parts) simp
  note start = sweep_large_def meta large_owner_ref
  obtain t where t: "prepare_release (sp_table s) i = Ok t" "sweeps e {} s (s\<lparr>sp_table := t\<rparr>)" "\<And>j. table_kind t j = table_kind (sp_table s) j"
    using prepare_release_ok [OF ready kind, of e] by blast
  show ?thesis
  proof (cases "ls_allocated ?m")
    case False
    let ?s1 = "s\<lparr>sp_table := t\<rparr>"
    have dead: "dead_of (sp_table s) e i = {}" using large_object [OF kind] False by (auto simp: dead_of_def)
    obtain s' where s': "release_large ?s1 ?r (\<lambda>_ x. x) = Ok s'" "sweeps e {} ?s1 s'"
        "sw_reclaimed_objects (sp_stats s') = sw_reclaimed_objects (sp_stats ?s1) + 0"
      using release_large_ok [of types ?s1 ?r sp "\<lambda>_ x. x" 0 e] sweeps_ready [OF ready t(2)] kind t(3) id False by auto
    then show ?thesis using False t(1) sweeps_trans [OF t(2) s'(2)] dead by (simp add: start reclaims_def)
  next
    case True
    let ?s0 = "update_stats s (count_scanned (ls_object_bytes ?m))"
    obtain h p where obj: "heap_objects (sp_table s) ?r = Some (h, p)" using large_object [OF kind id] True by (cases "heap_objects (sp_table s) ?r") auto
    have marked: "reference_marked (sp_table s) ?r e = Ok (?r \<in> heap_marked (sp_table s) e)" by (rule reference_marked_live [OF readyD(2) [OF ready] obj])
    show ?thesis
    proof (cases "?r \<in> heap_marked (sp_table s) e")
      case alive: True
      have "r \<notin> dead_of (sp_table s) e i" for r
        using large_object [OF kind, of r] alive by (cases "r = ?r") (auto simp: dead_of_def)
      then have "dead_of (sp_table s) e i = {}" by blast
      then show ?thesis using True alive marked sweeps_refl [OF readyD(1) [OF ready]] by (simp add: start reclaims_def)
    next
      case False
      have dead: "dead_of (sp_table s) e i = {?r}"
      proof (intro set_eqI)
        fix r show "r \<in> dead_of (sp_table s) e i \<longleftrightarrow> r \<in> {?r}"
          using large_object [OF kind, of r] False obj id by (cases "r = ?r") (auto simp: dead_of_def)
      qed
      let ?s1 = "?s0\<lparr>sp_table := t\<rparr>"
      have sw1: "sweeps e {} s ?s1" using t(2) by (simp add: sweeps_def)
      have ready1: "ready types ?s1" using ready sw1 by (rule sweeps_ready)
      have dead1: "?r \<notin> heap_marked (sp_table ?s1) e" using False sw1 by (simp add: sweeps_def)
      have kind1: "table_kind (sp_table ?s1) i = Some (LargeOwner sp)" using kind t(3) by simp
      obtain charged t2 where t2: "resolve_drop types ?s1 ?r = Ok charged" "unpublish_large_for_drop (sp_table ?s1) ?r = Ok t2"
          "sweeps e {?r} ?s1 (?s1\<lparr>sp_table := t2, sp_external_bytes := sp_external_bytes ?s1 - charged\<rparr>)"
          "table_kind t2 i = Some (LargeOwner (sp\<lparr>lg_metadata := large_reclaim ?m\<rparr>))"
        using drop_large_ok [OF ready1 kind1 True dead1] by blast
      let ?s2 = "?s1\<lparr>sp_table := t2, sp_external_bytes := sp_external_bytes ?s1 - charged\<rparr>"
      obtain s' where s': "release_large ?s2 ?r count_reclaimed = Ok s'" "sweeps e {} ?s2 s'"
          "sw_reclaimed_objects (sp_stats s') = sw_reclaimed_objects (sp_stats ?s2) + 1"
        using release_large_ok [of types ?s2 ?r "sp\<lparr>lg_metadata := large_reclaim ?m\<rparr>" count_reclaimed 1 e] sweeps_ready [OF ready1 t2(3)] t2(4) id
        by (auto simp: large_reclaim_def)
      have "sweeps e {?r} s s'" using sweeps_trans [OF sw1 sweeps_trans [OF t2(3) s'(2)]] by simp
      then show ?thesis using True False marked t(1) t2(1,2) s'(1,3) dead by (simp add: start reclaims_def)
    qed
  qed
qed

lemma sweep_span_ok:
  assumes ready: "ready types s"
  shows "\<exists>s'. sweep_span types s i e = Some (Ok s') \<and> reclaims e (dead_of (sp_table s) e i) s s'"
proof -
  let ?s = "update_stats s (\<lambda>x. x\<lparr>sw_spans_processed := sw_spans_processed x + 1\<rparr>)"
  have r: "ready types ?s" using ready by simp
  have none: ?thesis if "sweep_target (sp_table s) i = None"
  proof -
    have "dead_of (sp_table s) e i = {}"
      using that by (auto simp: dead_of_def heap_objects_def sweep_target_def span_object_def split: option.splits span_kind.splits)
    then show ?thesis using that sweeps_refl [OF readyD(1) [OF ready]] by (simp add: sweep_span_def reclaims_def)
  qed
  show ?thesis
  proof (cases "table_kind (sp_table s) i")
    case (Some kind)
    show ?thesis
    proof (cases kind)
      case (Small sp)
      then show ?thesis using sweep_small_ok [OF r, of i sp e] Some by (simp add: sweep_span_def sweep_target_def reclaims_def)
    next
      case (LargeOwner sp)
      then show ?thesis using sweep_large_ok [OF r, of i sp e] Some by (simp add: sweep_span_def sweep_target_def reclaims_def)
    qed (use Some none in \<open>simp add: sweep_target_def\<close>)
  qed (use none in \<open>simp add: sweep_target_def\<close>)
qed

section \<open>The whole sweep\<close>

lemma worklist_try_push_ok:
  assumes "\<And>n. wl_grants w n" and "length (wl_entries w) < wl_max_entries w"
  shows "\<exists>w'. worklist_try_push w i = Ok w' \<and> wl_entries w' = wl_entries w @ [i] \<and> wl_grants w' = wl_grants w \<and> wl_max_entries w' = wl_max_entries w"
  using assms by (auto simp: worklist_try_push_def worklist_reserve_def Let_def)

lemma fill_worklist_ok:
  assumes "\<And>n. wl_grants w n" and "length (wl_entries w) + length indexes \<le> wl_max_entries w"
  shows "\<exists>w'. fill_worklist s indexes w = Ok w' \<and>
    wl_entries w' = wl_entries w @ map word_of_nat (filter (\<lambda>index. sweep_target (sp_table s) (word_of_nat index) \<noteq> None) indexes)"
  using assms
proof (induction indexes arbitrary: w)
  case (Cons index indexes)
  show ?case
  proof (cases "sweep_target (sp_table s) (word_of_nat index) = None")
    case True
    then show ?thesis using Cons.IH [of w] Cons.prems by simp
  next
    case False
    obtain w1 where w1: "worklist_try_push w (word_of_nat index) = Ok w1" "wl_entries w1 = wl_entries w @ [word_of_nat index]"
        "wl_grants w1 = wl_grants w" "wl_max_entries w1 = wl_max_entries w"
      using worklist_try_push_ok [of w "word_of_nat index"] Cons.prems by auto
    then show ?thesis using Cons.IH [of w1] Cons.prems False by simp
  qed
qed simp

lemma drain_worklist_ok:
  assumes "ready types s"
  shows "\<exists>w' s'. drain_worklist types e w s = Some (Ok (w', s')) \<and> wl_entries w' = [] \<and>
    reclaims e (\<Union>i \<in> set (wl_entries w). dead_of (sp_table s) e i) s s'"
  using assms
proof (induction "wl_entries w" arbitrary: w s rule: rev_induct)
  case Nil
  then have "wl_entries w = []" by simp
  then show ?case using reclaims_refl [OF readyD(1) [OF Nil.prems]]
    by (simp add: drain_worklist.simps [of types e w s] worklist_pop_def)
next
  case (snoc i xs)
  have entries: "wl_entries w = xs @ [i]" using snoc.hyps(2) by simp
  let ?w = "w\<lparr>wl_entries := xs\<rparr>"
  obtain s1 where s1: "sweep_span types s i e = Some (Ok s1)" "reclaims e (dead_of (sp_table s) e i) s s1"
    using sweep_span_ok [OF snoc.prems] by blast
  have rest: "dead_of (sp_table s1) e j = dead_of (sp_table s) e j - dead_of (sp_table s) e i" for j
    using s1(2) sweeps_dead_of by (auto simp: reclaims_def)
  obtain w' s' where s': "drain_worklist types e ?w s1 = Some (Ok (w', s'))" "wl_entries w' = []"
      "reclaims e (\<Union>j \<in> set xs. dead_of (sp_table s1) e j) s1 s'"
    using snoc.hyps(1) [of ?w s1] reclaims_ready [OF snoc.prems s1(2)] by auto
  have "dead_of (sp_table s) e i \<union> (\<Union>j \<in> set xs. dead_of (sp_table s1) e j) = (\<Union>j \<in> set (wl_entries w). dead_of (sp_table s) e j)"
    unfolding rest entries by auto
  then show ?case using reclaims_trans [OF s1(2) s'(3)] s1(1) s'(1,2) entries
    by (simp add: drain_worklist.simps [of types e w s] worklist_pop_def)
qed

lemma swept_everywhere:
  assumes inv: "table_inv t"
  shows "(\<Union>i \<in> set (map word_of_nat (filter (\<lambda>index. sweep_target t (word_of_nat index) \<noteq> None) [0..<length (tb_entries t)])). dead_of t e i) =
    dom (heap_objects t) - heap_marked t e"
proof -
  have "raw_heap_ref_span_id r \<in> set (map word_of_nat (filter (\<lambda>index. sweep_target t (word_of_nat index) \<noteq> None) [0..<length (tb_entries t)]))"
    if live: "heap_objects t r \<noteq> None" for r
  proof -
    let ?i = "raw_heap_ref_span_id r"
    obtain kind where kind: "table_kind t ?i = Some kind" using live by (cases "table_kind t ?i") (simp_all add: heap_objects_def)
    have "sweep_target t ?i \<noteq> None" using kind live by (cases kind) (auto simp: sweep_target_def heap_objects_def span_object_def)
    then show ?thesis using table_kind_some_less [OF kind] by (auto intro!: image_eqI [of _ _ "unat ?i"])
  qed
  then show ?thesis unfolding dead_of_def by blast
qed

lemma sweep_full_ok:
  assumes ready: "ready types s" and grants: "\<And>n. wl_grants w n" and room: "length (tb_entries (sp_table s)) \<le> wl_max_entries w"
  shows "\<exists>w' s'. sweep_full types e w s = Some (Ok (w', s')) \<and> reclaims e (dom (heap_objects (sp_table s)) - heap_marked (sp_table s) e) s s'"
proof -
  obtain w1 where w1: "fill_worklist s [0..<length (tb_entries (sp_table s))] (worklist_clear w) = Ok w1"
      "wl_entries w1 = map word_of_nat (filter (\<lambda>index. sweep_target (sp_table s) (word_of_nat index) \<noteq> None) [0..<length (tb_entries (sp_table s))])"
    using fill_worklist_ok [of "worklist_clear w" "[0..<length (tb_entries (sp_table s))]" s] grants room by (auto simp: worklist_clear_def)
  show ?thesis using drain_worklist_ok [OF ready, of e w1] w1(1) unfolding w1(2) swept_everywhere [OF readyD(2) [OF ready]]
    by (auto simp: sweep_full_def)
qed

section \<open>Properties\<close>



section \<open>After marking\<close>

lemma same_frame_kinds:
  assumes "same_frame t t'"
  shows "length (tb_entries t') = length (tb_entries t)" "rel_option same_shape (table_kind t i) (table_kind t' i)"
proof -
  show len: "length (tb_entries t') = length (tb_entries t)" using assms by (auto simp: same_frame_def dest: list_all2_lengthD)
  show "rel_option same_shape (table_kind t i) (table_kind t' i)"
    using assms len by (cases "unat i < length (tb_entries t)")
      (auto simp: same_frame_def table_kind_nth list_all2_conv_all_nth, simp add: table_kind_def table_entry_def get_def)
qed

lemma same_frame_heap_inv:
  assumes frame: "same_frame t t'" and inv: "heap_inv t" and new: "table_inv t'"
  shows "heap_inv t'"
proof -
  note kinds = same_frame_kinds [OF frame]
  have "table_kind t' i = None" if "table_kind t i = None" for i using kinds(2) [of i] that by simp
  then have vac: "vacancy_inv t'" using inv kinds(1) frame by (auto simp: heap_inv_def vacancy_inv_def same_frame_def)
  have "active_young e' \<longleftrightarrow> active_young e"
    if "en_in_eden_pool e' = en_in_eden_pool e" "rel_option same_shape (en_kind e) (en_kind e')" for e e'
    using that by (auto simp: active_young_def same_shape_def option_rel_Some1 option_rel_Some2 split: option.splits span_kind.splits)
  then have same: "map active_young (tb_entries t') = map active_young (tb_entries t)"
    using frame by (intro nth_equalityI) (auto simp: same_frame_def list_all2_conv_all_nth)
  have count: "length (filter active_young es) = length (filter id (map active_young es))" for es
    by (simp add: filter_map)
  have "length (filter active_young (tb_entries t')) = length (filter active_young (tb_entries t))"
    unfolding count [of "tb_entries t'"] count [of "tb_entries t"] same ..
  then show ?thesis using inv new frame vac by (simp add: heap_inv_def same_frame_def)
qed

lemma same_frame_span_len:
  assumes "same_frame t t'"
  shows "span_len t' i = span_len t i"
  using same_frame_kinds(2) [OF assms, of i]
  by (cases "table_kind t i"; cases "table_kind t' i") (auto simp: span_len_def same_shape_def split: span_kind.splits)

text \<open>Marking leaves a heap ready to be swept.\<close>

lemma marked_ready:
  assumes ready: "ready types \<lparr>sp_table = t, sp_external_bytes = external, sp_stats = stats\<rparr>" and frame: "same_frame t t'" and inv: "table_inv t'"
    and objs: "heap_objects t' = after_marking M (heap_objects t)"
  shows "ready types \<lparr>sp_table = t', sp_external_bytes = external, sp_stats = stats\<rparr>"
proof -
  have t: "heap_inv t" "table_inv t" using readyD [OF ready] by auto
  have header: "\<exists>p. heap_objects t r = Some (h, p)" if "heap_objects t' r = Some (h, p')" for r h p'
    using that unfolding objs after_marking_def by (auto split: option.splits if_splits)
  have dom: "dom (heap_objects t') = dom (heap_objects t)" unfolding objs by simp
  have desc: "described types t" using ready by (simp add: ready_def)
  have "described types t'" unfolding described_def
  proof (intro allI impI)
    fix r h p' assume obj': "heap_objects t' r = Some (h, p')"
    then obtain p where obj: "heap_objects t r = Some (h, p)" using header by blast
    then obtain d where d: "registry_descriptor types (gh_type_id h) = Some d" "payload_address t r d = Ok p"
      using desc unfolding described_def by blast
    have "payload_address t' r d = Ok p'"
      using d(2) unfolding payload_address_eq [OF t(2) obj] payload_address_eq [OF inv obj'] same_frame_span_len [OF frame]
      by (auto simp: outcome_simps split: if_splits)
    then show "\<exists>d. registry_descriptor types (gh_type_id h) = Some d \<and> payload_address t' r d = Ok p'" using d(1) by blast
  qed
  moreover have "object_charge t' r = object_charge t r" for r
  proof (cases "heap_objects t' r")
    case None
    then have "heap_objects t r = None" using dom domIff by metis
    then show ?thesis using None by (simp add: object_charge_def)
  qed (use header [of r] in \<open>auto simp: object_charge_def\<close>)
  ultimately show ?thesis using ready frame same_frame_heap_inv [OF frame t(1) inv] dom by (auto simp: ready_def same_frame_def)
qed


section \<open>Teardown\<close>

definition entry_epoch :: "span_entry \<Rightarrow> collection_epoch option" where
  "entry_epoch e =
     (case en_kind e of
        Some (Small sp) \<Rightarrow> mb_epoch (ss_marks (sm_metadata sp))
      | Some (LargeOwner sp) \<Rightarrow> ls_mark_epoch (lg_metadata sp)
      | _ \<Rightarrow> None)"

lemma unused_epoch:
  assumes "length (tb_entries t) \<le> 65536"
  shows "\<exists>e. heap_marked t e = {}"
proof -
  let ?E = "set (map entry_epoch (tb_entries t))"
  have "card (range (Some :: collection_epoch \<Rightarrow> _)) = 2 ^ 32" by (simp add: card_image card_word)
  moreover have "card ?E \<le> 65536" using card_length [of "map entry_epoch (tb_entries t)"] assms by simp
  ultimately have "\<not> range Some \<subseteq> ?E" using card_mono [of ?E "range Some"] by auto
  then obtain e where e: "Some e \<notin> ?E" by auto
  have "r \<notin> heap_marked t e" for r
  proof
    let ?i = "raw_heap_ref_span_id r"
    assume "r \<in> heap_marked t e"
    then obtain kind where kind: "table_kind t ?i = Some kind" "span_marked kind e (ucast r)"
      by (auto simp: heap_marked_def split: option.splits)
    have less: "unat ?i < length (tb_entries t)" using kind(1) by (rule table_kind_some_less)
    have "entry_epoch (tb_entries t ! unat ?i) = Some e"
      using kind by (auto simp: table_kind_nth [OF less] entry_epoch_def span_marked_def marked_slots_def split: span_kind.splits option.splits if_splits)
    then show False using e nth_mem [OF less] by force
  qed
  then show ?thesis by blast
qed

lemma teardown_small_ok:
  assumes "ready types s" and "holds_class s i c" and "heap_marked (sp_table s) e = {}"
  shows "\<exists>s'. teardown_small types i s = Some (Ok s') \<and> sweeps e (dead_of (sp_table s) e i) s s'"
  using assms
proof (induction "card (dead_of (sp_table s) e i)" arbitrary: s rule: less_induct)
  case less
  obtain sp where sp: "table_kind (sp_table s) i = Some (Small sp)" "ss_size_class (sm_metadata sp) = c" using less.prems(2) by (rule holds_class_Small)
  define before where "before = the (take_small_sweep_snapshot (sp_table s) i)"
  have before: "sn_size_class before = ss_size_class (sm_metadata sp)" by (simp add: before_def snapshot_small [OF sp(1)])
  from readyD(2) [OF less.prems(1)] sp(1) before show ?case
  proof (cases rule: next_reference_cases [where cursor = 0 and 'e = "sweep_error \<times> sweeper", case_names none some])
    case none
    have "dead_of (sp_table s) e i = {}" unfolding dead_of_small [OF sp(1), symmetric] using none(2) by (fastforce simp: dead_from_def)
    moreover have "next_allocated_reference (sp_table s) i 0 = (Ok None :: (sweep_error \<times> sweeper, _) outcome)"
      using none(1) by (auto simp: next_reference_def outcome_simps split: option.splits)
    ultimately show ?thesis using sweeps_refl [OF readyD(1) [OF less.prems(1)]] by (simp add: teardown_small.simps [of types i s])
  next
    case (some r slot h p)
    have found: "next_allocated_reference (sp_table s) i 0 = (Ok (Some r) :: (sweep_error \<times> sweeper, _) outcome)"
      using some(1) by (auto simp: next_reference_def outcome_simps split: option.splits)
    obtain s1 sp1 where s1: "drop_small types s r = Ok s1" "sweeps e {r} s s1" "table_kind (sp_table s1) i = Some (Small sp1)"
        "ss_size_class (sm_metadata sp1) = c"
      using drop_small_ok [OF less.prems(1) some(3), of e sp] less.prems(3) sp some(2) by auto
    have rest: "dead_of (sp_table s1) e i = dead_of (sp_table s) e i - {r}" using sweeps_dead_of [OF s1(2)] .
    have r: "r \<in> dead_of (sp_table s) e i" using some(2,3) less.prems(3) by (simp add: dead_of_def)
    then have "card (dead_of (sp_table s1) e i) < card (dead_of (sp_table s) e i)" unfolding rest by (intro psubset_card_mono) auto
    then obtain s' where "teardown_small types i s1 = Some (Ok s')" "sweeps e (dead_of (sp_table s1) e i) s1 s'"
      using less.hyps [of s1] sweeps_ready [OF less.prems(1) s1(2)] s1 less.prems(3) by (auto simp: holds_class_def sweeps_def)
    moreover have "{r} \<union> dead_of (sp_table s1) e i = dead_of (sp_table s) e i" using r unfolding rest by auto
    ultimately show ?thesis using found s1(1) sweeps_trans [OF s1(2)] by (fastforce simp: teardown_small.simps [of types i s])
  qed
qed

lemma teardown_span_ok:
  assumes ready: "ready types s" and unmarked: "heap_marked (sp_table s) e = {}"
  shows "\<exists>s'. (case sweep_target (sp_table s) i of
        Some SweepSmall \<Rightarrow> teardown_small types i s
      | Some SweepLargeOwner \<Rightarrow> Some (drop_large_payload_for_teardown types s i)
      | None \<Rightarrow> Some (Ok s)) = Some (Ok s') \<and> sweeps e (dead_of (sp_table s) e i) s s'"
proof -
  have quiet: "sweeps e (dead_of (sp_table s) e i) s s" if "\<And>r. raw_heap_ref_span_id r = i \<Longrightarrow> heap_objects (sp_table s) r = None"
  proof -
    have "dead_of (sp_table s) e i = {}" using that by (auto simp: dead_of_def)
    then show ?thesis using sweeps_refl [OF readyD(1) [OF ready]] by simp
  qed
  show ?thesis
  proof (cases "table_kind (sp_table s) i")
    case None
    then show ?thesis using quiet by (simp add: sweep_target_def heap_objects_def)
  next
    case (Some kind)
    show ?thesis
    proof (cases kind)
      case (Small sp)
      then show ?thesis using teardown_small_ok [OF ready _ unmarked, of i "ss_size_class (sm_metadata sp)"] Some
        by (simp add: sweep_target_def holds_class_def)
    next
      case (LargeOwner sp)
      then have kind: "table_kind (sp_table s) i = Some (LargeOwner sp)" using Some by simp
      show ?thesis
      proof (cases "ls_allocated (lg_metadata sp)")
        case False
        then have "sweeps e (dead_of (sp_table s) e i) s s" using large_object [OF kind] by (intro quiet) blast
        then show ?thesis using False kind
          by (simp add: sweep_target_def drop_large_payload_for_teardown_def table_large_metadata_def)
      next
        case True
        have "r \<in> dead_of (sp_table s) e i \<longleftrightarrow> r \<in> {mk_ref i 16}" for r
          using large_object [OF kind, of r] True unmarked mk_ref_parts(2) [of 16 i] by (auto simp: dead_of_def simp del: not_None_eq)
        then have "dead_of (sp_table s) e i = {mk_ref i 16}" by blast
        then show ?thesis using drop_large_ok [OF ready kind True, of e] unmarked kind True
          by (auto simp: sweep_target_def drop_large_payload_for_teardown_def table_large_metadata_def large_owner_ref)
      qed
    next
      case (LargeContinuation owner ordinal)
      then show ?thesis using quiet Some by (simp add: sweep_target_def heap_objects_def span_object_def)
    qed
  qed
qed

lemma teardown_spans_ok:
  assumes "ready types s" and "heap_marked (sp_table s) e = {}"
  shows "\<exists>s'. teardown_spans types indexes s = Some (Ok s') \<and> sweeps e (\<Union>index \<in> set indexes. dead_of (sp_table s) e (word_of_nat index)) s s'"
  using assms
proof (induction indexes arbitrary: s)
  case Nil
  then show ?case using sweeps_refl readyD(1) by auto
next
  case (Cons index indexes)
  let ?i = "word_of_nat index :: span_id"
  obtain s1 where s1: "(case sweep_target (sp_table s) ?i of
        Some SweepSmall \<Rightarrow> teardown_small types ?i s
      | Some SweepLargeOwner \<Rightarrow> Some (drop_large_payload_for_teardown types s ?i)
      | None \<Rightarrow> Some (Ok s)) = Some (Ok s1)" "sweeps e (dead_of (sp_table s) e ?i) s s1"
    using teardown_span_ok [OF Cons.prems] by blast
  have rest: "dead_of (sp_table s1) e j = dead_of (sp_table s) e j - dead_of (sp_table s) e ?i" for j
    using s1(2) by (rule sweeps_dead_of)
  obtain s' where s': "teardown_spans types indexes s1 = Some (Ok s')"
      "sweeps e (\<Union>index \<in> set indexes. dead_of (sp_table s1) e (word_of_nat index)) s1 s'"
    using Cons.IH [of s1] sweeps_ready [OF Cons.prems(1) s1(2)] Cons.prems(2) s1(2) by (auto simp: sweeps_def)
  have "dead_of (sp_table s) e ?i \<union> (\<Union>index \<in> set indexes. dead_of (sp_table s1) e (word_of_nat index)) =
      (\<Union>index \<in> set (index # indexes). dead_of (sp_table s) e (word_of_nat index))"
    unfolding rest by auto
  then show ?case using sweeps_trans [OF s1(2) s'(2)] s1(1) s'(1) by (simp add: Let_def)
qed

text \<open>C13. The teardown of a heap drops every published payload, marked or not, exactly once: it ends without an error or a panic, no
  object stays published, and every external byte charged to an object is returned.\<close>

theorem teardown_exact:
  assumes "ready types s"
  shows "\<exists>s'. teardown_payloads types s = Some (Ok s') \<and> heap_inv (sp_table s') \<and> heap_objects (sp_table s') = Map.empty \<and>
    sp_external_bytes s' + sum (object_charge (sp_table s)) (dom (heap_objects (sp_table s))) = sp_external_bytes s"
proof -
  let ?t = "sp_table s"
  have inv: "table_inv ?t" using assms by (rule readyD)
  obtain e where e: "heap_marked ?t e = {}" using unused_epoch [of ?t] inv by (auto simp: table_inv_def)
  obtain s' where s': "teardown_payloads types s = Some (Ok s')"
      "sweeps e (\<Union>index \<in> set [0..<length (tb_entries ?t)]. dead_of ?t e (word_of_nat index)) s s'"
    unfolding teardown_payloads_def using teardown_spans_ok [OF assms e] by blast
  have "(\<Union>index \<in> set [0..<length (tb_entries ?t)]. dead_of ?t e (word_of_nat index)) = dom (heap_objects ?t)"
  proof
    show "(\<Union>index \<in> set [0..<length (tb_entries ?t)]. dead_of ?t e (word_of_nat index)) \<subseteq> dom (heap_objects ?t)" by (auto simp: dead_of_def)
    show "dom (heap_objects ?t) \<subseteq> (\<Union>index \<in> set [0..<length (tb_entries ?t)]. dead_of ?t e (word_of_nat index))"
      using swept_everywhere [OF inv, of e] unfolding e by fastforce
  qed
  then have "sweeps e (dom (heap_objects ?t)) s s'" using s'(2) by simp
  then show ?thesis using s'(1) by (auto simp: sweeps_def restrict_map_def domIff fun_eq_iff)
qed

subsection \<open>The small heap swept\<close>

definition cell_sweeper :: sweeper where
  "cell_sweeper = \<lparr>sp_table = cell_table, sp_external_bytes = 0, sp_stats = sweep_stats_default\<rparr>"

lemma cell_payload_address: "heap_objects cell_table r = Some (h, p) \<Longrightarrow> payload_address cell_table r (hd cell_types) = Ok p \<and> h = gc_header_new 1 0 0"
proof -
  assume obj: "heap_objects cell_table r = Some (h, p)"
  then have r: "unat (raw_heap_ref_span_id r) < 4" "(ucast r :: u16) = 16" "h = gc_header_new 1 0 0" by (auto simp: cell_objects split: if_splits)
  then have "span_len cell_table (raw_heap_ref_span_id r) = 65536" by (simp add: span_len_def cell_kind cell_span_def)
  then show ?thesis unfolding payload_address_eq [OF cell_inv(1) obj] using r
    by (simp add: cell_types_def gc_header_new_def checked_placement_def for_payload_layout_def round_up_def div_ceil_def
        GC_HEADER_SIZE_BYTES_def layout_values)
qed

lemma cell_ready: "ready cell_types cell_sweeper"
proof -
  have "filter active_young (tb_entries cell_table) = []" by (simp add: cell_table_def active_young_def fresh_entry_def)
  then have "heap_inv cell_table"
    using cell_inv(1) by (simp add: heap_inv_def vacancy_inv_def) (simp add: cell_table_def span_table_new_def coalesced_def)
  moreover have "described cell_types cell_table"
    using cell_payload_address by (fastforce simp: described_def registry_descriptor_def get_def cell_types_def gc_header_new_def)
  moreover have "object_charge cell_table r = 0" for r
    by (simp add: object_charge_def cell_objects charged_bytes_def header_external_bytes_def gc_header_new_def)
  moreover have "tb_grants cell_table n" for n by (simp add: cell_table_def span_table_new_def)
  ultimately show ?thesis by (simp add: ready_def cell_sweeper_def)
qed



theorem teardown_exact_witness:
  "\<exists>s'. teardown_payloads cell_types cell_sweeper = Some (Ok s') \<and> heap_objects (sp_table s') = Map.empty"
  using teardown_exact [OF cell_ready] by blast

end
