(* ===== verification/BigInt_Limbs.thy ===== *)
theory BigInt_Limbs
  imports Prelude
begin

text \<open>
  Magnitudes of arbitrary-precision integers: little-endian lists of 64-bit limbs and the kernels of
  \<open>crates/tachyon-vm/src/bigint.rs\<close> that work on them. Products and sums go through 128-bit words as in
  the source. Each kernel is related to the natural number its limbs stand for.
\<close>

type_synonym u128 = "128 word"
type_synonym limbs = "u64 list"

datatype bigint_error = AllocationFailed | DivisionByZero | NegativeExponent | ResultTooLarge

definition MAX_RESULT_BITS :: nat where
  "MAX_RESULT_BITS = 16 * 1024 * 1024"

definition ensure_result_limbs :: "nat \<Rightarrow> (bigint_error, unit) outcome" where
  "ensure_result_limbs n = reject_if (n > div_ceil MAX_RESULT_BITS 64) ResultTooLarge"

text \<open>\<open>grants\<close> is the answer of the allocator to a request for that many limbs.\<close>

definition zeroed_limbs :: "(nat \<Rightarrow> bool) \<Rightarrow> nat \<Rightarrow> (bigint_error, limbs) outcome" where
  "zeroed_limbs grants n =
     and_then (ensure_result_limbs n) (\<lambda>_. if grants n then Ok (replicate n 0) else Err AllocationFailed)"

definition trim_limbs :: "limbs \<Rightarrow> limbs" where
  "trim_limbs xs = rev (dropWhile (\<lambda>x. x = 0) (rev xs))"

definition limb_at :: "limbs \<Rightarrow> nat \<Rightarrow> u64" where
  "limb_at xs i = (case get xs i of Some x \<Rightarrow> x | None \<Rightarrow> 0)"

section \<open>Kernels\<close>

fun multiply_add :: "u128 \<Rightarrow> limbs \<Rightarrow> u128 \<Rightarrow> limbs \<times> u128" where
  "multiply_add radix [] carry = ([], carry)"
| "multiply_add radix (limb # limbs) carry =
     (let product = ucast limb * radix + carry; (rest, c) = multiply_add radix limbs (drop_bit 64 product)
      in (ucast product # rest, c))"

text \<open>One digit appended to a magnitude.\<close>

definition push_digit :: "u128 \<Rightarrow> limbs \<Rightarrow> u128 \<Rightarrow> limbs" where
  "push_digit radix limbs digit =
     (case multiply_add radix limbs digit of (limbs, carry) \<Rightarrow> if carry \<noteq> 0 then limbs @ [ucast carry] else limbs)"

fun add_loop :: "limbs \<Rightarrow> limbs \<Rightarrow> nat list \<Rightarrow> u128 \<Rightarrow> limbs \<times> u128" where
  "add_loop left right [] carry = ([], carry)"
| "add_loop left right (index # indexes) carry =
     (let sum = ucast (limb_at left index) + ucast (limb_at right index) + carry;
          (rest, c) = add_loop left right indexes (drop_bit 64 sum)
      in (ucast sum # rest, c))"

definition add_magnitudes :: "(nat \<Rightarrow> bool) \<Rightarrow> limbs \<Rightarrow> limbs \<Rightarrow> (bigint_error, limbs) outcome" where
  "add_magnitudes grants left right =
     (let common = max (length left) (length right); capacity = common + 1 in
      and_then (ensure_result_limbs capacity) (\<lambda>_.
      and_then (zeroed_limbs grants capacity) (\<lambda>_.
      case add_loop left right [0..<common] 0 of (sums, carry) \<Rightarrow> Ok (sums @ [ucast carry]))))"

fun subtract_loop :: "limbs \<Rightarrow> limbs \<Rightarrow> nat \<Rightarrow> u128 \<Rightarrow> limbs" where
  "subtract_loop right [] index borrow = []"
| "subtract_loop right (limb # limbs) index borrow =
     (let subtrahend = ucast (limb_at right index) + borrow; minuend = ucast limb :: u128
      in ucast (minuend - subtrahend) # subtract_loop right limbs (index + 1) (if minuend < subtrahend then 1 else 0))"

definition subtract_magnitudes :: "(nat \<Rightarrow> bool) \<Rightarrow> limbs \<Rightarrow> limbs \<Rightarrow> (bigint_error, limbs) outcome" where
  "subtract_magnitudes grants left right =
     and_then (zeroed_limbs grants (length left)) (\<lambda>_. Ok (subtract_loop right left 0 0))"

definition subtract_magnitude_in_place :: "limbs \<Rightarrow> limbs \<Rightarrow> limbs" where
  "subtract_magnitude_in_place left right = trim_limbs (subtract_loop right left 0 0)"

text \<open>The pass from the high limb to the low one: the tail of a list holds its high limbs.\<close>

fun divide_loop :: "u128 \<Rightarrow> limbs \<Rightarrow> limbs \<times> u128" where
  "divide_loop divisor [] = ([], 0)"
| "divide_loop divisor (limb # limbs) =
     (let (quo, residual) = divide_loop divisor limbs; current = push_bit 64 residual OR ucast limb
      in (ucast (current div divisor) # quo, current mod divisor))"

definition divide_magnitude_by_limb :: "(nat \<Rightarrow> bool) \<Rightarrow> limbs \<Rightarrow> u64 \<Rightarrow> (bigint_error, limbs \<times> u64) outcome" where
  "divide_magnitude_by_limb grants dividend divisor =
     and_then (zeroed_limbs grants (length dividend)) (\<lambda>_.
     case divide_loop (ucast divisor) dividend of (quo, residual) \<Rightarrow> Ok (quo, ucast residual))"

definition magnitude_slice_cmp :: "limbs \<Rightarrow> limbs \<Rightarrow> ordering" where
  "magnitude_slice_cmp left right =
     (let by_length = ordering_of (length left) (length right)
      in if by_length \<noteq> Ord_Equal then by_length else list_cmp (rev left) (rev right))"

fun shift_left_one_loop :: "limbs \<Rightarrow> u64 \<Rightarrow> limbs" where
  "shift_left_one_loop [] carry = (if carry \<noteq> 0 then [carry] else [])"
| "shift_left_one_loop (limb # limbs) carry = (push_bit 1 limb OR carry) # shift_left_one_loop limbs (drop_bit 63 limb)"

definition shift_magnitude_left_one :: "limbs \<Rightarrow> limbs" where
  "shift_magnitude_left_one limbs = shift_left_one_loop limbs 0"

text \<open>\<open>64 - leading_zeros\<close> of a limb is the width of its number.\<close>

fun bit_width :: "nat \<Rightarrow> nat" where
  "bit_width n = (if n = 0 then 0 else bit_width (n div 2) + 1)"

declare bit_width.simps [simp del]

definition magnitude_bit_length :: "limbs \<Rightarrow> nat" where
  "magnitude_bit_length xs = (if xs = [] then 0 else (length xs - 1) * 64 + bit_width (unat (last xs)))"

fun divide_bits :: "limbs \<Rightarrow> limbs \<Rightarrow> nat list \<Rightarrow> limbs \<Rightarrow> limbs \<Rightarrow> (bigint_error, limbs \<times> limbs) outcome" where
  "divide_bits dividend divisor [] quo residual = Ok (quo, residual)"
| "divide_bits dividend divisor (bit_index # indexes) quo residual =
     and_then (index_or_panic dividend (bit_index div 64)) (\<lambda>word.
     let shifted = shift_magnitude_left_one residual;
         residual = (if word AND push_bit (bit_index mod 64) 1 \<noteq> 0
                     then (if shifted = [] then [1] else (hd shifted OR 1) # tl shifted) else shifted)
     in if magnitude_slice_cmp residual divisor \<noteq> Ord_Less
        then and_then (index_or_panic quo (bit_index div 64)) (\<lambda>q.
             divide_bits dividend divisor indexes (quo[bit_index div 64 := q OR push_bit (bit_index mod 64) 1])
               (subtract_magnitude_in_place residual divisor))
        else divide_bits dividend divisor indexes quo residual)"

definition divide_magnitudes :: "(nat \<Rightarrow> bool) \<Rightarrow> limbs \<Rightarrow> limbs \<Rightarrow> (bigint_error, limbs \<times> limbs) outcome" where
  "divide_magnitudes grants dividend divisor =
     and_then (zeroed_limbs grants (length dividend)) (\<lambda>quo.
     if \<not> grants (length divisor + 1) then Err AllocationFailed
     else if dividend = [] then Panic
     else divide_bits dividend divisor (rev [0..<magnitude_bit_length dividend]) quo [])"

fun multiply_inner :: "u64 \<Rightarrow> limbs \<Rightarrow> nat \<Rightarrow> u128 \<Rightarrow> limbs \<Rightarrow> (bigint_error, limbs \<times> u128) outcome" where
  "multiply_inner left [] index carry limbs = Ok (limbs, carry)"
| "multiply_inner left (right # rights) index carry limbs =
     and_then (index_or_panic limbs index) (\<lambda>limb.
     let product = ucast left * ucast right + ucast limb + carry
     in multiply_inner left rights (index + 1) (drop_bit 64 product) (limbs[index := ucast product]))"

fun multiply_outer :: "limbs \<Rightarrow> nat \<Rightarrow> limbs \<Rightarrow> limbs \<Rightarrow> (bigint_error, limbs) outcome" where
  "multiply_outer [] left_index right limbs = Ok limbs"
| "multiply_outer (left # lefts) left_index right limbs =
     and_then (multiply_inner left right left_index 0 limbs) (\<lambda>(limbs, carry).
     and_then (index_or_panic limbs (left_index + length right)) (\<lambda>_.
     multiply_outer lefts (left_index + 1) right (limbs[left_index + length right := ucast carry])))"

fun add_one_in_place :: "limbs \<Rightarrow> limbs" where
  "add_one_in_place [] = []"
| "add_one_in_place (limb # limbs) = (if limb + 1 = 0 then 0 # add_one_in_place limbs else (limb + 1) # limbs)"

definition discarded_bits_nonzero :: "limbs \<Rightarrow> nat \<Rightarrow> bool" where
  "discarded_bits_nonzero limbs shift =
     (let whole_limbs = shift div 64; partial = shift mod 64
      in (\<exists>limb \<in> set (take whole_limbs limbs). limb \<noteq> 0) \<or>
         partial \<noteq> 0 \<and> (case get limbs whole_limbs of Some limb \<Rightarrow> limb AND (push_bit partial 1 - 1) \<noteq> 0 | None \<Rightarrow> False))"

fun shift_left_loop :: "nat \<Rightarrow> nat \<Rightarrow> nat \<Rightarrow> limbs \<Rightarrow> limbs \<Rightarrow> (bigint_error, limbs) outcome" where
  "shift_left_loop word_shift bit_shift index [] limbs = Ok limbs"
| "shift_left_loop word_shift bit_shift index (limb # source) limbs =
     and_then (index_or_panic limbs (index + word_shift)) (\<lambda>low.
     let limbs = limbs[index + word_shift := low OR push_bit bit_shift limb]
     in if bit_shift \<noteq> 0
        then and_then (index_or_panic limbs (index + word_shift + 1)) (\<lambda>high.
             shift_left_loop word_shift bit_shift (index + 1) source
               (limbs[index + word_shift + 1 := high OR drop_bit (64 - bit_shift) limb]))
        else shift_left_loop word_shift bit_shift (index + 1) source limbs)"

definition shift_right_limb :: "limbs \<Rightarrow> nat \<Rightarrow> nat \<Rightarrow> nat \<Rightarrow> u64" where
  "shift_right_limb limbs word_shift bit_shift index =
     (let source = index + word_shift; output = drop_bit bit_shift (limbs ! source)
      in if bit_shift \<noteq> 0 \<and> source + 1 < length limbs then output OR push_bit (64 - bit_shift) (limbs ! (source + 1)) else output)"

section \<open>The number of a magnitude\<close>

definition BASE :: nat where
  "BASE = 2 ^ 64"

fun magnitude :: "limbs \<Rightarrow> nat" where
  "magnitude [] = 0"
| "magnitude (x # xs) = unat x + BASE * magnitude xs"

text \<open>Without a high zero limb.\<close>

definition trimmed :: "limbs \<Rightarrow> bool" where
  "trimmed xs \<longleftrightarrow> (xs \<noteq> [] \<longrightarrow> last xs \<noteq> 0)"

lemma BASE_gt [simp]: "0 < BASE" "1 < BASE" "BASE \<noteq> 0" "Suc 0 \<le> BASE"
  by (simp_all add: BASE_def)

lemma BASE_power: "BASE ^ n = 2 ^ (n * 64)"
  unfolding BASE_def by (metis mult.commute power_mult)

lemma limb_less [simp]: "unat (x :: u64) < BASE"
  unfolding BASE_def using unsigned_less [of x] by simp

lemma magnitude_less: "magnitude xs < BASE ^ length xs"
proof (induction xs)
  case (Cons x xs)
  have "unat x + BASE * magnitude xs < BASE + BASE * magnitude xs" by simp
  also have "\<dots> = BASE * (magnitude xs + 1)" by simp
  also have "\<dots> \<le> BASE * BASE ^ length xs" using Cons by (intro mult_le_mono2) simp
  finally show ?case by simp
qed simp

lemma magnitude_append: "magnitude (xs @ ys) = magnitude xs + BASE ^ length xs * magnitude ys"
  by (induction xs) (simp_all add: algebra_simps)

lemma magnitude_zeros [simp]: "magnitude (replicate n 0) = 0"
  by (induction n) simp_all

lemma magnitude_trim [simp]: "magnitude (trim_limbs xs) = magnitude xs"
proof (induction xs rule: rev_induct)
  case (snoc x xs)
  then show ?case by (cases "x = 0") (simp_all add: trim_limbs_def magnitude_append)
qed (simp add: trim_limbs_def)

lemma trim_trimmed [simp]: "trimmed (trim_limbs xs)"
  unfolding trimmed_def trim_limbs_def
  by (metis (mono_tags, lifting) hd_dropWhile last_rev rev_is_Nil_conv)

lemma trimmed_trim: "trimmed xs \<Longrightarrow> trim_limbs xs = xs"
  by (cases xs rule: rev_cases) (auto simp: trimmed_def trim_limbs_def)

lemma length_trim: "length (trim_limbs xs) \<le> length xs"
  by (simp add: trim_limbs_def) (metis length_dropWhile_le length_rev)

lemma trimmed_magnitude:
  assumes "trimmed xs" and "xs \<noteq> []"
  shows "BASE ^ (length xs - 1) \<le> magnitude xs"
proof -
  obtain ys y where xs: "xs = ys @ [y]" using assms(2) by (metis rev_exhaust)
  then have "0 < unat y" using assms(1) by (simp add: trimmed_def unat_gt_0)
  then have "BASE ^ length ys * 1 \<le> BASE ^ length ys * unat y" by (intro mult_le_mono2) simp
  then have "BASE ^ length ys \<le> magnitude ys + BASE ^ length ys * unat y" by (simp only: mult_1_right trans_le_add2)
  then show ?thesis unfolding xs magnitude_append by simp
qed

lemma trimmed_zero: "trimmed xs \<Longrightarrow> magnitude xs = 0 \<longleftrightarrow> xs = []"
  using trimmed_magnitude [of xs] by (metis BASE_gt(3) le_zero_eq magnitude.simps(1) power_not_zero)

lemma magnitude_inject:
  assumes "magnitude xs = magnitude ys" and "length xs = length ys"
  shows "xs = ys"
  using assms(2,1)
proof (induction rule: list_induct2)
  case (Cons x xs y ys)
  have eq: "unat x + BASE * magnitude xs = unat y + BASE * magnitude ys" using Cons.prems by simp
  have "(unat x + BASE * magnitude xs) mod BASE = unat x" "(unat y + BASE * magnitude ys) mod BASE = unat y" by simp_all
  with eq have "unat x = unat y" by simp
  moreover from this have "x = y" by (simp only: word_unat_eq_iff)
  ultimately show ?case using eq Cons.IH by simp
qed simp

lemma trimmed_length_mono:
  assumes "trimmed xs" "trimmed ys" "length xs < length ys"
  shows "magnitude xs < magnitude ys"
proof -
  have "magnitude xs < BASE ^ length xs" by (rule magnitude_less)
  also have "\<dots> \<le> BASE ^ (length ys - 1)" using assms(3) by (intro power_increasing) auto
  also have "\<dots> \<le> magnitude ys" using trimmed_magnitude [OF assms(2)] assms(3) by fastforce
  finally show ?thesis .
qed

lemma trimmed_inject: "trimmed xs \<Longrightarrow> trimmed ys \<Longrightarrow> magnitude xs = magnitude ys \<Longrightarrow> xs = ys"
  using trimmed_length_mono magnitude_inject by (metis linorder_neqE_nat less_irrefl)

section \<open>Correctness of the kernels\<close>

subsection \<open>Double-width words\<close>

lemma high_u128_div: "unat (drop_bit 64 (p :: u128)) = unat p div BASE"
  unfolding BASE_def by (metis drop_bit_eq_div unat_drop_bit_eq)

lemma low_u128: "unat (ucast (p :: u128) :: u64) = unat p mod BASE"
  unfolding BASE_def by (simp add: unsigned_ucast_eq take_bit_eq_mod)

lemma split_u128: "unat (ucast p :: u64) + BASE * unat (drop_bit 64 p) = unat (p :: u128)"
  unfolding high_u128_div low_u128 by simp

lemma high_u128: "unat (drop_bit 64 (p :: u128)) < BASE"
proof -
  have "unat p < BASE * BASE" unfolding BASE_def using unsigned_less [of p, where 'a = nat] by simp
  then show ?thesis unfolding high_u128_div by (rule less_mult_imp_div_less)
qed

lemma unat_wide [simp]: "unat (ucast (x :: u64) :: u128) = unat x"
proof -
  have "unat x < 2 ^ 64" using unsigned_less [of x, where 'a = nat] by simp
  then show ?thesis by (simp add: unsigned_ucast_eq take_bit_eq_mod)
qed

lemma BASE_squared: "BASE * BASE = 2 ^ 128"
  by (simp add: BASE_def)

lemma unat_madd:
  assumes "unat a < BASE" "unat b < BASE" "unat c < BASE" "unat d < BASE"
  shows "unat (a * b + c + d :: u128) = unat a * unat b + unat c + unat d"
proof -
  have "unat a * unat b + unat c + unat d \<le> (BASE - 1) * (BASE - 1) + (BASE - 1) + (BASE - 1)"
    using assms by (intro add_mono mult_mono) auto
  also have "\<dots> < BASE * BASE" by (simp add: BASE_def)
  finally have "unat a * unat b + unat c + unat d < 2 ^ 128" unfolding BASE_squared .
  then show ?thesis by (simp add: unat_word_ariths mod_add_left_eq mod_add_right_eq)
qed

lemma unat_wide_add: "unat a + unat b + unat c < 2 ^ 128 \<Longrightarrow> unat (a + b + c :: u128) = unat a + unat b + unat c"
  by (simp add: unat_word_ariths mod_add_left_eq)

lemma narrow_u128: "unat (c :: u128) < BASE \<Longrightarrow> unat (ucast c :: u64) = unat c"
  unfolding BASE_def by (simp add: unsigned_ucast_eq take_bit_eq_mod)

lemma carry_step: "m + P = t + h \<Longrightarrow> u + B * m + B * P = (u + B * h) + B * t" for m P t h u B :: nat
  by (metis (no_types, opaque_lifting) add.assoc add.commute distrib_left)

lemma borrow_step:
  fixes u r bo x b' m mr X P b B :: nat
  assumes "u + (r + bo) = x + B * b'" and "m + mr + b' = X + P * b"
  shows "u + B * m + (r + B * mr) + bo = x + B * X + B * (P * b)"
proof -
  have "B * m + B * mr + B * b' = B * X + B * (P * b)" using arg_cong [OF assms(2), of "(*) B"] by (simp add: distrib_left)
  then show ?thesis using assms(1) by linarith
qed

subsection \<open>Digits, sums and differences\<close>

lemma multiply_add_value:
  assumes "unat radix < BASE" and "unat carry < BASE"
  shows "case multiply_add radix xs carry of (ys, c) \<Rightarrow>
    length ys = length xs \<and> unat c < BASE \<and> magnitude ys + BASE ^ length xs * unat c = magnitude xs * unat radix + unat carry"
  using assms
proof (induction radix xs carry rule: multiply_add.induct)
  case (2 radix x xs carry)
  let ?p = "ucast x * radix + carry :: u128"
  have p: "unat ?p = unat x * unat radix + unat carry" using unat_madd [of "ucast x" radix 0 carry] 2(2,3) by simp
  obtain ys c where ys: "multiply_add radix xs (drop_bit 64 ?p) = (ys, c)" by fastforce
  have "length ys = length xs \<and> unat c < BASE \<and>
      magnitude ys + BASE ^ length xs * unat c = magnitude xs * unat radix + unat (drop_bit 64 ?p)"
    using 2(1) [OF refl 2(2) high_u128] ys by simp
  moreover from this have "unat (ucast ?p :: u64) + BASE * magnitude ys + BASE * (BASE ^ length xs * unat c) =
      (unat (ucast ?p :: u64) + BASE * unat (drop_bit 64 ?p)) + BASE * (magnitude xs * unat radix)" by (intro carry_step) simp
  ultimately show ?case using ys p unfolding split_u128 by (simp add: Let_def algebra_simps)
qed simp

lemma push_digit_value:
  assumes "unat radix < BASE" and "unat digit < BASE"
  shows "magnitude (push_digit radix xs digit) = magnitude xs * unat radix + unat digit"
proof -
  obtain ys c where ys: "multiply_add radix xs digit = (ys, c)" by fastforce
  then show ?thesis using multiply_add_value [OF assms, of xs] narrow_u128 [of c]
    by (auto simp: push_digit_def magnitude_append unat_eq_zero)
qed

lemma add_loop_value:
  assumes "unat carry \<le> 1"
  shows "case add_loop left right is carry of (ys, c) \<Rightarrow> length ys = length is \<and> unat c \<le> 1 \<and>
    magnitude ys + BASE ^ length is * unat c = magnitude (map (limb_at left) is) + magnitude (map (limb_at right) is) + unat carry"
  using assms
proof (induction left right "is" carry rule: add_loop.induct)
  case (2 left right i "is" carry)
  let ?s = "ucast (limb_at left i) + ucast (limb_at right i) + carry :: u128"
  have lt: "unat (limb_at left i) + unat (limb_at right i) + unat carry < 2 * BASE"
    using limb_less [of "limb_at left i"] limb_less [of "limb_at right i"] 2(2) by linarith
  then have "unat (limb_at left i) + unat (limb_at right i) + unat carry < 2 ^ 128" by (simp add: BASE_def)
  then have s: "unat ?s = unat (limb_at left i) + unat (limb_at right i) + unat carry" using unat_wide_add by simp
  have "unat (drop_bit 64 ?s) = unat ?s div BASE" by (rule high_u128_div)
  then have hi: "unat (drop_bit 64 ?s) \<le> 1" using less_mult_imp_div_less [OF lt] unfolding s by simp
  obtain ys c where ys: "add_loop left right is (drop_bit 64 ?s) = (ys, c)" by fastforce
  have "length ys = length is \<and> unat c \<le> 1 \<and> magnitude ys + BASE ^ length is * unat c =
      magnitude (map (limb_at left) is) + magnitude (map (limb_at right) is) + unat (drop_bit 64 ?s)"
    using 2(1) [OF refl hi] ys by simp
  moreover from this have "unat (ucast ?s :: u64) + BASE * magnitude ys + BASE * (BASE ^ length is * unat c) =
      (unat (ucast ?s :: u64) + BASE * unat (drop_bit 64 ?s)) + BASE * (magnitude (map (limb_at left) is) + magnitude (map (limb_at right) is))"
    by (intro carry_step) simp
  ultimately show ?case using ys s unfolding split_u128 by (simp add: Let_def algebra_simps)
qed simp

lemma limb_at_pad:
  assumes "length xs \<le> n"
  shows "magnitude (map (limb_at xs) [0..<n]) = magnitude xs"
proof -
  have "map (limb_at xs) [0..<n] = xs @ replicate (n - length xs) 0"
    using assms by (intro nth_equalityI) (auto simp: limb_at_def get_def nth_append)
  then show ?thesis by (simp add: magnitude_append)
qed

lemma add_magnitudes_value:
  assumes "add_magnitudes grants xs ys = Ok zs"
  shows "magnitude zs = magnitude xs + magnitude ys"
proof -
  let ?n = "max (length xs) (length ys)"
  obtain sums c where loop: "add_loop xs ys [0..<?n] 0 = (sums, c)" by fastforce
  have v: "length sums = ?n" "unat c \<le> 1" "magnitude sums + BASE ^ ?n * unat c = magnitude xs + magnitude ys"
    using add_loop_value [of 0 "[0..<?n]" xs ys] loop limb_at_pad [of xs ?n] limb_at_pad [of ys ?n] by simp_all
  have "zs = sums @ [ucast c]" using assms loop by (auto simp: add_magnitudes_def Let_def outcome_simps)
  moreover have "unat c < BASE" using v(2) BASE_gt(2) by linarith
  ultimately show ?thesis using v narrow_u128 [of c] by (simp add: magnitude_append)
qed

lemma subtract_loop_value:
  assumes "unat borrow \<le> 1"
  shows "\<exists>b \<le> 1. length (subtract_loop right xs i borrow) = length xs \<and>
    magnitude (subtract_loop right xs i borrow) + magnitude (map (limb_at right) [i..<i + length xs]) + unat borrow =
    magnitude xs + BASE ^ length xs * b"
  using assms
proof (induction right xs i borrow rule: subtract_loop.induct)
  case (1 right i borrow)
  then show ?case by (intro exI [of _ "unat borrow"]) simp
next
  case (2 right x xs i borrow)
  let ?s = "ucast (limb_at right i) + borrow :: u128" and ?m = "ucast x :: u128"
  let ?b = "if ?m < ?s then 1 else 0 :: u128"
  have le: "unat (limb_at right i) + unat borrow \<le> BASE" using limb_less [of "limb_at right i"] 2(2) by linarith
  then have "unat (limb_at right i) + unat borrow < 2 ^ 128" by (simp add: BASE_def)
  then have s: "unat ?s = unat (limb_at right i) + unat borrow" by (simp add: unat_word_ariths)
  have d: "unat (ucast (?m - ?s) :: u64) + unat ?s = unat x + BASE * unat ?b"
  proof (cases "?m < ?s")
    case True
    then have lt: "unat x < unat ?s" by (simp add: word_less_nat_alt)
    have "unat (?m - ?s) = 2 ^ 128 + unat x - unat ?s"
      using True lt by (simp add: unat_sub_if' word_less_nat_alt)
    moreover note low_u128 [of "?m - ?s"]
    moreover have "2 ^ 128 + unat x - unat ?s = (BASE - 1) * BASE + (BASE + unat x - unat ?s)"
      using s le by (simp add: BASE_def)
    moreover have "BASE + unat x - unat ?s < BASE" using lt BASE_gt(1) by linarith
    ultimately have "unat (ucast (?m - ?s) :: u64) = BASE + unat x - unat ?s" by simp
    then show ?thesis using True s le by simp
  next
    case False
    then have ge: "unat ?s \<le> unat x" by (simp add: word_less_nat_alt)
    then have "unat (?m - ?s) = unat x - unat ?s" by (simp add: unat_sub_if')
    moreover have "unat x - unat ?s < BASE" using limb_less [of x] by linarith
    ultimately have "unat (ucast (?m - ?s) :: u64) = unat x - unat ?s" using narrow_u128 [of "?m - ?s"] by simp
    then show ?thesis using False ge by simp
  qed
  have "unat ?b \<le> 1" by simp
  then obtain b where b: "b \<le> 1" "length (subtract_loop right xs (i + 1) ?b) = length xs"
      "magnitude (subtract_loop right xs (i + 1) ?b) + magnitude (map (limb_at right) [i + 1..<i + 1 + length xs]) + unat ?b =
       magnitude xs + BASE ^ length xs * b"
    using 2(1) [OF refl refl] by auto
  have up: "map (limb_at right) [i..<i + length (x # xs)] = limb_at right i # map (limb_at right) [i + 1..<i + 1 + length xs]"
    by (simp add: upt_rec)
  have "unat (ucast (?m - ?s) :: u64) + BASE * magnitude (subtract_loop right xs (i + 1) ?b) + (unat (limb_at right i) +
      BASE * magnitude (map (limb_at right) [i + 1..<i + 1 + length xs])) + unat borrow = unat x + BASE * magnitude xs + BASE * (BASE ^ length xs * b)"
    using borrow_step [OF d [unfolded s] b(3)] by (simp add: add.assoc)
  then show ?case using b(1,2) unfolding up by (intro exI [of _ b]) (simp add: Let_def algebra_simps)
qed

lemma subtract_value:
  assumes "length ys \<le> length xs" and "magnitude ys \<le> magnitude xs"
  shows "magnitude (subtract_loop ys xs 0 0) = magnitude xs - magnitude ys"
proof -
  obtain b where b: "b \<le> 1" "length (subtract_loop ys xs 0 0) = length xs"
      "magnitude (subtract_loop ys xs 0 0) + magnitude ys = magnitude xs + BASE ^ length xs * b"
    using subtract_loop_value [of 0 ys xs 0] limb_at_pad [OF assms(1)] by auto
  have "magnitude (subtract_loop ys xs 0 0) < BASE ^ length xs" using magnitude_less [of "subtract_loop ys xs 0 0"] b(2) by simp
  moreover have "b = 0 \<or> b = 1" using b(1) by linarith
  ultimately have "b = 0" using b(3) assms(2) by auto
  then show ?thesis using b(3) by simp
qed


subsection \<open>Division by one limb\<close>

lemma unat_wide_or: "unat r < BASE \<Longrightarrow> unat (push_bit 64 (r :: u128) OR ucast (x :: u64)) = unat r * BASE + unat x"
proof -
  assume r: "unat r < BASE"
  have "push_bit 64 r AND (ucast x :: u128) = 0"
    by (rule bit_word_eqI) (auto simp: bit_simps dest: bit_imp_le_length)
  then have "push_bit 64 r OR ucast x = push_bit 64 r + (ucast x :: u128)" by (simp only: disjunctive_add_eq_or)
  moreover have "unat (push_bit 64 r) = unat r * BASE"
  proof -
    have "unat r * BASE < 2 ^ 128" using r mult_less_mono1 [of "unat r" BASE BASE] unfolding BASE_squared [symmetric] by simp
    moreover have "push_bit 64 r = r * word_of_nat BASE" by (simp add: push_bit_eq_mult BASE_def)
    ultimately show ?thesis by (simp add: unat_word_ariths BASE_def take_bit_eq_mod)
  qed
  moreover have "unat r * BASE + unat x < 2 ^ 128"
  proof -
    have "unat r * BASE + unat x < (unat r + 1) * BASE" by simp
    also have "\<dots> \<le> BASE * BASE" using r by (intro mult_le_mono1) simp
    finally show ?thesis unfolding BASE_squared .
  qed
  ultimately show ?thesis by (simp add: unat_word_ariths)
qed

lemma divide_loop_value:
  assumes "d \<noteq> 0" and "unat d < BASE"
  shows "case divide_loop d xs of (qs, r) \<Rightarrow>
    length qs = length xs \<and> magnitude qs = magnitude xs div unat d \<and> unat r = magnitude xs mod unat d"
proof (induction xs)
  case (Cons x xs)
  have pos: "0 < unat d" using assms(1) by (simp add: unat_gt_0)
  obtain qs r where qs: "divide_loop d xs = (qs, r)" by fastforce
  with Cons have IH: "length qs = length xs" "magnitude qs = magnitude xs div unat d" "unat r = magnitude xs mod unat d" by simp_all
  have r: "unat r < unat d" using IH(3) pos by simp
  let ?c = "push_bit 64 r OR ucast x"
  have c: "unat ?c = unat r * BASE + unat x" using r assms(2) by (intro unat_wide_or) linarith
  have x: "magnitude (x # xs) = unat d * (BASE * (magnitude xs div unat d)) + unat ?c"
  proof -
    have "magnitude xs = unat d * (magnitude xs div unat d) + unat r" unfolding IH(3) by simp
    then have "BASE * magnitude xs = unat d * (BASE * (magnitude xs div unat d)) + unat r * BASE" by (metis distrib_left mult.commute mult.left_commute)
    then show ?thesis using c by simp
  qed
  have "unat ?c < BASE * unat d"
  proof -
    have "unat r * BASE + unat x < (unat r + 1) * BASE" by simp
    also have "\<dots> \<le> unat d * BASE" using r by (intro mult_le_mono1) simp
    finally show ?thesis using c by (simp add: mult.commute)
  qed
  then have "unat ?c div unat d < BASE" by (simp add: less_mult_imp_div_less)
  then have "unat (ucast (?c div d) :: u64) = unat ?c div unat d" using narrow_u128 [of "?c div d"] by (simp add: unat_div)
  then show ?case using qs IH pos unfolding x by (simp add: Let_def unat_mod)
qed simp

lemma divide_magnitude_by_limb_value:
  assumes "divide_magnitude_by_limb grants xs d = Ok (qs, r)" and "d \<noteq> 0"
  shows "magnitude qs = magnitude xs div unat d" "unat r = magnitude xs mod unat d"
proof -
  have d: "(ucast d :: u128) \<noteq> 0" "unat (ucast d :: u128) < BASE" using assms(2) unat_wide [of d] by (auto simp del: unat_wide simp: unat_eq_0)
  obtain q' r' where loop: "divide_loop (ucast d) xs = (q', r')" by fastforce
  then have v: "magnitude q' = magnitude xs div unat d" "unat r' = magnitude xs mod unat d"
    using divide_loop_value [OF d, of xs] by simp_all
  have eq: "qs = q'" "r = ucast r'" using assms(1) loop by (auto simp: divide_magnitude_by_limb_def outcome_simps)
  have "unat r' < BASE" using v(2) assms(2) limb_less [of d] by (metis mod_less_divisor order_less_trans unat_gt_0)
  then show "magnitude qs = magnitude xs div unat d" "unat r = magnitude xs mod unat d" using v eq narrow_u128 by simp_all
qed

subsection \<open>Comparison\<close>

lemma list_cmp_magnitude:
  assumes "length xs = length ys"
  shows "list_cmp (rev xs) (rev ys) = ordering_of (magnitude xs) (magnitude ys)"
  using assms
proof (induction xs arbitrary: ys rule: rev_induct)
  case Nil
  then show ?case by (simp add: ordering_of_def)
next
  case (snoc x xs)
  then obtain y ys' where ys: "ys = ys' @ [y]" "length ys' = length xs" by (cases ys rule: rev_cases) auto
  have lt: "magnitude xs < BASE ^ length xs" "magnitude ys' < BASE ^ length xs" using magnitude_less [of xs] magnitude_less [of ys'] ys(2) by simp_all
  have step: "m + P * a < m' + P * b" if "a < b" "m < P" for m m' P a b :: nat
  proof -
    have "m + P * a < P * (a + 1)" using that(2) by simp
    also have "\<dots> \<le> P * b" using that(1) by (intro mult_le_mono2) simp
    finally show ?thesis by simp
  qed
  consider "x < y" | "x = y" | "y < x" by fastforce
  then show ?case
  proof cases
    case 1
    then have "magnitude (xs @ [x]) < magnitude ys"
      using step [of "unat x" "unat y", OF _ lt(1)] ys by (simp add: magnitude_append word_less_nat_alt)
    then show ?thesis using 1 ys(1) by (simp add: ordering_of_def)
  next
    case 2
    then show ?thesis using snoc.IH [of ys'] ys by (simp add: ordering_of_def magnitude_append)
  next
    case 3
    then have "magnitude ys < magnitude (xs @ [x])"
      using step [of "unat y" "unat x", OF _ lt(2)] ys by (simp add: magnitude_append word_less_nat_alt)
    then show ?thesis using 3 ys(1) by (auto simp: ordering_of_def)
  qed
qed

lemma magnitude_cmp_value:
  assumes "trimmed xs" "trimmed ys"
  shows "magnitude_slice_cmp xs ys = ordering_of (magnitude xs) (magnitude ys)"
proof (cases "length xs = length ys")
  case True
  then show ?thesis by (simp add: magnitude_slice_cmp_def list_cmp_magnitude ordering_of_def)
next
  case False
  then consider "length xs < length ys" | "length ys < length xs" by linarith
  then show ?thesis
  proof cases
    case 1
    then show ?thesis using trimmed_length_mono [OF assms 1] by (simp add: magnitude_slice_cmp_def ordering_of_def)
  next
    case 2
    then show ?thesis using trimmed_length_mono [OF assms(2,1) 2] by (simp add: magnitude_slice_cmp_def ordering_of_def)
  qed
qed

lemma ordering_of_simps [simp]:
  "ordering_of x y = Ord_Less \<longleftrightarrow> x < y" "ordering_of x y = Ord_Equal \<longleftrightarrow> x = y" "ordering_of x y = Ord_Greater \<longleftrightarrow> y < x"
  by (auto simp: ordering_of_def)

subsection \<open>Bits\<close>

lemma bit_magnitude: "bit (magnitude xs) n \<longleftrightarrow> n div 64 < length xs \<and> bit (xs ! (n div 64)) (n mod 64)"
proof (induction xs arbitrary: n)
  case (Cons x xs)
  have "unat x + BASE * magnitude xs = push_bit 64 (magnitude xs) OR unat x"
  proof -
    have "push_bit 64 (magnitude xs) AND unat x = 0"
      by (rule bit_eqI) (auto simp: bit_simps dest: bit_imp_le_length)
    then have "push_bit 64 (magnitude xs) + unat x = push_bit 64 (magnitude xs) OR unat x" by (rule disjunctive_add_eq_or)
    then show ?thesis by (simp add: BASE_def push_bit_eq_mult mult.commute add.commute)
  qed
  then have b: "bit (magnitude (x # xs)) n \<longleftrightarrow> 64 \<le> n \<and> bit (magnitude xs) (n - 64) \<or> bit x n"
    by (simp add: bit_simps)
  show ?case
  proof (cases "n < 64")
    case True
    then show ?thesis unfolding b by simp
  next
    case False
    then have "\<not> bit x n" "n div 64 = Suc ((n - 64) div 64)" "n mod 64 = (n - 64) mod 64"
      by (auto dest: bit_imp_le_length simp: le_div_geq le_mod_geq)
    then show ?thesis unfolding b using False Cons.IH [of "n - 64"] by simp
  qed
qed simp

lemma bit_width_bounds: "n < 2 ^ bit_width n" "n \<noteq> 0 \<Longrightarrow> 2 ^ (bit_width n - 1) \<le> n"
proof -
  have "n < 2 ^ bit_width n \<and> (n \<noteq> 0 \<longrightarrow> 2 ^ (bit_width n - 1) \<le> n)"
  proof (induction n rule: bit_width.induct)
    case (1 n)
    show ?case
    proof (cases "n = 0")
      case True
      then show ?thesis by (simp add: bit_width.simps)
    next
      case False
      have w: "bit_width n = bit_width (n div 2) + 1" using False by (subst bit_width.simps) simp
      note IH = 1 [OF False]
      have "n < 2 * (n div 2 + 1)" by simp
      also have "\<dots> \<le> 2 * 2 ^ bit_width (n div 2)" using IH by (intro mult_le_mono2) simp
      finally have "n < 2 ^ bit_width n" using w by simp
      moreover have "2 ^ bit_width (n div 2) \<le> n"
      proof (cases "n div 2 = 0")
        case True
        then show ?thesis using False by (simp add: bit_width.simps)
      next
        case half: False
        then have "bit_width (n div 2) \<noteq> 0" by (subst bit_width.simps) simp
        then have "(2::nat) ^ bit_width (n div 2) = 2 * 2 ^ (bit_width (n div 2) - 1)" by (cases "bit_width (n div 2)") simp_all
        then show ?thesis using IH half by linarith
      qed
      ultimately show ?thesis using w by simp
    qed
  qed
  then show "n < 2 ^ bit_width n" "n \<noteq> 0 \<Longrightarrow> 2 ^ (bit_width n - 1) \<le> n" by blast+
qed

lemma magnitude_bit_length_less: "magnitude xs < 2 ^ magnitude_bit_length xs"
proof (cases xs rule: rev_cases)
  case (snoc ys y)
  have "magnitude ys < BASE ^ length ys" by (rule magnitude_less)
  moreover have "BASE ^ length ys * (unat y + 1) \<le> BASE ^ length ys * 2 ^ bit_width (unat y)"
    using bit_width_bounds(1) [of "unat y"] by (intro mult_le_mono2) simp
  ultimately have "magnitude xs < BASE ^ length ys * 2 ^ bit_width (unat y)" by (simp add: snoc magnitude_append)
  then show ?thesis by (simp add: snoc magnitude_bit_length_def BASE_power power_add)
qed (simp add: magnitude_bit_length_def)

lemma magnitude_bit_length_ge:
  assumes "trimmed xs" "xs \<noteq> []"
  shows "2 ^ (magnitude_bit_length xs - 1) \<le> magnitude xs" "0 < magnitude_bit_length xs"
proof -
  obtain ys y where xs: "xs = ys @ [y]" using assms(2) by (metis rev_exhaust)
  then have y: "unat y \<noteq> 0" using assms(1) by (simp add: trimmed_def unat_eq_zero)
  then have w: "bit_width (unat y) \<noteq> 0" by (subst bit_width.simps) simp
  then show "0 < magnitude_bit_length xs" by (simp add: xs magnitude_bit_length_def)
  have "BASE ^ length ys * 2 ^ (bit_width (unat y) - 1) \<le> BASE ^ length ys * unat y"
    using bit_width_bounds(2) [OF y] by (intro mult_le_mono2)
  moreover have "(2::nat) ^ (magnitude_bit_length xs - 1) = BASE ^ length ys * 2 ^ (bit_width (unat y) - 1)"
    using w by (simp add: xs magnitude_bit_length_def BASE_power flip: power_add)
  ultimately have "2 ^ (magnitude_bit_length xs - 1) \<le> BASE ^ length ys * unat y" by simp
  then show "2 ^ (magnitude_bit_length xs - 1) \<le> magnitude xs" by (simp add: xs magnitude_append trans_le_add2)
qed


subsection \<open>Updating one limb\<close>

lemma magnitude_update:
  assumes "i < length xs"
  shows "magnitude (xs[i := v]) + BASE ^ i * unat (xs ! i) = magnitude xs + BASE ^ i * unat v"
proof -
  have xs: "xs = take i xs @ xs ! i # drop (Suc i) xs" using assms by (rule id_take_nth_drop)
  have "xs[i := v] = take i xs @ v # drop (Suc i) xs" using assms by (rule upd_conv_take_nth_drop)
  then have "magnitude (xs[i := v]) = magnitude (take i xs) + BASE ^ i * (unat v + BASE * magnitude (drop (Suc i) xs))"
    using assms by (simp add: magnitude_append)
  moreover have "magnitude xs = magnitude (take i xs) + BASE ^ i * (unat (xs ! i) + BASE * magnitude (drop (Suc i) xs))"
    using assms by (subst xs) (simp add: magnitude_append)
  ultimately show ?thesis by (simp add: distrib_left)
qed

lemma magnitude_set_bit:
  assumes "n div 64 < length xs" and "\<not> bit (magnitude xs) n"
  shows "magnitude (xs[n div 64 := xs ! (n div 64) OR push_bit (n mod 64) 1]) = magnitude xs + 2 ^ n"
proof -
  let ?x = "xs ! (n div 64)"
  have nb: "\<not> bit ?x (n mod 64)" using assms by (simp add: bit_magnitude)
  then have "?x AND push_bit (n mod 64) 1 = 0"
    by (intro bit_eqI) (auto simp: bit_simps)
  then have eq: "?x OR push_bit (n mod 64) 1 = ?x + push_bit (n mod 64) 1" by (simp only: disjunctive_add_eq_or)
  have "unat ?x AND push_bit (n mod 64) 1 = 0" using nb by (intro bit_eqI) (auto simp: bit_simps)
  then have nat_or: "unat ?x + 2 ^ (n mod 64) = unat ?x OR push_bit (n mod 64) 1"
    by (subst disjunctive_add_eq_or [symmetric]) simp_all
  have "unat (?x OR push_bit (n mod 64) 1) = unat ?x + 2 ^ (n mod 64)"
    unfolding nat_or by (rule bit_eqI) (auto simp: bit_simps dest: bit_imp_le_length)
  moreover have "BASE ^ (n div 64) * 2 ^ (n mod 64) = 2 ^ n" by (simp add: BASE_power flip: power_add)
  ultimately show ?thesis using magnitude_update [OF assms(1), of "?x OR push_bit (n mod 64) 1"] by (simp add: distrib_left)
qed

subsection \<open>Multiplication\<close>

lemma multiply_inner_value:
  assumes "index + length rs \<le> length xs" and "unat carry < BASE"
  shows "\<exists>ys c. multiply_inner left rs index carry xs = Ok (ys, c) \<and> length ys = length xs \<and> unat c < BASE \<and>
    (\<forall>j. index + length rs \<le> j \<longrightarrow> j < length xs \<longrightarrow> ys ! j = xs ! j) \<and>
    magnitude ys + BASE ^ (index + length rs) * unat c = magnitude xs + BASE ^ index * (unat left * magnitude rs + unat carry)"
  using assms
proof (induction left rs index carry xs rule: multiply_inner.induct)
  case (1 left index carry xs)
  then show ?case by simp
next
  case (2 left r rs index carry xs)
  let ?p = "ucast left * ucast r + ucast (xs ! index) + carry :: u128"
  let ?xs = "xs[index := ucast ?p]"
  have i: "index < length xs" using 2(2) by simp
  have p: "unat ?p = unat left * unat r + unat (xs ! index) + unat carry" using unat_madd [of "ucast left" "ucast r" "ucast (xs ! index)" carry] 2(3) by simp
  have get: "index_or_panic xs index = (Ok (xs ! index) :: (bigint_error, u64) outcome)" using i by (simp add: index_or_panic_def get_def)
  have pre: "index + 1 + length rs \<le> length ?xs" using 2(2) by simp
  obtain ys c where ys: "multiply_inner left rs (index + 1) (drop_bit 64 ?p) ?xs = Ok (ys, c)" "length ys = length ?xs" "unat c < BASE"
      "\<forall>j. index + 1 + length rs \<le> j \<longrightarrow> j < length ?xs \<longrightarrow> ys ! j = ?xs ! j"
      "magnitude ys + BASE ^ (index + 1 + length rs) * unat c = magnitude ?xs + BASE ^ (index + 1) * (unat left * magnitude rs + unat (drop_bit 64 ?p))"
    using 2(1) [OF refl pre high_u128] by (elim exE conjE) (rule that)
  have upd: "magnitude ?xs + BASE ^ index * unat (xs ! index) = magnitude xs + BASE ^ index * unat (ucast ?p :: u64)"
    by (rule magnitude_update [OF i])
  have "magnitude ?xs + BASE ^ (index + 1) * (unat left * magnitude rs + unat (drop_bit 64 ?p)) + BASE ^ index * unat (xs ! index) =
      magnitude xs + BASE ^ index * (unat (ucast ?p :: u64) + BASE * unat (drop_bit 64 ?p)) + BASE ^ (index + 1) * (unat left * magnitude rs)"
    using upd by (simp add: distrib_left)
  also have "\<dots> = magnitude xs + BASE ^ index * (unat left * magnitude (r # rs) + unat carry) + BASE ^ index * unat (xs ! index)"
    unfolding split_u128 p by (simp add: distrib_left)
  finally have "magnitude ys + BASE ^ (index + length (r # rs)) * unat c = magnitude xs + BASE ^ index * (unat left * magnitude (r # rs) + unat carry)"
    using ys(5) by simp
  moreover have "multiply_inner left (r # rs) index carry xs = Ok (ys, c)" using ys(1) get by (simp add: Let_def)
  ultimately show ?case using ys(2-4) by auto
qed

lemma multiply_outer_value:
  assumes "index + length ls + length rs \<le> length xs" and "\<forall>j. index + length rs \<le> j \<longrightarrow> j < length xs \<longrightarrow> xs ! j = 0"
  shows "\<exists>ys. multiply_outer ls index rs xs = Ok ys \<and> magnitude ys = magnitude xs + BASE ^ index * (magnitude ls * magnitude rs)"
  using assms
proof (induction ls index rs xs rule: multiply_outer.induct)
  case (1 index rs xs)
  then show ?case by simp
next
  case (2 l ls index rs xs)
  have pre: "index + length rs \<le> length xs" "unat (0 :: u128) < BASE" using 2(2) by simp_all
  obtain ys c where ys: "multiply_inner l rs index 0 xs = Ok (ys, c)" "length ys = length xs" "unat c < BASE"
      "\<forall>j. index + length rs \<le> j \<longrightarrow> j < length xs \<longrightarrow> ys ! j = xs ! j"
      "magnitude ys + BASE ^ (index + length rs) * unat c = magnitude xs + BASE ^ index * (unat l * magnitude rs + unat (0 :: u128))"
    using multiply_inner_value [OF pre, of l] by (elim exE conjE) (rule that)
  let ?k = "index + length rs"
  have k: "?k < length ys" and zero: "ys ! ?k = 0" using 2(2,3) ys(2,4) by auto
  have upd: "magnitude (ys[?k := ucast c]) = magnitude ys + BASE ^ ?k * unat c"
    using magnitude_update [OF k, of "ucast c"] zero narrow_u128 [OF ys(3)] by simp
  have get: "index_or_panic ys ?k = (Ok 0 :: (bigint_error, u64) outcome)" using k zero by (simp add: index_or_panic_def get_def)
  have "index + 1 + length ls + length rs \<le> length (ys[?k := ucast c])" using 2(2) ys(2) by simp
  moreover have "\<forall>j. index + 1 + length rs \<le> j \<longrightarrow> j < length (ys[?k := ucast c]) \<longrightarrow> ys[?k := ucast c] ! j = 0"
    using 2(3) ys(2,4) by (auto simp: nth_list_update)
  ultimately obtain zs where zs: "multiply_outer ls (index + 1) rs (ys[?k := ucast c]) = Ok zs"
      "magnitude zs = magnitude (ys[?k := ucast c]) + BASE ^ (index + 1) * (magnitude ls * magnitude rs)"
    using 2(1) [of ys c] by blast
  have "multiply_outer (l # ls) index rs xs = Ok zs" using ys(1) get zs(1) by simp
  moreover have "magnitude zs = magnitude xs + BASE ^ index * (magnitude (l # ls) * magnitude rs)"
    using zs(2) upd ys(5) by (simp add: algebra_simps)
  ultimately show ?case by blast
qed


subsection \<open>Binary long division\<close>

lemma double_split: "q * D + r = n \<Longrightarrow> 2 * n + c = 2 * q * D + (2 * r + c)" for n q r D c :: nat
  by (auto simp: algebra_simps)

lemma quot_rem: "n = k * D + s \<Longrightarrow> s < D \<Longrightarrow> n div D = k \<and> n mod D = s" for n k D s :: nat
  by auto

lemma shift_one_limb:
  assumes "unat c \<le> 1"
  shows "unat (push_bit 1 x OR c) + BASE * unat (drop_bit 63 x) = 2 * unat x + unat (c :: u64)" and "unat (drop_bit 63 (x :: u64)) \<le> 1"
proof -
  have c: "c = 0 \<or> c = 1" using assms by (metis le_neq_implies_less less_one unat_1 unat_eq_0 word_unat_eq_iff)
  have hi: "unat (drop_bit 63 x) = unat x div 2 ^ 63" by (metis drop_bit_eq_div unat_drop_bit_eq)
  have "unat x < 2 * 2 ^ 63" using limb_less [of x] by (simp add: BASE_def)
  then have lt: "unat x div 2 ^ 63 < 2" by (rule less_mult_imp_div_less)
  then show "unat (drop_bit 63 x) \<le> 1" unfolding hi by simp
  have "push_bit 1 x AND c = 0" using c by (auto intro!: bit_eqI simp: bit_simps bit_0)
  then have "push_bit 1 x OR c = push_bit 1 x + c" by (simp only: disjunctive_add_eq_or)
  also have "\<dots> = 2 * x + c" by (simp add: push_bit_eq_mult)
  finally have "unat (push_bit 1 x OR c) = (2 * unat x + unat c) mod BASE" by (simp add: unat_word_ariths BASE_def mod_add_left_eq)
  moreover have "(2 * unat x + unat c) div BASE = unat x div 2 ^ 63"
  proof -
    have "(2 * unat x + unat c) div (2 * 2 ^ 63) = unat x div 2 ^ 63" using c by (auto simp: div_mult2_eq)
    then show ?thesis by (simp add: BASE_def)
  qed
  ultimately show "unat (push_bit 1 x OR c) + BASE * unat (drop_bit 63 x) = 2 * unat x + unat c" unfolding hi by (metis mod_mult_div_eq)
qed

lemma shift_left_one_value:
  assumes "unat c \<le> 1"
  shows "magnitude (shift_left_one_loop xs c) = 2 * magnitude xs + unat c"
  using assms
proof (induction xs arbitrary: c)
  case (Cons x xs)
  note limb = shift_one_limb [OF Cons.prems, of x]
  have "magnitude (shift_left_one_loop (x # xs) c) =
      unat (push_bit 1 x OR c) + BASE * (2 * magnitude xs + unat (drop_bit 63 x))" using Cons.IH [OF limb(2)] by simp
  also have "\<dots> = 2 * unat x + unat c + BASE * (2 * magnitude xs)" using limb(1) by (simp add: distrib_left)
  finally show ?case by simp
qed simp

lemma shift_left_one_trimmed: "trimmed xs \<Longrightarrow> trimmed (shift_left_one_loop xs c)"
proof (induction xs arbitrary: c)
  case (Cons x xs)
  show ?case
  proof (cases "xs = []")
    case False
    then have "trimmed xs" using Cons.prems by (simp add: trimmed_def)
    moreover have "shift_left_one_loop xs (drop_bit 63 x) \<noteq> []" using False by (cases xs) auto
    ultimately show ?thesis using Cons.IH by (simp add: trimmed_def)
  next
    case True
    then have x: "x \<noteq> 0" using Cons.prems by (simp add: trimmed_def)
    have "push_bit 1 x OR c \<noteq> 0" if hi: "drop_bit 63 x = 0"
    proof
      assume "push_bit 1 x OR c = 0"
      then have z: "push_bit 1 x = 0" by (simp add: or_eq_0_iff)
      have "bit x n = False" for n
      proof (cases "n < 63")
        case True
        then have "bit (push_bit 1 x) (Suc n) = bit x n" by (simp only: bit_push_bit_iff) simp
        then show ?thesis using z by simp
      next
        case False
        then show ?thesis using arg_cong [OF hi, of "\<lambda>w. bit w (n - 63)"] by (simp add: bit_simps)
      qed
      then show False using x by (metis bit_0_eq bit_eqI bot_apply bot_bool_def)
    qed
    then show ?thesis using True by (simp add: trimmed_def)
  qed
qed (simp add: trimmed_def)

lemma divide_bits_value:
  assumes "trimmed divisor" "divisor \<noteq> []" and "b \<le> 64 * length dividend" "length quo = length dividend"
    and "trimmed residual" "magnitude residual = magnitude dividend div 2 ^ b mod magnitude divisor"
    and "magnitude quo = (magnitude dividend div 2 ^ b div magnitude divisor) * 2 ^ b"
  shows "\<exists>q r. divide_bits dividend divisor (rev [0..<b]) quo residual = Ok (q, r) \<and> trimmed r \<and>
    magnitude r = magnitude dividend mod magnitude divisor \<and> magnitude q = magnitude dividend div magnitude divisor"
  using assms(3-)
proof (induction b arbitrary: quo residual)
  case 0
  then show ?case by simp
next
  case (Suc b)
  let ?N = "magnitude dividend" and ?D = "magnitude divisor"
  have D: "0 < ?D" using assms(1,2) trimmed_zero [of divisor] by simp
  have w: "b div 64 < length dividend" "b div 64 < length quo" using Suc.prems(1,2) by auto
  let ?bit = "dividend ! (b div 64) AND push_bit (b mod 64) 1 \<noteq> 0"
  have bit: "?bit \<longleftrightarrow> odd (?N div 2 ^ b)"
  proof -
    have "?bit \<longleftrightarrow> bit (dividend ! (b div 64)) (b mod 64)"
      by (metis (no_types, lifting) and.commute bit_iff_and_push_bit_not_eq_0)
    then show ?thesis using w(1) by (simp add: bit_magnitude flip: bit_iff_odd)
  qed
  let ?s = "shift_magnitude_left_one residual"
  have s: "trimmed ?s" "magnitude ?s = 2 * magnitude residual"
    using shift_left_one_trimmed [OF Suc.prems(3)] shift_left_one_value [of 0 residual] by (simp_all add: shift_magnitude_left_one_def)
  define res where "res = (if ?bit then (if ?s = [] then [1] else (hd ?s OR 1) # tl ?s) else ?s)"
  have res: "trimmed res" "magnitude res = 2 * magnitude residual + (if ?bit then 1 else 0)"
  proof -
    have even: "even (unat (hd ?s))" if "?s \<noteq> []"
    proof -
      have "even (magnitude ?s)" using s(2) by simp
      moreover have "magnitude ?s = unat (hd ?s) + BASE * magnitude (tl ?s)" using that by (cases ?s) auto
      moreover have "even BASE" by (simp add: BASE_def)
      ultimately show ?thesis by simp
    qed
    have or1: "unat (hd ?s OR 1) = unat (hd ?s) + 1" if "?s \<noteq> []"
    proof -
      have "even (hd ?s)" using even [OF that] bit_unsigned_iff [where 'a = nat, of "hd ?s" 0] by (simp add: bit_0)
      then have "hd ?s OR 1 = hd ?s + 1" by (simp add: or_one_eq)
      moreover have "unat (hd ?s) + 1 < 2 ^ 64" using even [OF that] limb_less [of "hd ?s"] by (simp add: BASE_def) presburger
      ultimately show ?thesis by (simp add: unat_word_ariths)
    qed
    have "trimmed ((hd ?s OR 1) # tl ?s)" if "?s \<noteq> []"
      using s(1) that or1 [OF that] by (cases ?s) (auto simp: trimmed_def unat_eq_0 [symmetric] simp del: unat_eq_0)
    then show "trimmed res" using s(1) by (auto simp: res_def trimmed_def [of "[1]"])
    show "magnitude res = 2 * magnitude residual + (if ?bit then 1 else 0)"
      using s(2) or1 by (cases ?s) (auto simp: res_def)
  qed
  let ?R = "?N div 2 ^ Suc b mod ?D" and ?Q = "?N div 2 ^ Suc b div ?D"
  have half: "?N div 2 ^ Suc b = ?N div 2 ^ b div 2" by (simp only: power_Suc2 div_mult2_eq)
  have N: "?N div 2 ^ b = 2 * (?N div 2 ^ Suc b) + (if ?bit then 1 else 0)" unfolding bit half by simp
  have resN: "?N div 2 ^ b = 2 * ?Q * ?D + magnitude res" unfolding N res(2) Suc.prems(4)
    by (rule double_split [OF div_mult_mod_eq])
  have lt: "magnitude res < 2 * ?D" using res(2) Suc.prems(4) mod_less_divisor [OF D, of "?N div 2 ^ Suc b"] by (auto split: if_splits)
  have word: "index_or_panic dividend (b div 64) = (Ok (dividend ! (b div 64)) :: (bigint_error, u64) outcome)"
    "index_or_panic quo (b div 64) = (Ok (quo ! (b div 64)) :: (bigint_error, u64) outcome)"
    using w by (simp_all add: index_or_panic_def get_def)
  have up: "rev [0..<Suc b] = b # rev [0..<b]" by simp
  have step: "divide_bits dividend divisor (rev [0..<Suc b]) quo residual =
      (if magnitude_slice_cmp res divisor \<noteq> Ord_Less
       then divide_bits dividend divisor (rev [0..<b]) (quo[b div 64 := quo ! (b div 64) OR push_bit (b mod 64) 1])
              (subtract_magnitude_in_place res divisor)
       else divide_bits dividend divisor (rev [0..<b]) quo res)"
    unfolding up divide_bits.simps(2) word and_then.simps Let_def res_def ..
  have cmp: "magnitude_slice_cmp res divisor \<noteq> Ord_Less \<longleftrightarrow> ?D \<le> magnitude res"
    using magnitude_cmp_value [OF res(1) assms(1)] by (simp add: not_less)
  have b: "b \<le> 64 * length dividend" using Suc.prems(1) by simp
  have quo_bit: "\<not> bit (magnitude quo) b" unfolding Suc.prems(5) by (simp add: bit_iff_odd div_mult2_eq)
  show ?case
  proof (cases "?D \<le> magnitude res")
    case False
    then have "?N div 2 ^ b div ?D = 2 * ?Q" "?N div 2 ^ b mod ?D = magnitude res" unfolding resN using D by simp_all
    moreover from this have "magnitude quo = ?N div 2 ^ b div ?D * 2 ^ b" using Suc.prems(5) by simp
    ultimately obtain q r where "divide_bits dividend divisor (rev [0..<b]) quo res = Ok (q, r)" "trimmed r"
        "magnitude r = ?N mod ?D" "magnitude q = ?N div ?D"
      using Suc.IH [OF b Suc.prems(2) res(1)] by auto
    then show ?thesis using False cmp unfolding step by auto
  next
    case True
    let ?sub = "subtract_magnitude_in_place res divisor"
    let ?quo = "quo[b div 64 := quo ! (b div 64) OR push_bit (b mod 64) 1]"
    have len: "length divisor \<le> length res"
      using trimmed_length_mono [OF res(1) assms(1)] True by (meson not_le)
    have sub: "trimmed ?sub" "magnitude ?sub = magnitude res - ?D"
      using subtract_value [OF len True] by (simp_all add: subtract_magnitude_in_place_def)
    have split: "?N div 2 ^ b = (2 * ?Q + 1) * ?D + (magnitude res - ?D)" unfolding resN using True by (simp add: algebra_simps)
    have small: "magnitude res - ?D < ?D" using lt by linarith
    have dm: "?N div 2 ^ b div ?D = 2 * ?Q + 1" "?N div 2 ^ b mod ?D = magnitude res - ?D" using quot_rem [OF split small] by blast+
    have "magnitude ?quo = magnitude quo + 2 ^ b" by (rule magnitude_set_bit [OF w(2) quo_bit])
    then have "magnitude ?quo = ?N div 2 ^ b div ?D * 2 ^ b" using Suc.prems(5) dm(1) by (simp add: algebra_simps)
    moreover have "length ?quo = length dividend" using Suc.prems(2) by simp
    ultimately obtain q r where "divide_bits dividend divisor (rev [0..<b]) ?quo ?sub = Ok (q, r)" "trimmed r"
        "magnitude r = ?N mod ?D" "magnitude q = ?N div ?D"
      using Suc.IH [OF b _ sub(1), of ?quo] sub(2) dm(2) by auto
    then show ?thesis using True cmp unfolding step by auto
  qed
qed

lemma divide_magnitudes_value:
  assumes "trimmed xs" "xs \<noteq> []" "trimmed d" "d \<noteq> []"
  shows "(divide_magnitudes grants xs d = Err ResultTooLarge \<or> divide_magnitudes grants xs d = Err AllocationFailed) \<and>
      (length xs > div_ceil MAX_RESULT_BITS 64 \<or> \<not> grants (length xs) \<or> \<not> grants (length d + 1)) \<or>
    (\<exists>q r. divide_magnitudes grants xs d = Ok (q, r) \<and> magnitude r = magnitude xs mod magnitude d \<and> magnitude q = magnitude xs div magnitude d)"
proof -
  let ?b = "magnitude_bit_length xs"
  have z: "magnitude xs div 2 ^ ?b = 0" using magnitude_bit_length_less [of xs] by simp
  have "bit_width (unat (last xs)) \<le> 64"
  proof (rule ccontr)
    assume "\<not> bit_width (unat (last xs)) \<le> 64"
    then have "(2::nat) ^ 64 \<le> 2 ^ (bit_width (unat (last xs)) - 1)" by (intro power_increasing) auto
    also have "\<dots> \<le> unat (last xs)" using bit_width_bounds(2) [of "unat (last xs)"] assms(1,2) by (simp add: trimmed_def unat_eq_0)
    finally show False using limb_less [of "last xs"] by (simp add: BASE_def)
  qed
  then have "?b \<le> (length xs - 1) * 64 + 64" by (simp add: magnitude_bit_length_def)
  also have "\<dots> = 64 * length xs" using assms(2) by (cases xs) simp_all
  finally have b: "?b \<le> 64 * length xs" .
  obtain q r where "divide_bits xs d (rev [0..<?b]) (replicate (length xs) 0) [] = Ok (q, r)"
      "magnitude r = magnitude xs mod magnitude d" "magnitude q = magnitude xs div magnitude d"
    using divide_bits_value [OF assms(3,4) b, of "replicate (length xs) 0" "[]"] z by (auto simp: trimmed_def)
  then show ?thesis using assms(2)
    by (auto simp: divide_magnitudes_def zeroed_limbs_def ensure_result_limbs_def reject_if_def)
qed


subsection \<open>Complements\<close>

lemma unat_minus_1: "unat (- 1 :: u64) = BASE - 1"
  by (simp add: BASE_def unsigned_minus_1_eq_mask mask_eq_exp_minus_1)

lemma magnitude_not: "magnitude (map NOT xs) + magnitude xs + 1 = BASE ^ length xs"
proof (induction xs)
  case (Cons x xs)
  have "NOT x = - 1 - x" by (simp add: not_eq_complement)
  moreover have "unat (- 1 - x) = unat (- 1 :: u64) - unat x" by (rule unat_sub) (rule word_order.extremum)
  ultimately have "unat (NOT x) = BASE - 1 - unat x" by (simp add: unat_minus_1)
  then have "unat (NOT x) + unat x + 1 = BASE" using limb_less [of x] by linarith
  moreover have "BASE * magnitude (map NOT xs) + BASE * magnitude xs + BASE = BASE * BASE ^ length xs"
    using arg_cong [OF Cons, of "(*) BASE"] by (simp add: distrib_left)
  ultimately show ?case by simp
qed simp

lemma length_add_one [simp]: "length (add_one_in_place xs) = length xs"
  by (induction xs) auto

lemma magnitude_add_one: "magnitude (add_one_in_place xs) = (magnitude xs + 1) mod BASE ^ length xs"
proof (induction xs)
  case (Cons x xs)
  show ?case
  proof (cases "x + 1 = 0")
    case True
    then have "x = - 1" by (simp add: add_eq_0_iff2)
    then have "unat x + 1 = BASE" using BASE_gt(1) by (simp add: unat_minus_1)
    then have "magnitude (x # xs) + 1 = BASE * (magnitude xs + 1)" by simp
    then have "(magnitude (x # xs) + 1) mod BASE ^ length (x # xs) = BASE * ((magnitude xs + 1) mod BASE ^ length xs)"
      by (simp only: length_Cons power_Suc mult_mod_right)
    then show ?thesis using True Cons by simp
  next
    case False
    then have "unat (x + 1) = unat x + 1" using unatSuc [of x] by (simp add: add.commute)
    moreover have "unat x + 1 + BASE * magnitude xs < BASE ^ length (x # xs)" 
      using magnitude_less [of "(x + 1) # xs"] calculation by simp
    ultimately show ?thesis using False by simp
  qed
qed simp

text \<open>Inverting the limbs and adding one negates modulo the width.\<close>

lemma magnitude_negate: "int (magnitude (add_one_in_place (map NOT xs))) = - int (magnitude xs) mod int (BASE ^ length xs)"
proof -
  have "int (magnitude (map NOT xs) + 1) = int (BASE ^ length xs) - int (magnitude xs)" using magnitude_not [of xs] by linarith
  then have "int (magnitude (add_one_in_place (map NOT xs))) = (int (BASE ^ length xs) - int (magnitude xs)) mod int (BASE ^ length xs)"
    by (simp only: magnitude_add_one zmod_int length_map)
  also have "\<dots> = - int (magnitude xs) mod int (BASE ^ length xs)" by (metis add.commute mod_add_self2 uminus_add_conv_diff)
  finally show ?thesis .
qed

subsection \<open>Shifts\<close>

lemma shift_limb_parts:
  assumes "0 < k" "k < 64"
  shows "unat (push_bit k x) + BASE * unat (drop_bit (64 - k) x) = unat (x :: u64) * 2 ^ k" and "unat (drop_bit (64 - k) x) < 2 ^ k"
proof -
  have hi: "unat (drop_bit (64 - k) x) = unat x div 2 ^ (64 - k)" by (metis drop_bit_eq_div unat_drop_bit_eq)
  have pow: "BASE = 2 ^ (64 - k) * 2 ^ k" using assms by (simp add: BASE_def flip: power_add)
  have "unat (push_bit k x) = (unat x * 2 ^ k) mod BASE" by (simp only: unsigned_push_bit_eq push_bit_nat_def take_bit_eq_mod BASE_def) (simp add: push_bit_eq_mult)
  moreover have "(unat x * 2 ^ k) div BASE = unat x div 2 ^ (64 - k)" unfolding pow by simp
  ultimately show "unat (push_bit k x) + BASE * unat (drop_bit (64 - k) x) = unat x * 2 ^ k" unfolding hi by (metis mod_mult_div_eq)
  have "unat x < 2 ^ k * 2 ^ (64 - k)" using limb_less [of x] unfolding pow by (simp only: mult.commute)
  then show "unat (drop_bit (64 - k) x) < 2 ^ k" unfolding hi by (rule less_mult_imp_div_less)
qed

lemma unat_or_push:
  assumes "unat low < 2 ^ k"
  shows "unat (low OR push_bit k x) = unat low + unat (push_bit k (x :: u64))"
proof -
  have "\<not> (bit low n \<and> bit (push_bit k x) n)" for n
    using small_word_bit [OF assms, of n] by (auto simp: bit_push_bit_iff)
  then have "unat low AND unat (push_bit k x) = 0" by (intro bit_eqI) (auto simp: bit_and_iff bit_unsigned_iff)
  then have "unat low + unat (push_bit k x) = unat low OR unat (push_bit k x)" by (rule disjunctive_add_eq_or)
  then show ?thesis by (simp add: unsigned_or_eq)
qed

lemma shift_left_loop_value:
  assumes "k < 64" and "index + w + length source + (if k \<noteq> 0 then 1 else 0) \<le> length xs"
    and "source \<noteq> [] \<longrightarrow> unat (xs ! (index + w)) < 2 ^ k" and "\<forall>j. index + w < j \<longrightarrow> j < length xs \<longrightarrow> xs ! j = 0"
  shows "\<exists>ys. shift_left_loop w k index source xs = Ok ys \<and> magnitude ys = magnitude xs + BASE ^ (index + w) * (magnitude source * 2 ^ k)"
  using assms(2-)
proof (induction source arbitrary: index xs)
  case (Cons limb source)
  let ?i = "index + w"
  let ?low = "xs ! ?i OR push_bit k limb"
  let ?xs = "xs[?i := ?low]"
  have i: "?i < length xs" using Cons.prems(1) by simp
  have get: "index_or_panic xs ?i = (Ok (xs ! ?i) :: (bigint_error, u64) outcome)" using i by (simp add: index_or_panic_def get_def)
  have low: "unat ?low = unat (xs ! ?i) + unat (push_bit k limb)" using Cons.prems(2) by (intro unat_or_push) simp
  have m: "magnitude ?xs = magnitude xs + BASE ^ ?i * unat (push_bit k limb)"
    using magnitude_update [OF i, of ?low] low by (simp add: distrib_left)
  show ?case
  proof (cases "k = 0")
    case True
    have len: "index + 1 + w + length source + (if k \<noteq> 0 then 1 else 0) \<le> length ?xs" using Cons.prems(1) True by simp
    have z1: "source \<noteq> [] \<longrightarrow> unat (?xs ! (index + 1 + w)) < 2 ^ k"
      using Cons.prems(1,3) by (auto simp: neq_Nil_conv nth_list_update)
    have z2: "\<forall>j. index + 1 + w < j \<longrightarrow> j < length ?xs \<longrightarrow> ?xs ! j = 0" using Cons.prems(3) by (auto simp: nth_list_update)
    obtain ys where "shift_left_loop w k (index + 1) source ?xs = Ok ys"
        "magnitude ys = magnitude ?xs + BASE ^ (index + 1 + w) * (magnitude source * 2 ^ k)"
      using Cons.IH [OF len z1 z2] by blast
    then show ?thesis using get m True by (simp add: algebra_simps)
  next
    case False
    let ?high = "drop_bit (64 - k) limb"
    let ?ys = "?xs[?i + 1 := 0 OR ?high]"
    have i1: "?i + 1 < length ?xs" using Cons.prems(1) False by simp
    then have zero: "?xs ! (?i + 1) = 0" using Cons.prems(3) by simp
    have get1: "index_or_panic ?xs (?i + 1) = (Ok 0 :: (bigint_error, u64) outcome)" using i1 zero by (simp add: index_or_panic_def get_def)
    note parts = shift_limb_parts [of k limb] 
    have m1: "magnitude ?ys = magnitude ?xs + BASE ^ (?i + 1) * unat ?high" using magnitude_update [OF i1, of ?high] zero by simp
    have len: "index + 1 + w + length source + (if k \<noteq> 0 then 1 else 0) \<le> length ?ys" using Cons.prems(1) False by simp
    have z1: "source \<noteq> [] \<longrightarrow> unat (?ys ! (index + 1 + w)) < 2 ^ k" using i1 parts(2) assms(1) False by simp
    have z2: "\<forall>j. index + 1 + w < j \<longrightarrow> j < length ?ys \<longrightarrow> ?ys ! j = 0" using Cons.prems(3) by (auto simp: nth_list_update)
    obtain zs where zs: "shift_left_loop w k (index + 1) source ?ys = Ok zs"
        "magnitude zs = magnitude ?ys + BASE ^ (index + 1 + w) * (magnitude source * 2 ^ k)"
      using Cons.IH [OF len z1 z2] by blast
    have "BASE ^ ?i * unat (push_bit k limb) + BASE ^ (?i + 1) * unat ?high = BASE ^ ?i * (unat limb * 2 ^ k)"
      using parts(1) assms(1) False by (simp add: distrib_left [symmetric] mult.assoc) (metis distrib_left mult.left_commute)
    then have "magnitude zs = magnitude xs + BASE ^ ?i * (magnitude (limb # source) * 2 ^ k)"
      using zs(2) m m1 by (simp add: algebra_simps)
    moreover have "shift_left_loop w k index (limb # source) xs = Ok zs" using get get1 zs(1) False by (simp add: Let_def)
    ultimately show ?thesis by blast
  qed
qed simp

lemma shift_right_limb_bit:
  assumes "k < 64" "m < 64"
  shows "bit (shift_right_limb xs w k i) m \<longleftrightarrow>
    (if k + m < 64 then bit (xs ! (w + i)) (k + m) else w + i + 1 < length xs \<and> bit (xs ! (w + i + 1)) (k + m - 64))"
proof -
  have low: "bit (drop_bit k (xs ! (i + w))) m \<longleftrightarrow> bit (xs ! (w + i)) (k + m)" by (simp only: bit_drop_bit_eq comp_def add.commute)
  have high: "bit (push_bit (64 - k) (xs ! (i + w + 1))) m \<longleftrightarrow> 64 - k \<le> m \<and> bit (xs ! (w + i + 1)) (m - (64 - k))"
    using assms(2) by (simp add: bit_push_bit_iff add.commute)
  have big: "\<not> bit (x :: u64) n" if "64 \<le> n" for x n using that by (auto dest: bit_imp_le_length)
  show ?thesis
  proof (cases "k + m < 64")
    case True
    then have "\<not> 64 - k \<le> m" by linarith
    then show ?thesis using True by (simp add: shift_right_limb_def Let_def bit_or_iff low high [simplified])
  next
    case False
    then have "k \<noteq> 0" "64 - k \<le> m" "m - (64 - k) = k + m - 64" using assms by linarith+
    then show ?thesis using False big [of "k + m" "xs ! (w + i)"]
      by (auto simp: shift_right_limb_def Let_def bit_or_iff low high [simplified] add.commute)
  qed
qed

lemma shift_right_value:
  assumes "shift div 64 \<le> length xs"
  shows "magnitude (map (shift_right_limb xs (shift div 64) (shift mod 64)) [0..<length xs - shift div 64]) = magnitude xs div 2 ^ shift"
proof (rule bit_eqI)
  fix n
  let ?w = "shift div 64" and ?k = "shift mod 64"
  have rhs: "bit (magnitude xs div 2 ^ shift) n \<longleftrightarrow> bit (magnitude xs) (shift + n)" by (simp add: bit_iff_odd flip: div_mult2_eq power_add)
  have sum: "(shift + n) div 64 = ?w + n div 64 + (if ?k + n mod 64 < 64 then 0 else 1)"
    "(shift + n) mod 64 = (if ?k + n mod 64 < 64 then ?k + n mod 64 else ?k + n mod 64 - 64)"
  proof -
    have "x div 64 = (if x < 64 then 0 else 1)" "x mod 64 = (if x < 64 then x else x - 64)" if "x < 128" for x :: nat
      using that by (auto simp: le_div_geq le_mod_geq)
    moreover have "?k + n mod 64 < 128" using mod_less_divisor [of 64 shift] mod_less_divisor [of 64 n] by linarith
    ultimately show "(shift + n) div 64 = ?w + n div 64 + (if ?k + n mod 64 < 64 then 0 else 1)"
      "(shift + n) mod 64 = (if ?k + n mod 64 < 64 then ?k + n mod 64 else ?k + n mod 64 - 64)"
      unfolding div_add1_eq [of shift n] mod_add_eq [of shift 64 n, symmetric] by presburger+
  qed
  have lhs: "bit (magnitude (map (shift_right_limb xs ?w ?k) [0..<length xs - ?w])) n \<longleftrightarrow>
      n div 64 < length xs - ?w \<and> bit (shift_right_limb xs ?w ?k (n div 64)) (n mod 64)"
    unfolding bit_magnitude by (cases "n div 64 < length xs - ?w") simp_all
  have k: "?k < 64" "n mod 64 < 64" by simp_all
  show "bit (magnitude (map (shift_right_limb xs ?w ?k) [0..<length xs - ?w])) n \<longleftrightarrow> bit (magnitude xs div 2 ^ shift) n"
    unfolding lhs rhs bit_magnitude sum using assms shift_right_limb_bit [OF k, of xs ?w "n div 64"] by (auto simp: add.commute)
qed

lemma discarded_bits_value:
  "discarded_bits_nonzero xs shift \<longleftrightarrow> magnitude xs mod 2 ^ shift \<noteq> 0"
proof -
  have all: "magnitude ys = 0 \<longleftrightarrow> (\<forall>x \<in> set ys. x = 0)" for ys by (induction ys) (auto simp: unat_eq_0)
  let ?w = "shift div 64" and ?k = "shift mod 64"
  have pow: "(2::nat) ^ shift = BASE ^ ?w * 2 ^ ?k" by (simp add: BASE_power flip: power_add)
  have xs: "magnitude xs = magnitude (take ?w xs) + BASE ^ length (take ?w xs) * magnitude (drop ?w xs)"
    by (metis append_take_drop_id magnitude_append)
  show ?thesis
  proof (cases "?w < length xs")
    case False
    then have "magnitude xs < 2 ^ shift"
    proof -
      have "magnitude xs < BASE ^ length xs" by (rule magnitude_less)
      also have "\<dots> \<le> BASE ^ ?w" using False by (intro power_increasing) simp_all
      also have "\<dots> \<le> 2 ^ shift" unfolding pow by simp
      finally show ?thesis .
    qed
    then show ?thesis using False all [of xs] by (auto simp: discarded_bits_nonzero_def Let_def get_def)
  next
    case True
    then have m: "magnitude xs = magnitude (take ?w xs) + BASE ^ ?w * magnitude (drop ?w xs)" using xs by simp
    have lt: "magnitude (take ?w xs) < BASE ^ ?w" using magnitude_less [of "take ?w xs"] True by simp
    have "magnitude xs mod 2 ^ shift = magnitude (take ?w xs) + BASE ^ ?w * (magnitude (drop ?w xs) mod 2 ^ ?k)"
      unfolding pow mod_mult2_eq m using lt by simp
    moreover have "magnitude (drop ?w xs) mod 2 ^ ?k = unat (xs ! ?w) mod 2 ^ ?k"
    proof -
      have "drop ?w xs = xs ! ?w # drop (Suc ?w) xs" using True by (rule Cons_nth_drop_Suc [symmetric])
      moreover have "(u + BASE * m) mod 2 ^ ?k = u mod 2 ^ ?k" for u m
      proof -
        have "BASE * m = 2 ^ ?k * (2 ^ (64 - ?k) * m)" by (simp add: BASE_def flip: power_add mult.assoc)
        then show ?thesis by (simp only: mod_mult_self2)
      qed
      ultimately show ?thesis by simp
    qed
    moreover have "xs ! ?w AND (push_bit ?k 1 - 1) \<noteq> 0 \<longleftrightarrow> unat (xs ! ?w) mod 2 ^ ?k \<noteq> 0"
    proof -
      have "xs ! ?w AND (push_bit ?k 1 - 1) = take_bit ?k (xs ! ?w)" by (simp add: take_bit_eq_mask mask_eq_exp_minus_1)
      moreover have "unat (take_bit ?k (xs ! ?w)) = unat (xs ! ?w) mod 2 ^ ?k" by (metis take_bit_eq_mod unsigned_take_bit_eq)
      ultimately show ?thesis by (metis unat_eq_0)
    qed
    moreover have "discarded_bits_nonzero xs shift \<longleftrightarrow> magnitude (take ?w xs) \<noteq> 0 \<or> ?k \<noteq> 0 \<and> xs ! ?w AND (push_bit ?k 1 - 1) \<noteq> 0"
      unfolding discarded_bits_nonzero_def Let_def all get_def using True by simp
    moreover have "?k = 0 \<Longrightarrow> unat (xs ! ?w) mod 2 ^ ?k = 0" by simp
    ultimately show ?thesis by (cases "?k = 0") (simp_all only: add_is_0 mult_is_0 power_eq_0_iff BASE_gt simp_thms de_Morgan_conj)
  qed
qed


end
