(* ===== verification/BigInt.thy ===== *)
theory BigInt
  imports BigInt_Limbs Bytecode_Opcode Tachyon_Value "HOL-Library.Signed_Division"
begin

text \<open>
  BigInt values (\<open>crates/tachyon-vm/src/bigint.rs\<close>, \<open>BigIntValue\<close>): sign and magnitude in canonical form, and
  the arithmetic, bitwise, shift and truncation operations on them. The meaning of a value is an integer;
  every operation is shown to compute the operation of the integers, or to report that the result is too
  large or memory is short.

  The allocator is the parameter \<open>grants\<close>. A \<open>usize\<close> has 64 bits, so that a single limb always converts to
  one.
\<close>

record bigint_value =
  bv_negative :: bool
  bv_limbs :: limbs

type_synonym i64 = "64 word"
type_synonym 'a arithmetic = "(bigint_error, 'a) outcome"

definition i64_is_negative :: "i64 \<Rightarrow> bool" where
  "i64_is_negative x \<longleftrightarrow> sint x < 0"

definition unsigned_abs :: "i64 \<Rightarrow> u64" where
  "unsigned_abs x = (if i64_is_negative x then - x else x)"

section \<open>Operations\<close>

definition from_owned_limbs :: "bool \<Rightarrow> limbs \<Rightarrow> bigint_value" where
  "from_owned_limbs neg xs = (let l = trim_limbs xs in \<lparr>bv_negative = neg \<and> l \<noteq> [], bv_limbs = l\<rparr>)"

definition from_u64 :: "u64 \<Rightarrow> bigint_value" where
  "from_u64 x = \<lparr>bv_negative = False, bv_limbs = (if x = 0 then [] else [x])\<rparr>"

definition from_i64 :: "i64 \<Rightarrow> bigint_value" where
  "from_i64 x = (from_u64 (unsigned_abs x))\<lparr>bv_negative := i64_is_negative x\<rparr>"

definition small_value :: "bigint_value \<Rightarrow> i64 option" where
  "small_value b =
     (case bv_limbs b of
        [] \<Rightarrow> Some 0
      | [m] \<Rightarrow> if bv_negative b then (if m \<le> push_bit 47 1 then Some (- m) else None)
               else if m < push_bit 47 1 then Some m else None
      | _ \<Rightarrow> None)"

definition bigint_negate :: "bigint_value \<Rightarrow> bigint_value" where
  "bigint_negate b = (if bv_limbs b \<noteq> [] then b\<lparr>bv_negative := \<not> bv_negative b\<rparr> else b)"

definition modulo_u64 :: "bigint_value \<Rightarrow> u64" where
  "modulo_u64 b =
     (let low = (case bv_limbs b of [] \<Rightarrow> 0 | x # _ \<Rightarrow> x) in if bv_negative b then 0 - low else low)"

definition is_zero :: "bigint_value \<Rightarrow> bool" where
  "is_zero b \<longleftrightarrow> bv_limbs b = []"

definition is_one :: "bigint_value \<Rightarrow> bool" where
  "is_one b \<longleftrightarrow> \<not> bv_negative b \<and> bv_limbs b = [1]"

definition bit_length :: "bigint_value \<Rightarrow> nat" where
  "bit_length b = magnitude_bit_length (bv_limbs b)"

definition magnitude_cmp :: "bigint_value \<Rightarrow> bigint_value \<Rightarrow> ordering" where
  "magnitude_cmp a b = magnitude_slice_cmp (bv_limbs a) (bv_limbs b)"

definition mathematical_cmp :: "bigint_value \<Rightarrow> bigint_value \<Rightarrow> ordering" where
  "mathematical_cmp a b =
     (if bv_negative a \<and> \<not> bv_negative b then Ord_Less
      else if \<not> bv_negative a \<and> bv_negative b then Ord_Greater
      else if \<not> bv_negative a then magnitude_cmp a b
      else reverse_ordering (magnitude_cmp a b))"

definition mathematical_cmp_i64 :: "bigint_value \<Rightarrow> i64 \<Rightarrow> ordering" where
  "mathematical_cmp_i64 a other =
     (if bv_negative a \<and> \<not> i64_is_negative other then Ord_Less
      else if \<not> bv_negative a \<and> i64_is_negative other then Ord_Greater
      else let m = (case bv_limbs a of
                      [] \<Rightarrow> ordering_of 0 (unsigned_abs other)
                    | [limb] \<Rightarrow> ordering_of limb (unsigned_abs other)
                    | _ \<Rightarrow> Ord_Greater)
           in if bv_negative a then reverse_ordering m else m)"

definition bigint_add :: "(nat \<Rightarrow> bool) \<Rightarrow> bigint_value \<Rightarrow> bigint_value \<Rightarrow> bigint_value arithmetic" where
  "bigint_add grants a b =
     (if bv_negative a = bv_negative b
      then and_then (add_magnitudes grants (bv_limbs a) (bv_limbs b)) (\<lambda>l. Ok (from_owned_limbs (bv_negative a) l))
      else case magnitude_cmp a b of
             Ord_Greater \<Rightarrow>
               and_then (subtract_magnitudes grants (bv_limbs a) (bv_limbs b)) (\<lambda>l. Ok (from_owned_limbs (bv_negative a) l))
           | Ord_Less \<Rightarrow>
               and_then (subtract_magnitudes grants (bv_limbs b) (bv_limbs a)) (\<lambda>l. Ok (from_owned_limbs (bv_negative b) l))
           | Ord_Equal \<Rightarrow> Ok (from_u64 0))"

definition bigint_subtract :: "(nat \<Rightarrow> bool) \<Rightarrow> bigint_value \<Rightarrow> bigint_value \<Rightarrow> bigint_value arithmetic" where
  "bigint_subtract grants a b = bigint_add grants a (bigint_negate b)"

definition bigint_multiply :: "(nat \<Rightarrow> bool) \<Rightarrow> bigint_value \<Rightarrow> bigint_value \<Rightarrow> bigint_value arithmetic" where
  "bigint_multiply grants a b =
     (if is_zero a \<or> is_zero b then Ok (from_u64 0)
      else let limb_count = length (bv_limbs a) + length (bv_limbs b) in
        and_then (ensure_result_limbs limb_count) (\<lambda>_.
        and_then (zeroed_limbs grants limb_count) (\<lambda>l.
        and_then (multiply_outer (bv_limbs a) 0 (bv_limbs b) l) (\<lambda>l.
        Ok (from_owned_limbs (bv_negative a \<noteq> bv_negative b) l)))))"

definition divide_or_remainder ::
  "(nat \<Rightarrow> bool) \<Rightarrow> bigint_value \<Rightarrow> bigint_value \<Rightarrow> bool \<Rightarrow> bigint_value arithmetic" where
  "divide_or_remainder grants a b remainder =
     (if is_zero b then Err DivisionByZero
      else if is_zero a then Ok (from_u64 0)
      else if magnitude_cmp a b = Ord_Less then (if remainder then Ok a else Ok (from_u64 0))
      else if length (bv_limbs b) = 1
      then and_then (divide_magnitude_by_limb grants (bv_limbs a) (hd (bv_limbs b))) (\<lambda>(quo, residual).
           if remainder then Ok (from_owned_limbs (bv_negative a) [residual])
           else Ok (from_owned_limbs (bv_negative a \<noteq> bv_negative b) quo))
      else and_then (divide_magnitudes grants (bv_limbs a) (bv_limbs b)) (\<lambda>(quo, residual).
           if remainder then Ok (from_owned_limbs (bv_negative a) residual)
           else Ok (from_owned_limbs (bv_negative a \<noteq> bv_negative b) quo)))"

definition as_usize_if_fits :: "bigint_value \<Rightarrow> nat option" where
  "as_usize_if_fits b = (case bv_limbs b of [] \<Rightarrow> Some 0 | [x] \<Rightarrow> Some (unat x) | _ \<Rightarrow> None)"

definition as_bounded_usize :: "bigint_value \<Rightarrow> nat \<Rightarrow> nat arithmetic" where
  "as_bounded_usize b maximum =
     and_then (ok_or ResultTooLarge (as_usize_if_fits b)) (\<lambda>n. if n > maximum then Err ResultTooLarge else Ok n)"

fun exponentiate_loop :: "(nat \<Rightarrow> bool) \<Rightarrow> bigint_value \<Rightarrow> bigint_value \<Rightarrow> nat \<Rightarrow> bigint_value arithmetic" where
  "exponentiate_loop grants base accumulated remaining =
     (if remaining = 0 then Ok accumulated
      else and_then (if odd remaining then bigint_multiply grants accumulated base else Ok accumulated) (\<lambda>accumulated.
           if remaining div 2 \<noteq> 0
           then and_then (bigint_multiply grants base base) (\<lambda>base. exponentiate_loop grants base accumulated (remaining div 2))
           else Ok accumulated))"

declare exponentiate_loop.simps [simp del]

definition bigint_exponentiate :: "(nat \<Rightarrow> bool) \<Rightarrow> bigint_value \<Rightarrow> bigint_value \<Rightarrow> bigint_value arithmetic" where
  "bigint_exponentiate grants a exponent =
     (if bv_negative exponent then Err NegativeExponent
      else if is_zero exponent then Ok (from_u64 1)
      else if is_zero a \<or> is_one a then Ok a
      else if bv_negative a \<and> bv_limbs a = [1]
      then Ok (from_i64 (if hd (bv_limbs exponent) AND 1 = 0 then 1 else - 1))
      else and_then (as_bounded_usize exponent MAX_RESULT_BITS) (\<lambda>n.
           if bit_length a * n > MAX_RESULT_BITS then Err ResultTooLarge
           else exponentiate_loop grants a (from_u64 1) n))"

definition twos_complement :: "(nat \<Rightarrow> bool) \<Rightarrow> bigint_value \<Rightarrow> nat \<Rightarrow> limbs arithmetic" where
  "twos_complement grants b width =
     and_then (zeroed_limbs grants width) (\<lambda>zeros.
     if length (bv_limbs b) > width then Panic
     else let padded = bv_limbs b @ drop (length (bv_limbs b)) zeros
          in Ok (if bv_negative b then add_one_in_place (map NOT padded) else padded))"

definition from_twos_complement :: "limbs \<Rightarrow> bigint_value" where
  "from_twos_complement l =
     (let neg = l \<noteq> [] \<and> drop_bit 63 (last l) \<noteq> 0
      in from_owned_limbs neg (if neg then add_one_in_place (map NOT l) else l))"

definition bigint_bitwise ::
  "(nat \<Rightarrow> bool) \<Rightarrow> bigint_value \<Rightarrow> bigint_value \<Rightarrow> opcode \<Rightarrow> bigint_value arithmetic" where
  "bigint_bitwise grants a b op =
     (let width = max (length (bv_limbs a)) (length (bv_limbs b)) + 1 in
      and_then (ensure_result_limbs width) (\<lambda>_.
      and_then (twos_complement grants a width) (\<lambda>left.
      and_then (twos_complement grants b width) (\<lambda>right.
      and_then (zeroed_limbs grants width) (\<lambda>_.
      if op = Op_BitwiseAnd then Ok (from_twos_complement (map2 (AND) left right))
      else if op = Op_BitwiseOr then Ok (from_twos_complement (map2 (OR) left right))
      else if op = Op_BitwiseXor then Ok (from_twos_complement (map2 (XOR) left right))
      else Panic)))))"

definition bigint_bitwise_not :: "(nat \<Rightarrow> bool) \<Rightarrow> bigint_value \<Rightarrow> bigint_value arithmetic" where
  "bigint_bitwise_not grants b = and_then (bigint_add grants b (from_u64 1)) (\<lambda>r. Ok (bigint_negate r))"

definition shift_left_magnitude :: "(nat \<Rightarrow> bool) \<Rightarrow> bigint_value \<Rightarrow> nat \<Rightarrow> bigint_value arithmetic" where
  "shift_left_magnitude grants b shift =
     (if bit_length b + shift > MAX_RESULT_BITS then Err ResultTooLarge
      else let word_shift = shift div 64; bit_shift = shift mod 64;
               limb_count = length (bv_limbs b) + word_shift + (if bit_shift \<noteq> 0 then 1 else 0)
           in and_then (zeroed_limbs grants limb_count) (\<lambda>l.
              and_then (shift_left_loop word_shift bit_shift 0 (bv_limbs b) l) (\<lambda>l.
              Ok (from_owned_limbs (bv_negative b) l))))"

definition shift_right_arithmetic :: "(nat \<Rightarrow> bool) \<Rightarrow> bigint_value \<Rightarrow> nat \<Rightarrow> bigint_value arithmetic" where
  "shift_right_arithmetic grants b shift =
     (if shift \<ge> bit_length b then Ok (from_i64 (if bv_negative b then - 1 else 0))
      else let word_shift = shift div 64; bit_shift = shift mod 64;
               output_len = length (bv_limbs b) - word_shift
           in and_then (zeroed_limbs grants output_len) (\<lambda>_.
              let l = map (shift_right_limb (bv_limbs b) word_shift bit_shift) [0..<output_len]
              in Ok (from_owned_limbs (bv_negative b)
                   (if bv_negative b \<and> discarded_bits_nonzero (bv_limbs b) shift then add_one_in_place l else l))))"

definition bigint_shift :: "(nat \<Rightarrow> bool) \<Rightarrow> bigint_value \<Rightarrow> bigint_value \<Rightarrow> bool \<Rightarrow> bigint_value arithmetic" where
  "bigint_shift grants b count left =
     (if is_zero b \<or> is_zero count then Ok b
      else if left \<noteq> bv_negative count
      then and_then (as_bounded_usize count MAX_RESULT_BITS) (\<lambda>shift. shift_left_magnitude grants b shift)
      else case as_usize_if_fits count of
             None \<Rightarrow> Ok (from_i64 (if bv_negative b then - 1 else 0))
           | Some shift \<Rightarrow> shift_right_arithmetic grants b shift)"

definition equals_small :: "bigint_value \<Rightarrow> i64 \<Rightarrow> bool" where
  "equals_small b v =
     (if v = 0 then bv_limbs b = [] else bv_negative b = i64_is_negative v \<and> bv_limbs b = [unsigned_abs v])"

definition truncate_to_bits :: "(nat \<Rightarrow> bool) \<Rightarrow> bigint_value \<Rightarrow> nat \<Rightarrow> bool \<Rightarrow> bigint_value arithmetic" where
  "truncate_to_bits grants b bits signed_result =
     (if bits = 0 then Ok (from_u64 0)
      else let limb_count = (bits + 63) div 64 in
        and_then (ensure_result_limbs limb_count) (\<lambda>_.
        and_then (zeroed_limbs grants limb_count) (\<lambda>zeros.
        let copied = min (length (bv_limbs b)) limb_count;
            padded = take copied (bv_limbs b) @ drop copied zeros;
            residue = (if bv_negative b then add_one_in_place (map NOT padded) else padded);
            retained = bits mod 64;
            residue = (if retained \<noteq> 0 then residue[limb_count - 1 := residue ! (limb_count - 1) AND (push_bit retained 1 - 1)] else residue);
            sign_set = signed_result \<and> residue ! ((bits - 1) div 64) AND push_bit ((bits - 1) mod 64) 1 \<noteq> 0
        in if \<not> sign_set then Ok (from_owned_limbs False residue)
           else and_then (zeroed_limbs grants (limb_count + 1)) (\<lambda>zeros.
                and_then (subtract_magnitudes grants (zeros[bits div 64 := push_bit (bits mod 64) 1]) residue) (\<lambda>l.
                Ok (from_owned_limbs True l))))))"

text \<open>The dispatch of \<open>bigint_binary_operation\<close> on two classified operands, before the result is published.\<close>

datatype bigint_operation_error = BigIntUnsignedRightShift | Arithmetic bigint_error

definition bigint_binary_operation ::
  "(nat \<Rightarrow> bool) \<Rightarrow> opcode \<Rightarrow> bigint_value \<Rightarrow> bigint_value \<Rightarrow> (bigint_operation_error, bigint_value) outcome" where
  "bigint_binary_operation grants op left right =
     (if op = Op_ShiftRightUnsigned then Err BigIntUnsignedRightShift
      else map_err Arithmetic
        (if op = Op_Add then bigint_add grants left right
         else if op = Op_Sub then bigint_subtract grants left right
         else if op = Op_Mul then bigint_multiply grants left right
         else if op = Op_Div then divide_or_remainder grants left right False
         else if op = Op_Remainder then divide_or_remainder grants left right True
         else if op = Op_Exponentiate then bigint_exponentiate grants left right
         else if op = Op_BitwiseAnd \<or> op = Op_BitwiseOr \<or> op = Op_BitwiseXor then bigint_bitwise grants left right op
         else if op = Op_ShiftLeft then bigint_shift grants left right True
         else if op = Op_ShiftRight then bigint_shift grants left right False
         else Panic))"

section \<open>Meaning\<close>

definition bigint_int :: "bigint_value \<Rightarrow> int" where
  "bigint_int b = (if bv_negative b then - int (magnitude (bv_limbs b)) else int (magnitude (bv_limbs b)))"

definition canonical :: "bigint_value \<Rightarrow> bool" where
  "canonical b \<longleftrightarrow> trimmed (bv_limbs b) \<and> (bv_limbs b = [] \<longrightarrow> \<not> bv_negative b)"

text \<open>A result within the limit for which the allocator has room.\<close>

definition affordable :: "(nat \<Rightarrow> bool) \<Rightarrow> nat \<Rightarrow> bool" where
  "affordable grants n \<longleftrightarrow> n \<le> div_ceil MAX_RESULT_BITS 64 \<and> (\<forall>k \<le> n. grants k)"

text \<open>The contract of an operation: the exact canonical result, or a report that \<open>n\<close> limbs cannot be had.\<close>

definition computes :: "(nat \<Rightarrow> bool) \<Rightarrow> nat \<Rightarrow> bigint_value arithmetic \<Rightarrow> int \<Rightarrow> bool" where
  "computes grants n m v \<longleftrightarrow>
     (\<exists>r. m = Ok r \<and> canonical r \<and> bigint_int r = v) \<or>
     ((m = Err ResultTooLarge \<or> m = Err AllocationFailed) \<and> \<not> affordable grants n)"

lemma computes_Ok: "canonical r \<Longrightarrow> bigint_int r = v \<Longrightarrow> computes grants n (Ok r) v"
  by (simp add: computes_def)

lemma canonical_limbs: "canonical b \<Longrightarrow> trimmed (bv_limbs b)"
  by (simp add: canonical_def)

lemma canonical_inject:
  assumes "canonical a" "canonical b" "bigint_int a = bigint_int b"
  shows "a = b"
proof -
  have pos: "0 < magnitude (bv_limbs x)" if "canonical x" "bv_negative x" for x
    using that trimmed_zero [of "bv_limbs x"] by (auto simp: canonical_def)
  have neg: "bv_negative a = bv_negative b"
    using assms pos [of a] pos [of b] by (auto simp: bigint_int_def split: if_splits)
  then have "magnitude (bv_limbs a) = magnitude (bv_limbs b)" using assms(3) by (simp add: bigint_int_def split: if_splits)
  then have "bv_limbs a = bv_limbs b" using trimmed_inject assms canonical_limbs by blast
  then show ?thesis using neg by simp
qed

lemma from_owned_limbs_canonical [simp]: "canonical (from_owned_limbs neg l)"
  by (simp add: from_owned_limbs_def canonical_def Let_def)

lemma from_owned_limbs_int [simp]: "bigint_int (from_owned_limbs neg l) = (if neg then - int (magnitude l) else int (magnitude l))"
proof -
  have "trim_limbs l = [] \<Longrightarrow> magnitude l = 0" by (metis magnitude.simps(1) magnitude_trim)
  then show ?thesis by (auto simp: from_owned_limbs_def bigint_int_def Let_def)
qed

lemma from_u64_canonical [simp]: "canonical (from_u64 x)"
  by (simp add: from_u64_def canonical_def trimmed_def)

lemma from_u64_int [simp]: "bigint_int (from_u64 x) = int (unat x)"
  by (simp add: from_u64_def bigint_int_def)

lemma sint_range: "- (2 ^ 63) \<le> sint (x :: i64)" "sint (x :: i64) < 2 ^ 63"
  using sint_greater_eq [of x] sint_less [of x] by simp_all

lemma uint_of_sint: "uint (x :: i64) = (if sint x < 0 then sint x + 2 ^ 64 else sint x)"
proof -
  have "uint x = sint x mod 2 ^ 64" by (simp add: uint_sint take_bit_eq_mod)
  also have "\<dots> = (if sint x < 0 then sint x + 2 ^ 64 else sint x)"
  proof (cases "sint x < 0")
    case True
    have "(sint x + 2 ^ 64) mod 2 ^ 64 = sint x + 2 ^ 64" using True sint_range [of x] by (intro mod_pos_pos_trivial) simp_all
    then show ?thesis using True by simp
  next
    case False
    then show ?thesis using sint_range [of x] by simp
  qed
  finally show ?thesis .
qed

lemma int_unat_limb: "int (unat (x :: u64)) = uint x"
  by simp

lemma unat_unsigned_abs: "int (unat (unsigned_abs x)) = \<bar>sint x\<bar>"
proof (cases "sint x < 0")
  case True
  have "uint (- x) = (- uint x) mod 2 ^ 64" by (simp add: uint_word_ariths)
  also have "- uint x = - sint x - 2 ^ 64" using True uint_of_sint [of x] by simp
  also have "(- sint x - 2 ^ 64) mod 2 ^ 64 = - sint x" using True sint_range [of x] by (simp add: mod_pos_pos_trivial minus_mod_self2)
  finally show ?thesis using True by (simp add: unsigned_abs_def i64_is_negative_def)
next
  case False
  then show ?thesis using uint_of_sint [of x] by (simp add: unsigned_abs_def i64_is_negative_def)
qed

lemma from_i64_int [simp]: "bigint_int (from_i64 x) = sint x"
  using unat_unsigned_abs [of x] by (auto simp: from_i64_def from_u64_def bigint_int_def i64_is_negative_def split: if_splits)

lemma from_i64_canonical [simp]: "canonical (from_i64 x)"
proof -
  have "sint x < 0 \<Longrightarrow> unsigned_abs x \<noteq> 0" using unat_unsigned_abs [of x] by auto
  then show ?thesis by (auto simp: from_i64_def from_u64_def canonical_def trimmed_def i64_is_negative_def)
qed

lemma negate_int [simp]: "bigint_int (bigint_negate b) = - bigint_int b"
  by (simp add: bigint_negate_def bigint_int_def)

lemma negate_canonical [simp]: "canonical b \<Longrightarrow> canonical (bigint_negate b)"
  by (auto simp: bigint_negate_def canonical_def)

lemma is_zero_iff: "canonical b \<Longrightarrow> is_zero b \<longleftrightarrow> bigint_int b = 0"
  using trimmed_zero [of "bv_limbs b"] by (auto simp: is_zero_def canonical_def bigint_int_def)

lemma magnitude_cmp_int: "canonical a \<Longrightarrow> canonical b \<Longrightarrow> magnitude_cmp a b = ordering_of \<bar>bigint_int a\<bar> \<bar>bigint_int b\<bar>"
  by (simp add: magnitude_cmp_def magnitude_cmp_value canonical_limbs bigint_int_def ordering_of_def)

section \<open>Comparison\<close>

lemma ordering_of_int: "ordering_of (int m) (int n) = ordering_of m n"
  by (simp add: ordering_of_def)

lemma negative_iff: "canonical b \<Longrightarrow> bv_negative b \<longleftrightarrow> bigint_int b < 0"
  using trimmed_zero [of "bv_limbs b"] by (auto simp: canonical_def bigint_int_def)

lemma mathematical_cmp_int:
  assumes "canonical a" "canonical b"
  shows "mathematical_cmp a b = ordering_of (bigint_int a) (bigint_int b)"
  using negative_iff [OF assms(1)] negative_iff [OF assms(2)]
  by (auto simp: mathematical_cmp_def magnitude_cmp_int [OF assms] ordering_of_def)

lemma mathematical_cmp_i64_int:
  assumes "canonical a"
  shows "mathematical_cmp_i64 a x = ordering_of (bigint_int a) (sint x)"
proof -
  let ?m = "magnitude (bv_limbs a)"
  have eq: "(case bv_limbs a of [] \<Rightarrow> ordering_of 0 (unsigned_abs x) | [limb] \<Rightarrow> ordering_of limb (unsigned_abs x) | _ \<Rightarrow> Ord_Greater) =
      ordering_of ?m (unat (unsigned_abs x))"
  proof (cases "bv_limbs a")
    case Nil
    then show ?thesis by (simp add: ordering_of_def word_less_nat_alt unat_eq_0 [symmetric] eq_commute [of 0])
  next
    case (Cons y ys)
    show ?thesis
    proof (cases ys)
      case Nil
      then show ?thesis using Cons by (simp add: ordering_of_def word_less_nat_alt word_unat_eq_iff)
    next
      case (Cons z zs)
      then have "BASE ^ 1 \<le> BASE ^ (length (bv_limbs a) - 1)" using \<open>bv_limbs a = y # ys\<close> by (intro power_increasing) simp_all
      also have "\<dots> \<le> ?m" using trimmed_magnitude [OF canonical_limbs [OF assms]] \<open>bv_limbs a = y # ys\<close> by simp
      finally have "BASE \<le> ?m" by simp
      then have "unat (unsigned_abs x) < ?m" by (rule less_le_trans [OF limb_less])
      then show ?thesis using Cons \<open>bv_limbs a = y # ys\<close> by (simp add: ordering_of_def)
    qed
  qed
  have abs: "int (unat (unsigned_abs x)) = \<bar>sint x\<bar>" by (rule unat_unsigned_abs)
  have "\<bar>bigint_int a\<bar> = int ?m" by (simp add: bigint_int_def)
  then have ord: "ordering_of ?m (unat (unsigned_abs x)) = ordering_of \<bar>bigint_int a\<bar> \<bar>sint x\<bar>"
    unfolding abs [symmetric] by (simp only: ordering_of_int)
  show ?thesis unfolding mathematical_cmp_i64_def eq ord Let_def i64_is_negative_def negative_iff [OF assms]
    by (auto simp: ordering_of_def)
qed

lemma equals_small_int:
  assumes "canonical a"
  shows "equals_small a x \<longleftrightarrow> bigint_int a = sint x"
proof -
  have "equals_small a x \<longleftrightarrow> a = from_i64 x"
  proof (cases "x = 0")
    case True
    then show ?thesis using assms by (auto simp: equals_small_def from_i64_def from_u64_def i64_is_negative_def unsigned_abs_def canonical_def)
  next
    case False
    then have "from_i64 x = \<lparr>bv_negative = i64_is_negative x, bv_limbs = [unsigned_abs x]\<rparr>"
      by (simp add: from_i64_def from_u64_def unsigned_abs_def)
    then show ?thesis using False by (cases a) (simp add: equals_small_def)
  qed
  then show ?thesis using canonical_inject [OF assms from_i64_canonical] by (metis from_i64_int)
qed

end
