(* ===== verification/BigInt_Exact.thy ===== *)
theory BigInt_Exact
  imports BigInt
begin

text \<open>
  The operations of \<open>BigIntValue\<close> compute on integers: addition, subtraction, multiplication, truncating
  division and remainder, powers, the bitwise operations on the infinite two's complement, shifts and the
  truncation of \<open>BigInt.asUintN\<close> and \<open>BigInt.asIntN\<close>. The contract \<open>computes grants n m v\<close> says that \<open>m\<close> is
  the canonical value of \<open>v\<close>, unless a result of \<open>n\<close> limbs cannot be had, and then \<open>m\<close> reports it.
\<close>

unbundle bit_operations_syntax

section \<open>Arithmetic\<close>

lemma and_then_assoc: "and_then (and_then m f) g = and_then m (\<lambda>x. and_then (f x) g)"
  by (cases m) simp_all

lemma computes_mono: "computes grants m r v \<Longrightarrow> m \<le> n \<Longrightarrow> computes grants n r v"
  by (auto simp: computes_def affordable_def)

lemma computes_ensure:
  "k \<le> n \<Longrightarrow> computes grants n (f ()) v \<Longrightarrow> computes grants n (and_then (ensure_result_limbs k) f) v"
  by (auto simp: computes_def affordable_def ensure_result_limbs_def reject_if_def)

lemma computes_zeroed:
  "k \<le> n \<Longrightarrow> computes grants n (f (replicate k 0)) v \<Longrightarrow> computes grants n (and_then (zeroed_limbs grants k) f) v"
  by (auto simp: computes_def affordable_def zeroed_limbs_def ensure_result_limbs_def reject_if_def)

lemma computes_map:
  assumes "computes grants n m v" and "\<And>r. canonical r \<Longrightarrow> bigint_int r = v \<Longrightarrow> computes grants n (f r) w"
  shows "computes grants n (and_then m f) w"
proof (cases "\<exists>r. m = Ok r")
  case True
  then obtain r where "m = Ok r" "canonical r" "bigint_int r = v" using assms(1) by (auto simp: computes_def)
  then show ?thesis using assms(2) [of r] by simp
qed (use assms(1) in \<open>auto simp: computes_def\<close>)

lemma computes_owned:
  "(if neg then - int (magnitude l) else int (magnitude l)) = v \<Longrightarrow> computes grants n (Ok (from_owned_limbs neg l)) v"
  by (rule computes_Ok) simp_all

lemmas computes_intros = computes_ensure computes_zeroed computes_Ok

lemma subtract_magnitudes_computes:
  assumes "canonical a" "canonical b" "magnitude (bv_limbs b) < magnitude (bv_limbs a)"
  shows "computes grants (max (length (bv_limbs a)) (length (bv_limbs b)) + 1)
    (and_then (subtract_magnitudes grants (bv_limbs a) (bv_limbs b)) (\<lambda>l. Ok (from_owned_limbs neg l)))
    (if neg then int (magnitude (bv_limbs b)) - int (magnitude (bv_limbs a))
     else int (magnitude (bv_limbs a)) - int (magnitude (bv_limbs b)))"
proof -
  have len: "length (bv_limbs b) \<le> length (bv_limbs a)"
    using trimmed_length_mono [of "bv_limbs a" "bv_limbs b"] assms canonical_limbs by fastforce
  have "magnitude (subtract_loop (bv_limbs b) (bv_limbs a) 0 0) = magnitude (bv_limbs a) - magnitude (bv_limbs b)"
    using assms(3) by (intro subtract_value len) simp
  then have "computes grants (max (length (bv_limbs a)) (length (bv_limbs b)) + 1)
      (Ok (from_owned_limbs neg (subtract_loop (bv_limbs b) (bv_limbs a) 0 0))) (if neg then
      int (magnitude (bv_limbs b)) - int (magnitude (bv_limbs a)) else int (magnitude (bv_limbs a)) - int (magnitude (bv_limbs b)))"
    using assms(3) by (intro computes_owned) auto
  then show ?thesis unfolding subtract_magnitudes_def and_then_assoc by (intro computes_zeroed) simp_all
qed

lemma bigint_add_computes:
  assumes "canonical a" "canonical b"
  shows "computes grants (max (length (bv_limbs a)) (length (bv_limbs b)) + 1) (bigint_add grants a b) (bigint_int a + bigint_int b)"
proof (cases "bv_negative a = bv_negative b")
  case True
  show ?thesis
  proof (cases "add_magnitudes grants (bv_limbs a) (bv_limbs b)")
    case (Ok l)
    then show ?thesis using True add_magnitudes_value [OF Ok] by (auto simp: bigint_add_def bigint_int_def intro!: computes_owned)
  qed (use True in \<open>auto simp: bigint_add_def add_magnitudes_def Let_def outcome_simps zeroed_limbs_def ensure_result_limbs_def
      computes_def affordable_def split: if_splits prod.splits\<close>)
next
  case False
  have cmp: "magnitude_cmp a b = ordering_of (magnitude (bv_limbs a)) (magnitude (bv_limbs b))"
    by (simp add: magnitude_cmp_def magnitude_cmp_value canonical_limbs assms)
  consider "magnitude (bv_limbs a) = magnitude (bv_limbs b)" | "magnitude (bv_limbs a) < magnitude (bv_limbs b)"
    | "magnitude (bv_limbs b) < magnitude (bv_limbs a)" by linarith
  then show ?thesis
  proof cases
    case 1
    then have "bigint_int a + bigint_int b = 0" using False by (auto simp: bigint_int_def)
    then show ?thesis using 1 False cmp by (simp add: bigint_add_def ordering_of_def computes_Ok)
  next
    case 2
    show ?thesis using subtract_magnitudes_computes [OF assms(2,1) 2, of grants "bv_negative b"] 2 False cmp
      by (cases "bv_negative b") (simp_all add: bigint_add_def ordering_of_def bigint_int_def max.commute)
  next
    case 3
    show ?thesis using subtract_magnitudes_computes [OF assms 3, of grants "bv_negative a"] 3 False cmp
      by (cases "bv_negative a") (simp_all add: bigint_add_def ordering_of_def bigint_int_def)
  qed
qed

lemma negate_limbs [simp]: "bv_limbs (bigint_negate b) = bv_limbs b"
  by (simp add: bigint_negate_def)

lemma bigint_subtract_computes:
  assumes "canonical a" "canonical b"
  shows "computes grants (max (length (bv_limbs a)) (length (bv_limbs b)) + 1) (bigint_subtract grants a b) (bigint_int a - bigint_int b)"
  using bigint_add_computes [OF assms(1) negate_canonical [OF assms(2)], of grants] by (simp add: bigint_subtract_def)

lemma bigint_multiply_computes:
  assumes "canonical a" "canonical b"
  shows "computes grants (length (bv_limbs a) + length (bv_limbs b)) (bigint_multiply grants a b) (bigint_int a * bigint_int b)"
proof (cases "is_zero a \<or> is_zero b")
  case True
  then show ?thesis using is_zero_iff assms by (auto simp: bigint_multiply_def intro!: computes_Ok)
next
  case False
  let ?n = "length (bv_limbs a) + length (bv_limbs b)"
  obtain l where "multiply_outer (bv_limbs a) 0 (bv_limbs b) (replicate ?n 0) = Ok l"
      "magnitude l = magnitude (bv_limbs a) * magnitude (bv_limbs b)"
    using multiply_outer_value [of 0 "bv_limbs a" "bv_limbs b" "replicate ?n 0"] by auto
  then show ?thesis unfolding bigint_multiply_def if_not_P [OF False] Let_def
    by (intro computes_ensure computes_zeroed order_refl) (auto simp: bigint_int_def intro!: computes_owned)
qed

lemma bigint_not_computes:
  assumes "canonical b"
  shows "computes grants (max (length (bv_limbs b)) 1 + 1) (bigint_bitwise_not grants b) (NOT (bigint_int b))"
proof -
  have "computes grants (max (length (bv_limbs b)) 1 + 1) (bigint_add grants b (from_u64 1)) (bigint_int b + 1)"
    using bigint_add_computes [OF assms from_u64_canonical [of 1], of grants] by (simp add: from_u64_def bigint_int_def)
  then show ?thesis unfolding bigint_bitwise_not_def
    by (rule computes_map) (auto simp: not_int_def intro!: computes_Ok)
qed

lemma sdiv_magnitudes:
  "bigint_int a sdiv bigint_int b =
     (if bv_negative a \<noteq> bv_negative b then - int (magnitude (bv_limbs a) div magnitude (bv_limbs b))
      else int (magnitude (bv_limbs a) div magnitude (bv_limbs b)))"
  "bigint_int a smod bigint_int b =
     (if bv_negative a then - int (magnitude (bv_limbs a) mod magnitude (bv_limbs b))
      else int (magnitude (bv_limbs a) mod magnitude (bv_limbs b)))"
proof -
  let ?a = "int (magnitude (bv_limbs a))" and ?b = "int (magnitude (bv_limbs b))"
  show "bigint_int a sdiv bigint_int b = (if bv_negative a \<noteq> bv_negative b then - int (magnitude (bv_limbs a) div magnitude (bv_limbs b))
      else int (magnitude (bv_limbs a) div magnitude (bv_limbs b)))"
    by (cases "?a = 0"; cases "?b = 0") (simp_all add: bigint_int_def signed_divide_int_def sgn_if zdiv_int)
  show "bigint_int a smod bigint_int b =
     (if bv_negative a then - int (magnitude (bv_limbs a) mod magnitude (bv_limbs b))
      else int (magnitude (bv_limbs a) mod magnitude (bv_limbs b)))"
    by (cases "?a = 0"; cases "?b = 0") (simp_all add: bigint_int_def signed_modulo_int_def sgn_if zmod_int)
qed

text \<open>Division truncates towards zero and the remainder takes the sign of the dividend.\<close>

lemma divide_or_remainder_computes:
  assumes "canonical a" "canonical b" "bigint_int b \<noteq> 0"
  shows "computes grants (length (bv_limbs a) + 1) (divide_or_remainder grants a b remainder)
    (if remainder then bigint_int a smod bigint_int b else bigint_int a sdiv bigint_int b)"
proof -
  let ?a = "magnitude (bv_limbs a)" and ?b = "magnitude (bv_limbs b)"
  have nz: "\<not> is_zero b" "bv_limbs b \<noteq> []" using is_zero_iff assms by (auto simp: is_zero_def)
  have cmp: "magnitude_cmp a b = ordering_of ?a ?b"
    by (simp add: magnitude_cmp_def magnitude_cmp_value canonical_limbs assms)
  consider "is_zero a" | "\<not> is_zero a" "?a < ?b" | "\<not> is_zero a" "?b \<le> ?a" "length (bv_limbs b) = 1"
    | "\<not> is_zero a" "?b \<le> ?a" "length (bv_limbs b) \<noteq> 1" by linarith
  then show ?thesis
  proof cases
    case 1
    then show ?thesis using nz is_zero_iff [OF assms(1)]
      by (auto simp: divide_or_remainder_def signed_divide_int_def signed_modulo_int_def intro!: computes_Ok)
  next
    case 2
    then have "bigint_int a smod bigint_int b = bigint_int a" "bigint_int a sdiv bigint_int b = 0"
      unfolding sdiv_magnitudes by (auto simp: bigint_int_def)
    then show ?thesis using 2 nz cmp assms(1) by (simp add: divide_or_remainder_def ordering_of_def computes_Ok)
  next
    case 3
    then obtain d where d: "bv_limbs b = [d]" by (cases "bv_limbs b") auto
    then have d0: "d \<noteq> 0" using canonical_limbs [OF assms(2)] by (simp add: trimmed_def)
    show ?thesis
    proof (cases "divide_magnitude_by_limb grants (bv_limbs a) d")
      case (Ok p)
      obtain q r where p: "p = (q, r)" by fastforce
      have "magnitude q = ?a div ?b" "unat r = ?a mod ?b"
        using divide_magnitude_by_limb_value [OF Ok [unfolded p] d0] d by simp_all
      then show ?thesis using 3 nz cmp d Ok p
        by (auto simp: divide_or_remainder_def ordering_of_def sdiv_magnitudes intro!: computes_owned)
    qed (use 3 nz cmp d in \<open>auto simp: divide_or_remainder_def ordering_of_def divide_magnitude_by_limb_def zeroed_limbs_def
        ensure_result_limbs_def outcome_simps computes_def affordable_def
        split: if_splits prod.splits intro!: exI [of _ "length (bv_limbs a)"]\<close>)
  next
    case 4
    have ne: "bv_limbs a \<noteq> []" using 4 by (simp add: is_zero_def)
    have len: "length (bv_limbs b) \<le> length (bv_limbs a)"
      using trimmed_length_mono [of "bv_limbs a" "bv_limbs b"] 4(2) assms canonical_limbs by fastforce
    have red: "divide_or_remainder grants a b remainder = and_then (divide_magnitudes grants (bv_limbs a) (bv_limbs b)) (\<lambda>(quo, residual).
        if remainder then Ok (from_owned_limbs (bv_negative a) residual)
        else Ok (from_owned_limbs (bv_negative a \<noteq> bv_negative b) quo))"
      using 4 nz cmp by (simp add: divide_or_remainder_def ordering_of_def)
    have aff: "grants (length (bv_limbs a))" "grants (length (bv_limbs b) + 1)" "\<not> length (bv_limbs a) > div_ceil MAX_RESULT_BITS 64"
      if "affordable grants (length (bv_limbs a) + 1)"
      using that len by (simp_all add: affordable_def)
    consider "\<not> affordable grants (length (bv_limbs a) + 1)" "divide_magnitudes grants (bv_limbs a) (bv_limbs b) = Err ResultTooLarge \<or>
        divide_magnitudes grants (bv_limbs a) (bv_limbs b) = Err AllocationFailed"
      | q r where "divide_magnitudes grants (bv_limbs a) (bv_limbs b) = Ok (q, r)" "magnitude r = ?a mod ?b" "magnitude q = ?a div ?b"
      using divide_magnitudes_value [OF canonical_limbs [OF assms(1)] ne canonical_limbs [OF assms(2)] nz(2), of grants] aff by blast
    then show ?thesis unfolding red by cases (auto simp: sdiv_magnitudes computes_def)
  qed
qed
subsection \<open>Powers\<close>

lemma length_by_bits:
  assumes "canonical x" "magnitude (bv_limbs x) \<le> 2 ^ k"
  shows "length (bv_limbs x) \<le> k div 64 + 1"
proof (cases "bv_limbs x = []")
  case False
  have "2 ^ ((length (bv_limbs x) - 1) * 64) \<le> magnitude (bv_limbs x)"
    using trimmed_magnitude [OF canonical_limbs [OF assms(1)] False] by (simp add: BASE_power)
  also note assms(2)
  finally have "(length (bv_limbs x) - 1) * 64 \<le> k" by (simp add: power_le_imp_le_exp)
  then have "length (bv_limbs x) - 1 \<le> k div 64" using div_le_mono [of _ k 64] by fastforce
  then show ?thesis by simp
qed simp

lemma abs_bigint_int: "nat \<bar>bigint_int x\<bar> = magnitude (bv_limbs x)"
  by (simp add: bigint_int_def)

lemma product_computes:
  assumes "canonical x" "canonical y" "magnitude (bv_limbs x) \<le> 2 ^ i" "magnitude (bv_limbs y) \<le> 2 ^ j" "i + j \<le> t"
  shows "computes grants (t div 64 + 2) (bigint_multiply grants x y) (bigint_int x * bigint_int y)"
proof -
  have "i div 64 + j div 64 \<le> (i + j) div 64" by linarith
  also have "\<dots> \<le> t div 64" using assms(5) by (rule div_le_mono)
  finally have "length (bv_limbs x) + length (bv_limbs y) \<le> t div 64 + 2"
    using length_by_bits [OF assms(1,3)] length_by_bits [OF assms(2,4)] by simp
  then show ?thesis using bigint_multiply_computes [OF assms(1,2)] computes_mono by blast
qed

lemma product_magnitude:
  assumes "bigint_int r = bigint_int x * bigint_int y" "magnitude (bv_limbs x) \<le> 2 ^ i" "magnitude (bv_limbs y) \<le> 2 ^ j"
  shows "magnitude (bv_limbs r) \<le> 2 ^ (i + j)"
proof -
  have "magnitude (bv_limbs r) = magnitude (bv_limbs x) * magnitude (bv_limbs y)"
    unfolding abs_bigint_int [symmetric] assms(1) by (simp add: abs_mult nat_mult_distrib)
  then show ?thesis using mult_le_mono [OF assms(2,3)] by (simp add: power_add)
qed

lemma exponentiate_loop_computes:
  assumes "canonical base" "canonical acc" "magnitude (bv_limbs base) \<le> 2 ^ b" "magnitude (bv_limbs acc) \<le> 2 ^ a" "a + b * e \<le> t"
  shows "computes grants (t div 64 + 2) (exponentiate_loop grants base acc e) (bigint_int acc * bigint_int base ^ e)"
  using assms
proof (induction e arbitrary: base acc a b rule: less_induct)
  case (less e)
  show ?case
  proof (cases "e = 0")
    case True
    then show ?thesis using less.prems by (simp add: exponentiate_loop.simps [of _ _ _ 0] computes_Ok)
  next
    case False
    let ?step = "if odd e then bigint_multiply grants acc base else Ok acc"
    let ?v = "bigint_int acc * bigint_int base ^ (e mod 2)"
    have one: "b \<le> b * e" using False by simp
    have step: "computes grants (t div 64 + 2) ?step ?v"
      using product_computes [OF less.prems(2,1,4,3), of t] one less.prems(2,5) by (auto simp: odd_iff_mod_2_eq_one intro: computes_Ok)
    have half: "e = 2 * (e div 2) + e mod 2" by simp
    have pow: "bigint_int base ^ e = bigint_int base ^ (e mod 2) * (bigint_int base * bigint_int base) ^ (e div 2)"
      by (subst half) (simp only: power_add power_mult power2_eq_square mult.commute)
    have rest: "computes grants (t div 64 + 2) (if e div 2 \<noteq> 0
        then and_then (bigint_multiply grants base base) (\<lambda>base. exponentiate_loop grants base r (e div 2)) else Ok r)
        (bigint_int acc * bigint_int base ^ e)" if r: "canonical r" "bigint_int r = ?v" for r
    proof (cases "e div 2 = 0")
      case True
      then show ?thesis using r unfolding pow by (simp add: computes_Ok)
    next
      case nz: False
      have mr: "magnitude (bv_limbs r) \<le> 2 ^ (a + b * (e mod 2))"
      proof (cases "odd e")
        case True
        then show ?thesis using product_magnitude [OF _ less.prems(4,3), of r] r(2) by (simp add: odd_iff_mod_2_eq_one)
      next
        case False
        then have "magnitude (bv_limbs r) = magnitude (bv_limbs acc)"
          unfolding abs_bigint_int [symmetric] r(2) by (simp add: even_iff_mod_2_eq_zero)
        then show ?thesis using False less.prems(4) by (simp add: even_iff_mod_2_eq_zero)
      qed
      have be: "b * e = b * (e mod 2) + (b + b) * (e div 2)" by (subst half) (simp only: distrib_left distrib_right mult_2 add.commute)
      have "b + b \<le> (b + b) * (e div 2)" using nz by simp
      then have sq: "computes grants (t div 64 + 2) (bigint_multiply grants base base) (bigint_int base * bigint_int base)"
        using be less.prems(5) by (intro product_computes [OF less.prems(1,1,3,3)]) linarith
      have "computes grants (t div 64 + 2) (exponentiate_loop grants s r (e div 2)) (bigint_int acc * bigint_int base ^ e)"
        if s: "canonical s" "bigint_int s = bigint_int base * bigint_int base" for s
      proof -
        have "computes grants (t div 64 + 2) (exponentiate_loop grants s r (e div 2)) (bigint_int r * bigint_int s ^ (e div 2))"
        proof (rule less.IH [OF _ s(1) r(1) _ mr])
          show "e div 2 < e" using False by simp
          show "magnitude (bv_limbs s) \<le> 2 ^ (b + b)" using product_magnitude [OF s(2) less.prems(3,3)] .
          show "a + b * (e mod 2) + (b + b) * (e div 2) \<le> t" using be less.prems(5) by linarith
        qed
        then show ?thesis unfolding r(2) s(2) pow by (simp only: mult.assoc)
      qed
      then show ?thesis using nz computes_map [OF sq] by simp
    qed
    show ?thesis unfolding exponentiate_loop.simps [of grants base acc e] if_not_P [OF False]
      by (rule computes_map [OF step rest])
  qed
qed

lemma as_bounded_usize_cases:
  assumes "canonical x" "\<not> bv_negative x"
  shows "as_bounded_usize x m = (if nat (bigint_int x) \<le> m \<and> nat (bigint_int x) < BASE then Ok (nat (bigint_int x)) else Err ResultTooLarge)"
proof (cases "bv_limbs x")
  case (Cons y ys)
  show ?thesis
  proof (cases ys)
    case Nil
    then show ?thesis using Cons assms(2) by (simp add: as_bounded_usize_def as_usize_if_fits_def bigint_int_def)
  next
    case two: (Cons z zs)
    then have "BASE ^ 1 \<le> BASE ^ (length (bv_limbs x) - 1)" using Cons by (intro power_increasing) simp_all
    also have "\<dots> \<le> magnitude (bv_limbs x)" using trimmed_magnitude [OF canonical_limbs [OF assms(1)]] Cons by simp
    finally have "BASE \<le> nat (bigint_int x)" using assms(2) by (simp add: bigint_int_def)
    moreover have "as_bounded_usize x m = Err ResultTooLarge" using Cons two by (simp add: as_bounded_usize_def as_usize_if_fits_def)
    ultimately show ?thesis by simp
  qed
qed (use assms in \<open>simp add: as_bounded_usize_def as_usize_if_fits_def bigint_int_def\<close>)

lemma large_exponent:
  assumes "0 < b" "\<not> (n \<le> MAX_RESULT_BITS \<and> n < BASE) \<or> b * n > MAX_RESULT_BITS"
  shows "\<not> affordable grants (b * n div 64 + 2)"
proof -
  have "n \<le> b * n" using assms(1) by simp
  moreover have "MAX_RESULT_BITS \<le> n \<or> MAX_RESULT_BITS \<le> b * n" using assms(2) by (auto simp: MAX_RESULT_BITS_def BASE_def)
  ultimately have "MAX_RESULT_BITS \<le> b * n" using le_trans by blast
  then have "MAX_RESULT_BITS div 64 \<le> b * n div 64" by (rule div_le_mono)
  then show ?thesis by (simp add: affordable_def MAX_RESULT_BITS_def div_ceil_def)
qed

lemma unit_values:
  assumes "canonical a" "\<bar>bigint_int a\<bar> \<le> 1"
  shows "is_zero a \<or> is_one a \<or> bv_negative a \<and> bv_limbs a = [1]"
proof -
  have "bigint_int a = 0 \<or> bigint_int a = sint (1 :: i64) \<or> bigint_int a = sint (- 1 :: i64)" using assms(2) by (simp, linarith)
  then have "is_zero a \<or> a = from_i64 1 \<or> a = from_i64 (- 1)"
    using is_zero_iff [OF assms(1)] canonical_inject [OF assms(1) from_i64_canonical] by (metis from_i64_int)
  then show ?thesis by (auto simp: is_one_def from_i64_def from_u64_def unsigned_abs_def i64_is_negative_def)
qed

text \<open>The limbs of the power and its last square; the bases \<open>0\<close>, \<open>1\<close> and \<open>-1\<close> need none.\<close>

definition exponent_demand :: "bigint_value \<Rightarrow> bigint_value \<Rightarrow> nat" where
  "exponent_demand a e = (if \<bar>bigint_int a\<bar> \<le> 1 then 0 else bit_length a * nat (bigint_int e) div 64 + 2)"

lemma bigint_exponentiate_computes:
  assumes "canonical a" "canonical e" "0 \<le> bigint_int e"
  shows "computes grants (exponent_demand a e) (bigint_exponentiate grants a e) (bigint_int a ^ nat (bigint_int e))"
proof -
  let ?n = "nat (bigint_int e)"
  have pos: "\<not> bv_negative e" using assms(2,3) negative_iff by fastforce
  have n: "?n = magnitude (bv_limbs e)" using pos by (simp add: bigint_int_def)
  consider "is_zero e" | "\<not> is_zero e" "is_zero a \<or> is_one a" | "\<not> is_zero e" "\<not> is_zero a" "\<not> is_one a" "bv_negative a" "bv_limbs a = [1]"
    | "\<not> is_zero e" "\<not> is_zero a" "\<not> is_one a" "\<not> (bv_negative a \<and> bv_limbs a = [1])" by blast
  then show ?thesis
  proof cases
    case 1
    then show ?thesis using pos is_zero_iff [OF assms(2)] by (simp add: bigint_exponentiate_def computes_Ok)
  next
    case 2
    have "0 < ?n" using 2(1) is_zero_iff [OF assms(2)] assms(3) by simp
    moreover have "bigint_int a = 0 \<or> bigint_int a = 1" using 2(2) is_zero_iff [OF assms(1)] by (auto simp: is_one_def bigint_int_def)
    ultimately have "bigint_int a ^ ?n = bigint_int a" by (auto simp: zero_power)
    then show ?thesis using 2 pos assms(1) by (simp add: bigint_exponentiate_def computes_Ok)
  next
    case 3
    obtain x xs where x: "bv_limbs e = x # xs" using 3(1) by (cases "bv_limbs e") (auto simp: is_zero_def)
    have "even BASE" by (simp add: BASE_def)
    then have "even ?n \<longleftrightarrow> even (unat x)" unfolding n x by simp
    also have "\<dots> \<longleftrightarrow> \<not> bit (unat x) 0" by (simp add: bit_0)
    also have "\<dots> \<longleftrightarrow> \<not> bit x 0" by (simp only: bit_unsigned_iff) simp
    also have "\<dots> \<longleftrightarrow> x AND 1 = 0" by (simp add: and_one_eq mod_2_eq_odd bit_0)
    finally have "x AND 1 = 0 \<longleftrightarrow> even ?n" by simp
    moreover have "bigint_int a = - 1" using 3 by (simp add: bigint_int_def)
    ultimately show ?thesis using 3 pos x by (simp add: bigint_exponentiate_def computes_Ok)
  next
    case 4
    have bits: "0 < bit_length a" "magnitude (bv_limbs a) \<le> 2 ^ bit_length a"
      using magnitude_bit_length_ge(2) [of "bv_limbs a"] magnitude_bit_length_less [of "bv_limbs a"] 4(2) canonical_limbs [OF assms(1)]
      by (simp_all add: bit_length_def is_zero_def)
    have "\<not> \<bar>bigint_int a\<bar> \<le> 1" using unit_values [OF assms(1)] 4 by blast
    then have demand: "exponent_demand a e = bit_length a * ?n div 64 + 2" by (simp add: exponent_demand_def)
    show ?thesis
    proof (cases "(?n \<le> MAX_RESULT_BITS \<and> ?n < BASE) \<and> \<not> bit_length a * ?n > MAX_RESULT_BITS")
      case True
      then have "bigint_exponentiate grants a e = exponentiate_loop grants a (from_u64 1) ?n"
        using 4 pos as_bounded_usize_cases [OF assms(2) pos, of MAX_RESULT_BITS] by (auto simp: bigint_exponentiate_def)
      moreover have "computes grants (bit_length a * ?n div 64 + 2) (exponentiate_loop grants a (from_u64 1) ?n)
          (bigint_int (from_u64 1) * bigint_int a ^ ?n)"
        by (rule exponentiate_loop_computes [OF assms(1) from_u64_canonical bits(2), of _ 0]) (simp_all add: from_u64_def)
      ultimately show ?thesis by (simp add: demand)
    next
      case False
      then have "bigint_exponentiate grants a e = Err ResultTooLarge"
        using 4 pos as_bounded_usize_cases [OF assms(2) pos, of MAX_RESULT_BITS] by (auto simp: bigint_exponentiate_def)
      then show ?thesis using large_exponent [OF bits(1), of ?n grants] False by (auto simp: computes_def demand)
    qed
  qed
qed
section \<open>Bitwise operations\<close>

lemma pow_limbs: "int (BASE ^ n) = 2 ^ (64 * n)"
  by (simp add: BASE_power mult.commute)

lemma twos_complement_value:
  assumes "length (bv_limbs b) \<le> w" "twos_complement grants b w = Ok l"
  shows "length l = w" "int (magnitude l) = take_bit (64 * w) (bigint_int b)"
proof -
  let ?p = "bv_limbs b @ replicate (w - length (bv_limbs b)) 0"
  have l: "l = (if bv_negative b then add_one_in_place (map NOT ?p) else ?p)"
    using assms by (auto simp: twos_complement_def zeroed_limbs_def ensure_result_limbs_def Let_def outcome_simps split: if_splits)
  have len: "length ?p = w" using assms(1) by simp
  then show "length l = w" unfolding l by auto
  have m: "magnitude ?p = magnitude (bv_limbs b)" by (simp add: magnitude_append)
  have lt: "int (magnitude ?p) < 2 ^ (64 * w)" using magnitude_less [of ?p] pow_limbs [of w] len by (metis of_nat_less_iff)
  show "int (magnitude l) = take_bit (64 * w) (bigint_int b)"
  proof (cases "bv_negative b")
    case True
    then show ?thesis using magnitude_negate [of ?p] unfolding l len pow_limbs m by (simp add: bigint_int_def take_bit_eq_mod)
  next
    case False
    then have "l = ?p" unfolding l by simp
    then show ?thesis using False lt m by (simp add: bigint_int_def take_bit_eq_mod)
  qed
qed

lemma from_twos_complement_value:
  assumes "l \<noteq> []"
  shows "bigint_int (from_twos_complement l) = signed_take_bit (64 * length l - 1) (int (magnitude l))"
proof -
  let ?m = "magnitude l" and ?n = "64 * length l - 1"
  have suc: "Suc ?n = 64 * length l" using assms by (cases l) simp_all
  have lt: "int ?m < 2 ^ (64 * length l)" using magnitude_less [of l] pow_limbs [of "length l"] by (metis of_nat_less_iff)
  have pos: "?n div 64 = length l - 1" "?n mod 64 = 63" using assms by (cases l; simp)+
  have "drop_bit 63 (last l) \<noteq> 0 \<longleftrightarrow> bit (last l) 63"
  proof -
    have "bit (drop_bit 63 (last l)) 0 \<longleftrightarrow> bit (last l) 63" by (simp only: bit_drop_bit_eq comp_def) simp
    moreover have "\<not> bit (drop_bit 63 (last l)) n" if "0 < n" for n
      using that by (simp only: bit_drop_bit_eq comp_def) (auto dest: bit_imp_le_length)
    ultimately show ?thesis by (metis bit_0_eq bit_eqI bot_apply bot_bool_def gr0I)
  qed
  also have "\<dots> \<longleftrightarrow> bit (int ?m) ?n"
    unfolding bit_of_nat_iff_bit [where 'a = int] bit_magnitude pos using assms by (simp add: last_conv_nth)
  finally have neg: "drop_bit 63 (last l) \<noteq> 0 \<longleftrightarrow> bit (int ?m) ?n" .
  have stb: "signed_take_bit ?n (int ?m) = int ?m - 2 ^ (64 * length l) * of_bool (bit (int ?m) ?n)"
    unfolding signed_take_bit_eq_take_bit_minus suc using lt by (simp add: take_bit_eq_mod)
  show ?thesis
  proof (cases "bit (int ?m) ?n")
    case True
    then have "0 < ?m" by (cases "?m = 0") simp_all
    then have "- int ?m mod 2 ^ (64 * length l) = 2 ^ (64 * length l) - int ?m" using lt by (simp add: zmod_zminus1_eq_if)
    then show ?thesis using True neg assms magnitude_negate [of l] unfolding stb pow_limbs
      by (simp add: from_twos_complement_def Let_def)
  next
    case False
    then show ?thesis using neg assms unfolding stb by (simp add: from_twos_complement_def Let_def)
  qed
qed

lemma magnitude_map2:
  assumes "length xs = length ys" and "\<And>x y n. bit (f x y :: u64) n \<longleftrightarrow> g (bit x n) (bit y n)" and "\<not> g False False"
    and "\<And>x y n. bit (h x y :: nat) n \<longleftrightarrow> g (bit x n) (bit y n)"
  shows "magnitude (map2 f xs ys) = h (magnitude xs) (magnitude ys)"
proof (rule bit_eqI)
  fix n
  show "bit (magnitude (map2 f xs ys)) n \<longleftrightarrow> bit (h (magnitude xs) (magnitude ys)) n"
    unfolding assms(4) bit_magnitude using assms(1-3) by (cases "n div 64 < length xs") simp_all
qed

lemma in_signed_range:
  assumes "length (bv_limbs b) < w"
  shows "signed_take_bit (64 * w - 1) (bigint_int b) = bigint_int b"
proof -
  have "magnitude (bv_limbs b) < BASE ^ length (bv_limbs b)" by (rule magnitude_less)
  also have "\<dots> \<le> BASE ^ (w - 1)" using assms by (intro power_increasing) simp_all
  finally have "int (magnitude (bv_limbs b)) < 2 ^ (64 * (w - 1))" using pow_limbs by (metis of_nat_less_iff)
  also have "\<dots> \<le> 2 ^ (64 * w - 1)" by (intro power_increasing) simp_all
  finally have "int (magnitude (bv_limbs b)) < 2 ^ (64 * w - 1)" .
  then have "- (2 ^ (64 * w - 1)) \<le> bigint_int b" "bigint_int b < 2 ^ (64 * w - 1)"
    using abs_bigint_int [of b] by linarith+
  then show ?thesis by (rule signed_take_bit_int_eq_self)
qed

text \<open>The integer operation of a bitwise opcode.\<close>

definition bitwise_int :: "opcode \<Rightarrow> int \<Rightarrow> int \<Rightarrow> int" where
  "bitwise_int op x y = (if op = Op_BitwiseAnd then x AND y else if op = Op_BitwiseOr then x OR y else x XOR y)"

lemma signed_take_bit_bitwise:
  "signed_take_bit n (bitwise_int op x y) = bitwise_int op (signed_take_bit n x) (signed_take_bit n y)"
  by (rule bit_eqI) (simp add: bitwise_int_def bit_signed_take_bit_iff bit_and_iff bit_or_iff bit_xor_iff)

lemma bitwise_combined:
  assumes "op = Op_BitwiseAnd \<and> f = (AND) \<or> op = Op_BitwiseOr \<and> f = (OR) \<or> op = Op_BitwiseXor \<and> f = (XOR)"
    and "length xs = w" "length ys = w" "0 < w"
    and "int (magnitude xs) = take_bit (64 * w) x" "int (magnitude ys) = take_bit (64 * w) y"
    and "signed_take_bit (64 * w - 1) x = x" "signed_take_bit (64 * w - 1) y = y"
  shows "bigint_int (from_twos_complement (map2 f xs ys)) = bitwise_int op x y"
proof -
  have len: "length (map2 f xs ys) = w" "map2 f xs ys \<noteq> []" using assms(2-4) by auto
  have "int (magnitude (map2 f xs ys)) = take_bit (64 * w) (bitwise_int op x y)"
  proof -
    have "length xs = length ys" using assms(2,3) by simp
    note m = magnitude_map2 [OF this]
    have "magnitude (map2 (AND) xs ys) = magnitude xs AND magnitude ys" by (rule m [where g = "(\<and>)"]) (simp_all add: bit_and_iff)
    moreover have "magnitude (map2 (OR) xs ys) = magnitude xs OR magnitude ys" by (rule m [where g = "(\<or>)"]) (simp_all add: bit_or_iff)
    moreover have "magnitude (map2 (XOR) xs ys) = magnitude xs XOR magnitude ys" by (rule m [where g = "(\<noteq>)"]) (simp_all add: bit_xor_iff)
    ultimately show ?thesis using assms(1)
      by (elim disjE conjE) (auto simp: bitwise_int_def of_nat_and_eq of_nat_or_eq of_nat_xor_eq assms(5,6) opcode_eq_iff)
  qed
  then have "bigint_int (from_twos_complement (map2 f xs ys)) = signed_take_bit (64 * w - 1) (take_bit (64 * w) (bitwise_int op x y))"
    using from_twos_complement_value [OF len(2)] len(1) by simp
  also have "\<dots> = signed_take_bit (64 * w - 1) (bitwise_int op x y)" using assms(4) by (auto simp: signed_take_bit_take_bit)
  also have "\<dots> = bitwise_int op x y" unfolding signed_take_bit_bitwise using assms(7,8) by simp
  finally show ?thesis .
qed

lemma from_twos_complement_canonical [simp]: "canonical (from_twos_complement l)"
  by (simp add: from_twos_complement_def Let_def)

lemma bigint_bitwise_computes:
  assumes "op = Op_BitwiseAnd \<or> op = Op_BitwiseOr \<or> op = Op_BitwiseXor"
  shows "computes grants (max (length (bv_limbs a)) (length (bv_limbs b)) + 1) (bigint_bitwise grants a b op)
    (bitwise_int op (bigint_int a) (bigint_int b))"
proof -
  let ?w = "max (length (bv_limbs a)) (length (bv_limbs b)) + 1"
  define f :: "u64 \<Rightarrow> u64 \<Rightarrow> u64" where "f = (if op = Op_BitwiseAnd then (AND) else if op = Op_BitwiseOr then (OR) else (XOR))"
  have red: "bigint_bitwise grants a b op =
      and_then (ensure_result_limbs ?w) (\<lambda>_. and_then (twos_complement grants a ?w) (\<lambda>left.
      and_then (twos_complement grants b ?w) (\<lambda>right. and_then (zeroed_limbs grants ?w) (\<lambda>_. Ok (from_twos_complement (map2 f left right))))))"
    using assms by (auto simp: bigint_bitwise_def f_def Let_def)
  have val: "bigint_int (from_twos_complement (map2 f l r)) = bitwise_int op (bigint_int a) (bigint_int b)"
    if "twos_complement grants a ?w = Ok l" "twos_complement grants b ?w = Ok r" for l r
    using assms twos_complement_value [OF _ that(1)] twos_complement_value [OF _ that(2)] in_signed_range [of a ?w] in_signed_range [of b ?w]
    by (intro bitwise_combined [where w = ?w]) (auto simp: f_def)
  have tc: "(twos_complement grants x ?w = Err ResultTooLarge \<or> twos_complement grants x ?w = Err AllocationFailed) \<and> \<not> affordable grants ?w \<or>
      (\<exists>l. twos_complement grants x ?w = Ok l)" if "length (bv_limbs x) < ?w" for x
    using that by (simp add: twos_complement_def zeroed_limbs_def ensure_result_limbs_def reject_if_def affordable_def Let_def) blast
  consider "\<not> affordable grants ?w" "(\<exists>e. twos_complement grants a ?w = Err e \<and> (e = ResultTooLarge \<or> e = AllocationFailed)) \<or>
        (\<exists>l e. twos_complement grants a ?w = Ok l \<and> twos_complement grants b ?w = Err e \<and> (e = ResultTooLarge \<or> e = AllocationFailed))"
    | l r where "twos_complement grants a ?w = Ok l" "twos_complement grants b ?w = Ok r"
    using tc [of a] tc [of b] by fastforce
  then show ?thesis unfolding red
  proof (cases, goal_cases)
    case 1
    then show ?case by (intro computes_ensure order_refl) (auto simp: computes_def)
  next
    case (2 l r)
    then show ?case using val [OF 2] by (intro computes_ensure order_refl) (auto intro!: computes_zeroed computes_Ok)
  qed
qed

section \<open>Shifts\<close>

lemma bit_width_limb: "bit_width (unat (y :: u64)) \<le> 64"
proof (rule ccontr)
  assume wide: "\<not> bit_width (unat y) \<le> 64"
  then have "unat y \<noteq> 0" by (metis bit_width.simps zero_le)
  then have "2 ^ (bit_width (unat y) - 1) \<le> unat y" by (rule bit_width_bounds)
  moreover have "(2::nat) ^ 64 \<le> 2 ^ (bit_width (unat y) - 1)" using wide by (intro power_increasing) simp_all
  ultimately show False using limb_less [of y] unfolding BASE_def by linarith
qed

lemma bit_length_le: "bit_length b \<le> 64 * length (bv_limbs b)"
proof (cases "bv_limbs b" rule: rev_cases)
  case (snoc ys y)
  then show ?thesis using bit_width_limb [of y] by (simp add: bit_length_def magnitude_bit_length_def)
qed (simp add: bit_length_def magnitude_bit_length_def)

lemma shift_left_computes:
  "computes grants (length (bv_limbs b) + shift div 64 + 1) (shift_left_magnitude grants b shift) (bigint_int b * 2 ^ shift)"
proof (cases "bit_length b + shift > MAX_RESULT_BITS")
  case True
  then have "64 * length (bv_limbs b) + shift > 64 * div_ceil MAX_RESULT_BITS 64"
    using bit_length_le [of b] by (simp add: MAX_RESULT_BITS_def div_ceil_def)
  then have "length (bv_limbs b) + shift div 64 + 1 > div_ceil MAX_RESULT_BITS 64" by linarith
  then show ?thesis using True by (simp add: shift_left_magnitude_def computes_def affordable_def)
next
  case False
  let ?k = "shift mod 64" and ?w = "shift div 64"
  let ?n = "length (bv_limbs b) + ?w + (if ?k \<noteq> 0 then 1 else 0)"
  obtain l where l: "shift_left_loop ?w ?k 0 (bv_limbs b) (replicate ?n 0) = Ok l"
      "magnitude l = magnitude (replicate ?n 0) + BASE ^ (0 + ?w) * (magnitude (bv_limbs b) * 2 ^ ?k)"
    using shift_left_loop_value [of ?k 0 ?w "bv_limbs b" "replicate ?n 0"] by auto
  have "(2::nat) ^ shift = BASE ^ ?w * 2 ^ ?k" by (simp add: BASE_power flip: power_add)
  then have m: "magnitude l = magnitude (bv_limbs b) * 2 ^ shift" using l(2) by (simp only: magnitude_zeros add_0) (simp only: mult_ac)
  show ?thesis unfolding shift_left_magnitude_def if_not_P [OF False] Let_def
  proof (rule computes_zeroed)
    show "computes grants (length (bv_limbs b) + shift div 64 + 1) (and_then (shift_left_loop ?w ?k 0 (bv_limbs b) (replicate ?n 0))
        (\<lambda>l. Ok (from_owned_limbs (bv_negative b) l))) (bigint_int b * 2 ^ shift)"
      unfolding l(1) and_then.simps by (rule computes_owned) (simp add: m bigint_int_def)
  qed simp
qed

text \<open>
  Rounding a negative value towards minus infinity adds one to the retained limbs; when they are all ones
  the carry out of the high limb is lost.
\<close>

definition shift_right_wraps :: "bigint_value \<Rightarrow> nat \<Rightarrow> bool" where
  "shift_right_wraps b shift \<longleftrightarrow> bv_negative b \<and> shift < bit_length b \<and> magnitude (bv_limbs b) mod 2 ^ shift \<noteq> 0 \<and>
     magnitude (bv_limbs b) div 2 ^ shift + 1 = BASE ^ (length (bv_limbs b) - shift div 64)"

lemma floor_shift:
  "bigint_int b div 2 ^ shift = (if bv_negative b then - int (magnitude (bv_limbs b) div 2 ^ shift + (if magnitude (bv_limbs b) mod 2 ^ shift \<noteq> 0 then 1 else 0))
     else int (magnitude (bv_limbs b) div 2 ^ shift))"
proof -
  let ?m = "magnitude (bv_limbs b)"
  have q: "int ?m div 2 ^ shift = int (?m div 2 ^ shift)" "int ?m mod 2 ^ shift = int (?m mod 2 ^ shift)"
    by (simp_all only: zdiv_int zmod_int of_nat_power of_nat_numeral)
  show ?thesis
  proof (cases "bv_negative b")
    case True
    have "- int ?m div 2 ^ shift = (if int ?m mod 2 ^ shift = 0 then - (int ?m div 2 ^ shift) else - (int ?m div 2 ^ shift) - 1)"
      by (rule zdiv_zminus1_eq_if) simp
    then show ?thesis using True unfolding bigint_int_def q by simp
  qed (simp add: bigint_int_def q)
qed

lemma shift_right_computes:
  assumes "canonical b"
  shows "computes grants (length (bv_limbs b)) (shift_right_arithmetic grants b shift)
    (if shift_right_wraps b shift then 0 else bigint_int b div 2 ^ shift)"
proof (cases "shift \<ge> bit_length b")
  case True
  let ?m = "magnitude (bv_limbs b)"
  have "?m < 2 ^ bit_length b" unfolding bit_length_def by (rule magnitude_bit_length_less)
  also have "\<dots> \<le> 2 ^ shift" using True by (intro power_increasing) simp_all
  finally have "?m < 2 ^ shift" .
  moreover have "bv_negative b \<Longrightarrow> ?m \<noteq> 0" using assms trimmed_zero [of "bv_limbs b"] by (auto simp: canonical_def)
  ultimately have "bigint_int b div 2 ^ shift = (if bv_negative b then - 1 else 0)" unfolding floor_shift by simp
  then show ?thesis using True by (simp add: shift_right_arithmetic_def shift_right_wraps_def computes_Ok)
next
  case False
  let ?m = "magnitude (bv_limbs b)" and ?n = "length (bv_limbs b) - shift div 64"
  let ?l = "map (shift_right_limb (bv_limbs b) (shift div 64) (shift mod 64)) [0..<?n]"
  let ?carry = "bv_negative b \<and> discarded_bits_nonzero (bv_limbs b) shift"
  have "shift < 64 * length (bv_limbs b)" using False bit_length_le [of b] by linarith
  then have w: "shift div 64 \<le> length (bv_limbs b)" by linarith
  have l: "magnitude ?l = ?m div 2 ^ shift" by (rule shift_right_value [OF w])
  have lt: "?m div 2 ^ shift < BASE ^ ?n" using magnitude_less [of ?l] l by simp
  have wraps: "shift_right_wraps b shift \<longleftrightarrow> ?carry \<and> ?m div 2 ^ shift + 1 = BASE ^ ?n"
    using False by (simp add: shift_right_wraps_def discarded_bits_value)
  have m: "magnitude (if ?carry then add_one_in_place ?l else ?l) =
      (if shift_right_wraps b shift then 0 else ?m div 2 ^ shift + (if ?carry then 1 else 0))"
    using lt unfolding wraps by (auto simp: magnitude_add_one l simp del: One_nat_def add_Suc_right)
  have v: "(if shift_right_wraps b shift then 0 else bigint_int b div 2 ^ shift) =
      (if bv_negative b then - int (if shift_right_wraps b shift then 0 else ?m div 2 ^ shift + (if ?carry then 1 else 0))
       else int (if shift_right_wraps b shift then 0 else ?m div 2 ^ shift + (if ?carry then 1 else 0)))"
    unfolding floor_shift by (simp add: wraps discarded_bits_value)
  show ?thesis unfolding shift_right_arithmetic_def if_not_P [OF False] Let_def v
    by (rule computes_zeroed) (simp, rule computes_owned, simp only: m)
qed

text \<open>The integer a signed shift by \<open>k\<close> stands for: to the left for a positive count, to the right for a negative one.\<close>

definition shift_int :: "int \<Rightarrow> int \<Rightarrow> int" where
  "shift_int v k = (if 0 \<le> k then v * 2 ^ nat k else v div 2 ^ nat (- k))"

text \<open>A magnitude of at most \<open>2 ^ 58\<close> limbs, more than a 64-bit machine can address.\<close>

definition addressable :: "bigint_value \<Rightarrow> bool" where
  "addressable b \<longleftrightarrow> 64 * length (bv_limbs b) \<le> BASE"

lemma as_usize_value:
  assumes "canonical x"
  shows "as_usize_if_fits x = (if magnitude (bv_limbs x) < BASE then Some (magnitude (bv_limbs x)) else None)"
proof (cases "bv_limbs x")
  case (Cons y ys)
  show ?thesis
  proof (cases ys)
    case two: (Cons z zs)
    then have "BASE ^ 1 \<le> BASE ^ (length (bv_limbs x) - 1)" using Cons by (intro power_increasing) simp_all
    also have "\<dots> \<le> magnitude (bv_limbs x)" using trimmed_magnitude [OF canonical_limbs [OF assms]] Cons by simp
    finally have "BASE \<le> magnitude (bv_limbs x)" by simp
    then show ?thesis using Cons two by (simp add: as_usize_if_fits_def)
  qed (simp add: Cons as_usize_if_fits_def)
qed (simp add: as_usize_if_fits_def)

lemma shift_beyond:
  assumes "canonical b" "bit_length b \<le> shift"
  shows "bigint_int (from_i64 (if bv_negative b then - 1 else 0)) = bigint_int b div 2 ^ shift"
  using shift_right_computes [OF assms(1), of "\<lambda>_. True" shift] assms(2)
  by (auto simp: shift_right_arithmetic_def shift_right_wraps_def computes_def)

text \<open>The limbs of the shifted value; zero needs none.\<close>

definition shift_demand :: "bigint_value \<Rightarrow> int \<Rightarrow> nat" where
  "shift_demand b k = (if is_zero b then 0 else length (bv_limbs b) + nat k div 64 + 1)"

lemma bigint_shift_computes:
  fixes b count left
  defines "k \<equiv> (if left then bigint_int count else - bigint_int count)"
  assumes "canonical b" "canonical count" "addressable b"
  shows "computes grants (shift_demand b k) (bigint_shift grants b count left)
    (if k < 0 \<and> shift_right_wraps b (nat (- k)) then 0 else shift_int (bigint_int b) k)"
proof -
  let ?c = "magnitude (bv_limbs count)"
  consider "is_zero b \<or> is_zero count" | "\<not> is_zero b" "\<not> is_zero count" "left \<noteq> bv_negative count"
    | "\<not> is_zero b" "\<not> is_zero count" "left = bv_negative count" by blast
  then show ?thesis
  proof cases
    case 1
    then have z: "bigint_int b = 0 \<or> k = 0" using is_zero_iff assms by auto
    then have "shift_int (bigint_int b) k = bigint_int b" by (auto simp: shift_int_def)
    moreover have "\<not> (k < 0 \<and> shift_right_wraps b (nat (- k)))"
    proof
      assume "k < 0 \<and> shift_right_wraps b (nat (- k))"
      then have "bv_negative b" "bigint_int b = 0" using z by (auto simp: shift_right_wraps_def)
      then show False using negative_iff [OF assms(2)] by simp
    qed
    ultimately show ?thesis using 1 assms(2) by (auto simp: bigint_shift_def intro!: computes_Ok)
  next
    case 2
    then have k: "k = int ?c" by (auto simp: k_def bigint_int_def)
    show ?thesis
    proof (cases "?c \<le> MAX_RESULT_BITS")
      case True
      then have "?c < BASE" by (simp add: MAX_RESULT_BITS_def BASE_def)
      then have "bigint_shift grants b count left = shift_left_magnitude grants b ?c"
        using 2 True as_usize_value [OF assms(3)] by (simp add: bigint_shift_def as_bounded_usize_def)
      then show ?thesis using shift_left_computes [of grants b ?c] 2 by (simp add: k shift_int_def shift_demand_def)
    next
      case False
      then have "MAX_RESULT_BITS div 64 \<le> ?c div 64" by (intro div_le_mono) simp
      then have "\<not> affordable grants (length (bv_limbs b) + ?c div 64 + 1)" by (simp add: affordable_def MAX_RESULT_BITS_def div_ceil_def)
      moreover have "bigint_shift grants b count left = Err ResultTooLarge"
        using 2 False as_usize_value [OF assms(3)] by (auto simp: bigint_shift_def as_bounded_usize_def)
      ultimately show ?thesis using 2 by (simp add: k computes_def shift_demand_def)
    qed
  next
    case 3
    then have "k = - int ?c" by (auto simp: k_def bigint_int_def)
    moreover have "?c \<noteq> 0" using 3(2) trimmed_zero [OF canonical_limbs [OF assms(3)]] by (simp add: is_zero_def)
    ultimately have k: "k < 0" "nat (- k) = ?c" "nat k = 0" by simp_all
    show ?thesis
    proof (cases "?c < BASE")
      case True
      then have "bigint_shift grants b count left = shift_right_arithmetic grants b ?c"
        using 3 as_usize_value [OF assms(3)] by (simp add: bigint_shift_def)
      moreover have "computes grants (shift_demand b k) (shift_right_arithmetic grants b ?c)
          (if shift_right_wraps b ?c then 0 else bigint_int b div 2 ^ ?c)"
        using 3 by (intro computes_mono [OF shift_right_computes [OF assms(2)]]) (simp add: shift_demand_def)
      ultimately show ?thesis using k by (simp add: shift_int_def split: if_splits)
    next
      case False
      then have far: "bit_length b \<le> ?c" using bit_length_le [of b] assms(4) unfolding addressable_def by linarith
      have "bigint_shift grants b count left = Ok (from_i64 (if bv_negative b then - 1 else 0))"
        using 3 False as_usize_value [OF assms(3)] by (simp add: bigint_shift_def)
      then show ?thesis using shift_beyond [OF assms(2) far] k far
        by (simp add: shift_int_def shift_right_wraps_def computes_Ok)
    qed
  qed
qed

section \<open>Truncation\<close>

lemma bit_test: "x AND push_bit k 1 \<noteq> 0 \<longleftrightarrow> bit (x :: u64) k"
  by (simp add: and_exp_eq_0_iff_not_bit)

lemma mask_high_limb:
  assumes "length xs = (bits + 63) div 64" "bits mod 64 \<noteq> 0"
  shows "magnitude (xs[(bits + 63) div 64 - 1 := xs ! ((bits + 63) div 64 - 1) AND (push_bit (bits mod 64) 1 - 1)]) = take_bit bits (magnitude xs)"
proof (rule bit_eqI)
  fix n
  let ?i = "(bits + 63) div 64 - 1"
  have "(bits + 63) div 64 = bits div 64 + 1"
  proof (rule div_nat_eqI)
    have "64 * (bits div 64) + bits mod 64 = bits" "bits mod 64 < 64" by simp_all
    then show "64 * (bits div 64 + 1) \<le> bits + 63" and "bits + 63 < 64 * Suc (bits div 64 + 1)" using assms(2) by (simp_all, linarith+)
  qed
  then have i: "?i = bits div 64" and len: "length xs = bits div 64 + 1" using assms by simp_all
  have "push_bit (bits mod 64) 1 - 1 = (mask (bits mod 64) :: u64)" by (simp add: mask_eq_exp_minus_1)
  moreover have "n < bits \<longleftrightarrow> n div 64 < bits div 64 \<or> n div 64 = bits div 64 \<and> n mod 64 < bits mod 64"
  proof -
    have "64 * (n div 64) + n mod 64 = n" "n mod 64 < 64" "64 * (bits div 64) + bits mod 64 = bits" "bits mod 64 < 64" by simp_all
    then show ?thesis by (cases "n div 64" "bits div 64" rule: linorder_cases) linarith+
  qed
  ultimately show "bit (magnitude (xs[?i := xs ! ?i AND (push_bit (bits mod 64) 1 - 1)])) n \<longleftrightarrow> bit (take_bit bits (magnitude xs)) n"
    unfolding bit_magnitude bit_take_bit_iff i using len
    by (auto simp: nth_list_update bit_and_iff bit_mask_iff dest: bit_imp_le_length)
qed

lemma low_limbs:
  "magnitude (take (min (length xs) n) xs @ replicate (n - min (length xs) n) 0) = take_bit (64 * n) (magnitude xs)"
proof -
  have "magnitude (take n xs) = take_bit (64 * n) (magnitude xs)"
  proof (rule bit_eqI)
    fix k
    have "k div 64 < n \<longleftrightarrow> k < 64 * n" by (simp add: less_mult_imp_div_less div_less_iff_less_mult mult.commute)
    then show "bit (magnitude (take n xs)) k \<longleftrightarrow> bit (take_bit (64 * n) (magnitude xs)) k"
      unfolding bit_magnitude bit_take_bit_iff by auto
  qed
  then show ?thesis by (cases "length xs \<le> n") (simp_all add: magnitude_append)
qed

text \<open>The value modulo \<open>2 ^ bits\<close>, in limbs.\<close>

lemma residue_value:
  fixes b bits
  defines "n \<equiv> (bits + 63) div 64"
  defines "padded \<equiv> take (min (length (bv_limbs b)) n) (bv_limbs b) @ replicate (n - min (length (bv_limbs b)) n) 0"
  defines "wide \<equiv> (if bv_negative b then add_one_in_place (map NOT padded) else padded)"
  defines "residue \<equiv> (if bits mod 64 \<noteq> 0 then wide[n - 1 := wide ! (n - 1) AND (push_bit (bits mod 64) 1 - 1)] else wide)"
  shows "length residue = n" "int (magnitude residue) = take_bit bits (bigint_int b)"
proof -
  have len: "length padded = n" "length wide = n" by (auto simp: padded_def wide_def)
  then show "length residue = n" by (simp add: residue_def)
  have le: "bits \<le> 64 * n" unfolding n_def by linarith
  have pad: "int (magnitude padded) = take_bit (64 * n) (int (magnitude (bv_limbs b)))"
    unfolding padded_def low_limbs by (simp add: of_nat_take_bit)
  have w: "int (magnitude wide) = take_bit (64 * n) (bigint_int b)"
  proof (cases "bv_negative b")
    case True
    have "int (magnitude wide) = take_bit (64 * n) (- take_bit (64 * n) (int (magnitude (bv_limbs b))))"
      using True magnitude_negate [of padded] unfolding wide_def len(1) pow_limbs pad by (simp only: if_True take_bit_eq_mod)
    then show ?thesis using True by (simp add: bigint_int_def take_bit_minus)
  next
    case False
    then have "wide = padded" by (simp add: wide_def)
    then show ?thesis using False pad by (simp add: bigint_int_def)
  qed
  have "int (magnitude residue) = take_bit bits (int (magnitude wide))"
  proof (cases "bits mod 64 = 0")
    case True
    then have "residue = wide" by (simp add: residue_def)
    moreover have "64 * n = bits" using True unfolding n_def by auto
    ultimately show ?thesis using w by (simp add: take_bit_take_bit)
  next
    case False
    then have "magnitude residue = take_bit bits (magnitude wide)"
      using mask_high_limb [OF len(2) [unfolded n_def] False] by (simp only: residue_def n_def if_True not_False_eq_True)
    then show ?thesis by (simp add: of_nat_take_bit)
  qed
  then show "int (magnitude residue) = take_bit bits (bigint_int b)" unfolding w take_bit_take_bit using le by (simp add: min_def)
qed

lemma truncate_computes:
  assumes "0 < bits"
  shows "computes grants ((bits + 63) div 64 + 1) (truncate_to_bits grants b bits signed_result)
    (if signed_result then signed_take_bit (bits - 1) (bigint_int b) else take_bit bits (bigint_int b))"
proof -
  let ?n = "(bits + 63) div 64"
  let ?padded = "take (min (length (bv_limbs b)) ?n) (bv_limbs b) @ replicate (?n - min (length (bv_limbs b)) ?n) 0"
  let ?wide = "if bv_negative b then add_one_in_place (map NOT ?padded) else ?padded"
  define residue where "residue = (if bits mod 64 \<noteq> 0 then ?wide[?n - 1 := ?wide ! (?n - 1) AND (push_bit (bits mod 64) 1 - 1)] else ?wide)"
  have r: "length residue = ?n" "int (magnitude residue) = take_bit bits (bigint_int b)"
    unfolding residue_def using residue_value [where b = b and bits = bits] by blast+
  have top: "bits div 64 < ?n + 1" "(bits - 1) div 64 < ?n" using assms by linarith+
  have sign: "residue ! ((bits - 1) div 64) AND push_bit ((bits - 1) mod 64) 1 \<noteq> 0 \<longleftrightarrow> bit (bigint_int b) (bits - 1)"
  proof -
    have "residue ! ((bits - 1) div 64) AND push_bit ((bits - 1) mod 64) 1 \<noteq> 0 \<longleftrightarrow> bit (magnitude residue) (bits - 1)"
      unfolding bit_test bit_magnitude r(1) using top by simp
    also have "\<dots> \<longleftrightarrow> bit (int (magnitude residue)) (bits - 1)" by (simp only: bit_of_nat_iff_bit)
    finally show ?thesis unfolding r(2) bit_take_bit_iff using assms by simp
  qed
  have stb: "signed_take_bit (bits - 1) (bigint_int b) = take_bit bits (bigint_int b) - 2 ^ bits * of_bool (bit (bigint_int b) (bits - 1))"
    using assms by (simp add: signed_take_bit_eq_take_bit_minus)
  have lt: "int (magnitude residue) < 2 ^ bits" unfolding r(2) by simp
  let ?m = "(replicate (?n + 1) 0)[bits div 64 := push_bit (bits mod 64) 1] :: limbs"
  have m: "magnitude ?m = 2 ^ bits" using magnitude_set_bit [of bits "replicate (?n + 1) 0"] top(1) by (simp del: replicate_Suc replicate.simps)
  have sub: "magnitude (subtract_loop residue ?m 0 0) = 2 ^ bits - magnitude residue"
  proof -
    have "length residue \<le> length ?m" by (simp only: r(1) length_list_update length_replicate le_add1)
    moreover have "magnitude residue \<le> magnitude ?m" using lt unfolding m by simp
    ultimately show ?thesis unfolding m [symmetric] by (rule subtract_value)
  qed
  have "computes grants (?n + 1) (if \<not> (signed_result \<and> bit (bigint_int b) (bits - 1)) then Ok (from_owned_limbs False residue)
       else and_then (zeroed_limbs grants (?n + 1)) (\<lambda>zeros.
            and_then (subtract_magnitudes grants (zeros[bits div 64 := push_bit (bits mod 64) 1]) residue) (\<lambda>l. Ok (from_owned_limbs True l))))
     (if signed_result then signed_take_bit (bits - 1) (bigint_int b) else take_bit bits (bigint_int b))"
  proof (cases "signed_result \<and> bit (bigint_int b) (bits - 1)")
    case True
    have "computes grants (?n + 1) (Ok (from_owned_limbs True (subtract_loop residue ?m 0 0))) (signed_take_bit (bits - 1) (bigint_int b))"
    proof (rule computes_owned)
      have "- int (2 ^ bits - magnitude residue) = int (magnitude residue) - 2 ^ bits" using lt by (simp add: of_nat_diff)
      then show "(if True then - int (magnitude (subtract_loop residue ?m 0 0)) else int (magnitude (subtract_loop residue ?m 0 0))) =
          signed_take_bit (bits - 1) (bigint_int b)" using True unfolding sub stb r(2) [symmetric] by (simp only: if_True) simp
    qed
    then have "computes grants (?n + 1) (and_then (zeroed_limbs grants (?n + 1)) (\<lambda>zeros.
        and_then (subtract_magnitudes grants (zeros[bits div 64 := push_bit (bits mod 64) 1]) residue) (\<lambda>l. Ok (from_owned_limbs True l))))
        (signed_take_bit (bits - 1) (bigint_int b))"
      unfolding subtract_magnitudes_def and_then_assoc by (intro computes_zeroed) (simp_all del: replicate.simps)
    then show ?thesis using True by (simp only: simp_thms if_True if_False)
  next
    case False
    then show ?thesis unfolding if_P [OF False] by (intro computes_owned) (auto simp: r(2) stb [simplified])
  qed
  then show ?thesis
    unfolding truncate_to_bits_def Let_def if_not_P [OF assms [THEN less_imp_neq, THEN not_sym]]
    by (intro computes_ensure computes_zeroed) (simp_all only: drop_replicate residue_def [symmetric] sign le_add1 not_not)
qed

section \<open>The contract of a binary operation\<close>

text \<open>
  An operation \<open>f\<close> on values that computes the operation \<open>g\<close> of the integers in \<open>demand\<close> limbs. Algebraic laws
  of \<open>g\<close> are laws of \<open>f\<close>, because a canonical value is determined by its integer.
\<close>

locale exact_operation =
  fixes f :: "(nat \<Rightarrow> bool) \<Rightarrow> bigint_value \<Rightarrow> bigint_value \<Rightarrow> bigint_value arithmetic"
    and g :: "int \<Rightarrow> int \<Rightarrow> int"
    and demand :: "bigint_value \<Rightarrow> bigint_value \<Rightarrow> nat"
  assumes exact: "canonical a \<Longrightarrow> canonical b \<Longrightarrow> computes grants (demand a b) (f grants a b) (g (bigint_int a) (bigint_int b))"
begin

lemma ok_exact:
  assumes "canonical a" "canonical b" "f grants a b = Ok r"
  shows "canonical r" "bigint_int r = g (bigint_int a) (bigint_int b)"
  using exact [OF assms(1,2), of grants] assms(3) by (auto simp: computes_def)

lemma ok_when_affordable:
  assumes "canonical a" "canonical b" "affordable grants (demand a b)"
  obtains r where "f grants a b = Ok r" "canonical r" "bigint_int r = g (bigint_int a) (bigint_int b)"
  using exact [OF assms(1,2), of grants] assms(3) by (auto simp: computes_def)

lemma same_integer:
  assumes "canonical a" "canonical b" "canonical r" "affordable grants (demand a b)" "bigint_int r = g (bigint_int a) (bigint_int b)"
  shows "f grants a b = Ok r"
  using ok_when_affordable [OF assms(1,2,4)] canonical_inject [OF _ assms(3)] assms(5) by metis

lemma commutes:
  assumes "\<And>x y. g x y = g y x" "canonical a" "canonical b" "f grants a b = Ok r" "f grants' b a = Ok s"
  shows "r = s"
  using ok_exact [OF assms(2,3,4)] ok_exact [OF assms(3,2,5)] assms(1) canonical_inject by metis

lemma associates:
  assumes "\<And>x y z. g (g x y) z = g x (g y z)" "canonical a" "canonical b" "canonical c"
    and "f grants a b = Ok ab" "f grants ab c = Ok r" "f grants b c = Ok bc" "f grants a bc = Ok s"
  shows "r = s"
proof -
  note ab = ok_exact [OF assms(2,3,5)] and bc = ok_exact [OF assms(3,4,7)]
  have "bigint_int r = bigint_int s" using ok_exact [OF ab(1) assms(4,6)] ok_exact [OF assms(2) bc(1) assms(8)] ab bc assms(1) by simp
  then show ?thesis using ok_exact [OF ab(1) assms(4,6)] ok_exact [OF assms(2) bc(1) assms(8)] canonical_inject by blast
qed

end

definition sum_demand :: "bigint_value \<Rightarrow> bigint_value \<Rightarrow> nat" where
  "sum_demand a b = max (length (bv_limbs a)) (length (bv_limbs b)) + 1"

definition product_demand :: "bigint_value \<Rightarrow> bigint_value \<Rightarrow> nat" where
  "product_demand a b = length (bv_limbs a) + length (bv_limbs b)"

interpretation add: exact_operation bigint_add "(+)" sum_demand
  by unfold_locales (simp add: sum_demand_def bigint_add_computes [simplified])

interpretation subtract: exact_operation bigint_subtract "(-)" sum_demand
  by unfold_locales (simp add: sum_demand_def bigint_subtract_computes [simplified])

interpretation multiply: exact_operation bigint_multiply "(*)" product_demand
  by unfold_locales (simp add: product_demand_def bigint_multiply_computes)

interpretation bitwise_and: exact_operation "\<lambda>grants a b. bigint_bitwise grants a b Op_BitwiseAnd" "bitwise_int Op_BitwiseAnd" sum_demand
  by unfold_locales (simp add: sum_demand_def bigint_bitwise_computes [simplified])

interpretation bitwise_or: exact_operation "\<lambda>grants a b. bigint_bitwise grants a b Op_BitwiseOr" "bitwise_int Op_BitwiseOr" sum_demand
  by unfold_locales (simp add: sum_demand_def bigint_bitwise_computes [simplified])

interpretation bitwise_xor: exact_operation "\<lambda>grants a b. bigint_bitwise grants a b Op_BitwiseXor" "bitwise_int Op_BitwiseXor" sum_demand
  by unfold_locales (simp add: sum_demand_def bigint_bitwise_computes [simplified])

section \<open>The specification of the operators\<close>

definition binary_spec :: "opcode \<Rightarrow> int \<Rightarrow> int \<Rightarrow> (bigint_operation_error, int) outcome" where
  "binary_spec op x y =
     (if op = Op_ShiftRightUnsigned then Err BigIntUnsignedRightShift
      else if op = Op_Add then Ok (x + y)
      else if op = Op_Sub then Ok (x - y)
      else if op = Op_Mul then Ok (x * y)
      else if op = Op_Div then (if y = 0 then Err (Arithmetic DivisionByZero) else Ok (x sdiv y))
      else if op = Op_Remainder then (if y = 0 then Err (Arithmetic DivisionByZero) else Ok (x smod y))
      else if op = Op_Exponentiate then (if y < 0 then Err (Arithmetic NegativeExponent) else Ok (x ^ nat y))
      else if op = Op_BitwiseAnd \<or> op = Op_BitwiseOr \<or> op = Op_BitwiseXor then Ok (bitwise_int op x y)
      else if op = Op_ShiftLeft then Ok (shift_int x y)
      else Ok (shift_int x (- y)))"

definition bigint_binary_opcodes :: "opcode list" where
  "bigint_binary_opcodes = [Op_Add, Op_Sub, Op_Mul, Op_Div, Op_Remainder, Op_Exponentiate, Op_BitwiseAnd, Op_BitwiseOr,
     Op_BitwiseXor, Op_ShiftLeft, Op_ShiftRight, Op_ShiftRightUnsigned]"

text \<open>The limbs an operation asks for at most.\<close>

definition binary_demand :: "opcode \<Rightarrow> bigint_value \<Rightarrow> bigint_value \<Rightarrow> nat" where
  "binary_demand op a b =
     (if op = Op_Mul then length (bv_limbs a) + length (bv_limbs b)
      else if op = Op_Div \<or> op = Op_Remainder then length (bv_limbs a) + 1
      else if op = Op_Exponentiate then exponent_demand a b
      else if op = Op_ShiftLeft then shift_demand a (bigint_int b)
      else if op = Op_ShiftRight then shift_demand a (- bigint_int b)
      else max (length (bv_limbs a)) (length (bv_limbs b)) + 1)"

text \<open>The right shift that loses its rounding carry.\<close>

definition carry_lost :: "opcode \<Rightarrow> bigint_value \<Rightarrow> bigint_value \<Rightarrow> bool" where
  "carry_lost op a b \<longleftrightarrow>
     (op = Op_ShiftRight \<and> 0 < bigint_int b \<or> op = Op_ShiftLeft \<and> bigint_int b < 0) \<and>
     shift_right_wraps a (nat \<bar>bigint_int b\<bar>)"

text \<open>A result agrees with the specification, or it reports that the result cannot be stored.\<close>

definition meets ::
  "(nat \<Rightarrow> bool) \<Rightarrow> nat \<Rightarrow> (bigint_operation_error, bigint_value) outcome \<Rightarrow> (bigint_operation_error, int) outcome \<Rightarrow> bool" where
  "meets grants n m spec \<longleftrightarrow>
     (case spec of
        Ok v \<Rightarrow> (\<exists>r. m = Ok r \<and> canonical r \<and> bigint_int r = v) \<or>
               (m = Err (Arithmetic ResultTooLarge) \<or> m = Err (Arithmetic AllocationFailed)) \<and> \<not> affordable grants n
      | Err e \<Rightarrow> m = Err e
      | Panic \<Rightarrow> False)"

lemma computes_meets: "computes grants n m v \<Longrightarrow> meets grants n (map_err Arithmetic m) (Ok v)"
  by (auto simp: computes_def meets_def)

lemmas operator_simps = binary_spec_def bigint_binary_operation_def binary_demand_def opcode_eq_iff

lemma divide_meets:
  assumes "canonical a" "canonical b"
  shows "meets grants (length (bv_limbs a) + 1) (map_err Arithmetic (divide_or_remainder grants a b remainder))
    (if bigint_int b = 0 then Err (Arithmetic DivisionByZero)
     else Ok (if remainder then bigint_int a smod bigint_int b else bigint_int a sdiv bigint_int b))"
  using computes_meets [OF divide_or_remainder_computes [OF assms, of grants remainder]] is_zero_iff [OF assms(2)]
  by (cases "is_zero b") (simp_all add: divide_or_remainder_def meets_def)

lemma exponent_meets:
  assumes "canonical a" "canonical b"
  shows "meets grants (exponent_demand a b) (map_err Arithmetic (bigint_exponentiate grants a b))
    (if bigint_int b < 0 then Err (Arithmetic NegativeExponent) else Ok (bigint_int a ^ nat (bigint_int b)))"
  using computes_meets [OF bigint_exponentiate_computes [OF assms, of grants]] negative_iff [OF assms(2)]
  by (cases "bv_negative b") (simp_all add: bigint_exponentiate_def meets_def)

lemma shift_meets:
  assumes "canonical a" "canonical b" "addressable a" "k = (if left then bigint_int b else - bigint_int b)"
    and "\<not> (k < 0 \<and> shift_right_wraps a (nat (- k)))"
  shows "meets grants (shift_demand a k) (map_err Arithmetic (bigint_shift grants a b left)) (Ok (shift_int (bigint_int a) k))"
  using computes_meets [OF bigint_shift_computes [OF assms(1-3), of grants left]] assms(4,5) by (auto split: if_splits)

lemma bigint_operators_meet:
  assumes "canonical a" "canonical b" "addressable a" "op \<in> set bigint_binary_opcodes" "\<not> carry_lost op a b"
  shows "meets grants (binary_demand op a b) (bigint_binary_operation grants op a b) (binary_spec op (bigint_int a) (bigint_int b))"
proof -
  note c = assms(1,2) and arith = computes_meets [OF bigint_add_computes [OF assms(1,2)]]
    computes_meets [OF bigint_subtract_computes [OF assms(1,2)]] computes_meets [OF bigint_multiply_computes [OF assms(1,2)]]
  consider "op = Op_Add" | "op = Op_Sub" | "op = Op_Mul" | "op = Op_Div" | "op = Op_Remainder" | "op = Op_Exponentiate"
    | "op = Op_BitwiseAnd \<or> op = Op_BitwiseOr \<or> op = Op_BitwiseXor" | "op = Op_ShiftLeft" | "op = Op_ShiftRight" | "op = Op_ShiftRightUnsigned"
    using assms(4) by (auto simp: bigint_binary_opcodes_def)
  then show ?thesis
  proof cases
    case 1 then show ?thesis using arith(1) by (simp add: operator_simps)
  next
    case 2 then show ?thesis using arith(2) by (simp add: operator_simps)
  next
    case 3 then show ?thesis using arith(3) by (simp add: operator_simps)
  next
    case 4 then show ?thesis using divide_meets [OF c, of grants False] by (simp add: operator_simps split: if_splits)
  next
    case 5 then show ?thesis using divide_meets [OF c, of grants True] by (simp add: operator_simps split: if_splits)
  next
    case 6 then show ?thesis using exponent_meets [OF c, of grants] by (simp add: operator_simps split: if_splits)
  next
    case 7 then show ?thesis using computes_meets [OF bigint_bitwise_computes [OF 7, of grants a b]] by (elim disjE; hypsubst; simp add: operator_simps)
  next
    case 8 then show ?thesis using shift_meets [OF c assms(3), of _ True] assms(5) by (simp add: operator_simps carry_lost_def)
  next
    case 9 then show ?thesis using shift_meets [OF c assms(3), of _ False] assms(5) by (simp add: operator_simps carry_lost_def)
  next
    case 10 then show ?thesis by (simp add: operator_simps meets_def)
  qed
qed






end
