(* ===== verification/BigInt_Text.thy ===== *)
theory BigInt_Text
  imports BigInt
begin

text \<open>
  The text of a BigInt (\<open>crates/tachyon-vm/src/bigint.rs\<close>): decimal literals, \<open>StringIntegerLiteral\<close>, decimal
  output in chunks of nine digits and output in a radix from 2 to 36. A text is a list of bytes or of
  UTF-16 code units. The answer of the allocator to a request for that many bytes is the parameter
  \<open>reserves\<close>.

  The loop that splits off remainders ends only for a divisor above one, so it is a partial function; it is
  shown to return for every divisor the engine uses.
\<close>

unbundle bit_operations_syntax

datatype bigint_build_error = InvalidDecimal | BuildAllocationFailed

type_synonym bytes = "u8 list"

definition DECIMAL_CHUNK_BASE :: nat where "DECIMAL_CHUNK_BASE = 1000000000"
definition DECIMAL_CHUNK_DIGITS :: nat where "DECIMAL_CHUNK_DIGITS = 9"

definition is_ascii_digit :: "u8 \<Rightarrow> bool" where
  "is_ascii_digit b \<longleftrightarrow> 48 \<le> b \<and> b \<le> 57"

section \<open>Parsing\<close>

definition from_decimal :: "(nat \<Rightarrow> bool) \<Rightarrow> bytes \<Rightarrow> (bigint_build_error, bigint_value) outcome" where
  "from_decimal reserves text =
     (let (neg, digits) = (case text of c # rest \<Rightarrow> if c = 45 then (True, rest) else (False, text) | [] \<Rightarrow> (False, text)) in
      if digits = [] \<or> \<not> list_all is_ascii_digit digits then Err InvalidDecimal
      else let significant = dropWhile (\<lambda>b. b = 48) digits in
        if significant = [] then Ok \<lparr>bv_negative = False, bv_limbs = []\<rparr>
        else let estimated_limbs = max ((length significant * 3322 + 63999) div 64000) 1 in
          if \<not> reserves (8 * estimated_limbs) then Err BuildAllocationFailed
          else Ok \<lparr>bv_negative = neg, bv_limbs = foldl (\<lambda>limbs digit. push_digit 10 limbs (ucast (digit - 48))) [0] significant\<rparr>)"

definition ascii_radix_digit :: "u16 \<Rightarrow> u32 \<Rightarrow> u32 option" where
  "ascii_radix_digit unit radix =
     (let digit = (if 48 \<le> unit \<and> unit \<le> 57 then Some (ucast (unit - 48))
                   else if 97 \<le> unit \<and> unit \<le> 102 then Some (ucast (unit - 97) + 10)
                   else if 65 \<le> unit \<and> unit \<le> 70 then Some (ucast (unit - 65) + 10)
                   else None)
      in case digit of None \<Rightarrow> None | Some d \<Rightarrow> if d < radix then Some d else None)"

fun radix_digits_loop :: "u32 \<Rightarrow> u16 list \<Rightarrow> limbs \<Rightarrow> (bigint_build_error, limbs) outcome" where
  "radix_digits_loop radix [] limbs = Ok limbs"
| "radix_digits_loop radix (unit # units) limbs =
     and_then (ok_or InvalidDecimal (ascii_radix_digit unit radix)) (\<lambda>digit.
     radix_digits_loop radix units (push_digit (ucast radix) limbs (ucast digit)))"

definition from_radix_digits ::
  "(nat \<Rightarrow> bool) \<Rightarrow> u16 list \<Rightarrow> u32 \<Rightarrow> bool \<Rightarrow> (bigint_build_error, bigint_value) outcome" where
  "from_radix_digits reserves digits radix neg =
     (if digits = [] then Err InvalidDecimal
      else
        and_then (ok_or InvalidDecimal
          (if radix = 2 then Some 1 else if radix = 8 then Some 3 else if radix = 10 then Some 4 else if radix = 16 then Some 4 else None))
        (\<lambda>bits_per_digit :: nat.
        let estimated_limbs = max ((length digits * bits_per_digit + 63) div 64) 1 in
        if \<not> reserves (8 * estimated_limbs) then Err BuildAllocationFailed
        else and_then (radix_digits_loop radix digits [0]) (\<lambda>limbs.
          let limbs = trim_limbs limbs in Ok \<lparr>bv_negative = neg \<and> limbs \<noteq> [], bv_limbs = limbs\<rparr>)))"

definition is_ecmascript_whitespace :: "u16 \<Rightarrow> bool" where
  "is_ecmascript_whitespace unit \<longleftrightarrow>
     unit \<in> {0x0009, 0x000a, 0x000b, 0x000c, 0x000d, 0x0020, 0x00a0, 0x1680} \<or> 0x2000 \<le> unit \<and> unit \<le> 0x200a \<or>
     unit \<in> {0x2028, 0x2029, 0x202f, 0x205f, 0x3000, 0xfeff}"

definition trim_whitespace :: "u16 list \<Rightarrow> u16 list" where
  "trim_whitespace units = rev (dropWhile is_ecmascript_whitespace (rev (dropWhile is_ecmascript_whitespace units)))"

definition parse_string_integer_literal ::
  "(nat \<Rightarrow> bool) \<Rightarrow> u16 list \<Rightarrow> (bigint_build_error, bigint_value) outcome" where
  "parse_string_integer_literal reserves units =
     (let text = trim_whitespace units in
      if text = [] then Ok (from_u64 0)
      else let (neg, unsigned) = (if hd text = 43 then (False, tl text) else if hd text = 45 then (True, tl text) else (False, text)) in
        if unsigned = [] then Err InvalidDecimal
        else let (radix, digits) =
            (if \<not> neg \<and> length unsigned \<ge> 2 \<and> hd unsigned = 48
             then let unit = unsigned ! 1 in
               if unit = 98 \<or> unit = 66 then (2, drop 2 unsigned)
               else if unit = 111 \<or> unit = 79 then (8, drop 2 unsigned)
               else if unit = 120 \<or> unit = 88 then (16, drop 2 unsigned)
               else (10, unsigned)
             else (10, unsigned))
          in if radix \<noteq> 10 \<and> hd text = 43 then Err InvalidDecimal
             else from_radix_digits reserves digits radix neg)"

section \<open>Output\<close>

text \<open>Division of the scratch limbs by a small divisor until they are used up: the remainders, low first.\<close>

partial_function (option) remainders :: "u128 \<Rightarrow> limbs \<Rightarrow> u128 list option" where
  "remainders divisor scratch =
     (if scratch = [] then Some []
      else case divide_loop divisor scratch of (quo, remainder) \<Rightarrow>
        Option.bind (remainders divisor (trim_limbs quo)) (\<lambda>rest. Some (remainder # rest)))"

text \<open>The digit loop of the two decimal writers: digits are stored from the end of a buffer of zeros.\<close>

fun write_digits :: "nat \<Rightarrow> bytes \<Rightarrow> 'a::len word \<Rightarrow> ('e, nat \<times> bytes) outcome" where
  "write_digits cursor digits chunk =
     (if cursor = 0 then Panic
      else let digits = digits[cursor - 1 := 48 + ucast (chunk mod 10)]
           in if chunk div 10 = 0 then Ok (cursor - 1, digits) else write_digits (cursor - 1) digits (chunk div 10))"

declare write_digits.simps [simp del]

definition append_decimal_chunk :: "bytes \<Rightarrow> u32 \<Rightarrow> bool \<Rightarrow> ('e, bytes) outcome" where
  "append_decimal_chunk output chunk padded =
     and_then (write_digits DECIMAL_CHUNK_DIGITS (replicate DECIMAL_CHUNK_DIGITS 48) chunk) (\<lambda>(cursor, digits).
     Ok (output @ (if padded then digits else drop cursor digits)))"

fun append_chunks :: "u32 list \<Rightarrow> bytes \<Rightarrow> ('e, bytes) outcome" where
  "append_chunks [] output = Ok output"
| "append_chunks (chunk # chunks) output = and_then (append_decimal_chunk output chunk True) (append_chunks chunks)"

definition decimal_bytes :: "(nat \<Rightarrow> bool) \<Rightarrow> bigint_value \<Rightarrow> (bigint_build_error, bytes) outcome option" where
  "decimal_bytes reserves b =
     (if bv_limbs b = [] then Some (Ok [48])
      else if \<not> reserves (8 * length (bv_limbs b)) then Some (Err BuildAllocationFailed)
      else if \<not> reserves (4 * div_ceil (length (bv_limbs b) * 20) DECIMAL_CHUNK_DIGITS) then Some (Err BuildAllocationFailed)
      else Option.bind (remainders (of_nat DECIMAL_CHUNK_BASE) (bv_limbs b)) (\<lambda>rests.
        let chunks = map ucast rests :: u32 list in
        if \<not> reserves (length chunks * DECIMAL_CHUNK_DIGITS + (if bv_negative b then 1 else 0)) then Some (Err BuildAllocationFailed)
        else if chunks = [] then Some Panic
        else Some (and_then (append_decimal_chunk (if bv_negative b then [45] else []) (last chunks) False)
               (append_chunks (rev (butlast chunks))))))"

definition decimal_i64_bytes :: "i64 \<Rightarrow> ('e, bytes) outcome" where
  "decimal_i64_bytes v =
     and_then (write_digits 20 (replicate 20 48) (unsigned_abs v)) (\<lambda>(cursor, digits).
     if i64_is_negative v
     then if cursor = 0 then Panic else Ok (drop (cursor - 1) (digits[cursor - 1 := 45]))
     else Ok (drop cursor digits))"

definition ilog2 :: "u8 \<Rightarrow> nat" where
  "ilog2 x = bit_width (unat x) - 1"

definition radix_byte :: "u128 \<Rightarrow> u8" where
  "radix_byte remainder = (let digit = ucast remainder :: u8 in if digit < 10 then 48 + digit else 97 + digit - 10)"

definition radix_bytes :: "(nat \<Rightarrow> bool) \<Rightarrow> bigint_value \<Rightarrow> u8 \<Rightarrow> (bigint_build_error, bytes) outcome option" where
  "radix_bytes reserves b radix =
     (if is_zero b then Some (Ok [48])
      else if \<not> reserves (bit_length b + ilog2 radix) then Some (Err BuildAllocationFailed)
      else Option.bind (remainders (ucast radix) (bv_limbs b)) (\<lambda>rests.
        Some (Ok (rev (map radix_byte rests @ (if bv_negative b then [45] else []))))))"

section \<open>Remainders\<close>

lemma divide_loop_small:
  assumes "1 < d" "d < BASE" "unat divisor = d"
  obtains quo r where "divide_loop divisor xs = (quo, r)" "magnitude quo = magnitude xs div d" "unat r = magnitude xs mod d"
proof -
  obtain quo r where qr: "divide_loop divisor xs = (quo, r)" by fastforce
  have "divisor \<noteq> 0" using assms(1,3) by auto
  then show ?thesis using that [OF qr] divide_loop_value [of divisor xs] qr assms by auto
qed

fun horner :: "nat \<Rightarrow> nat list \<Rightarrow> nat" where
  "horner d [] = 0"
| "horner d (x # xs) = x + d * horner d xs"

lemma remainders_value:
  assumes "1 < d" "d < BASE" "unat divisor = d" "trimmed xs"
  shows "\<exists>rs. remainders divisor xs = Some rs \<and> horner d (map unat rs) = magnitude xs \<and> (\<forall>r \<in> set rs. unat r < d) \<and>
    (xs \<noteq> [] \<longrightarrow> rs \<noteq> [] \<and> unat (last rs) \<noteq> 0)"
  using assms(4)
proof (induction "magnitude xs" arbitrary: xs rule: less_induct)
  case less
  show ?case
  proof (cases "xs = []")
    case True
    then show ?thesis by (simp add: remainders.simps)
  next
    case False
    obtain quo r where qr: "divide_loop divisor xs = (quo, r)" "magnitude quo = magnitude xs div d" "unat r = magnitude xs mod d"
      using divide_loop_small [OF assms(1-3)] .
    have pos: "0 < magnitude xs" using False trimmed_zero [OF less.prems] by simp
    then have "magnitude (trim_limbs quo) < magnitude xs" using qr(2) assms(1) by simp
    then obtain rs where rs: "remainders divisor (trim_limbs quo) = Some rs" "horner d (map unat rs) = magnitude xs div d"
        "\<forall>r \<in> set rs. unat r < d" "trim_limbs quo \<noteq> [] \<longrightarrow> rs \<noteq> [] \<and> unat (last rs) \<noteq> 0"
      using less.hyps [of "trim_limbs quo"] qr(2) by auto
    have out: "remainders divisor xs = Some (r # rs)" using False qr(1) rs(1) by (simp add: remainders.simps)
    have "unat r < d" using qr(3) assms(1) by simp
    moreover have "unat (last (r # rs)) \<noteq> 0"
    proof (cases "rs = []")
      case True
      then have "magnitude xs div d = 0" using rs(2) by simp
      then have "magnitude xs mod d = magnitude xs" using assms(1) by (simp add: div_eq_0_iff)
      then show ?thesis using True qr(3) pos by simp
    next
      case rs_ne: False
      then have "trim_limbs quo \<noteq> []" using rs(1) by (auto simp: remainders.simps)
      then show ?thesis using rs(4) rs_ne by simp
    qed
    ultimately show ?thesis using out rs(2,3) qr(3) by auto
  qed
qed

section \<open>Decimal digits\<close>

definition text_value :: "nat \<Rightarrow> nat list \<Rightarrow> nat" where
  "text_value d ds = foldl (\<lambda>n x. n * d + x) 0 ds"

lemma text_value_simps [simp]: "text_value d [] = 0" "text_value d [x] = x"
  by (simp_all add: text_value_def)

lemma text_value_snoc: "text_value d (xs @ [x]) = text_value d xs * d + x"
  by (simp add: text_value_def)

lemma text_value_append: "text_value d (xs @ ys) = text_value d xs * d ^ length ys + text_value d ys"
proof (induction ys rule: rev_induct)
  case (snoc y ys)
  then show ?case unfolding append_assoc [symmetric] text_value_snoc by (simp add: algebra_simps)
qed simp

lemma text_value_Cons: "text_value d (x # xs) = x * d ^ length xs + text_value d xs"
  using text_value_append [of d "[x]" xs] by simp

lemma text_value_less: "\<forall>x \<in> set xs. x < d \<Longrightarrow> text_value d xs < d ^ length xs"
proof (induction xs rule: rev_induct)
  case (snoc x xs)
  then have "(text_value d xs + 1) * d \<le> d ^ length xs * d" by (intro mult_le_mono1) auto
  then show ?case using snoc.prems by (simp add: text_value_snoc algebra_simps)
qed simp

lemma text_value_rev: "text_value d (rev xs) = horner d xs"
  by (induction xs) (simp_all add: text_value_snoc algebra_simps)

text \<open>Digits without a superfluous leading zero are determined by their value.\<close>

definition leading :: "nat list \<Rightarrow> bool" where
  "leading ds \<longleftrightarrow> ds \<noteq> [] \<and> (hd ds = 0 \<longrightarrow> length ds = 1)"

lemma leading_value_ge:
  assumes "leading ds" "1 < length ds"
  shows "d ^ (length ds - 1) \<le> text_value d ds"
proof -
  obtain x xs where ds: "ds = x # xs" "x \<noteq> 0" using assms by (cases ds) (auto simp: leading_def)
  have "d ^ length xs \<le> x * d ^ length xs" using ds(2) by (cases x) simp_all
  then have "d ^ length xs \<le> text_value d (x # xs)" unfolding text_value_Cons by (rule trans_le_add1)
  then show ?thesis by (simp add: ds)
qed

lemma same_length_digits:
  assumes "length xs = length ys" "text_value d xs = text_value d ys" "\<forall>x \<in> set xs. x < d" "\<forall>x \<in> set ys. x < d"
  shows "xs = ys"
  using assms
proof (induction xs ys rule: rev_induct2)
  case (4 x xs y ys)
  then have eq: "text_value d xs * d + x = text_value d ys * d + y" by (simp add: text_value_snoc)
  then have "(text_value d xs * d + x) mod d = (text_value d ys * d + y) mod d" by simp
  then have "x = y" using 4 by simp
  then show ?case using eq 4 by auto
qed simp_all

lemma leading_unique:
  assumes "leading xs" "leading ys" "text_value d xs = text_value d ys" "\<forall>x \<in> set xs. x < d" "\<forall>x \<in> set ys. x < d"
  shows "xs = ys"
proof -
  have short: "length xs \<le> length ys" if xy: "leading xs" "leading ys" "text_value d xs = text_value d ys" "\<forall>y \<in> set ys. y < d" for xs ys
  proof (rule ccontr)
    assume "\<not> length xs \<le> length ys"
    then have "1 < length xs" using xy(2) by (cases ys) (auto simp: leading_def)
    have "text_value d ys < d ^ length ys" by (rule text_value_less [OF xy(4)])
    also have "\<dots> \<le> d ^ (length xs - 1)"
      using \<open>\<not> length xs \<le> length ys\<close> xy(2,4) by (intro power_increasing) (auto simp: leading_def neq_Nil_conv)
    also have "\<dots> \<le> text_value d xs" by (rule leading_value_ge [OF xy(1) \<open>1 < length xs\<close>])
    finally show False using xy(3) by simp
  qed
  have "length xs = length ys" using short [of xs ys] short [of ys xs] assms by simp
  then show ?thesis using same_length_digits assms(3-5) by blast
qed
definition digit_byte :: "nat \<Rightarrow> u8" where
  "digit_byte x = 48 + of_nat x"

lemma leading_snoc: "leading ds \<Longrightarrow> text_value d ds \<noteq> 0 \<Longrightarrow> leading (ds @ [x])"
  by (cases ds) (auto simp: leading_def)

lemma write_digits_value:
  assumes "(10::nat) < 2 ^ LENGTH('a::len)" "unat (v :: 'a word) < 10 ^ k" "0 < k"
  shows "\<exists>c ds. write_digits k (replicate k 48 @ tail) v = (Ok (c, replicate c 48 @ map digit_byte ds @ tail) :: ('e, nat \<times> bytes) outcome) \<and>
    c + length ds = k \<and> leading ds \<and> (\<forall>x \<in> set ds. x < 10) \<and> text_value 10 ds = unat v"
  using assms(2,3)
proof (induction k arbitrary: v tail)
  case (Suc k)
  let ?x = "unat (v mod 10)" and ?b = "48 + ucast (v mod 10) :: u8"
  have ten: "unat (10 :: 'a word) = 10" using assms(1) by (simp add: unat_numeral take_bit_nat_eq_self)
  have x: "?x = unat v mod 10" "unat (v div 10) = unat v div 10" by (simp_all only: unat_mod unat_div ten)
  have b: "?b = digit_byte ?x" by (simp add: digit_byte_def)
  have "(replicate (Suc k) 48 @ tail)[k := ?b] = replicate k 48 @ [?b] @ tail"
    unfolding replicate_Suc replicate_append_same [symmetric] by (simp add: list_update_append)
  then have step: "write_digits (Suc k) (replicate (Suc k) 48 @ tail) v =
      (if v div 10 = 0 then (Ok (k, replicate k 48 @ [?b] @ tail) :: ('e, nat \<times> bytes) outcome) else write_digits k (replicate k 48 @ [?b] @ tail) (v div 10))"
    by (subst write_digits.simps) (simp only: Let_def diff_Suc_1 nat.distinct if_False)
  show ?case
  proof (cases "v div 10 = 0")
    case True
    then have "unat v div 10 = 0" using x(2) by simp
    then have "unat v = ?x" "?x < 10" using x(1) by (simp_all add: div_eq_0_iff)
    then show ?thesis using True step b by (intro exI [of _ k] exI [of _ "[?x]"]) (simp add: leading_def)
  next
    case False
    then have nz: "unat v div 10 \<noteq> 0" using x(2) by (metis unat_eq_0)
    have "unat (v div 10) < 10 ^ k" using Suc.prems(1) x(2) by (simp add: less_mult_imp_div_less mult.commute)
    moreover have "0 < k" using nz Suc.prems(1) by (cases k) simp_all
    ultimately obtain c ds where ih: "write_digits k (replicate k 48 @ [?b] @ tail) (v div 10) = (Ok (c, replicate c 48 @ map digit_byte ds @ [?b] @ tail) :: ('e, nat \<times> bytes) outcome)"
        "c + length ds = k" "leading ds" "\<forall>x \<in> set ds. x < 10" "text_value 10 ds = unat v div 10"
      using Suc.IH [of "v div 10" "[?b] @ tail"] unfolding x(2) by (elim exE conjE meta_impE) (assumption | rule that)+
    have "leading (ds @ [?x])" using ih(3,5) nz by (intro leading_snoc [of _ 10]) simp_all
    moreover have "text_value 10 (ds @ [?x]) = unat v" unfolding text_value_snoc ih(5) x(1) by simp
    moreover have "?x < 10" unfolding x(1) by simp
    ultimately show ?thesis using False step ih b by (intro exI [of _ c] exI [of _ "ds @ [?x]"]) auto
  qed
qed simp

text \<open>A chunk, unpadded: its digits; padded: nine digits.\<close>

lemma append_decimal_chunk_value:
  assumes "unat chunk < 10 ^ 9"
  obtains ds where "append_decimal_chunk out chunk False = (Ok (out @ map digit_byte ds) :: ('e, bytes) outcome)"
      "append_decimal_chunk out chunk True = (Ok (out @ map digit_byte (replicate (9 - length ds) 0 @ ds)) :: ('e, bytes) outcome)"
      "length ds \<le> 9" "leading ds" "\<forall>x \<in> set ds. x < 10" "text_value 10 ds = unat chunk"
proof -
  obtain c ds where w: "write_digits 9 (replicate 9 48) chunk = (Ok (c, replicate c 48 @ map digit_byte ds) :: ('e, nat \<times> bytes) outcome)" "c + length ds = 9" "leading ds"
      "\<forall>x \<in> set ds. x < 10" "text_value 10 ds = unat chunk"
    using write_digits_value [of chunk 9 "[]"] assms by auto
  have "c = 9 - length ds" using w(2) by simp
  moreover have "digit_byte 0 = 48" by (simp add: digit_byte_def)
  ultimately show ?thesis using that [of ds] w by (simp add: append_decimal_chunk_def DECIMAL_CHUNK_DIGITS_def)
qed

lemma text_value_pad: "text_value d (replicate n 0 @ ds) = text_value d ds"
  by (induction n) (simp_all add: text_value_Cons)

lemma append_chunks_value:
  assumes "\<forall>c \<in> set chunks. unat c < 10 ^ 9"
  shows "\<exists>ds. append_chunks chunks out = (Ok (out @ map digit_byte ds) :: ('e, bytes) outcome) \<and> length ds = 9 * length chunks \<and>
    (\<forall>x \<in> set ds. x < 10) \<and> text_value 10 ds = text_value (10 ^ 9) (map unat chunks)"
  using assms
proof (induction chunks arbitrary: out)
  case (Cons c chunks)
  obtain d0 where d: "append_decimal_chunk out c True = (Ok (out @ map digit_byte (replicate (9 - length d0) 0 @ d0)) :: ('e, bytes) outcome)"
      "length d0 \<le> 9" "\<forall>x \<in> set d0. x < 10" "text_value 10 d0 = unat c"
    using append_decimal_chunk_value [of c out] Cons.prems by (metis list.set_intros(1))
  define d1 where "d1 = replicate (9 - length d0) 0 @ d0"
  have d1: "length d1 = 9" "\<forall>x \<in> set d1. x < 10" "text_value 10 d1 = unat c" using d(2-4) by (auto simp: d1_def text_value_pad)
  obtain ds where ds: "append_chunks chunks (out @ map digit_byte d1) = (Ok ((out @ map digit_byte d1) @ map digit_byte ds) :: ('e, bytes) outcome)"
      "length ds = 9 * length chunks" "\<forall>x \<in> set ds. x < 10" "text_value 10 ds = text_value (10 ^ 9) (map unat chunks)"
    using Cons.IH [of "out @ map digit_byte d1"] Cons.prems by auto
  have "text_value 10 (d1 @ ds) = text_value (10 ^ 9) (map unat (c # chunks))"
    unfolding text_value_append ds(4) d1(3) ds(2) by (simp add: text_value_Cons power_mult)
  moreover have "append_chunks (c # chunks) out = (Ok (out @ map digit_byte (d1 @ ds)) :: ('e, bytes) outcome)"
    using d(1) ds(1) by (simp add: d1_def)
  ultimately show ?case using d1(1,2) ds(2,3) by (intro exI [of _ "d1 @ ds"]) auto
qed simp
section \<open>Parsing reads the value of the digits\<close>

lemma push_digit_trimmed:
  assumes "trimmed xs" "xs \<noteq> []" "0 < unat radix" "unat radix < BASE" "unat digit < BASE"
  shows "trimmed (push_digit radix xs digit)" "push_digit radix xs digit \<noteq> []"
proof -
  obtain ys c where ys: "multiply_add radix xs digit = (ys, c)" by fastforce
  have v: "length ys = length xs" "unat c < BASE" using multiply_add_value [OF assms(4,5), of xs] ys by simp_all
  show "push_digit radix xs digit \<noteq> []" using v(1) assms(2) by (auto simp: push_digit_def ys)
  show "trimmed (push_digit radix xs digit)"
  proof (cases "c = 0")
    case False
    then have "unat (ucast c :: u64) \<noteq> 0" using narrow_u128 [OF v(2)] by (simp add: unat_eq_0)
    then show ?thesis using False by (auto simp: push_digit_def ys trimmed_def)
  next
    case True
    then have eq: "push_digit radix xs digit = ys" by (simp add: push_digit_def ys)
    have "BASE ^ (length xs - 1) \<le> magnitude xs" by (rule trimmed_magnitude [OF assms(1,2)])
    also have "\<dots> \<le> magnitude xs * unat radix" using assms(3) by simp
    also have "\<dots> \<le> magnitude ys" using push_digit_value [OF assms(4,5), of xs] unfolding eq by simp
    finally have ge: "BASE ^ (length xs - 1) \<le> magnitude ys" .
    have "last ys \<noteq> 0"
    proof
      assume z: "last ys = 0"
      obtain zs z where zs: "ys = zs @ [z]" using v(1) assms(2) by (cases ys rule: rev_cases) auto
      then have "magnitude ys = magnitude zs" using z by (simp add: magnitude_append)
      also have "\<dots> < BASE ^ length zs" by (rule magnitude_less)
      moreover have "length xs - 1 = length zs" using zs v(1) by simp
      ultimately show False using ge by simp
    qed
    then show ?thesis unfolding eq by (simp add: trimmed_def)
  qed
qed

lemma push_digits_value:
  assumes "0 < unat radix" "unat radix < BASE" "\<forall>d \<in> set ds. unat (digit d) < BASE"
  shows "magnitude (foldl (\<lambda>limbs d. push_digit radix limbs (digit d)) xs ds) =
      magnitude xs * unat radix ^ length ds + text_value (unat radix) (map (unat \<circ> digit) ds)"
    and "trimmed xs \<Longrightarrow> xs \<noteq> [] \<Longrightarrow> trimmed (foldl (\<lambda>limbs d. push_digit radix limbs (digit d)) xs ds)"
proof -
  show "magnitude (foldl (\<lambda>limbs d. push_digit radix limbs (digit d)) xs ds) =
      magnitude xs * unat radix ^ length ds + text_value (unat radix) (map (unat \<circ> digit) ds)"
    using assms(3)
  proof (induction ds arbitrary: xs)
    case (Cons d ds)
    then show ?case using push_digit_value [OF assms(2), of "digit d" xs] by (simp add: text_value_Cons algebra_simps)
  qed simp
  show "trimmed xs \<Longrightarrow> xs \<noteq> [] \<Longrightarrow> trimmed (foldl (\<lambda>limbs d. push_digit radix limbs (digit d)) xs ds)"
    using assms(3)
  proof (induction ds arbitrary: xs)
    case (Cons d ds)
    then show ?case using push_digit_trimmed [of xs radix "digit d"] assms(1,2) by simp
  qed simp
qed

lemma push_first:
  assumes "unat c < BASE"
  shows "push_digit radix [0] c = [ucast c]"
proof -
  have "unat (drop_bit 64 c) = unat c div BASE" unfolding BASE_def by (metis drop_bit_eq_div unat_drop_bit_eq)
  then have "unat (drop_bit 64 c) = 0" using assms by simp
  then have "drop_bit 64 c = 0" by (simp only: unat_eq_0)
  then show ?thesis by (simp add: push_digit_def)
qed

lemma digit_byte_simps:
  assumes "x < 10"
  shows "is_ascii_digit (digit_byte x)" "digit_byte x = 48 \<longleftrightarrow> x = 0" "digit_byte x \<noteq> 45" "unat (digit_byte x - 48) = x"
    "unat (digit_byte x) = 48 + x"
proof -
  show u: "unat (digit_byte x) = 48 + x" using assms by (simp add: digit_byte_def unat_word_ariths unat_of_nat)
  show "is_ascii_digit (digit_byte x)" using assms u by (simp add: is_ascii_digit_def word_le_nat_alt)
  show "digit_byte x = 48 \<longleftrightarrow> x = 0" "digit_byte x \<noteq> 45" using u by (auto simp: digit_byte_def word_unat_eq_iff)
  show "unat (digit_byte x - 48) = x" using assms by (simp add: digit_byte_def unat_of_nat)
qed

lemma wide_digit: "unat (ucast (x :: u8) :: u128) = unat x" "unat (ucast (x :: u8) :: u128) < BASE"
proof -
  show u: "unat (ucast x :: u128) = unat x" by (simp add: unsigned_ucast_eq take_bit_nat_eq_self unsigned_less [of x, THEN less_le_trans])
  show "unat (ucast x :: u128) < BASE" unfolding u
  proof (rule less_trans)
    show "unat x < 2 ^ 8" using unsigned_less [of x] by simp
  qed (simp add: BASE_def)
qed

lemma from_decimal_value:
  assumes "leading ds" "\<forall>x \<in> set ds. x < 10" "neg \<longrightarrow> text_value 10 ds \<noteq> 0"
  shows "from_decimal reserves ((if neg then [45] else []) @ map digit_byte ds) = Err BuildAllocationFailed \<and> (\<exists>n. \<not> reserves n) \<or>
    (\<exists>b. from_decimal reserves ((if neg then [45] else []) @ map digit_byte ds) = Ok b \<and> canonical b \<and>
       bigint_int b = (if neg then - int (text_value 10 ds) else int (text_value 10 ds)))"
proof -
  let ?text = "(if neg then [45] else []) @ map digit_byte ds"
  obtain x xs where ds: "ds = x # xs" using assms(1) by (cases ds) (auto simp: leading_def)
  then have x: "x < 10" using assms(2) by simp
  have split: "(case ?text of c # rest \<Rightarrow> if c = 45 then (True, rest) else (False, ?text) | [] \<Rightarrow> (False, ?text)) = (neg, map digit_byte ds)"
    using digit_byte_simps(3) [OF x] by (simp add: ds)
  have all: "list_all is_ascii_digit (map digit_byte ds)" using assms(2) by (auto simp: list_all_iff digit_byte_simps)
  show ?thesis
  proof (cases "x = 0")
    case True
    then have "ds = [0]" using assms(1) ds by (auto simp: leading_def)
    then show ?thesis using assms(3) split all
      by (auto simp: from_decimal_def Let_def digit_byte_simps canonical_def trimmed_def bigint_int_def)
  next
    case False
    let ?push = "foldl (\<lambda>limbs d. push_digit 10 limbs (ucast (d - 48)))"
    have sig: "dropWhile (\<lambda>b. b = 48) (map digit_byte ds) = map digit_byte ds" using False x by (simp add: ds digit_byte_simps)
    have ten: "unat (10 :: u128) = 10" by simp
    have wide: "\<forall>d \<in> set bs. unat (ucast (d - 48 :: u8) :: u128) < BASE" for bs using wide_digit(2) by blast
    note fold = push_digits_value [of 10 _ "\<lambda>d. ucast (d - 48 :: u8)", unfolded ten, OF _ _ wide]
    have vals: "map (unat \<circ> (\<lambda>d. ucast (d - 48 :: u8) :: u128)) (map digit_byte ds) = ds"
      using assms(2) by (auto simp: wide_digit digit_byte_simps intro!: map_idI)
    have m: "magnitude (?push [0] (map digit_byte ds)) = text_value 10 ds"
      using fold(1) [where xs = "[0]" and ds = "map digit_byte ds"] unfolding vals by (simp add: BASE_def)
    let ?c = "ucast (digit_byte x - 48) :: u128"
    have "push_digit 10 [0] ?c = [ucast ?c]" by (rule push_first [OF wide_digit(2)])
    moreover have "(ucast ?c :: u64) \<noteq> 0"
      using narrow_u128 [OF wide_digit(2) [of "digit_byte x - 48"]] wide_digit(1) [of "digit_byte x - 48"] digit_byte_simps(4) [OF x] False
      by (metis unat_0)
    ultimately have "trimmed (?push [0] (map digit_byte ds))"
      using fold(2) [where xs = "push_digit 10 [0] (ucast (digit_byte x - 48))" and ds = "map digit_byte xs"] by (simp add: ds BASE_def trimmed_def)
    moreover have "text_value 10 ds \<noteq> 0" using False by (simp add: ds text_value_Cons)
    ultimately have ok: "canonical \<lparr>bv_negative = neg, bv_limbs = ?push [0] (map digit_byte ds)\<rparr>"
      using m by (auto simp: canonical_def)
    let ?n = "8 * max ((length (map digit_byte ds) * 3322 + 63999) div 64000) 1"
    have "from_decimal reserves ?text = (if \<not> reserves ?n then Err BuildAllocationFailed
        else Ok \<lparr>bv_negative = neg, bv_limbs = ?push [0] (map digit_byte ds)\<rparr>)"
      unfolding from_decimal_def Let_def split prod.case sig using all by (simp only: ds list.map list.distinct simp_thms if_False)
    then show ?thesis using ok m by (cases "reserves ?n") (auto simp: bigint_int_def)
  qed
qed
section \<open>Output writes the digits of the value\<close>

definition decimal_text :: "bigint_value \<Rightarrow> nat list \<Rightarrow> bool" where
  "decimal_text b ds \<longleftrightarrow> leading ds \<and> (\<forall>x \<in> set ds. x < 10) \<and> text_value 10 ds = magnitude (bv_limbs b)"

lemma decimal_text_unique: "decimal_text b ds \<Longrightarrow> decimal_text b es \<Longrightarrow> ds = es"
  using leading_unique [of ds es 10] by (simp add: decimal_text_def)

lemma chunk_list:
  assumes "trimmed xs" "xs \<noteq> []"
  obtains rs where "remainders (of_nat DECIMAL_CHUNK_BASE) xs = Some rs" "rs \<noteq> []"
    "text_value (10 ^ 9) (rev (map unat (map ucast rs :: u32 list))) = magnitude xs" "\<forall>c \<in> set (map ucast rs :: u32 list). unat c < 10 ^ 9"
    "unat (last (map ucast rs :: u32 list)) \<noteq> 0"
proof -
  let ?d = "10 ^ 9 :: nat"
  have "unat (of_nat DECIMAL_CHUNK_BASE :: u128) = ?d" by (simp add: DECIMAL_CHUNK_BASE_def)
  then obtain rs where rs: "remainders (of_nat DECIMAL_CHUNK_BASE) xs = Some rs" "horner ?d (map unat rs) = magnitude xs"
      "\<forall>r \<in> set rs. unat r < ?d" "rs \<noteq> []" "unat (last rs) \<noteq> 0"
    using remainders_value [of ?d "of_nat DECIMAL_CHUNK_BASE" xs] assms by (auto simp: BASE_def)
  have narrow: "unat (ucast r :: u32) = unat r" if "r \<in> set rs" for r
    using rs(3) that by (fastforce simp: unsigned_ucast_eq take_bit_nat_eq_self)
  then have eq: "map unat (map ucast rs :: u32 list) = map unat rs" by simp
  show ?thesis
  proof (rule that [OF rs(1,4)])
    show "text_value (10 ^ 9) (rev (map unat (map ucast rs :: u32 list))) = magnitude xs" unfolding eq text_value_rev by (rule rs(2))
    show "\<forall>c \<in> set (map ucast rs :: u32 list). unat c < 10 ^ 9" using narrow rs(3) by simp
    show "unat (last (map ucast rs :: u32 list)) \<noteq> 0" using narrow rs(4,5) by (simp add: last_map)
  qed
qed

lemma decimal_bytes_value:
  assumes "canonical b"
  shows "decimal_bytes reserves b = Some (Err BuildAllocationFailed) \<and> (\<exists>n. \<not> reserves n) \<or>
    (\<exists>ds. decimal_bytes reserves b = Some (Ok ((if bv_negative b then [45] else []) @ map digit_byte ds)) \<and> decimal_text b ds)"
proof (cases "bv_limbs b = []")
  case True
  then have "decimal_bytes reserves b = Some (Ok ((if bv_negative b then [45] else []) @ map digit_byte [0]))" "decimal_text b [0]"
    using assms by (auto simp: decimal_bytes_def digit_byte_def decimal_text_def leading_def canonical_def)
  then show ?thesis by blast
next
  case False
  let ?sign = "if bv_negative b then [45] else []"
  obtain rs where rs: "remainders (of_nat DECIMAL_CHUNK_BASE) (bv_limbs b) = Some rs" "rs \<noteq> []"
    "text_value (10 ^ 9) (rev (map unat (map ucast rs :: u32 list))) = magnitude (bv_limbs b)" "\<forall>c \<in> set (map ucast rs :: u32 list). unat c < 10 ^ 9"
    "unat (last (map ucast rs :: u32 list)) \<noteq> 0"
    using chunk_list [OF canonical_limbs [OF assms] False] .
  define chunks where "chunks = (map ucast rs :: u32 list)"
  have ne: "chunks \<noteq> []" using rs(2) by (simp add: chunks_def)
  have parts: "rev chunks = last chunks # rev (butlast chunks)" using ne by (metis append_butlast_last_id rev.simps(2) rev_rev_ident rev_append rev_singleton_conv append_Cons append_Nil)
  obtain d0 where d0: "append_decimal_chunk ?sign (last chunks) False = (Ok (?sign @ map digit_byte d0) :: (bigint_build_error, bytes) outcome)"
      "leading d0" "\<forall>x \<in> set d0. x < 10" "text_value 10 d0 = unat (last chunks)"
    using append_decimal_chunk_value [of "last chunks" ?sign] rs(4) ne unfolding chunks_def [symmetric] by (metis last_in_set)
  have small: "\<forall>c \<in> set (rev (butlast chunks)). unat c < 10 ^ 9" using rs(4) unfolding chunks_def [symmetric] by (auto dest: in_set_butlastD)
  obtain d1 where d1: "append_chunks (rev (butlast chunks)) (?sign @ map digit_byte d0) =
        (Ok ((?sign @ map digit_byte d0) @ map digit_byte d1) :: (bigint_build_error, bytes) outcome)" "length d1 = 9 * length (rev (butlast chunks))"
      "\<forall>x \<in> set d1. x < 10" "text_value 10 d1 = text_value (10 ^ 9) (map unat (rev (butlast chunks)))"
    using append_chunks_value [OF small, of "?sign @ map digit_byte d0"] by (elim exE conjE) (rule that)
  have "text_value 10 (d0 @ d1) = text_value (10 ^ 9) (map unat (rev chunks))"
    unfolding parts text_value_append d1(2,4) d0(4) by (simp add: text_value_Cons power_mult)
  also have "\<dots> = magnitude (bv_limbs b)" using rs(3) unfolding chunks_def [symmetric] by (simp add: rev_map)
  finally have "text_value 10 (d0 @ d1) = magnitude (bv_limbs b)" .
  moreover have "leading (d0 @ d1)"
  proof -
    have "text_value 10 d0 \<noteq> 0" using rs(5) d0(4) unfolding chunks_def [symmetric] by simp
    then show ?thesis using d0(2) by (cases d0) (auto simp: leading_def)
  qed
  ultimately have "decimal_text b (d0 @ d1)" using d0(3) d1(3) by (auto simp: decimal_text_def)
  moreover have "decimal_bytes reserves b = Some (Err BuildAllocationFailed) \<and> (\<exists>n. \<not> reserves n) \<or>
      decimal_bytes reserves b = Some (Ok (?sign @ map digit_byte (d0 @ d1)))"
    using False rs(1) ne d0(1) d1(1) unfolding decimal_bytes_def by (auto simp: Let_def simp flip: chunks_def)
  ultimately show ?thesis by blast
qed

lemma decimal_i64_bytes_value:
  "\<exists>ds. decimal_i64_bytes v = (Ok ((if i64_is_negative v then [45] else []) @ map digit_byte ds) :: ('e, bytes) outcome) \<and> decimal_text (from_i64 v) ds"
proof -
  have lt: "unat (unsigned_abs v) < 10 ^ 20" using limb_less [of "unsigned_abs v"] by (simp add: BASE_def)
  then obtain c ds where w: "write_digits 20 (replicate 20 48 @ []) (unsigned_abs v) = (Ok (c, replicate c 48 @ map digit_byte ds @ []) :: ('e, nat \<times> bytes) outcome)"
      "c + length ds = 20" "leading ds" "\<forall>x \<in> set ds. x < 10" "text_value 10 ds = unat (unsigned_abs v)"
    using write_digits_value [of "unsigned_abs v" 20 "[]"] by (elim exE conjE meta_impE) (simp | rule that)+
  have is_text: "decimal_text (from_i64 v) ds" using w(3-5) by (simp add: decimal_text_def from_i64_def from_u64_def)
  have "0 < c" if "i64_is_negative v"
  proof (rule ccontr)
    assume "\<not> 0 < c"
    then have "1 < length ds" "length ds - 1 = 19" using w(2) by simp_all
    then have "10 ^ 19 \<le> unat (unsigned_abs v)" using leading_value_ge [OF w(3), of 10] w(5) by simp
    then have "int (10 ^ 19) \<le> \<bar>sint v\<bar>" unfolding unat_unsigned_abs [symmetric] by (simp only: of_nat_le_iff)
    then show False using sint_range [of v] by simp
  qed
  then have "decimal_i64_bytes v = (Ok ((if i64_is_negative v then [45] else []) @ map digit_byte ds) :: ('e, bytes) outcome)"
    using w(1) by (auto simp: decimal_i64_bytes_def list_update_append gr0_conv_Suc replicate_append_same [symmetric] simp del: replicate_append_same)
  then show ?thesis using is_text by blast
qed

section \<open>Round trips\<close>

text \<open>C35. Printing a BigInt in decimal always returns, and reading the text back gives the same value: for a
  canonical value \<open>decimal_bytes\<close> ends with the decimal digits of its magnitude, without superfluous zeros
  and with the sign, unless memory is short, and \<open>from_decimal\<close> maps that text to the value itself.\<close>

theorem decimal_roundtrip:
  assumes "canonical b" "\<forall>n. reserves n"
  shows "\<exists>ds. decimal_bytes reserves b = Some (Ok ((if bv_negative b then [45] else []) @ map digit_byte ds)) \<and> decimal_text b ds \<and>
    from_decimal reserves ((if bv_negative b then [45] else []) @ map digit_byte ds) = Ok b"
proof -
  obtain ds where ds: "decimal_bytes reserves b = Some (Ok ((if bv_negative b then [45] else []) @ map digit_byte ds))" "decimal_text b ds"
    using decimal_bytes_value [OF assms(1), of reserves] assms(2) by auto
  have "bv_negative b \<longrightarrow> text_value 10 ds \<noteq> 0"
    using ds(2) assms(1) trimmed_zero [OF canonical_limbs [OF assms(1)]] by (auto simp: decimal_text_def canonical_def)
  then obtain b' where b': "from_decimal reserves ((if bv_negative b then [45] else []) @ map digit_byte ds) = Ok b'" "canonical b'"
      "bigint_int b' = (if bv_negative b then - int (text_value 10 ds) else int (text_value 10 ds))"
    using from_decimal_value [of ds "bv_negative b" reserves] ds(2) assms(2) by (auto simp: decimal_text_def)
  have "b' = b" using b'(2,3) ds(2) assms(1) by (intro canonical_inject) (simp_all add: decimal_text_def bigint_int_def)
  then show ?thesis using ds b'(1) by blast
qed

theorem decimal_roundtrip_witness:
  "\<exists>ds. decimal_bytes (\<lambda>_. True) (from_i64 (- 5)) = Some (Ok ([45] @ map digit_byte ds)) \<and> decimal_text (from_i64 (- 5)) ds \<and>
    from_decimal (\<lambda>_. True) ([45] @ map digit_byte ds) = Ok (from_i64 (- 5))"
proof -
  have "bv_negative (from_i64 (- 5))" by (simp add: from_i64_def i64_is_negative_def)
  then show ?thesis using decimal_roundtrip [of "from_i64 (- 5)" "\<lambda>_. True"] by simp
qed

text \<open>The two representations of a small BigInt print alike: the writer for immediates and the writer for
  limbs return the same text for the same number.\<close>

theorem small_decimal_agrees:
  "decimal_bytes (\<lambda>_. True) (from_i64 v) = Some (decimal_i64_bytes v)"
proof -
  obtain ds where ds: "decimal_i64_bytes v = (Ok ((if i64_is_negative v then [45] else []) @ map digit_byte ds) :: (bigint_build_error, bytes) outcome)"
      "decimal_text (from_i64 v) ds" using decimal_i64_bytes_value by blast
  obtain es where es: "decimal_bytes (\<lambda>_. True) (from_i64 v) = Some (Ok ((if bv_negative (from_i64 v) then [45] else []) @ map digit_byte es))"
      "decimal_text (from_i64 v) es" using decimal_bytes_value [OF from_i64_canonical, of "\<lambda>_. True" v] by blast
  show ?thesis using ds(1) es(1) decimal_text_unique [OF ds(2) es(2)] by (simp add: from_i64_def)
qed
section \<open>Other radices\<close>

lemma ucast_of_nat_small: "n < 2 ^ LENGTH('a::len) \<Longrightarrow> (ucast (of_nat n :: 'a word) :: 'b::len word) = of_nat n"
  by (simp add: unsigned_of_nat take_bit_nat_eq_self)

lemma ucast_ucast_small:
  assumes "unat (r :: 'a::len word) < 2 ^ LENGTH('b::len)"
  shows "(ucast (ucast r :: 'b word) :: 'c::len word) = ucast r"
  using ucast_of_nat_small [OF assms, where 'b = 'c] by simp

lemma radix_byte_alt:
  assumes "unat r < 36"
  shows "radix_byte r = of_nat (if unat r < 10 then 48 + unat r else 87 + unat r)"
proof -
  have d: "(ucast r :: u8) = of_nat (unat r)" by simp
  have "(ucast r :: u8) < 10 \<longleftrightarrow> unat r < 10" using assms by (simp add: word_less_nat_alt unsigned_ucast_eq take_bit_nat_eq_self)
  then show ?thesis unfolding radix_byte_def Let_def d by simp
qed

lemma radix_byte_digit:
  assumes "unat r < 16"
  shows "ascii_radix_digit (ucast (radix_byte r)) radix = (if unat r < unat radix then Some (of_nat (unat r)) else None)"
proof -
  let ?x = "unat r"
  have lt: "(of_nat ?x :: u32) < radix \<longleftrightarrow> ?x < unat radix" using assms by (simp add: word_less_nat_alt unsigned_ucast_eq take_bit_nat_eq_self)
  show ?thesis
  proof (cases "?x < 10")
    case True
    have "(ucast (radix_byte r) :: u16) = of_nat (48 + ?x)" using True by (simp add: radix_byte_alt ucast_of_nat_small del: of_nat_add)
    moreover have "(48 :: u16) \<le> of_nat (48 + ?x)" "(of_nat (48 + ?x) :: u16) \<le> 57"
      using True by (simp_all add: word_le_nat_alt unat_of_nat del: of_nat_add)
    moreover have "(ucast (of_nat (48 + ?x) - 48 :: u16) :: u32) = of_nat ?x" using True by (simp add: ucast_ucast_small)
    ultimately show ?thesis by (simp add: ascii_radix_digit_def lt [simplified])
  next
    case False
    have u: "(ucast (radix_byte r) :: u16) = of_nat (87 + ?x)" using False assms by (simp add: radix_byte_alt ucast_of_nat_small del: of_nat_add)
    have "\<not> (of_nat (87 + ?x) :: u16) \<le> 57" "(97 :: u16) \<le> of_nat (87 + ?x)" "(of_nat (87 + ?x) :: u16) \<le> 102"
      using False assms by (simp_all add: word_le_nat_alt unat_of_nat del: of_nat_add)
    moreover have "(ucast (of_nat (87 + ?x) - 97 :: u16) :: u32) + 10 = of_nat ?x"
    proof -
      define y where "y = ?x - 10"
      have y: "?x = 10 + y" "y < 6" using False assms by (simp_all add: y_def)
      have "(of_nat (87 + ?x) - 97 :: u16) = of_nat y" unfolding y(1) by simp
      then show ?thesis using y(2) unfolding y(1) by (simp add: ucast_of_nat_small)
    qed
    ultimately show ?thesis unfolding u by (simp add: ascii_radix_digit_def lt [simplified])
  qed
qed

lemma radix_digits_loop_value:
  assumes "\<forall>r \<in> set rs. unat r < unat radix" "unat radix \<le> 16"
  shows "radix_digits_loop radix (map (ucast \<circ> radix_byte) rs) xs = Ok (foldl (\<lambda>limbs r. push_digit (ucast radix) limbs r) xs rs)"
  using assms(1)
proof (induction rs arbitrary: xs)
  case (Cons r rs)
  have r: "unat r < unat radix" "unat r < 16" using Cons.prems assms(2) by auto
  then have "(ucast (of_nat (unat r) :: u32) :: u128) = r" by (simp add: ucast_ucast_small)
  then show ?case using Cons radix_byte_digit [OF r(2), of radix] r(1) by simp
qed simp

lemma from_radix_digits_value:
  assumes "canonical b" "\<forall>n. reserves n" "radix \<in> {2, 8, 10, 16}" "rs \<noteq> []" "\<forall>r \<in> set rs. unat r < unat radix"
    and "text_value (unat radix) (map unat rs) = magnitude (bv_limbs b)"
  shows "from_radix_digits reserves (map (ucast \<circ> radix_byte) rs) radix (bv_negative b) = Ok b"
proof -
  let ?l = "foldl (\<lambda>limbs r. push_digit (ucast radix) limbs r) [0] rs"
  have d: "unat radix \<le> 16" "unat (ucast radix :: u128) = unat radix" "0 < unat radix" "unat radix < BASE"
    using assms(3) by (auto simp: BASE_def)
  have loop: "radix_digits_loop radix (map (ucast \<circ> radix_byte) rs) [0] = Ok ?l"
    by (rule radix_digits_loop_value [OF assms(5) d(1)])
  have "\<forall>r \<in> set rs. unat r < BASE" using assms(5) d(4) by auto
  then have "magnitude ?l = magnitude (bv_limbs b)"
    using push_digits_value(1) [of "ucast radix" rs "\<lambda>r. r" "[0]"] d assms(6) by (simp add: comp_def)
  then have "trim_limbs ?l = bv_limbs b" using canonical_limbs [OF assms(1)] by (intro trimmed_inject) simp_all
  then show ?thesis using loop assms(1-4) by (cases b) (auto simp: from_radix_digits_def canonical_def Let_def)
qed

text \<open>C36. Printing in a radix from 2 to 36 always returns: \<open>radix_bytes\<close> ends with the sign and the digits of the
  magnitude in that radix, without superfluous zeros. In the radices that literals have, reading the
  digits back gives the same value.\<close>

theorem radix_roundtrip:
  assumes "canonical b" "\<forall>n. reserves n" "2 \<le> radix" "radix \<le> 36"
  shows "\<exists>rs. radix_bytes reserves b radix = Some (Ok ((if bv_negative b then [45] else []) @ map radix_byte rs)) \<and>
    leading (map unat rs) \<and> (\<forall>r \<in> set rs. unat r < unat radix) \<and> text_value (unat radix) (map unat rs) = magnitude (bv_limbs b) \<and>
    (radix \<in> {2, 8, 10, 16} \<longrightarrow> from_radix_digits reserves (map (ucast \<circ> radix_byte) rs) (ucast radix) (bv_negative b) = Ok b)"
proof -
  let ?d = "unat radix"
  have d: "1 < ?d" "?d < BASE" "unat (ucast radix :: u128) = ?d" "unat (ucast radix :: u32) = ?d"
    using assms(3) wide_digit [of radix] by (auto simp: word_le_nat_alt unsigned_ucast_eq take_bit_nat_eq_self unsigned_less [of radix, THEN less_le_trans])
  obtain ss where ss: "remainders (ucast radix) (bv_limbs b) = Some ss" "horner ?d (map unat ss) = magnitude (bv_limbs b)" "\<forall>r \<in> set ss. unat r < ?d"
      "bv_limbs b \<noteq> [] \<longrightarrow> ss \<noteq> [] \<and> unat (last ss) \<noteq> 0"
    using remainders_value [OF d(1-3) canonical_limbs [OF assms(1)]] by blast
  define rs where "rs = (if is_zero b then [0] else rev ss)"
  have out: "radix_bytes reserves b radix = Some (Ok ((if bv_negative b then [45] else []) @ map radix_byte rs))"
    using ss(1) assms(1,2) by (simp add: radix_bytes_def rs_def rev_map radix_byte_def canonical_def is_zero_def)
  have lead: "leading (map unat rs)"
    using ss(4) by (auto simp: rs_def leading_def is_zero_def hd_map hd_rev)
  have digits: "\<forall>r \<in> set rs. unat r < ?d" using ss(3) d(1) by (auto simp: rs_def)
  have val: "text_value ?d (map unat rs) = magnitude (bv_limbs b)"
    using ss(2) by (auto simp: rs_def is_zero_def rev_map [symmetric] text_value_rev)
  have "from_radix_digits reserves (map (ucast \<circ> radix_byte) rs) (ucast radix) (bv_negative b) = Ok b" if "radix \<in> {2, 8, 10, 16}"
    using that lead digits val by (intro from_radix_digits_value [OF assms(1,2)]) (auto simp: d(4) leading_def)
  then show ?thesis using out lead digits val by blast
qed

theorem radix_roundtrip_witness:
  "\<exists>rs. radix_bytes (\<lambda>_. True) (from_u64 255) 16 = Some (Ok (map radix_byte rs)) \<and>
    from_radix_digits (\<lambda>_. True) (map (ucast \<circ> radix_byte) rs) 16 False = Ok (from_u64 255)"
proof -
  have "\<not> bv_negative (from_u64 255)" by (simp add: from_u64_def)
  then show ?thesis using radix_roundtrip [of "from_u64 255" "\<lambda>_. True" 16] by auto
qed

section \<open>String literals\<close>

lemma digit_byte_radix: "x < 10 \<Longrightarrow> digit_byte x = radix_byte (of_nat x)"
  by (simp add: radix_byte_alt digit_byte_def unat_of_nat)

lemma text_units:
  assumes "c = 45 \<or> is_ascii_digit c"
  shows "\<not> is_ecmascript_whitespace (ucast (c :: u8))" "(ucast c :: u16) \<noteq> 43" "(ucast c :: u16) = 45 \<longleftrightarrow> c = 45"
    "ucast c \<notin> {98, 66, 111, 79, 120, 88 :: u16}"
proof -
  have "unat (ucast c :: u16) = unat c" by (simp add: unsigned_ucast_eq take_bit_nat_eq_self unsigned_less [of c, THEN less_le_trans])
  moreover have "45 \<le> unat c" "unat c \<le> 57" "unat c \<noteq> 46" "unat c = 45 \<longleftrightarrow> c = 45"
    using assms by (auto simp: is_ascii_digit_def word_le_nat_alt word_unat_eq_iff)
  ultimately show "\<not> is_ecmascript_whitespace (ucast c)" "(ucast c :: u16) \<noteq> 43" "(ucast c :: u16) = 45 \<longleftrightarrow> c = 45"
    "ucast c \<notin> {98, 66, 111, 79, 120, 88 :: u16}"
    by (auto simp: is_ecmascript_whitespace_def word_le_nat_alt word_unat_eq_iff)
qed

lemma trim_whitespace_text:
  assumes "list_all is_ecmascript_whitespace pre" "list_all is_ecmascript_whitespace post" "xs \<noteq> []"
    and "\<not> is_ecmascript_whitespace (hd xs)" "\<not> is_ecmascript_whitespace (last xs)"
  shows "trim_whitespace (pre @ xs @ post) = xs"
proof -
  have "dropWhile is_ecmascript_whitespace (pre @ xs @ post) = xs @ post"
    using assms(1,3,4) by (auto simp: list_all_iff neq_Nil_conv dropWhile_append)
  moreover have "dropWhile is_ecmascript_whitespace (rev post @ rev xs) = rev xs"
    using assms(2,3,5) by (cases xs rule: rev_cases) (auto simp: list_all_iff dropWhile_append)
  ultimately show ?thesis by (simp add: trim_whitespace_def)
qed

text \<open>\<open>BigInt(String(b))\<close> is \<open>b\<close>: the decimal text of a canonical value, with any white space around it, is read
  back as that value by the \<open>StringIntegerLiteral\<close> parser.\<close>

theorem string_roundtrip:
  assumes "canonical b" "\<forall>n. reserves n" "decimal_bytes reserves b = Some (Ok bytes)"
    and "list_all is_ecmascript_whitespace pre" "list_all is_ecmascript_whitespace post"
  shows "parse_string_integer_literal reserves (pre @ map ucast bytes @ post) = Ok b"
proof -
  obtain ds where ds: "bytes = (if bv_negative b then [45] else []) @ map digit_byte ds" "decimal_text b ds"
    using decimal_bytes_value [OF assms(1), of reserves] assms(2,3) by auto
  have digit: "is_ascii_digit (digit_byte x)" if "x \<in> set ds" for x
    using that ds(2) by (intro digit_byte_simps) (simp add: decimal_text_def)
  obtain x xs where xs: "ds = x # xs" using ds(2) by (cases ds) (auto simp: decimal_text_def leading_def)
  have ok: "\<forall>c \<in> set bytes. c = 45 \<or> is_ascii_digit c" "bytes \<noteq> []" using digit ds(1) by (auto simp: xs)
  let ?text = "map ucast bytes :: u16 list"
  have trim: "trim_whitespace (pre @ ?text @ post) = ?text"
    using ok text_units(1) assms(4,5) by (intro trim_whitespace_text) (auto simp: hd_map last_map)
  let ?units = "map (ucast \<circ> digit_byte) ds :: u16 list"
  have sign: "(if hd ?text = 43 then (False, tl ?text) else if hd ?text = 45 then (True, tl ?text) else (False, ?text)) = (bv_negative b, ?units)"
    using text_units(2,3) [of "digit_byte x"] digit [of x] digit_byte_simps(3) [of x] ds(2) by (auto simp: ds(1) xs decimal_text_def)
  have plain: "?units ! 1 \<notin> {98, 66, 111, 79, 120, 88}" if "length ?units \<ge> 2"
    using that text_units(4) [of "digit_byte (ds ! 1)"] digit [of "ds ! 1"] by simp
  have "parse_string_integer_literal reserves (pre @ ?text @ post) = from_radix_digits reserves ?units 10 (bv_negative b)"
    unfolding parse_string_integer_literal_def Let_def trim sign prod.case using ok(2) plain xs by auto
  also have "?units = map (ucast \<circ> radix_byte) (map of_nat ds :: u128 list)"
    using ds(2) by (auto simp: decimal_text_def digit_byte_radix)
  also have "from_radix_digits reserves (map (ucast \<circ> radix_byte) (map of_nat ds :: u128 list)) 10 (bv_negative b) = Ok b"
  proof (rule from_radix_digits_value [OF assms(1,2)])
    have small: "unat (of_nat x :: u128) = x" if "x \<in> set ds" for x using that ds(2) by (auto simp: decimal_text_def unat_of_nat)
    then have "map unat (map of_nat ds :: u128 list) = ds" by (simp add: map_idI)
    then show "text_value (unat (10 :: u32)) (map unat (map of_nat ds :: u128 list)) = magnitude (bv_limbs b)"
      using ds(2) by (simp add: decimal_text_def)
    show "\<forall>r \<in> set (map of_nat ds :: u128 list). unat r < unat (10 :: u32)" using small ds(2) by (auto simp: decimal_text_def)
  qed (simp_all add: xs)
  finally show ?thesis .
qed

theorem string_roundtrip_witness:
  "parse_string_integer_literal (\<lambda>_. True) ([32] @ map ucast [48 :: u8] @ [10]) = Ok (from_u64 0)"
proof -
  have "decimal_bytes (\<lambda>_. True) (from_u64 0) = Some (Ok [48])" by (simp add: decimal_bytes_def from_u64_def)
  then show ?thesis
    using string_roundtrip [of "from_u64 0" "\<lambda>_. True" "[48]" "[32]" "[10]"] by (simp add: is_ecmascript_whitespace_def)
qed

end
