(* ===== verification/BigInt_Small.thy ===== *)
theory BigInt_Small
  imports BigInt_Exact BigInt_Text
begin

text \<open>
  BigInts as values of the engine (\<open>crates/tachyon-vm/src/bigint.rs\<close>, the methods of \<open>Isolate\<close> and the
  allocation-free kernel): a BigInt that fits 48 signed bits is an immediate, any other is a reference to
  a heap cell.

  The heap is a map from references to the cells a checked access distinguishes; \<open>alloc\<close> is the allocator of
  the heap, which returns the reference of a new cell or fails. The collector and the root bookkeeping
  around an access do not change what it returns.
\<close>

unbundle bit_operations_syntax

datatype heap_cell = Cell_BigInt bigint_value | Cell_String "u16 list" | Cell_Symbol | Cell_Other

type_synonym vm_heap = "raw_heap_ref \<rightharpoonup> heap_cell"

datatype execution_error =
    InvalidBigIntValue js_value | HeapAllocation | InvalidBigIntLiteral | BigIntAllocationFailed | BigIntDivisionByZero
  | BigIntNegativeExponent | BigIntResultTooLarge | BigIntUnsignedShift | UnsupportedBigIntConversion js_value

type_synonym 'a execution = "(execution_error, 'a) outcome"

section \<open>Operations\<close>

fun bigint_arithmetic_error :: "bigint_error \<Rightarrow> execution_error" where
  "bigint_arithmetic_error AllocationFailed = BigIntAllocationFailed"
| "bigint_arithmetic_error DivisionByZero = BigIntDivisionByZero"
| "bigint_arithmetic_error NegativeExponent = BigIntNegativeExponent"
| "bigint_arithmetic_error ResultTooLarge = BigIntResultTooLarge"

fun operation_error :: "bigint_operation_error \<Rightarrow> execution_error" where
  "operation_error BigIntUnsignedRightShift = BigIntUnsignedShift"
| "operation_error (Arithmetic e) = bigint_arithmetic_error e"

fun bigint_build_execution_error :: "bigint_build_error \<Rightarrow> execution_error" where
  "bigint_build_execution_error InvalidDecimal = InvalidBigIntLiteral"
| "bigint_build_execution_error BuildAllocationFailed = BigIntAllocationFailed"

definition allocate_bigint ::
  "(vm_heap \<Rightarrow> bigint_value \<Rightarrow> raw_heap_ref option) \<Rightarrow> vm_heap \<Rightarrow> bigint_value \<Rightarrow> (js_value \<times> vm_heap) execution" where
  "allocate_bigint alloc h b =
     (case small_value b of
        Some v \<Rightarrow> and_then (expect (from_small_bigint v)) (\<lambda>v. Ok (v, h))
      | None \<Rightarrow> and_then (ok_or HeapAllocation (alloc h b)) (\<lambda>raw. Ok (from_heap_ref raw, h(raw \<mapsto> Cell_BigInt b))))"

text \<open>A checked reference and the borrow behind it.\<close>

definition bigint_reference :: "vm_heap \<Rightarrow> js_value \<Rightarrow> bigint_value execution" where
  "bigint_reference h v =
     (case as_heap_ref v of
        None \<Rightarrow> Err (InvalidBigIntValue v)
      | Some raw \<Rightarrow> (case h raw of Some (Cell_BigInt b) \<Rightarrow> Ok b | _ \<Rightarrow> Err (InvalidBigIntValue v)))"

definition bigint_value_snapshot :: "vm_heap \<Rightarrow> js_value \<Rightarrow> bigint_value execution" where
  "bigint_value_snapshot h v = (case as_small_bigint v of Some small \<Rightarrow> Ok (from_i64 small) | None \<Rightarrow> bigint_reference h v)"

definition is_bigint_value :: "vm_heap \<Rightarrow> js_value \<Rightarrow> bool" where
  "is_bigint_value h v \<longleftrightarrow>
     as_small_bigint v \<noteq> None \<or>
     (case as_heap_ref v of Some raw \<Rightarrow> (case h raw of Some (Cell_BigInt b) \<Rightarrow> True | _ \<Rightarrow> False) | None \<Rightarrow> False)"

definition isolate_binary_operation where
  "isolate_binary_operation grants alloc h op left right =
     (if op = Op_ShiftRightUnsigned then Err BigIntUnsignedShift
      else and_then (bigint_value_snapshot h left) (\<lambda>left.
           and_then (bigint_value_snapshot h right) (\<lambda>right.
           and_then (map_err operation_error (bigint_binary_operation grants op left right)) (allocate_bigint alloc h))))"

definition isolate_bitwise_not where
  "isolate_bitwise_not grants alloc h v =
     and_then (bigint_value_snapshot h v) (\<lambda>b.
     and_then (map_err bigint_arithmetic_error (bigint_bitwise_not grants b)) (allocate_bigint alloc h))"

text \<open>Checked 64-bit arithmetic: the exact result when it is representable.\<close>

definition i64_checked :: "int \<Rightarrow> i64 option" where
  "i64_checked x = (if - (2 ^ 63) \<le> x \<and> x < 2 ^ 63 then Some (of_int x) else None)"

definition negate_bigint where
  "negate_bigint reserves alloc h v =
     (case as_small_bigint v of
        Some small \<Rightarrow>
          (case Option.bind (i64_checked (- sint small)) from_small_bigint of
             Some negated \<Rightarrow> Ok (negated, h)
           | None \<Rightarrow> (case from_decimal reserves (map digit_byte [1, 4, 0, 7, 3, 7, 4, 8, 8, 3, 5, 5, 3, 2, 8]) of
                       Ok b \<Rightarrow> allocate_bigint alloc h b | _ \<Rightarrow> Panic))
      | None \<Rightarrow> and_then (bigint_reference h v) (\<lambda>b. allocate_bigint alloc h (bigint_negate b)))"

definition allocate_bigint_bits where
  "allocate_bigint_bits alloc h bits signed_bits =
     (let imm = (if signed_bits then from_small_bigint bits
                 else if unat (bits :: u64) < 2 ^ 63 then from_small_bigint bits else None)
      in case imm of
           Some v \<Rightarrow> Ok (v, h)
         | None \<Rightarrow> allocate_bigint alloc h (if signed_bits then from_i64 bits else from_u64 bits))"

definition heap_bigint_equals_small :: "vm_heap \<Rightarrow> js_value \<Rightarrow> i64 \<Rightarrow> bool execution" where
  "heap_bigint_equals_small h v small = and_then (bigint_reference h v) (\<lambda>b. Ok (equals_small b small))"

definition bigint_equal :: "vm_heap \<Rightarrow> js_value \<Rightarrow> js_value \<Rightarrow> bool execution" where
  "bigint_equal h left right =
     (case (as_small_bigint left, as_small_bigint right) of
        (Some l, Some r) \<Rightarrow> Ok (l = r)
      | (Some small, None) \<Rightarrow> heap_bigint_equals_small h right small
      | (None, Some small) \<Rightarrow> heap_bigint_equals_small h left small
      | (None, None) \<Rightarrow>
          and_then (bigint_reference h left) (\<lambda>l. and_then (bigint_reference h right) (\<lambda>r. Ok (l = r))))"

definition bigint_compare :: "vm_heap \<Rightarrow> js_value \<Rightarrow> js_value \<Rightarrow> ordering execution" where
  "bigint_compare h left right =
     (case (as_small_bigint left, as_small_bigint right) of
        (Some l, Some r) \<Rightarrow> Ok (ordering_of (sint l) (sint r))
      | (Some l, None) \<Rightarrow> and_then (bigint_reference h right) (\<lambda>r. Ok (reverse_ordering (mathematical_cmp_i64 r l)))
      | (None, Some r) \<Rightarrow> and_then (bigint_reference h left) (\<lambda>l. Ok (mathematical_cmp_i64 l r))
      | (None, None) \<Rightarrow>
          and_then (bigint_reference h left) (\<lambda>l. and_then (bigint_reference h right) (\<lambda>r. Ok (mathematical_cmp l r))))"

definition bigint_as_n where
  "bigint_as_n grants alloc h bits v signed_result =
     and_then (bigint_value_snapshot h v) (\<lambda>b.
     and_then (map_err bigint_arithmetic_error (truncate_to_bits grants b bits signed_result)) (allocate_bigint alloc h))"

definition bigint_modulo_u64 :: "vm_heap \<Rightarrow> js_value \<Rightarrow> u64 execution" where
  "bigint_modulo_u64 h v =
     (case as_small_bigint v of Some small \<Rightarrow> Ok small | None \<Rightarrow> and_then (bigint_reference h v) (\<lambda>b. Ok (modulo_u64 b)))"

definition string_to_bigint where
  "string_to_bigint reserves alloc h v =
     (case Option.bind (as_heap_ref v) h of
        Some (Cell_String units) \<Rightarrow>
          and_then (map_err bigint_build_execution_error (parse_string_integer_literal reserves units)) (allocate_bigint alloc h)
      | _ \<Rightarrow> Err (UnsupportedBigIntConversion v))"

definition primitive_to_bigint where
  "primitive_to_bigint reserves alloc h v =
     (if is_bigint_value h v then Ok (v, h)
      else case as_immediate v of
        Some imm \<Rightarrow>
          (if imm = False_Value then and_then (expect (from_small_bigint 0)) (\<lambda>v. Ok (v, h))
           else if imm = True_Value then and_then (expect (from_small_bigint 1)) (\<lambda>v. Ok (v, h))
           else Err (UnsupportedBigIntConversion v))
      | None \<Rightarrow>
          (if is_number v \<or> Option.bind (as_heap_ref v) h = Some Cell_Symbol then Err (UnsupportedBigIntConversion v)
           else case Option.bind (as_heap_ref v) h of
                  Some (Cell_String units) \<Rightarrow> string_to_bigint reserves alloc h v
                | _ \<Rightarrow> Err (UnsupportedBigIntConversion v)))"

section \<open>The allocation-free kernel\<close>

definition small_bigint_shift :: "i64 \<Rightarrow> i64 \<Rightarrow> bool \<Rightarrow> i64 option" where
  "small_bigint_shift v count left =
     (let effective_left = (left \<noteq> i64_is_negative count); magnitude = unsigned_abs count
      in if \<not> effective_left
         then Some (if magnitude \<ge> 64 then (if i64_is_negative v then - 1 else 0) else signed_drop_bit (unat magnitude) v)
         else if unat magnitude \<ge> 2 ^ 32 then None
         else if unat magnitude \<ge> 64 then None
         else i64_checked (sint v * sint (push_bit (unat magnitude) 1 :: i64)))"

definition hot_result :: "opcode \<Rightarrow> i64 \<Rightarrow> i64 \<Rightarrow> i64 option" where
  "hot_result op l r =
     (if op = Op_Add then i64_checked (sint l + sint r)
      else if op = Op_Sub then i64_checked (sint l - sint r)
      else if op = Op_Mul then i64_checked (sint l * sint r)
      else if op = Op_Div then (if r = 0 then None else i64_checked (sint l sdiv sint r))
      else if op = Op_Remainder \<and> r \<noteq> 0 then Some (of_int (sint l smod sint r))
      else if op = Op_Exponentiate \<and> sint r \<ge> 0 then (if sint r < 2 ^ 32 then i64_checked (sint l ^ nat (sint r)) else None)
      else if op = Op_BitwiseAnd then Some (l AND r)
      else if op = Op_BitwiseOr then Some (l OR r)
      else if op = Op_BitwiseXor then Some (l XOR r)
      else if op = Op_ShiftLeft then small_bigint_shift l r True
      else if op = Op_ShiftRight then small_bigint_shift l r False
      else None)"

definition small_bigint_binary_hot :: "opcode \<Rightarrow> js_value \<Rightarrow> js_value \<Rightarrow> js_value option" where
  "small_bigint_binary_hot op left right =
     Option.bind (as_small_bigint left) (\<lambda>l. Option.bind (as_small_bigint right) (\<lambda>r.
     Option.bind (hot_result op l r) from_small_bigint))"

definition small_bigint_not_hot :: "js_value \<Rightarrow> js_value option" where
  "small_bigint_not_hot v = Option.bind (as_small_bigint v) (\<lambda>x. from_small_bigint (NOT x))"

section \<open>Immediate BigInts\<close>

definition small_range :: "int \<Rightarrow> bool" where
  "small_range x \<longleftrightarrow> SMALL_BIGINT_MIN \<le> x \<and> x \<le> SMALL_BIGINT_MAX"

lemma sint_of_int: "- (2 ^ 63) \<le> x \<Longrightarrow> x < 2 ^ 63 \<Longrightarrow> sint (of_int x :: i64) = x"
  by (simp add: signed_of_int signed_take_bit_int_eq_self)

lemma small_range_i64: "small_range x \<Longrightarrow> - (2 ^ 63) \<le> x \<and> x < 2 ^ 63"
  by (simp add: small_range_def SMALL_BIGINT_MIN_def SMALL_BIGINT_MAX_def)

lemma sint_inject: "sint (x :: i64) = sint y \<longleftrightarrow> x = y"
  by (auto dest: signed_word_eqI)

lemma small_value_int:
  assumes "canonical b"
  shows "small_value b = (if small_range (bigint_int b) then Some (of_int (bigint_int b)) else None)"
proof (cases "bv_limbs b")
  case Nil
  then show ?thesis by (simp add: small_value_def bigint_int_def small_range_def SMALL_BIGINT_MIN_def SMALL_BIGINT_MAX_def)
next
  case (Cons m ms)
  have p: "unat (push_bit 47 1 :: u64) = 2 ^ 47" by simp
  show ?thesis
  proof (cases ms)
    case Nil
    have le: "m \<le> push_bit 47 1 \<longleftrightarrow> int (unat m) \<le> 2 ^ 47" "m < push_bit 47 1 \<longleftrightarrow> int (unat m) < 2 ^ 47"
      unfolding word_le_nat_alt word_less_nat_alt p
      by (metis of_nat_le_iff of_nat_numeral of_nat_power) (metis of_nat_less_iff of_nat_numeral of_nat_power)
    have "(of_int (int (unat m)) :: u64) = m" by simp
    moreover have "- (2 ^ 47) \<le> uint m" "- uint m \<le> 2 ^ 47 - 1" by (rule order_trans [of _ 0]; simp)+
    ultimately show ?thesis using Cons Nil le
      by (auto simp: small_value_def bigint_int_def small_range_def SMALL_BIGINT_MIN_def SMALL_BIGINT_MAX_def simp del: push_bit_of_1)
  next
    case two: (Cons n ns)
    then have "BASE ^ 1 \<le> BASE ^ (length (bv_limbs b) - 1)" using Cons by (intro power_increasing) simp_all
    also have "\<dots> \<le> magnitude (bv_limbs b)" using trimmed_magnitude [OF canonical_limbs [OF assms]] Cons by simp
    finally have "2 ^ 64 \<le> int (magnitude (bv_limbs b))" by (simp add: BASE_def)
    then have "\<not> small_range (bigint_int b)" by (auto simp: small_range_def bigint_int_def SMALL_BIGINT_MIN_def SMALL_BIGINT_MAX_def)
    then show ?thesis using Cons two by (simp add: small_value_def)
  qed
qed

lemma from_small_bigint_eq: "from_small_bigint x = (if small_range (sint x) then from_small_bigint x else None)"
  by (auto simp: from_small_bigint_def small_range_def)


lemma small_bigint_Some: "as_small_bigint v = Some x \<Longrightarrow> small_range (sint x)"
  by (auto simp: as_small_bigint_iff from_small_bigint_def small_range_def split: if_splits)

lemma from_small_bigint_range: "small_range (sint x) \<Longrightarrow> \<exists>v. from_small_bigint x = Some v"
  by (simp add: from_small_bigint_def small_range_def not_less)

text \<open>Publishing a canonical value in the immediate range yields its immediate and leaves the heap alone.\<close>

lemma allocate_small:
  assumes "canonical b" "bigint_int b = sint x" "from_small_bigint x = Some v"
  shows "allocate_bigint alloc h b = Ok (v, h)"
proof -
  have r: "small_range (sint x)" using assms(3) by (auto simp: from_small_bigint_def small_range_def split: if_splits)
  then have "small_value b = Some x" using small_value_int [OF assms(1)] assms(2) by simp
  then show ?thesis using assms(3) by (simp add: allocate_bigint_def)
qed

lemma i64_checked_Some: "i64_checked y = Some x \<longleftrightarrow> sint x = y"
proof -
  have "sint (of_int y :: i64) = y" if "- (2 ^ 63) \<le> y" "y < 2 ^ 63" using that by (rule sint_of_int)
  then show ?thesis using sint_range [of x] by (auto simp: i64_checked_def)
qed

lemma from_i64_length: "length (bv_limbs (from_i64 x)) \<le> 1"
  by (simp add: from_i64_def from_u64_def)

lemma sint_bitwise: "sint (x AND y :: i64) = sint x AND sint y" "sint (x OR y :: i64) = sint x OR sint y" "sint (x XOR y :: i64) = sint x XOR sint y"
  by (simp_all add: signed_and_eq signed_or_eq signed_xor_eq)
section \<open>The kernel agrees with the general operations\<close>

lemma small_range_abs: "small_range x \<Longrightarrow> nat \<bar>x\<bar> \<le> 2 ^ 47"
  by (simp add: small_range_def SMALL_BIGINT_MIN_def SMALL_BIGINT_MAX_def nat_le_iff abs_le_iff)

lemma smod_range: "\<bar>x smod y\<bar> \<le> \<bar>x :: int\<bar>"
proof -
  have "\<bar>x\<bar> mod \<bar>y\<bar> \<le> \<bar>x\<bar>" by (rule zmod_le_nonneg_dividend) simp
  moreover have "0 \<le> \<bar>x\<bar> mod \<bar>y\<bar>" by (cases "y = 0") simp_all
  ultimately show ?thesis by (auto simp: signed_modulo_int_def sgn_if abs_mult)
qed

lemma small_shift_right:
  assumes "small_range (sint v)"
  shows "sint (if m \<ge> 64 then (if i64_is_negative v then - 1 else 0) else signed_drop_bit (unat m) v) = sint v div 2 ^ unat (m :: u64)"
proof (cases "m \<ge> 64")
  case True
  then have "(2::int) ^ 64 \<le> 2 ^ unat m" by (intro power_increasing) (simp_all add: word_le_nat_alt)
  moreover have "- (2 ^ 64) \<le> sint v" "sint v < 2 ^ 64" using sint_range [of v] by simp_all
  ultimately have "- (2 ^ unat m) \<le> sint v" "sint v < 2 ^ unat m" by linarith+
  then have "sint v div 2 ^ unat m = (if sint v < 0 then - 1 else 0)"
    using int_div_pos_eq [of "sint v" "2 ^ unat m" "- 1" "sint v + 2 ^ unat m"] by auto
  then show ?thesis using True by (simp add: i64_is_negative_def)
next
  case False
  then show ?thesis by (simp add: sint_signed_drop_bit_eq drop_bit_eq_div)
qed

lemma unit_shift: "k < 63 \<Longrightarrow> sint (push_bit k 1 :: i64) = 2 ^ k" "sint (push_bit 63 1 :: i64) = - (2 ^ 63)"
proof -
  show "k < 63 \<Longrightarrow> sint (push_bit k 1 :: i64) = 2 ^ k"
    using sint_of_int [OF order_trans [of _ 0], of "2 ^ k"] power_strict_increasing [of k 63 "2 :: int"] by simp
  show "sint (push_bit 63 1 :: i64) = - (2 ^ 63)" by simp
qed

lemma small_shift_spec:
  assumes "small_bigint_shift l r left = Some x" "small_range (sint l)" "small_range (sint x)"
  shows "sint x = shift_int (sint l) (if left then sint r else - sint r)"
    and "sint l = 0 \<or> (if left then sint r else - sint r) < 64"
proof -
  let ?m = "unsigned_abs r" and ?k = "if left then sint r else - sint r"
  have m: "unat ?m = nat \<bar>sint r\<bar>" using unat_unsigned_abs [of r] by linarith
  have "sint x = shift_int (sint l) ?k \<and> (sint l = 0 \<or> ?k < 64)"
  proof (cases "left \<noteq> i64_is_negative r")
    case False
    then have x: "sint x = sint l div 2 ^ unat ?m" using assms(1) small_shift_right [OF assms(2), of ?m]
      by (simp add: small_bigint_shift_def Let_def)
    have "?k \<le> 0" "nat (- ?k) = unat ?m" using False m by (auto simp: i64_is_negative_def split: if_splits)
    then show ?thesis using x by (cases "?k = 0") (auto simp: shift_int_def)
  next
    case True
    then have k: "0 \<le> ?k" "nat ?k = unat ?m" using m by (auto simp: i64_is_negative_def split: if_splits)
    have lt: "unat ?m < 64" and x: "sint x = sint l * sint (push_bit (unat ?m) 1 :: i64)"
      using assms(1) True by (auto simp: small_bigint_shift_def Let_def i64_checked_Some split: if_splits)
    have "sint x = sint l * 2 ^ unat ?m"
    proof (cases "unat ?m = 63")
      case True
      then have "sint x = - (sint l * 2 ^ 63)" using x unit_shift(2) by simp
      then have "sint l = 0" using assms(3) by (auto simp: small_range_def SMALL_BIGINT_MIN_def SMALL_BIGINT_MAX_def)
      then show ?thesis using x by simp
    qed (use x lt unit_shift(1) in simp)
    then show ?thesis using k lt by (auto simp: shift_int_def)
  qed
  then show "sint x = shift_int (sint l) ?k" "sint l = 0 \<or> ?k < 64" by simp_all
qed

lemma small_not_wrapping: "\<not> shift_right_wraps (from_i64 x) s" if "small_range (sint x)"
proof
  assume w: "shift_right_wraps (from_i64 x) s"
  then have "s < 64 * length (bv_limbs (from_i64 x))" using bit_length_le [of "from_i64 x"] by (simp add: shift_right_wraps_def)
  then have "length (bv_limbs (from_i64 x)) = 1" "s div 64 = 0" using from_i64_length [of x] by auto
  then have "magnitude (bv_limbs (from_i64 x)) div 2 ^ s + 1 = BASE" using w by (simp add: shift_right_wraps_def)
  moreover have "magnitude (bv_limbs (from_i64 x)) \<le> 2 ^ 47"
    using small_range_abs [OF that] abs_bigint_int [of "from_i64 x"] by simp
  ultimately show False using div_le_dividend [of "magnitude (bv_limbs (from_i64 x))" "2 ^ s"] by (simp add: BASE_def)
qed

lemma small_exponent_demand:
  assumes "small_range (sint a ^ nat (sint e))" "0 \<le> sint e"
  shows "exponent_demand (from_i64 a) (from_i64 e) \<le> 3"
proof (cases "\<bar>sint a\<bar> \<le> 1")
  case False
  let ?n = "nat (sint e)" and ?l = "bit_length (from_i64 a)"
  have ne: "bv_limbs (from_i64 a) \<noteq> []" using False abs_bigint_int [of "from_i64 a"] by auto
  have "2 ^ (?l - 1) \<le> nat \<bar>sint a\<bar>"
    using magnitude_bit_length_ge(1) [OF canonical_limbs [OF from_i64_canonical [of a]] ne] abs_bigint_int [of "from_i64 a"]
    by (simp add: bit_length_def)
  then have "(2 ^ (?l - 1)) ^ ?n \<le> nat \<bar>sint a\<bar> ^ ?n" by (rule power_mono) simp
  also have "\<dots> = nat \<bar>sint a ^ ?n\<bar>" by (simp add: power_abs nat_power_eq)
  also have "\<dots> \<le> 2 ^ 47" by (rule small_range_abs [OF assms(1)])
  finally have "(2::nat) ^ ((?l - 1) * ?n) \<le> 2 ^ 47" by (simp only: power_mult)
  then have small: "(?l - 1) * ?n \<le> 47" by (rule power_le_imp_le_exp [rotated]) simp
  have "1 < ?l"
  proof (rule ccontr)
    assume "\<not> 1 < ?l"
    then have "(2::nat) ^ ?l \<le> 2 ^ 1" by (intro power_increasing) simp_all
    then have "magnitude (bv_limbs (from_i64 a)) < 2" using magnitude_bit_length_less [of "bv_limbs (from_i64 a)"] by (simp add: bit_length_def)
    then show False using False abs_bigint_int [of "from_i64 a"] by simp
  qed
  then have "?l * ?n \<le> 2 * ((?l - 1) * ?n)" unfolding mult.assoc [symmetric] by (intro mult_le_mono1) simp
  then have "?l * ?n \<le> 94" using small by linarith
  then have "?l * ?n div 64 \<le> 94 div 64" by (rule div_le_mono)
  then show ?thesis using False by (simp add: exponent_demand_def)
qed (simp add: exponent_demand_def)

lemma hot_spec:
  assumes "hot_result op l r = Some x" "small_range (sint l)" "small_range (sint x)"
  shows "op \<in> set bigint_binary_opcodes" "op \<noteq> Op_ShiftRightUnsigned" "binary_spec op (sint l) (sint r) = Ok (sint x)"
    "binary_demand op (from_i64 l) (from_i64 r) \<le> 3"
proof -
  have zero: "sint r = 0 \<longleftrightarrow> r = 0" using sint_inject [of r 0] by simp
  have len: "length (bv_limbs (from_i64 l)) \<le> 1" "length (bv_limbs (from_i64 r)) \<le> 1" by (rule from_i64_length)+
  have rem: "sint (of_int (sint l smod sint r) :: i64) = sint l smod sint r"
    using smod_range [of "sint l" "sint r"] assms(2)
    by (intro sint_of_int) (auto simp: small_range_def SMALL_BIGINT_MIN_def SMALL_BIGINT_MAX_def)
  have shift: "shift_demand (from_i64 l) k \<le> 3" if "sint l = 0 \<or> k < 64" for k
    using that is_zero_iff [OF from_i64_canonical, of l] len(1) by (auto simp: shift_demand_def)
  consider "op = Op_Add" | "op = Op_Sub" | "op = Op_Mul" | "op = Op_Div" | "op = Op_Remainder" | "op = Op_Exponentiate"
    | "op = Op_BitwiseAnd" | "op = Op_BitwiseOr" | "op = Op_BitwiseXor" | "op = Op_ShiftLeft" | "op = Op_ShiftRight"
    using assms(1) unfolding hot_result_def by (meson option.distinct(1))
  then have "op \<in> set bigint_binary_opcodes \<and> op \<noteq> Op_ShiftRightUnsigned \<and> binary_spec op (sint l) (sint r) = Ok (sint x) \<and>
    binary_demand op (from_i64 l) (from_i64 r) \<le> 3"
  proof cases
    case 6
    then show ?thesis using assms small_exponent_demand [of l r]
      by (simp add: hot_result_def operator_simps bigint_binary_opcodes_def i64_checked_Some split: if_splits)
  next
    case 10
    then show ?thesis using assms small_shift_spec [of l r True x] shift
      by (simp add: hot_result_def operator_simps bigint_binary_opcodes_def)
  next
    case 11
    then show ?thesis using assms small_shift_spec [of l r False x] shift
      by (simp add: hot_result_def operator_simps bigint_binary_opcodes_def)
  qed (use assms zero len rem in \<open>simp_all add: hot_result_def operator_simps bigint_binary_opcodes_def i64_checked_Some sint_bitwise [symmetric] bitwise_int_def
      split: if_splits\<close>)
  then show "op \<in> set bigint_binary_opcodes" "op \<noteq> Op_ShiftRightUnsigned" "binary_spec op (sint l) (sint r) = Ok (sint x)"
    "binary_demand op (from_i64 l) (from_i64 r) \<le> 3" by simp_all
qed

text \<open>C37. The allocation-free kernel of the interpreter is an optimisation of the general BigInt path: whenever
  it returns a value for two immediate operands, the general path returns the same value, without
  touching the heap, provided three limbs can be allocated for its temporaries.\<close>

theorem hot_path_agrees:
  assumes "small_bigint_binary_hot op left right = Some v" "\<forall>k \<le> 3. grants k"
  shows "isolate_binary_operation grants alloc h op left right = Ok (v, h)"
proof -
  obtain l r x where l: "as_small_bigint left = Some l" and r: "as_small_bigint right = Some r"
    and x: "hot_result op l r = Some x" "from_small_bigint x = Some v"
    using assms(1) by (auto simp: small_bigint_binary_hot_def bind_eq_Some_conv)
  have sx: "small_range (sint x)" using x(2) small_bigint_Some as_small_bigint_iff by blast
  note spec = hot_spec [OF x(1) small_bigint_Some [OF l] sx]
  have "\<not> carry_lost op (from_i64 l) (from_i64 r)" using small_not_wrapping [OF small_bigint_Some [OF l]] by (simp add: carry_lost_def)
  moreover have "addressable (from_i64 l)" using from_i64_length [of l] by (simp add: addressable_def BASE_def)
  ultimately have "meets grants (binary_demand op (from_i64 l) (from_i64 r)) (bigint_binary_operation grants op (from_i64 l) (from_i64 r)) (Ok (sint x))"
    using bigint_operators_meet [of "from_i64 l" "from_i64 r" op grants] spec(1,3) by simp
  moreover have "affordable grants (binary_demand op (from_i64 l) (from_i64 r))"
    using spec(4) assms(2) by (auto simp: affordable_def MAX_RESULT_BITS_def div_ceil_def)
  ultimately obtain b where b: "bigint_binary_operation grants op (from_i64 l) (from_i64 r) = Ok b" "canonical b" "bigint_int b = sint x"
    by (auto simp: meets_def)
  then show ?thesis using spec(2) l r allocate_small [OF b(2,3) x(2)] by (simp add: isolate_binary_operation_def bigint_value_snapshot_def)
qed

lemma hot_not_agrees:
  assumes "small_bigint_not_hot v = Some w" "\<forall>k \<le> 3. grants k"
  shows "isolate_bitwise_not grants alloc h v = Ok (w, h)"
proof -
  obtain x where x: "as_small_bigint v = Some x" "from_small_bigint (NOT x) = Some w"
    using assms(1) by (auto simp: small_bigint_not_hot_def bind_eq_Some_conv)
  have "affordable grants (max (length (bv_limbs (from_i64 x))) 1 + 1)"
    using from_i64_length [of x] assms(2) by (auto simp: affordable_def MAX_RESULT_BITS_def div_ceil_def)
  then obtain b where b: "bigint_bitwise_not grants (from_i64 x) = Ok b" "canonical b" "bigint_int b = NOT (sint x)"
    using bigint_not_computes [OF from_i64_canonical, of grants x] by (auto simp: computes_def)
  have "NOT x = of_int (NOT (sint x))" by (simp add: not_int_def not_eq_complement)
  moreover have "- (2 ^ 63) \<le> NOT (sint x)" "NOT (sint x) < 2 ^ 63" using sint_range [of x] by (simp_all add: not_int_def)
  ultimately have "sint (NOT x) = NOT (sint x)" using sint_of_int by metis
  then show ?thesis using x b allocate_small [OF b(2) _ x(2)] by (simp add: isolate_bitwise_not_def bigint_value_snapshot_def)
qed

theorem hot_path_agrees_witness:
  "\<exists>l r v. from_small_bigint 6 = Some l \<and> from_small_bigint 7 = Some r \<and> from_small_bigint 42 = Some v \<and>
    isolate_binary_operation (\<lambda>_. True) (\<lambda>_ _. None) Map.empty Op_Mul l r = Ok (v, Map.empty)"
proof -
  have range: "small_range (sint (6 :: i64))" "small_range (sint (7 :: i64))" "small_range (sint (42 :: i64))"
    by (simp_all add: small_range_def SMALL_BIGINT_MIN_def SMALL_BIGINT_MAX_def)
  then obtain l r v where v: "from_small_bigint 6 = Some l" "from_small_bigint 7 = Some r" "from_small_bigint 42 = Some v"
    using from_small_bigint_range by meson
  then have "small_bigint_binary_hot Op_Mul l r = Some v"
    by (simp add: small_bigint_binary_hot_def as_small_bigint_iff [symmetric] hot_result_def opcode_eq_iff i64_checked_def)
  then show ?thesis using v hot_path_agrees [of Op_Mul l r v "\<lambda>_. True" "\<lambda>_ _. None" Map.empty] by blast
qed
section \<open>Canonical heaps\<close>

text \<open>Every BigInt cell is canonical, outside the immediate range and addressable.\<close>

definition heap_canonical :: "vm_heap \<Rightarrow> bool" where
  "heap_canonical h \<longleftrightarrow>
     (\<forall>raw b. h raw = Some (Cell_BigInt b) \<longrightarrow> (ucast raw :: u16) \<noteq> 0 \<and> canonical b \<and> \<not> small_range (bigint_int b))"

text \<open>The allocator hands out a valid reference that is not in use.\<close>

definition fresh_allocator :: "(vm_heap \<Rightarrow> bigint_value \<Rightarrow> raw_heap_ref option) \<Rightarrow> bool" where
  "fresh_allocator alloc \<longleftrightarrow> (\<forall>h b raw. alloc h b = Some raw \<longrightarrow> h raw = None \<and> (ucast raw :: u16) \<noteq> 0)"

lemma heap_canonicalD:
  assumes "heap_canonical h" "bigint_reference h v = Ok b"
  shows "canonical b" "\<not> small_range (bigint_int b)"
  using assms by (auto simp: heap_canonical_def bigint_reference_def split: option.splits heap_cell.splits)

lemma snapshot_cases:
  assumes "heap_canonical h" "bigint_value_snapshot h v = Ok b"
  obtains (small) x where "as_small_bigint v = Some x" "b = from_i64 x" "small_range (sint x)"
    | (heap) "as_small_bigint v = None" "bigint_reference h v = Ok b" "canonical b" "\<not> small_range (bigint_int b)"
proof (cases "as_small_bigint v")
  case (Some x)
  then show ?thesis using small [OF Some] assms(2) small_bigint_Some by (simp add: bigint_value_snapshot_def)
next
  case None
  then have "bigint_reference h v = Ok b" using assms(2) by (simp add: bigint_value_snapshot_def)
  then show ?thesis using heap None heap_canonicalD [OF assms(1)] by blast
qed

lemma snapshot_canonical: "heap_canonical h \<Longrightarrow> bigint_value_snapshot h v = Ok b \<Longrightarrow> canonical b"
  by (erule (1) snapshot_cases) simp_all

lemma reverse_ordering_of: "reverse_ordering (ordering_of x y) = ordering_of y x"
  by (auto simp: ordering_of_def)

lemma bigint_compare_values:
  assumes "heap_canonical h" "bigint_value_snapshot h left = Ok a" "bigint_value_snapshot h right = Ok b"
  shows "bigint_equal h left right = Ok (bigint_int a = bigint_int b) \<and>
    bigint_compare h left right = Ok (ordering_of (bigint_int a) (bigint_int b))"
proof (cases rule: snapshot_cases [OF assms(1,2), case_names small heap])
  case (small x)
  show ?thesis
  proof (cases rule: snapshot_cases [OF assms(1,3), case_names small heap])
    case small2: (small y)
    then show ?thesis using small by (simp add: bigint_equal_def bigint_compare_def sint_inject)
  next
    case heap
    then show ?thesis using small
      by (auto simp: bigint_equal_def bigint_compare_def heap_bigint_equals_small_def equals_small_int mathematical_cmp_i64_int reverse_ordering_of)
  qed
next
  case heap
  show ?thesis
  proof (cases rule: snapshot_cases [OF assms(1,3), case_names small heap])
    case (small y)
    then show ?thesis using heap
      by (auto simp: bigint_equal_def bigint_compare_def heap_bigint_equals_small_def equals_small_int mathematical_cmp_i64_int)
  next
    case heap2: heap
    have "a = b \<longleftrightarrow> bigint_int a = bigint_int b" using heap(3) heap2(3) canonical_inject by blast
    then show ?thesis using heap heap2 by (simp add: bigint_equal_def bigint_compare_def mathematical_cmp_int)
  qed
qed

text \<open>C39. Comparing BigInts compares integers, whichever representation the operands have: on a canonical heap
  equality of two BigInt values is equality of their integers and \<open>bigint_compare\<close> is the order of the
  integers. An immediate and a heap cell are never equal.\<close>

theorem bigint_comparison_exact:
  assumes "heap_canonical h" "bigint_value_snapshot h left = Ok a" "bigint_value_snapshot h right = Ok b"
  shows "bigint_equal h left right = Ok (bigint_int a = bigint_int b) \<and>
    bigint_compare h left right = Ok (ordering_of (bigint_int a) (bigint_int b))"
  using bigint_compare_values [OF assms] .

theorem bigint_comparison_exact_witness:
  "\<exists>v. from_small_bigint 5 = Some v \<and> bigint_equal Map.empty v v = Ok True \<and> bigint_compare Map.empty v v = Ok Ord_Equal"
proof -
  obtain v where v: "from_small_bigint 5 = Some v"
    using from_small_bigint_range [of 5] by (auto simp: small_range_def SMALL_BIGINT_MIN_def SMALL_BIGINT_MAX_def)
  have "bigint_value_snapshot Map.empty v = Ok (from_i64 5)" using v by (simp add: bigint_value_snapshot_def as_small_bigint_iff [symmetric])
  then show ?thesis using v bigint_comparison_exact [of Map.empty v "from_i64 5" v "from_i64 5"]
    by (auto simp: heap_canonical_def ordering_of_def)
qed

lemma allocate_bigint_ok:
  assumes "heap_canonical h" "fresh_allocator alloc" "canonical b" "allocate_bigint alloc h b = Ok (v, h')"
  shows "heap_canonical h'" "bigint_value_snapshot h' v = Ok b" "h \<subseteq>\<^sub>m h'"
proof -
  have "heap_canonical h' \<and> bigint_value_snapshot h' v = Ok b \<and> h \<subseteq>\<^sub>m h'"
  proof (cases "small_range (bigint_int b)")
    case True
    let ?x = "of_int (bigint_int b) :: i64"
    have x: "sint ?x = bigint_int b" using sint_of_int small_range_i64 [OF True] by blast
    have "small_value b = Some ?x" using small_value_int [OF assms(3)] True by simp
    then have v: "from_small_bigint ?x = Some v" "h' = h"
      using assms(4) by (auto simp: allocate_bigint_def outcome_simps)
    have "from_i64 ?x = b" using x assms(3) by (intro canonical_inject) simp_all
    then show ?thesis using v assms(1) by (simp add: bigint_value_snapshot_def as_small_bigint_iff [symmetric])
  next
    case False
    then have "small_value b = None" using small_value_int [OF assms(3)] by simp
    then obtain raw where raw: "alloc h b = Some raw" "v = from_heap_ref raw" "h' = h(raw \<mapsto> Cell_BigInt b)"
      using assms(4) by (auto simp: allocate_bigint_def outcome_simps)
    have ok: "h raw = None" "(ucast raw :: u16) \<noteq> 0" using assms(2) raw(1) by (auto simp: fresh_allocator_def)
    then show ?thesis using raw(2,3) assms(1,3) False heap_ref_value [OF ok(2)]
      by (auto simp: heap_canonical_def bigint_value_snapshot_def bigint_reference_def map_le_def)
  qed
  then show "heap_canonical h'" "bigint_value_snapshot h' v = Ok b" "h \<subseteq>\<^sub>m h'" by simp_all
qed


definition one_cell_allocator :: "vm_heap \<Rightarrow> bigint_value \<Rightarrow> raw_heap_ref option" where
  "one_cell_allocator h b = (if h 1 = None then Some 1 else None)"


section \<open>Unary operations\<close>

text \<open>The low 64 bits written by typed arrays and data views.\<close>

lemma modulo_u64_int: "uint (modulo_u64 b) = bigint_int b mod 2 ^ 64"
proof -
  define low where "low = (case bv_limbs b of [] \<Rightarrow> 0 | x # _ \<Rightarrow> x)"
  have m: "magnitude (bv_limbs b) mod BASE = unat low" by (cases "bv_limbs b") (simp_all add: low_def)
  have b: "int BASE = 2 ^ 64" by (simp add: BASE_def)
  have i: "int (magnitude (bv_limbs b)) mod 2 ^ 64 = uint low"
    using arg_cong [OF m, of int] unfolding zmod_int b by simp
  show ?thesis
  proof (cases "bv_negative b")
    case True
    have "uint (0 - low) = (- uint low) mod 2 ^ 64" by (simp add: uint_word_ariths)
    also have "\<dots> = (- int (magnitude (bv_limbs b))) mod 2 ^ 64" unfolding i [symmetric] by (rule mod_minus_eq)
    finally show ?thesis using True by (simp add: modulo_u64_def bigint_int_def low_def [symmetric])
  next
    case False
    then show ?thesis using i by (simp add: modulo_u64_def bigint_int_def low_def [symmetric])
  qed
qed

lemma bigint_modulo_exact:
  assumes "bigint_value_snapshot h v = Ok b"
  shows "\<exists>w. bigint_modulo_u64 h v = Ok w \<and> uint w = bigint_int b mod 2 ^ 64"
proof (cases "as_small_bigint v")
  case None
  then show ?thesis using assms modulo_u64_int [of b] by (simp add: bigint_modulo_u64_def bigint_value_snapshot_def)
next
  case (Some x)
  then have "b = from_i64 x" using assms by (simp add: bigint_value_snapshot_def)
  moreover have "uint x = sint x mod 2 ^ 64" by (simp add: uint_sint take_bit_eq_mod)
  ultimately show ?thesis using Some by (simp add: bigint_modulo_u64_def)
qed

lemma bigint_not_closed:
  assumes "heap_canonical h" "fresh_allocator alloc" "bigint_value_snapshot h v = Ok a" "isolate_bitwise_not grants alloc h v = Ok (w, h')"
  shows "heap_canonical h' \<and> h \<subseteq>\<^sub>m h' \<and> (\<exists>r. bigint_value_snapshot h' w = Ok r \<and> canonical r \<and> bigint_int r = NOT (bigint_int a))"
proof -
  obtain r where r: "bigint_bitwise_not grants a = Ok r" "allocate_bigint alloc h r = Ok (w, h')"
    using assms(3,4) by (auto simp: isolate_bitwise_not_def outcome_simps)
  have "canonical r" "bigint_int r = NOT (bigint_int a)"
    using bigint_not_computes [OF snapshot_canonical [OF assms(1,3)], of grants] r(1) by (auto simp: computes_def)
  then show ?thesis using allocate_bigint_ok [OF assms(1,2) _ r(2)] by blast
qed

end
