(* ===== verification/Js_Equality.thy ===== *)
theory Js_Equality
  imports Complex_Main BigInt_Small
begin

text \<open>
  The equalities of the language, from \<open>crates/tachyon-vm/src/conversion/mod.rs\<close> and \<open>numeric.rs\<close>: strict equality, SameValue,
  SameValueZero, the heap-free fast path of strict equality and truthiness, over the values and the heap of the BigInt
  theories. \<open>language_value\<close> is the value of the language behind the bits; the comparisons are shown to decide equality of it.
  A string cell holds code units, which decide equality of strings.
\<close>

unbundle bit_operations_syntax

section \<open>Numbers\<close>

text \<open>Doubles are their bit patterns: the comparison \<open>==\<close>, the sign and the conversion from \<open>i32\<close>, which is exact.\<close>

definition f64_is_zero :: "f64_bits \<Rightarrow> bool" where
  "f64_is_zero bits \<longleftrightarrow> bits = 0 \<or> bits = 0x8000000000000000"

definition f64_eq :: "f64_bits \<Rightarrow> f64_bits \<Rightarrow> bool" where
  "f64_eq a b \<longleftrightarrow> \<not> f64_is_nan a \<and> \<not> f64_is_nan b \<and> (a = b \<or> f64_is_zero a \<and> f64_is_zero b)"

definition f64_is_sign_negative :: "f64_bits \<Rightarrow> bool" where
  "f64_is_sign_negative a \<longleftrightarrow> bit a 63"

definition f64_pack :: "nat \<Rightarrow> nat \<Rightarrow> f64_bits" where
  "f64_pack exponent mantissa = word_of_nat (exponent * 2 ^ 52 + mantissa)"

definition f64_from_i32 :: "32 word \<Rightarrow> f64_bits" where
  "f64_from_i32 x =
     (let m = nat \<bar>sint x\<bar>; e = bit_width m - 1; low = f64_pack (1023 + e) ((m - 2 ^ e) * 2 ^ (52 - e))
      in if m = 0 then 0 else if sint x < 0 then low OR 0x8000000000000000 else low)"

definition numeric_value :: "js_value \<Rightarrow> f64_bits option" where
  "numeric_value v = (case map_option f64_from_i32 (as_i32 v) of Some n \<Rightarrow> Some n | None \<Rightarrow> as_f64 v)"

section \<open>Equality\<close>

definition strict_equal_values :: "vm_heap \<Rightarrow> js_value \<Rightarrow> js_value \<Rightarrow> bool execution" where
  "strict_equal_values h left right =
     (case (numeric_value left, numeric_value right) of
        (Some l, Some r) \<Rightarrow> Ok (f64_eq l r)
      | (Some _, None) \<Rightarrow> Ok False
      | (None, Some _) \<Rightarrow> Ok False
      | (None, None) \<Rightarrow>
          let left_bigint = is_bigint_value h left; right_bigint = is_bigint_value h right in
          if left_bigint \<or> right_bigint then (if left_bigint \<and> right_bigint then bigint_equal h left right else Ok False)
          else if left = right then Ok True
          else case (as_heap_ref left, as_heap_ref right) of
                 (Some l, Some r) \<Rightarrow>
                   (case (h l, h r) of (Some (Cell_String l), Some (Cell_String r)) \<Rightarrow> Ok (l = r) | _ \<Rightarrow> Ok False)
               | _ \<Rightarrow> Ok False)"

definition same_value :: "vm_heap \<Rightarrow> js_value \<Rightarrow> js_value \<Rightarrow> bool execution" where
  "same_value h left right =
     (case (numeric_value left, numeric_value right) of
        (Some l, Some r) \<Rightarrow>
          if f64_is_nan l \<and> f64_is_nan r then Ok True
          else if f64_eq l 0 \<and> f64_eq r 0 then Ok (f64_is_sign_negative l = f64_is_sign_negative r)
          else Ok (f64_eq l r)
      | _ \<Rightarrow> strict_equal_values h left right)"

definition same_value_zero :: "vm_heap \<Rightarrow> js_value \<Rightarrow> js_value \<Rightarrow> bool execution" where
  "same_value_zero h left right =
     (case (numeric_value left, numeric_value right) of
        (Some l, Some r) \<Rightarrow> Ok (f64_is_nan l \<and> f64_is_nan r \<or> f64_eq l r)
      | _ \<Rightarrow> strict_equal_values h left right)"

definition strict_equal_hot :: "js_value \<Rightarrow> js_value \<Rightarrow> bool option" where
  "strict_equal_hot left right =
     (case (numeric_value left, numeric_value right) of
        (Some l, Some r) \<Rightarrow> Some (f64_eq l r)
      | (Some _, None) \<Rightarrow> Some False
      | (None, Some _) \<Rightarrow> Some False
      | (None, None) \<Rightarrow>
          (case (as_small_bigint left, as_small_bigint right) of
             (Some l, Some r) \<Rightarrow> Some (l = r)
           | (Some _, None) \<Rightarrow> Some False
           | (None, Some _) \<Rightarrow> Some False
           | (None, None) \<Rightarrow>
               if left = right then Some True
               else if as_heap_ref left \<noteq> None \<and> as_heap_ref right \<noteq> None then None
               else Some False))"

definition boolean_value :: "bool \<Rightarrow> js_value" where
  "boolean_value b = from_immediate (if b then True_Value else False_Value)"

definition is_non_string_truthy :: "js_value \<Rightarrow> bool" where
  "is_non_string_truthy v =
     (case as_i32 v of
        Some i \<Rightarrow> i \<noteq> 0
      | None \<Rightarrow> (case as_f64 v of
          Some n \<Rightarrow> \<not> f64_eq n 0 \<and> \<not> f64_is_nan n
        | None \<Rightarrow> (case as_small_bigint v of
            Some b \<Rightarrow> b \<noteq> 0
          | None \<Rightarrow> as_immediate v \<notin> {Some Undefined, Some Null, Some False_Value})))"

definition is_truthy_value :: "vm_heap \<Rightarrow> js_value \<Rightarrow> bool execution" where
  "is_truthy_value h v =
     (case Option.bind (as_heap_ref v) h of
        Some (Cell_String units) \<Rightarrow> Ok (units \<noteq> [])
      | _ \<Rightarrow> Ok (is_non_string_truthy v))"

definition is_nullish :: "js_value \<Rightarrow> bool" where
  "is_nullish v \<longleftrightarrow> as_immediate v \<in> {Some Undefined, Some Null}"

section \<open>Language values\<close>

text \<open>The value of the language behind the bits: numbers up to the sign of zero, with one NaN, BigInts as integers, strings
  as code units; every other value is itself.\<close>

datatype language_value = LV_NaN | LV_Number f64_bits | LV_BigInt int | LV_String "u16 list" | LV_Other js_value

definition number_class :: "f64_bits \<Rightarrow> language_value" where
  "number_class n = (if f64_is_nan n then LV_NaN else if f64_is_zero n then LV_Number 0 else LV_Number n)"

definition language_value :: "vm_heap \<Rightarrow> js_value \<Rightarrow> language_value" where
  "language_value h v =
     (case numeric_value v of
        Some n \<Rightarrow> number_class n
      | None \<Rightarrow>
          if is_bigint_value h v then (case bigint_value_snapshot h v of Ok b \<Rightarrow> LV_BigInt (bigint_int b) | _ \<Rightarrow> LV_Other v)
          else (case Option.bind (as_heap_ref v) h of Some (Cell_String units) \<Rightarrow> LV_String units | _ \<Rightarrow> LV_Other v))"

definition negative_zero :: "js_value \<Rightarrow> bool" where
  "negative_zero v \<longleftrightarrow> numeric_value v = Some 0x8000000000000000"

lemma zero_not_nan [simp]: "\<not> f64_is_nan 0" "\<not> f64_is_nan 0x8000000000000000"
  by (simp_all add: f64_is_nan_def)

lemma f64_eq_class: "f64_eq a b \<longleftrightarrow> number_class a = number_class b \<and> number_class a \<noteq> LV_NaN"
  by (auto simp: f64_eq_def number_class_def f64_is_zero_def)

lemma number_class_NaN: "number_class n = LV_NaN \<longleftrightarrow> f64_is_nan n"
  by (simp add: number_class_def)

lemma number_class_shape: "number_class n \<noteq> LV_BigInt i" "number_class n \<noteq> LV_String u" "number_class n \<noteq> LV_Other v"
  by (simp_all add: number_class_def)

lemma bigint_has_snapshot: "is_bigint_value h v \<Longrightarrow> \<exists>b. bigint_value_snapshot h v = Ok b"
  by (auto simp: is_bigint_value_def bigint_value_snapshot_def bigint_reference_def split: option.splits heap_cell.splits)

lemma bigint_equal_values:
  assumes "heap_canonical h" "is_bigint_value h l" "is_bigint_value h r" "numeric_value l = None" "numeric_value r = None"
  shows "bigint_equal h l r = Ok (language_value h l = language_value h r)"
proof -
  obtain a b where ab: "bigint_value_snapshot h l = Ok a" "bigint_value_snapshot h r = Ok b"
    using assms(2,3) bigint_has_snapshot by metis
  then have "bigint_equal h l r = Ok (bigint_int a = bigint_int b)" using bigint_compare_values [OF assms(1) ab] by simp
  then show ?thesis using assms ab by (simp add: language_value_def)
qed

lemma language_value_bigint:
  assumes "numeric_value v = None"
  shows "(\<exists>i. language_value h v = LV_BigInt i) \<longleftrightarrow> is_bigint_value h v"
  using assms bigint_has_snapshot [of h v] by (auto simp: language_value_def split: option.splits heap_cell.splits)

lemma language_value_cases:
  assumes "numeric_value v = None"
  shows "language_value h v =
    (if is_bigint_value h v then LV_BigInt (bigint_int (case bigint_value_snapshot h v of Ok b \<Rightarrow> b))
     else case Option.bind (as_heap_ref v) h of Some (Cell_String units) \<Rightarrow> LV_String units | _ \<Rightarrow> LV_Other v)"
  using assms bigint_has_snapshot [of h v] by (auto simp: language_value_def)

lemma language_value_number: "numeric_value v = Some n \<Longrightarrow> language_value h v = number_class n"
  by (simp add: language_value_def)

lemma strict_equal_exact:
  assumes "heap_canonical h"
  shows "strict_equal_values h l r = Ok (language_value h l = language_value h r \<and> language_value h l \<noteq> LV_NaN)"
proof (cases "numeric_value l")
  case number: (Some a)
  show ?thesis
  proof (cases "numeric_value r")
    case (Some b)
    then show ?thesis using number by (simp add: strict_equal_values_def f64_eq_class language_value_def)
  next
    case None
    then show ?thesis using number
      by (auto simp: strict_equal_values_def language_value_cases language_value_def [of h l] number_class_def split: option.splits heap_cell.splits)
  qed
next
  case left: None
  show ?thesis
  proof (cases "numeric_value r")
    case (Some b)
    then show ?thesis using left
      by (auto simp: strict_equal_values_def language_value_cases language_value_def [of h r] number_class_def split: option.splits heap_cell.splits)
  next
    case right: None
    have no_nan: "language_value h l \<noteq> LV_NaN" using left by (auto simp: language_value_cases split: option.splits heap_cell.splits)
    consider (both) "is_bigint_value h l" "is_bigint_value h r" | (one) "is_bigint_value h l \<noteq> is_bigint_value h r"
      | (none) "\<not> is_bigint_value h l" "\<not> is_bigint_value h r" by blast
    then show ?thesis
    proof cases
      case both
      then show ?thesis
        using bigint_equal_values [OF assms both left right] no_nan left right by (simp add: strict_equal_values_def)
    next
      case one
      then have "language_value h l \<noteq> language_value h r"
        using language_value_bigint [OF left, of h] language_value_bigint [OF right, of h] by metis
      then show ?thesis using one left right by (auto simp: strict_equal_values_def Let_def)
    next
      case none
      then show ?thesis using left right
        by (auto simp: strict_equal_values_def Let_def language_value_cases split: option.splits heap_cell.splits)
    qed
  qed
qed

lemma same_value_zero_exact:
  assumes "heap_canonical h"
  shows "same_value_zero h l r = Ok (language_value h l = language_value h r)"
proof (cases "\<exists>a b. numeric_value l = Some a \<and> numeric_value r = Some b")
  case True
  then show ?thesis by (auto simp: same_value_zero_def language_value_number f64_eq_def number_class_def f64_is_zero_def)
next
  case False
  then have "language_value h l \<noteq> LV_NaN \<or> language_value h l \<noteq> language_value h r"
    by (auto simp: language_value_def number_class_def split: option.splits if_splits outcome.splits heap_cell.splits)
  moreover have "same_value_zero h l r = strict_equal_values h l r" using False by (auto simp: same_value_zero_def split: option.splits)
  ultimately show ?thesis using strict_equal_exact [OF assms] by auto
qed

lemma f64_eq_zero: "f64_eq n 0 \<longleftrightarrow> f64_is_zero n"
  by (auto simp: f64_eq_def f64_is_zero_def)

lemma zero_sign [simp]: "\<not> f64_is_sign_negative 0" "f64_is_sign_negative 0x8000000000000000"
  by (simp_all add: f64_is_sign_negative_def)

lemma same_value_exact:
  assumes "heap_canonical h"
  shows "same_value h l r = Ok (language_value h l = language_value h r \<and> (negative_zero l \<longleftrightarrow> negative_zero r))"
proof (cases "\<exists>a b. numeric_value l = Some a \<and> numeric_value r = Some b")
  case True
  then obtain a b where ab: "numeric_value l = Some a" "numeric_value r = Some b" by blast
  have "language_value h l = number_class a" "language_value h r = number_class b" using ab by (simp_all add: language_value_def)
  then show ?thesis
    using ab by (auto simp: same_value_def negative_zero_def f64_eq_zero number_class_def f64_eq_def) (auto simp: f64_is_zero_def)
next
  case False
  then have "same_value h l r = same_value_zero h l r" by (auto simp: same_value_def same_value_zero_def split: option.splits)
  moreover have "negative_zero l \<longleftrightarrow> negative_zero r" if "language_value h l = language_value h r"
    using False that by (auto simp: negative_zero_def language_value_def number_class_def split: option.splits if_splits outcome.splits heap_cell.splits)
  ultimately show ?thesis using same_value_zero_exact [OF assms] by auto
qed

lemma small_bigint_value: "as_small_bigint v = Some x \<Longrightarrow> is_bigint_value h v \<and> bigint_value_snapshot h v = Ok (from_i64 x)"
  by (simp add: is_bigint_value_def bigint_value_snapshot_def)

lemma immediate_bigint_differs:
  assumes canonical: "heap_canonical h" and small: "as_small_bigint l = Some x" "as_small_bigint r = None" and r: "is_bigint_value h r"
  shows "bigint_equal h l r = Ok False" "bigint_equal h r l = Ok False"
proof -
  obtain b where b: "bigint_value_snapshot h r = Ok b" using bigint_has_snapshot [OF r] ..
  have l: "bigint_value_snapshot h l = Ok (from_i64 x)" using small_bigint_value [OF small(1)] by simp
  have "\<not> small_range (bigint_int b)"
    using canonical b by (cases rule: snapshot_cases) (use small in auto)
  moreover have "small_range (bigint_int (from_i64 x))"
    using canonical l by (cases rule: snapshot_cases) (use small in auto)
  ultimately show "bigint_equal h l r = Ok False" "bigint_equal h r l = Ok False"
    using bigint_compare_values [OF canonical l b] bigint_compare_values [OF canonical b l] by auto
qed

lemma strict_equal_hot_agrees:
  assumes canonical: "heap_canonical h" and hot: "strict_equal_hot l r = Some b"
  shows "strict_equal_values h l r = Ok b"
proof (cases "numeric_value l = None \<and> numeric_value r = None")
  case False
  then show ?thesis using hot by (auto simp: strict_equal_hot_def strict_equal_values_def split: option.splits)
next
  case True
  then have unfold: "strict_equal_values h l r =
      (if is_bigint_value h l \<or> is_bigint_value h r
       then if is_bigint_value h l \<and> is_bigint_value h r then bigint_equal h l r else Ok False
       else if l = r then Ok True
       else case (as_heap_ref l, as_heap_ref r) of
              (Some a, Some b) \<Rightarrow> (case (h a, h b) of (Some (Cell_String a), Some (Cell_String b)) \<Rightarrow> Ok (a = b) | _ \<Rightarrow> Ok False)
            | _ \<Rightarrow> Ok False)"
    by (simp add: strict_equal_values_def Let_def)
  show ?thesis
  proof (cases "as_small_bigint l = None \<and> as_small_bigint r = None")
    case heap: True
    show ?thesis
    proof (cases "l = r")
      case same: True
      have "b" using hot True heap same by (simp add: strict_equal_hot_def)
      moreover have "bigint_equal h l l = Ok True" if "is_bigint_value h l"
        using bigint_equal_values [OF canonical that that] True same by simp
      ultimately show ?thesis using unfold same by simp
    next
      case False
      then have "\<not> b" "as_heap_ref l = None \<or> as_heap_ref r = None"
        using hot True heap by (auto simp: strict_equal_hot_def split: if_splits)
      then show ?thesis using unfold heap False by (auto simp: is_bigint_value_def split: option.splits)
    qed
  next
    case small: False
    then show ?thesis
      using hot True unfold immediate_bigint_differs [OF canonical, of l _ r] immediate_bigint_differs [OF canonical, of r _ l] small_bigint_value
      by (auto simp: strict_equal_hot_def bigint_equal_def split: option.splits if_splits)
  qed
qed

section \<open>Integers as doubles\<close>

text \<open>The real number a finite double stands for.\<close>

definition f64_value :: "f64_bits \<Rightarrow> real" where
  "f64_value n =
     (let e = unat (drop_bit 52 (n AND 0x7fffffffffffffff)); m = unat (n AND 0x000fffffffffffff);
          x = (if e = 0 then real m / 2 ^ 1074 else real (2 ^ 52 + m) * 2 ^ e / 2 ^ 1075)
      in if bit n 63 then - x else x)"

lemma f64_fields:
  assumes "e < 2047" "m < 2 ^ 52"
  shows "unat (drop_bit 52 (f64_pack e m AND 0x7fffffffffffffff)) = e"
    "unat (f64_pack e m AND 0x000fffffffffffff) = m"
    "\<not> bit (f64_pack e m) 63"
proof -
  define n where "n = e * 2 ^ 52 + m"
  define w where "w = f64_pack e m"
  have n: "n < 2 ^ 63" using assms by (simp add: n_def)
  then have unat: "unat w = n" unfolding w_def f64_pack_def n_def [symmetric] by (simp add: unat_of_nat)
  have masks: "(0x7fffffffffffffff :: u64) = mask 63" "(0x000fffffffffffff :: u64) = mask 52" by (simp_all add: mask_eq_exp_minus_1)
  have "unat (drop_bit 52 (w AND 0x7fffffffffffffff)) = n mod 2 ^ 63 div 2 ^ 52"
    by (simp only: masks take_bit_eq_mask [symmetric] unsigned_drop_bit_eq unsigned_take_bit_eq unat)
      (simp add: drop_bit_eq_div take_bit_eq_mod unsigned_take_bit_eq unat)
  then show "unat (drop_bit 52 (f64_pack e m AND 0x7fffffffffffffff)) = e"
    using n assms(2) by (simp add: n_def w_def)
  have "unat (w AND 0x000fffffffffffff) = n mod 2 ^ 52"
    by (simp only: masks take_bit_eq_mask [symmetric] unsigned_take_bit_eq unat) (simp add: take_bit_eq_mod)
  then show "unat (f64_pack e m AND 0x000fffffffffffff) = m"
    using assms(2) by (simp add: n_def w_def)
  show "\<not> bit (f64_pack e m) 63"
    using small_word_bit [of w 63 63] n unat by (auto simp: w_def)
qed

lemma f64_from_i32_fields:
  assumes "sint x \<noteq> 0"
  obtains e m where "e \<le> 31" "2 ^ e \<le> m" "m < 2 ^ (e + 1)" "\<bar>sint x\<bar> = int m"
    "f64_from_i32 x = (if sint x < 0 then f64_pack (1023 + e) ((m - 2 ^ e) * 2 ^ (52 - e)) OR 0x8000000000000000
                       else f64_pack (1023 + e) ((m - 2 ^ e) * 2 ^ (52 - e)))"
proof -
  define m where "m = nat \<bar>sint x\<bar>"
  define e where "e = bit_width m - 1"
  have m: "m \<noteq> 0" "\<bar>sint x\<bar> = int m" using assms by (simp_all add: m_def)
  have "bit_width m \<noteq> 0" using m(1) by (subst bit_width.simps) simp
  then have bounds: "2 ^ e \<le> m" "m < 2 ^ (e + 1)" using bit_width_bounds [of m] m by (simp_all add: e_def)
  have "m \<le> 2 ^ 31" using sint_greater_eq [of x] sint_less [of x] by (simp add: m_def)
  then have "(2 :: nat) ^ e \<le> 2 ^ 31" using bounds by linarith
  then have "e \<le> 31" by (rule power_le_imp_le_exp [rotated]) simp
  then show thesis
    using m(1) by (intro that [of e m] bounds m(2)) (simp_all add: f64_from_i32_def Let_def m_def [symmetric] e_def)
qed

lemma f64_fields_negative:
  assumes "\<not> bit (w :: u64) 63"
  shows "(w OR 0x8000000000000000) AND 0x7fffffffffffffff = w AND 0x7fffffffffffffff"
    "(w OR 0x8000000000000000) AND 0x000fffffffffffff = w AND 0x000fffffffffffff" "bit (w OR 0x8000000000000000) 63"
proof -
  have top: "(0x8000000000000000 :: u64) = push_bit 63 1" and masks: "(0x7fffffffffffffff :: u64) = mask 63" "(0x000fffffffffffff :: u64) = mask 52"
    by (simp_all add: mask_eq_exp_minus_1)
  show "(w OR 0x8000000000000000) AND 0x7fffffffffffffff = w AND 0x7fffffffffffffff"
    "(w OR 0x8000000000000000) AND 0x000fffffffffffff = w AND 0x000fffffffffffff" "bit (w OR 0x8000000000000000) 63"
    unfolding top masks by (auto intro!: bit_word_eqI simp: bit_simps simp del: push_bit_of_1)
qed

lemma f64_value_negative:
  assumes "\<not> bit w 63"
  shows "f64_value (w OR 0x8000000000000000) = - f64_value w"
  unfolding f64_value_def f64_fields_negative(1,2) [OF assms] Let_def using assms f64_fields_negative(3) [OF assms] by (simp only: if_True if_False simp_thms)

lemma f64_value_pack:
  assumes "0 < e" "e < 2047" "m < 2 ^ 52"
  shows "f64_value (f64_pack e m) = real (2 ^ 52 + m) * 2 ^ e / 2 ^ 1075"
  unfolding f64_value_def f64_fields [OF assms(2,3)] Let_def using assms(1) f64_fields(3) [OF assms(2,3)] by (simp only: if_False if_not_P)

lemma f64_from_i32_value: "f64_value (f64_from_i32 x) = real_of_int (sint x)"
proof (cases "sint x = 0")
  case True
  then show ?thesis by (simp add: f64_from_i32_def f64_value_def)
next
  case False
  then obtain e m where f: "e \<le> 31" "2 ^ e \<le> m" "m < 2 ^ (e + 1)" "\<bar>sint x\<bar> = int m"
    "f64_from_i32 x = (if sint x < 0 then f64_pack (1023 + e) ((m - 2 ^ e) * 2 ^ (52 - e)) OR 0x8000000000000000
                       else f64_pack (1023 + e) ((m - 2 ^ e) * 2 ^ (52 - e)))"
    by (rule f64_from_i32_fields)
  define low where "low = (m - 2 ^ e) * 2 ^ (52 - e)"
  have "low < 2 ^ e * 2 ^ (52 - e)" using f(2,3) by (auto simp: low_def)
  then have low: "low < 2 ^ 52" using f(1) by (simp flip: power_add)
  have "2 ^ 52 + low = m * 2 ^ (52 - e)"
  proof -
    have "(2 :: nat) ^ 52 = 2 ^ e * 2 ^ (52 - e)" using f(1) by (simp flip: power_add)
    moreover have "2 ^ e * 2 ^ (52 - e) \<le> m * 2 ^ (52 - e)" using f(2) by simp
    ultimately show ?thesis by (simp add: low_def diff_mult_distrib)
  qed
  then have "real (2 ^ 52 + low) * 2 ^ (1023 + e) / 2 ^ 1075 = real m * (2 ^ (52 - e) * 2 ^ (1023 + e)) / 2 ^ 1075" by simp
  also have "(2 :: real) ^ (52 - e) * 2 ^ (1023 + e) = 2 ^ 1075" using f(1) by (simp flip: power_add)
  finally have "real (2 ^ 52 + low) * 2 ^ (1023 + e) / 2 ^ 1075 = real m" by simp
  moreover have "f64_value (f64_pack (1023 + e) low) = real (2 ^ 52 + low) * 2 ^ (1023 + e) / 2 ^ 1075"
    using f(1) low by (intro f64_value_pack) simp_all
  ultimately have packed: "f64_value (f64_pack (1023 + e) low) = real m" by (simp only:)
  have "\<not> bit (f64_pack (1023 + e) low) 63" using f(1) low by (intro f64_fields) simp_all
  then have "f64_value (f64_from_i32 x) = (if sint x < 0 then - real m else real m)"
    unfolding f(5) low_def [symmetric] by (simp add: f64_value_negative packed)
  moreover have "real_of_int (sint x) = real_of_int (if sint x < 0 then - int m else int m)" using f(4) by (intro arg_cong [where f = real_of_int]) auto
  ultimately show ?thesis by (simp only: if_distrib [where f = real_of_int] of_int_minus of_int_of_nat_eq)
qed

section \<open>The promises of the comparisons\<close>

text \<open>C19. On a canonical heap the three equalities of the language are decided by the language value behind the bits: SameValueZero is
  equality of language values, strict equality is that without NaN, SameValue tells the zeros apart; the heap-free fast path
  agrees whenever it answers. None of them fails or panics on any bit pattern.\<close>
theorem equality_exact:
  assumes "heap_canonical h"
  shows "same_value_zero h l r = Ok (language_value h l = language_value h r) \<and>
    strict_equal_values h l r = Ok (language_value h l = language_value h r \<and> language_value h l \<noteq> LV_NaN) \<and>
    same_value h l r = Ok (language_value h l = language_value h r \<and> (negative_zero l \<longleftrightarrow> negative_zero r)) \<and>
    (\<forall>b. strict_equal_hot l r = Some b \<longrightarrow> strict_equal_values h l r = Ok b)"
  using same_value_zero_exact [OF assms] strict_equal_exact [OF assms] same_value_exact [OF assms] strict_equal_hot_agrees [OF assms] by blast

text \<open>An integer and the double of the same number are the same language value.\<close>

lemma tagged_one: "as_i32 (from_i32 1) = Some 1"
  by (simp add: from_i32_def from_tagged_def as_i32_def is_tagged_def tag_bits_def value_payload_def tag_number_def TAGGED_PREFIX_def
      TAGGED_MASK_def TAG_SHIFT_def TAG_MASK_def PAYLOAD_MASK_def LOW_U32_MASK_def)

lemma bit_width_one: "bit_width (Suc 0) = Suc 0"
  by (subst bit_width.simps, subst bit_width.simps) simp

theorem equality_exact_witness:
  "same_value_zero Map.empty (from_i32 1) 0x3ff0000000000000 = Ok True"
proof -
  have "heap_canonical Map.empty" by (simp add: heap_canonical_def)
  moreover have "numeric_value (from_i32 1) = Some 0x3ff0000000000000"
    by (simp add: numeric_value_def tagged_one f64_from_i32_def f64_pack_def bit_width_one)
  moreover have "numeric_value 0x3ff0000000000000 = Some 0x3ff0000000000000"
    by (simp add: numeric_value_def as_i32_def as_f64_def is_tagged_def TAGGED_MASK_def TAGGED_PREFIX_def)
  ultimately show ?thesis using equality_exact [of Map.empty "from_i32 1" "0x3ff0000000000000"] by (simp add: language_value_number)
qed

end
