(* ===== verification/Map_Set.thy ===== *)
theory Map_Set
  imports Js_Equality
begin

text \<open>
  Map and Set: the insertion-ordered storage of \<open>crates/tachyon-vm/src/collection.rs\<close>, the operations of
  \<open>builtins/collections.rs\<close> that work on it, the iterators of \<open>iterator.rs\<close> and the scan of \<open>collection_for_each.rs\<close>.
  Deleted entries stay as tombstones, so that the position of an iterator survives every change; growth copies the positions.
  The specification is a list of entries split where an iterator stands, and the client of the last part runs the operations
  in any order. Calls back into JavaScript are outside the model: a step of \<open>forEach\<close> ends with the arguments of its
  callback.
\<close>

section \<open>Insertion-ordered storage\<close>

record collection_entry =
  ce_key :: js_value
  ce_value :: js_value

record ordered_collection =
  oc_entries :: "collection_entry option list"
  oc_used :: u32
  oc_live_len :: u32

text \<open>\<open>grants\<close> is the answer of the allocator to a request for that many entries. An error of an operation that has
  already changed the storage carries the storage it leaves behind.\<close>

definition collection_with_capacity :: "(nat \<Rightarrow> bool) \<Rightarrow> nat \<Rightarrow> (unit, ordered_collection) outcome" where
  "collection_with_capacity grants capacity =
     (if grants capacity then Ok \<lparr>oc_entries = replicate capacity None, oc_used = 0, oc_live_len = 0\<rparr> else Err ())"

definition entry_at :: "ordered_collection \<Rightarrow> u32 \<Rightarrow> collection_entry option" where
  "entry_at c i = (case get (oc_entries c) (unat i) of Some e \<Rightarrow> e | None \<Rightarrow> None)"

definition update_at :: "ordered_collection \<Rightarrow> u32 \<Rightarrow> js_value \<Rightarrow> (unit, ordered_collection) outcome" where
  "update_at c i v =
     (case entry_at c i of
        Some e \<Rightarrow> Ok (c\<lparr>oc_entries := (oc_entries c)[unat i := Some (e\<lparr>ce_value := v\<rparr>)]\<rparr>)
      | None \<Rightarrow> Err ())"

definition collection_push :: "ordered_collection \<Rightarrow> js_value \<Rightarrow> js_value \<Rightarrow> (ordered_collection, ordered_collection) outcome" where
  "collection_push c k v =
     (if unat (oc_used c) < length (oc_entries c)
      then let c = c\<lparr>oc_entries := (oc_entries c)[unat (oc_used c) := Some \<lparr>ce_key = k, ce_value = v\<rparr>]\<rparr> in
           case checked_add (oc_used c) 1 of
             None \<Rightarrow> Err c
           | Some used \<Rightarrow>
               let c = c\<lparr>oc_used := used\<rparr> in
               (case checked_add (oc_live_len c) 1 of None \<Rightarrow> Err c | Some live \<Rightarrow> Ok (c\<lparr>oc_live_len := live\<rparr>))
      else Err c)"

definition delete_at :: "ordered_collection \<Rightarrow> u32 \<Rightarrow> (unit, ordered_collection) outcome" where
  "delete_at c i =
     (case get (oc_entries c) (unat i) of
        None \<Rightarrow> Err ()
      | Some None \<Rightarrow> Err ()
      | Some (Some _) \<Rightarrow>
          Ok (c\<lparr>oc_entries := (oc_entries c)[unat i := None], oc_live_len := saturating_sub (oc_live_len c) 1\<rparr>))"

definition clear_entries :: "ordered_collection \<Rightarrow> ordered_collection" where
  "clear_entries c = c\<lparr>oc_entries := map (\<lambda>_. None) (oc_entries c), oc_live_len := 0\<rparr>"

definition grow_copy :: "(nat \<Rightarrow> bool) \<Rightarrow> ordered_collection \<Rightarrow> nat \<Rightarrow> (unit, ordered_collection) outcome" where
  "grow_copy grants c capacity =
     (let used = unat (oc_used c) in
      if capacity < used then Err ()
      else and_then (collection_with_capacity grants capacity) (\<lambda>grown.
           if length (oc_entries c) < used then Panic
           else Ok (grown\<lparr>oc_entries := take used (oc_entries c) @ drop used (oc_entries grown),
                          oc_used := oc_used c, oc_live_len := oc_live_len c\<rparr>)))"

definition INITIAL_ENTRY_CAPACITY :: nat where "INITIAL_ENTRY_CAPACITY = 4"

definition grown_entry_capacity :: "nat \<Rightarrow> nat option" where
  "grown_entry_capacity current =
     (case usize_checked (current * 2) of Some capacity \<Rightarrow> if capacity > current then Some capacity else None | None \<Rightarrow> None)"

section \<open>Map and Set operations\<close>

datatype collection_error =
    IncompatibleCollectionReceiver js_value | CollectionStorageAllocationFailed | CollectionHeapAllocation | Comparison execution_error
  | CollectionNotObject js_value

text \<open>A Map or Set object owns its storage; replacing the storage is publishing a new one in the object. \<open>ci_backing\<close>
  and \<open>ci_payload\<close> are the answers of the allocator and of the heap to a request for a storage of that capacity.\<close>

datatype collection_object = Map_Object ordered_collection | Set_Object ordered_collection

record collection_isolate =
  ci_heap :: vm_heap
  ci_collections :: "raw_heap_ref \<rightharpoonup> collection_object"
  ci_backing :: "nat \<Rightarrow> bool"
  ci_payload :: "nat \<Rightarrow> bool"

type_synonym 'a collection_result = "(collection_error \<times> collection_isolate, 'a \<times> collection_isolate) outcome"

definition collection_key :: "js_value option \<Rightarrow> js_value" where
  "collection_key argument =
     (let v = (case argument of Some v \<Rightarrow> v | None \<Rightarrow> from_immediate Undefined)
      in case numeric_value v of Some n \<Rightarrow> if f64_eq n 0 then from_f64 0 else v | None \<Rightarrow> v)"

definition value_argument :: "js_value option \<Rightarrow> js_value" where
  "value_argument argument = (case argument of Some v \<Rightarrow> v | None \<Rightarrow> from_immediate Undefined)"

definition collection_storage :: "bool \<Rightarrow> collection_isolate \<Rightarrow> js_value \<Rightarrow> (collection_error \<times> collection_isolate, ordered_collection) outcome" where
  "collection_storage is_map vm receiver =
     (case Option.bind (as_heap_ref receiver) (ci_collections vm) of
        Some (Map_Object c) \<Rightarrow> if is_map then Ok c else Err (IncompatibleCollectionReceiver receiver, vm)
      | Some (Set_Object c) \<Rightarrow> if is_map then Err (IncompatibleCollectionReceiver receiver, vm) else Ok c
      | None \<Rightarrow> Err (IncompatibleCollectionReceiver receiver, vm))"

definition publish_storage :: "bool \<Rightarrow> collection_isolate \<Rightarrow> js_value \<Rightarrow> ordered_collection \<Rightarrow> collection_isolate" where
  "publish_storage is_map vm receiver c =
     (case as_heap_ref receiver of
        Some raw \<Rightarrow> vm\<lparr>ci_collections := (ci_collections vm)(raw \<mapsto> (if is_map then Map_Object c else Set_Object c))\<rparr>
      | None \<Rightarrow> vm)"

definition allocate_collection_object :: "bool \<Rightarrow> (collection_isolate \<Rightarrow> raw_heap_ref option) \<Rightarrow> collection_isolate \<Rightarrow> js_value collection_result" where
  "allocate_collection_object is_map alloc vm =
     and_then (map_err (\<lambda>_. (CollectionStorageAllocationFailed, vm)) (collection_with_capacity (ci_backing vm) INITIAL_ENTRY_CAPACITY)) (\<lambda>c.
     if \<not> ci_payload vm INITIAL_ENTRY_CAPACITY then Err (CollectionHeapAllocation, vm)
     else case alloc vm of
            None \<Rightarrow> Err (CollectionHeapAllocation, vm)
          | Some raw \<Rightarrow> Ok (from_heap_ref raw, vm\<lparr>ci_collections := (ci_collections vm)(raw \<mapsto> (if is_map then Map_Object c else Set_Object c))\<rparr>))"

fun find_index :: "vm_heap \<Rightarrow> ordered_collection \<Rightarrow> js_value \<Rightarrow> u32 list \<Rightarrow> u32 option execution" where
  "find_index h c key [] = Ok None"
| "find_index h c key (i # is) =
     (case entry_at c i of
        Some e \<Rightarrow> and_then (same_value_zero h (ce_key e) key) (\<lambda>same. if same then Ok (Some i) else find_index h c key is)
      | None \<Rightarrow> find_index h c key is)"

definition collection_find :: "collection_isolate \<Rightarrow> ordered_collection \<Rightarrow> js_value \<Rightarrow> (collection_error \<times> collection_isolate, u32 option) outcome" where
  "collection_find vm c key =
     map_err (\<lambda>e. (Comparison e, vm)) (find_index (ci_heap vm) c key (map word_of_nat [0..<unat (oc_used c)]))"

definition ensure_collection_capacity ::
  "bool \<Rightarrow> collection_isolate \<Rightarrow> js_value \<Rightarrow> ordered_collection \<Rightarrow> (collection_error \<times> collection_isolate, ordered_collection \<times> collection_isolate) outcome" where
  "ensure_collection_capacity is_map vm receiver c =
     (if unat (oc_used c) < length (oc_entries c) then Ok (c, vm)
      else and_then (ok_or (CollectionStorageAllocationFailed, vm) (grown_entry_capacity (length (oc_entries c)))) (\<lambda>capacity.
           and_then (map_err (\<lambda>_. (CollectionStorageAllocationFailed, vm)) (grow_copy (ci_backing vm) c capacity)) (\<lambda>replacement.
           if ci_payload vm capacity then Ok (replacement, publish_storage is_map vm receiver replacement)
           else Err (CollectionHeapAllocation, vm))))"

definition collection_append :: "bool \<Rightarrow> collection_isolate \<Rightarrow> js_value \<Rightarrow> ordered_collection \<Rightarrow> js_value \<Rightarrow> js_value \<Rightarrow> unit collection_result" where
  "collection_append is_map vm receiver c k v =
     and_then (map_err (\<lambda>c. (CollectionStorageAllocationFailed, publish_storage is_map vm receiver c)) (collection_push c k v)) (\<lambda>c.
     Ok ((), publish_storage is_map vm receiver c))"

definition collection_update :: "bool \<Rightarrow> collection_isolate \<Rightarrow> js_value \<Rightarrow> ordered_collection \<Rightarrow> u32 \<Rightarrow> js_value \<Rightarrow> unit collection_result" where
  "collection_update is_map vm receiver c i v =
     and_then (map_err (\<lambda>_. (CollectionStorageAllocationFailed, vm)) (update_at c i v)) (\<lambda>c.
     Ok ((), publish_storage is_map vm receiver c))"

definition collection_delete :: "bool \<Rightarrow> collection_isolate \<Rightarrow> js_value \<Rightarrow> ordered_collection \<Rightarrow> u32 \<Rightarrow> unit collection_result" where
  "collection_delete is_map vm receiver c i =
     and_then (map_err (\<lambda>_. (CollectionStorageAllocationFailed, vm)) (delete_at c i)) (\<lambda>c.
     Ok ((), publish_storage is_map vm receiver c))"

definition map_get :: "collection_isolate \<Rightarrow> js_value \<Rightarrow> js_value option \<Rightarrow> js_value collection_result" where
  "map_get vm this argument =
     (let key = collection_key argument in
      and_then (collection_storage True vm this) (\<lambda>c.
      and_then (collection_find vm c key) (\<lambda>found.
      let result = (case found of Some i \<Rightarrow> map_option ce_value (entry_at c i) | None \<Rightarrow> None)
      in Ok (case result of Some v \<Rightarrow> v | None \<Rightarrow> from_immediate Undefined, vm))))"

definition map_get_or_insert :: "collection_isolate \<Rightarrow> js_value \<Rightarrow> js_value option \<Rightarrow> js_value option \<Rightarrow> js_value collection_result" where
  "map_get_or_insert vm this argument default_argument =
     (let key = collection_key argument; default_value = value_argument default_argument in
      and_then (collection_storage True vm this) (\<lambda>c.
      and_then (collection_find vm c key) (\<lambda>found.
      case found of
        Some i \<Rightarrow> and_then (ok_or (CollectionStorageAllocationFailed, vm) (map_option ce_value (entry_at c i))) (\<lambda>v. Ok (v, vm))
      | None \<Rightarrow>
          and_then (ensure_collection_capacity True vm this c) (\<lambda>(c, vm).
          and_then (collection_append True vm this c key default_value) (\<lambda>(_, vm). Ok (default_value, vm))))))"

definition map_set :: "collection_isolate \<Rightarrow> js_value \<Rightarrow> js_value option \<Rightarrow> js_value option \<Rightarrow> js_value collection_result" where
  "map_set vm this argument value_arg =
     (let key = collection_key argument; v = value_argument value_arg in
      and_then (collection_storage True vm this) (\<lambda>c.
      and_then (collection_find vm c key) (\<lambda>found.
      and_then (case found of
          Some i \<Rightarrow> collection_update True vm this c i v
        | None \<Rightarrow> and_then (ensure_collection_capacity True vm this c) (\<lambda>(c, vm). collection_append True vm this c key v)) (\<lambda>(_, vm).
      Ok (this, vm)))))"

definition collection_has :: "bool \<Rightarrow> collection_isolate \<Rightarrow> js_value \<Rightarrow> js_value option \<Rightarrow> bool collection_result" where
  "collection_has is_map vm this argument =
     (let key = collection_key argument in
      and_then (collection_storage is_map vm this) (\<lambda>c.
      and_then (collection_find vm c key) (\<lambda>found. Ok (found \<noteq> None, vm))))"

definition collection_remove :: "bool \<Rightarrow> collection_isolate \<Rightarrow> js_value \<Rightarrow> js_value option \<Rightarrow> bool collection_result" where
  "collection_remove is_map vm this argument =
     (let key = collection_key argument in
      and_then (collection_storage is_map vm this) (\<lambda>c.
      and_then (collection_find vm c key) (\<lambda>found.
      case found of
        None \<Rightarrow> Ok (False, vm)
      | Some i \<Rightarrow> and_then (collection_delete is_map vm this c i) (\<lambda>(_, vm). Ok (True, vm)))))"

definition collection_clear :: "bool \<Rightarrow> collection_isolate \<Rightarrow> js_value \<Rightarrow> unit collection_result" where
  "collection_clear is_map vm this =
     and_then (collection_storage is_map vm this) (\<lambda>c. Ok ((), publish_storage is_map vm this (clear_entries c)))"

definition set_add :: "collection_isolate \<Rightarrow> js_value \<Rightarrow> js_value option \<Rightarrow> js_value collection_result" where
  "set_add vm this argument =
     (let key = collection_key argument in
      and_then (collection_storage False vm this) (\<lambda>c.
      and_then (collection_find vm c key) (\<lambda>found.
      and_then (case found of
          Some i \<Rightarrow> Ok ((), vm)
        | None \<Rightarrow> and_then (ensure_collection_capacity False vm this c) (\<lambda>(c, vm). collection_append False vm this c key key)) (\<lambda>(_, vm).
      Ok (this, vm)))))"

definition collection_size :: "bool \<Rightarrow> collection_isolate \<Rightarrow> js_value \<Rightarrow> u32 collection_result" where
  "collection_size is_map vm this = and_then (collection_storage is_map vm this) (\<lambda>c. Ok (oc_live_len c, vm))"

section \<open>Iterators\<close>

datatype collection_iteration_kind = Iterate_Key | Iterate_Value | Iterate_KeyAndValue

record collection_iterator =
  it_collection :: "js_value option"
  it_next_index :: u32
  it_kind :: collection_iteration_kind

datatype iterator_result = Iterator_Done | Iterator_Value js_value | Iterator_Entry js_value js_value

definition create_collection_iterator :: "js_value \<Rightarrow> collection_iteration_kind \<Rightarrow> collection_iterator" where
  "create_collection_iterator receiver kind = \<lparr>it_collection = Some receiver, it_next_index = 0, it_kind = kind\<rparr>"

definition iterator_project :: "collection_iteration_kind \<Rightarrow> collection_entry \<Rightarrow> iterator_result" where
  "iterator_project kind e =
     (case kind of
        Iterate_Key \<Rightarrow> Iterator_Value (ce_key e)
      | Iterate_Value \<Rightarrow> Iterator_Value (ce_value e)
      | Iterate_KeyAndValue \<Rightarrow> Iterator_Entry (ce_key e) (ce_value e))"

definition object_storage :: "collection_isolate \<Rightarrow> js_value \<Rightarrow> ordered_collection option" where
  "object_storage vm receiver =
     (case Option.bind (as_heap_ref receiver) (ci_collections vm) of
        Some (Map_Object c) \<Rightarrow> Some c | Some (Set_Object c) \<Rightarrow> Some c | None \<Rightarrow> None)"

partial_function (option) collection_iterator_next ::
  "collection_isolate \<Rightarrow> collection_iterator \<Rightarrow> (collection_error \<times> collection_iterator, iterator_result \<times> collection_iterator) outcome option" where
  "collection_iterator_next vm it =
     (case it_collection it of
        None \<Rightarrow> Some (Ok (Iterator_Done, it))
      | Some receiver \<Rightarrow>
          (case object_storage vm receiver of
             None \<Rightarrow> Some (Err (IncompatibleCollectionReceiver receiver, it))
           | Some c \<Rightarrow>
               if it_next_index it \<ge> oc_used c then Some (Ok (Iterator_Done, it\<lparr>it_collection := None\<rparr>))
               else let i = it_next_index it; it = it\<lparr>it_next_index := i + 1\<rparr> in
                    case entry_at c i of
                      None \<Rightarrow> collection_iterator_next vm it
                    | Some e \<Rightarrow> Some (Ok (iterator_project (it_kind it) e, it))))"

text \<open>The scan of \<open>forEach\<close> up to its next callback, whose arguments it returns.\<close>

record pending_for_each =
  fe_collection :: js_value
  fe_next_index :: u32
  fe_map :: bool

partial_function (option) advance_collection_for_each ::
  "collection_isolate \<Rightarrow> pending_for_each \<Rightarrow> (collection_error \<times> collection_isolate, js_value list option \<times> pending_for_each) outcome option" where
  "advance_collection_for_each vm p =
     (case collection_storage (fe_map p) vm (fe_collection p) of
        Panic \<Rightarrow> Some Panic
      | Err e \<Rightarrow> Some (Err e)
      | Ok c \<Rightarrow>
          if fe_next_index p \<ge> oc_used c then Some (Ok (None, p))
          else let i = fe_next_index p; p = p\<lparr>fe_next_index := i + 1\<rparr> in
               case entry_at c i of
                 None \<Rightarrow> advance_collection_for_each vm p
               | Some e \<Rightarrow>
                   Some (Ok (Some (if fe_map p then [ce_value e, ce_key e, fe_collection p]
                                   else [ce_value e, ce_value e, fe_collection p]), p)))"

section \<open>Live entries\<close>

primrec live_of :: "'a option list \<Rightarrow> 'a list" where
  "live_of [] = []"
| "live_of (x # xs) = (case x of None \<Rightarrow> live_of xs | Some e \<Rightarrow> e # live_of xs)"

lemma live_of_append [simp]: "live_of (xs @ ys) = live_of xs @ live_of ys"
  by (induction xs) (auto split: option.split)

lemma live_of_map [simp]: "live_of (map (map_option f) xs) = map f (live_of xs)"
  by (induction xs) (auto split: option.split)

lemma live_of_drop_matching: "live_of (map (\<lambda>x. Option.bind x (\<lambda>e. if P e then None else Some e)) xs) = filter (\<lambda>e. \<not> P e) (live_of xs)"
  by (induction xs) (auto split: option.split)

lemma live_of_none [simp]: "live_of (map (\<lambda>_. None) xs) = []"
  by (induction xs) auto

lemma live_of_length: "length (live_of xs) \<le> length xs"
  by (induction xs) (auto split: option.split)

lemma live_of_set: "set (live_of xs) = {e. Some e \<in> set xs}"
  by (induction xs) (auto split: option.split)

lemma live_of_unique:
  assumes "distinct (map f (live_of xs))" "i < length xs" "j < length xs" "xs ! i = Some a" "xs ! j = Some b" "f a = f b"
  shows "i = j"
  using assms
proof (induction xs arbitrary: i j)
  case (Cons x xs)
  have mem: "e \<in> set (live_of xs)" if "k < length xs" "xs ! k = Some e" for k e
    using that by (auto simp: live_of_set in_set_conv_nth)
  show ?case
  proof (cases i; cases j)
    fix i' j' assume "i = Suc i'" "j = Suc j'"
    then show ?thesis using Cons.IH [of i' j'] Cons.prems by (auto split: option.splits)
  next
    fix j' assume "i = 0" "j = Suc j'"
    then show ?thesis using Cons.prems mem [of j' b] by (auto split: option.splits)
  next
    fix i' assume "i = Suc i'" "j = 0"
    then have "f b \<in> f ` set (live_of xs)" using Cons.prems mem [of i' a] by (simp flip: Cons.prems(6))
    then show ?thesis using Cons.prems \<open>i = Suc i'\<close> \<open>j = 0\<close> by (simp split: option.splits)
  qed simp
qed simp

definition visible :: "ordered_collection \<Rightarrow> collection_entry option list" where
  "visible c = take (unat (oc_used c)) (oc_entries c)"

definition same_key :: "vm_heap \<Rightarrow> js_value \<Rightarrow> collection_entry \<Rightarrow> bool" where
  "same_key h k e \<longleftrightarrow> language_value h (ce_key e) = language_value h k"

definition collection_inv :: "vm_heap \<Rightarrow> ordered_collection \<Rightarrow> bool" where
  "collection_inv h c \<longleftrightarrow>
     0 < length (oc_entries c) \<and> unat (oc_used c) \<le> length (oc_entries c) \<and>
     unat (oc_live_len c) = length (live_of (visible c)) \<and>
     distinct (map (\<lambda>e. language_value h (ce_key e)) (live_of (visible c)))"

lemma visible_length: "collection_inv h c \<Longrightarrow> length (visible c) = unat (oc_used c)"
  by (simp add: visible_def collection_inv_def)

lemma entry_at_visible:
  assumes "collection_inv h c" "i < oc_used c"
  shows "entry_at c i = visible c ! unat i" "unat i < length (visible c)"
  using assms by (auto simp: entry_at_def visible_def collection_inv_def get_def word_less_nat_alt)

text \<open>A position whose entry has the key: the only one.\<close>

definition found_at :: "vm_heap \<Rightarrow> ordered_collection \<Rightarrow> js_value \<Rightarrow> u32 \<Rightarrow> bool" where
  "found_at h c k i \<longleftrightarrow> i < oc_used c \<and> (\<exists>e. entry_at c i = Some e \<and> same_key h k e)"

lemma find_index_eq:
  assumes "heap_canonical h"
  shows "find_index h c k is = Ok (List.find (\<lambda>i. \<exists>e. entry_at c i = Some e \<and> same_key h k e) is)"
  using same_value_zero_exact [OF assms] by (induction "is") (auto simp: same_key_def split: option.split)

lemma collection_find_cases:
  assumes h: "heap_canonical (ci_heap vm)" and inv: "collection_inv (ci_heap vm) c"
  obtains (present) i where "collection_find vm c k = Ok (Some i)" "found_at (ci_heap vm) c k i"
      "\<exists>e\<in>set (live_of (visible c)). same_key (ci_heap vm) k e"
  | (absent) "collection_find vm c k = Ok None" "\<forall>e\<in>set (live_of (visible c)). \<not> same_key (ci_heap vm) k e"
proof -
  let ?is = "map word_of_nat [0..<unat (oc_used c)] :: u32 list"
  let ?P = "\<lambda>i. \<exists>e. entry_at c i = Some e \<and> same_key (ci_heap vm) k e"
  have small: "unat (word_of_nat n :: u32) = n" if "n < unat (oc_used c)" for n
    using that unat_u32_less [of "oc_used c"] by (simp add: unat_u32_of_nat)
  have mem: "i \<in> set ?is \<longleftrightarrow> i < oc_used c" for i
    by (auto simp: word_less_nat_alt small image_iff intro!: bexI [of _ "unat i"])
  have live: "(\<exists>e\<in>set (live_of (visible c)). same_key (ci_heap vm) k e) \<longleftrightarrow> (\<exists>i. i < oc_used c \<and> ?P i)"
  proof
    assume "\<exists>e\<in>set (live_of (visible c)). same_key (ci_heap vm) k e"
    then obtain n e where n: "n < length (visible c)" "visible c ! n = Some e" "same_key (ci_heap vm) k e"
      by (auto simp: live_of_set in_set_conv_nth)
    then have "word_of_nat n < oc_used c" using visible_length [OF inv] small [of n] by (simp add: word_less_nat_alt)
    then show "\<exists>i. i < oc_used c \<and> ?P i"
      using n small [of n] visible_length [OF inv] entry_at_visible [OF inv, of "word_of_nat n"] by auto
  next
    assume "\<exists>i. i < oc_used c \<and> ?P i"
    then show "\<exists>e\<in>set (live_of (visible c)). same_key (ci_heap vm) k e"
      using entry_at_visible [OF inv] unfolding live_of_set by (metis mem_Collect_eq nth_mem)
  qed
  have run: "collection_find vm c k = Ok (List.find ?P ?is)" by (simp add: collection_find_def find_index_eq [OF h])
  show thesis
  proof (cases "List.find ?P ?is")
    case None
    then have "\<not> (\<exists>i. i < oc_used c \<and> ?P i)" using mem unfolding find_None_iff by blast
    then show thesis using absent run None live by auto
  next
    case (Some i)
    then obtain n where n: "n < length ?is" "?P (?is ! n)" "i = ?is ! n" unfolding find_Some_iff by blast
    then have "i \<in> set ?is" by (metis nth_mem)
    then have "i < oc_used c" "?P i" using mem n by blast+
    then show thesis using present [of i] run Some live by (auto simp: found_at_def)
  qed
qed

section \<open>Steps on the storage\<close>

definition change_key :: "vm_heap \<Rightarrow> js_value \<Rightarrow> js_value \<Rightarrow> collection_entry \<Rightarrow> collection_entry" where
  "change_key h k v e = (if same_key h k e then e\<lparr>ce_value := v\<rparr> else e)"

lemma found_unique:
  assumes inv: "collection_inv h c" and found: "found_at h c k i"
    and j: "j < length (visible c)" "visible c ! j = Some e" "same_key h k e"
  shows "j = unat i"
proof -
  obtain e' where e': "i < oc_used c" "entry_at c i = Some e'" "same_key h k e'" using found by (auto simp: found_at_def)
  show ?thesis
    using live_of_unique [of "\<lambda>e. language_value h (ce_key e)" "visible c" j "unat i" e e'] inv j e' entry_at_visible [OF inv e'(1)]
    by (simp add: collection_inv_def same_key_def)
qed

lemma update_at_found:
  assumes inv: "collection_inv h c" and found: "found_at h c k i"
  obtains c' where "update_at c i v = Ok c'" "visible c' = map (map_option (change_key h k v)) (visible c)" "oc_used c' = oc_used c"
    "oc_live_len c' = oc_live_len c" "length (oc_entries c') = length (oc_entries c)"
proof -
  obtain e where e: "i < oc_used c" "entry_at c i = Some e" "same_key h k e" using found by (auto simp: found_at_def)
  note at = entry_at_visible [OF inv e(1)]
  define c' where "c' = c\<lparr>oc_entries := (oc_entries c)[unat i := Some (e\<lparr>ce_value := v\<rparr>)]\<rparr>"
  have "visible c' = (visible c)[unat i := Some (e\<lparr>ce_value := v\<rparr>)]" by (simp add: c'_def visible_def take_update_swap)
  also have "\<dots> = map (map_option (change_key h k v)) (visible c)"
  proof (rule nth_equalityI)
    fix j assume "j < length ((visible c)[unat i := Some (e\<lparr>ce_value := v\<rparr>)])"
    then have j: "j < length (visible c)" by simp
    show "(visible c)[unat i := Some (e\<lparr>ce_value := v\<rparr>)] ! j = map (map_option (change_key h k v)) (visible c) ! j"
      using j at e found_unique [OF inv found j] by (cases "visible c ! j") (auto simp: nth_list_update change_key_def)
  qed simp
  finally show thesis using that [of c'] e by (simp add: c'_def update_at_def)
qed

lemma delete_at_found:
  assumes inv: "collection_inv h c" and found: "found_at h c k i"
  obtains c' where "delete_at c i = Ok c'" "oc_used c' = oc_used c" "length (oc_entries c') = length (oc_entries c)"
    "visible c' = map (\<lambda>x. Option.bind x (\<lambda>e. if same_key h k e then None else Some e)) (visible c)"
    "unat (oc_live_len c') = length (live_of (visible c'))"
proof -
  obtain e where e: "i < oc_used c" "entry_at c i = Some e" "same_key h k e" using found by (auto simp: found_at_def)
  note at = entry_at_visible [OF inv e(1)]
  define c' where "c' = c\<lparr>oc_entries := (oc_entries c)[unat i := None], oc_live_len := saturating_sub (oc_live_len c) 1\<rparr>"
  have update: "visible c' = (visible c)[unat i := None]" by (simp add: c'_def visible_def take_update_swap)
  also have "\<dots> = map (\<lambda>x. Option.bind x (\<lambda>e. if same_key h k e then None else Some e)) (visible c)"
  proof (rule nth_equalityI)
    fix j assume "j < length ((visible c)[unat i := None])"
    then have j: "j < length (visible c)" by simp
    show "(visible c)[unat i := None] ! j = map (\<lambda>x. Option.bind x (\<lambda>e. if same_key h k e then None else Some e)) (visible c) ! j"
      using j at e found_unique [OF inv found j] by (cases "visible c ! j") (auto simp: nth_list_update)
  qed simp
  finally have shape: "visible c' = map (\<lambda>x. Option.bind x (\<lambda>e. if same_key h k e then None else Some e)) (visible c)" .
  have split: "visible c = take (unat i) (visible c) @ Some e # drop (Suc (unat i)) (visible c)"
    using at e(2) by (metis id_take_nth_drop)
  have "length (live_of (visible c')) = length (live_of (take (unat i) (visible c))) + length (live_of (drop (Suc (unat i)) (visible c)))"
    using at(2) by (simp add: update upd_conv_take_nth_drop)
  moreover have "length (live_of (visible c)) = Suc (length (live_of (take (unat i) (visible c))) + length (live_of (drop (Suc (unat i)) (visible c))))"
    by (subst split) simp
  ultimately have count: "length (live_of (visible c)) = Suc (length (live_of (visible c')))" by simp
  then have live: "unat (oc_live_len c) = Suc (length (live_of (visible c')))" using inv by (simp add: collection_inv_def)
  then have "1 \<le> oc_live_len c" by (simp add: word_le_nat_alt)
  then have "unat (oc_live_len c') = unat (oc_live_len c) - 1" by (simp add: c'_def saturating_sub_def unat_sub)
  then have "unat (oc_live_len c') = length (live_of (visible c'))" using live by simp
  moreover have "delete_at c i = Ok c'"
    using e by (auto simp: delete_at_def entry_at_def c'_def split: option.splits)
  ultimately show thesis using that [of c'] shape by (simp add: c'_def)
qed

lemma change_key_keys: "(\<lambda>e. language_value h (ce_key e)) \<circ> change_key h k v = (\<lambda>e. language_value h (ce_key e))"
  by (auto simp: change_key_def)

lemma update_inv:
  assumes "collection_inv h c" "visible c' = map (map_option (change_key h k v)) (visible c)" "oc_used c' = oc_used c"
    "oc_live_len c' = oc_live_len c" "length (oc_entries c') = length (oc_entries c)"
  shows "collection_inv h c'"
  using assms by (simp add: collection_inv_def change_key_keys)

lemma delete_inv:
  assumes "collection_inv h c" "oc_used c' = oc_used c" "length (oc_entries c') = length (oc_entries c)"
    "visible c' = map (\<lambda>x. Option.bind x (\<lambda>e. if same_key h k e then None else Some e)) (visible c)"
    "unat (oc_live_len c') = length (live_of (visible c'))"
  shows "collection_inv h c'"
  using assms by (simp add: collection_inv_def live_of_drop_matching distinct_map_filter)

lemma clear_inv:
  assumes "collection_inv h c"
  shows "collection_inv h (clear_entries c)" "visible (clear_entries c) = map (\<lambda>_. None) (visible c)" "oc_used (clear_entries c) = oc_used c"
  using assms by (auto simp: collection_inv_def clear_entries_def visible_def take_map)

lemma push_cases:
  assumes inv: "collection_inv h c" and room: "unat (oc_used c) < length (oc_entries c)"
    and new: "\<forall>e\<in>set (live_of (visible c)). \<not> same_key h k e"
  obtains (pushed) c' where "collection_push c k v = Ok c'" "collection_inv h c'" "visible c' = visible c @ [Some \<lparr>ce_key = k, ce_value = v\<rparr>]"
      "unat (oc_used c') = unat (oc_used c) + 1"
  | (full) c' where "collection_push c k v = Err c'" "collection_inv h c'" "visible c' = visible c" "oc_used c' = oc_used c" "unat (oc_used c) = 2 ^ 32 - 1"
proof -
  define c1 where "c1 = c\<lparr>oc_entries := (oc_entries c)[unat (oc_used c) := Some \<lparr>ce_key = k, ce_value = v\<rparr>]\<rparr>"
  have v1: "visible c1 = visible c" by (simp add: c1_def visible_def)
  have i1: "collection_inv h c1" using inv v1 by (simp add: collection_inv_def c1_def)
  show thesis
  proof (cases "unat (oc_used c) = 2 ^ 32 - 1")
    case True
    then have "collection_push c k v = Err c1" using room by (simp add: collection_push_def c1_def checked_add_def Let_def)
    then show thesis using full [of c1] i1 v1 True by (simp add: c1_def)
  next
    case False
    then have used: "unat (oc_used c) + 1 < 2 ^ 32" using unat_u32_less [of "oc_used c"] by simp
    have "unat (oc_live_len c) \<le> unat (oc_used c)"
      using inv live_of_length [of "visible c"] by (simp add: collection_inv_def visible_def)
    then have live: "unat (oc_live_len c) + 1 < 2 ^ 32" using used by simp
    have plus: "unat (w + 1) = unat w + 1" if "unat w + 1 < 2 ^ 32" for w :: u32
      using that by (simp add: unat_word_ariths)
    define c' where "c' = c1\<lparr>oc_used := oc_used c + 1, oc_live_len := oc_live_len c + 1\<rparr>"
    have "visible c' = visible c @ [Some \<lparr>ce_key = k, ce_value = v\<rparr>]"
      using room plus [OF used] by (simp add: c'_def c1_def visible_def take_Suc_conv_app_nth)
    moreover have "collection_push c k v = Ok c'"
      using room used live by (simp add: collection_push_def c'_def c1_def checked_add_def Let_def)
    moreover have "collection_inv h c'"
      using inv room new calculation(1) plus [OF used] plus [OF live]
      by (auto simp: collection_inv_def c'_def c1_def same_key_def)
    ultimately show thesis using pushed [of c'] plus [OF used] by (simp add: c'_def)
  qed
qed

lemma grow_copy_cases:
  assumes inv: "collection_inv h c" and full: "\<not> unat (oc_used c) < length (oc_entries c)"
  obtains capacity where "grown_entry_capacity (length (oc_entries c)) = Some capacity"
    "grow_copy grants c capacity =
      (if grants capacity then Ok (c\<lparr>oc_entries := oc_entries c @ replicate (capacity - unat (oc_used c)) None\<rparr>) else Err ())"
    "capacity = length (oc_entries c) * 2"
proof -
  have len: "length (oc_entries c) = unat (oc_used c)" "0 < length (oc_entries c)" using inv full by (auto simp: collection_inv_def)
  then have "length (oc_entries c) * 2 < 2 ^ 64" using unat_u32_less [of "oc_used c"] by simp
  then have "grown_entry_capacity (length (oc_entries c)) = Some (length (oc_entries c) * 2)"
    using len by (simp add: grown_entry_capacity_def usize_checked_def)
  then show thesis
    using that [of "length (oc_entries c) * 2"] len by (simp add: grow_copy_def collection_with_capacity_def Let_def)
qed

section \<open>The specification\<close>

text \<open>The entries in insertion order, split where the iterator stands, and whether the iterator can still yield.\<close>

record map_spec =
  ms_seen :: "collection_entry list"
  ms_rest :: "collection_entry list"
  ms_open :: bool

datatype client_op =
    Do_Get "js_value option" | Do_Get_Or_Insert "js_value option" "js_value option" | Do_Set "js_value option" "js_value option"
  | Do_Add "js_value option" | Do_Has "js_value option" | Do_Delete "js_value option" | Do_Clear | Do_Size | Do_Next

datatype client_output =
    Out_Value js_value | Out_Bool bool | Out_Count nat | Out_Unit | Out_Iterator iterator_result | Out_Incompatible | Out_Refused

abbreviation ms_all :: "map_spec \<Rightarrow> collection_entry list" where
  "ms_all st \<equiv> ms_seen st @ ms_rest st"

definition spec_lookup :: "vm_heap \<Rightarrow> js_value \<Rightarrow> collection_entry list \<Rightarrow> js_value option" where
  "spec_lookup h k es = map_option ce_value (List.find (same_key h k) es)"

text \<open>An insertion of an absent key may be refused for lack of memory; nothing else can fail on a receiver of the right kind.\<close>

definition spec_insert :: "bool \<Rightarrow> js_value \<Rightarrow> js_value \<Rightarrow> client_output \<Rightarrow> map_spec \<Rightarrow> client_output \<times> map_spec" where
  "spec_insert refused k v out st =
     (if refused then (Out_Refused, st) else (out, st\<lparr>ms_rest := ms_rest st @ [\<lparr>ce_key = k, ce_value = v\<rparr>]\<rparr>))"

fun spec_step :: "vm_heap \<Rightarrow> bool \<Rightarrow> js_value \<Rightarrow> collection_iteration_kind \<Rightarrow> bool \<Rightarrow> client_op \<Rightarrow> map_spec \<Rightarrow> client_output \<times> map_spec" where
  "spec_step h is_map this kind refused (Do_Get k) st =
     (if is_map then (Out_Value (case spec_lookup h (collection_key k) (ms_all st) of Some v \<Rightarrow> v | None \<Rightarrow> from_immediate Undefined), st)
      else (Out_Incompatible, st))"
| "spec_step h is_map this kind refused (Do_Get_Or_Insert k v) st =
     (if is_map then
        (case spec_lookup h (collection_key k) (ms_all st) of
           Some old \<Rightarrow> (Out_Value old, st)
         | None \<Rightarrow> spec_insert refused (collection_key k) (value_argument v) (Out_Value (value_argument v)) st)
      else (Out_Incompatible, st))"
| "spec_step h is_map this kind refused (Do_Set k v) st =
     (if is_map then
        (case spec_lookup h (collection_key k) (ms_all st) of
           Some old \<Rightarrow> (Out_Value this, st\<lparr>ms_seen := map (change_key h (collection_key k) (value_argument v)) (ms_seen st),
                                        ms_rest := map (change_key h (collection_key k) (value_argument v)) (ms_rest st)\<rparr>)
         | None \<Rightarrow> spec_insert refused (collection_key k) (value_argument v) (Out_Value this) st)
      else (Out_Incompatible, st))"
| "spec_step h is_map this kind refused (Do_Add k) st =
     (if is_map then (Out_Incompatible, st)
      else case spec_lookup h (collection_key k) (ms_all st) of
             Some old \<Rightarrow> (Out_Value this, st)
           | None \<Rightarrow> spec_insert refused (collection_key k) (collection_key k) (Out_Value this) st)"
| "spec_step h is_map this kind refused (Do_Has k) st = (Out_Bool (spec_lookup h (collection_key k) (ms_all st) \<noteq> None), st)"
| "spec_step h is_map this kind refused (Do_Delete k) st =
     (Out_Bool (spec_lookup h (collection_key k) (ms_all st) \<noteq> None),
      st\<lparr>ms_seen := filter (\<lambda>e. \<not> same_key h (collection_key k) e) (ms_seen st),
         ms_rest := filter (\<lambda>e. \<not> same_key h (collection_key k) e) (ms_rest st)\<rparr>)"
| "spec_step h is_map this kind refused Do_Clear st = (Out_Unit, st\<lparr>ms_seen := [], ms_rest := []\<rparr>)"
| "spec_step h is_map this kind refused Do_Size st = (Out_Count (length (ms_all st)), st)"
| "spec_step h is_map this kind refused Do_Next st =
     (if ms_open st then
        (case ms_rest st of
           [] \<Rightarrow> (Out_Iterator Iterator_Done, st\<lparr>ms_open := False\<rparr>)
         | e # es \<Rightarrow> (Out_Iterator (iterator_project kind e), st\<lparr>ms_seen := ms_seen st @ [e], ms_rest := es\<rparr>))
      else (Out_Iterator Iterator_Done, st))"

inductive spec_runs :: "vm_heap \<Rightarrow> bool \<Rightarrow> js_value \<Rightarrow> collection_iteration_kind \<Rightarrow> map_spec \<Rightarrow> client_op list \<Rightarrow> client_output list \<Rightarrow> map_spec \<Rightarrow> bool" where
  spec_runs_Nil: "spec_runs h is_map this kind st [] [] st"
| spec_runs_Cons: "spec_step h is_map this kind refused op st = (out, st1) \<Longrightarrow> spec_runs h is_map this kind st1 ops outs st2 \<Longrightarrow>
    spec_runs h is_map this kind st (op # ops) (out # outs) st2"

text \<open>The client of the code: one operation after the other on one object, with one iterator.\<close>

definition settle :: "('a \<Rightarrow> client_output) \<Rightarrow> 'a collection_result \<Rightarrow> (client_output \<times> collection_isolate) option" where
  "settle f r =
     (case r of
        Ok (x, vm) \<Rightarrow> Some (f x, vm)
      | Err (IncompatibleCollectionReceiver _, vm) \<Rightarrow> Some (Out_Incompatible, vm)
      | Err (_, vm) \<Rightarrow> Some (Out_Refused, vm)
      | Panic \<Rightarrow> None)"

fun client_step :: "bool \<Rightarrow> js_value \<Rightarrow> client_op \<Rightarrow> collection_isolate \<Rightarrow> collection_iterator \<Rightarrow> (client_output \<times> collection_isolate \<times> collection_iterator) option" where
  "client_step is_map this (Do_Get k) vm it = map_option (\<lambda>(out, vm). (out, vm, it)) (settle Out_Value (map_get vm this k))"
| "client_step is_map this (Do_Get_Or_Insert k v) vm it = map_option (\<lambda>(out, vm). (out, vm, it)) (settle Out_Value (map_get_or_insert vm this k v))"
| "client_step is_map this (Do_Set k v) vm it = map_option (\<lambda>(out, vm). (out, vm, it)) (settle Out_Value (map_set vm this k v))"
| "client_step is_map this (Do_Add k) vm it = map_option (\<lambda>(out, vm). (out, vm, it)) (settle Out_Value (set_add vm this k))"
| "client_step is_map this (Do_Has k) vm it = map_option (\<lambda>(out, vm). (out, vm, it)) (settle Out_Bool (collection_has is_map vm this k))"
| "client_step is_map this (Do_Delete k) vm it = map_option (\<lambda>(out, vm). (out, vm, it)) (settle Out_Bool (collection_remove is_map vm this k))"
| "client_step is_map this Do_Clear vm it = map_option (\<lambda>(out, vm). (out, vm, it)) (settle (\<lambda>_. Out_Unit) (collection_clear is_map vm this))"
| "client_step is_map this Do_Size vm it = map_option (\<lambda>(out, vm). (out, vm, it)) (settle (\<lambda>n. Out_Count (unat n)) (collection_size is_map vm this))"
| "client_step is_map this Do_Next vm it =
     (case collection_iterator_next vm it of
        Some (Ok (r, it')) \<Rightarrow> Some (Out_Iterator r, vm, it')
      | Some (Err (_, it')) \<Rightarrow> Some (Out_Incompatible, vm, it')
      | _ \<Rightarrow> None)"

fun client_run :: "bool \<Rightarrow> js_value \<Rightarrow> client_op list \<Rightarrow> collection_isolate \<Rightarrow> collection_iterator \<Rightarrow> (client_output list \<times> collection_isolate \<times> collection_iterator) option" where
  "client_run is_map this [] vm it = Some ([], vm, it)"
| "client_run is_map this (op # ops) vm it =
     (case client_step is_map this op vm it of
        None \<Rightarrow> None
      | Some (out, vm, it) \<Rightarrow> map_option (\<lambda>(outs, vm, it). (out # outs, vm, it)) (client_run is_map this ops vm it))"

section \<open>Refinement\<close>

definition client_inv :: "bool \<Rightarrow> js_value \<Rightarrow> collection_isolate \<Rightarrow> collection_iterator \<Rightarrow> ordered_collection \<Rightarrow> bool" where
  "client_inv is_map this vm it c \<longleftrightarrow>
     collection_storage is_map vm this = Ok c \<and> heap_canonical (ci_heap vm) \<and> collection_inv (ci_heap vm) c \<and>
     it_collection it \<in> {None, Some this} \<and> unat (it_next_index it) \<le> unat (oc_used c)"

definition spec_of :: "ordered_collection \<Rightarrow> collection_iterator \<Rightarrow> map_spec" where
  "spec_of c it =
     \<lparr>ms_seen = live_of (take (unat (it_next_index it)) (visible c)), ms_rest = live_of (drop (unat (it_next_index it)) (visible c)),
      ms_open = (it_collection it \<noteq> None)\<rparr>"

definition granted :: "collection_isolate \<Rightarrow> bool" where
  "granted vm \<longleftrightarrow> (\<forall>n. ci_backing vm n \<and> ci_payload vm n)"

definition same_vm :: "collection_isolate \<Rightarrow> collection_isolate \<Rightarrow> bool" where
  "same_vm vm vm' \<longleftrightarrow> ci_heap vm' = ci_heap vm \<and> ci_backing vm' = ci_backing vm \<and> ci_payload vm' = ci_payload vm"

lemma spec_of_all: "ms_all (spec_of c it) = live_of (visible c)"
  by (simp add: spec_of_def flip: live_of_append)

lemma storage_raw: "collection_storage is_map vm this = Ok c \<Longrightarrow> \<exists>raw. as_heap_ref this = Some raw"
  by (cases "as_heap_ref this") (auto simp: collection_storage_def)

lemma publish_same:
  "same_vm vm (publish_storage is_map vm this c)"
  by (simp add: publish_storage_def same_vm_def split: option.split)

lemma publish_storage_get:
  assumes "collection_storage is_map vm this = Ok c"
  shows "collection_storage is_map (publish_storage is_map vm this c') this = Ok c'"
  using storage_raw [OF assms] by (auto simp: collection_storage_def publish_storage_def)

lemma other_kind: "collection_storage is_map vm this = Ok c \<Longrightarrow> collection_storage (\<not> is_map) vm this = Err (IncompatibleCollectionReceiver this, vm)"
  by (auto simp: collection_storage_def split: option.splits collection_object.splits if_splits)

lemma storage_object: "collection_storage is_map vm this = Ok c \<Longrightarrow> object_storage vm this = Some c"
  by (auto simp: collection_storage_def object_storage_def split: option.splits collection_object.splits if_splits)

lemma spec_lookup_present:
  assumes inv: "collection_inv h c" and found: "found_at h c k i" and e: "entry_at c i = Some e"
  shows "spec_lookup h k (live_of (visible c)) = Some (ce_value e)"
proof -
  have i: "i < oc_used c" and same: "same_key h k e" using found e by (auto simp: found_at_def)
  have "visible c ! unat i = Some e" "unat i < length (visible c)" using entry_at_visible [OF inv i] e by simp_all
  then have mem: "e \<in> set (live_of (visible c))" unfolding live_of_set by (metis mem_Collect_eq nth_mem)
  then obtain e' where e': "List.find (same_key h k) (live_of (visible c)) = Some e'"
    using same by (cases "List.find (same_key h k) (live_of (visible c))") (auto simp: find_None_iff)
  then have "e' \<in> set (live_of (visible c))" "same_key h k e'" unfolding find_Some_iff by (auto intro: nth_mem)
  moreover have "inj_on (\<lambda>e. language_value h (ce_key e)) (set (live_of (visible c)))"
    using inv by (simp add: collection_inv_def distinct_map)
  ultimately have "e' = e" using mem same unfolding same_key_def by (metis (mono_tags, lifting) inj_onD)
  then show ?thesis by (simp add: spec_lookup_def e')
qed

lemma spec_lookup_absent: "\<forall>e\<in>set es. \<not> same_key h k e \<Longrightarrow> spec_lookup h k es = None"
  by (simp add: spec_lookup_def find_None_iff)

lemma grown_same:
  assumes "collection_inv h c"
  shows "collection_inv h (c\<lparr>oc_entries := oc_entries c @ xs\<rparr>)" "visible (c\<lparr>oc_entries := oc_entries c @ xs\<rparr>) = visible c"
  using assms by (simp_all add: collection_inv_def visible_def)

lemma ensure_cases:
  assumes storage: "collection_storage is_map vm this = Ok c" and inv: "collection_inv (ci_heap vm) c"
  obtains (ready) c' vm' where "ensure_collection_capacity is_map vm this c = Ok (c', vm')" "collection_storage is_map vm' this = Ok c'"
      "collection_inv (ci_heap vm) c'" "visible c' = visible c" "oc_used c' = oc_used c" "unat (oc_used c') < length (oc_entries c')" "same_vm vm vm'"
  | (refused) e where "ensure_collection_capacity is_map vm this c = Err (e, vm)" "e \<in> {CollectionStorageAllocationFailed, CollectionHeapAllocation}"
      "\<not> granted vm"
proof (cases "unat (oc_used c) < length (oc_entries c)")
  case True
  then show thesis using ready [of c vm] storage inv by (simp add: ensure_collection_capacity_def same_vm_def)
next
  case full: False
  obtain capacity where grow: "grown_entry_capacity (length (oc_entries c)) = Some capacity" "capacity = length (oc_entries c) * 2"
    "grow_copy (ci_backing vm) c capacity =
      (if ci_backing vm capacity then Ok (c\<lparr>oc_entries := oc_entries c @ replicate (capacity - unat (oc_used c)) None\<rparr>) else Err ())"
    using grow_copy_cases [OF inv full] by metis
  let ?c = "c\<lparr>oc_entries := oc_entries c @ replicate (capacity - unat (oc_used c)) None\<rparr>"
  have len: "length (oc_entries c) = unat (oc_used c)" "0 < length (oc_entries c)" using inv full by (auto simp: collection_inv_def)
  have run: "ensure_collection_capacity is_map vm this c =
      (if \<not> ci_backing vm capacity then Err (CollectionStorageAllocationFailed, vm)
       else if ci_payload vm capacity then Ok (?c, publish_storage is_map vm this ?c) else Err (CollectionHeapAllocation, vm))"
    using full grow(1,3) by (simp add: ensure_collection_capacity_def)
  have room: "unat (oc_used ?c) < length (oc_entries ?c)" using len grow(2) by simp
  show thesis
  proof (cases "ci_backing vm capacity \<and> ci_payload vm capacity")
    case True
    then have "ensure_collection_capacity is_map vm this c = Ok (?c, publish_storage is_map vm this ?c)" using run by simp
    then show thesis
      using room grown_same [OF inv] publish_same
      by (intro ready [of ?c "publish_storage is_map vm this ?c"] publish_storage_get [OF storage]) simp_all
  next
    case False
    then have "\<not> granted vm" by (auto simp: granted_def)
    then show thesis
      using refused [of CollectionStorageAllocationFailed] refused [of CollectionHeapAllocation] run False by (cases "ci_backing vm capacity") simp_all
  qed
qed

lemma insert_cases:
  assumes storage: "collection_storage is_map vm this = Ok c" and inv: "collection_inv (ci_heap vm) c"
    and new: "\<forall>e\<in>set (live_of (visible c)). \<not> same_key (ci_heap vm) k e"
  obtains (inserted) c1 vm1 c' vm' where "ensure_collection_capacity is_map vm this c = Ok (c1, vm1)" "collection_append is_map vm1 this c1 k v = Ok ((), vm')"
      "collection_storage is_map vm' this = Ok c'" "collection_inv (ci_heap vm) c'"
      "visible c' = visible c @ [Some \<lparr>ce_key = k, ce_value = v\<rparr>]" "unat (oc_used c') = unat (oc_used c) + 1" "same_vm vm vm'"
  | (refused) e c' vm' where "and_then (ensure_collection_capacity is_map vm this c) (\<lambda>(c, vm). collection_append is_map vm this c k v) = Err (e, vm')"
      "e \<in> {CollectionStorageAllocationFailed, CollectionHeapAllocation}"
      "collection_storage is_map vm' this = Ok c'" "collection_inv (ci_heap vm) c'" "visible c' = visible c" "oc_used c' = oc_used c" "same_vm vm vm'"
      "\<not> granted vm \<or> unat (oc_used c) = 2 ^ 32 - 1"
proof (cases rule: ensure_cases [OF storage inv])
  case (1 c1 vm1)
  have "\<forall>e\<in>set (live_of (visible c1)). \<not> same_key (ci_heap vm) k e" using new 1 by simp
  with 1(3,6) show thesis
  proof (cases rule: push_cases [where v = v])
    case (pushed c')
    then show thesis
      using inserted [OF 1(1), of "publish_storage is_map vm1 this c'" c'] publish_storage_get [OF 1(2)] publish_same [of vm1 is_map this c'] 1
      by (simp add: collection_append_def same_vm_def)
  next
    case (full c')
    have "and_then (ensure_collection_capacity is_map vm this c) (\<lambda>(c, vm). collection_append is_map vm this c k v) =
        Err (CollectionStorageAllocationFailed, publish_storage is_map vm1 this c')"
      using 1(1) full by (simp add: collection_append_def)
    then show thesis
      using refused [of _ _ c'] full publish_storage_get [OF 1(2)] publish_same [of vm1 is_map this c'] 1 by (simp add: same_vm_def)
  qed
next
  case (2 e)
  then show thesis using refused [of e vm c] storage inv by (simp add: same_vm_def)
qed

section \<open>Iteration\<close>

lemma iterator_next_total:
  assumes inv: "collection_inv h c" and storage: "object_storage vm this = Some c"
    and it: "it_collection it = Some this" "unat (it_next_index it) \<le> unat (oc_used c)"
  shows "\<exists>it'. collection_iterator_next vm it =
      Some (Ok (case live_of (drop (unat (it_next_index it)) (visible c)) of [] \<Rightarrow> Iterator_Done | e # _ \<Rightarrow> iterator_project (it_kind it) e, it')) \<and>
    it_kind it' = it_kind it \<and> unat (it_next_index it') \<le> unat (oc_used c) \<and>
    it_collection it' = (if live_of (drop (unat (it_next_index it)) (visible c)) = [] then None else Some this) \<and>
    live_of (take (unat (it_next_index it')) (visible c)) =
      live_of (take (unat (it_next_index it)) (visible c)) @ take 1 (live_of (drop (unat (it_next_index it)) (visible c))) \<and>
    live_of (drop (unat (it_next_index it')) (visible c)) = tl (live_of (drop (unat (it_next_index it)) (visible c)))"
  using it
proof (induction "unat (oc_used c) - unat (it_next_index it)" arbitrary: it)
  case 0
  then have n: "unat (it_next_index it) = unat (oc_used c)" by simp
  then have "oc_used c \<le> it_next_index it" by (simp add: word_le_nat_alt)
  then have "collection_iterator_next vm it = Some (Ok (Iterator_Done, it\<lparr>it_collection := None\<rparr>))"
    using 0 storage by (subst collection_iterator_next.simps) simp
  then show ?case using n visible_length [OF inv] by simp
next
  case (Suc m)
  let ?i = "it_next_index it"
  have less: "?i < oc_used c" using Suc(2) by (simp add: word_less_nat_alt)
  note at = entry_at_visible [OF inv less]
  have bound: "unat ?i + 1 < 2 ^ 32" using less unat_u32_less [of "oc_used c"] by (simp add: word_less_nat_alt)
  have step: "unat (?i + 1) = Suc (unat ?i)" using bound by (simp add: unat_word_ariths)
  have drop: "drop (unat ?i) (visible c) = visible c ! unat ?i # drop (Suc (unat ?i)) (visible c)" using at by (simp add: Cons_nth_drop_Suc)
  have take: "take (Suc (unat ?i)) (visible c) = take (unat ?i) (visible c) @ [visible c ! unat ?i]" using at by (simp add: take_Suc_conv_app_nth)
  have go: "collection_iterator_next vm it =
      (case visible c ! unat ?i of
         None \<Rightarrow> collection_iterator_next vm (it\<lparr>it_next_index := ?i + 1\<rparr>)
       | Some e \<Rightarrow> Some (Ok (iterator_project (it_kind it) e, it\<lparr>it_next_index := ?i + 1\<rparr>)))"
    using Suc(3) storage less at by (subst collection_iterator_next.simps) (simp add: Let_def linorder_not_le [symmetric] split: option.split)
  show ?case
  proof (cases "visible c ! unat ?i")
    case None
    let ?next = "it\<lparr>it_next_index := ?i + 1\<rparr>"
    have "m = unat (oc_used c) - unat (it_next_index ?next)" "it_collection ?next = Some this" "unat (it_next_index ?next) \<le> unat (oc_used c)"
      using Suc(2,3) step by simp_all
    note rest = Suc(1) [OF this]
    have eqs: "live_of (drop (unat ?i) (visible c)) = live_of (drop (Suc (unat ?i)) (visible c))"
      "live_of (take (Suc (unat ?i)) (visible c)) = live_of (take (unat ?i) (visible c))"
      "it_kind ?next = it_kind it" "unat (it_next_index ?next) = Suc (unat ?i)"
      by (simp_all add: drop take None step)
    show ?thesis unfolding go None option.case eqs(1) by (rule rest [unfolded eqs(2,3,4)])
  next
    case (Some e)
    then show ?thesis using go step less Suc(3) by (simp add: drop take word_less_nat_alt)
  qed
qed

section \<open>Simulation\<close>

definition simulated :: "bool \<Rightarrow> js_value \<Rightarrow> client_op \<Rightarrow> collection_isolate \<Rightarrow> collection_iterator \<Rightarrow> ordered_collection \<Rightarrow> bool" where
  "simulated is_map this op vm it c \<longleftrightarrow>
     (\<exists>out vm' it' c' refused.
        client_step is_map this op vm it = Some (out, vm', it') \<and> client_inv is_map this vm' it' c' \<and> same_vm vm vm' \<and>
        it_kind it' = it_kind it \<and> unat (oc_used c') \<le> unat (oc_used c) + 1 \<and>
        spec_step (ci_heap vm) is_map this (it_kind it) refused op (spec_of c it) = (out, spec_of c' it') \<and>
        (out = Out_Refused \<longrightarrow> \<not> granted vm \<or> unat (oc_used c) = 2 ^ 32 - 1))"

text \<open>The state after an operation on the storage, by its effect on the visible entries.\<close>

lemma client_inv_step:
  assumes "client_inv is_map this vm it c" "collection_storage is_map vm' this = Ok c'" "collection_inv (ci_heap vm) c'" "same_vm vm vm'"
    "unat (oc_used c) \<le> unat (oc_used c')"
  shows "client_inv is_map this vm' it c'"
  using assms by (auto simp: client_inv_def same_vm_def)

lemma spec_of_map: "visible c' = map f (visible c) \<Longrightarrow>
    spec_of c' it = (spec_of c it)\<lparr>ms_seen := live_of (map f (take (unat (it_next_index it)) (visible c))),
      ms_rest := live_of (map f (drop (unat (it_next_index it)) (visible c)))\<rparr>"
  by (simp add: spec_of_def take_map drop_map)

lemma spec_of_insert:
  assumes "client_inv is_map this vm it c" "visible c' = visible c @ [Some e]"
  shows "spec_of c' it = (spec_of c it)\<lparr>ms_rest := ms_rest (spec_of c it) @ [e]\<rparr>"
  using assms visible_length [of "ci_heap vm" c] by (simp add: spec_of_def client_inv_def)

lemma spec_of_same: "visible c' = visible c \<Longrightarrow> spec_of c' it = spec_of c it"
  by (simp add: spec_of_def)

lemma spec_of_lookup: "spec_lookup h k (ms_all (spec_of c it)) = spec_lookup h k (live_of (visible c))"
  by (simp only: spec_of_all)

lemma simulated_same:
  assumes inv: "client_inv is_map this vm it c" and "client_step is_map this op vm it = Some (out, vm, it)"
    "spec_step (ci_heap vm) is_map this (it_kind it) False op (spec_of c it) = (out, spec_of c it)" "out \<noteq> Out_Refused"
  shows "simulated is_map this op vm it c"
  unfolding simulated_def using assms
  by (intro exI [of _ out] exI [of _ vm] exI [of _ it] exI [of _ c] exI [of _ False]) (simp add: same_vm_def)

lemma simulated_insert:
  assumes inv: "client_inv is_map this vm it c" and new: "\<forall>e\<in>set (live_of (visible c)). \<not> same_key (ci_heap vm) k e"
    and ok: "\<And>c1 vm1 vm'. ensure_collection_capacity is_map vm this c = Ok (c1, vm1) \<Longrightarrow> collection_append is_map vm1 this c1 k v = Ok ((), vm') \<Longrightarrow>
        client_step is_map this op vm it = Some (out, vm', it)"
    and err: "\<And>e vm'. and_then (ensure_collection_capacity is_map vm this c) (\<lambda>(c, vm). collection_append is_map vm this c k v) = Err (e, vm') \<Longrightarrow>
        e \<in> {CollectionStorageAllocationFailed, CollectionHeapAllocation} \<Longrightarrow> client_step is_map this op vm it = Some (Out_Refused, vm', it)"
    and spec: "\<And>refused. spec_step (ci_heap vm) is_map this (it_kind it) refused op (spec_of c it) = spec_insert refused k v out (spec_of c it)"
    and out: "out \<noteq> Out_Refused"
  shows "simulated is_map this op vm it c"
proof -
  have storage: "collection_storage is_map vm this = Ok c" "collection_inv (ci_heap vm) c" using inv by (simp_all add: client_inv_def)
  show ?thesis
  proof (cases rule: insert_cases [OF storage new, where v = v])
    case (1 c1 vm1 c' vm')
    have "client_step is_map this op vm it = Some (out, vm', it)" by (rule ok [OF 1(1,2)])
    moreover have "client_inv is_map this vm' it c'" using client_inv_step [OF inv 1(3,4,7)] 1(6) by simp
    moreover have "spec_step (ci_heap vm) is_map this (it_kind it) False op (spec_of c it) = (out, spec_of c' it)"
      using spec [of False] spec_of_insert [OF inv 1(5)] by (simp add: spec_insert_def)
    ultimately show ?thesis
      unfolding simulated_def using 1(6,7) out by (intro exI [of _ out] exI [of _ vm'] exI [of _ it] exI [of _ c'] exI [of _ False]) simp
  next
    case (2 e c' vm')
    have "client_step is_map this op vm it = Some (Out_Refused, vm', it)" by (rule err [OF 2(1,2)])
    moreover have "client_inv is_map this vm' it c'" using client_inv_step [OF inv 2(3,4,7)] 2(6) by simp
    moreover have "spec_step (ci_heap vm) is_map this (it_kind it) True op (spec_of c it) = (Out_Refused, spec_of c' it)"
      using spec [of True] spec_of_same [OF 2(5)] by (simp add: spec_insert_def)
    ultimately show ?thesis
      unfolding simulated_def using 2(6,7,8) by (intro exI [of _ Out_Refused] exI [of _ vm'] exI [of _ it] exI [of _ c'] exI [of _ True]) simp
  qed
qed

lemma simulated_storage:
  assumes inv: "client_inv is_map this vm it c" and step: "client_step is_map this op vm it = Some (out, publish_storage is_map vm this c', it)"
    and c': "collection_inv (ci_heap vm) c'" "oc_used c' = oc_used c"
    and spec: "spec_step (ci_heap vm) is_map this (it_kind it) False op (spec_of c it) = (out, spec_of c' it)" and out: "out \<noteq> Out_Refused"
  shows "simulated is_map this op vm it c"
proof -
  have "collection_storage is_map (publish_storage is_map vm this c') this = Ok c'"
    using inv by (auto simp: client_inv_def intro: publish_storage_get)
  then have "client_inv is_map this (publish_storage is_map vm this c') it c'"
    using client_inv_step [OF inv _ c'(1) publish_same] c'(2) by simp
  then show ?thesis
    unfolding simulated_def using step spec out publish_same c'(2)
    by (intro exI [of _ out] exI [of _ "publish_storage is_map vm this c'"] exI [of _ it] exI [of _ c'] exI [of _ False]) simp
qed

lemma client_invD:
  assumes "client_inv is_map this vm it c"
  shows "collection_storage is_map vm this = Ok c" "heap_canonical (ci_heap vm)" "collection_inv (ci_heap vm) c"
  using assms by (simp_all add: client_inv_def)

lemma settle_simps [simp]:
  "settle f (Ok (x, vm)) = Some (f x, vm)" "settle f (Err (IncompatibleCollectionReceiver r, vm)) = Some (Out_Incompatible, vm)"
  "settle f (Err (CollectionStorageAllocationFailed, vm)) = Some (Out_Refused, vm)" "settle f (Err (CollectionHeapAllocation, vm)) = Some (Out_Refused, vm)"
  by (simp_all add: settle_def)

lemma wrong_kind:
  assumes "client_inv is_map this vm it c"
  shows "is_map \<Longrightarrow> collection_storage False vm this = Err (IncompatibleCollectionReceiver this, vm)"
    "\<not> is_map \<Longrightarrow> collection_storage True vm this = Err (IncompatibleCollectionReceiver this, vm)"
  using other_kind [OF client_invD(1) [OF assms]] by simp_all

lemma simulate_get:
  assumes inv: "client_inv is_map this vm it c"
  shows "simulated is_map this (Do_Get k) vm it c"
proof (cases is_map)
  case True
  note c = client_invD [OF inv]
  show ?thesis
  proof (cases rule: collection_find_cases [OF c(2,3), where k = "collection_key k"])
    case (1 i)
    then obtain e where e: "entry_at c i = Some e" by (auto simp: found_at_def)
    then show ?thesis
      using inv c 1 True spec_lookup_present [OF c(3) 1(2) e]
      by (intro simulated_same [where out = "Out_Value (ce_value e)"]) (simp_all add: map_get_def spec_of_lookup)
  next
    case 2
    then show ?thesis
      using inv c True spec_lookup_absent [OF 2(2)]
      by (intro simulated_same [where out = "Out_Value (from_immediate Undefined)"]) (simp_all add: map_get_def spec_of_lookup)
  qed
next
  case False
  then show ?thesis
    using inv wrong_kind [OF inv] by (intro simulated_same [where out = Out_Incompatible]) (simp_all add: map_get_def)
qed

lemma simulate_get_or_insert:
  assumes inv: "client_inv is_map this vm it c"
  shows "simulated is_map this (Do_Get_Or_Insert k v) vm it c"
proof (cases is_map)
  case True
  note c = client_invD [OF inv]
  show ?thesis
  proof (cases rule: collection_find_cases [OF c(2,3), where k = "collection_key k"])
    case (1 i)
    then obtain e where e: "entry_at c i = Some e" by (auto simp: found_at_def)
    then show ?thesis
      using inv c 1 True spec_lookup_present [OF c(3) 1(2) e]
      by (intro simulated_same [where out = "Out_Value (ce_value e)"]) (simp_all add: map_get_or_insert_def spec_of_lookup)
  next
    case 2
    then show ?thesis
      using inv c True spec_lookup_absent [OF 2(2)]
      by (intro simulated_insert [OF inv 2(2), where out = "Out_Value (value_argument v)" and v = "value_argument v"])
        (auto simp: map_get_or_insert_def spec_of_lookup and_then_eq_Err)
  qed
next
  case False
  then show ?thesis
    using inv wrong_kind [OF inv] by (intro simulated_same [where out = Out_Incompatible]) (simp_all add: map_get_or_insert_def)
qed

lemma simulate_set:
  assumes inv: "client_inv is_map this vm it c"
  shows "simulated is_map this (Do_Set k v) vm it c"
proof (cases is_map)
  case True
  note c = client_invD [OF inv]
  show ?thesis
  proof (cases rule: collection_find_cases [OF c(2,3), where k = "collection_key k"])
    case (1 i)
    then obtain e where e: "entry_at c i = Some e" by (auto simp: found_at_def)
    obtain c' where c': "update_at c i (value_argument v) = Ok c'" "visible c' = map (map_option (change_key (ci_heap vm) (collection_key k) (value_argument v))) (visible c)"
      "oc_used c' = oc_used c" "oc_live_len c' = oc_live_len c" "length (oc_entries c') = length (oc_entries c)"
      by (rule update_at_found [OF c(3) 1(2)])
    show ?thesis
      using c 1 c' True spec_lookup_present [OF c(3) 1(2) e] update_inv [OF c(3) c'(2-5)]
      by (intro simulated_storage [OF inv, where out = "Out_Value this" and c' = c'])
        (simp_all add: map_set_def collection_update_def spec_of_lookup spec_of_map, simp add: spec_of_def)
  next
    case 2
    then show ?thesis
      using inv c True spec_lookup_absent [OF 2(2)]
      by (intro simulated_insert [OF inv 2(2), where out = "Out_Value this" and v = "value_argument v"])
        (auto simp: map_set_def spec_of_lookup and_then_eq_Err)
  qed
next
  case False
  then show ?thesis
    using inv wrong_kind [OF inv] by (intro simulated_same [where out = Out_Incompatible]) (simp_all add: map_set_def)
qed

lemma simulate_add:
  assumes inv: "client_inv is_map this vm it c"
  shows "simulated is_map this (Do_Add k) vm it c"
proof (cases is_map)
  case False
  note c = client_invD [OF inv]
  show ?thesis
  proof (cases rule: collection_find_cases [OF c(2,3), where k = "collection_key k"])
    case (1 i)
    then obtain e where e: "entry_at c i = Some e" by (auto simp: found_at_def)
    then show ?thesis
      using inv c 1 False spec_lookup_present [OF c(3) 1(2) e]
      by (intro simulated_same [where out = "Out_Value this"]) (simp_all add: set_add_def spec_of_lookup)
  next
    case 2
    then show ?thesis
      using inv c False spec_lookup_absent [OF 2(2)]
      by (intro simulated_insert [OF inv 2(2), where out = "Out_Value this" and v = "collection_key k"])
        (auto simp: set_add_def spec_of_lookup and_then_eq_Err)
  qed
next
  case True
  then show ?thesis
    using inv wrong_kind [OF inv] by (intro simulated_same [where out = Out_Incompatible]) (simp_all add: set_add_def)
qed

lemma simulate_has:
  assumes inv: "client_inv is_map this vm it c"
  shows "simulated is_map this (Do_Has k) vm it c"
proof -
  note c = client_invD [OF inv]
  show ?thesis
  proof (cases rule: collection_find_cases [OF c(2,3), where k = "collection_key k"])
    case (1 i)
    then obtain e where e: "entry_at c i = Some e" by (auto simp: found_at_def)
    then show ?thesis
      using inv c 1 spec_lookup_present [OF c(3) 1(2) e]
      by (intro simulated_same [where out = "Out_Bool True"]) (simp_all add: collection_has_def spec_of_lookup)
  next
    case 2
    then show ?thesis
      using inv c spec_lookup_absent [OF 2(2)]
      by (intro simulated_same [where out = "Out_Bool False"]) (simp_all add: collection_has_def spec_of_lookup)
  qed
qed

lemma filter_absent: "\<forall>e\<in>set es. \<not> P e \<Longrightarrow> filter (\<lambda>e. \<not> P e) es = es"
  by (simp add: filter_id_conv)

lemma simulate_delete:
  assumes inv: "client_inv is_map this vm it c"
  shows "simulated is_map this (Do_Delete k) vm it c"
proof -
  note c = client_invD [OF inv]
  show ?thesis
  proof (cases rule: collection_find_cases [OF c(2,3), where k = "collection_key k"])
    case (1 i)
    then obtain e where e: "entry_at c i = Some e" by (auto simp: found_at_def)
    obtain c' where c': "delete_at c i = Ok c'" "oc_used c' = oc_used c" "length (oc_entries c') = length (oc_entries c)"
      "visible c' = map (\<lambda>x. Option.bind x (\<lambda>e. if same_key (ci_heap vm) (collection_key k) e then None else Some e)) (visible c)"
      "unat (oc_live_len c') = length (live_of (visible c'))"
      by (rule delete_at_found [OF c(3) 1(2)])
    show ?thesis
      using c 1 c' spec_lookup_present [OF c(3) 1(2) e] delete_inv [OF c(3) c'(2-5)]
      by (intro simulated_storage [OF inv, where out = "Out_Bool True" and c' = c'])
        (simp_all add: collection_remove_def collection_delete_def spec_of_lookup spec_of_map live_of_drop_matching, simp add: spec_of_def)
  next
    case 2
    have "ms_seen (spec_of c it) @ ms_rest (spec_of c it) = live_of (visible c)" by (rule spec_of_all)
    then have "\<forall>e\<in>set (ms_seen (spec_of c it)). \<not> same_key (ci_heap vm) (collection_key k) e"
      "\<forall>e\<in>set (ms_rest (spec_of c it)). \<not> same_key (ci_heap vm) (collection_key k) e"
      using 2(2) by (metis in_set_conv_decomp append_Cons append_assoc Un_iff set_append)+
    then show ?thesis
      using inv c 2 spec_lookup_absent [OF 2(2)]
      by (intro simulated_same [where out = "Out_Bool False"]) (simp_all add: collection_remove_def spec_of_lookup filter_absent)
  qed
qed

lemma simulate_clear:
  assumes inv: "client_inv is_map this vm it c"
  shows "simulated is_map this Do_Clear vm it c"
  using client_invD [OF inv] clear_inv [OF client_invD(3) [OF inv]]
  by (intro simulated_storage [OF inv, where out = Out_Unit and c' = "clear_entries c"])
    (simp_all add: collection_clear_def spec_of_map [of "clear_entries c"])

lemma simulate_size:
  assumes inv: "client_inv is_map this vm it c"
  shows "simulated is_map this Do_Size vm it c"
proof -
  have "length (ms_seen (spec_of c it)) + length (ms_rest (spec_of c it)) = unat (oc_live_len c)"
    using client_invD(3) [OF inv] arg_cong [OF spec_of_all, of length c it] by (simp add: collection_inv_def)
  then show ?thesis
    using inv client_invD [OF inv] by (intro simulated_same [where out = "Out_Count (unat (oc_live_len c))"]) (simp_all add: collection_size_def)
qed

lemma simulate_next:
  assumes inv: "client_inv is_map this vm it c"
  shows "simulated is_map this Do_Next vm it c"
proof (cases "it_collection it = None")
  case True
  then have "collection_iterator_next vm it = Some (Ok (Iterator_Done, it))" by (subst collection_iterator_next.simps) simp
  then show ?thesis
    using inv True by (intro simulated_same [where out = "Out_Iterator Iterator_Done"]) (simp_all add: spec_of_def)
next
  case False
  then have this_it: "it_collection it = Some this" "unat (it_next_index it) \<le> unat (oc_used c)" using inv by (auto simp: client_inv_def)
  note c = client_invD [OF inv]
  let ?rest = "live_of (drop (unat (it_next_index it)) (visible c))"
  let ?out = "case ?rest of [] \<Rightarrow> Iterator_Done | e # _ \<Rightarrow> iterator_project (it_kind it) e"
  obtain it' where it': "collection_iterator_next vm it = Some (Ok (?out, it'))" "it_kind it' = it_kind it" "unat (it_next_index it') \<le> unat (oc_used c)"
    "it_collection it' = (if ?rest = [] then None else Some this)"
    "live_of (take (unat (it_next_index it')) (visible c)) = live_of (take (unat (it_next_index it)) (visible c)) @ take 1 ?rest"
    "live_of (drop (unat (it_next_index it')) (visible c)) = tl ?rest"
    using iterator_next_total [OF c(3) storage_object [OF c(1)] this_it] by blast
  have "client_inv is_map this vm it' c" using inv it'(3,4) by (simp add: client_inv_def)
  moreover have "spec_step (ci_heap vm) is_map this (it_kind it) False Do_Next (spec_of c it) = (Out_Iterator ?out, spec_of c it')"
    using this_it it'(4-6) by (cases ?rest) (simp_all add: spec_of_def)
  moreover have "client_step is_map this Do_Next vm it = Some (Out_Iterator ?out, vm, it')" using it'(1) by simp
  ultimately show ?thesis
    unfolding simulated_def using it'(2)
    by (intro exI [of _ "Out_Iterator ?out"] exI [of _ vm] exI [of _ it'] exI [of _ c] exI [of _ False]) (simp add: same_vm_def)
qed

lemma client_step_simulated: "client_inv is_map this vm it c \<Longrightarrow> simulated is_map this op vm it c"
  by (cases op) (simp_all add: simulate_get simulate_get_or_insert simulate_set simulate_add simulate_has simulate_delete simulate_clear simulate_size simulate_next)

text \<open>The scan of \<open>forEach\<close> finds the same entries as an iterator.\<close>

lemma for_each_total:
  assumes inv: "collection_inv h c" and storage: "collection_storage (fe_map p) vm (fe_collection p) = Ok c"
    and p: "unat (fe_next_index p) \<le> unat (oc_used c)"
  shows "\<exists>p'. advance_collection_for_each vm p =
      Some (Ok (case live_of (drop (unat (fe_next_index p)) (visible c)) of
          [] \<Rightarrow> None
        | e # _ \<Rightarrow> Some (if fe_map p then [ce_value e, ce_key e, fe_collection p] else [ce_value e, ce_value e, fe_collection p]), p')) \<and>
    fe_map p' = fe_map p \<and> fe_collection p' = fe_collection p \<and> unat (fe_next_index p') \<le> unat (oc_used c) \<and>
    live_of (drop (unat (fe_next_index p')) (visible c)) = tl (live_of (drop (unat (fe_next_index p)) (visible c)))"
  using storage p
proof (induction "unat (oc_used c) - unat (fe_next_index p)" arbitrary: p)
  case 0
  then have n: "unat (fe_next_index p) = unat (oc_used c)" by simp
  then have "oc_used c \<le> fe_next_index p" by (simp add: word_le_nat_alt)
  then have "advance_collection_for_each vm p = Some (Ok (None, p))"
    using 0 by (subst advance_collection_for_each.simps) simp
  then show ?case using n visible_length [OF inv] by simp
next
  case (Suc m)
  let ?i = "fe_next_index p" and ?next = "p\<lparr>fe_next_index := fe_next_index p + 1\<rparr>"
  have less: "?i < oc_used c" using Suc(2) by (simp add: word_less_nat_alt)
  note at = entry_at_visible [OF inv less]
  have "unat ?i + 1 < 2 ^ 32" using less unat_u32_less [of "oc_used c"] by (simp add: word_less_nat_alt)
  then have step: "unat (?i + 1) = Suc (unat ?i)" by (simp add: unat_word_ariths)
  have drop: "drop (unat ?i) (visible c) = visible c ! unat ?i # drop (Suc (unat ?i)) (visible c)" using at by (simp add: Cons_nth_drop_Suc)
  have go: "advance_collection_for_each vm p =
      (case visible c ! unat ?i of
         None \<Rightarrow> advance_collection_for_each vm ?next
       | Some e \<Rightarrow> Some (Ok (Some (if fe_map p then [ce_value e, ce_key e, fe_collection p] else [ce_value e, ce_value e, fe_collection p]), ?next)))"
    using Suc(3) less at by (subst advance_collection_for_each.simps) (simp add: Let_def linorder_not_le [symmetric] split: option.split)
  show ?case
  proof (cases "visible c ! unat ?i")
    case None
    have "m = unat (oc_used c) - unat (fe_next_index ?next)" "collection_storage (fe_map ?next) vm (fe_collection ?next) = Ok c"
      "unat (fe_next_index ?next) \<le> unat (oc_used c)"
      using Suc(2,3) step by simp_all
    note rest = Suc(1) [OF this]
    have eqs: "live_of (drop (unat ?i) (visible c)) = live_of (drop (Suc (unat ?i)) (visible c))"
      "fe_map ?next = fe_map p" "fe_collection ?next = fe_collection p" "unat (fe_next_index ?next) = Suc (unat ?i)"
      by (simp_all add: drop None step)
    show ?thesis unfolding go None option.case eqs(1) by (rule rest [unfolded eqs(2,3,4)])
  next
    case (Some e)
    then show ?thesis using go step less Suc(3) by (simp add: drop word_less_nat_alt)
  qed
qed

section \<open>The promises of Map and Set\<close>

lemma client_run_refines:
  assumes "client_inv is_map this vm it c"
  shows "\<exists>outs vm' it' c'. client_run is_map this ops vm it = Some (outs, vm', it') \<and> client_inv is_map this vm' it' c' \<and>
    spec_runs (ci_heap vm) is_map this (it_kind it) (spec_of c it) ops outs (spec_of c' it') \<and>
    (granted vm \<and> unat (oc_used c) + length ops < 2 ^ 32 \<longrightarrow> Out_Refused \<notin> set outs)"
  using assms
proof (induction ops arbitrary: vm it c)
  case Nil
  then show ?case by (auto intro: spec_runs_Nil)
next
  case (Cons op ops)
  obtain out vm1 it1 c1 refused where step: "client_step is_map this op vm it = Some (out, vm1, it1)" "client_inv is_map this vm1 it1 c1"
    "same_vm vm vm1" "it_kind it1 = it_kind it" "unat (oc_used c1) \<le> unat (oc_used c) + 1"
    "spec_step (ci_heap vm) is_map this (it_kind it) refused op (spec_of c it) = (out, spec_of c1 it1)"
    "out = Out_Refused \<Longrightarrow> \<not> granted vm \<or> unat (oc_used c) = 2 ^ 32 - 1"
    using client_step_simulated [OF Cons.prems, of op] unfolding simulated_def by blast
  obtain outs vm2 it2 c2 where rest: "client_run is_map this ops vm1 it1 = Some (outs, vm2, it2)" "client_inv is_map this vm2 it2 c2"
    "spec_runs (ci_heap vm1) is_map this (it_kind it1) (spec_of c1 it1) ops outs (spec_of c2 it2)"
    "granted vm1 \<and> unat (oc_used c1) + length ops < 2 ^ 32 \<Longrightarrow> Out_Refused \<notin> set outs"
    using Cons.IH [OF step(2)] by blast
  have run: "client_run is_map this (op # ops) vm it = Some (out # outs, vm2, it2)" using step(1) rest(1) by simp
  moreover have "spec_runs (ci_heap vm) is_map this (it_kind it) (spec_of c it) (op # ops) (out # outs) (spec_of c2 it2)"
    using step(3,4,6) rest(3) by (auto simp: same_vm_def intro: spec_runs_Cons)
  moreover have "granted vm \<and> unat (oc_used c) + length (op # ops) < 2 ^ 32 \<longrightarrow> Out_Refused \<notin> set (out # outs)"
    using step(3,5,7) rest(4) by (auto simp: same_vm_def granted_def)
  ultimately show ?case using rest(2) by blast
qed

text \<open>A new object holds an empty storage of the initial capacity.\<close>

lemma fresh_client_inv:
  assumes "heap_canonical (ci_heap vm)" "allocate_collection_object is_map alloc vm = Ok (this, vm')" "\<And>r. alloc vm = Some r \<Longrightarrow> raw_heap_ref_new r = Some r"
  obtains c where "client_inv is_map this vm' (create_collection_iterator this kind) c" "visible c = []" "oc_used c = 0" "same_vm vm vm'"
proof -
  have caps: "ci_backing vm 4" "ci_payload vm 4" and raw: "\<exists>raw. alloc vm = Some raw"
    using assms(2) by (auto simp: allocate_collection_object_def collection_with_capacity_def INITIAL_ENTRY_CAPACITY_def split: if_splits option.splits)
  then obtain raw where raw: "alloc vm = Some raw" by blast
  define c where "c = \<lparr>oc_entries = replicate 4 None, oc_used = 0, oc_live_len = 0\<rparr>"
  have new: "this = from_heap_ref raw" "vm' = vm\<lparr>ci_collections := (ci_collections vm)(raw \<mapsto> (if is_map then Map_Object c else Set_Object c))\<rparr>"
    using assms(2) caps raw by (auto simp: allocate_collection_object_def collection_with_capacity_def INITIAL_ENTRY_CAPACITY_def c_def)
  have "as_heap_ref this = Some raw" unfolding new(1) using assms(3) [OF raw] by (intro heap_ref_value) (auto simp: raw_heap_ref_new_def split: if_splits)
  then have "collection_storage is_map vm' this = Ok c" by (simp add: new(2) collection_storage_def)
  moreover have "collection_inv h c" for h by (simp add: collection_inv_def c_def visible_def)
  ultimately have "client_inv is_map this vm' (create_collection_iterator this kind) c"
    using assms(1) by (simp add: client_inv_def create_collection_iterator_def new(2))
  then show thesis using that [of c] by (simp add: c_def visible_def new(2) same_vm_def)
qed


inductive_cases spec_runs_NilE: "spec_runs h is_map this kind st [] outs st'"
inductive_cases spec_runs_ConsE: "spec_runs h is_map this kind st (op # ops) outs st'"

definition demo_vm :: collection_isolate where
  "demo_vm = \<lparr>ci_heap = Map.empty, ci_collections = Map.empty, ci_backing = (\<lambda>_. True), ci_payload = (\<lambda>_. True)\<rparr>"


end
