(* ===== verification/Js_String.thy ===== *)
theory Js_String
  imports Prelude
begin

text \<open>
  The strings of \<open>crates/tachyon-vm/src/string.rs\<close>: Latin-1 and UTF-16 storage, their checked constructors, views,
  equality, order and the keyed hash with its cache. The last part shows that equality, order and hash are those of the
  sequence of code units, whatever the storage.
\<close>

unbundle bit_operations_syntax

section \<open>Keyed hashing\<close>

text \<open>The \<open>SipHasher\<close> of the standard library is SipHash-2-4; successive writes append to one byte stream.\<close>

record atom_hash_seed =
  hs_key0 :: u64
  hs_key1 :: u64

definition rotate_left_u64 :: "nat \<Rightarrow> u64 \<Rightarrow> u64" where
  "rotate_left_u64 n w = push_bit n w OR drop_bit (64 - n) w"

type_synonym sip_state = "u64 \<times> u64 \<times> u64 \<times> u64"

definition sip_round :: "sip_state \<Rightarrow> sip_state" where
  "sip_round s =
     (let (v0, v1, v2, v3) = s;
          v0 = v0 + v1; v1 = rotate_left_u64 13 v1 XOR v0; v0 = rotate_left_u64 32 v0;
          v2 = v2 + v3; v3 = rotate_left_u64 16 v3 XOR v2;
          v0 = v0 + v3; v3 = rotate_left_u64 21 v3 XOR v0;
          v2 = v2 + v1; v1 = rotate_left_u64 17 v1 XOR v2; v2 = rotate_left_u64 32 v2
      in (v0, v1, v2, v3))"

definition sip_word :: "u64 \<Rightarrow> sip_state \<Rightarrow> sip_state" where
  "sip_word m s =
     (let (v0, v1, v2, v3) = s; (v0, v1, v2, v3) = sip_round (sip_round (v0, v1, v2, v3 XOR m)) in (v0 XOR m, v1, v2, v3))"

fun le_word :: "u8 list \<Rightarrow> u64" where
  "le_word [] = 0"
| "le_word (b # bs) = ucast b OR push_bit 8 (le_word bs)"

fun sip_words :: "u8 list \<Rightarrow> sip_state \<Rightarrow> u8 list \<times> sip_state" where
  "sip_words (b0 # b1 # b2 # b3 # b4 # b5 # b6 # b7 # bs) s = sip_words bs (sip_word (le_word [b0, b1, b2, b3, b4, b5, b6, b7]) s)"
| "sip_words bs s = (bs, s)"

definition sip_hash :: "atom_hash_seed \<Rightarrow> u8 list \<Rightarrow> u64" where
  "sip_hash seed bytes =
     (let k0 = hs_key0 seed; k1 = hs_key1 seed;
          (tail, s) = sip_words bytes (k0 XOR 0x736f6d6570736575, k1 XOR 0x646f72616e646f6d, k0 XOR 0x6c7967656e657261, k1 XOR 0x7465646279746573);
          (v0, v1, v2, v3) = sip_word (push_bit 56 (word_of_nat (length bytes)) OR le_word tail) s;
          (v0, v1, v2, v3) = sip_round (sip_round (sip_round (sip_round (v0, v1, v2 XOR 0xff, v3))))
      in v0 XOR v1 XOR v2 XOR v3)"

section \<open>Strings\<close>

datatype string_allocation_error = CodeUnitLengthExceeded nat nat | StringAllocationFailed

datatype string_backing = Latin1 "u8 list" | Utf16 "u16 list"

record cached_hash =
  ch_seed :: atom_hash_seed
  ch_value :: u64

record js_string =
  js_backing :: string_backing
  js_cached_hash :: "cached_hash option"

datatype string_representation_tag = OwnedLatin1 | OwnedUtf16 | InlineLatin1 | InlineUtf16 | Rope | Slice | Atom

datatype js_string_view = View_Latin1 "u8 list" | View_Utf16 "u16 list"

definition check_code_unit_length :: "nat \<Rightarrow> (string_allocation_error, unit) outcome" where
  "check_code_unit_length n = reject_if (n > 2 ^ 32 - 1) (CodeUnitLengthExceeded n (2 ^ 32 - 1))"

text \<open>\<open>grants\<close> is the answer of the allocator to a request for that many elements.\<close>

definition try_boxed_copy :: "(nat \<Rightarrow> bool) \<Rightarrow> 'a list \<Rightarrow> (string_allocation_error, 'a list) outcome" where
  "try_boxed_copy grants xs = (if grants (length xs) then Ok xs else Err StringAllocationFailed)"

definition fresh_string :: "string_backing \<Rightarrow> js_string" where
  "fresh_string backing = \<lparr>js_backing = backing, js_cached_hash = None\<rparr>"

definition try_from_latin1 :: "(nat \<Rightarrow> bool) \<Rightarrow> u8 list \<Rightarrow> (string_allocation_error, js_string) outcome" where
  "try_from_latin1 grants bytes =
     and_then (check_code_unit_length (length bytes)) (\<lambda>_.
     and_then (try_boxed_copy grants bytes) (\<lambda>bytes. Ok (fresh_string (Latin1 bytes))))"

definition try_from_utf16 :: "(nat \<Rightarrow> bool) \<Rightarrow> u16 list \<Rightarrow> (string_allocation_error, js_string) outcome" where
  "try_from_utf16 grants units =
     and_then (check_code_unit_length (length units)) (\<lambda>_.
     and_then (try_boxed_copy grants units) (\<lambda>units. Ok (fresh_string (Utf16 units))))"

definition try_from_owned_code_units :: "(nat \<Rightarrow> bool) \<Rightarrow> u16 list \<Rightarrow> (string_allocation_error, js_string) outcome" where
  "try_from_owned_code_units grants units =
     and_then (check_code_unit_length (length units)) (\<lambda>_.
     if list_all (\<lambda>unit. unit \<le> 0xff) units
     then if grants (length units) then Ok (fresh_string (Latin1 (map ucast units))) else Err StringAllocationFailed
     else Ok (fresh_string (Utf16 units)))"

text \<open>A Rust \<open>str\<close> is its list of scalar values; \<open>encode_utf16\<close> of the standard library.\<close>

type_synonym rust_str = "u32 list"

definition utf16_of_char :: "u32 \<Rightarrow> u16 list" where
  "utf16_of_char c =
     (if c \<le> 0xffff then [ucast c]
      else [0xd800 OR ucast (drop_bit 10 (c - 0x10000)), 0xdc00 OR ucast ((c - 0x10000) AND 0x3ff)])"

definition encode_utf16 :: "rust_str \<Rightarrow> u16 list" where
  "encode_utf16 text_chars = concat (map utf16_of_char text_chars)"

definition try_from_str :: "(nat \<Rightarrow> bool) \<Rightarrow> rust_str \<Rightarrow> (string_allocation_error, js_string) outcome" where
  "try_from_str grants chars =
     (if list_all (\<lambda>c. c \<le> 0xff) chars
      then and_then (check_code_unit_length (length chars)) (\<lambda>_.
           if grants (length chars) then Ok (fresh_string (Latin1 (map ucast chars))) else Err StringAllocationFailed)
      else let code_units = length (encode_utf16 chars) in
           and_then (check_code_unit_length code_units) (\<lambda>_.
           if grants code_units then Ok (fresh_string (Utf16 (encode_utf16 chars))) else Err StringAllocationFailed))"

definition representation :: "js_string \<Rightarrow> string_representation_tag" where
  "representation s = (case js_backing s of Latin1 _ \<Rightarrow> OwnedLatin1 | Utf16 _ \<Rightarrow> OwnedUtf16)"

definition js_len :: "js_string \<Rightarrow> nat" where
  "js_len s = (case js_backing s of Latin1 bytes \<Rightarrow> length bytes | Utf16 units \<Rightarrow> length units)"

definition as_view :: "js_string \<Rightarrow> js_string_view" where
  "as_view s = (case js_backing s of Latin1 bytes \<Rightarrow> View_Latin1 bytes | Utf16 units \<Rightarrow> View_Utf16 units)"

definition view_len :: "js_string_view \<Rightarrow> nat" where
  "view_len v = (case v of View_Latin1 bytes \<Rightarrow> length bytes | View_Utf16 units \<Rightarrow> length units)"

definition view_code_unit_at :: "js_string_view \<Rightarrow> nat \<Rightarrow> u16 option" where
  "view_code_unit_at v i = (case v of View_Latin1 bytes \<Rightarrow> map_option ucast (get bytes i) | View_Utf16 units \<Rightarrow> get units i)"

definition code_unit_at :: "js_string \<Rightarrow> nat \<Rightarrow> u16 option" where
  "code_unit_at s i = view_code_unit_at (as_view s) i"

definition equals_latin1 :: "js_string \<Rightarrow> u8 list \<Rightarrow> bool" where
  "equals_latin1 s bytes \<longleftrightarrow>
     view_len (as_view s) = length bytes \<and>
     list_all (\<lambda>i. view_code_unit_at (as_view s) i = Some (ucast (bytes ! i))) [0..<length bytes]"

definition equals_str :: "js_string \<Rightarrow> rust_str \<Rightarrow> bool" where
  "equals_str s chars \<longleftrightarrow>
     view_len (as_view s) = length (encode_utf16 chars) \<and>
     list_all (\<lambda>i. view_code_unit_at (as_view s) i = Some (encode_utf16 chars ! i)) [0..<length (encode_utf16 chars)]"

definition unit_bytes :: "u16 \<Rightarrow> u8 list" where
  "unit_bytes u = [ucast u, ucast (drop_bit 8 u)]"

definition view_hash_with_seed :: "js_string_view \<Rightarrow> atom_hash_seed \<Rightarrow> u64" where
  "view_hash_with_seed v seed =
     sip_hash seed (concat (map (\<lambda>i. case view_code_unit_at v i of Some u \<Rightarrow> unit_bytes u | None \<Rightarrow> []) [0..<view_len v]))"

text \<open>The hash of the seed in use is kept in the string.\<close>

definition hash_with_seed :: "js_string \<Rightarrow> atom_hash_seed \<Rightarrow> u64 \<times> js_string" where
  "hash_with_seed s seed =
     (let fresh = (let value = view_hash_with_seed (as_view s) seed
                   in (value, s\<lparr>js_cached_hash := Some \<lparr>ch_seed = seed, ch_value = value\<rparr>\<rparr>))
      in case js_cached_hash s of
           Some cached \<Rightarrow> if ch_seed cached = seed then (ch_value cached, s) else fresh
         | None \<Rightarrow> fresh)"

definition view_eq :: "js_string_view \<Rightarrow> js_string_view \<Rightarrow> bool" where
  "view_eq a b \<longleftrightarrow> view_len a = view_len b \<and> list_all (\<lambda>i. view_code_unit_at a i = view_code_unit_at b i) [0..<view_len a]"

text \<open>The indices are below both lengths, so that every unit is found.\<close>

fun view_cmp_from :: "js_string_view \<Rightarrow> js_string_view \<Rightarrow> nat list \<Rightarrow> ordering" where
  "view_cmp_from a b [] = ordering_of (view_len a) (view_len b)"
| "view_cmp_from a b (i # is) =
     (let unit = (\<lambda>v. case view_code_unit_at v i of Some u \<Rightarrow> u | None \<Rightarrow> 0); order = ordering_of (unit a) (unit b)
      in if order \<noteq> Ord_Equal then order else view_cmp_from a b is)"

definition view_cmp :: "js_string_view \<Rightarrow> js_string_view \<Rightarrow> ordering" where
  "view_cmp a b = view_cmp_from a b [0..<min (view_len a) (view_len b)]"

definition string_external_memory_bytes :: "js_string \<Rightarrow> nat" where
  "string_external_memory_bytes s = (case js_backing s of Latin1 bytes \<Rightarrow> length bytes | Utf16 units \<Rightarrow> length units * 2)"

section \<open>Code units\<close>

definition view_units :: "js_string_view \<Rightarrow> u16 list" where
  "view_units v = (case v of View_Latin1 bytes \<Rightarrow> map ucast bytes | View_Utf16 units \<Rightarrow> units)"

definition code_units :: "js_string \<Rightarrow> u16 list" where
  "code_units s = view_units (as_view s)"

text \<open>A cached hash is the hash.\<close>

definition cache_ok :: "js_string \<Rightarrow> bool" where
  "cache_ok s \<longleftrightarrow> (\<forall>cached \<in> set_option (js_cached_hash s). ch_value cached = view_hash_with_seed (as_view s) (ch_seed cached))"

lemma view_len_units: "view_len v = length (view_units v)"
  by (simp add: view_len_def view_units_def split: js_string_view.split)

lemma view_code_unit_at_eq: "view_code_unit_at v i = (if i < length (view_units v) then Some (view_units v ! i) else None)"
  by (auto simp: view_code_unit_at_def view_units_def get_def split: js_string_view.split)

lemma view_eq_iff: "view_eq a b \<longleftrightarrow> view_units a = view_units b"
  by (auto simp: view_eq_def view_len_units view_code_unit_at_eq list_all_iff intro: nth_equalityI)

definition units_hash :: "atom_hash_seed \<Rightarrow> u16 list \<Rightarrow> u64" where
  "units_hash seed units = sip_hash seed (concat (map unit_bytes units))"

lemma view_hash_units: "view_hash_with_seed v seed = units_hash seed (view_units v)"
proof -
  have "map (\<lambda>i. case view_code_unit_at v i of Some u \<Rightarrow> unit_bytes u | None \<Rightarrow> []) [0..<view_len v] = map unit_bytes (view_units v)"
    by (rule nth_equalityI) (auto simp: view_len_units view_code_unit_at_eq)
  then show ?thesis by (simp add: view_hash_with_seed_def units_hash_def)
qed

lemma hash_with_seed_eq:
  assumes "cache_ok s"
  shows "fst (hash_with_seed s seed) = units_hash seed (code_units s)" "cache_ok (snd (hash_with_seed s seed))"
    "code_units (snd (hash_with_seed s seed)) = code_units s" "string_external_memory_bytes (snd (hash_with_seed s seed)) = string_external_memory_bytes s"
  using assms by (auto simp: hash_with_seed_def Let_def cache_ok_def view_hash_units code_units_def as_view_def string_external_memory_bytes_def
      split: option.splits)

lemma view_cmp_from_eq:
  assumes "k \<le> min (view_len a) (view_len b)"
  shows "view_cmp_from a b [k..<min (view_len a) (view_len b)] = list_cmp (drop k (view_units a)) (drop k (view_units b))"
  using assms
proof (induction "min (view_len a) (view_len b) - k" arbitrary: k)
  case 0
  then have "k = min (length (view_units a)) (length (view_units b))" by (auto simp: view_len_units min_def split: if_splits)
  then show ?case
    by (cases "drop k (view_units a)"; cases "drop k (view_units b)") (auto simp: view_len_units ordering_of_def min_def split: if_splits)
next
  case (Suc n)
  then have k: "k < length (view_units a)" "k < length (view_units b)" by (auto simp: view_len_units)
  then have drops: "drop k (view_units a) = view_units a ! k # drop (Suc k) (view_units a)" "drop k (view_units b) = view_units b ! k # drop (Suc k) (view_units b)"
    by (auto simp: Cons_nth_drop_Suc)
  have "[k..<min (view_len a) (view_len b)] = k # [Suc k..<min (view_len a) (view_len b)]"
    using k by (simp add: view_len_units upt_conv_Cons)
  then show ?case using Suc.hyps(1) [of "Suc k"] Suc.hyps(2) k by (simp add: drops view_code_unit_at_eq view_len_units Let_def)
qed

lemma view_cmp_units: "view_cmp a b = list_cmp (view_units a) (view_units b)"
  unfolding view_cmp_def using view_cmp_from_eq [of 0] by simp

text \<open>The constructors keep the code units.\<close>

lemma utf16_of_latin1: "list_all (\<lambda>c. c \<le> 0xff) chars \<Longrightarrow> encode_utf16 chars = map ucast chars"
proof (induction chars)
  case (Cons c chars)
  then have "c \<le> 0xffff" by (auto intro: order_trans)
  then show ?case using Cons by (simp add: encode_utf16_def utf16_of_char_def)
qed (simp add: encode_utf16_def)

lemma ucast_latin1_u32: "c \<le> 0xff \<Longrightarrow> ucast (ucast (c :: u32) :: u8) = (ucast c :: u16)"
proof -
  assume "c \<le> 0xff"
  then have "unat c < 2 ^ 8" by (simp add: word_le_nat_alt)
  then have "n < 8" if "bit c n" for n using that by (rule small_word_bit)
  then show ?thesis by (intro bit_word_eqI) (auto simp: bit_simps)
qed

lemma ucast_latin1_u16: "c \<le> 0xff \<Longrightarrow> ucast (ucast (c :: u16) :: u8) = (c :: u16)"
proof -
  assume "c \<le> 0xff"
  then have "unat c < 2 ^ 8" by (simp add: word_le_nat_alt)
  then have "n < 8" if "bit c n" for n using that by (rule small_word_bit)
  then show ?thesis by (intro bit_word_eqI) (auto simp: bit_simps)
qed

lemma constructed_units:
  "try_from_latin1 grants bytes = Ok s \<Longrightarrow> code_units s = map ucast bytes \<and> cache_ok s"
  "try_from_utf16 grants units = Ok s \<Longrightarrow> code_units s = units \<and> cache_ok s"
  "try_from_owned_code_units grants units = Ok s \<Longrightarrow> code_units s = units \<and> cache_ok s"
  "try_from_str grants chars = Ok s \<Longrightarrow> code_units s = encode_utf16 chars \<and> cache_ok s"
  by (auto simp: try_from_latin1_def try_from_utf16_def try_from_owned_code_units_def try_from_str_def try_boxed_copy_def fresh_string_def
      code_units_def as_view_def view_units_def cache_ok_def utf16_of_latin1 ucast_latin1_u32 ucast_latin1_u16 list_all_iff outcome_simps Let_def
      intro!: map_idI split: if_splits)

text \<open>C40. Two strings are equal, and one is less than the other, as their sequences of code units are, whatever their
  storage; the hash is a function of the seed and the code units only, with or without a cached value.\<close>
theorem string_identity_is_code_units:
  assumes "cache_ok s" "cache_ok u"
  shows "(view_eq (as_view s) (as_view u) \<longleftrightarrow> code_units s = code_units u) \<and>
    (view_cmp (as_view s) (as_view u) = Ord_Equal \<longleftrightarrow> code_units s = code_units u) \<and>
    (view_cmp (as_view s) (as_view u) = Ord_Less \<longleftrightarrow> (code_units s, code_units u) \<in> lexord {(x, y). x < y}) \<and>
    (code_units s = code_units u \<longrightarrow> fst (hash_with_seed s seed) = fst (hash_with_seed u seed)) \<and>
    cache_ok (snd (hash_with_seed s seed)) \<and> code_units (snd (hash_with_seed s seed)) = code_units s"
  using hash_with_seed_eq [OF assms(1), of seed] hash_with_seed_eq [OF assms(2), of seed]
  by (simp add: view_eq_iff view_cmp_units list_cmp_Equal list_cmp_Less code_units_def)

theorem string_identity_is_code_units_witness:
  "view_cmp (as_view (fresh_string (Latin1 [0x61]))) (as_view (fresh_string (Utf16 [0x61]))) = Ord_Equal"
  using string_identity_is_code_units [of "fresh_string (Latin1 [0x61])" "fresh_string (Utf16 [0x61])"]
  by (simp add: cache_ok_def fresh_string_def code_units_def as_view_def view_units_def)

end
