(* ===== verification/Atom_Table.thy ===== *)
theory Atom_Table
  imports Js_String "HOL-Library.Sublist"
begin

text \<open>
  The atom table of \<open>crates/tachyon-vm/src/atom.rs\<close>: strings interned by open addressing with linear probing, quotas,
  growth and rollback. The invariant says that every entry lies on its probe sequence with no vacancy before it; under it the
  table refines a list of distinct code unit sequences, every probe ends, and ids identify strings.
\<close>

unbundle bit_operations_syntax

definition INITIAL_ATOM_BUCKETS :: nat where "INITIAL_ATOM_BUCKETS = 16"
definition ATOM_LOAD_NUMERATOR :: nat where "ATOM_LOAD_NUMERATOR = 3"
definition ATOM_LOAD_DENOMINATOR :: nat where "ATOM_LOAD_DENOMINATOR = 4"

type_synonym atom_id = u32

definition atom_index :: "atom_id \<Rightarrow> u32" where
  "atom_index a = a - 1"

definition atom_from_index :: "nat \<Rightarrow> ('e, atom_id) outcome" where
  "atom_from_index index =
     and_then (expect (u32_try_from (index + 1))) (\<lambda>v. expect (if v \<noteq> 0 then Some v else None))"

record atom_table_config =
  ac_max_entries :: u32
  ac_max_string_bytes :: nat
  ac_hash_seed :: atom_hash_seed

datatype atom_table_error =
    AtomEntryLimitExceeded u32
  | StringBytesLimitExceeded nat nat nat
  | AtomAllocationFailed
  | AtomCapacityOverflow

record atom_table_stats =
  as_entries :: nat
  as_retained_string_bytes :: nat
  as_initial_bucket_capacity :: nat
  as_growth_count :: nat
  as_peak_entries :: nat
  as_retained_bucket_capacity :: nat
  as_retained_entry_capacity :: nat
  as_vacant_buckets :: nat

record atom_entry =
  ae_string :: js_string
  ae_hash :: u64

type_synonym atom_buckets = "atom_id option list"

record atom_table =
  at_config :: atom_table_config
  at_entries :: "atom_entry list"
  at_entries_capacity :: nat
  at_buckets :: atom_buckets
  at_retained_string_bytes :: nat
  at_initial_bucket_capacity :: nat
  at_growth_count :: nat
  at_peak_entries :: nat
  at_grants :: "nat \<Rightarrow> bool"

record atom_table_checkpoint =
  cp_entries_len :: nat
  cp_retained_string_bytes :: nat

definition atom_table_new :: "(nat \<Rightarrow> bool) \<Rightarrow> atom_table_config \<Rightarrow> atom_table" where
  "atom_table_new grants config =
     \<lparr>at_config = config, at_entries = [], at_entries_capacity = 0, at_buckets = [], at_retained_string_bytes = 0,
      at_initial_bucket_capacity = 0, at_growth_count = 0, at_peak_entries = 0, at_grants = grants\<rparr>"

text \<open>Linear probing; \<open>home\<close> and \<open>step\<close> mask with the bucket count, a power of two.\<close>

definition home_bucket :: "'a list \<Rightarrow> u64 \<Rightarrow> nat" where
  "home_bucket buckets hash = unat hash AND (length buckets - 1)"

definition next_bucket :: "'a list \<Rightarrow> nat \<Rightarrow> nat" where
  "next_bucket buckets bucket = (bucket + 1) AND (length buckets - 1)"

partial_function (option) vacant_from :: "atom_buckets \<Rightarrow> nat \<Rightarrow> ('e, nat) outcome option" where
  "vacant_from buckets bucket =
     (case get buckets bucket of
        None \<Rightarrow> Some Panic
      | Some None \<Rightarrow> Some (Ok bucket)
      | Some (Some _) \<Rightarrow> vacant_from buckets (next_bucket buckets bucket))"

definition find_vacant_bucket :: "atom_buckets \<Rightarrow> u64 \<Rightarrow> ('e, nat) outcome option" where
  "find_vacant_bucket buckets hash = vacant_from buckets (home_bucket buckets hash)"

partial_function (option) find_from :: "atom_table \<Rightarrow> js_string_view \<Rightarrow> u64 \<Rightarrow> nat \<Rightarrow> ('e, atom_id option) outcome option" where
  "find_from t v hash bucket =
     (case get (at_buckets t) bucket of
        None \<Rightarrow> Some Panic
      | Some None \<Rightarrow> Some (Ok None)
      | Some (Some a) \<Rightarrow>
          (case get (at_entries t) (unat (atom_index a)) of
             None \<Rightarrow> Some Panic
           | Some entry \<Rightarrow>
               if ae_hash entry = hash \<and> view_eq (as_view (ae_string entry)) v then Some (Ok (Some a))
               else find_from t v hash (next_bucket (at_buckets t) bucket)))"

definition find_view_hashed :: "atom_table \<Rightarrow> js_string_view \<Rightarrow> u64 \<Rightarrow> ('e, atom_id option) outcome option" where
  "find_view_hashed t v hash =
     (if at_buckets t = [] then Some (Ok None) else find_from t v hash (home_bucket (at_buckets t) hash))"

definition find_hashed :: "atom_table \<Rightarrow> js_string \<Rightarrow> u64 \<Rightarrow> ('e, atom_id option) outcome option" where
  "find_hashed t s hash = find_view_hashed t (as_view s) hash"

definition find_atom :: "atom_table \<Rightarrow> js_string \<Rightarrow> ('e, atom_id option) outcome option" where
  "find_atom t s = find_hashed t s (fst (hash_with_seed s (ac_hash_seed (at_config t))))"

definition find_latin1 :: "atom_table \<Rightarrow> u8 list \<Rightarrow> ('e, atom_id option) outcome option" where
  "find_latin1 t bytes =
     find_view_hashed t (View_Latin1 bytes) (view_hash_with_seed (View_Latin1 bytes) (ac_hash_seed (at_config t)))"

definition get_atom :: "atom_table \<Rightarrow> atom_id \<Rightarrow> js_string option" where
  "get_atom t a = map_option ae_string (get (at_entries t) (unat (atom_index a)))"

text \<open>The loop that publishes the entries from an index on into the buckets.\<close>

fun fill_buckets :: "nat \<Rightarrow> atom_entry list \<Rightarrow> atom_buckets \<Rightarrow> ('e, atom_buckets) outcome option" where
  "fill_buckets index [] buckets = Some (Ok buckets)"
| "fill_buckets index (entry # entries) buckets =
     chain (find_vacant_bucket buckets (ae_hash entry)) (\<lambda>bucket.
     chain (Some (atom_from_index index)) (\<lambda>a.
     fill_buckets (index + 1) entries (buckets[bucket := Some a])))"

definition ensure_insert_capacity :: "atom_table \<Rightarrow> (atom_table_error \<times> atom_table, atom_table) outcome option" where
  "ensure_insert_capacity t =
     (let required = length (at_entries t) + 1;
          needs_growth = (at_buckets t = [] \<or>
            usize_saturating_mul required ATOM_LOAD_DENOMINATOR > usize_saturating_mul (length (at_buckets t)) ATOM_LOAD_NUMERATOR)
      in if \<not> needs_growth then Some (Ok t)
         else chain (Some (if at_buckets t = [] then Ok INITIAL_ATOM_BUCKETS
                else ok_or (AtomCapacityOverflow, t) (usize_checked (length (at_buckets t) * 2)))) (\<lambda>target.
              let entry_target = max (min (div_ceil (usize_saturating_mul target ATOM_LOAD_NUMERATOR) ATOM_LOAD_DENOMINATOR)
                    (unat (ac_max_entries (at_config t)))) required in
              chain (Some (if entry_target > at_entries_capacity t
                then if at_grants t (entry_target - length (at_entries t)) then Ok (t\<lparr>at_entries_capacity := entry_target\<rparr>)
                     else Err (AtomAllocationFailed, t)
                else Ok t)) (\<lambda>t.
              if \<not> at_grants t target then Some (Err (AtomAllocationFailed, t))
              else chain (fill_buckets 0 (at_entries t) (replicate target None)) (\<lambda>buckets.
                let t = t\<lparr>at_buckets := buckets\<rparr> in
                Some (Ok (if at_initial_bucket_capacity t = 0 then t\<lparr>at_initial_bucket_capacity := target\<rparr>
                          else t\<lparr>at_growth_count := min (at_growth_count t + 1) (2 ^ 64 - 1)\<rparr>))))))"

definition try_intern :: "atom_table \<Rightarrow> js_string \<Rightarrow> (atom_table_error \<times> atom_table, atom_id \<times> atom_table) outcome option" where
  "try_intern t s =
     (let (hash, s) = hash_with_seed s (ac_hash_seed (at_config t)) in
      chain (find_hashed t s hash) (\<lambda>found.
      case found of
        Some a \<Rightarrow> Some (Ok (a, t))
      | None \<Rightarrow>
          if length (at_entries t) \<ge> unat (ac_max_entries (at_config t))
          then Some (Err (AtomEntryLimitExceeded (ac_max_entries (at_config t)), t))
          else let string_bytes = string_external_memory_bytes s in
            case usize_checked (at_retained_string_bytes t + string_bytes) of
              None \<Rightarrow> Some (Err (AtomCapacityOverflow, t))
            | Some retained \<Rightarrow>
                if retained > ac_max_string_bytes (at_config t)
                then Some (Err (StringBytesLimitExceeded (ac_max_string_bytes (at_config t)) (at_retained_string_bytes t) string_bytes, t))
                else chain (ensure_insert_capacity t) (\<lambda>t.
                     chain (Some (atom_from_index (length (at_entries t)))) (\<lambda>a.
                     chain (find_vacant_bucket (at_buckets t) hash) (\<lambda>bucket.
                     Some (Ok (a, t\<lparr>at_entries := at_entries t @ [\<lparr>ae_string = s, ae_hash = hash\<rparr>],
                       at_buckets := (at_buckets t)[bucket := Some a], at_retained_string_bytes := retained,
                       at_peak_entries := max (at_peak_entries t) (length (at_entries t) + 1)\<rparr>)))))))"

definition atom_checkpoint :: "atom_table \<Rightarrow> atom_table_checkpoint" where
  "atom_checkpoint t = \<lparr>cp_entries_len = length (at_entries t), cp_retained_string_bytes = at_retained_string_bytes t\<rparr>"

definition atom_rollback :: "atom_table \<Rightarrow> atom_table_checkpoint \<Rightarrow> ('e, atom_table) outcome option" where
  "atom_rollback t checkpoint =
     (let t = t\<lparr>at_entries := take (cp_entries_len checkpoint) (at_entries t),
                at_retained_string_bytes := cp_retained_string_bytes checkpoint\<rparr> in
      chain (fill_buckets 0 (at_entries t) (replicate (length (at_buckets t)) None)) (\<lambda>buckets.
      Some (Ok (t\<lparr>at_buckets := buckets\<rparr>))))"

definition atom_stats :: "atom_table \<Rightarrow> atom_table_stats" where
  "atom_stats t =
     \<lparr>as_entries = length (at_entries t), as_retained_string_bytes = at_retained_string_bytes t,
      as_initial_bucket_capacity = at_initial_bucket_capacity t, as_growth_count = at_growth_count t,
      as_peak_entries = at_peak_entries t, as_retained_bucket_capacity = length (at_buckets t),
      as_retained_entry_capacity = at_entries_capacity t, as_vacant_buckets = length (at_buckets t) - length (at_entries t)\<rparr>"

section \<open>Probe sequences\<close>

definition probe :: "'a list \<Rightarrow> u64 \<Rightarrow> nat \<Rightarrow> nat" where
  "probe buckets hash k = (unat hash + k) mod length buckets"

lemma and_mask_eq_mod: "(m :: nat) AND (2 ^ p - 1) = m mod 2 ^ p"
  by (metis mask_eq_exp_minus_1 take_bit_eq_mask take_bit_eq_mod)

lemma home_bucket_eq: "length buckets = 2 ^ p \<Longrightarrow> home_bucket buckets hash = probe buckets hash 0"
  using and_mask_eq_mod [of "unat hash" p] by (simp add: home_bucket_def probe_def)

lemma next_bucket_eq: "length buckets = 2 ^ p \<Longrightarrow> next_bucket buckets (probe buckets hash k) = probe buckets hash (Suc k)"
  using and_mask_eq_mod [of "probe buckets hash k + 1" p] by (simp add: next_bucket_def probe_def mod_Suc_eq)

lemma probe_less: "buckets \<noteq> [] \<Longrightarrow> probe buckets hash k < length buckets"
  by (simp add: probe_def)

lemma probe_cong: "length xs = length ys \<Longrightarrow> probe xs hash k = probe ys hash k"
  by (simp add: probe_def)

lemma probe_reaches:
  assumes "i < length buckets"
  shows "\<exists>k. probe buckets hash k = i"
proof
  let ?n = "length buckets"
  show "probe buckets hash (i + (?n - unat hash mod ?n)) = i"
  proof -
    have "(unat hash + (i + (?n - unat hash mod ?n))) mod ?n = (unat hash mod ?n + (i + (?n - unat hash mod ?n))) mod ?n"
      by (simp add: mod_add_left_eq)
    also have "unat hash mod ?n + (i + (?n - unat hash mod ?n)) = i + ?n"
      using mod_less_divisor [of ?n "unat hash"] assms by linarith
    finally show ?thesis using assms by (simp add: probe_def)
  qed
qed

text \<open>The first position of a probe sequence at which a search stops.\<close>

definition first_stop :: "(atom_id option \<Rightarrow> bool) \<Rightarrow> atom_buckets \<Rightarrow> u64 \<Rightarrow> nat \<Rightarrow> bool" where
  "first_stop stop buckets hash k \<longleftrightarrow>
     stop (buckets ! probe buckets hash k) \<and> (\<forall>m<k. \<not> stop (buckets ! probe buckets hash m))"

lemma first_stop_exists:
  assumes "i < length buckets" "stop (buckets ! i)"
  shows "\<exists>k. first_stop stop buckets hash k"
proof -
  obtain k where "stop (buckets ! probe buckets hash k)"
    using probe_reaches [OF assms(1)] assms(2) by metis
  then show ?thesis
    unfolding first_stop_def using exists_least_iff [of "\<lambda>k. stop (buckets ! probe buckets hash k)"] by blast
qed

lemma first_stop_le: "first_stop stop buckets hash k \<Longrightarrow> stop (buckets ! probe buckets hash m) \<Longrightarrow> k \<le> m"
  unfolding first_stop_def by (meson not_le_imp_less)

lemma vacant_from_steps:
  assumes size: "length buckets = 2 ^ p" and stop: "first_stop (\<lambda>b. b = None) buckets hash k" and "j \<le> k"
  shows "vacant_from buckets (probe buckets hash j) = (Some (Ok (probe buckets hash k)) :: ('e, nat) outcome option)"
  using \<open>j \<le> k\<close>
proof (induction rule: inc_induct)
  case base
  have "buckets \<noteq> []" using size by auto
  with stop show ?case
    by (subst vacant_from.simps) (auto simp: first_stop_def get_def probe_less)
next
  case (step j)
  have "buckets \<noteq> []" using size by auto
  then obtain a where "get buckets (probe buckets hash j) = Some (Some a)"
    using step stop by (auto simp: first_stop_def get_def probe_less)
  then show ?case using step next_bucket_eq [OF size] by (subst vacant_from.simps) simp
qed

lemma find_vacant_bucket_eq:
  "length buckets = 2 ^ p \<Longrightarrow> first_stop (\<lambda>b. b = None) buckets hash k \<Longrightarrow> find_vacant_bucket buckets hash = Some (Ok (probe buckets hash k))"
  using vacant_from_steps [of buckets p hash k 0] by (simp add: find_vacant_bucket_def home_bucket_eq)

section \<open>The bucket invariant\<close>

definition atom_of :: "nat \<Rightarrow> atom_id" where
  "atom_of j = word_of_nat (Suc j)"

lemma atom_from_index_eq: "j < 2 ^ 32 - 1 \<Longrightarrow> atom_from_index j = Ok (atom_of j)"
proof -
  assume j: "j < 2 ^ 32 - 1"
  then have "unat (atom_of j) = Suc j" by (simp only: atom_of_def) (rule unat_u32_of_nat, simp)
  then have "atom_of j \<noteq> 0" by (metis Zero_not_Suc unsigned_0)
  then show ?thesis using j by (simp add: atom_from_index_def u32_try_from_def atom_of_def)
qed

lemma atom_index_of: "j < 2 ^ 32 - 1 \<Longrightarrow> unat (atom_index (atom_of j)) = j"
  by (simp add: atom_index_def atom_of_def unat_of_nat)

lemma atom_of_eq_iff: "i < 2 ^ 32 - 1 \<Longrightarrow> j < 2 ^ 32 - 1 \<Longrightarrow> atom_of i = atom_of j \<longleftrightarrow> i = j"
  by (metis atom_index_of)

definition placed :: "atom_buckets \<Rightarrow> u64 \<Rightarrow> atom_id \<Rightarrow> bool" where
  "placed buckets hash a \<longleftrightarrow>
     (\<exists>k. buckets ! probe buckets hash k = Some a \<and> (\<forall>m<k. buckets ! probe buckets hash m \<noteq> None))"

definition occupied :: "atom_buckets \<Rightarrow> nat set" where
  "occupied buckets = {i. i < length buckets \<and> buckets ! i \<noteq> None}"

definition bucket_inv :: "u64 list \<Rightarrow> atom_buckets \<Rightarrow> bool" where
  "bucket_inv hashes buckets \<longleftrightarrow>
     (\<exists>p. length buckets = 2 ^ p) \<and>
     (\<forall>i<length buckets. \<forall>a. buckets ! i = Some a \<longrightarrow> a \<in> atom_of ` {..<length hashes}) \<and>
     (\<forall>j<length hashes. placed buckets (hashes ! j) (atom_of j)) \<and>
     card (occupied buckets) \<le> length hashes"

lemma bucket_inv_size: "bucket_inv hashes buckets \<Longrightarrow> \<exists>p. length buckets = 2 ^ p" "bucket_inv hashes buckets \<Longrightarrow> buckets \<noteq> []"
  by (auto simp: bucket_inv_def)

lemma bucket_inv_vacancy:
  assumes "bucket_inv hashes buckets" "length hashes < length buckets"
  obtains i where "i < length buckets" "buckets ! i = None"
proof -
  have "occupied buckets \<noteq> {..<length buckets}" using assms by (auto simp: bucket_inv_def)
  moreover have "occupied buckets \<subseteq> {..<length buckets}" by (auto simp: occupied_def)
  ultimately obtain i where "i < length buckets" "i \<notin> occupied buckets" by auto
  then show thesis using that [of i] by (auto simp: occupied_def)
qed

lemma bucket_inv_empty: "bucket_inv [] (replicate (2 ^ p) None)"
  by (auto simp: bucket_inv_def occupied_def)

lemma bucket_inv_insert:
  assumes inv: "bucket_inv hashes buckets" and stop: "first_stop (\<lambda>b. b = None) buckets hash k"
  shows "bucket_inv (hashes @ [hash]) (buckets[probe buckets hash k := Some (atom_of (length hashes))])"
proof -
  let ?i = "probe buckets hash k"
  let ?bs = "buckets[?i := Some (atom_of (length hashes))]"
  have i: "?i < length buckets" using bucket_inv_size(2) [OF inv] by (rule probe_less)
  have vacant: "buckets ! ?i = None" using stop by (simp add: first_stop_def)
  have probe: "probe ?bs h m = probe buckets h m" for h m by (rule probe_cong) simp
  have keep: "?bs ! n \<noteq> None" if "buckets ! n \<noteq> None" for n using that by (cases "n = ?i") (auto simp: i)
  have old: "placed ?bs h a" if was: "placed buckets h a" for h a
  proof -
    obtain m where m: "buckets ! probe buckets h m = Some a" "\<forall>l<m. buckets ! probe buckets h l \<noteq> None"
      using was unfolding placed_def by blast
    have "?bs ! probe buckets h m = Some a" using m(1) vacant by (cases "probe buckets h m = ?i") auto
    with m(2) keep show ?thesis unfolding placed_def probe by blast
  qed
  have new: "placed ?bs hash (atom_of (length hashes))"
    unfolding placed_def probe using stop i keep by (intro exI [of _ k]) (auto simp: first_stop_def)
  have "occupied ?bs = insert ?i (occupied buckets)" using i by (auto simp: occupied_def nth_list_update split: if_splits)
  then have "card (occupied ?bs) \<le> Suc (card (occupied buckets))" by (simp add: card_insert_le_m1 card_insert_if occupied_def)
  then have card: "card (occupied ?bs) \<le> length (hashes @ [hash])" using inv by (simp add: bucket_inv_def)
  have "placed ?bs ((hashes @ [hash]) ! j) (atom_of j)" if "j < length (hashes @ [hash])" for j
    using that inv old new by (cases "j = length hashes") (auto simp: bucket_inv_def nth_append)
  moreover have "a \<in> atom_of ` {..<length (hashes @ [hash])}" if "n < length ?bs" "?bs ! n = Some a" for n a
    using that inv i by (cases "n = ?i") (auto simp: bucket_inv_def lessThan_Suc)
  ultimately show ?thesis using inv card unfolding bucket_inv_def by auto
qed

lemma vacant_bucket_insert:
  assumes "bucket_inv hashes buckets" "length hashes < length buckets"
  obtains i where "i < length buckets" "find_vacant_bucket buckets hash = (Some (Ok i) :: ('e, nat) outcome option)"
    "bucket_inv (hashes @ [hash]) (buckets[i := Some (atom_of (length hashes))])"
proof -
  obtain p where p: "length buckets = 2 ^ p" using bucket_inv_size(1) [OF assms(1)] ..
  obtain i where "i < length buckets" "buckets ! i = None" using bucket_inv_vacancy [OF assms] .
  then obtain k where k: "first_stop (\<lambda>b. b = None) buckets hash k"
    using first_stop_exists [of i buckets "\<lambda>b. b = None" hash] by auto
  have "probe buckets hash k < length buckets" using bucket_inv_size(2) [OF assms(1)] by (rule probe_less)
  then show thesis by (rule that [OF _ find_vacant_bucket_eq [OF p k] bucket_inv_insert [OF assms(1) k]])
qed

lemma fill_buckets_total:
  assumes "bucket_inv hashes buckets" "length hashes + length entries < length buckets" "length hashes + length entries < 2 ^ 32"
  shows "\<exists>bs. fill_buckets (length hashes) entries buckets = (Some (Ok bs) :: ('e, atom_buckets) outcome option) \<and>
      bucket_inv (hashes @ map ae_hash entries) bs \<and> length bs = length buckets"
  using assms
proof (induction entries arbitrary: hashes buckets)
  case (Cons entry entries)
  obtain i where i: "i < length buckets" "find_vacant_bucket buckets (ae_hash entry) = (Some (Ok i) :: ('e, nat) outcome option)"
    "bucket_inv (hashes @ [ae_hash entry]) (buckets[i := Some (atom_of (length hashes))])"
    using vacant_bucket_insert [OF Cons.prems(1)] Cons.prems(2) by (metis add_lessD1)
  have "atom_from_index (length hashes) = (Ok (atom_of (length hashes)) :: ('e, atom_id) outcome)" using Cons.prems by (intro atom_from_index_eq) simp
  moreover have "\<exists>bs. fill_buckets (length (hashes @ [ae_hash entry])) entries (buckets[i := Some (atom_of (length hashes))]) =
      (Some (Ok bs) :: ('e, atom_buckets) outcome option) \<and>
      bucket_inv ((hashes @ [ae_hash entry]) @ map ae_hash entries) bs \<and> length bs = length (buckets[i := Some (atom_of (length hashes))])"
    using Cons.prems by (intro Cons.IH [OF i(3)]) simp_all
  ultimately show ?case by (simp add: i(2))
qed simp

section \<open>Lookup\<close>

definition atom_contents :: "atom_table \<Rightarrow> u16 list list" where
  "atom_contents t = map (\<lambda>entry. code_units (ae_string entry)) (at_entries t)"

text \<open>The place of an element in a list.\<close>

fun position :: "'a \<Rightarrow> 'a list \<Rightarrow> nat option" where
  "position x [] = None"
| "position x (y # ys) = (if x = y then Some 0 else map_option Suc (position x ys))"

lemma position_eq_None: "position x xs = None \<longleftrightarrow> x \<notin> set xs"
  by (induction xs) auto

lemma position_eq_Some: "position x xs = Some j \<Longrightarrow> j < length xs \<and> xs ! j = x"
  by (induction xs arbitrary: j) (auto split: if_splits)

lemma position_nth: "distinct xs \<Longrightarrow> j < length xs \<Longrightarrow> position (xs ! j) xs = Some j"
  by (induction xs arbitrary: j) (auto simp: nth_Cons split: nat.split)

definition atom_inv :: "atom_table \<Rightarrow> bool" where
  "atom_inv t \<longleftrightarrow>
     (if at_buckets t = [] then at_entries t = []
      else bucket_inv (map ae_hash (at_entries t)) (at_buckets t) \<and> 16 \<le> length (at_buckets t) \<and>
           length (at_entries t) * 4 \<le> length (at_buckets t) * 3 \<and> length (at_buckets t) < 2 ^ 35) \<and>
     (\<forall>entry \<in> set (at_entries t). cache_ok (ae_string entry) \<and>
        ae_hash entry = units_hash (ac_hash_seed (at_config t)) (code_units (ae_string entry))) \<and>
     distinct (atom_contents t) \<and>
     length (at_entries t) \<le> unat (ac_max_entries (at_config t)) \<and>
     at_retained_string_bytes t = sum_list (map (\<lambda>entry. string_external_memory_bytes (ae_string entry)) (at_entries t)) \<and>
     at_retained_string_bytes t \<le> ac_max_string_bytes (at_config t)"

lemma atom_inv_few: "atom_inv t \<Longrightarrow> length (at_entries t) < 2 ^ 32"
  unfolding atom_inv_def using unat_u32_less [of "ac_max_entries (at_config t)"] by linarith

lemma atom_inv_room: "atom_inv t \<Longrightarrow> at_buckets t \<noteq> [] \<Longrightarrow> length (at_entries t) < length (at_buckets t)"
  by (auto simp: atom_inv_def)

definition entry_matches :: "atom_table \<Rightarrow> js_string_view \<Rightarrow> u64 \<Rightarrow> atom_id \<Rightarrow> bool" where
  "entry_matches t v hash a \<longleftrightarrow>
     (let entry = at_entries t ! unat (atom_index a) in ae_hash entry = hash \<and> view_eq (as_view (ae_string entry)) v)"

definition find_stops :: "atom_table \<Rightarrow> js_string_view \<Rightarrow> u64 \<Rightarrow> atom_id option \<Rightarrow> bool" where
  "find_stops t v hash b \<longleftrightarrow> (case b of None \<Rightarrow> True | Some a \<Rightarrow> entry_matches t v hash a)"

lemma find_from_steps:
  assumes inv: "atom_inv t" and full: "at_buckets t \<noteq> []" and stop: "first_stop (find_stops t v hash) (at_buckets t) h k" and "j \<le> k"
  shows "find_from t v hash (probe (at_buckets t) h j) =
    (Some (Ok (at_buckets t ! probe (at_buckets t) h k)) :: ('e, atom_id option) outcome option)"
proof -
  let ?b = "at_buckets t"
  have bi: "bucket_inv (map ae_hash (at_entries t)) ?b" using inv full by (simp add: atom_inv_def)
  obtain p where size: "length ?b = 2 ^ p" using bucket_inv_size(1) [OF bi] ..
  have slot: "get ?b (probe ?b h m) = Some (?b ! probe ?b h m)" for m using full by (simp add: get_def probe_less)
  have entry: "get (at_entries t) (unat (atom_index a)) = Some (at_entries t ! unat (atom_index a))" if some: "?b ! probe ?b h m = Some a" for a m
  proof -
    have "a \<in> atom_of ` {..<length (at_entries t)}"
      using bi some probe_less [OF full, of h m] unfolding bucket_inv_def length_map by blast
    then show ?thesis using unat_u32_less [of "ac_max_entries (at_config t)"] inv by (auto simp: get_def atom_index_of atom_inv_def)
  qed
  show ?thesis
    using \<open>j \<le> k\<close>
  proof (induction rule: inc_induct)
    case base
    have "find_stops t v hash (?b ! probe ?b h k)" using stop by (simp add: first_stop_def)
    then show ?case
      by (subst find_from.simps) (auto simp: slot find_stops_def entry_matches_def Let_def entry split: option.split)
  next
    case (step m)
    then have "\<not> find_stops t v hash (?b ! probe ?b h m)" using stop by (simp add: first_stop_def)
    then show ?case
      using step next_bucket_eq [OF size, of h m]
      by (subst find_from.simps) (auto simp: slot find_stops_def entry_matches_def Let_def entry split: option.splits)
  qed
qed

lemma entry_matches_iff:
  assumes "atom_inv t" "j < length (at_entries t)"
  shows "entry_matches t v (units_hash (ac_hash_seed (at_config t)) (view_units v)) (atom_of j) \<longleftrightarrow> atom_contents t ! j = view_units v"
proof -
  have j: "unat (atom_index (atom_of j)) = j"
    using assms unat_u32_less [of "ac_max_entries (at_config t)"] by (intro atom_index_of) (simp add: atom_inv_def)
  have "ae_hash (at_entries t ! j) = units_hash (ac_hash_seed (at_config t)) (code_units (ae_string (at_entries t ! j)))"
    using assms by (simp add: atom_inv_def)
  then show ?thesis
    using assms(2) by (auto simp: entry_matches_def Let_def j view_eq_iff atom_contents_def code_units_def)
qed

lemma find_view_hashed_eq:
  assumes inv: "atom_inv t"
  shows "find_view_hashed t v (units_hash (ac_hash_seed (at_config t)) (view_units v)) =
    (Some (Ok (map_option atom_of (position (view_units v) (atom_contents t)))) :: ('e, atom_id option) outcome option)"
proof (cases "at_buckets t = []")
  case True
  then show ?thesis using inv by (simp add: find_view_hashed_def atom_inv_def atom_contents_def)
next
  case full: False
  let ?b = "at_buckets t"
  define hash where "hash = units_hash (ac_hash_seed (at_config t)) (view_units v)"
  have bi: "bucket_inv (map ae_hash (at_entries t)) ?b" using inv full by (simp add: atom_inv_def)
  obtain p where size: "length ?b = 2 ^ p" using bucket_inv_size(1) [OF bi] ..
  obtain i where i: "i < length ?b" "?b ! i = None" using bucket_inv_vacancy [OF bi] atom_inv_room [OF inv full] by auto
  obtain k where k: "first_stop (find_stops t v hash) ?b hash k"
    using first_stop_exists [OF i(1), of "find_stops t v hash" hash] i(2) by (auto simp: find_stops_def)
  have run: "find_view_hashed t v hash = (Some (Ok (?b ! probe ?b hash k)) :: ('e, atom_id option) outcome option)"
    using find_from_steps [OF inv full k, of 0] full by (simp add: find_view_hashed_def home_bucket_eq [OF size])
  have "?b ! probe ?b hash k = map_option atom_of (position (view_units v) (atom_contents t))"
  proof (cases "?b ! probe ?b hash k")
    case (Some a)
    then obtain j where j: "j < length (at_entries t)" "a = atom_of j"
      using bi probe_less [OF full, of hash k] by (auto simp: bucket_inv_def)
    have "entry_matches t v hash a" using k Some by (simp add: first_stop_def find_stops_def)
    then have "atom_contents t ! j = view_units v" using entry_matches_iff [OF inv j(1)] by (simp add: j(2) hash_def)
    then have "position (view_units v) (atom_contents t) = Some j"
      using position_nth [of "atom_contents t" j] inv j(1) by (simp add: atom_inv_def atom_contents_def)
    then show ?thesis using Some j by simp
  next
    case None
    have "view_units v \<notin> set (atom_contents t)"
    proof
      assume "view_units v \<in> set (atom_contents t)"
      then obtain j where j: "j < length (at_entries t)" "atom_contents t ! j = view_units v"
        by (auto simp: in_set_conv_nth atom_contents_def)
      then have m: "entry_matches t v hash (atom_of j)" using entry_matches_iff [OF inv j(1)] by (simp add: hash_def)
      have "ae_hash (at_entries t ! j) = hash" using inv j by (simp add: atom_inv_def hash_def atom_contents_def)
      then have "placed ?b hash (atom_of j)" using bi j(1) by (auto simp: bucket_inv_def)
      then obtain l where l: "?b ! probe ?b hash l = Some (atom_of j)" "\<forall>n<l. ?b ! probe ?b hash n \<noteq> None"
        unfolding placed_def by blast
      have "k \<le> l" using first_stop_le [OF k, of l] m l(1) by (simp add: find_stops_def)
      then show False using None l by (cases "k = l") auto
    qed
    then show ?thesis using None by (simp add: position_eq_None [THEN iffD2])
  qed
  then show ?thesis using run by (simp add: hash_def)
qed

lemma find_hashed_eq:
  assumes "atom_inv t" "hash = units_hash (ac_hash_seed (at_config t)) (code_units s)"
  shows "find_hashed t s hash = (Some (Ok (map_option atom_of (position (code_units s) (atom_contents t)))) :: ('e, atom_id option) outcome option)"
  using find_view_hashed_eq [OF assms(1), of "as_view s"] assms(2) by (simp add: find_hashed_def code_units_def)

lemma find_atom_eq:
  assumes "atom_inv t" "cache_ok s"
  shows "find_atom t s = (Some (Ok (map_option atom_of (position (code_units s) (atom_contents t)))) :: ('e, atom_id option) outcome option)"
  using find_hashed_eq [OF assms(1) refl, of s] hash_with_seed_eq(1) [OF assms(2)] by (simp add: find_atom_def)

lemma find_latin1_eq:
  assumes "atom_inv t"
  shows "find_latin1 t bytes = (Some (Ok (map_option atom_of (position (map ucast bytes) (atom_contents t)))) :: ('e, atom_id option) outcome option)"
  using find_view_hashed_eq [OF assms, of "View_Latin1 bytes"] by (simp add: find_latin1_def view_hash_units view_units_def)

lemma atom_inv_new: "atom_inv (atom_table_new grants config)" "atom_contents (atom_table_new grants config) = []"
  by (simp_all add: atom_inv_def atom_table_new_def atom_contents_def)

section \<open>Growth\<close>

lemma ensure_insert_capacity_total:
  assumes inv: "atom_inv t" and below: "length (at_entries t) < unat (ac_max_entries (at_config t))"
  obtains (ready) t' where "ensure_insert_capacity t = Some (Ok t')" "atom_inv t'" "at_entries t' = at_entries t" "at_config t' = at_config t"
      "at_buckets t' \<noteq> []" "(length (at_entries t') + 1) * 4 \<le> length (at_buckets t') * 3"
      "at_retained_string_bytes t' = at_retained_string_bytes t" "at_grants t' = at_grants t"
  | (refused) t' n where "ensure_insert_capacity t = Some (Err (AtomAllocationFailed, t'))" "atom_inv t'" "at_entries t' = at_entries t"
      "\<not> at_grants t n" "at_config t' = at_config t" "at_grants t' = at_grants t"
proof -
  let ?n = "length (at_entries t)"
  let ?needs = "at_buckets t = [] \<or> usize_saturating_mul (?n + 1) 4 > usize_saturating_mul (length (at_buckets t)) 3"
  have few: "?n + 1 < 2 ^ 32" using below unat_u32_less [of "ac_max_entries (at_config t)"] by linarith
  show thesis
  proof (cases ?needs)
    case False
    then have "(?n + 1) * 4 \<le> length (at_buckets t) * 3" "at_buckets t \<noteq> []"
      using few by (auto simp: usize_saturating_mul_def min_def split: if_splits)
    moreover have "ensure_insert_capacity t = Some (Ok t)"
      using False by (simp add: ensure_insert_capacity_def Let_def ATOM_LOAD_DENOMINATOR_def ATOM_LOAD_NUMERATOR_def)
    ultimately show thesis using ready [of t] inv by simp
  next
    case True
    define target where "target = (if at_buckets t = [] then 16 else length (at_buckets t) * 2)"
    obtain p where p: "target = 2 ^ p"
    proof (cases "at_buckets t = []")
      case True
      then show thesis using that [of 4] by (simp add: target_def)
    next
      case False
      then obtain p where "length (at_buckets t) = 2 ^ p" using inv by (auto simp: atom_inv_def bucket_inv_def)
      then show thesis using False that [of "Suc p"] by (simp add: target_def)
    qed
    have room: "(?n + 1) * 4 \<le> target * 3" "16 \<le> target" "target < 2 ^ 35"
      using True few inv by (auto simp: target_def atom_inv_def usize_saturating_mul_def min_def split: if_splits)
    have checked: "(if at_buckets t = [] then Ok INITIAL_ATOM_BUCKETS else ok_or (AtomCapacityOverflow, t) (usize_checked (length (at_buckets t) * 2))) = Ok target"
      using room by (cases "at_buckets t = []") (simp_all add: target_def INITIAL_ATOM_BUCKETS_def usize_checked_def)
    define entry_target where "entry_target =
      max (min (div_ceil (usize_saturating_mul target 3) 4) (unat (ac_max_entries (at_config t)))) (?n + 1)"
    define reserved where "reserved = (if entry_target > at_entries_capacity t then t\<lparr>at_entries_capacity := entry_target\<rparr> else t)"
    define grown where "grown buckets = (let t = reserved\<lparr>at_buckets := buckets\<rparr> in
      if at_initial_bucket_capacity t = 0 then t\<lparr>at_initial_bucket_capacity := target\<rparr>
      else t\<lparr>at_growth_count := min (at_growth_count t + 1) (2 ^ 64 - 1)\<rparr>)" for buckets
    have kept: "at_entries reserved = at_entries t" "at_config reserved = at_config t" "at_grants reserved = at_grants t"
      "atom_inv reserved = atom_inv t"
      by (simp_all add: reserved_def atom_inv_def atom_contents_def)
    have grown: "at_entries (grown b) = at_entries t" "at_config (grown b) = at_config t" "at_grants (grown b) = at_grants t"
      "at_buckets (grown b) = b" "at_retained_string_bytes (grown b) = at_retained_string_bytes t" for b
      by (simp_all add: grown_def reserved_def Let_def)
    have "length ([] :: u64 list) + length (at_entries t) < length (replicate target (None :: atom_id option))" using room by simp
    then obtain buckets where buckets: "fill_buckets 0 (at_entries t) (replicate target None) =
        (Some (Ok buckets) :: (atom_table_error \<times> atom_table, atom_buckets) outcome option)"
      "bucket_inv (map ae_hash (at_entries t)) buckets" "length buckets = target"
      using fill_buckets_total [where hashes = "[]" and entries = "at_entries t", OF _ _] bucket_inv_empty [of p] few p by fastforce
    have run: "ensure_insert_capacity t =
      (if entry_target > at_entries_capacity t \<and> \<not> at_grants t (entry_target - ?n) then Some (Err (AtomAllocationFailed, t))
       else if \<not> at_grants t target then Some (Err (AtomAllocationFailed, reserved))
       else Some (Ok (grown buckets)))"
      using buckets(1) kept(1,3) True
      unfolding ensure_insert_capacity_def Let_def ATOM_LOAD_DENOMINATOR_def ATOM_LOAD_NUMERATOR_def checked chain_simps
        entry_target_def [symmetric]
      by (cases "entry_target > at_entries_capacity t"; cases "at_grants t (entry_target - ?n)"; cases "at_grants t target")
        (simp_all only: grown_def reserved_def Let_def not_True_eq_False if_True if_False chain_simps simp_thms)
    have "atom_inv (grown buckets)"
      using inv buckets(2,3) room by (auto simp: atom_inv_def grown atom_contents_def)
    note grown_inv = this
    show thesis
    proof (cases "entry_target > at_entries_capacity t \<and> \<not> at_grants t (entry_target - ?n)")
      case no_entries: True
      show thesis by (rule refused [of t "entry_target - ?n"]) (use run no_entries inv in simp_all)
    next
      case entries: False
      show thesis
      proof (cases "at_grants t target")
        case False
        show thesis by (rule refused [of reserved target]) (use run entries False kept inv in simp_all)
      next
        case True
        have "buckets \<noteq> []" using buckets(3) room by auto
        then show thesis
          using run entries True grown_inv grown room buckets(3) by (intro ready [of "grown buckets"]) simp_all
      qed
    qed
  qed
qed

section \<open>Interning\<close>

text \<open>What makes the table refuse a string.\<close>

definition refusal :: "atom_table \<Rightarrow> js_string \<Rightarrow> atom_table_error \<Rightarrow> bool" where
  "refusal t s e \<longleftrightarrow> (case e of
     AtomEntryLimitExceeded limit \<Rightarrow> limit = ac_max_entries (at_config t) \<and> length (atom_contents t) = unat limit
   | StringBytesLimitExceeded limit used requested \<Rightarrow>
       limit = ac_max_string_bytes (at_config t) \<and> used = at_retained_string_bytes t \<and>
       requested = string_external_memory_bytes s \<and> used + requested > limit
   | AtomAllocationFailed \<Rightarrow> (\<exists>n. \<not> at_grants t n)
   | AtomCapacityOverflow \<Rightarrow> at_retained_string_bytes t + string_external_memory_bytes s \<ge> 2 ^ 64)"

definition same_policy :: "atom_table \<Rightarrow> atom_table \<Rightarrow> bool" where
  "same_policy t t' \<longleftrightarrow> at_config t' = at_config t \<and> at_grants t' = at_grants t"

lemma publish_inv:
  assumes inv: "atom_inv t" and room: "at_buckets t \<noteq> []" "(length (at_entries t) + 1) * 4 \<le> length (at_buckets t) * 3"
    and new: "code_units s \<notin> set (atom_contents t)" and cache: "cache_ok s"
    and hash: "hash = units_hash (ac_hash_seed (at_config t)) (code_units s)"
    and quota: "length (at_entries t) < unat (ac_max_entries (at_config t))"
      "at_retained_string_bytes t + string_external_memory_bytes s \<le> ac_max_string_bytes (at_config t)"
    and buckets: "bucket_inv (map ae_hash (at_entries t) @ [hash]) buckets" "length buckets = length (at_buckets t)"
  shows "atom_inv (t\<lparr>at_entries := at_entries t @ [\<lparr>ae_string = s, ae_hash = hash\<rparr>], at_buckets := buckets,
    at_retained_string_bytes := at_retained_string_bytes t + string_external_memory_bytes s, at_peak_entries := peak\<rparr>)"
proof -
  have "buckets \<noteq> []" using room buckets(2) by auto
  with assms show ?thesis by (auto simp: atom_inv_def atom_contents_def)
qed

lemma try_intern_total:
  assumes inv: "atom_inv t" and cache: "cache_ok s"
  obtains (found) j where "position (code_units s) (atom_contents t) = Some j" "try_intern t s = Some (Ok (atom_of j, t))"
  | (published) t' where "code_units s \<notin> set (atom_contents t)" "try_intern t s = Some (Ok (atom_of (length (atom_contents t)), t'))"
      "atom_inv t'" "atom_contents t' = atom_contents t @ [code_units s]" "same_policy t t'"
      "at_retained_string_bytes t' = at_retained_string_bytes t + string_external_memory_bytes s" "prefix (at_entries t) (at_entries t')"
  | (refused) e t' where "code_units s \<notin> set (atom_contents t)" "try_intern t s = Some (Err (e, t'))"
      "atom_inv t'" "atom_contents t' = atom_contents t" "same_policy t t'" "refusal t s e" "at_entries t' = at_entries t"
proof -
  define seed where "seed = ac_hash_seed (at_config t)"
  define hash where "hash = units_hash seed (code_units s)"
  define s' where "s' = snd (hash_with_seed s seed)"
  define bytes where "bytes = string_external_memory_bytes s"
  let ?retained = "at_retained_string_bytes t + bytes"
  have split: "hash_with_seed s seed = (hash, s')"
    using hash_with_seed_eq(1) [OF cache, of seed] by (simp add: s'_def hash_def prod_eq_iff)
  have s': "cache_ok s'" "code_units s' = code_units s" "string_external_memory_bytes s' = bytes"
    using hash_with_seed_eq [OF cache] by (simp_all add: s'_def bytes_def)
  have find: "find_hashed t s' hash =
    (Some (Ok (map_option atom_of (position (code_units s) (atom_contents t)))) :: (atom_table_error \<times> atom_table, atom_id option) outcome option)"
    using find_hashed_eq [OF inv, of hash s'] by (simp add: s'(2) hash_def seed_def)
  show thesis
  proof (cases "position (code_units s) (atom_contents t)")
    case (Some j)
    then show thesis using found [of j] split find by (simp add: try_intern_def seed_def [symmetric])
  next
    case None
    then have new: "code_units s \<notin> set (atom_contents t)" by (simp add: position_eq_None)
    note run = try_intern_def [of t s, folded seed_def, unfolded split, simplified, unfolded find None, simplified, unfolded s'(3)]
    consider (full) "length (at_entries t) \<ge> unat (ac_max_entries (at_config t))"
      | (overflow) "length (at_entries t) < unat (ac_max_entries (at_config t))" "?retained \<ge> 2 ^ 64"
      | (bytes) "length (at_entries t) < unat (ac_max_entries (at_config t))" "?retained < 2 ^ 64" "?retained > ac_max_string_bytes (at_config t)"
      | (fits) "length (at_entries t) < unat (ac_max_entries (at_config t))" "?retained < 2 ^ 64" "?retained \<le> ac_max_string_bytes (at_config t)"
      by linarith
    then show thesis
    proof cases
      case full
      then show thesis using refused [OF new, of _ t] run inv by (auto simp: refusal_def same_policy_def atom_inv_def atom_contents_def)
    next
      case overflow
      then show thesis using refused [OF new, of _ t] run inv by (auto simp: refusal_def same_policy_def usize_checked_def bytes_def)
    next
      case bytes
      then show thesis using refused [OF new, of _ t] run inv by (auto simp: refusal_def same_policy_def usize_checked_def bytes_def)
    next
      case fits
      note run = run [unfolded usize_checked_def, simplified]
      show thesis
      proof (cases rule: ensure_insert_capacity_total [OF inv fits(1)])
        case (1 t')
        have bi: "bucket_inv (map ae_hash (at_entries t')) (at_buckets t')" using 1 by (simp add: atom_inv_def)
        obtain i where i: "find_vacant_bucket (at_buckets t') hash = (Some (Ok i) :: (atom_table_error \<times> atom_table, nat) outcome option)"
          "bucket_inv (map ae_hash (at_entries t') @ [hash]) ((at_buckets t')[i := Some (atom_of (length (at_entries t')))])"
          using vacant_bucket_insert [OF bi] atom_inv_room [of t'] 1 by (metis length_map)
        have contents: "atom_contents t' = atom_contents t" using 1 by (simp add: atom_contents_def)
        have few: "length (at_entries t) < 2 ^ 32 - 1" using fits(1) unat_u32_less [of "ac_max_entries (at_config t)"] by linarith
        define out where "out = t'\<lparr>at_entries := at_entries t' @ [\<lparr>ae_string = s', ae_hash = hash\<rparr>],
          at_buckets := (at_buckets t')[i := Some (atom_of (length (at_entries t')))], at_retained_string_bytes := at_retained_string_bytes t' + bytes,
          at_peak_entries := max (at_peak_entries t') (length (at_entries t') + 1)\<rparr>"
        have "atom_inv out"
          unfolding out_def s'(3) [symmetric] using 1 new s' fits i(2) by (intro publish_inv) (auto simp: contents hash_def seed_def)
        moreover have "try_intern t s = Some (Ok (atom_of (length (atom_contents t)), out))"
          using run fits few 1 i(1) by (simp add: atom_from_index_eq out_def atom_contents_def)
        ultimately show thesis using published [OF new, of out] 1 s' by (simp add: out_def atom_contents_def same_policy_def bytes_def)
      next
        case (2 t' n)
        then show thesis
          using refused [OF new, of AtomAllocationFailed t'] run fits by (auto simp: refusal_def same_policy_def atom_contents_def)
      qed
    qed
  qed
qed

section \<open>Rollback\<close>

lemma atom_rollback_total:
  assumes inv: "atom_inv t" and cp: "cp_entries_len cp \<le> length (at_entries t)"
    "cp_retained_string_bytes cp = sum_list (map (\<lambda>entry. string_external_memory_bytes (ae_string entry)) (take (cp_entries_len cp) (at_entries t)))"
  obtains t' where "atom_rollback t cp = (Some (Ok t') :: ('e, atom_table) outcome option)" "atom_inv t'"
    "atom_contents t' = take (cp_entries_len cp) (atom_contents t)" "same_policy t t'"
proof -
  let ?n = "cp_entries_len cp"
  let ?es = "take ?n (at_entries t)"
  have few: "length ?es < 2 ^ 32" using atom_inv_few [OF inv] by simp
  obtain bs where bs: "fill_buckets 0 ?es (replicate (length (at_buckets t)) None) = (Some (Ok bs) :: ('e, atom_buckets) outcome option)"
    "length bs = length (at_buckets t)" "at_buckets t \<noteq> [] \<Longrightarrow> bucket_inv (map ae_hash ?es) bs"
  proof (cases "at_buckets t = []")
    case True
    then show thesis using that [of "[]"] inv by (simp add: atom_inv_def)
  next
    case False
    then obtain p where p: "length (at_buckets t) = 2 ^ p" using inv by (auto simp: atom_inv_def bucket_inv_def)
    have "length ([] :: u64 list) + length ?es < length (replicate (2 ^ p) (None :: atom_id option))"
      using atom_inv_room [OF inv False] by (simp add: p)
    then show thesis
      using that fill_buckets_total [where hashes = "[]" and entries = ?es and 'e = 'e, OF bucket_inv_empty [of p]] few by (auto simp: p)
  qed
  have sum: "sum_list (map f ?es) \<le> sum_list (map f (at_entries t))" for f :: "atom_entry \<Rightarrow> nat"
    by (metis append_take_drop_id le_add1 map_append sum_list_append)
  define out where "out = t\<lparr>at_entries := ?es, at_retained_string_bytes := cp_retained_string_bytes cp, at_buckets := bs\<rparr>"
  have contents: "atom_contents out = take ?n (atom_contents t)" by (simp add: out_def atom_contents_def take_map)
  have "distinct (atom_contents out)" unfolding contents using inv by (simp add: atom_inv_def)
  moreover have "cp_retained_string_bytes cp \<le> ac_max_string_bytes (at_config t)"
    using sum [of "\<lambda>entry. string_external_memory_bytes (ae_string entry)"] inv by (simp add: atom_inv_def cp(2))
  moreover have "if bs = [] then ?es = [] else bucket_inv (map ae_hash ?es) bs \<and> 16 \<le> length bs \<and> length ?es * 4 \<le> length bs * 3 \<and> length bs < 2 ^ 35"
    using inv bs(2,3) by (cases "at_buckets t = []") (auto simp: atom_inv_def)
  moreover have "\<forall>entry \<in> set ?es. cache_ok (ae_string entry) \<and>
      ae_hash entry = units_hash (ac_hash_seed (at_config t)) (code_units (ae_string entry))"
    using inv unfolding atom_inv_def by (blast dest: in_set_takeD)
  moreover have "length ?es \<le> unat (ac_max_entries (at_config t))" using inv by (simp add: atom_inv_def min.coboundedI1)
  moreover have fields: "at_entries out = ?es" "at_buckets out = bs" "at_config out = at_config t" "at_retained_string_bytes out = cp_retained_string_bytes cp"
    by (simp_all add: out_def)
  ultimately have "atom_inv out" unfolding atom_inv_def fields using cp(2) by blast
  then show thesis using contents that [of out] bs(1) by (simp add: atom_rollback_def out_def same_policy_def)
qed

section \<open>Clients of an interner\<close>

text \<open>A client that interns strings one after the other and remembers the ids, refused strings having none.\<close>

fun intern_each :: "('t \<Rightarrow> 's \<Rightarrow> ('e \<times> 't, 'a \<times> 't) outcome option) \<Rightarrow> 't \<Rightarrow> 's list \<Rightarrow> 'a option list \<times> 't" where
  "intern_each intern t [] = ([], t)"
| "intern_each intern t (s # ss) =
     (let (a, t) = (case intern t s of Some (Ok (a, t')) \<Rightarrow> (Some a, t') | Some (Err (e, t')) \<Rightarrow> (None, t') | _ \<Rightarrow> (None, t));
          (ids, t) = intern_each intern t ss
      in (a # ids, t))"

locale interner =
  fixes inv :: "'t \<Rightarrow> bool"
    and contents :: "'t \<Rightarrow> 'k list"
    and good :: "'s \<Rightarrow> bool"
    and key :: "'s \<Rightarrow> 'k"
    and intern :: "'t \<Rightarrow> 's \<Rightarrow> ('e \<times> 't, 'a \<times> 't) outcome option"
    and id_of :: "nat \<Rightarrow> 'a"
    and grows :: "'t \<Rightarrow> 't \<Rightarrow> bool"
  assumes grows_refl: "grows t t"
    and grows_trans: "grows t u \<Longrightarrow> grows u v \<Longrightarrow> grows t v"
    and grows_contents: "grows t u \<Longrightarrow> prefix (contents t) (contents u)"
    and interned: "inv t \<Longrightarrow> good s \<Longrightarrow> intern t s = Some (Ok (a, t')) \<Longrightarrow>
      inv t' \<and> grows t t' \<and> (\<exists>j<length (contents t'). contents t' ! j = key s \<and> a = id_of j)"
    and not_interned: "inv t \<Longrightarrow> good s \<Longrightarrow> intern t s = Some (Err (e, t')) \<Longrightarrow> inv t' \<and> grows t t'"
    and contents_distinct: "inv t \<Longrightarrow> distinct (contents t)"
    and id_inject: "inv t \<Longrightarrow> i < length (contents t) \<Longrightarrow> j < length (contents t) \<Longrightarrow> id_of i = id_of j \<Longrightarrow> i = j"
begin

definition names :: "'t \<Rightarrow> 'a \<Rightarrow> 's \<Rightarrow> bool" where
  "names t a s \<longleftrightarrow> (\<exists>j<length (contents t). contents t ! j = key s \<and> a = id_of j)"

lemma names_mono: "names t a s \<Longrightarrow> grows t t' \<Longrightarrow> names t' a s"
  using grows_contents [of t t'] unfolding names_def prefix_def by (metis length_append nth_append trans_less_add1)

lemma names_unique:
  assumes "inv t" "names t a s" "names t b u"
  shows "a = b \<longleftrightarrow> key s = key u"
proof -
  obtain i j where ij: "i < length (contents t)" "contents t ! i = key s" "a = id_of i" "j < length (contents t)" "contents t ! j = key u" "b = id_of j"
    using assms(2,3) unfolding names_def by blast
  have "id_of i = id_of j \<longleftrightarrow> i = j" using id_inject [OF assms(1)] ij by blast
  then show ?thesis using nth_eq_iff_index_eq [OF contents_distinct [OF assms(1)] ij(1,4)] ij by simp
qed

lemma intern_step:
  assumes "inv t" "good s" "(case intern t s of Some (Ok (a, t')) \<Rightarrow> (Some a, t') | Some (Err (e, t')) \<Rightarrow> (None, t') | _ \<Rightarrow> (None, t)) = (a, u)"
  shows "inv u \<and> grows t u \<and> (\<forall>i \<in> set_option a. names u i s)"
proof -
  consider (ok) b t' where "intern t s = Some (Ok (b, t'))" | (err) e t' where "intern t s = Some (Err (e, t'))"
    | (none) "intern t s = None" | (panic) "intern t s = Some Panic"
    by (metis not_Some_eq outcome.exhaust surj_pair)
  then show ?thesis
  proof cases
    case ok
    then show ?thesis using interned [OF assms(1,2) ok] assms(3) unfolding names_def by auto
  next
    case err
    then show ?thesis using not_interned [OF assms(1,2) err] assms(3) by auto
  qed (use assms grows_refl in auto)
qed

lemma intern_each_names:
  assumes "inv t" "list_all good ss" "intern_each intern t ss = (ids, t')"
  shows "inv t' \<and> grows t t' \<and> list_all2 (\<lambda>a s. \<forall>i \<in> set_option a. names t' i s) ids ss"
  using assms
proof (induction ss arbitrary: t ids)
  case (Cons s ss)
  define first where "first = (case intern t s of Some (Ok (a, t')) \<Rightarrow> (Some a, t') | Some (Err (e, t')) \<Rightarrow> (None, t') | _ \<Rightarrow> (None, t))"
  obtain a u where u: "first = (a, u)" by force
  obtain rest v where rest: "intern_each intern u ss = (rest, v)" by force
  have step: "inv u \<and> grows t u \<and> (\<forall>i \<in> set_option a. names u i s)"
    using intern_step [OF Cons.prems(1), of s] Cons.prems(2) u by (simp add: first_def)
  have out: "ids = a # rest" "t' = v" using Cons.prems(3) u rest by (simp_all add: first_def [symmetric])
  have "inv v \<and> grows u v \<and> list_all2 (\<lambda>a s. \<forall>i \<in> set_option a. names v i s) rest ss"
    using Cons.IH [of u rest] rest step Cons.prems(2) by (simp add: out)
  then show ?case using step out names_mono [of u _ s v] by (auto intro: grows_trans)
qed (simp add: grows_refl)

lemma ids_identify:
  assumes "inv t" "list_all good ss" "intern_each intern t ss = (ids, t')" "i < length ss" "j < length ss" "ids ! i = Some a" "ids ! j = Some b"
  shows "a = b \<longleftrightarrow> key (ss ! i) = key (ss ! j)"
  using intern_each_names [OF assms(1-3)] names_unique [of t' a "ss ! i" b "ss ! j"] assms(4-7) by (simp add: list_all2_conv_all_nth)

end

lemma atom_contents_few: "atom_inv t \<Longrightarrow> length (atom_contents t) < 2 ^ 32"
  using atom_inv_few by (simp add: atom_contents_def)

interpretation atoms: interner atom_inv atom_contents cache_ok code_units try_intern atom_of
  "\<lambda>t u :: atom_table. prefix (at_entries t) (at_entries u)"
proof
  fix t s a t' assume inv: "atom_inv t" and s: "cache_ok s" and run: "try_intern t s = Some (Ok (a, t'))"
  show "atom_inv t' \<and> prefix (at_entries t) (at_entries t') \<and>
      (\<exists>j<length (atom_contents t'). atom_contents t' ! j = code_units s \<and> a = atom_of j)"
    using inv s
  proof (cases rule: try_intern_total)
    case (found j)
    then show ?thesis using run inv position_eq_Some [OF found(1)] by auto
  next
    case (published u)
    then show ?thesis using run by (auto simp: nth_append intro!: exI [of _ "length (atom_contents t)"])
  next
    case (refused e u)
    then show ?thesis using run by simp
  qed
next
  fix t s e t' assume "atom_inv t" "cache_ok s" "try_intern t s = Some (Err (e, t'))"
  then show "atom_inv t' \<and> prefix (at_entries t) (at_entries t')"
    by (cases rule: try_intern_total) auto
next
  fix t assume "atom_inv t"
  then show "distinct (atom_contents t)" by (simp add: atom_inv_def)
next
  fix t i j assume "atom_inv t" "i < length (atom_contents t)" "j < length (atom_contents t)" "atom_of i = atom_of j"
  moreover from this(1) have "length (atom_contents t) \<le> 2 ^ 32 - 1"
    using unat_u32_less [of "ac_max_entries (at_config t)"] by (simp add: atom_inv_def atom_contents_def)
  ultimately show "i = j" using atom_of_eq_iff [of i j] by linarith
next
  fix t u :: atom_table assume "prefix (at_entries t) (at_entries u)"
  then show "prefix (atom_contents t) (atom_contents u)" by (auto simp: atom_contents_def prefix_def)
qed (auto intro: prefix_order.trans)

section \<open>The promises of the atom table\<close>

lemma get_atom_of:
  assumes "atom_inv t" "j < length (atom_contents t)"
  shows "map_option code_units (get_atom t (atom_of j)) = Some (atom_contents t ! j)"
proof -
  have "unat (atom_index (atom_of j)) = j"
    using assms unat_u32_less [of "ac_max_entries (at_config t)"] by (intro atom_index_of) (simp add: atom_inv_def atom_contents_def)
  then show ?thesis using assms(2) by (simp add: get_atom_def get_def atom_contents_def)
qed

lemma find_atom_of:
  assumes "atom_inv t" "cache_ok s" "j < length (atom_contents t)" "atom_contents t ! j = code_units s"
  shows "find_atom t s = (Some (Ok (Some (atom_of j))) :: ('e, atom_id option) outcome option)"
  using find_atom_eq [OF assms(1,2)] position_nth [of "atom_contents t" j] assms by (simp add: atom_inv_def)

text \<open>The specification: a list of distinct code unit sequences, extended by those not yet in it.\<close>

definition spec_intern :: "'a \<Rightarrow> 'a list \<Rightarrow> 'a list" where
  "spec_intern x xs = (if x \<in> set xs then xs else xs @ [x])"

text \<open>C7. Interning a string always returns. On success the table holds the string once, keeps every older atom, and
  both the lookup of an atom and the search for the string agree on the returned id. On failure the contents are unchanged,
  the string is not in the table, and the error names a limit that is really exceeded or an allocation really refused.\<close>
theorem atom_interning_exact:
  assumes "atom_inv t" "cache_ok s"
  shows "case try_intern t s of
      Some (Ok (a, t')) \<Rightarrow>
        atom_inv t' \<and> same_policy t t' \<and> atom_contents t' = spec_intern (code_units s) (atom_contents t) \<and>
        map_option code_units (get_atom t' a) = Some (code_units s) \<and>
        find_atom t' s = (Some (Ok (Some a)) :: (unit, atom_id option) outcome option)
    | Some (Err (e, t')) \<Rightarrow>
        atom_inv t' \<and> same_policy t t' \<and> atom_contents t' = atom_contents t \<and> code_units s \<notin> set (atom_contents t) \<and> refusal t s e
    | _ \<Rightarrow> False"
  using assms
proof (cases rule: try_intern_total)
  case (found j)
  then show ?thesis
    using position_eq_Some [OF found(1)] get_atom_of [OF assms(1), of j] find_atom_of [OF assms, of j, where 'e = unit] assms
    by (auto simp: same_policy_def spec_intern_def in_set_conv_nth)
next
  case (published t')
  then show ?thesis
    using get_atom_of [of t' "length (atom_contents t)"] find_atom_of [of t' s "length (atom_contents t)", where 'e = unit] assms(2)
    by (simp add: spec_intern_def nth_append)
next
  case (refused e t')
  then show ?thesis by simp
qed

definition demo_table :: atom_table where
  "demo_table = atom_table_new (\<lambda>_. True) \<lparr>ac_max_entries = 2, ac_max_string_bytes = 64, ac_hash_seed = \<lparr>hs_key0 = 1, hs_key1 = 2\<rparr>\<rparr>"

definition demo_strings :: "js_string list" where
  "demo_strings = [fresh_string (Latin1 [0xe9]), fresh_string (Utf16 [0x61, 0x1234]), fresh_string (Utf16 [0xe9]), fresh_string (Latin1 [])]"

lemma demo_inv: "atom_inv demo_table"
  unfolding demo_table_def by (rule atom_inv_new)

lemma demo_cache: "list_all cache_ok demo_strings"
  by (simp add: demo_strings_def fresh_string_def cache_ok_def)

text \<open>A policy under which the strings fit: no allocation is refused and the limits exceed the whole demand.\<close>

definition generous :: "atom_table \<Rightarrow> js_string list \<Rightarrow> bool" where
  "generous t ss \<longleftrightarrow>
     (\<forall>n. at_grants t n) \<and> length (atom_contents t) + length ss \<le> unat (ac_max_entries (at_config t)) \<and>
     at_retained_string_bytes t + sum_list (map string_external_memory_bytes ss) \<le> ac_max_string_bytes (at_config t) \<and>
     at_retained_string_bytes t + sum_list (map string_external_memory_bytes ss) < 2 ^ 64"

lemma generous_not_refused: "generous t (s # ss) \<Longrightarrow> \<not> refusal t s e"
  by (auto simp: generous_def refusal_def split: atom_table_error.splits)

lemma generous_interns:
  assumes "atom_inv t" "list_all cache_ok ss" "generous t ss"
  shows "list_all (\<lambda>a. a \<noteq> None) (fst (intern_each try_intern t ss)) \<and> length (fst (intern_each try_intern t ss)) = length ss"
  using assms
proof (induction ss arbitrary: t)
  case (Cons s ss)
  have "cache_ok s" using Cons.prems(2) by simp
  with Cons.prems(1) show ?case
  proof (cases rule: try_intern_total)
    case (found j)
    moreover have "generous t ss" using Cons.prems(3) by (auto simp: generous_def)
    ultimately show ?thesis using Cons.IH [of t] Cons.prems by (simp add: split_beta Let_def)
  next
    case (published t')
    moreover have "generous t' ss" using Cons.prems(3) published by (auto simp: generous_def same_policy_def)
    ultimately show ?thesis using Cons.IH [of t'] Cons.prems by (simp add: split_beta Let_def)
  next
    case (refused e t')
    then show ?thesis using generous_not_refused [OF Cons.prems(3)] by blast
  qed
qed simp

text \<open>C15. Whatever strings are interned in a fresh table, in whatever order and with whatever failures between, two of the ids
  handed out are equal exactly when their strings have the same code units, also when one is stored in Latin-1 and the other in
  UTF-16; and when the limits exceed the demand every string gets an id.\<close>
theorem atom_ids_identify_strings:
  assumes "list_all cache_ok ss" "intern_each try_intern (atom_table_new grants config) ss = (ids, t)"
  shows "length ids = length ss \<and>
    (\<forall>i<length ss. \<forall>j<length ss. \<forall>a b. ids ! i = Some a \<and> ids ! j = Some b \<longrightarrow> (a = b \<longleftrightarrow> code_units (ss ! i) = code_units (ss ! j))) \<and>
    (generous (atom_table_new grants config) ss \<longrightarrow> None \<notin> set ids)"
proof -
  have "length ids = length ss"
    using atoms.intern_each_names [OF atom_inv_new(1) assms] by (auto dest: list_all2_lengthD)
  moreover have "None \<notin> set ids" if "generous (atom_table_new grants config) ss"
    using generous_interns [OF atom_inv_new(1) assms(1) that] assms(2) by (auto simp: list_all_iff)
  ultimately show ?thesis using atoms.ids_identify [OF atom_inv_new(1) assms] by blast
qed

text \<open>C16. Rolling back to a checkpoint, as a failed module load does, restores the table: whatever was interned since, the
  contents are those of the checkpoint and every search answers as it did then.\<close>
theorem atom_rollback_restores:
  assumes "atom_inv t" "list_all cache_ok ss" "intern_each try_intern t ss = (ids, t')"
  shows "\<exists>t''. atom_rollback t' (atom_checkpoint t) = (Some (Ok t'') :: (unit, atom_table) outcome option) \<and> atom_inv t'' \<and>
    atom_contents t'' = atom_contents t \<and>
    (\<forall>s. cache_ok s \<longrightarrow> find_atom t'' s = (find_atom t s :: (unit, atom_id option) outcome option))"
proof -
  have inv: "atom_inv t'" and "prefix (at_entries t) (at_entries t')"
    using atoms.intern_each_names [OF assms] by auto
  then obtain more where more: "at_entries t' = at_entries t @ more" by (auto simp: prefix_def)
  have sum: "at_retained_string_bytes t = sum_list (map (\<lambda>entry. string_external_memory_bytes (ae_string entry)) (at_entries t))"
    using assms(1) by (simp add: atom_inv_def)
  obtain t'' where t'': "atom_rollback t' (atom_checkpoint t) = (Some (Ok t'') :: (unit, atom_table) outcome option)" "atom_inv t''"
    "atom_contents t'' = take (length (at_entries t)) (atom_contents t')"
    by (rule atom_rollback_total [OF inv, of "atom_checkpoint t", where 'e = unit]) (simp_all add: atom_checkpoint_def more sum)
  have "atom_contents t'' = atom_contents t" using t''(3) by (simp add: atom_contents_def more)
  then show ?thesis using t'' find_atom_eq [OF t''(2), where 'e = unit] find_atom_eq [OF assms(1), where 'e = unit] by auto
qed

lemma demo_generous: "generous demo_table (take 2 demo_strings)"
  by (simp add: generous_def demo_table_def atom_table_new_def atom_contents_def demo_strings_def fresh_string_def
      string_external_memory_bytes_def)

theorem atom_interning_exact_witness:
  "\<exists>a t. try_intern demo_table (fresh_string (Latin1 [0xe9])) = Some (Ok (a, t)) \<and> atom_contents t = [[0xe9]]"
  using atom_interning_exact [OF demo_inv, of "fresh_string (Latin1 [0xe9])"]
    generous_not_refused [of demo_table "fresh_string (Latin1 [0xe9])" "[fresh_string (Utf16 [0x61, 0x1234])]"] demo_generous
  by (auto simp: cache_ok_def fresh_string_def demo_strings_def demo_table_def atom_table_new_def atom_contents_def spec_intern_def
      code_units_def as_view_def view_units_def split: option.splits outcome.splits)

theorem atom_ids_identify_strings_witness:
  "\<exists>a. fst (intern_each try_intern (atom_table_new (\<lambda>_. True) (at_config demo_table)) [fresh_string (Latin1 [0xe9]), fresh_string (Utf16 [0xe9])])
    = [Some a, Some a]"
proof -
  let ?ss = "[fresh_string (Latin1 [0xe9]), fresh_string (Utf16 [0xe9])]"
  let ?t = "atom_table_new (\<lambda>_. True) (at_config demo_table)"
  obtain ids u where run: "intern_each try_intern ?t ?ss = (ids, u)" by force
  have ok: "list_all cache_ok ?ss" by (simp add: cache_ok_def fresh_string_def)
  note facts = atom_ids_identify_strings [OF ok run]
  have "generous ?t ?ss"
    by (simp add: generous_def demo_table_def atom_table_new_def atom_contents_def fresh_string_def string_external_memory_bytes_def)
  then have "None \<notin> set ids" using facts by blast
  moreover have "length ids = 2" using facts by simp
  ultimately obtain a b where ids: "ids = [Some a, Some b]"
    by (cases ids; cases "tl ids"; cases "hd ids"; cases "hd (tl ids)") auto
  have "a = b \<longleftrightarrow> code_units (?ss ! 0) = code_units (?ss ! 1)"
    using conjunct1 [OF conjunct2 [OF facts], rule_format, of 0 1 a b] ids by simp
  then have "a = b" by (simp add: code_units_def as_view_def view_units_def fresh_string_def)
  then show ?thesis using run ids by simp
qed

theorem atom_rollback_restores_witness:
  "\<exists>t. atom_rollback (snd (intern_each try_intern demo_table demo_strings)) (atom_checkpoint demo_table) =
     (Some (Ok t) :: (unit, atom_table) outcome option) \<and> atom_contents t = []"
proof -
  obtain ids u where run: "intern_each try_intern demo_table demo_strings = (ids, u)" by force
  have "atom_contents demo_table = []" by (simp add: demo_table_def atom_inv_new)
  then show ?thesis using atom_rollback_restores [OF demo_inv demo_cache run] run by auto
qed

end
