(* ===== verification/Uri_Codec.thy ===== *)
theory Uri_Codec
  imports Js_String
begin

text \<open>
  The URI globals of \<open>crates/tachyon-vm/src/builtins/uri.rs\<close>: the encoder with its capacity pass and the strict decoder,
  and what they use of UTF-8 and UTF-16 in the standard library. The last part shows that decoding undoes encoding and that
  encoding fails exactly on lone surrogates.
\<close>

unbundle bit_operations_syntax

section \<open>Text of the standard library\<close>

text \<open>A scalar value and its UTF-8 bytes: \<open>char::from_u32\<close>, \<open>encode_utf8\<close>, \<open>len_utf8\<close> and the strict decoder \<open>from_utf8\<close>.\<close>

definition char_from_u32 :: "u32 \<Rightarrow> u32 option" where
  "char_from_u32 c = (if c \<le> 0x10ffff \<and> \<not> (0xd800 \<le> c \<and> c \<le> 0xdfff) then Some c else None)"

definition encode_utf8 :: "u32 \<Rightarrow> u8 list" where
  "encode_utf8 c =
     (let n = unat c in
      if n < 0x80 then [word_of_nat n]
      else if n < 0x800 then [word_of_nat (0xc0 + n div 64), word_of_nat (0x80 + n mod 64)]
      else if n < 0x10000 then [word_of_nat (0xe0 + n div 4096), word_of_nat (0x80 + n div 64 mod 64), word_of_nat (0x80 + n mod 64)]
      else [word_of_nat (0xf0 + n div 262144), word_of_nat (0x80 + n div 4096 mod 64), word_of_nat (0x80 + n div 64 mod 64), word_of_nat (0x80 + n mod 64)])"

definition continuation :: "u8 \<Rightarrow> bool" where
  "continuation b \<longleftrightarrow> 0x80 \<le> b \<and> b \<le> 0xbf"

definition tail_bits :: "u8 \<Rightarrow> nat" where
  "tail_bits b = unat b - 0x80"

fun utf8_chars :: "u8 list \<Rightarrow> u32 list option" where
  "utf8_chars [] = Some []"
| "utf8_chars (b0 # bs) =
     (if b0 < 0x80 then map_option ((#) (ucast b0)) (utf8_chars bs)
      else if 0xc2 \<le> b0 \<and> b0 \<le> 0xdf then
        (case bs of
           b1 # bs \<Rightarrow> if continuation b1 then map_option ((#) (word_of_nat ((unat b0 - 0xc0) * 64 + tail_bits b1))) (utf8_chars bs) else None
         | _ \<Rightarrow> None)
      else if 0xe0 \<le> b0 \<and> b0 \<le> 0xef then
        (case bs of
           b1 # b2 # bs \<Rightarrow>
             if continuation b1 \<and> continuation b2 \<and> (b0 = 0xe0 \<longrightarrow> 0xa0 \<le> b1) \<and> (b0 = 0xed \<longrightarrow> b1 \<le> 0x9f)
             then map_option ((#) (word_of_nat ((unat b0 - 0xe0) * 4096 + tail_bits b1 * 64 + tail_bits b2))) (utf8_chars bs) else None
         | _ \<Rightarrow> None)
      else if 0xf0 \<le> b0 \<and> b0 \<le> 0xf4 then
        (case bs of
           b1 # b2 # b3 # bs \<Rightarrow>
             if continuation b1 \<and> continuation b2 \<and> continuation b3 \<and> (b0 = 0xf0 \<longrightarrow> 0x90 \<le> b1) \<and> (b0 = 0xf4 \<longrightarrow> b1 \<le> 0x8f)
             then map_option ((#) (word_of_nat ((unat b0 - 0xf0) * 262144 + tail_bits b1 * 4096 + tail_bits b2 * 64 + tail_bits b3))) (utf8_chars bs)
             else None
         | _ \<Rightarrow> None)
      else None)"

section \<open>The codec\<close>

text \<open>The index into the input is the part of the input that is left.\<close>

datatype uri_error = InvalidUriEncoding | StringBufferAllocationFailed | InvalidStringLength

definition URI_RESERVED :: "u8 list" where
  "URI_RESERVED = [0x3b, 0x2f, 0x3f, 0x3a, 0x40, 0x26, 0x3d, 0x2b, 0x24, 0x2c, 0x23]"

definition URI_MARK :: "u8 list" where
  "URI_MARK = [0x2d, 0x5f, 0x2e, 0x21, 0x7e, 0x2a, 0x27, 0x28, 0x29]"

definition HEX :: "u8 list" where
  "HEX = [0x30, 0x31, 0x32, 0x33, 0x34, 0x35, 0x36, 0x37, 0x38, 0x39, 0x41, 0x42, 0x43, 0x44, 0x45, 0x46]"

definition is_ascii_alphanumeric :: "u8 \<Rightarrow> bool" where
  "is_ascii_alphanumeric b \<longleftrightarrow> 0x30 \<le> b \<and> b \<le> 0x39 \<or> 0x41 \<le> b \<and> b \<le> 0x5a \<or> 0x61 \<le> b \<and> b \<le> 0x7a"

definition is_uri_unescaped :: "u8 \<Rightarrow> bool \<Rightarrow> bool" where
  "is_uri_unescaped b component \<longleftrightarrow> is_ascii_alphanumeric b \<or> b \<in> set URI_MARK \<or> \<not> component \<and> b \<in> set URI_RESERVED"

fun decode_utf16_scalar :: "u16 list \<Rightarrow> (uri_error, u32 \<times> u16 list) outcome" where
  "decode_utf16_scalar [] = Panic"
| "decode_utf16_scalar (first # rest) =
     (if \<not> (0xd800 \<le> first \<and> first \<le> 0xdfff) then Ok (ucast first, rest)
      else if first > 0xdbff then Err InvalidUriEncoding
      else case rest of
             [] \<Rightarrow> Err InvalidUriEncoding
           | second # rest \<Rightarrow>
               if 0xdc00 \<le> second \<and> second \<le> 0xdfff
               then Ok (0x10000 + push_bit 10 (ucast first - 0xd800) + (ucast second - 0xdc00), rest)
               else Err InvalidUriEncoding)"

definition append_percent_bytes :: "u8 list \<Rightarrow> (uri_error, u16 list) outcome" where
  "append_percent_bytes bytes =
     (if list_all (\<lambda>b. unat (drop_bit 4 b) < length HEX \<and> unat (b AND 0x0f) < length HEX) bytes
      then Ok (concat (map (\<lambda>b. [0x25, ucast (HEX ! unat (drop_bit 4 b)), ucast (HEX ! unat (b AND 0x0f))]) bytes)) else Panic)"

definition hex_value :: "u16 \<Rightarrow> u8 option" where
  "hex_value unit =
     (if 0x30 \<le> unit \<and> unit \<le> 0x39 then Some (ucast (unit - 0x30))
      else if 0x41 \<le> unit \<and> unit \<le> 0x46 then Some (ucast (unit - 0x41 + 10))
      else if 0x61 \<le> unit \<and> unit \<le> 0x66 then Some (ucast (unit - 0x61 + 10))
      else None)"

definition read_percent_byte :: "u16 list \<Rightarrow> (uri_error, u8 \<times> u16 list) outcome" where
  "read_percent_byte units =
     (if get units 0 \<noteq> Some 0x25 then Err InvalidUriEncoding
      else and_then (ok_or InvalidUriEncoding (Option.bind (get units 1) hex_value)) (\<lambda>high.
           and_then (ok_or InvalidUriEncoding (Option.bind (get units 2) hex_value)) (\<lambda>low.
           Ok (push_bit 4 high OR low, drop 3 units))))"

definition utf8_sequence_length :: "u8 \<Rightarrow> nat option" where
  "utf8_sequence_length first =
     (if 0xc2 \<le> first \<and> first \<le> 0xdf then Some 2
      else if 0xe0 \<le> first \<and> first \<le> 0xef then Some 3
      else if 0xf0 \<le> first \<and> first \<le> 0xf4 then Some 4
      else None)"

definition append_utf16_scalar :: "u32 \<Rightarrow> u16 list" where
  "append_utf16_scalar scalar =
     (if scalar \<le> 0xffff then [ucast scalar]
      else let adjusted = scalar - 0x10000 in [0xd800 OR ucast (drop_bit 10 adjusted), 0xdc00 OR ucast (adjusted AND 0x3ff)])"

lemma and_then_cong [fundef_cong]:
  "m = m' \<Longrightarrow> (\<And>x. m' = Ok x \<Longrightarrow> f x = g x) \<Longrightarrow> and_then m f = and_then m' g"
  by (cases m') auto

lemma decode_utf16_scalar_shorter: "decode_utf16_scalar units = Ok (s, rest) \<Longrightarrow> length rest < length units"
  by (cases units) (auto split: if_splits list.splits)

declare decode_utf16_scalar.simps [simp del]

function encoded_uri_capacity_from :: "bool \<Rightarrow> u16 list \<Rightarrow> nat \<Rightarrow> (uri_error, nat) outcome" where
  "encoded_uri_capacity_from component [] capacity = Ok capacity"
| "encoded_uri_capacity_from component (unit # rest) capacity =
     and_then (if unit \<le> 0x7f \<and> is_uri_unescaped (ucast unit) component then Ok (1, rest)
               else and_then (decode_utf16_scalar (unit # rest)) (\<lambda>(scalar, rest).
                    and_then (ok_or InvalidUriEncoding (char_from_u32 scalar)) (\<lambda>c.
                    and_then (ok_or InvalidStringLength (usize_checked (length (encode_utf8 c) * 3))) (\<lambda>n. Ok (n, rest))))) (\<lambda>(n, rest).
     and_then (ok_or InvalidStringLength (usize_checked (capacity + n))) (\<lambda>capacity.
     encoded_uri_capacity_from component rest capacity))"
  by pat_completeness auto
termination
  by (relation "measure (\<lambda>(component, units, capacity). length units)")
    (auto simp: outcome_simps dest: decode_utf16_scalar_shorter split: if_splits)

definition encoded_uri_capacity :: "u16 list \<Rightarrow> bool \<Rightarrow> (uri_error, nat) outcome" where
  "encoded_uri_capacity units component = encoded_uri_capacity_from component units 0"

function encode_uri_from :: "bool \<Rightarrow> u16 list \<Rightarrow> (uri_error, u16 list) outcome" where
  "encode_uri_from component [] = Ok []"
| "encode_uri_from component (unit # rest) =
     (if unit \<le> 0x7f \<and> is_uri_unescaped (ucast unit) component
      then and_then (encode_uri_from component rest) (\<lambda>out. Ok (unit # out))
      else and_then (decode_utf16_scalar (unit # rest)) (\<lambda>(scalar, rest).
           and_then (ok_or InvalidUriEncoding (char_from_u32 scalar)) (\<lambda>c.
           and_then (append_percent_bytes (encode_utf8 c)) (\<lambda>bytes.
           and_then (encode_uri_from component rest) (\<lambda>out. Ok (bytes @ out))))))"
  by pat_completeness auto
termination
  by (relation "measure (\<lambda>(component, units). length units)") (auto dest: decode_utf16_scalar_shorter)

definition encode_uri_units :: "(nat \<Rightarrow> bool) \<Rightarrow> u16 list \<Rightarrow> bool \<Rightarrow> (uri_error, u16 list) outcome" where
  "encode_uri_units grants units component =
     and_then (encoded_uri_capacity units component) (\<lambda>capacity.
     if grants capacity then encode_uri_from component units else Err StringBufferAllocationFailed)"

fun read_percent_bytes :: "nat \<Rightarrow> u16 list \<Rightarrow> (uri_error, u8 list \<times> u16 list) outcome" where
  "read_percent_bytes 0 units = Ok ([], units)"
| "read_percent_bytes (Suc n) units =
     and_then (read_percent_byte units) (\<lambda>(b, units).
     and_then (read_percent_bytes n units) (\<lambda>(bs, units). Ok (b # bs, units)))"

lemma read_percent_byte_shorter: "read_percent_byte units = Ok (b, rest) \<Longrightarrow> length rest < length units"
  by (auto simp: read_percent_byte_def outcome_simps get_def split: if_splits)

lemma read_percent_bytes_shorter: "read_percent_bytes n units = Ok (bs, rest) \<Longrightarrow> length rest \<le> length units"
  by (induction n arbitrary: units bs) (fastforce simp: outcome_simps dest: read_percent_byte_shorter)+

function decode_uri_from :: "bool \<Rightarrow> u16 list \<Rightarrow> (uri_error, u16 list) outcome" where
  "decode_uri_from component [] = Ok []"
| "decode_uri_from component (unit # units) =
     (if unit \<noteq> 0x25 then and_then (decode_uri_from component units) (\<lambda>out. Ok (unit # out))
      else and_then (read_percent_byte (unit # units)) (\<lambda>(first, rest).
           if first < 0x80
           then and_then (decode_uri_from component rest) (\<lambda>out.
                Ok ((if \<not> component \<and> first \<in> set URI_RESERVED then take 3 (unit # units) else [ucast first]) @ out))
           else and_then (ok_or InvalidUriEncoding (utf8_sequence_length first)) (\<lambda>n.
                and_then (read_percent_bytes (n - 1) rest) (\<lambda>(bytes, rest).
                and_then (ok_or InvalidUriEncoding (utf8_chars (first # bytes))) (\<lambda>chars.
                case chars of
                  [scalar] \<Rightarrow> and_then (decode_uri_from component rest) (\<lambda>out. Ok (append_utf16_scalar scalar @ out))
                | _ \<Rightarrow> Err InvalidUriEncoding)))))"
  by pat_completeness auto
termination
  by (relation "measure (\<lambda>(component, units). length units)")
    (auto dest!: read_percent_byte_shorter read_percent_bytes_shorter)

definition decode_uri_units :: "(nat \<Rightarrow> bool) \<Rightarrow> u16 list \<Rightarrow> bool \<Rightarrow> (uri_error, u16 list) outcome" where
  "decode_uri_units grants units component =
     (if grants (length units) then decode_uri_from component units else Err StringBufferAllocationFailed)"

section \<open>Escapes\<close>

definition percent :: "u8 \<Rightarrow> u16 list" where
  "percent b = [0x25, ucast (HEX ! unat (drop_bit 4 b)), ucast (HEX ! unat (b AND 0x0f))]"

lemma hex_value_digit: "n < 16 \<Longrightarrow> hex_value (ucast (HEX ! n)) = Some (word_of_nat n)"
proof -
  have "list_all (\<lambda>n. hex_value (ucast (HEX ! n)) = Some (word_of_nat n)) [0..<16]"
    by (simp add: upt_rec HEX_def hex_value_def)
  then show "n < 16 \<Longrightarrow> ?thesis" by (simp add: list_all_iff)
qed

lemma nibbles:
  fixes b :: u8
  shows "unat (drop_bit 4 b) < 16" "unat (b AND 0x0f) < 16" "push_bit 4 (drop_bit 4 b) OR (b AND 0x0f) = b"
proof -
  have mask: "(0x0f :: u8) = mask 4" by (simp add: mask_eq_exp_minus_1)
  have "unat b < 256" using unsigned_less [of b, where 'a = nat] by simp
  moreover have "unat (drop_bit 4 b) = unat b div 2 ^ 4" by (simp only: unat_drop_bit_eq) (simp add: drop_bit_eq_div)
  ultimately show "unat (drop_bit 4 b) < 16" by simp
  show "unat (b AND 0x0f) < 16" by (simp only: mask take_bit_eq_mask [symmetric] unsigned_take_bit_eq) (simp add: take_bit_eq_mod)
  show "push_bit 4 (drop_bit 4 b) OR (b AND 0x0f) = b" unfolding mask by (rule bit_word_eqI) (auto simp: bit_simps)
qed

lemma read_percent_byte_percent: "read_percent_byte (percent b @ tail) = Ok (b, tail)"
  using hex_value_digit [OF nibbles(1) [of b]] hex_value_digit [OF nibbles(2) [of b]] nibbles(3) [of b]
  by (simp add: read_percent_byte_def percent_def get_def)

lemma HEX_length: "length HEX = 16"
  by (simp add: HEX_def)

lemma append_percent_bytes_eq: "append_percent_bytes bytes = Ok (concat (map percent bytes))"
  using nibbles by (simp add: append_percent_bytes_def percent_def [abs_def] list_all_iff HEX_length)

lemma read_percent_bytes_percent: "read_percent_bytes (length bytes) (concat (map percent bytes) @ tail) = Ok (bytes, tail)"
  by (induction bytes) (simp_all add: read_percent_byte_percent)

section \<open>UTF-8\<close>

lemma unat_u8: "n < 256 \<Longrightarrow> unat (word_of_nat n :: u8) = n"
  by (simp add: unat_of_nat)

lemmas u8_order = word_le_nat_alt word_less_nat_alt unat_u8

lemma u8_of_u32: "unat (c :: u32) < 256 \<Longrightarrow> unat (ucast c :: u8) = unat c"
  by (simp add: unsigned_ucast_eq take_bit_nat_eq_self)

lemma utf8_one: "unat c < 0x80 \<Longrightarrow> encode_utf8 c = [ucast c] \<and> (ucast c :: u8) < 0x80"
proof -
  assume c: "unat c < 0x80"
  then have small: "unat (ucast c :: u8) = unat c" by (intro u8_of_u32) simp
  then have "(ucast c :: u8) = word_of_nat (unat c)" by (metis of_nat_unat unsigned_ucast_eq ucast_id)
  then show ?thesis using c small by (simp add: encode_utf8_def word_less_nat_alt)
qed

definition utf8_sound :: "u32 \<Rightarrow> bool" where
  "utf8_sound c \<longleftrightarrow>
     (\<exists>first rest. encode_utf8 c = first # rest \<and> \<not> first < 0x80 \<and> utf8_sequence_length first = Some (Suc (length rest)) \<and>
        utf8_chars (first # rest) = Some [c])"

lemma utf8_two:
  assumes "0x80 \<le> unat c" "unat c < 0x800"
  shows "utf8_sound c"
proof -
  define n where "n = unat c"
  define b0 where "b0 = (word_of_nat (0xc0 + n div 64) :: u8)"
  define b1 where "b1 = (word_of_nat (0x80 + n mod 64) :: u8)"
  have n: "2 \<le> n div 64" "n div 64 < 32" "n mod 64 < 64" using assms by (auto simp: n_def)
  have u0: "unat b0 = 0xc0 + n div 64" unfolding b0_def using n by (intro unat_u8) linarith
  have u1: "unat b1 = 0x80 + n mod 64" unfolding b1_def using n by (intro unat_u8) linarith
  have enc: "encode_utf8 c = [b0, b1]" using assms by (simp add: encode_utf8_def Let_def n_def b0_def b1_def)
  have "word_of_nat (n div 64 * 64 + n mod 64) = c" by (simp add: n_def)
  then have "utf8_chars [b0, b1] = Some [c]"
    using n by (simp add: u0 u1 word_le_nat_alt word_less_nat_alt continuation_def tail_bits_def)
  then show ?thesis using enc n by (simp add: u0 utf8_sound_def utf8_sequence_length_def word_le_nat_alt word_less_nat_alt)
qed

lemma mod64: "(n :: nat) mod 64 \<le> 63"
  using mod_less_divisor [of 64 n] by linarith

lemma three_digits: "n = n div 4096 * 4096 + n div 64 mod 64 * 64 + (n :: nat) mod 64"
proof -
  have "n div 64 * 64 + n mod 64 = n" by (rule div_mult_mod_eq)
  moreover have "n div 64 div 64 * 64 + n div 64 mod 64 = n div 64" by (rule div_mult_mod_eq)
  moreover have "n div 4096 = n div 64 div 64" by (simp add: div_mult2_eq [symmetric])
  ultimately show ?thesis by linarith
qed

lemma utf8_three:
  assumes "0x800 \<le> unat c" "unat c < 0x10000" "\<not> (0xd800 \<le> c \<and> c \<le> 0xdfff)"
  shows "utf8_sound c"
proof -
  define n where "n = unat c"
  define b0 where "b0 = (word_of_nat (0xe0 + n div 4096) :: u8)"
  define b1 where "b1 = (word_of_nat (0x80 + n div 64 mod 64) :: u8)"
  define b2 where "b2 = (word_of_nat (0x80 + n mod 64) :: u8)"
  have n: "n div 4096 < 16" "n mod 64 < 64" "n div 64 mod 64 < 64" using assms by (auto simp: n_def)
  have digits: "n = n div 4096 * 4096 + n div 64 mod 64 * 64 + n mod 64" by (rule three_digits)
  have u0: "unat b0 = 0xe0 + n div 4096" unfolding b0_def using n by (intro unat_u8) linarith
  have u1: "unat b1 = 0x80 + n div 64 mod 64" unfolding b1_def using n by (intro unat_u8) linarith
  have u2: "unat b2 = 0x80 + n mod 64" unfolding b2_def using n by (intro unat_u8) linarith
  have enc: "encode_utf8 c = [b0, b1, b2]" using assms by (simp add: encode_utf8_def Let_def n_def b0_def b1_def b2_def)
  have low: "n div 4096 = 0 \<Longrightarrow> 32 \<le> n div 64 mod 64" using assms(1) digits n unfolding n_def [symmetric] by linarith
  have surrogate: "n div 4096 = 13 \<Longrightarrow> n div 64 mod 64 \<le> 31"
    using assms(3) digits n unfolding n_def [symmetric] word_le_nat_alt by (simp add: n_def [symmetric])
  have b0: "b0 = 0xe0 \<longleftrightarrow> n div 4096 = 0" "b0 = 0xed \<longleftrightarrow> n div 4096 = 13" by (auto simp: word_eq_iff_unsigned [where 'a = nat] u0)
  have "word_of_nat (n div 4096 * 4096 + n div 64 mod 64 * 64 + n mod 64) = c" unfolding digits [symmetric] by (simp add: n_def)
  then have "utf8_chars [b0, b1, b2] = Some [c]"
    using n low surrogate by (simp add: b0 u0 u1 u2 word_le_nat_alt word_less_nat_alt continuation_def tail_bits_def mod64)
  then show ?thesis using enc n by (simp add: u0 utf8_sound_def utf8_sequence_length_def word_le_nat_alt word_less_nat_alt)
qed

lemma four_digits: "n = n div 262144 * 262144 + n div 4096 mod 64 * 4096 + n div 64 mod 64 * 64 + (n :: nat) mod 64"
proof -
  have "n div 4096 div 64 * 64 + n div 4096 mod 64 = n div 4096" by (rule div_mult_mod_eq)
  moreover have "n div 262144 = n div 4096 div 64" by (simp add: div_mult2_eq [symmetric])
  ultimately show ?thesis using three_digits [of n] by linarith
qed

lemma utf8_four:
  assumes "0x10000 \<le> unat c" "c \<le> 0x10ffff"
  shows "utf8_sound c"
proof -
  define n where "n = unat c"
  define b0 where "b0 = (word_of_nat (0xf0 + n div 262144) :: u8)"
  define b1 where "b1 = (word_of_nat (0x80 + n div 4096 mod 64) :: u8)"
  define b2 where "b2 = (word_of_nat (0x80 + n div 64 mod 64) :: u8)"
  define b3 where "b3 = (word_of_nat (0x80 + n mod 64) :: u8)"
  have top: "n \<le> 0x10ffff" using assms(2) by (simp add: n_def word_le_nat_alt)
  have n: "n div 262144 \<le> 4" "n mod 64 < 64" "n div 64 mod 64 < 64" "n div 4096 mod 64 < 64" using top by auto
  note digits = four_digits [of n]
  have u0: "unat b0 = 0xf0 + n div 262144" unfolding b0_def using n by (intro unat_u8) linarith
  have u1: "unat b1 = 0x80 + n div 4096 mod 64" unfolding b1_def using n by (intro unat_u8) linarith
  have u2: "unat b2 = 0x80 + n div 64 mod 64" unfolding b2_def using n by (intro unat_u8) linarith
  have u3: "unat b3 = 0x80 + n mod 64" unfolding b3_def using n by (intro unat_u8) linarith
  have enc: "encode_utf8 c = [b0, b1, b2, b3]" using assms by (simp add: encode_utf8_def Let_def n_def b0_def b1_def b2_def b3_def)
  have low: "n div 262144 = 0 \<Longrightarrow> 16 \<le> n div 4096 mod 64" using assms(1) digits n unfolding n_def [symmetric] by linarith
  have high: "n div 262144 = 4 \<Longrightarrow> n div 4096 mod 64 \<le> 15" using top digits n by linarith
  have b0: "b0 = 0xf0 \<longleftrightarrow> n div 262144 = 0" "b0 = 0xf4 \<longleftrightarrow> n div 262144 = 4" by (auto simp: word_eq_iff_unsigned [where 'a = nat] u0)
  have "word_of_nat (n div 262144 * 262144 + n div 4096 mod 64 * 4096 + n div 64 mod 64 * 64 + n mod 64) = c"
    unfolding digits [symmetric] by (simp add: n_def)
  then have "utf8_chars [b0, b1, b2, b3] = Some [c]"
    using n low high by (simp add: b0 u0 u1 u2 u3 word_le_nat_alt word_less_nat_alt continuation_def tail_bits_def mod64)
  then show ?thesis using enc n by (simp add: u0 utf8_sound_def utf8_sequence_length_def word_le_nat_alt word_less_nat_alt)
qed

lemma utf8_roundtrip:
  assumes "char_from_u32 c = Some d" "\<not> unat c < 0x80"
  shows "utf8_sound c"
proof -
  have c: "c \<le> 0x10ffff" "\<not> (0xd800 \<le> c \<and> c \<le> 0xdfff)" using assms(1) by (auto simp: char_from_u32_def split: if_splits)
  consider "unat c < 0x800" | "0x800 \<le> unat c" "unat c < 0x10000" | "0x10000 \<le> unat c" by linarith
  then show ?thesis using assms(2) c by cases (simp_all add: utf8_two utf8_three utf8_four)
qed

section \<open>UTF-16\<close>

lemma or_small:
  assumes "x = 0xd800 \<or> x = 0xdc00" "a < 0x400"
  shows "x OR word_of_nat a = (x + word_of_nat a :: u16)"
proof -
  have "unat (word_of_nat a :: u16) < 2 ^ 10" using assms(2) by (simp add: unat_of_nat)
  then have "bit (word_of_nat a :: u16) n \<Longrightarrow> n < 10" for n by (rule small_word_bit)
  moreover have "bit x n \<Longrightarrow> \<not> n < 10" for n
    using assms(1) by (auto simp: less_Suc_eq numeral_eq_Suc bit_simps)
  ultimately have "x AND word_of_nat a = 0" by (intro bit_word_eqI) (auto simp: bit_simps)
  then show ?thesis by (simp add: disjunctive_add_eq_or)
qed

lemma u16_split:
  fixes w :: u16
  assumes "base \<le> unat w" "unat w < base + 0x400"
  shows "\<exists>a < 0x400. w = word_of_nat (base + a)"
proof (intro exI conjI)
  show "unat w - base < 0x400" using assms by linarith
  have "base + (unat w - base) = unat w" using assms(1) by simp
  then show "w = word_of_nat (base + (unat w - base))" by (simp only: of_nat_unat ucast_id)
qed

lemma surrogate_pair:
  fixes first second :: u16
  assumes "0xd800 \<le> first" "first \<le> 0xdbff" "0xdc00 \<le> second" "second \<le> 0xdfff"
  defines "s \<equiv> 0x10000 + push_bit 10 (ucast first - 0xd800) + (ucast second - 0xdc00) :: u32"
  shows "append_utf16_scalar s = [first, second]" "char_from_u32 s = Some s" "\<not> unat s < 0x80"
proof -
  obtain a where a: "a < 0x400" "first = word_of_nat (0xd800 + a)" using assms(1,2) u16_split [where base = "0xd800" and w = first] by (auto simp: word_le_nat_alt simp del: of_nat_add)
  obtain b where b: "b < 0x400" "second = word_of_nat (0xdc00 + b)" using assms(3,4) u16_split [where base = "0xdc00" and w = second] by (auto simp: word_le_nat_alt simp del: of_nat_add)
  have widen: "ucast (word_of_nat n :: u16) = (word_of_nat n :: u32)" if "n < 65536" for n
    using that by (simp add: word_eq_iff_unsigned [where 'a = nat] unsigned_ucast_eq unat_of_nat take_bit_nat_eq_self)
  have sum: "s = word_of_nat (0x10000 + a * 1024 + b)"
    using a(1) b(1) widen [of "0xd800 + a"] widen [of "0xdc00 + b"] by (simp add: s_def a(2) b(2) push_bit_eq_mult)
  have unat: "unat s = 0x10000 + a * 1024 + b" unfolding sum using a(1) b(1) by (intro unat_u32_of_nat) simp
  define d where "d = s - 0x10000"
  have d: "d = word_of_nat (a * 1024 + b)" using sum by (simp add: d_def)
  have ud: "unat d = a * 1024 + b" unfolding d using a(1) b(1) by (intro unat_u32_of_nat) simp
  have narrow: "ucast w = (word_of_nat n :: u16)" if "unat w = n" "n < 65536" for w :: u32 and n
    using that by (simp add: word_eq_iff_unsigned [where 'a = nat] unsigned_ucast_eq unat_of_nat take_bit_nat_eq_self)
  have "unat (drop_bit 10 d) = a" using ud b(1) by (simp only: unat_drop_bit_eq) (simp add: drop_bit_eq_div)
  then have high: "ucast (drop_bit 10 d) = (word_of_nat a :: u16)" using a(1) by (intro narrow) simp_all
  have "unat (d AND 0x3ff) = b"
  proof -
    have "d AND 0x3ff = take_bit 10 d" by (simp add: take_bit_eq_mask mask_eq_exp_minus_1)
    then show ?thesis using ud b(1) by (simp only: unsigned_take_bit_eq) (simp add: take_bit_eq_mod)
  qed
  then have low: "ucast (d AND 0x3ff) = (word_of_nat b :: u16)" using b(1) by (intro narrow) simp_all
  have "\<not> s \<le> 0xffff" using unat by (simp add: word_le_nat_alt)
  then show "append_utf16_scalar s = [first, second]"
    using high low or_small [OF _ a(1), of "0xd800"] or_small [OF _ b(1), of "0xdc00"]
    by (simp add: append_utf16_scalar_def d_def [symmetric] Let_def a(2) b(2))
  show "char_from_u32 s = Some s" using unat a(1) b(1) by (simp add: char_from_u32_def word_le_nat_alt)
  show "\<not> unat s < 0x80" using unat by simp
qed

fun well_formed_utf16 :: "u16 list \<Rightarrow> bool" where
  "well_formed_utf16 [] \<longleftrightarrow> True"
| "well_formed_utf16 (u # us) \<longleftrightarrow>
     (if 0xd800 \<le> u \<and> u \<le> 0xdbff then (case us of v # vs \<Rightarrow> 0xdc00 \<le> v \<and> v \<le> 0xdfff \<and> well_formed_utf16 vs | [] \<Rightarrow> False)
      else \<not> (0xdc00 \<le> u \<and> u \<le> 0xdfff) \<and> well_formed_utf16 us)"

lemma unat_u16_u32: "unat (ucast (u :: u16) :: u32) = unat u"
  using unsigned_less [of u, where 'a = nat] by (simp add: unsigned_ucast_eq take_bit_nat_eq_self)

lemma ucast_u16_u32: "ucast (ucast (u :: u16) :: u32) = u"
  by (rule bit_word_eqI) (auto simp: bit_simps)

lemma ucast_u16_u32_u8: "ucast (ucast (u :: u16) :: u32) = (ucast u :: u8)"
  by (rule bit_word_eqI) (auto simp: bit_simps)

lemma plain_unit:
  fixes u :: u16
  assumes "\<not> (0xd800 \<le> u \<and> u \<le> 0xdfff)"
  shows "append_utf16_scalar (ucast u) = [u]" "char_from_u32 (ucast u) = Some (ucast u)"
proof -
  note u = unat_u16_u32 [of u]
  have "unat u < 65536" using unsigned_less [of u, where 'a = nat] by simp
  then have "(ucast u :: u32) \<le> 0xffff" by (simp add: word_le_nat_alt u)
  then show "append_utf16_scalar (ucast u) = [u]" by (simp add: append_utf16_scalar_def ucast_u16_u32)
  show "char_from_u32 (ucast u) = Some (ucast u)"
    using assms \<open>unat u < 65536\<close> by (auto simp: char_from_u32_def word_le_nat_alt u)
qed

lemma not_surrogate:
  fixes u :: u16
  assumes "\<not> (0xd800 \<le> u \<and> u \<le> 0xdfff)"
  shows "\<not> (0xd800 \<le> u \<and> u \<le> 0xdbff)" "\<not> (0xdc00 \<le> u \<and> u \<le> 0xdfff)"
  using assms order_trans [of u "0xdbff" "0xdfff"] order_trans [of "0xd800" "0xdc00" u] by auto

lemma decode_utf16_scalar_cases:
  obtains (scalar) s rest where "decode_utf16_scalar (u # us) = Ok (s, rest)" "u # us = append_utf16_scalar s @ rest" "char_from_u32 s = Some s"
      "well_formed_utf16 (u # us) \<longleftrightarrow> well_formed_utf16 rest" "unat s < 0x80 \<longrightarrow> s = ucast u \<and> u \<le> 0x7f" "length rest < length (u # us)"
  | (lone) "decode_utf16_scalar (u # us) = Err InvalidUriEncoding" "\<not> well_formed_utf16 (u # us)"
proof (cases "0xd800 \<le> u \<and> u \<le> 0xdfff")
  case False
  then have "decode_utf16_scalar (u # us) = Ok (ucast u, us)" by (simp add: decode_utf16_scalar.simps)
  moreover have "well_formed_utf16 (u # us) \<longleftrightarrow> well_formed_utf16 us"
    using not_surrogate [OF False] by auto
  moreover have "u \<le> 0x7f" if "unat (ucast u :: u32) < 0x80" using that by (simp add: unat_u16_u32 word_le_nat_alt)
  ultimately show thesis using plain_unit [OF False] by (intro scalar [of "ucast u" us]) simp_all
next
  case surrogate: True
  show thesis
  proof (cases "u \<le> 0xdbff \<and> (\<exists>v vs. us = v # vs \<and> 0xdc00 \<le> v \<and> v \<le> 0xdfff)")
    case True
    then obtain v vs where v: "us = v # vs" "0xdc00 \<le> v" "v \<le> 0xdfff" "u \<le> 0xdbff" by blast
    let ?s = "0x10000 + push_bit 10 (ucast u - 0xd800) + (ucast v - 0xdc00) :: u32"
    have "decode_utf16_scalar (u # us) = Ok (?s, vs)" using surrogate v by (simp add: decode_utf16_scalar.simps not_less)
    moreover have "well_formed_utf16 (u # us) \<longleftrightarrow> well_formed_utf16 vs" using surrogate v by simp
    ultimately show thesis using scalar [of ?s vs] surrogate_pair [of u v] surrogate v by simp
  next
    case False
    have low: "0xdc00 \<le> u" if "\<not> u \<le> 0xdbff" using that by (simp add: word_le_nat_alt)
    have "decode_utf16_scalar (u # us) = Err InvalidUriEncoding"
      using surrogate False by (cases us) (auto simp: decode_utf16_scalar.simps)
    moreover have "\<not> well_formed_utf16 (u # us)" using surrogate False low by (cases us) auto
    ultimately show thesis by (rule lone)
  qed
qed

section \<open>Round trip\<close>

lemma percent_not_unescaped: "\<not> is_uri_unescaped 0x25 component"
  by (simp add: is_uri_unescaped_def is_ascii_alphanumeric_def URI_MARK_def URI_RESERVED_def)

lemma decode_escaped:
  assumes s: "char_from_u32 s = Some s" and ascii: "unat s < 0x80 \<Longrightarrow> \<not> is_uri_unescaped (ucast s) component"
  shows "decode_uri_from component (concat (map percent (encode_utf8 s)) @ tail) =
    and_then (decode_uri_from component tail) (\<lambda>out. Ok (append_utf16_scalar s @ out))"
proof (cases "unat s < 0x80")
  case True
  note one = utf8_one [OF True]
  have small: "unat (ucast s :: u8) = unat s" using True by (intro u8_of_u32) simp
  have wide: "(ucast (ucast s :: u8) :: u16) = ucast s"
    using True by (intro ucast_latin1_u32) (simp add: word_le_nat_alt)
  have "s \<le> 0xffff" using True by (simp add: word_le_nat_alt)
  moreover have "\<not> component \<Longrightarrow> (ucast s :: u8) \<notin> set URI_RESERVED" using ascii [OF True] by (simp add: is_uri_unescaped_def)
  moreover have "read_percent_byte (0x25 # tl (percent (ucast s)) @ tail) = Ok (ucast s, tail)"
    using read_percent_byte_percent [of "ucast s" tail] by (simp add: percent_def)
  ultimately show ?thesis
    using one wide by (auto simp: percent_def append_utf16_scalar_def)
next
  case False
  then obtain first rest where e: "encode_utf8 s = first # rest" "\<not> first < 0x80" "utf8_sequence_length first = Some (Suc (length rest))"
    "utf8_chars (first # rest) = Some [s]"
    using utf8_roundtrip [OF s] unfolding utf8_sound_def by blast
  let ?bytes = "concat (map percent rest) @ tail"
  have "read_percent_byte (0x25 # tl (percent first) @ ?bytes) = Ok (first, ?bytes)"
    using read_percent_byte_percent [of first ?bytes] by (simp add: percent_def)
  then show ?thesis using e read_percent_bytes_percent [of rest tail] by (simp add: percent_def)
qed

lemma encode_decode:
  "case encode_uri_from component units of
     Ok out \<Rightarrow> well_formed_utf16 units \<and> decode_uri_from component out = Ok units
   | Err e \<Rightarrow> e = InvalidUriEncoding \<and> \<not> well_formed_utf16 units
   | Panic \<Rightarrow> False"
proof (induction component units rule: encode_uri_from.induct)
  case (2 component u us)
  show ?case
  proof (cases "u \<le> 0x7f \<and> is_uri_unescaped (ucast u) component")
    case True
    have "u \<noteq> 0x25" using True percent_not_unescaped by auto
    moreover have "well_formed_utf16 (u # us) \<longleftrightarrow> well_formed_utf16 us" using True by (auto simp: word_le_nat_alt)
    ultimately show ?thesis
      using True 2(1) [OF True] by (cases "encode_uri_from component us") simp_all
  next
    case escaped: False
    show ?thesis
    proof (cases rule: decode_utf16_scalar_cases [where u = u and us = us])
      case (scalar s rest)
      note 1 = scalar
      have run: "encode_uri_from component (u # us) =
          and_then (encode_uri_from component rest) (\<lambda>out. Ok (concat (map percent (encode_utf8 s)) @ out))"
        using escaped 1(1,3) by (auto simp: append_percent_bytes_eq)
      have ih: "case encode_uri_from component rest of
          Ok out \<Rightarrow> well_formed_utf16 rest \<and> decode_uri_from component out = Ok rest
        | Err e \<Rightarrow> e = InvalidUriEncoding \<and> \<not> well_formed_utf16 rest
        | Panic \<Rightarrow> False"
        using 2(2) [OF escaped 1(1) refl] 1(3) append_percent_bytes_eq by simp
      have "\<not> is_uri_unescaped (ucast s) component" if "unat s < 0x80"
        using that escaped 1(5) by (auto simp: ucast_u16_u32_u8)
      then show ?thesis
        using ih decode_escaped [OF 1(3), of component] 1(2,4) unfolding run by (cases "encode_uri_from component rest") auto
    next
      case lone
      then show ?thesis using escaped by auto
    qed
  qed
qed simp

section \<open>Exact capacity\<close>

lemma encode_utf8_length: "length (encode_utf8 c) \<le> 4"
  by (simp add: encode_utf8_def Let_def)

lemma percent_length: "length (concat (map percent bytes)) = 3 * length bytes"
  by (induction bytes) (simp_all add: percent_def)

lemma capacity_exact:
  assumes "capacity + 12 * length units < 2 ^ 64"
  shows "encoded_uri_capacity_from component units capacity =
    and_then (encode_uri_from component units) (\<lambda>out. Ok (capacity + length out))"
  using assms
proof (induction component units arbitrary: capacity rule: encode_uri_from.induct)
  case (2 component u us)
  show ?case
  proof (cases "u \<le> 0x7f \<and> is_uri_unescaped (ucast u) component")
    case True
    have "usize_checked (capacity + 1) = Some (capacity + 1)" using 2(3) by (simp add: usize_checked_def)
    then show ?thesis using True 2(1) [OF True, of "capacity + 1"] 2(3) by (cases "encode_uri_from component us") simp_all
  next
    case escaped: False
    show ?thesis
    proof (cases rule: decode_utf16_scalar_cases [where u = u and us = us])
      case (scalar s rest)
      have bytes: "length (encode_utf8 s) * 3 \<le> 12" using encode_utf8_length [of s] by simp
      then have checked: "usize_checked (length (encode_utf8 s) * 3) = Some (length (encode_utf8 s) * 3)"
        "usize_checked (capacity + length (encode_utf8 s) * 3) = Some (capacity + length (encode_utf8 s) * 3)"
        using 2(3) by (simp_all add: usize_checked_def)
      have "capacity + length (encode_utf8 s) * 3 + 12 * length rest < 2 ^ 64" using bytes 2(3) scalar(6) by simp
      then have ih: "encoded_uri_capacity_from component rest (capacity + length (encode_utf8 s) * 3) =
          and_then (encode_uri_from component rest) (\<lambda>out. Ok (capacity + length (encode_utf8 s) * 3 + length out))"
        using 2(2) [OF escaped scalar(1) refl] scalar(3) append_percent_bytes_eq by simp
      have "encoded_uri_capacity_from component (u # us) capacity = encoded_uri_capacity_from component rest (capacity + length (encode_utf8 s) * 3)"
        using escaped scalar(1,3) checked by auto
      moreover have "encode_uri_from component (u # us) =
          and_then (encode_uri_from component rest) (\<lambda>out. Ok (concat (map percent (encode_utf8 s)) @ out))"
        using escaped scalar(1,3) by (auto simp: append_percent_bytes_eq)
      ultimately show ?thesis using ih by (cases "encode_uri_from component rest") (simp_all add: percent_length)
    next
      case lone
      then show ?thesis using escaped by auto
    qed
  qed
qed simp

text \<open>C21. \<open>decodeURI\<close> undoes \<open>encodeURI\<close> and \<open>decodeURIComponent\<close> undoes \<open>encodeURIComponent\<close>: encoding succeeds exactly
  on well-formed UTF-16, reports a lone surrogate otherwise, fills exactly the capacity it reserves, and decoding what it
  returns gives back the input.\<close>
theorem uri_codec_roundtrip:
  assumes "\<And>n. grants n" "12 * length units < 2 ^ 64"
  shows "case encode_uri_units grants units component of
      Ok out \<Rightarrow> well_formed_utf16 units \<and> encoded_uri_capacity units component = Ok (length out) \<and>
        decode_uri_units grants out component = Ok units
    | Err e \<Rightarrow> e = InvalidUriEncoding \<and> \<not> well_formed_utf16 units
    | Panic \<Rightarrow> False"
proof -
  have capacity: "encoded_uri_capacity units component = and_then (encode_uri_from component units) (\<lambda>out. Ok (length out))"
    using capacity_exact [where capacity = 0 and units = units and component = component] assms(2) by (simp add: encoded_uri_capacity_def)
  show ?thesis
    using encode_decode [where component = component and units = units] assms(1) unfolding encode_uri_units_def decode_uri_units_def capacity
    by (cases "encode_uri_from component units") simp_all
qed

theorem uri_codec_roundtrip_witness:
  "case encode_uri_units (\<lambda>_. True) [0x2f, 0xe9, 0xd83d, 0xde00] True of
      Ok out \<Rightarrow> decode_uri_units (\<lambda>_. True) out True = Ok [0x2f, 0xe9, 0xd83d, 0xde00]
    | Err e \<Rightarrow> False
    | Panic \<Rightarrow> False"
  using uri_codec_roundtrip [of "\<lambda>_. True" "[0x2f, 0xe9, 0xd83d, 0xde00]" True] by (auto split: outcome.splits)

end
